(* ===== verification/Prelude.thy ===== *)
theory Prelude
  imports Main "HOL-Library.Word" "HOL-Library.Monad_Syntax" "HOL-Library.State_Monad"
begin

text \<open>Types, checked byte-buffer accesses, little-endian words and the combinator for steps that
  may fail, shared by the component theories.\<close>

unbundle bit_operations_syntax

type_synonym u8 = "8 word"
type_synonym u16 = "16 word"
type_synonym u32 = "32 word"
type_synonym u64 = "64 word"
type_synonym bytes = "u8 list"

text \<open>The cast of a \<open>size_t\<close> to \<open>uint16_t\<close>.\<close>

definition cast16 :: "nat \<Rightarrow> nat" where
  "cast16 x = x mod 65536"

lemma cast16_code [code]: "cast16 x = nat (int x mod 65536)"
  by (simp add: cast16_def nat_mod_distrib)

lemma cast16_id [simp]: "x < 65536 \<Longrightarrow> cast16 x = x"
  by (simp add: cast16_def)

named_theorems mem_simps \<open>checked memory accesses that stay in range\<close>

section \<open>Little-endian words\<close>

definition le32_of :: "u8 \<Rightarrow> u8 \<Rightarrow> u8 \<Rightarrow> u8 \<Rightarrow> u32" where
  "le32_of a b c d =
     ucast a OR push_bit 8 (ucast b) OR
     push_bit 16 (ucast c) OR push_bit 24 (ucast d)"

definition bytes_of32 :: "u32 \<Rightarrow> bytes" where
  "bytes_of32 v = [ucast v, ucast (drop_bit 8 v),
     ucast (drop_bit 16 v), ucast (drop_bit 24 v)]"

lemma length_bytes_of32 [simp]: "length (bytes_of32 v) = 4"
  by (simp add: bytes_of32_def)

lemma bit_byte_high [simp]: "8 \<le> n \<Longrightarrow> \<not> bit (a :: u8) n"
  by (auto dest: bit_imp_le_length)

lemma le32_of_bytes_of32 [simp]:
  "le32_of (ucast v) (ucast (drop_bit 8 v)) (ucast (drop_bit 16 v)) (ucast (drop_bit 24 v)) = v"
proof (rule bit_word_eqI)
  fix n assume "n < LENGTH(32)"
  then have "n < 32" by simp
  then consider "n < 8" | "8 \<le> n" "n < 16" | "16 \<le> n" "n < 24" | "24 \<le> n" "n < 32" by linarith
  then show "bit (le32_of (ucast v) (ucast (drop_bit 8 v)) (ucast (drop_bit 16 v))
    (ucast (drop_bit 24 v))) n = bit v n"
    by cases (auto simp: le32_of_def bit_simps)
qed

lemma bytes_of32_le32_of [simp]: "bytes_of32 (le32_of a b c d) = [a, b, c, d]"
  unfolding bytes_of32_def le32_of_def
  by (auto intro!: bit_word_eqI simp: bit_simps)

section \<open>Checked memory\<close>

text \<open>A read outside the buffer is undefined behaviour in the source; here it is \<^term>\<open>None\<close>.\<close>

definition rd8 :: "bytes \<Rightarrow> nat \<Rightarrow> u8 option" where
  "rd8 xs i = (if i < length xs then Some (xs ! i) else None)"

definition rd32 :: "bytes \<Rightarrow> nat \<Rightarrow> u32 option" where
  "rd32 xs i = do {
     a \<leftarrow> rd8 xs i;
     b \<leftarrow> rd8 xs (i + 1);
     c \<leftarrow> rd8 xs (i + 2);
     d \<leftarrow> rd8 xs (i + 3);
     Some (le32_of a b c d) }"

definition word_at :: "bytes \<Rightarrow> nat \<Rightarrow> u32" where
  "word_at xs i = le32_of (xs ! i) (xs ! (i + 1)) (xs ! (i + 2)) (xs ! (i + 3))"

lemma rd8_in [mem_simps]: "i < length xs \<Longrightarrow> rd8 xs i = Some (xs ! i)"
  by (simp add: rd8_def)

lemma rd32_in [mem_simps]: "i + 3 < length xs \<Longrightarrow> rd32 xs i = Some (word_at xs i)"
  by (simp add: rd32_def rd8_def word_at_def)

text \<open>A copy loop reads a whole range and writes it; both are checked in the same way.\<close>

definition rd_bytes :: "bytes \<Rightarrow> nat \<Rightarrow> nat \<Rightarrow> bytes option" where
  "rd_bytes xs off n = (if off + n \<le> length xs then Some (take n (drop off xs)) else None)"

definition wr :: "bytes \<Rightarrow> nat \<Rightarrow> bytes \<Rightarrow> bytes option" where
  "wr xs off ys = (if off + length ys \<le> length xs
     then Some (take off xs @ ys @ drop (off + length ys) xs) else None)"

lemma rd_bytes_in [mem_simps]: "off + n \<le> length xs \<Longrightarrow> rd_bytes xs off n = Some (take n (drop off xs))"
  by (simp add: rd_bytes_def)

text \<open>Writes and reads of a buffer given by its consecutive parts.\<close>

lemma wr_append:
  "length ys = length zs \<Longrightarrow> n = length xs \<Longrightarrow> wr (xs @ zs @ ws) n ys = Some (xs @ ys @ ws)"
  by (simp add: wr_def)

lemma word_at_append:
  "word_at (xs @ ys) i = (if i + 3 < length xs then word_at xs i
     else if length xs \<le> i then word_at ys (i - length xs) else word_at (xs @ ys) i)"
  by (auto simp: word_at_def nth_append Suc_diff_le)

lemma word_at_bytes_of32 [simp]: "word_at (bytes_of32 v @ xs) 0 = v"
  by (simp add: word_at_def bytes_of32_def nth_append)

section \<open>Steps that may fail\<close>

text \<open>The code's \<open>if (!step()) break;\<close> and \<open>a() && b()\<close>: a step returns whether it succeeded
  and the state it leaves, and the next step runs only after a success.\<close>

definition andThen :: "bool \<times> 's \<Rightarrow> ('s \<Rightarrow> bool \<times> 's) \<Rightarrow> bool \<times> 's" where
  "andThen r f = (case r of (ok, s) \<Rightarrow> if ok then f s else (False, s))"

text \<open>\<open>outcome Q E r\<close>: a success leaves a state in \<open>Q\<close>, a failure one in \<open>E\<close>.\<close>

definition outcome :: "('s \<Rightarrow> bool) \<Rightarrow> ('s \<Rightarrow> bool) \<Rightarrow> bool \<times> 's \<Rightarrow> bool" where
  "outcome Q E r = (case r of (ok, s) \<Rightarrow> if ok then Q s else E s)"

lemma andThen_simps [simp]:
  "andThen (True, s) f = f s" "andThen (False, s) f = (False, s)"
  by (simp_all add: andThen_def)

lemma outcome_simps [simp]:
  "outcome Q E (True, s) = Q s" "outcome Q E (False, s) = E s"
  by (simp_all add: outcome_def)

lemma outcome_andThen:
  "outcome Q E r \<Longrightarrow> (\<And>s. Q s \<Longrightarrow> outcome R E (f s)) \<Longrightarrow> outcome R E (andThen r f)"
  by (cases r) (auto simp: outcome_def andThen_def split: if_splits)

lemma outcome_weaken:
  "outcome Q E r \<Longrightarrow> (\<And>s. Q s \<Longrightarrow> Q' s) \<Longrightarrow> (\<And>s. E s \<Longrightarrow> E' s) \<Longrightarrow> outcome Q' E' r"
  by (cases r) (auto simp: outcome_def split: if_splits)

section \<open>Wire formats\<close>

text \<open>The contract of a self-delimiting wire format: a valid value is decoded from its encoding,
  whatever bytes follow it.\<close>

locale wire_format =
  fixes valid :: "'a \<Rightarrow> bool"
    and enc :: "'a \<Rightarrow> bytes"
    and dec :: "bytes \<Rightarrow> 'a option"
  assumes roundtrip: "valid x \<Longrightarrow> dec (enc x @ rest) = Some x"
begin

lemma unambiguous: "valid x \<Longrightarrow> valid y \<Longrightarrow> enc x @ r = enc y @ s \<Longrightarrow> x = y \<and> r = s"
  by (metis option.inject roundtrip same_append_eq)

lemma exact: "valid x \<Longrightarrow> dec (enc x) = Some x"
  using roundtrip [of x "[]"] by simp

end

section \<open>Lists\<close>

lemma concat_map_upt_cong:
  "(\<And>i. i < n \<Longrightarrow> f i = g i) \<Longrightarrow> concat (map f [0..<n]) = concat (map g [0..<n])"
  by (rule arg_cong [where f = concat]) (rule map_cong, auto)

lemma upt_split_add: "[0..<a + b] = [0..<a] @ map (\<lambda>i. a + i) [0..<b]"
  by (induction b) auto

end
