(* ===== verification/FirmwarePlan.thy ===== *)
theory FirmwarePlan
  imports Prelude
begin

text \<open>The firmware container parser \<open>parse\<close> and the chunk lookup \<open>chunkAt\<close> of
  \<open>src/FirmwarePlan.hpp\<close>: the model, the well-formedness of a parsed plan and the proof that
  its chunks tile the image.\<close>

section \<open>Constants and data\<close>

definition maxImages :: nat where [simp]: "maxImages = 64"
definition maxSections :: nat where [simp]: "maxSections = 10"
definition packetBytes :: u32 where [simp]: "packetBytes = 2020"

datatype Status =
    St_ok | St_truncated | St_badContainer | St_tooManyImages | St_imageBounds | St_imageOverlap
  | St_ambiguousImage | St_noMatchingImage | St_unsupportedHeader | St_wrongFamily
  | St_sectionCount | St_dynamicHeader | St_unsupportedSection | St_sectionBounds
  | St_addressOverflow | St_trailingData

fun statusName :: "Status \<Rightarrow> string" where
  "statusName St_ok = ''LAYOUT_VALIDATED''"
| "statusName St_truncated = ''TRUNCATED''"
| "statusName St_badContainer = ''BAD_CONTAINER''"
| "statusName St_tooManyImages = ''TOO_MANY_IMAGES''"
| "statusName St_imageBounds = ''IMAGE_BOUNDS''"
| "statusName St_imageOverlap = ''IMAGE_OVERLAP''"
| "statusName St_ambiguousImage = ''AMBIGUOUS_IMAGE''"
| "statusName St_noMatchingImage = ''NO_MATCHING_IMAGE''"
| "statusName St_unsupportedHeader = ''UNSUPPORTED_HEADER''"
| "statusName St_wrongFamily = ''WRONG_CHIP_FAMILY''"
| "statusName St_sectionCount = ''SECTION_COUNT''"
| "statusName St_dynamicHeader = ''DYNAMIC_HEADER''"
| "statusName St_unsupportedSection = ''UNSUPPORTED_SECTION''"
| "statusName St_sectionBounds = ''SECTION_BOUNDS''"
| "statusName St_addressOverflow = ''ADDRESS_OVERFLOW''"
| "statusName St_trailingData = ''TRAILING_DATA''"

definition le32 :: "bytes \<Rightarrow> nat \<Rightarrow> u32 option" where
  "le32 p i = rd32 p i"

definition fits :: "nat \<Rightarrow> nat \<Rightarrow> nat \<Rightarrow> bool" where
  "fits offset bytes tot \<longleftrightarrow> offset \<le> tot \<and> bytes \<le> tot - offset"

record Section =
  sec_offset :: nat
  payloadBytes :: u32
  transferBytes :: u32
  address :: u32
  metadata :: u32
  sec_type :: u8
  checksumTrailer :: bool
  redownload :: bool

definition Section0 :: Section where
  "Section0 = \<lparr>sec_offset = 0, payloadBytes = 0, transferBytes = 0, address = 0, metadata = 0,
     sec_type = 0, checksumTrailer = False, redownload = False\<rparr>"

record Plan =
  imageOffset :: nat
  imageBytes :: nat
  headerBytes :: nat
  baseHeaderBytes :: nat
  version :: u32
  commit :: u32
  packetCount :: u32
  cut :: u8
  plan_type :: u8
  sectionCount :: u8
  sections :: "Section list"
  plan_valid :: bool

definition Plan0 :: Plan where
  "Plan0 = \<lparr>imageOffset = 0, imageBytes = 0, headerBytes = 0, baseHeaderBytes = 0, version = 0,
     commit = 0, packetCount = 0, cut = 0, plan_type = 0, sectionCount = 0,
     sections = replicate maxSections Section0, plan_valid = False\<rparr>"

section \<open>The container parser\<close>

text \<open>The inner loop over the earlier table entries: does the range overlap one of them?\<close>

fun overlaps_prior :: "bytes \<Rightarrow> nat \<Rightarrow> nat \<Rightarrow> nat list \<Rightarrow> bool option" where
  "overlaps_prior data start len [] = Some False"
| "overlaps_prior data start len (j # js) = do {
     p \<leftarrow> le32 data (16 + j * 16 + 4);
     n \<leftarrow> le32 data (16 + j * 16 + 8);
     if (if unat p \<le> start then start - unat p < unat n else unat p - start < len)
     then Some True
     else overlaps_prior data start len js }"

text \<open>The loop over the image table; it carries the indices found so far (\<open>-1\<close>: none).\<close>

fun scan_images :: "bytes \<Rightarrow> u8 \<Rightarrow> nat \<Rightarrow> nat list \<Rightarrow> int \<Rightarrow> int \<Rightarrow> (Status + int \<times> int) option" where
  "scan_images data c tableEnd [] normal ce = Some (Inr (normal, ce))"
| "scan_images data c tableEnd (i # is) normal ce = do {
     s \<leftarrow> le32 data (16 + i * 16 + 4);
     l \<leftarrow> le32 data (16 + i * 16 + 8);
     let start = unat s;
     let len = unat l;
     if len = 0 \<or> start < tableEnd \<or> \<not> fits start len (length data)
     then Some (Inl St_imageBounds)
     else do {
       bad \<leftarrow> overlaps_prior data start len [0..<i];
       if bad then Some (Inl St_imageOverlap)
       else do {
         e0 \<leftarrow> rd8 data (16 + i * 16);
         e1 \<leftarrow> rd8 data (16 + i * 16 + 1);
         e2 \<leftarrow> rd8 data (16 + i * 16 + 2);
         if e0 \<noteq> c \<or> e2 \<noteq> 0 then scan_images data c tableEnd is normal ce
         else if e1 = 5 then
           (if 0 \<le> ce then Some (Inl St_ambiguousImage)
            else scan_images data c tableEnd is normal (int i))
         else if e1 = 1 then
           (if 0 \<le> normal then Some (Inl St_ambiguousImage)
            else scan_images data c tableEnd is (int i) ce)
         else scan_images data c tableEnd is normal ce } } }"

text \<open>One round of the section loop: it fills \<open>plan.sections[i]\<close> and advances the cursor.\<close>

definition parse_section :: "bytes \<Rightarrow> Plan \<Rightarrow> nat \<Rightarrow> nat \<Rightarrow> (Status + Plan \<times> nat) option" where
  "parse_section data plan i cursor = do {
     let h = imageOffset plan + 32 + i * 16;
     md \<leftarrow> le32 data (h + 4);
     let ty = ucast (drop_bit 24 md AND 15);
     if ty \<noteq> 1 \<and> ty \<noteq> 2 \<and> ty \<noteq> 9 then Some (Inl St_unsupportedSection)
     else do {
       w2 \<leftarrow> le32 data (h + 8);
       if ty = 9 \<and> w2 \<noteq> 0 then Some (Inl St_unsupportedSection)
       else do {
         let payload = md AND 0xffffff;
         if payload = 0 then Some (Inl St_sectionBounds)
         else do {
           let trailer = (md AND push_bit 28 1 \<noteq> 0);
           let redl = (md AND push_bit 29 1 \<noteq> 0);
           let transfer = payload + (if trailer then 8 else 0);
           w0 \<leftarrow> le32 data h;
           let addr = w0 AND 0x1fffffff;
           if transfer > 0x20000000 - addr then Some (Inl St_addressOverflow)
           else if \<not> fits cursor (unat transfer) (imageBytes plan) then Some (Inl St_sectionBounds)
           else Some (Inr (plan\<lparr>
              sections := (sections plan)[i := \<lparr>sec_offset = imageOffset plan + cursor,
                 payloadBytes = payload, transferBytes = transfer, address = addr, metadata = md,
                 sec_type = ty, checksumTrailer = trailer, redownload = redl\<rparr>],
              packetCount := packetCount plan + (transfer + packetBytes - 1) div packetBytes\<rparr>,
              cursor + unat transfer)) } } } }"

fun parse_sections :: "bytes \<Rightarrow> Plan \<Rightarrow> nat list \<Rightarrow> nat \<Rightarrow> (Status + Plan \<times> nat) option" where
  "parse_sections data plan [] cursor = Some (Inr (plan, cursor))"
| "parse_sections data plan (i # is) cursor = do {
     r \<leftarrow> parse_section data plan i cursor;
     case r of Inl e \<Rightarrow> Some (Inl e)
     | Inr (plan', cursor') \<Rightarrow> parse_sections data plan' is cursor' }"

text \<open>The header length of the image at \<open>fw\<close>: the base header, or, with the dynamic bit, the
  length in byte 14 if the dynamic part announces the same length (\<open>Some None\<close>: it does not).\<close>

definition header_length :: "bytes \<Rightarrow> nat \<Rightarrow> nat \<Rightarrow> nat \<Rightarrow> nat option option" where
  "header_length data fw base imgBytes = do {
     w7 \<leftarrow> le32 data (fw + 28);
     if w7 AND push_bit 16 1 \<noteq> 0 then do {
       b14 \<leftarrow> rd8 data (fw + 14);
       if unat b14 < base + 8 \<or> \<not> fits 0 (unat b14) imgBytes then Some None
       else do {
         dl \<leftarrow> le32 data (fw + base);
         Some (if unat dl \<noteq> unat b14 - base then None else Some (unat b14)) } }
     else Some (Some base) }"

text \<open>The image at \<open>fw\<close>, from its header to the finished plan.\<close>

definition parse_header :: "bytes \<Rightarrow> u8 \<Rightarrow> u8 \<Rightarrow> nat \<Rightarrow> nat \<Rightarrow> (Status \<times> Plan) option" where
  "parse_header data c ty fw imgBytes =
     (if imgBytes < 32 then Some (St_truncated, Plan0)
      else do {
       b15 \<leftarrow> rd8 data (fw + 15);
       w0 \<leftarrow> le32 data fw;
       v \<leftarrow> le32 data (fw + 4);
       cm \<leftarrow> le32 data (fw + 8);
       sc \<leftarrow> rd8 data (fw + 25);
       let base = 32 + unat sc * 16;
       if b15 \<noteq> 0 then Some (St_unsupportedHeader, Plan0)
       else if drop_bit 16 w0 \<noteq> 0x8852 then Some (St_wrongFamily, Plan0)
       else if sc = 0 \<or> maxSections < unat sc then Some (St_sectionCount, Plan0)
       else if \<not> fits 0 base imgBytes then Some (St_truncated, Plan0)
       else do {
         hdr \<leftarrow> header_length data fw base imgBytes;
         case hdr of None \<Rightarrow> Some (St_dynamicHeader, Plan0)
         | Some hb \<Rightarrow> do {
             r \<leftarrow> parse_sections data
                   (Plan0\<lparr>cut := c, plan_type := ty, imageOffset := fw, imageBytes := imgBytes,
                      version := v, commit := cm, sectionCount := sc, baseHeaderBytes := base,
                      headerBytes := hb\<rparr>) [0..<unat sc] hb;
             case r of Inl e \<Rightarrow> Some (e, Plan0)
             | Inr (plan, cursor) \<Rightarrow>
                 if cursor \<noteq> imgBytes then Some (St_trailingData, Plan0)
                 else Some (St_ok, plan\<lparr>plan_valid := True\<rparr>) } } })"

definition parse_image :: "bytes \<Rightarrow> u8 \<Rightarrow> nat \<Rightarrow> (Status \<times> Plan) option" where
  "parse_image data c selected = do {
     ty \<leftarrow> rd8 data (16 + selected * 16 + 1);
     off \<leftarrow> le32 data (16 + selected * 16 + 4);
     len \<leftarrow> le32 data (16 + selected * 16 + 8);
     parse_header data c ty (unat off) (unat len) }"

definition parse :: "bytes option \<Rightarrow> u8 \<Rightarrow> (Status \<times> Plan) option" where
  "parse source c = (case source of None \<Rightarrow> Some (St_truncated, Plan0)
     | Some data \<Rightarrow>
       if length data < 16 then Some (St_truncated, Plan0)
       else do {
         b0 \<leftarrow> rd8 data 0;
         b1 \<leftarrow> rd8 data 1;
         if b0 \<noteq> 0xff \<or> b1 = 0 then Some (St_badContainer, Plan0)
         else do {
           let count = unat b1;
           if maxImages < count then Some (St_tooManyImages, Plan0)
           else do {
             let tableEnd = 16 + count * 16;
             if \<not> fits 0 tableEnd (length data) then Some (St_truncated, Plan0)
             else do {
               r \<leftarrow> scan_images data c tableEnd [0..<count] (-1) (-1);
               case r of Inl e \<Rightarrow> Some (e, Plan0)
               | Inr (normal, ce) \<Rightarrow>
                   (let selected = (if 0 \<le> ce then ce else normal) in
                    if selected < 0 then Some (St_noMatchingImage, Plan0)
                    else parse_image data c (nat selected)) } } } })"

section \<open>Payload segmentation\<close>

record Chunk =
  ch_offset :: nat
  ch_bytes :: u32
  ch_sectionOffset :: u32
  ch_section :: nat

definition Chunk0 :: Chunk where
  "Chunk0 = \<lparr>ch_offset = 0, ch_bytes = 0, ch_sectionOffset = 0, ch_section = 0\<rparr>"

definition section_packets :: "Section \<Rightarrow> u32" where
  "section_packets s = transferBytes s div packetBytes +
     (if transferBytes s mod packetBytes \<noteq> 0 then 1 else 0)"

fun chunk_scan :: "Plan \<Rightarrow> nat list \<Rightarrow> u32 \<Rightarrow> bool \<times> Chunk" where
  "chunk_scan plan [] index = (False, Chunk0)"
| "chunk_scan plan (i # is) index =
     (let s = sections plan ! i; count = section_packets s in
      if count \<le> index then chunk_scan plan is (index - count)
      else let offset = index * packetBytes; left = transferBytes s - offset in
        (True, \<lparr>ch_offset = sec_offset s + unat offset,
                ch_bytes = (if left < packetBytes then left else packetBytes),
                ch_sectionOffset = offset, ch_section = i\<rparr>))"

definition chunkAt :: "Plan \<Rightarrow> u32 \<Rightarrow> bool \<times> Chunk" where
  "chunkAt plan index =
     (if \<not> plan_valid plan \<or> maxSections < unat (sectionCount plan) \<or> packetCount plan \<le> index
      then (False, Chunk0)
      else chunk_scan plan [0..<unat (sectionCount plan)] index)"

section \<open>Arithmetic of packets\<close>

definition ceil_div :: "nat \<Rightarrow> nat \<Rightarrow> nat" where
  "ceil_div t k = (t + (k - 1)) div k"

lemma ceil_div_0 [simp]: "0 < k \<Longrightarrow> ceil_div 0 k = 0"
  by (simp add: ceil_div_def)

lemma ceil_div_step: "0 < k \<Longrightarrow> 0 < t \<Longrightarrow> ceil_div t k = Suc (ceil_div (t - k) k)"
proof -
  assume k: "0 < k" and t: "0 < t"
  show ?thesis
  proof (cases "k \<le> t")
    case True
    then have "t + (k - 1) = (t - k + (k - 1)) + k" by simp
    then have "ceil_div t k = (t - k + (k - 1) + k) div k" by (simp only: ceil_div_def)
    also have "\<dots> = Suc ((t - k + (k - 1)) div k)"
      using k div_add_self2 [of k "t - k + (k - 1)"] by linarith
    finally show ?thesis by (simp only: ceil_div_def)
  next
    case False
    then have eq: "t + (k - 1) = (t - 1) + k" and lt: "t - 1 < k" "t - k = 0" using k t by auto
    from eq have "ceil_div t k = ((t - 1) + k) div k" by (simp only: ceil_div_def)
    also have "\<dots> = 1" using k lt div_add_self2 [of k "t - 1"] by simp
    finally show ?thesis using k lt by simp
  qed
qed

lemma ceil_div_alt: "0 < k \<Longrightarrow> t div k + (if t mod k \<noteq> 0 then 1 else 0) = ceil_div t k"
proof (induction t rule: less_induct)
  case (less t)
  show ?case
  proof (cases "t < k")
    case True
    then show ?thesis using less.prems
      by (cases "t = 0") (auto simp: ceil_div_step)
  next
    case False
    with less.prems have "t - k < t" "0 < t" by auto
    then show ?thesis using less.IH [of "t - k"] False less.prems
      by (simp add: ceil_div_step le_div_geq le_mod_geq)
  qed
qed

lemma chunks_concat:
  "0 < k \<Longrightarrow> concat (map (\<lambda>j. take (min k (t - k * j)) (drop (a + k * j) xs)) [0..<ceil_div t k])
     = take t (drop a xs)"
proof (induction t arbitrary: a rule: less_induct)
  case (less t)
  show ?case
  proof (cases "t = 0")
    case True
    then show ?thesis using less.prems by simp
  next
    case False
    then have st: "ceil_div t k = Suc (ceil_div (t - k) k)" and lt: "t - k < t"
      using less.prems by (auto simp: ceil_div_step)
    have "concat (map (\<lambda>j. take (min k (t - k * j)) (drop (a + k * j) xs)) [0..<ceil_div t k])
      = take (min k t) (drop a xs) @
        concat (map (\<lambda>j. take (min k (t - k - k * j)) (drop (a + k + k * j) xs)) [0..<ceil_div (t - k) k])"
      by (simp add: st upt_rec [of 0 "Suc _"] map_Suc_upt [symmetric] comp_def algebra_simps
          del: upt_Suc)
    also have "\<dots> = take (min k t) (drop a xs) @ take (t - k) (drop (a + k) xs)"
      using less.IH [OF lt less.prems, of "a + k"] by simp
    also have "\<dots> = take t (drop a xs)"
    proof (cases "k \<le> t")
      case True
      then show ?thesis using take_add [of k "t - k" "drop a xs"]
        by (simp add: add.commute)
    next
      case False
      then show ?thesis by simp
    qed
    finally show ?thesis .
  qed
qed

section \<open>The parser never leaves the container\<close>

definition entry_in :: "bytes \<Rightarrow> nat \<Rightarrow> bool" where
  "entry_in data i \<longleftrightarrow> 16 + i * 16 + 16 \<le> length data"

lemma overlaps_prior_total:
  "\<forall>j \<in> set js. entry_in data j \<Longrightarrow> \<exists>b. overlaps_prior data start len js = Some b"
  by (induction js) (auto simp: entry_in_def le32_def mem_simps)

text \<open>What a usable table entry looks like: a matching cut, the wanted type, an image inside.\<close>

definition entry_matches :: "bytes \<Rightarrow> u8 \<Rightarrow> u8 \<Rightarrow> int \<Rightarrow> bool" where
  "entry_matches data c ty k \<longleftrightarrow> 0 \<le> k \<and> entry_in data (nat k) \<and>
     (let e = 16 + nat k * 16 in
      data ! e = c \<and> data ! (e + 1) = ty \<and> data ! (e + 2) = 0 \<and>
      0 < unat (word_at data (e + 8)) \<and>
      unat (word_at data (e + 4)) + unat (word_at data (e + 8)) \<le> length data)"

lemma scan_images_total:
  "\<forall>i \<in> set ks. entry_in data i \<Longrightarrow> \<forall>i \<in> set ks. \<forall>j < i. entry_in data j \<Longrightarrow>
   \<exists>r. scan_images data c te ks normal ce = Some r"
proof (induction ks arbitrary: normal ce)
  case Nil
  then show ?case by simp
next
  case (Cons i ks)
  obtain b where "overlaps_prior data (unat (word_at data (16 + i * 16 + 4)))
      (unat (word_at data (16 + i * 16 + 8))) [0..<i] = Some b"
    using overlaps_prior_total [of "[0..<i]" data] Cons.prems(2) by fastforce
  moreover from Cons.prems(1) have "entry_in data i" by simp
  ultimately show ?case using Cons
    by (auto simp: entry_in_def le32_def mem_simps add.assoc Let_def)
qed

lemma scan_images_Inr:
  assumes "scan_images data c te ks normal ce = Some (Inr (n, e))"
    and "\<forall>i \<in> set ks. entry_in data i" and "\<forall>i \<in> set ks. \<forall>j < i. entry_in data j"
    and "normal = -1 \<or> entry_matches data c 1 normal"
    and "ce = -1 \<or> entry_matches data c 5 ce"
  shows "(n = -1 \<or> entry_matches data c 1 n) \<and> (e = -1 \<or> entry_matches data c 5 e)"
  using assms
proof (induction ks arbitrary: normal ce)
  case Nil
  then show ?case by simp
next
  case (Cons i ks)
  let ?s = "unat (word_at data (16 + i * 16 + 4))" and ?l = "unat (word_at data (16 + i * 16 + 8))"
  obtain b where b: "overlaps_prior data ?s ?l [0..<i] = Some b"
    using overlaps_prior_total [of "[0..<i]" data] Cons.prems(3) by fastforce
  from Cons.prems(2) have i: "entry_in data i" by simp
  from Cons.prems(1) b i have ok: "0 < ?l" "?s + ?l \<le> length data" "\<not> b"
    by (auto simp: entry_in_def le32_def mem_simps fits_def add.assoc Let_def split: if_splits)
  have new: "entry_matches data (data ! (16 + i * 16)) ty (int i)"
    if "data ! (17 + i * 16) = ty" "data ! (18 + i * 16) = 0" for ty
    using that ok i by (simp add: entry_matches_def Let_def)
  from Cons.prems(1) b i ok(3) obtain n' e' where
    step: "scan_images data c te ks n' e' = Some (Inr (n, e))"
    and n': "n' = normal \<or> n' = int i \<and> entry_matches data c 1 (int i)"
    and e': "e' = ce \<or> e' = int i \<and> entry_matches data c 5 (int i)"
    by (auto simp: entry_in_def le32_def mem_simps Let_def add.assoc split: if_splits intro: new)
  show ?case
    using Cons.IH [OF step] Cons.prems n' e' by auto
qed

section \<open>What a parsed section promises\<close>

definition section_ok :: "nat \<Rightarrow> Section \<Rightarrow> bool" where
  "section_ok off s \<longleftrightarrow> sec_offset s = off \<and> 0 < unat (payloadBytes s) \<and>
     unat (transferBytes s) = unat (payloadBytes s) + (if checksumTrailer s then 8 else 0) \<and>
     unat (transferBytes s) < 2 ^ 25 \<and>
     unat (address s) + unat (transferBytes s) \<le> 0x20000000 \<and>
     (sec_type s = 1 \<or> sec_type s = 2 \<or> sec_type s = 9)"

fun sections_tile :: "Section list \<Rightarrow> nat \<Rightarrow> nat \<Rightarrow> bool" where
  "sections_tile [] a b \<longleftrightarrow> a = b"
| "sections_tile (s # ss) a b \<longleftrightarrow> section_ok a s \<and> sections_tile ss (a + unat (transferBytes s)) b"

definition section_ceil :: "Section \<Rightarrow> u32" where
  "section_ceil s = (transferBytes s + packetBytes - 1) div packetBytes"

lemma unat_and_le: "unat (x AND m) \<le> unat (m :: u32)"
  by (metis word_and_le1 word_le_nat_alt)

lemma transfer_nat:
  "unat ((md AND 0xffffff) + (if tr then 8 else 0) :: u32) =
     unat (md AND 0xffffff :: u32) + (if tr then 8 else 0)"
proof -
  have "unat (md AND 0xffffff :: u32) \<le> 0xffffff" using unat_and_le [of md "0xffffff"] by simp
  then show ?thesis by (auto simp: unat_word_ariths)
qed

lemma section_ceil_nat:
  "unat (transferBytes s) < 2 ^ 25 \<Longrightarrow> unat (section_ceil s) = ceil_div (unat (transferBytes s)) 2020"
proof -
  assume lt: "unat (transferBytes s) < 2 ^ 25"
  have "transferBytes s + 2020 - 1 = transferBytes s + 2019" by simp
  moreover have "unat (transferBytes s + 2019) = unat (transferBytes s) + 2019"
    using lt by (simp add: unat_word_ariths)
  ultimately have "unat (transferBytes s + 2020 - 1) = unat (transferBytes s) + 2019" by (simp only:)
  then show ?thesis by (simp only: section_ceil_def unat_div ceil_div_def packetBytes_def) simp
qed

lemma section_packets_nat: "unat (section_packets s) = ceil_div (unat (transferBytes s)) 2020"
proof -
  let ?t = "transferBytes s"
  have q: "unat (?t div 2020) = unat ?t div 2020" by (simp add: unat_div)
  have m: "(?t mod 2020 \<noteq> 0) = (unat ?t mod 2020 \<noteq> 0)"
    by (simp add: unat_eq_zero [symmetric] unat_mod del: unat_eq_zero)
  have "unat ?t < 2 ^ 32" using unsigned_less [of ?t, where ?'a = nat] by simp
  then have "unat ?t div 2020 + 1 < 2 ^ 32" by simp
  then have "unat (section_packets s) = unat ?t div 2020 + (if unat ?t mod 2020 \<noteq> 0 then 1 else 0)"
    using q m by (auto simp: section_packets_def unat_word_ariths)
  also have "\<dots> = ceil_div (unat ?t) 2020" by (rule ceil_div_alt) simp
  finally show ?thesis .
qed

lemma parse_section_total:
  "imageOffset plan + 48 + i * 16 \<le> length data \<Longrightarrow> \<exists>r. parse_section data plan i cursor = Some r"
  by (auto simp: parse_section_def le32_def mem_simps Let_def)

lemma parse_section_Inr:
  assumes "imageOffset plan + 48 + i * 16 \<le> length data"
    and "parse_section data plan i cursor = Some (Inr (plan', cursor'))"
  obtains s where "plan' = plan\<lparr>sections := (sections plan)[i := s],
      packetCount := packetCount plan + section_ceil s\<rparr>"
    and "section_ok (imageOffset plan + cursor) s"
    and "cursor' = cursor + unat (transferBytes s)" and "cursor' \<le> imageBytes plan"
proof -
  define h where "h = imageOffset plan + 32 + i * 16"
  let ?md = "word_at data (h + 4)" and ?addr = "word_at data h AND 0x1fffffff"
  let ?tr = "?md AND push_bit 28 1 \<noteq> 0"
  let ?t = "(?md AND 0xffffff) + (if ?tr then 8 else 0)"
  let ?ty = "ucast (drop_bit 24 ?md AND 15) :: u8"
  define s where "s = \<lparr>sec_offset = imageOffset plan + cursor, payloadBytes = ?md AND 0xffffff,
    transferBytes = ?t, address = ?addr, metadata = ?md, sec_type = ?ty,
    checksumTrailer = ?tr, redownload = ?md AND push_bit 29 1 \<noteq> 0\<rparr>"
  have rd: "le32 data (h + 4) = Some ?md" "le32 data (h + 8) = Some (word_at data (h + 8))"
    "le32 data h = Some (word_at data h)"
    using assms(1) by (simp_all add: le32_def mem_simps h_def)
  from assms(2) [unfolded parse_section_def Let_def h_def [symmetric] rd] have
    ty: "?ty = 1 \<or> ?ty = 2 \<or> ?ty = 9" and nz: "?md AND 0xffffff \<noteq> 0"
    and room: "\<not> ?t > 0x20000000 - ?addr" and fit: "fits cursor (unat ?t) (imageBytes plan)"
    and res: "plan' = plan\<lparr>sections := (sections plan)[i := s],
      packetCount := packetCount plan + section_ceil s\<rparr>" "cursor' = cursor + unat ?t"
    by (auto simp: s_def section_ceil_def split: if_splits)
  have al: "unat ?addr \<le> 0x1fffffff" using unat_and_le [of _ "0x1fffffff"] by simp
  then have "unat (0x20000000 - ?addr) = 0x20000000 - unat ?addr"
    by (subst unat_sub) (simp_all add: word_le_nat_alt)
  with room al have room': "unat ?addr + unat ?t \<le> 0x20000000"
    by (simp add: word_le_nat_alt not_less)
  have pl: "unat (?md AND 0xffffff) \<le> 0xffffff" using unat_and_le [of _ "0xffffff"] by simp
  have "section_ok (imageOffset plan + cursor) s"
    using ty nz room' pl transfer_nat [of ?md ?tr]
    by (auto simp: section_ok_def s_def unat_gt_0)
  moreover have "cursor' \<le> imageBytes plan" using fit res by (auto simp: fits_def)
  ultimately show ?thesis using that [of s] res by (simp add: s_def)
qed

lemma parse_sections_total:
  "\<forall>i \<in> set ks. imageOffset plan + 48 + i * 16 \<le> length data \<Longrightarrow>
   \<exists>r. parse_sections data plan ks cursor = Some r"
proof (induction ks arbitrary: plan cursor)
  case Nil
  then show ?case by simp
next
  case (Cons i ks)
  then have i: "imageOffset plan + 48 + i * 16 \<le> length data" by simp
  then obtain r where r: "parse_section data plan i cursor = Some r"
    using parse_section_total by blast
  show ?case
  proof (cases r)
    case (Inl e)
    with r show ?thesis by simp
  next
    case (Inr pc)
    then obtain plan' cursor' where pc: "r = Inr (plan', cursor')" by (cases pc) auto
    with r i have "imageOffset plan' = imageOffset plan"
      by (auto elim: parse_section_Inr)
    with Cons r pc show ?thesis by simp
  qed
qed

lemma sections_tile_append:
  "sections_tile ss a m \<Longrightarrow> sections_tile ts m b \<Longrightarrow> sections_tile (ss @ ts) a b"
  by (induction ss arbitrary: a) auto

lemma parse_sections_Inr:
  assumes "parse_sections data plan [k..<n] cursor = Some (Inr (plan', cursor'))"
    and "k \<le> n" and "n \<le> length (sections plan)"
    and "imageOffset plan + 32 + n * 16 \<le> length data" and "cursor \<le> imageBytes plan"
  shows "\<exists>ss. length ss = n - k \<and> cursor' \<le> imageBytes plan \<and>
    plan' = plan\<lparr>sections := take k (sections plan) @ ss @ drop n (sections plan),
                 packetCount := packetCount plan + sum_list (map section_ceil ss)\<rparr> \<and>
    sections_tile ss (imageOffset plan + cursor) (imageOffset plan + cursor')"
  using assms
proof (induction "n - k" arbitrary: k plan cursor)
  case 0
  then have "k = n" by simp
  with 0 show ?case by (intro exI [of _ "[]"]) simp
next
  case (Suc m)
  then have kn: "k < n" and m: "m = n - Suc k" by auto
  then have ks: "[k..<n] = k # [Suc k..<n]" by (simp add: upt_conv_Cons)
  have room: "imageOffset plan + 48 + k * 16 \<le> length data" using Suc.prems(4) kn by simp
  from Suc.prems(1) obtain p1 c1 where
    one: "parse_section data plan k cursor = Some (Inr (p1, c1))"
    and rest: "parse_sections data p1 [Suc k..<n] c1 = Some (Inr (plan', cursor'))"
    unfolding ks by (auto split: Option.bind_split_asm sum.split_asm prod.split_asm)
  obtain s where
    p1: "p1 = plan\<lparr>sections := (sections plan)[k := s], packetCount := packetCount plan + section_ceil s\<rparr>"
    and ok: "section_ok (imageOffset plan + cursor) s"
    and c1: "c1 = cursor + unat (transferBytes s)" and le: "c1 \<le> imageBytes plan"
    using parse_section_Inr [OF room one] by blast
  obtain ss where ss: "length ss = n - Suc k" "cursor' \<le> imageBytes p1"
    "plan' = p1\<lparr>sections := take (Suc k) (sections p1) @ ss @ drop n (sections p1),
                packetCount := packetCount p1 + sum_list (map section_ceil ss)\<rparr>"
    "sections_tile ss (imageOffset p1 + c1) (imageOffset p1 + cursor')"
    using Suc.hyps(1) [OF m rest] Suc.prems kn p1 le by auto
  have "take (Suc k) ((sections plan)[k := s]) = take k (sections plan) @ [s]"
    using kn Suc.prems(3) by (simp add: take_Suc_conv_app_nth)
  then show ?case
    using ss ok p1 c1 kn by (intro exI [of _ "s # ss"]) (auto simp: add.assoc)
qed

lemma sections_tile_bounds: "sections_tile ss a b \<Longrightarrow> s \<in> set ss \<Longrightarrow> unat (transferBytes s) < 2 ^ 25"
  by (induction ss arbitrary: a) (auto simp: section_ok_def)

lemma sections_tile_le: "sections_tile ss a b \<Longrightarrow> a \<le> b"
  by (induction ss arbitrary: a) force+

text \<open>At most ten sections of less than 16 MiB each: the 32-bit packet count cannot wrap.\<close>

lemma packet_sum_nat:
  assumes "sections_tile ss a b" and "length ss \<le> 10"
  shows "unat (sum_list (map section_ceil ss)) =
      (\<Sum>s\<leftarrow>ss. ceil_div (unat (transferBytes s)) 2020)"
proof -
  have "unat (sum_list (map section_ceil ss)) = (\<Sum>s\<leftarrow>ss. ceil_div (unat (transferBytes s)) 2020)
      \<and> (\<Sum>s\<leftarrow>ss. ceil_div (unat (transferBytes s)) 2020) \<le> length ss * 2 ^ 20"
    using assms
  proof (induction ss arbitrary: a)
    case Nil
    then show ?case by simp
  next
    case (Cons s ss)
    then have IH: "unat (sum_list (map section_ceil ss)) = (\<Sum>s\<leftarrow>ss. ceil_div (unat (transferBytes s)) 2020)"
      "(\<Sum>s\<leftarrow>ss. ceil_div (unat (transferBytes s)) 2020) \<le> length ss * 2 ^ 20"
      by auto
    have b: "unat (transferBytes s) < 2 ^ 25" using Cons.prems by (auto simp: section_ok_def)
    then have c: "ceil_div (unat (transferBytes s)) 2020 \<le> 2 ^ 20" by (simp add: ceil_div_def)
    from IH c Cons.prems(2) have "unat (section_ceil s) + unat (sum_list (map section_ceil ss)) < 2 ^ 32"
      by (simp add: section_ceil_nat [OF b])
    then show ?case using IH c by (simp add: unat_word_ariths section_ceil_nat [OF b])
  qed
  then show ?thesis by simp
qed

definition plan_wf :: "bytes \<Rightarrow> u8 \<Rightarrow> Plan \<Rightarrow> bool" where
  "plan_wf data c p \<longleftrightarrow> plan_valid p \<and> cut p = c \<and> (plan_type p = 1 \<or> plan_type p = 5) \<and>
     imageOffset p + imageBytes p \<le> length data \<and>
     length (sections p) = maxSections \<and>
     1 \<le> unat (sectionCount p) \<and> unat (sectionCount p) \<le> maxSections \<and>
     baseHeaderBytes p = 32 + unat (sectionCount p) * 16 \<and>
     baseHeaderBytes p \<le> headerBytes p \<and> headerBytes p \<le> imageBytes p \<and>
     sections_tile (take (unat (sectionCount p)) (sections p))
       (imageOffset p + headerBytes p) (imageOffset p + imageBytes p) \<and>
     unat (packetCount p) =
       (\<Sum>s\<leftarrow>take (unat (sectionCount p)) (sections p). ceil_div (unat (transferBytes s)) 2020)"

text \<open>What every outcome of the parser satisfies: no read outside the container, and the output
  is a well-formed plan or, on any error, the empty one.\<close>

definition parse_post :: "bytes \<Rightarrow> u8 \<Rightarrow> (Status \<times> Plan) option \<Rightarrow> bool" where
  "parse_post data c r \<longleftrightarrow>
     (\<exists>st p. r = Some (st, p) \<and> (if st = St_ok then plan_wf data c p else p = Plan0))"

lemma parse_post_Some [simp]:
  "parse_post data c (Some (st, p)) \<longleftrightarrow> (if st = St_ok then plan_wf data c p else p = Plan0)"
  by (auto simp: parse_post_def)

lemma header_length_spec:
  assumes "fw + imgBytes \<le> length data" and "32 \<le> base" and "base \<le> imgBytes"
  shows "\<exists>h. header_length data fw base imgBytes = Some h \<and>
     (\<forall>hb. h = Some hb \<longrightarrow> base \<le> hb \<and> hb \<le> imgBytes)"
proof -
  have rd: "le32 data (fw + base) = Some (word_at data (fw + base))"
    if "base + 8 \<le> unat (data ! (fw + 14))" "unat (data ! (fw + 14)) \<le> imgBytes"
    using that assms(1) by (simp add: le32_def mem_simps)
  show ?thesis
    using assms rd by (auto simp: header_length_def le32_def mem_simps fits_def not_less)
qed

lemma parse_sections_ne_ok:
  "parse_sections data plan ks cursor = Some (Inl st) \<Longrightarrow> st \<noteq> St_ok"
proof (induction ks arbitrary: plan cursor)
  case (Cons i ks)
  have "parse_section data plan i cursor \<noteq> Some (Inl St_ok)"
    by (auto simp: parse_section_def Let_def split: Option.bind_split_asm if_splits)
  with Cons show ?case by (auto split: Option.bind_split_asm sum.split_asm)
qed simp

lemma parse_header_spec:
  assumes fit: "fw + imgBytes \<le> length data" and ty: "ty = 1 \<or> ty = 5"
  shows "parse_post data c (parse_header data c ty fw imgBytes)"
proof -
  define sc where "sc = data ! (fw + 25)"
  define base where "base = 32 + unat sc * 16"
  show ?thesis
  proof (cases "32 \<le> imgBytes \<and> data ! (fw + 15) = 0 \<and> drop_bit 16 (word_at data fw) = 0x8852 \<and>
      sc \<noteq> 0 \<and> unat sc \<le> 10 \<and> base \<le> imgBytes")
    case False
    then show ?thesis using fit
      by (auto simp: parse_header_def le32_def mem_simps fits_def Let_def sc_def [symmetric] base_def)
  next
    case True
    then have good: "32 \<le> imgBytes" "sc \<noteq> 0" "unat sc \<le> 10" "base \<le> imgBytes" by auto
    then obtain h where h: "header_length data fw base imgBytes = Some h"
      and hb: "\<And>hb. h = Some hb \<Longrightarrow> base \<le> hb \<and> hb \<le> imgBytes"
      using header_length_spec [OF fit, of base] by (auto simp: base_def)
    define plan where "plan = (\<lambda>hb. Plan0\<lparr>cut := c, plan_type := ty, imageOffset := fw,
      imageBytes := imgBytes, version := word_at data (fw + 4), commit := word_at data (fw + 8),
      sectionCount := sc, baseHeaderBytes := base, headerBytes := hb\<rparr>)"
    have eq: "parse_header data c ty fw imgBytes = (case h of None \<Rightarrow> Some (St_dynamicHeader, Plan0)
         | Some hb \<Rightarrow> do {
             r \<leftarrow> parse_sections data (plan hb) [0..<unat sc] hb;
             case r of Inl e \<Rightarrow> Some (e, Plan0)
             | Inr (plan, cursor) \<Rightarrow>
                 if cursor \<noteq> imgBytes then Some (St_trailingData, Plan0)
                 else Some (St_ok, plan\<lparr>plan_valid := True\<rparr>) })"
      using True fit h
      by (simp add: parse_header_def le32_def mem_simps fits_def Let_def sc_def [symmetric]
          base_def [symmetric] plan_def split: option.split)
    show ?thesis
    proof (cases h)
      case None
      then show ?thesis by (simp add: eq)
    next
      case (Some hdr)
      have "\<forall>i \<in> set [0..<unat sc]. imageOffset (plan hdr) + 48 + i * 16 \<le> length data"
        using good fit by (auto simp: plan_def base_def)
      then obtain r where r: "parse_sections data (plan hdr) [0..<unat sc] hdr = Some r"
        using parse_sections_total by blast
      have wf: "plan_wf data c (p'\<lparr>plan_valid := True\<rparr>)"
        if "r = Inr (p', imgBytes)" for p'
      proof -
        have "\<exists>ss. length ss = unat sc \<and>
          p' = (plan hdr)\<lparr>sections := ss @ drop (unat sc) (sections (plan hdr)),
                 packetCount := packetCount (plan hdr) + sum_list (map section_ceil ss)\<rparr> \<and>
          sections_tile ss (imageOffset (plan hdr) + hdr) (imageOffset (plan hdr) + imgBytes)"
          using parse_sections_Inr [of data "plan hdr" 0 "unat sc" hdr p' imgBytes] r that good fit
            hb [OF Some] by (auto simp: plan_def base_def Plan0_def)
        then obtain ss where ss: "length ss = unat sc"
          "p' = (plan hdr)\<lparr>sections := ss @ drop (unat sc) (sections (plan hdr)),
                 packetCount := packetCount (plan hdr) + sum_list (map section_ceil ss)\<rparr>"
          "sections_tile ss (fw + hdr) (fw + imgBytes)"
          by (auto simp: plan_def)
        have "1 \<le> unat sc" using good by (simp add: Suc_le_eq unat_gt_0)
        with ss good hb [OF Some] ty fit packet_sum_nat [OF ss(3)] show ?thesis
          by (simp add: plan_wf_def plan_def base_def Plan0_def)
      qed
      show ?thesis
        using parse_sections_ne_ok [of data "plan hdr" "[0..<unat sc]" hdr] wf
        by (auto simp: eq Some r split: sum.splits)
    qed
  qed
qed

lemma parse_image_spec:
  assumes "entry_matches data c ty (int sel)" and "ty = 1 \<or> ty = 5"
  shows "parse_post data c (parse_image data c sel)"
  using assms parse_header_spec
  by (auto simp: entry_matches_def entry_in_def parse_image_def le32_def mem_simps Let_def add.assoc)

lemma scan_images_ne_ok:
  "scan_images data c te ks normal ce = Some (Inl st) \<Longrightarrow> st \<noteq> St_ok"
  by (induction ks arbitrary: normal ce)
    (auto simp: Let_def split: Option.bind_split_asm if_splits)

lemma rd8_first: "16 \<le> length xs \<Longrightarrow> rd8 xs 0 = Some (xs ! 0)"
  by (auto simp: rd8_def)

lemma parse_spec: "parse_post data c (parse (Some data) c)"
proof (cases "16 \<le> length data \<and> data ! 0 = 0xff \<and> data ! 1 \<noteq> 0 \<and> unat (data ! 1) \<le> 64 \<and>
    16 + unat (data ! 1) * 16 \<le> length data")
  case False
  then show ?thesis by (auto simp: parse_def rd8_first mem_simps fits_def Let_def)
next
  case True
  let ?n = "unat (data ! 1)"
  have ent: "\<forall>i \<in> set [0..<?n]. entry_in data i" "\<forall>i \<in> set [0..<?n]. \<forall>j < i. entry_in data j"
    using True by (auto simp: entry_in_def)
  then obtain r where r: "scan_images data c (16 + ?n * 16) [0..<?n] (-1) (-1) = Some r"
    using scan_images_total by blast
  show ?thesis
  proof (cases r)
    case (Inl e)
    with r True scan_images_ne_ok [of data c "16 + ?n * 16"] show ?thesis
      by (auto simp: parse_def rd8_first mem_simps fits_def)
  next
    case (Inr ne)
    then obtain n e where ne: "r = Inr (n, e)" by (cases ne) auto
    with r ent have m: "n = -1 \<or> entry_matches data c 1 n" "e = -1 \<or> entry_matches data c 5 e"
      using scan_images_Inr [of data c "16 + ?n * 16" "[0..<?n]" "-1" "-1"] by auto
    show ?thesis
      using m r ne True parse_image_spec [of data c 1 "nat n"] parse_image_spec [of data c 5 "nat e"]
      by (auto simp: parse_def rd8_first mem_simps fits_def entry_matches_def [of _ _ _ n] Let_def
          entry_matches_def [of _ _ _ e])
  qed
qed

section \<open>Chunks tile the image\<close>

definition chunk_slice :: "bytes \<Rightarrow> Chunk \<Rightarrow> bytes" where
  "chunk_slice data ch = take (unat (ch_bytes ch)) (drop (ch_offset ch) data)"

definition packets_of :: "Section \<Rightarrow> nat" where
  "packets_of s = ceil_div (unat (transferBytes s)) 2020"

lemma packets_of_bound: "unat (transferBytes s) < 2 ^ 25 \<Longrightarrow> packets_of s < 2 ^ 20"
  by (simp add: packets_of_def ceil_div_def)

lemma ceil_div_covers: "0 < k \<Longrightarrow> j < ceil_div t k \<Longrightarrow> k * j < t"
proof -
  assume k: "0 < k" and j: "j < ceil_div t k"
  then have "Suc j \<le> (t + (k - 1)) div k" by (simp add: ceil_div_def)
  then have "Suc j * k \<le> t + (k - 1)" using k by (simp only: less_eq_div_iff_mult_less_eq)
  then show ?thesis using k by (simp add: mult.commute)
qed

lemma chunk_scan_first:
  assumes t: "unat (transferBytes (sections plan ! i)) < 2 ^ 25"
    and j: "j < packets_of (sections plan ! i)"
  shows "chunk_scan plan (i # ks) (of_nat j) =
    (True, \<lparr>ch_offset = sec_offset (sections plan ! i) + 2020 * j,
       ch_bytes = of_nat (min 2020 (unat (transferBytes (sections plan ! i)) - 2020 * j)),
       ch_sectionOffset = of_nat (2020 * j), ch_section = i\<rparr>)"
proof -
  let ?s = "sections plan ! i"
  have jb: "2020 * j < unat (transferBytes ?s)"
    using j ceil_div_covers [of 2020 j] by (simp add: packets_of_def)
  have n: "unat (section_packets ?s) = packets_of ?s"
    by (simp add: section_packets_nat packets_of_def)
  have uj: "unat (of_nat j :: u32) = j" using jb t by (simp add: unat_of_nat)
  then have hit: "\<not> section_packets ?s \<le> of_nat j"
    using j n by (simp add: word_le_nat_alt)
  have off: "(of_nat j :: u32) * 2020 = of_nat (2020 * j)" by (simp add: mult.commute)
  have uo: "unat (of_nat (2020 * j) :: u32) = 2020 * j"
    using jb t by (subst unat_of_nat) simp
  have left: "transferBytes ?s - of_nat (2020 * j) = of_nat (unat (transferBytes ?s) - 2020 * j)"
    using jb by (simp add: of_nat_diff)
  have ul: "unat (of_nat (unat (transferBytes ?s) - 2020 * j) :: u32) = unat (transferBytes ?s) - 2020 * j"
    using t by (subst unat_of_nat) simp
  have cmp: "(of_nat (unat (transferBytes ?s) - 2020 * j) < (2020 :: u32)) =
      (unat (transferBytes ?s) - 2020 * j < 2020)"
    using ul by (simp add: word_less_nat_alt)
  show ?thesis
    using hit by (simp only: chunk_scan.simps Let_def packetBytes_def off left uo cmp if_False)
      (auto simp: min_def)
qed

lemma chunk_scan_skip:
  assumes "packets_of (sections plan ! i) \<le> n" and "n < 2 ^ 32"
  shows "chunk_scan plan (i # ks) (of_nat n) =
     chunk_scan plan ks (of_nat (n - packets_of (sections plan ! i)))"
proof -
  have n: "unat (section_packets (sections plan ! i)) = packets_of (sections plan ! i)"
    by (simp add: section_packets_nat packets_of_def)
  have "unat (of_nat n :: u32) = n" using assms(2) by (simp add: unat_of_nat)
  then have "section_packets (sections plan ! i) \<le> of_nat n"
    using assms(1) n by (simp add: word_le_nat_alt)
  moreover have "of_nat n - section_packets (sections plan ! i) =
      of_nat (n - packets_of (sections plan ! i))"
    using assms(1) by (subst of_nat_diff) (simp_all flip: n)
  ultimately show ?thesis by simp
qed

lemma chunk_scan_tiles:
  assumes "sections_tile (map ((!) (sections plan)) ks) a b"
    and "(\<Sum>i\<leftarrow>ks. packets_of (sections plan ! i)) < 2 ^ 32"
  shows "concat (map (\<lambda>n. chunk_slice data (snd (chunk_scan plan ks (of_nat n))))
           [0..<\<Sum>i\<leftarrow>ks. packets_of (sections plan ! i)]) = take (b - a) (drop a data)"
  using assms
proof (induction ks arbitrary: a)
  case Nil
  then show ?case by simp
next
  case (Cons i ks)
  let ?s = "sections plan ! i" and ?rest = "\<Sum>i\<leftarrow>ks. packets_of (sections plan ! i)"
  let ?t = "unat (transferBytes ?s)"
  have ok: "section_ok a ?s" and tile: "sections_tile (map ((!) (sections plan)) ks) (a + ?t) b"
    using Cons.prems(1) by auto
  have t: "?t < 2 ^ 25" and off: "sec_offset ?s = a" using ok by (auto simp: section_ok_def)
  have first: "chunk_slice data (snd (chunk_scan plan (i # ks) (of_nat j))) =
      take (min 2020 (?t - 2020 * j)) (drop (a + 2020 * j) data)" if "j < packets_of ?s" for j
  proof -
    have "unat (of_nat (min 2020 (?t - 2020 * j)) :: u32) = min 2020 (?t - 2020 * j)"
      by (subst unat_of_nat) (simp add: min_def)
    then show ?thesis
      by (simp add: chunk_scan_first [OF t that] chunk_slice_def off del: chunk_scan.simps of_nat_min)
  qed
  have "concat (map (\<lambda>j. chunk_slice data (snd (chunk_scan plan (i # ks) (of_nat j)))) [0..<packets_of ?s])
      = take ?t (drop a data)"
    using chunks_concat [of 2020 ?t a data]
    by (simp only: packets_of_def [symmetric] concat_map_upt_cong [OF first])
  moreover have "concat (map (\<lambda>n. chunk_slice data (snd (chunk_scan plan (i # ks)
        (of_nat (packets_of ?s + n))))) [0..<?rest]) = take (b - (a + ?t)) (drop (a + ?t) data)"
  proof -
    have "chunk_scan plan (i # ks) (of_nat (packets_of ?s + n)) = chunk_scan plan ks (of_nat n)"
      if "n < ?rest" for n
      using chunk_scan_skip [of plan i "packets_of ?s + n" ks] that Cons.prems(2)
      by (simp del: chunk_scan.simps)
    then have "concat (map (\<lambda>n. chunk_slice data (snd (chunk_scan plan (i # ks)
        (of_nat (packets_of ?s + n))))) [0..<?rest]) =
      concat (map (\<lambda>n. chunk_slice data (snd (chunk_scan plan ks (of_nat n)))) [0..<?rest])"
      by (intro concat_map_upt_cong) (simp only:)
    also have "\<dots> = take (b - (a + ?t)) (drop (a + ?t) data)"
      using Cons.IH [OF tile] Cons.prems(2) by simp
    finally show ?thesis .
  qed
  moreover have "a + ?t \<le> b" using tile by (rule sections_tile_le)
  ultimately show ?case
    using take_add [of ?t "b - (a + ?t)" "drop a data"]
    by (simp add: upt_split_add comp_def add.commute del: chunk_scan.simps)
qed

lemma chunk_scan_hit:
  assumes "sections_tile (map ((!) (sections plan)) ks) a b"
    and "(\<Sum>i\<leftarrow>ks. packets_of (sections plan ! i)) < 2 ^ 32"
    and "n < (\<Sum>i\<leftarrow>ks. packets_of (sections plan ! i))"
  shows "\<exists>ch. chunk_scan plan ks (of_nat n) = (True, ch) \<and> 0 < unat (ch_bytes ch) \<and>
     unat (ch_bytes ch) \<le> 2020 \<and> a \<le> ch_offset ch \<and> ch_offset ch + unat (ch_bytes ch) \<le> b \<and>
     ch_section ch \<in> set ks"
  using assms
proof (induction ks arbitrary: a n)
  case Nil
  then show ?case by simp
next
  case (Cons i ks)
  let ?s = "sections plan ! i"
  let ?t = "unat (transferBytes ?s)"
  have ok: "section_ok a ?s" and tile: "sections_tile (map ((!) (sections plan)) ks) (a + ?t) b"
    using Cons.prems(1) by auto
  have t: "?t < 2 ^ 25" and off: "sec_offset ?s = a" using ok by (auto simp: section_ok_def)
  have le: "a + ?t \<le> b" using tile by (rule sections_tile_le)
  show ?case
  proof (cases "n < packets_of ?s")
    case True
    then have "2020 * n < ?t" using ceil_div_covers [of 2020 n ?t] by (simp add: packets_of_def)
    moreover have "unat (of_nat (min 2020 (?t - 2020 * n)) :: u32) = min 2020 (?t - 2020 * n)"
      by (subst unat_of_nat) (simp add: min_def)
    ultimately show ?thesis using le off
      by (simp add: chunk_scan_first [OF t True] del: chunk_scan.simps of_nat_min)
  next
    case False
    then have "chunk_scan plan (i # ks) (of_nat n) = chunk_scan plan ks (of_nat (n - packets_of ?s))"
      using Cons.prems by (intro chunk_scan_skip) auto
    moreover have "n - packets_of ?s < (\<Sum>i\<leftarrow>ks. packets_of (sections plan ! i))"
      using Cons.prems(3) False by auto
    ultimately show ?thesis using Cons.IH [OF tile] Cons.prems(2) by force
  qed
qed

lemma plan_wf_chunks:
  assumes "plan_wf data c p"
  shows "sections_tile (map ((!) (sections p)) [0..<unat (sectionCount p)])
           (imageOffset p + headerBytes p) (imageOffset p + imageBytes p)"
    and "unat (packetCount p) = (\<Sum>i\<leftarrow>[0..<unat (sectionCount p)]. packets_of (sections p ! i))"
    and "(\<Sum>i\<leftarrow>[0..<unat (sectionCount p)]. packets_of (sections p ! i)) < 2 ^ 32"
proof -
  have eq: "map ((!) (sections p)) [0..<unat (sectionCount p)] =
      take (unat (sectionCount p)) (sections p)"
    using assms by (intro nth_equalityI) (auto simp: plan_wf_def)
  then show "sections_tile (map ((!) (sections p)) [0..<unat (sectionCount p)])
           (imageOffset p + headerBytes p) (imageOffset p + imageBytes p)"
    using assms by (simp add: plan_wf_def)
  show n: "unat (packetCount p) = (\<Sum>i\<leftarrow>[0..<unat (sectionCount p)]. packets_of (sections p ! i))"
    using assms by (simp add: plan_wf_def packets_of_def eq [symmetric] comp_def)
  then show "(\<Sum>i\<leftarrow>[0..<unat (sectionCount p)]. packets_of (sections p ! i)) < 2 ^ 32"
    using unsigned_less [of "packetCount p", where ?'a = nat] by (simp add: n)
qed

lemma chunkAt_wf:
  assumes "plan_wf data c p" and "n < unat (packetCount p)"
  shows "chunkAt p (of_nat n) = chunk_scan p [0..<unat (sectionCount p)] (of_nat n)"
proof -
  have "unat (packetCount p) < 2 ^ 32"
    using unsigned_less [of "packetCount p", where ?'a = nat] by simp
  then have "unat (of_nat n :: u32) = n" using assms(2) by (simp add: unat_of_nat)
  then show ?thesis using assms
    by (simp add: chunkAt_def plan_wf_def word_le_nat_alt not_le [symmetric])
qed

lemma chunkAt_tiles:
  assumes "plan_wf data c p"
  shows "concat (map (\<lambda>n. chunk_slice data (snd (chunkAt p (of_nat n)))) [0..<unat (packetCount p)]) =
    take (imageBytes p - headerBytes p) (drop (imageOffset p + headerBytes p) data)"
proof -
  have "concat (map (\<lambda>n. chunk_slice data (snd (chunkAt p (of_nat n)))) [0..<unat (packetCount p)]) =
    concat (map (\<lambda>n. chunk_slice data (snd (chunk_scan p [0..<unat (sectionCount p)] (of_nat n))))
      [0..<unat (packetCount p)])"
    using chunkAt_wf [OF assms] by (intro concat_map_upt_cong) (simp only:)
  also have "\<dots> = take (imageBytes p - headerBytes p) (drop (imageOffset p + headerBytes p) data)"
    using chunk_scan_tiles [OF plan_wf_chunks(1,3) [OF assms], of data]
    by (simp add: plan_wf_chunks(2) [OF assms])
  finally show ?thesis .
qed

text \<open>A one-section image in a one-entry container, as a concrete input of the parser.\<close>

definition sample_container :: bytes where
  "sample_container =
     [0xff, 1] @ replicate 14 0 @
     [1, 1, 0, 0, 32, 0, 0, 0, 51, 0, 0, 0, 0, 0, 0, 0] @
     [0, 0, 0x52, 0x88] @ replicate 21 0 @ [1, 0, 0, 0, 0, 0, 0] @
     [0, 0, 0, 0, 3, 0, 0, 1, 0, 0, 0, 0, 0, 0, 0, 0] @ [0xaa, 0xbb, 0xcc]"

definition sample_plan :: Plan where
  "sample_plan = Plan0\<lparr>imageOffset := 32, imageBytes := 51, headerBytes := 48, baseHeaderBytes := 48,
     packetCount := 1, cut := 1, plan_type := 1, sectionCount := 1,
     sections := (replicate maxSections Section0)[0 := \<lparr>sec_offset = 80, payloadBytes = 3,
       transferBytes = 3, address = 0, metadata = 0x1000003, sec_type = 1,
       checksumTrailer = False, redownload = False\<rparr>], plan_valid := True\<rparr>"

lemma sample_parse: "parse (Some sample_container) 1 = Some (St_ok, sample_plan)"
  by code_simp

section \<open>Properties\<close>

text \<open>on every input the parser ends without reading outside the
  container, and whatever error it returns, the caller's plan is left empty: only
  \<open>Status::ok\<close> yields a plan.\<close>

theorem parse_safe: "\<exists>st p. parse source c = Some (st, p) \<and> (st = St_ok \<or> p = Plan0)"
proof (cases source)
  case None
  then show ?thesis by (simp add: parse_def)
next
  case (Some data)
  then show ?thesis using parse_spec [of data c] by (auto simp: parse_post_def split: if_splits)
qed

text \<open>C2: a plan returned with \<open>Status::ok\<close> is well formed: it is for the
  requested cut, its image lies inside the container, its one to ten sections tile the image
  from the end of the header to its last byte without gap or overlap, every section's load
  address range stays below \<open>0x20000000\<close>, and the packet count is the number of 2020-byte
  packets of all sections (the 32-bit sum does not wrap).\<close>

theorem parse_ok_wf: "parse (Some data) c = Some (St_ok, p) \<Longrightarrow> plan_wf data c p"
  using parse_spec [of data c] by simp

theorem parse_ok_wf_witness: "plan_wf sample_container 1 sample_plan"
  using sample_parse by (rule parse_ok_wf)

text \<open>C3: for a parsed plan, the chunks \<open>chunkAt\<close> returns for the
  indices below the packet count, in order, are exactly the image's bytes after its header:
  every byte is in one chunk, in its place.\<close>

theorem chunks_tile_image:
  assumes "parse (Some data) c = Some (St_ok, p)"
  shows "concat (map (\<lambda>n. chunk_slice data (snd (chunkAt p (of_nat n)))) [0..<unat (packetCount p)]) =
    take (imageBytes p - headerBytes p) (drop (imageOffset p + headerBytes p) data)"
  using chunkAt_tiles parse_spec [of data c] assms by simp

theorem chunks_tile_image_witness:
  "concat (map (\<lambda>n. chunk_slice sample_container (snd (chunkAt sample_plan (of_nat n))))
     [0..<unat (packetCount sample_plan)]) = [0xaa, 0xbb, 0xcc]"
proof -
  have "take (imageBytes sample_plan - headerBytes sample_plan)
      (drop (imageOffset sample_plan + headerBytes sample_plan) sample_container) = [0xaa, 0xbb, 0xcc]"
    by code_simp
  then show ?thesis using chunks_tile_image [OF sample_parse] by simp
qed

text \<open>for a parsed plan, \<open>chunkAt\<close> succeeds exactly on the indices
  below the packet count, and then the chunk is not empty, holds at most 2020 bytes and lies
  inside the image's section area.\<close>

theorem chunkAt_in_image:
  assumes "parse (Some data) c = Some (St_ok, p)"
  shows "if index < packetCount p
     then \<exists>ch. chunkAt p index = (True, ch) \<and> 0 < unat (ch_bytes ch) \<and> ch_bytes ch \<le> packetBytes \<and>
        imageOffset p + headerBytes p \<le> ch_offset ch \<and>
        ch_offset ch + unat (ch_bytes ch) \<le> imageOffset p + imageBytes p
     else chunkAt p index = (False, Chunk0)"
proof (cases "index < packetCount p")
  case False
  then show ?thesis by (simp add: chunkAt_def not_less)
next
  case True
  have wf: "plan_wf data c p" using parse_spec [of data c] assms by simp
  have lt: "unat index < unat (packetCount p)" using True by (simp add: word_less_nat_alt)
  have "chunkAt p index = chunk_scan p [0..<unat (sectionCount p)] index"
    using chunkAt_wf [OF wf lt] by simp
  moreover have "unat index < (\<Sum>i\<leftarrow>[0..<unat (sectionCount p)]. packets_of (sections p ! i))"
    using lt by (simp add: plan_wf_chunks(2) [OF wf])
  ultimately show ?thesis
    using chunk_scan_hit [OF plan_wf_chunks(1,3) [OF wf], of "unat index"] True
    by (auto simp: word_le_nat_alt)
qed

theorem chunkAt_in_image_witness:
  "chunkAt sample_plan 0 =
     (True, \<lparr>ch_offset = 80, ch_bytes = 3, ch_sectionOffset = 0, ch_section = 0\<rparr>) \<and>
   ch_bytes (snd (chunkAt sample_plan 0)) \<le> packetBytes \<and>
   chunkAt sample_plan 1 = (False, Chunk0)"
proof -
  have eval: "chunkAt sample_plan 0 =
     (True, \<lparr>ch_offset = 80, ch_bytes = 3, ch_sectionOffset = 0, ch_section = 0\<rparr>)"
    by code_simp
  have n: "packetCount sample_plan = 1" by (simp add: sample_plan_def Plan0_def)
  show ?thesis
    using chunkAt_in_image [OF sample_parse, of 0] chunkAt_in_image [OF sample_parse, of 1]
    by (simp add: eval n)
qed

end
