(* ===== verification/FirmwarePackets.thy ===== *)
theory FirmwarePackets
  imports FirmwarePlan
begin

text \<open>The class \<open>Packets\<close> of \<open>src/FirmwarePackets.hpp\<close>: initialization and the packet encoder, the
  exact bytes of every packet, and that the packets carry the image.\<close>

definition txwdBytes :: nat where [simp]: "txwdBytes = 24"
definition h2cBytes :: nat where [simp]: "h2cBytes = 8"
definition maxPacketBytes :: nat where [simp]: "maxPacketBytes = txwdBytes + unat packetBytes"
definition ringSize :: u32 where [simp]: "ringSize = 256"
definition maxPackets :: u32 where [simp]: "maxPackets = ringSize - 1"

definition put32 :: "bytes \<Rightarrow> nat \<Rightarrow> u32 \<Rightarrow> bytes option" where
  "put32 p off v = wr p off (map (\<lambda>i. ucast (drop_bit (8 * i) v)) [0..<4])"

datatype PacketStatus =
    PS_ok | PS_layoutError | PS_tooManyPackets | PS_notInitialized | PS_badIndex | PS_smallBuffer
  | PS_overlap

record PacketInfo =
  pi_bytes :: nat
  pi_payloadBytes :: nat
  pi_sourceOffset :: nat
  pi_section :: nat
  pi_header :: bool

definition PacketInfo0 :: PacketInfo where
  "PacketInfo0 = \<lparr>pi_bytes = 0, pi_payloadBytes = 0, pi_sourceOffset = 0, pi_section = 0,
     pi_header = False\<rparr>"

text \<open>The class \<open>Packets\<close>: the borrowed source (its length is \<open>size\<close>), the plan and its status.\<close>

record Packets =
  pk_data :: "bytes option"
  pk_layout :: Plan
  pk_layoutStatus :: Status

definition Packets0 :: Packets where
  "Packets0 = \<lparr>pk_data = None, pk_layout = Plan0, pk_layoutStatus = St_truncated\<rparr>"

definition initialize :: "bytes option \<Rightarrow> u8 \<Rightarrow> (PacketStatus \<times> Packets) option" where
  "initialize source c = do {
     (st, layout) \<leftarrow> parse source c;
     if st \<noteq> St_ok
     then Some (PS_layoutError, \<lparr>pk_data = None, pk_layout = layout, pk_layoutStatus = st\<rparr>)
     else if packetCount layout = 0 \<or> maxPackets \<le> packetCount layout
     then Some (PS_tooManyPackets, \<lparr>pk_data = None, pk_layout = Plan0, pk_layoutStatus = st\<rparr>)
     else Some (PS_ok, \<lparr>pk_data = source, pk_layout = layout, pk_layoutStatus = st\<rparr>) }"

definition Packets_count :: "Packets \<Rightarrow> u32" where
  "Packets_count pk = (if pk_data pk \<noteq> None then packetCount (pk_layout pk) + 1 else 0)"

text \<open>The body of the header packet: the command header, then the image's base header with the
  packet length patched into word 7.\<close>

definition encode_header_body :: "bytes \<Rightarrow> Plan \<Rightarrow> u8 \<Rightarrow> nat \<Rightarrow> bytes \<Rightarrow> bytes option" where
  "encode_header_body data layout seq payload out = do {
     out \<leftarrow> put32 out 24 (0x0d OR push_bit 24 (ucast seq));
     out \<leftarrow> put32 out 28 (of_nat payload);
     hdr \<leftarrow> rd_bytes data (imageOffset layout) (baseHeaderBytes layout);
     out \<leftarrow> wr out (24 + h2cBytes) hdr;
     w7 \<leftarrow> le32 out (24 + h2cBytes + 28);
     put32 out (24 + h2cBytes + 28) ((w7 AND 0xffff0000) OR packetBytes) }"

definition encode_section_body :: "bytes \<Rightarrow> Chunk \<Rightarrow> bytes \<Rightarrow> bytes option" where
  "encode_section_body data chunk out = do {
     src \<leftarrow> rd_bytes data (ch_offset chunk) (unat (ch_bytes chunk));
     wr out 24 src }"

text \<open>The descriptor in front of the body.\<close>

definition encode_descriptor :: "bool \<Rightarrow> nat \<Rightarrow> bytes \<Rightarrow> bytes option" where
  "encode_descriptor header payload out = do {
     out \<leftarrow> put32 out 0 (push_bit 16 12 OR (if header then 0 else push_bit 20 1));
     out \<leftarrow> put32 out 8 (of_nat payload);
     swseq \<leftarrow> (if 24 \<le> payload then do {
                  lo \<leftarrow> rd8 out (24 + 22);
                  hi \<leftarrow> rd8 out (24 + 23);
                  Some (drop_bit 4 (ucast lo OR push_bit 8 (ucast hi))) }
               else Some 0);
     put32 out 12 swseq }"

text \<open>\<open>encode\<close>: the buffer \<open>out\<close> (its length is the capacity) at address \<open>dst\<close>, the source at
  address \<open>src\<close>.\<close>

definition encode ::
  "Packets \<Rightarrow> u32 \<Rightarrow> bytes option \<Rightarrow> nat \<Rightarrow> nat \<Rightarrow> u8 \<Rightarrow> (PacketStatus \<times> PacketInfo \<times> bytes option) option"
where
  "encode pk ordinal out dst src seq = (case pk_data pk of
     None \<Rightarrow> Some (PS_notInitialized, PacketInfo0, out)
   | Some data \<Rightarrow>
       if Packets_count pk \<le> ordinal then Some (PS_badIndex, PacketInfo0, out)
       else let layout = pk_layout pk; header = (ordinal = 0);
                (found, chunk) = (if header then (True, Chunk0) else chunkAt layout (ordinal - 1)) in
         if \<not> found then Some (PS_badIndex, PacketInfo0, out)
         else let payload = (if header then h2cBytes + baseHeaderBytes layout else unat (ch_bytes chunk));
                  len = txwdBytes + payload in
           case out of None \<Rightarrow> Some (PS_smallBuffer, PacketInfo0, out)
           | Some buf \<Rightarrow>
               if length buf < len \<or> maxPacketBytes < len then Some (PS_smallBuffer, PacketInfo0, out)
               else if (if src \<le> dst then dst - src < length data else src - dst < len)
               then Some (PS_overlap, PacketInfo0, out)
               else do {
                 b \<leftarrow> wr buf 0 (replicate len 0);
                 b \<leftarrow> (if header then encode_header_body data layout seq payload b
                       else encode_section_body data chunk b);
                 b \<leftarrow> encode_descriptor header payload b;
                 Some (PS_ok, \<lparr>pi_bytes = len, pi_payloadBytes = payload,
                    pi_sourceOffset = (if header then imageOffset layout else ch_offset chunk),
                    pi_section = (if header then 0 else ch_section chunk), pi_header = header\<rparr>,
                    Some b) })"

section \<open>The layout of a packet\<close>

text \<open>The 24-byte descriptor: word 0 names the firmware channel and the download bit, word 2 the
  payload length, word 3 the sequence taken from the body; the other words are zero.\<close>

definition txwd :: "bool \<Rightarrow> bytes \<Rightarrow> bytes" where
  "txwd header body = bytes_of32 (push_bit 16 12 OR (if header then 0 else push_bit 20 1)) @
     replicate 4 0 @ bytes_of32 (of_nat (length body)) @
     bytes_of32 (if 24 \<le> length body
       then drop_bit 4 (ucast (body ! 22) OR push_bit 8 (ucast (body ! 23))) else 0) @
     replicate 8 0"

lemma length_txwd [simp]: "length (txwd header body) = 24"
  by (simp add: txwd_def)

lemma put32_bytes: "put32 p off v = wr p off (bytes_of32 v)"
proof -
  have "[0..<4] = [0, 1, 2, 3 :: nat]" by (simp add: upt_rec)
  then show ?thesis by (simp add: put32_def bytes_of32_def)
qed

lemma encode_descriptor_eq:
  assumes "length body = payload"
  shows "encode_descriptor header payload (replicate 24 0 @ body @ rest) =
     Some (txwd header body @ body @ rest)"
proof -
  define w0 where "w0 = bytes_of32 (push_bit 16 12 OR (if header then 0 else push_bit 20 1))"
  define n where "n = bytes_of32 (of_nat payload)"
  have z: "replicate 24 (0 :: u8) = replicate 4 0 @ replicate 4 0 @ replicate 4 0 @ replicate 12 0"
    by (simp add: replicate_add [symmetric])
  have z': "replicate 12 (0 :: u8) = replicate 4 0 @ replicate 8 0"
    by (simp add: replicate_add [symmetric])
  have a: "wr (replicate 24 0 @ body @ rest) 0 w0 =
      Some (w0 @ replicate 4 0 @ replicate 4 0 @ replicate 12 0 @ body @ rest)"
    unfolding z by (simp add: wr_def w0_def)
  have b: "wr (w0 @ replicate 4 0 @ replicate 4 0 @ replicate 12 0 @ body @ rest) 8 n =
      Some (w0 @ replicate 4 0 @ n @ replicate 12 0 @ body @ rest)"
    using wr_append [of n "replicate 4 0" 8 "w0 @ replicate 4 0"] by (simp add: w0_def n_def)
  have c: "wr (w0 @ replicate 4 0 @ n @ replicate 12 0 @ body @ rest) 12 (bytes_of32 s) =
      Some (w0 @ replicate 4 0 @ n @ bytes_of32 s @ replicate 8 0 @ body @ rest)" for s
    unfolding z' using wr_append [of "bytes_of32 s" "replicate 4 0" 12 "w0 @ replicate 4 0 @ n"]
    by (simp add: w0_def n_def)
  have r: "rd8 (w0 @ replicate 4 0 @ n @ replicate 12 0 @ body @ rest) (24 + i) = Some (body ! i)"
    if "i < payload" for i
    using that assms by (simp add: rd8_def nth_append w0_def n_def)
  show ?thesis
    unfolding encode_descriptor_def put32_bytes txwd_def assms w0_def [symmetric] n_def [symmetric]
      a b Option.bind_lunit
    using r [of 22] r [of 23] by (cases "24 \<le> payload") (simp_all add: c)
qed

lemma encode_section_body_eq:
  assumes "ch_offset chunk + unat (ch_bytes chunk) \<le> length data"
  shows "encode_section_body data chunk (replicate (24 + unat (ch_bytes chunk)) 0 @ rest) =
     Some (replicate 24 0 @ chunk_slice data chunk @ rest)"
proof -
  have "length (chunk_slice data chunk) = unat (ch_bytes chunk)"
    using assms by (simp add: chunk_slice_def)
  then show ?thesis
    using assms wr_append [of "chunk_slice data chunk" "replicate (unat (ch_bytes chunk)) 0" 24 "replicate 24 0"]
    by (simp add: encode_section_body_def mem_simps replicate_add chunk_slice_def)
qed

text \<open>The payload of the header packet: 8 bytes of command header and the image's base header,
  whose word 7 announces 2020-byte packets.\<close>

definition header_payload :: "bytes \<Rightarrow> Plan \<Rightarrow> u8 \<Rightarrow> bytes" where
  "header_payload data p seq = (let hdr = take (baseHeaderBytes p) (drop (imageOffset p) data) in
     bytes_of32 (0x0d OR push_bit 24 (ucast seq)) @ bytes_of32 (of_nat (8 + baseHeaderBytes p)) @
     take 28 hdr @ bytes_of32 ((word_at hdr 28 AND 0xffff0000) OR 2020) @ drop 32 hdr)"

lemma encode_header_body_eq:
  assumes "imageOffset p + baseHeaderBytes p \<le> length data" and "32 \<le> baseHeaderBytes p"
  shows "encode_header_body data p seq (8 + baseHeaderBytes p)
      (replicate (24 + (8 + baseHeaderBytes p)) 0 @ rest) =
     Some (replicate 24 0 @ header_payload data p seq @ rest)"
proof -
  let ?n = "baseHeaderBytes p"
  let ?z = "replicate 24 (0 :: u8)"
  define hdr where "hdr = take ?n (drop (imageOffset p) data)"
  define c0 where "c0 = bytes_of32 (0x0d OR push_bit 24 (ucast seq))"
  define c1 where "c1 = bytes_of32 (of_nat (8 + ?n))"
  have l: "length hdr = ?n" "length c0 = 4" "length c1 = 4"
    using assms by (simp_all add: hdr_def c0_def c1_def)
  have parts: "hdr = take 28 hdr @ take 4 (drop 28 hdr) @ drop 32 hdr"
    using append_take_drop_id [of 28 hdr] append_take_drop_id [of 4 "drop 28 hdr"] by simp
  have z: "replicate (24 + (8 + ?n)) (0 :: u8) = ?z @ replicate 4 0 @ replicate 4 0 @ replicate ?n 0"
    by (simp add: replicate_add [symmetric] add.assoc)
  have a: "wr (replicate (24 + (8 + ?n)) 0 @ rest) 24 c0 = Some (?z @ c0 @ replicate 4 0 @ replicate ?n 0 @ rest)"
    unfolding z using wr_append [of c0 "replicate 4 0" 24 ?z] l by simp
  have b: "wr (?z @ c0 @ replicate 4 0 @ replicate ?n 0 @ rest) 28 c1 = Some (?z @ c0 @ c1 @ replicate ?n 0 @ rest)"
    using wr_append [of c1 "replicate 4 0" 28 "?z @ c0"] l by simp
  have c: "wr (?z @ c0 @ c1 @ replicate ?n 0 @ rest) 32 hdr = Some (?z @ c0 @ c1 @ hdr @ rest)"
    using wr_append [of hdr "replicate ?n 0" 32 "?z @ c0 @ c1"] l by simp
  have d: "le32 (?z @ c0 @ c1 @ hdr @ rest) 60 = Some (word_at hdr 28)"
    using l assms(2) by (simp add: le32_def mem_simps word_at_def nth_append)
  have e: "wr (?z @ c0 @ c1 @ hdr @ rest) 60 (bytes_of32 w) =
      Some (?z @ c0 @ c1 @ take 28 hdr @ bytes_of32 w @ drop 32 hdr @ rest)" for w
  proof -
    have hr: "hdr @ rest = take 28 hdr @ take 4 (drop 28 hdr) @ drop 32 hdr @ rest"
      using arg_cong [OF parts, of "\<lambda>xs. xs @ rest"] by simp
    have "wr (?z @ c0 @ c1 @ take 28 hdr @ take 4 (drop 28 hdr) @ drop 32 hdr @ rest) 60 (bytes_of32 w) =
      Some (?z @ c0 @ c1 @ take 28 hdr @ bytes_of32 w @ drop 32 hdr @ rest)"
      using wr_append [of "bytes_of32 w" "take 4 (drop 28 hdr)" 60 "?z @ c0 @ c1 @ take 28 hdr" "drop 32 hdr @ rest"]
        l assms(2) by simp
    then show ?thesis by (simp only: hr)
  qed
  have hp: "header_payload data p seq = c0 @ c1 @ take 28 hdr @
      bytes_of32 ((word_at hdr 28 AND 0xffff0000) OR 2020) @ drop 32 hdr"
    by (simp add: header_payload_def Let_def hdr_def c0_def c1_def)
  show ?thesis
    unfolding encode_header_body_def put32_bytes c0_def [symmetric] c1_def [symmetric] a b Option.bind_lunit
    using assms by (simp add: mem_simps hdr_def [symmetric] c d e hp)
qed

section \<open>The firmware batch\<close>

text \<open>What a successful initialization gives.\<close>

lemma initialize_ok:
  assumes "initialize source c = Some (PS_ok, pk)"
  obtains data where "source = Some data" and "pk_data pk = Some data"
    and "plan_wf data c (pk_layout pk)" and "pk_layout pk \<noteq> Plan0"
    and "0 < unat (packetCount (pk_layout pk))" and "unat (packetCount (pk_layout pk)) < 255"
    and "unat (Packets_count pk) = unat (packetCount (pk_layout pk)) + 1"
    and "parse source c = Some (St_ok, pk_layout pk)"
proof -
  from assms obtain layout where p: "parse source c = Some (St_ok, layout)"
    and n: "packetCount layout \<noteq> 0" "packetCount layout < 255"
    and pk: "pk = \<lparr>pk_data = source, pk_layout = layout, pk_layoutStatus = St_ok\<rparr>"
    by (auto simp: initialize_def split: Option.bind_split_asm if_splits)
  from p obtain data where d: "source = Some data" by (cases source) (auto simp: parse_def)
  have wf: "plan_wf data c layout" using parse_spec [of data c] p d by simp
  have u: "unat (packetCount layout) < 255" using n(2) by (simp add: word_less_nat_alt)
  have "unat (Packets_count pk) = unat (packetCount layout) + 1"
    using d pk u by (simp add: Packets_count_def unat_word_ariths)
  moreover have "layout \<noteq> Plan0" using wf by (auto simp: plan_wf_def Plan0_def)
  ultimately show ?thesis
    using that [of data] d pk wf u n(1) p by (simp add: unat_gt_0)
qed

text \<open>The buffer and the source do not overlap for a packet of \<open>len\<close> bytes.\<close>

definition apart :: "nat \<Rightarrow> nat \<Rightarrow> bytes \<Rightarrow> nat \<Rightarrow> bool" where
  "apart dst src data len \<longleftrightarrow> (if src \<le> dst then length data \<le> dst - src else len \<le> src - dst)"

lemma encode_section_eq:
  assumes ini: "initialize (Some data) c = Some (PS_ok, pk)"
    and ord: "0 < ordinal" "ordinal < Packets_count pk"
    and cap: "maxPacketBytes \<le> length buf" and ap: "apart dst src data maxPacketBytes"
  shows "\<exists>ch. chunkAt (pk_layout pk) (ordinal - 1) = (True, ch) \<and>
    encode pk ordinal (Some buf) dst src seq = Some (PS_ok,
      \<lparr>pi_bytes = 24 + length (chunk_slice data ch), pi_payloadBytes = length (chunk_slice data ch),
       pi_sourceOffset = ch_offset ch, pi_section = ch_section ch, pi_header = False\<rparr>,
      Some (txwd False (chunk_slice data ch) @ chunk_slice data ch @
        drop (24 + length (chunk_slice data ch)) buf))"
proof -
  from ini obtain wf: "plan_wf data c (pk_layout pk)" and d: "pk_data pk = Some data"
    and n: "unat (Packets_count pk) = unat (packetCount (pk_layout pk)) + 1"
    by (auto elim: initialize_ok)
  let ?p = "pk_layout pk"
  have u: "unat (ordinal - 1) = unat ordinal - 1"
    using ord(1) by (subst unat_sub) (simp_all add: word_le_nat_alt unat_gt_0 Suc_le_eq word_less_nat_alt)
  have "unat (ordinal - 1) < unat (packetCount ?p)"
    using ord n u by (simp add: word_less_nat_alt)
  then obtain ch where ch: "chunkAt ?p (ordinal - 1) = (True, ch)" "0 < unat (ch_bytes ch)"
    "unat (ch_bytes ch) \<le> 2020" "ch_offset ch + unat (ch_bytes ch) \<le> imageOffset ?p + imageBytes ?p"
    using chunk_scan_hit [OF plan_wf_chunks(1,3) [OF wf], of "unat (ordinal - 1)"]
      chunkAt_wf [OF wf, of "unat (ordinal - 1)"] by (auto simp: plan_wf_chunks(2) [OF wf])
  have fit: "ch_offset ch + unat (ch_bytes ch) \<le> length data" using ch(4) wf by (simp add: plan_wf_def)
  then have len: "length (chunk_slice data ch) = unat (ch_bytes ch)" by (simp add: chunk_slice_def)
  let ?len = "24 + unat (ch_bytes ch)"
  have ze: "wr buf 0 (replicate ?len 0) = Some (replicate ?len 0 @ drop ?len buf)"
    using cap ch(3) by (simp add: wr_def)
  have ov: "\<not> (if src \<le> dst then dst - src < length data else src - dst < ?len)"
    using ap ch(3) by (auto simp: apart_def split: if_splits)
  have "encode pk ordinal (Some buf) dst src seq = do {
      b \<leftarrow> encode_section_body data ch (replicate ?len 0 @ drop ?len buf);
      b \<leftarrow> encode_descriptor False (unat (ch_bytes ch)) b;
      Some (PS_ok, \<lparr>pi_bytes = ?len, pi_payloadBytes = unat (ch_bytes ch),
        pi_sourceOffset = ch_offset ch, pi_section = ch_section ch, pi_header = False\<rparr>, Some b) }"
    using ord ch(1,3) cap ov ze by (simp add: encode_def d Let_def not_le [symmetric])
  also have "\<dots> = Some (PS_ok, \<lparr>pi_bytes = ?len, pi_payloadBytes = unat (ch_bytes ch),
        pi_sourceOffset = ch_offset ch, pi_section = ch_section ch, pi_header = False\<rparr>,
      Some (txwd False (chunk_slice data ch) @ chunk_slice data ch @ drop ?len buf))"
    by (simp only: encode_section_body_eq [OF fit] encode_descriptor_eq [OF len] Option.bind_lunit)
  finally show ?thesis using ch(1) len by simp
qed

lemma length_header_payload:
  assumes "imageOffset p + baseHeaderBytes p \<le> length data" and "32 \<le> baseHeaderBytes p"
  shows "length (header_payload data p seq) = 8 + baseHeaderBytes p"
  using assms by (simp add: header_payload_def Let_def)

lemma encode_header_eq:
  assumes ini: "initialize (Some data) c = Some (PS_ok, pk)"
    and cap: "maxPacketBytes \<le> length buf" and ap: "apart dst src data maxPacketBytes"
  shows "encode pk 0 (Some buf) dst src seq = Some (PS_ok,
      \<lparr>pi_bytes = 32 + baseHeaderBytes (pk_layout pk), pi_payloadBytes = 8 + baseHeaderBytes (pk_layout pk),
       pi_sourceOffset = imageOffset (pk_layout pk), pi_section = 0, pi_header = True\<rparr>,
      Some (txwd True (header_payload data (pk_layout pk) seq) @ header_payload data (pk_layout pk) seq @
        drop (32 + baseHeaderBytes (pk_layout pk)) buf))"
proof -
  let ?p = "pk_layout pk"
  from ini obtain wf: "plan_wf data c ?p" and d: "pk_data pk = Some data"
    and n: "unat (Packets_count pk) = unat (packetCount ?p) + 1"
    by (auto elim: initialize_ok)
  have some: "\<not> Packets_count pk \<le> 0" using n by (auto simp: word_le_nat_alt)
  have b: "32 \<le> baseHeaderBytes ?p" "baseHeaderBytes ?p \<le> 192"
    "imageOffset ?p + baseHeaderBytes ?p \<le> length data"
    using wf by (auto simp: plan_wf_def)
  let ?len = "24 + (8 + baseHeaderBytes ?p)"
  have ze: "wr buf 0 (replicate ?len 0) = Some (replicate ?len 0 @ drop ?len buf)"
    using cap b by (simp add: wr_def)
  have ov: "\<not> (if src \<le> dst then dst - src < length data else src - dst < ?len)"
    using ap b(2) by (auto simp: apart_def split: if_splits)
  have "encode pk 0 (Some buf) dst src seq = do {
      b \<leftarrow> encode_header_body data ?p seq (8 + baseHeaderBytes ?p) (replicate ?len 0 @ drop ?len buf);
      b \<leftarrow> encode_descriptor True (8 + baseHeaderBytes ?p) b;
      Some (PS_ok, \<lparr>pi_bytes = ?len, pi_payloadBytes = 8 + baseHeaderBytes ?p,
        pi_sourceOffset = imageOffset ?p, pi_section = 0, pi_header = True\<rparr>, Some b) }"
    using some cap b(2) ov ze by (simp add: encode_def d Let_def)
  also have "\<dots> = Some (PS_ok, \<lparr>pi_bytes = ?len, pi_payloadBytes = 8 + baseHeaderBytes ?p,
        pi_sourceOffset = imageOffset ?p, pi_section = 0, pi_header = True\<rparr>,
      Some (txwd True (header_payload data ?p seq) @ header_payload data ?p seq @ drop ?len buf))"
    by (simp only: encode_header_body_eq [OF b(3,1)] encode_descriptor_eq [OF length_header_payload [OF b(3,1)]]
        Option.bind_lunit)
  finally show ?thesis by simp
qed

text \<open>The payload the device receives in packet \<open>k\<close>: what follows the descriptor.\<close>

definition packet_payload :: "Packets \<Rightarrow> u32 \<Rightarrow> bytes \<Rightarrow> nat \<Rightarrow> nat \<Rightarrow> u8 \<Rightarrow> bytes" where
  "packet_payload pk k buf dst src seq = (case encode pk k (Some buf) dst src seq of
     Some (PS_ok, info, Some b) \<Rightarrow> take (pi_payloadBytes info) (drop txwdBytes b)
   | _ \<Rightarrow> [])"

lemma packet_payload_section:
  assumes ini: "initialize (Some data) c = Some (PS_ok, pk)"
    and cap: "maxPacketBytes \<le> length buf" and ap: "apart dst src data maxPacketBytes"
    and k: "k < unat (packetCount (pk_layout pk))"
  shows "packet_payload pk (of_nat (Suc k)) buf dst src seq =
     chunk_slice data (snd (chunkAt (pk_layout pk) (of_nat k)))"
proof -
  from ini obtain n: "unat (Packets_count pk) = unat (packetCount (pk_layout pk)) + 1"
    and lt: "unat (packetCount (pk_layout pk)) < 255"
    by (auto elim: initialize_ok)
  have u: "unat (of_nat (Suc k) :: u32) = Suc k" using k lt by (subst unat_of_nat) simp
  have "(0 :: u32) < of_nat (Suc k)" "of_nat (Suc k) < Packets_count pk"
    using u n k by (simp_all add: word_less_nat_alt del: of_nat_Suc)
  then obtain ch where "chunkAt (pk_layout pk) (of_nat (Suc k) - 1) = (True, ch)"
    "encode pk (of_nat (Suc k)) (Some buf) dst src seq = Some (PS_ok,
      \<lparr>pi_bytes = 24 + length (chunk_slice data ch), pi_payloadBytes = length (chunk_slice data ch),
       pi_sourceOffset = ch_offset ch, pi_section = ch_section ch, pi_header = False\<rparr>,
      Some (txwd False (chunk_slice data ch) @ chunk_slice data ch @
        drop (24 + length (chunk_slice data ch)) buf))"
    using encode_section_eq [OF ini _ _ cap ap, of "of_nat (Suc k)" seq] by blast
  then show ?thesis by (simp add: packet_payload_def)
qed

section \<open>Properties\<close>

text \<open>C4: the payloads of the section packets of an initialized batch,
  in the order of their ordinals, are exactly the bytes of the selected image after its header,
  for any buffer that holds a packet and does not overlap the source.\<close>

theorem packets_carry_image:
  assumes "initialize (Some data) c = Some (PS_ok, pk)"
    and "maxPacketBytes \<le> length buf" and "apart dst src data maxPacketBytes"
  shows "concat (map (\<lambda>k. packet_payload pk (of_nat (Suc k)) buf dst src seq)
      [0..<unat (Packets_count pk) - 1]) =
    take (imageBytes (pk_layout pk) - headerBytes (pk_layout pk))
      (drop (imageOffset (pk_layout pk) + headerBytes (pk_layout pk)) data)"
proof -
  from assms(1) have n: "unat (Packets_count pk) - 1 = unat (packetCount (pk_layout pk))"
    and wf: "plan_wf data c (pk_layout pk)"
    by (auto elim: initialize_ok)
  show ?thesis
    unfolding n using packet_payload_section [OF assms] chunkAt_tiles [OF wf]
    by (simp only: cong: concat_map_upt_cong)
qed

definition sample_packets :: Packets where
  "sample_packets = \<lparr>pk_data = Some sample_container, pk_layout = sample_plan, pk_layoutStatus = St_ok\<rparr>"

lemma sample_initialize: "initialize (Some sample_container) 1 = Some (PS_ok, sample_packets)"
proof -
  have "packetCount sample_plan = 1" by (simp add: sample_plan_def)
  then show ?thesis by (simp add: initialize_def sample_parse sample_packets_def word_le_nat_alt)
qed

lemma sample_apart: "apart 0 5000 sample_container maxPacketBytes"
  by (simp add: apart_def)

theorem packets_carry_image_witness:
  "concat (map (\<lambda>k. packet_payload sample_packets (of_nat (Suc k)) (replicate 2044 0) 0 5000 7)
      [0..<unat (Packets_count sample_packets) - 1]) = [0xaa, 0xbb, 0xcc]"
proof -
  have "take (imageBytes sample_plan - headerBytes sample_plan)
      (drop (imageOffset sample_plan + headerBytes sample_plan) sample_container) = [0xaa, 0xbb, 0xcc]"
    by code_simp
  then show ?thesis
    using packets_carry_image [OF sample_initialize _ sample_apart, of "replicate 2044 0" 7]
    by (simp add: sample_packets_def)
qed

text \<open>packet 0 is a firmware-download header command: the descriptor
  names DMA channel 12 without the download bit, and the body is the command header and the
  image's base header with 2020 patched into the low half of word 7.\<close>

theorem header_packet:
  assumes "initialize (Some data) c = Some (PS_ok, pk)"
    and "maxPacketBytes \<le> length buf" and "apart dst src data maxPacketBytes"
  shows "\<exists>info. encode pk 0 (Some buf) dst src seq = Some (PS_ok, info,
      Some (txwd True (header_payload data (pk_layout pk) seq) @ header_payload data (pk_layout pk) seq @
        drop (pi_bytes info) buf)) \<and> pi_header info \<and>
      pi_bytes info = 24 + pi_payloadBytes info \<and> pi_bytes info \<le> maxPacketBytes \<and>
      pi_payloadBytes info = length (header_payload data (pk_layout pk) seq)"
proof -
  from assms(1) have wf: "plan_wf data c (pk_layout pk)" by (auto elim: initialize_ok)
  then show ?thesis
    using encode_header_eq [OF assms, of seq] length_header_payload [of "pk_layout pk" data seq]
    by (simp add: plan_wf_def)
qed

theorem header_packet_witness:
  "\<exists>info. encode sample_packets 0 (Some (replicate 2044 0)) 0 5000 7 = Some (PS_ok, info,
      Some (txwd True (header_payload sample_container sample_plan 7) @
        header_payload sample_container sample_plan 7 @ drop (pi_bytes info) (replicate 2044 0))) \<and>
      take 4 (header_payload sample_container sample_plan 7) = [0x0d, 0, 0, 7]"
proof -
  have "take 4 (header_payload sample_container sample_plan 7) = [0x0d, 0, 0, 7]" by code_simp
  moreover have "pk_layout sample_packets = sample_plan" by (simp add: sample_packets_def)
  ultimately show ?thesis
    using header_packet [OF sample_initialize _ sample_apart, of "replicate 2044 0" 7] by auto
qed

end
