(* ===== verification/FirmwareTransfer.thy ===== *)
theory FirmwareTransfer
  imports FirmwarePackets
begin

text \<open>The template \<open>transfer\<close> of \<open>src/FirmwareTransfer.hpp\<close> over an arbitrary backend: every
  phase, poll and clean-up branch, with a ghost trace of the calls that hand buffers over.\<close>

datatype Phase =
    Ph_idle | Ph_waitH2c | Ph_header | Ph_waitDownload | Ph_clearHalt | Ph_sections | Ph_waitReady
  | Ph_drain | Ph_quiesce | Ph_done

datatype TransferStatus =
    TS_notRun | TS_complete | TS_invalidPlan | TS_prepareFailed | TS_startFailed | TS_clockInvalid
  | TS_timeout | TS_cancelled | TS_registerInvalid | TS_checksumFailed | TS_securityFailed
  | TS_cutMismatch | TS_submitFailed | TS_clearFailed | TS_indexInvalid | TS_staleReady
  | TS_quiesceFailed | TS_releaseFailed

record TransferResult =
  tr_status :: TransferStatus
  operationStatus :: TransferStatus
  tr_phase :: Phase
  failedPhase :: Phase
  submitted :: nat
  attempted :: nat
  tr_polls :: nat
  lastControl :: u8
  lastIndex :: u32
  elapsedUs :: u64
  cleanupAttempted :: bool
  quiesced :: bool
  buffersReleased :: bool
  retainBuffers :: bool

definition TransferResult0 :: TransferResult where
  "TransferResult0 = \<lparr>tr_status = TS_notRun, operationStatus = TS_notRun, tr_phase = Ph_idle,
     failedPhase = Ph_idle, submitted = 0, attempted = 0, tr_polls = 0, lastControl = 0,
     lastIndex = 0, elapsedUs = 0, cleanupAttempted = False, quiesced = False,
     buffersReleased = False, retainBuffers = False\<rparr>"

definition controlError :: "u8 \<Rightarrow> TransferStatus" where
  "controlError c = (if c = 0xff then TS_registerInvalid
     else let k = drop_bit 5 c AND 7 in
       if k = 2 then TS_checksumFailed else if k = 3 then TS_securityFailed
       else if k = 4 then TS_cutMismatch else TS_notRun)"

text \<open>The backend contract: each operation acts on the device state and returns its result.\<close>

record 's Backend =
  be_nowUs :: "'s \<Rightarrow> u64 \<times> 's"
  be_cancelled :: "'s \<Rightarrow> bool \<times> 's"
  be_prepare :: "Packets \<Rightarrow> 's \<Rightarrow> bool \<times> 's"
  be_startDownload :: "'s \<Rightarrow> bool \<times> 's"
  be_readControl :: "'s \<Rightarrow> u8 \<times> 's"
  be_delayUs :: "nat \<Rightarrow> 's \<Rightarrow> 's"
  be_publish :: "nat \<Rightarrow> 's \<Rightarrow> bool \<times> 's"
  be_clearHaltControls :: "'s \<Rightarrow> bool \<times> 's"
  be_readIndex :: "'s \<Rightarrow> u32 \<times> 's"
  be_quiesceAndProveIdle :: "'s \<Rightarrow> bool \<times> 's"
  be_releaseAll :: "'s \<Rightarrow> bool \<times> 's"

text \<open>The calls that hand buffers over or take them back, with their results, as a ghost trace.\<close>

datatype call = Prepare bool | Start bool | Publish nat bool | Quiesce bool | Release bool

record 's transfer_ctx =
  res :: TransferResult
  previous :: u64
  dev :: 's
  trace :: "call list"

definition fail :: "TransferStatus \<Rightarrow> 's transfer_ctx \<Rightarrow> 's transfer_ctx" where
  "fail st c = c\<lparr>res := (res c)\<lparr>tr_status := st\<rparr>\<rparr>"

definition enter :: "Phase \<Rightarrow> 's transfer_ctx \<Rightarrow> 's transfer_ctx" where
  "enter ph c = c\<lparr>res := (res c)\<lparr>tr_phase := ph\<rparr>\<rparr>"

text \<open>The lambda \<open>check\<close>: clock, cancellation and the 5 s deadline.\<close>

definition check :: "'s Backend \<Rightarrow> u64 \<Rightarrow> 's transfer_ctx \<Rightarrow> bool \<times> 's transfer_ctx" where
  "check b start c = (let (now, s) = be_nowUs b (dev c); c = c\<lparr>dev := s\<rparr> in
     if now < previous c then (False, fail TS_clockInvalid c)
     else let c = c\<lparr>previous := now, res := (res c)\<lparr>elapsedUs := now - start\<rparr>\<rparr>;
              (stop, s) = be_cancelled b (dev c); c = c\<lparr>dev := s\<rparr> in
       if stop then (False, fail TS_cancelled c)
       else if 5000000 \<le> elapsedUs (res c) then (False, fail TS_timeout c)
       else (True, c))"

text \<open>The pause between two polls; none after the last (\<open>n\<close> polls are left).\<close>

definition poll_pause :: "'s Backend \<Rightarrow> nat \<Rightarrow> 's transfer_ctx \<Rightarrow> 's transfer_ctx" where
  "poll_pause b n c = (if n \<noteq> 0 then c\<lparr>dev := be_delayUs b 50 (dev c)\<rparr> else c)"

text \<open>The lambda \<open>wait\<close>: at most 8001 polls of the control register, 50 us apart.\<close>

fun wait_loop :: "'s Backend \<Rightarrow> u64 \<Rightarrow> bool \<Rightarrow> u8 \<Rightarrow> u64 \<Rightarrow> nat \<Rightarrow> 's transfer_ctx \<Rightarrow> bool \<times> 's transfer_ctx" where
  "wait_loop b start path rb begin 0 c = (False, fail TS_timeout c)"
| "wait_loop b start path rb begin (Suc n) c =
     (let (ok, c) = check b start c in
      if \<not> ok then (False, c)
      else if previous c < begin \<or> 400000 \<le> previous c - begin then (False, fail TS_timeout c)
      else
       let (v, s) = be_readControl b (dev c);
           c = c\<lparr>dev := s, res := (res c)\<lparr>lastControl := v, tr_polls := Suc (tr_polls (res c))\<rparr>\<rparr>;
           (ok, c) = check b start c in
       if \<not> ok then (False, c)
       else if previous c < begin \<or> 400000 \<le> previous c - begin then (False, fail TS_timeout c)
       else if controlError v \<noteq> TS_notRun then (False, fail (controlError v) c)
       else if path \<and> drop_bit 5 v AND 7 = 7 then (False, fail TS_staleReady c)
       else if (if path then v AND rb \<noteq> 0 else drop_bit 5 v AND 7 = 7) then (True, c)
       else wait_loop b start path rb begin n
              (poll_pause b n c))"

definition wait :: "'s Backend \<Rightarrow> u64 \<Rightarrow> bool \<Rightarrow> u8 \<Rightarrow> 's transfer_ctx \<Rightarrow> bool \<times> 's transfer_ctx" where
  "wait b start path rb c = (let (begin, s) = be_nowUs b (dev c) in
     wait_loop b start path rb begin 8001 (c\<lparr>dev := s\<rparr>))"

text \<open>One publication of the producer index, counted before and after.\<close>

definition publish_one :: "'s Backend \<Rightarrow> nat \<Rightarrow> 's transfer_ctx \<Rightarrow> bool \<times> 's transfer_ctx" where
  "publish_one b k c = (let c = c\<lparr>res := (res c)\<lparr>attempted := Suc (attempted (res c))\<rparr>\<rparr>;
     (ok, s) = be_publish b k (dev c);
     c = c\<lparr>dev := s, trace := trace c @ [Publish k ok]\<rparr> in
     if ok then (True, c\<lparr>res := (res c)\<lparr>submitted := Suc (submitted (res c))\<rparr>\<rparr>)
     else (False, fail TS_submitFailed c))"

text \<open>The loop over the section packets.\<close>

fun publish_sections :: "'s Backend \<Rightarrow> u64 \<Rightarrow> nat list \<Rightarrow> 's transfer_ctx \<Rightarrow> bool \<times> 's transfer_ctx" where
  "publish_sections b start [] c = (True, c)"
| "publish_sections b start (i # is) c =
     (let (ok, c) = check b start c in
      if \<not> ok then (False, c)
      else let (ok, c) = publish_one b (i + 1) c in
        if \<not> ok then (False, c) else publish_sections b start is c)"

text \<open>The settling delay: 100 times 50 us, checked before each.\<close>

fun settle :: "'s Backend \<Rightarrow> u64 \<Rightarrow> nat \<Rightarrow> 's transfer_ctx \<Rightarrow> bool \<times> 's transfer_ctx" where
  "settle b start 0 c = (True, c)"
| "settle b start (Suc n) c =
     (let (ok, c) = check b start c in
      if \<not> ok then (False, c) else settle b start n (c\<lparr>dev := be_delayUs b 50 (dev c)\<rparr>))"

text \<open>The drain loop over the ring index register.\<close>

fun drain_loop :: "'s Backend \<Rightarrow> u64 \<Rightarrow> nat \<Rightarrow> u64 \<Rightarrow> nat \<Rightarrow> 's transfer_ctx \<Rightarrow> bool \<times> 's transfer_ctx" where
  "drain_loop b start count begin 0 c = (False, fail TS_timeout c)"
| "drain_loop b start count begin (Suc n) c =
     (let (ok, c) = check b start c in
      if \<not> ok then (False, c)
      else if previous c < begin \<or> 400000 \<le> previous c - begin then (False, fail TS_timeout c)
      else
       let (v, s) = be_readIndex b (dev c);
           c = c\<lparr>dev := s, res := (res c)\<lparr>lastIndex := v, tr_polls := Suc (tr_polls (res c))\<rparr>\<rparr>;
           (ok, c) = check b start c in
       if \<not> ok then (False, c)
       else if previous c < begin \<or> 400000 \<le> previous c - begin then (False, fail TS_timeout c)
       else let host = unat (v AND 0xfff); hw = unat (drop_bit 16 v AND 0xfff) in
         if v = 0xffffffff \<or> v = 0xdeadbeef \<or> host \<noteq> count \<or> count < hw
         then (False, fail TS_indexInvalid c)
         else if hw = count then (True, c)
         else drain_loop b start count begin n
                (poll_pause b n c))"

definition drain :: "'s Backend \<Rightarrow> u64 \<Rightarrow> nat \<Rightarrow> 's transfer_ctx \<Rightarrow> bool \<times> 's transfer_ctx" where
  "drain b start count c = (let (begin, s) = be_nowUs b (dev c) in
     drain_loop b start count begin 8001 (c\<lparr>dev := s\<rparr>))"

definition clear_halt :: "'s Backend \<Rightarrow> 's transfer_ctx \<Rightarrow> bool \<times> 's transfer_ctx" where
  "clear_halt b c = (let (ok, s) = be_clearHaltControls b (dev c); c = c\<lparr>dev := s\<rparr> in
     if ok then (True, c) else (False, fail TS_clearFailed c))"

text \<open>From the started download to the drained ring: the rest of the \<open>do\<close> block.\<close>

definition download :: "'s Backend \<Rightarrow> u64 \<Rightarrow> nat \<Rightarrow> 's transfer_ctx \<Rightarrow> bool \<times> 's transfer_ctx" where
  "download b start count c =
     andThen (wait b start True 2 (enter Ph_waitH2c c)) (\<lambda>c.
     andThen (publish_one b 1 (enter Ph_header c)) (\<lambda>c.
     andThen (wait b start True 4 (enter Ph_waitDownload c)) (\<lambda>c.
     andThen (check b start (enter Ph_clearHalt c)) (\<lambda>c.
     andThen (clear_halt b c) (\<lambda>c.
     andThen (publish_sections b start [1..<count] (enter Ph_sections c)) (\<lambda>c.
     andThen (settle b start 100 (enter Ph_waitReady c)) (\<lambda>c.
     andThen (wait b start False 0 c) (\<lambda>c.
     andThen (drain b start count (enter Ph_drain c)) (\<lambda>c.
     (True, fail TS_complete c))))))))))"

text \<open>The whole \<open>do\<close> block: \<open>prepared\<close>, \<open>startAttempted\<close> and the state it leaves.\<close>

definition run_transfer :: "'s Backend \<Rightarrow> u64 \<Rightarrow> Packets \<Rightarrow> 's transfer_ctx \<Rightarrow> bool \<times> bool \<times> 's transfer_ctx" where
  "run_transfer b start pk c =
     (let (ok, c) = check b start c in
      if \<not> ok then (False, False, c) else
      let (ok, s) = be_prepare b pk (dev c); c = c\<lparr>dev := s, trace := trace c @ [Prepare ok]\<rparr> in
      if \<not> ok then (True, False, fail TS_prepareFailed c) else
      let (ok, c) = check b start c in
      if \<not> ok then (True, False, c) else
      let (ok, s) = be_startDownload b (dev c); c = c\<lparr>dev := s, trace := trace c @ [Start ok]\<rparr> in
      if \<not> ok then (True, True, fail TS_startFailed c) else
      (True, True, snd (download b start (unat (Packets_count pk)) c)))"

text \<open>The clean-up after the block: quiesce if a start was attempted, release only when idle.\<close>

definition cleanup :: "'s Backend \<Rightarrow> bool \<Rightarrow> 's transfer_ctx \<Rightarrow> 's transfer_ctx" where
  "cleanup b startAttempted c =
     (let c = c\<lparr>res := (res c)\<lparr>cleanupAttempted := True, tr_phase := Ph_quiesce\<rparr>\<rparr>;
          (idle, c) = (if \<not> startAttempted then (True, c)
             else let (q, s) = be_quiesceAndProveIdle b (dev c) in
               (q, c\<lparr>dev := s, trace := trace c @ [Quiesce q]\<rparr>));
          c = c\<lparr>res := (res c)\<lparr>quiesced := idle\<rparr>\<rparr> in
      if idle then
        let (rel, s) = be_releaseAll b (dev c);
            c = c\<lparr>dev := s, trace := trace c @ [Release rel], res := (res c)\<lparr>buffersReleased := rel\<rparr>\<rparr> in
        if rel then c
        else c\<lparr>res := (res c)\<lparr>retainBuffers := True, tr_status := TS_releaseFailed\<rparr>\<rparr>
      else c\<lparr>res := (res c)\<lparr>retainBuffers := True, tr_status := TS_quiesceFailed\<rparr>\<rparr>)"

definition transfer :: "'s Backend \<Rightarrow> Packets \<Rightarrow> 's \<Rightarrow> TransferResult \<times> call list \<times> 's" where
  "transfer b pk s0 =
     (if Packets_count pk = 0 \<or> maxPackets < Packets_count pk
      then (TransferResult0\<lparr>tr_status := TS_invalidPlan\<rparr>, [], s0)
      else let (start, s) = be_nowUs b s0;
               (prepared, startAttempted, c) = run_transfer b start pk
                  \<lparr>res = TransferResult0, previous = start, dev = s, trace = []\<rparr>;
               c = c\<lparr>res := (res c)\<lparr>
                  failedPhase := (if tr_status (res c) = TS_complete then Ph_idle else tr_phase (res c)),
                  operationStatus := tr_status (res c)\<rparr>\<rparr>;
               c = (if prepared then cleanup b startAttempted c else c) in
        ((res c)\<lparr>tr_phase := Ph_done\<rparr>, trace c, dev c))"

section \<open>What the steps leave alone\<close>

definition is_error :: "TransferStatus \<Rightarrow> bool" where
  "is_error st \<longleftrightarrow> st \<noteq> TS_notRun \<and> st \<noteq> TS_complete"

text \<open>A step that publishes nothing: counters, ghost trace and clean-up flags are kept, the status
  is kept on success and an error on failure, and it polls at most \<open>n\<close> times.\<close>

definition quiet :: "nat \<Rightarrow> 's transfer_ctx \<Rightarrow> bool \<times> 's transfer_ctx \<Rightarrow> bool" where
  "quiet n c out \<longleftrightarrow> (case out of (ok, c') \<Rightarrow>
     trace c' = trace c \<and> submitted (res c') = submitted (res c) \<and>
     attempted (res c') = attempted (res c) \<and> tr_polls (res c') \<le> tr_polls (res c) + n \<and>
     cleanupAttempted (res c') = cleanupAttempted (res c) \<and> quiesced (res c') = quiesced (res c) \<and>
     buffersReleased (res c') = buffersReleased (res c) \<and> retainBuffers (res c') = retainBuffers (res c) \<and>
     (if ok then tr_status (res c') = tr_status (res c) else is_error (tr_status (res c'))))"

lemma quiet_check: "quiet 0 c (check b start c)"
  by (auto simp: quiet_def check_def fail_def is_error_def Let_def split: prod.splits)

lemma quiet_trans:
  "quiet m c (True, c1) \<Longrightarrow> quiet n c1 out \<Longrightarrow> quiet (m + n) c out"
  by (auto simp: quiet_def split: prod.splits if_splits)

lemma quiet_fail: "is_error st \<Longrightarrow> quiet m c (True, c1) \<Longrightarrow> quiet m c (False, fail st c1)"
  by (simp add: quiet_def fail_def)

lemma quiet_more: "quiet m c out \<Longrightarrow> m \<le> n \<Longrightarrow> quiet n c out"
  by (auto simp: quiet_def)

lemma controlError_error: "controlError v \<noteq> TS_notRun \<Longrightarrow> is_error (controlError v)"
  by (auto simp: controlError_def is_error_def Let_def)

lemma quiet_wait_loop: "quiet n c (wait_loop b start path rb begin n c)"
proof (induction n arbitrary: c)
  case 0
  show ?case by (simp add: quiet_def fail_def is_error_def)
next
  case (Suc n)
  obtain ok1 c1 where k1: "check b start c = (ok1, c1)" by fastforce
  obtain v s where rd: "be_readControl b (dev c1) = (v, s)" by fastforce
  define c2 where "c2 = c1\<lparr>dev := s, res := (res c1)\<lparr>lastControl := v, tr_polls := Suc (tr_polls (res c1))\<rparr>\<rparr>"
  obtain ok2 c3 where k2: "check b start c2 = (ok2, c3)" by fastforce
  have q1: "quiet 0 c (ok1, c1)" using quiet_check [of c b start] k1 by simp
  have q12: "quiet 1 c1 (True, c2)" by (simp add: quiet_def c2_def)
  have q2: "quiet 0 c2 (ok2, c3)" using quiet_check [of c2 b start] k2 by simp
  have q3: "quiet 1 c (ok2, c3)" if "ok1"
    using quiet_trans [OF quiet_trans [OF _ q12] q2] q1 that by simp
  have q34: "quiet 0 c3 (True, poll_pause b n c3)" by (simp add: quiet_def poll_pause_def)
  have q4: "quiet (Suc n) c (wait_loop b start path rb begin n (poll_pause b n c3))" if "ok1" "ok2"
    using quiet_trans [OF quiet_trans [OF _ q34] Suc.IH, of 1 c] q3 that by simp
  have err: "is_error TS_timeout" "is_error TS_staleReady" by (simp_all add: is_error_def)
  have early: "if ok1 then is_error st \<longrightarrow> quiet (Suc n) c (False, fail st c1) else quiet (Suc n) c (False, c1)" for st
    using quiet_more [OF q1, of "Suc n"] quiet_fail [of st "Suc n" c c1] by (cases ok1) simp_all
  have late: "if ok2 then quiet (Suc n) c (True, c3) \<and> (is_error st \<longrightarrow> quiet (Suc n) c (False, fail st c3))
      else quiet (Suc n) c (False, c3)" if "ok1" for st
    using quiet_more [OF q3 [OF that], of "Suc n"] quiet_fail [of st "Suc n" c c3] by (cases ok2) simp_all
  show ?case
    using early late q4 controlError_error [of v] err
    by (cases ok1; cases ok2) (simp_all add: k1 rd k2 c2_def [symmetric] Let_def)
qed

lemma quiet_wait: "quiet 8001 c (wait b start path rb c)"
proof -
  obtain t s where n: "be_nowUs b (dev c) = (t, s)" by fastforce
  have "quiet 0 c (True, c\<lparr>dev := s\<rparr>)" by (simp add: quiet_def)
  from quiet_trans [OF this quiet_wait_loop] show ?thesis by (simp add: wait_def n)
qed

lemma quiet_settle: "quiet 0 c (settle b start n c)"
proof (induction n arbitrary: c)
  case 0
  show ?case by (simp add: quiet_def)
next
  case (Suc n)
  obtain ok c1 where k: "check b start c = (ok, c1)" by fastforce
  have q: "quiet 0 c (ok, c1)" using quiet_check [of c b start] k by simp
  have "quiet 0 c1 (True, c1\<lparr>dev := be_delayUs b 50 (dev c1)\<rparr>)" by (simp add: quiet_def)
  then have "quiet 0 c (settle b start n (c1\<lparr>dev := be_delayUs b 50 (dev c1)\<rparr>))" if "ok"
    using quiet_trans [OF quiet_trans [OF _ _] Suc.IH, of 0 c c1 0] q that by simp
  then show ?case using q by (auto simp: k)
qed

lemma quiet_drain_loop: "quiet n c (drain_loop b start count begin n c)"
proof (induction n arbitrary: c)
  case 0
  show ?case by (simp add: quiet_def fail_def is_error_def)
next
  case (Suc n)
  obtain ok1 c1 where k1: "check b start c = (ok1, c1)" by fastforce
  obtain v s where rd: "be_readIndex b (dev c1) = (v, s)" by fastforce
  define c2 where "c2 = c1\<lparr>dev := s, res := (res c1)\<lparr>lastIndex := v, tr_polls := Suc (tr_polls (res c1))\<rparr>\<rparr>"
  obtain ok2 c3 where k2: "check b start c2 = (ok2, c3)" by fastforce
  have q1: "quiet 0 c (ok1, c1)" using quiet_check [of c b start] k1 by simp
  have q12: "quiet 1 c1 (True, c2)" by (simp add: quiet_def c2_def)
  have q2: "quiet 0 c2 (ok2, c3)" using quiet_check [of c2 b start] k2 by simp
  have q3: "quiet 1 c (ok2, c3)" if "ok1"
    using quiet_trans [OF quiet_trans [OF _ q12] q2] q1 that by simp
  have q34: "quiet 0 c3 (True, poll_pause b n c3)" by (simp add: quiet_def poll_pause_def)
  have q4: "quiet (Suc n) c (drain_loop b start count begin n (poll_pause b n c3))" if "ok1" "ok2"
    using quiet_trans [OF quiet_trans [OF _ q34] Suc.IH, of 1 c] q3 that by simp
  have err: "is_error TS_timeout" "is_error TS_indexInvalid" by (simp_all add: is_error_def)
  have early: "if ok1 then is_error st \<longrightarrow> quiet (Suc n) c (False, fail st c1) else quiet (Suc n) c (False, c1)" for st
    using quiet_more [OF q1, of "Suc n"] quiet_fail [of st "Suc n" c c1] by (cases ok1) simp_all
  have late: "if ok2 then quiet (Suc n) c (True, c3) \<and> (is_error st \<longrightarrow> quiet (Suc n) c (False, fail st c3))
      else quiet (Suc n) c (False, c3)" if "ok1" for st
    using quiet_more [OF q3 [OF that], of "Suc n"] quiet_fail [of st "Suc n" c c3] by (cases ok2) simp_all
  show ?case
    using early late q4 err
    by (cases ok1; cases ok2) (simp_all add: k1 rd k2 c2_def [symmetric] Let_def)
qed

lemma check_lastIndex: "check b start c = (ok, c') \<Longrightarrow> lastIndex (res c') = lastIndex (res c)"
  by (auto simp: check_def fail_def Let_def split: prod.splits if_splits)

definition drained_at :: "nat \<Rightarrow> u32 \<Rightarrow> bool" where
  "drained_at count v \<longleftrightarrow> unat (v AND 0xfff) = count \<and> unat (drop_bit 16 v AND 0xfff) = count"

lemma drain_loop_drained:
  "drain_loop b start count begin n c = (True, c') \<Longrightarrow> drained_at count (lastIndex (res c'))"
proof (induction n arbitrary: c)
  case (Suc n)
  then show ?case
    by (auto simp: Let_def drained_at_def split: prod.splits if_splits dest: check_lastIndex)
qed (simp add: fail_def)

section \<open>What is published\<close>

text \<open>The publications of a run with \<open>s\<close> successes and \<open>a\<close> attempts: producer indices 1, 2, ... in
  order, and at most one failure, after the last success.\<close>

definition pub_trace :: "nat \<Rightarrow> nat \<Rightarrow> call list" where
  "pub_trace s a = map (\<lambda>k. Publish k True) [1..<Suc s] @ (if a = s then [] else [Publish (Suc s) False])"

definition flags0 :: "'s transfer_ctx \<Rightarrow> bool" where
  "flags0 c \<longleftrightarrow> \<not> cleanupAttempted (res c) \<and> \<not> quiesced (res c) \<and>
     \<not> buffersReleased (res c) \<and> \<not> retainBuffers (res c)"

text \<open>\<open>published tr0 s n c\<close>: since the trace \<open>tr0\<close> the run published \<open>s\<close> packets, polled at most
  \<open>n\<close> times and is still going.\<close>

definition published :: "call list \<Rightarrow> nat \<Rightarrow> nat \<Rightarrow> 's transfer_ctx \<Rightarrow> bool" where
  "published tr0 s n c \<longleftrightarrow> trace c = tr0 @ pub_trace s s \<and> submitted (res c) = s \<and>
     attempted (res c) = s \<and> tr_status (res c) = TS_notRun \<and> tr_polls (res c) \<le> n \<and> flags0 c"

text \<open>\<open>stopped tr0 count n c\<close>: the run ended with an error after publishing at most \<open>count\<close> packets.\<close>

definition stopped :: "call list \<Rightarrow> nat \<Rightarrow> nat \<Rightarrow> 's transfer_ctx \<Rightarrow> bool" where
  "stopped tr0 count n c \<longleftrightarrow> trace c = tr0 @ pub_trace (submitted (res c)) (attempted (res c)) \<and>
     submitted (res c) \<le> attempted (res c) \<and> attempted (res c) \<le> Suc (submitted (res c)) \<and>
     attempted (res c) \<le> count \<and> is_error (tr_status (res c)) \<and> tr_polls (res c) \<le> n \<and> flags0 c"

lemma published_quiet:
  assumes "published tr0 s n c" and "quiet m c r" and "s \<le> count" and "n + m \<le> N"
  shows "outcome (published tr0 s (n + m)) (stopped tr0 count N) r"
  using assms by (cases r) (auto simp: outcome_def quiet_def published_def stopped_def flags0_def split: if_splits)

lemma published_enter [simp]: "published tr0 s n (enter ph c) = published tr0 s n c"
  by (simp add: published_def enter_def flags0_def)

lemma published_dev [simp]: "published tr0 s n (c\<lparr>dev := d\<rparr>) = published tr0 s n c"
  by (simp add: published_def flags0_def)

lemma published_fail:
  "published tr0 s n c \<Longrightarrow> is_error st \<Longrightarrow> s \<le> count \<Longrightarrow> stopped tr0 count n (fail st c)"
  by (simp add: published_def stopped_def fail_def flags0_def)

lemma published_one:
  assumes "published tr0 s n c" and "Suc s \<le> count" and "n \<le> N"
  shows "outcome (published tr0 (Suc s) n) (stopped tr0 count N) (publish_one b (Suc s) c)"
  using assms
  by (auto simp: publish_one_def published_def stopped_def pub_trace_def fail_def flags0_def
      is_error_def Let_def split: prod.splits if_splits)

lemma publish_sections_Cons:
  "publish_sections b start (i # ks) c =
     andThen (check b start c) (\<lambda>c. andThen (publish_one b (Suc i) c) (publish_sections b start ks))"
  by (simp add: andThen_def split: prod.splits)

lemma published_sections:
  assumes "published tr0 s n c" and "s \<le> count" and "n \<le> N"
  shows "outcome (published tr0 count n) (stopped tr0 count N) (publish_sections b start [s..<count] c)"
  using assms
proof (induction "count - s" arbitrary: s c)
  case 0
  then show ?case by simp
next
  case (Suc k)
  then have lt: "s < count" and "[s..<count] = s # [Suc s..<count]" by (auto simp: upt_conv_Cons)
  have "outcome (published tr0 s n) (stopped tr0 count N) (check b start c)"
    using published_quiet [OF Suc.prems(1) quiet_check, of count N] Suc.prems by simp
  then have "outcome (published tr0 count n) (stopped tr0 count N)
      (publish_sections b start (s # [Suc s..<count]) c)"
    unfolding publish_sections_Cons using Suc lt
    by (intro outcome_andThen [where Q = "published tr0 s n"]
        outcome_andThen [where Q = "published tr0 (Suc s) n"] published_one) auto
  then show ?case using lt by (simp only: upt_conv_Cons)
qed

lemma published_clear_halt:
  assumes "published tr0 s n c" and "s \<le> count" and "n \<le> N"
  shows "outcome (published tr0 s n) (stopped tr0 count N) (clear_halt b c)"
  using assms
  by (auto simp: clear_halt_def published_def stopped_def fail_def flags0_def is_error_def Let_def
      split: prod.splits if_splits)

lemma quiet_drain: "quiet 8001 c (drain b start count c)"
proof -
  obtain t s where n: "be_nowUs b (dev c) = (t, s)" by fastforce
  have "quiet 0 c (True, c\<lparr>dev := s\<rparr>)" by (simp add: quiet_def)
  from quiet_trans [OF this quiet_drain_loop] show ?thesis by (simp add: drain_def n)
qed

lemma published_drain:
  assumes "published tr0 count n c" and "n + 8001 \<le> N"
  shows "outcome (\<lambda>c. published tr0 count (n + 8001) c \<and> drained_at count (lastIndex (res c)))
     (stopped tr0 count N) (drain b start count c)"
  using published_quiet [OF assms(1) quiet_drain [of c b start count] order_refl assms(2)]
  by (auto simp: outcome_def drain_def dest: drain_loop_drained split: prod.splits if_splits)

text \<open>The state after a complete download.\<close>

definition completed :: "call list \<Rightarrow> nat \<Rightarrow> nat \<Rightarrow> 's transfer_ctx \<Rightarrow> bool" where
  "completed tr0 count n c \<longleftrightarrow> trace c = tr0 @ pub_trace count count \<and> submitted (res c) = count \<and>
     attempted (res c) = count \<and> tr_status (res c) = TS_complete \<and> tr_polls (res c) \<le> n \<and>
     drained_at count (lastIndex (res c)) \<and> flags0 c"

text \<open>The whole download publishes every packet and sees the ring drained, or stops with an error.\<close>

lemma download_result:
  assumes "published tr0 0 n c" and "0 < count"
  shows "outcome (completed tr0 count (n + 4 * 8001)) (stopped tr0 count (n + 4 * 8001))
     (download b start count c)"
proof -
  let ?E = "stopped tr0 count (n + 4 * 8001)"
  have wait: "outcome (published tr0 s (k + 8001)) ?E (wait b start path rb (enter ph c))"
    if "published tr0 s k c" "s \<le> count" "k \<le> n + 3 * 8001" for s k path rb ph and c :: "'a transfer_ctx"
    using published_quiet [OF _ quiet_wait, of tr0 s k "enter ph c" count "n + 4 * 8001"] that by simp
  have wait': "outcome (published tr0 s (k + 8001)) ?E (wait b start path rb c)"
    if "published tr0 s k c" "s \<le> count" "k \<le> n + 3 * 8001" for s k path rb and c :: "'a transfer_ctx"
    using published_quiet [OF _ quiet_wait, of tr0 s k c count "n + 4 * 8001"] that by simp
  have chk: "outcome (published tr0 s k) ?E (check b start (enter ph c))"
    if "published tr0 s k c" "s \<le> count" "k \<le> n + 4 * 8001" for s k ph and c :: "'a transfer_ctx"
    using published_quiet [OF _ quiet_check, of tr0 s k "enter ph c" count "n + 4 * 8001"] that by simp
  have settle: "outcome (published tr0 s k) ?E (settle b start m (enter ph c))"
    if "published tr0 s k c" "s \<le> count" "k \<le> n + 4 * 8001" for s k m ph and c :: "'a transfer_ctx"
    using published_quiet [OF _ quiet_settle, of tr0 s k "enter ph c" count "n + 4 * 8001"] that by simp
  have one: "outcome (published tr0 1 k) ?E (publish_one b 1 (enter ph c))"
    if "published tr0 0 k c" "k \<le> n + 4 * 8001" for k ph and c :: "'a transfer_ctx"
    using published_one [of tr0 0 k "enter ph c" count "n + 4 * 8001" b] that assms(2) by simp
  have secs: "outcome (published tr0 count k) ?E (publish_sections b start [1..<count] (enter ph c))"
    if "published tr0 1 k c" "k \<le> n + 4 * 8001" for k ph and c :: "'a transfer_ctx"
    using published_sections [of tr0 1 k "enter ph c" count "n + 4 * 8001" b start] that assms(2) by simp
  have dr: "outcome (\<lambda>c. published tr0 count (k + 8001) c \<and> drained_at count (lastIndex (res c))) ?E
      (drain b start count (enter ph c))"
    if "published tr0 count k c" "k \<le> n + 3 * 8001" for k ph and c :: "'a transfer_ctx"
    using published_drain [of tr0 count k "enter ph c" "n + 4 * 8001" b start] that by simp
  have fin: "completed tr0 count (n + 32004) (fail TS_complete c)"
    if "published tr0 count (32004 + n) c" "drained_at count (lastIndex (res c))"
    for c :: "'a transfer_ctx"
    using that by (simp add: published_def completed_def fail_def flags0_def)
  have one': "1 \<le> count" using assms(2) by simp
  show ?thesis
    unfolding download_def using one'
    by (intro outcome_andThen [OF wait [of 0 n _ True 2]] outcome_andThen [OF one [of "n + 8001"]]
        outcome_andThen [OF wait [of 1 "n + 8001" _ True 4]]
        outcome_andThen [OF chk [of 1 "n + 8001 + 8001"]]
        outcome_andThen [OF published_clear_halt [of tr0 1 "n + 8001 + 8001"]]
        outcome_andThen [OF secs [of "n + 8001 + 8001"]]
        outcome_andThen [OF settle [of count "n + 8001 + 8001"]]
        outcome_andThen [OF wait' [of count "n + 8001 + 8001"]]
        outcome_andThen [OF dr [of "n + 8001 + 8001 + 8001"]])
       (auto intro: fin assms(1))
qed

section \<open>The whole transfer\<close>

text \<open>The calls before the first publication, and the clean-up calls after the last one.\<close>

definition openings :: "call list set" where
  "openings = {[], [Prepare False], [Prepare True], [Prepare True, Start False], [Prepare True, Start True]}"

definition started :: "call list \<Rightarrow> bool" where
  "started tr \<longleftrightarrow> Start True \<in> set tr \<or> Start False \<in> set tr"

definition releases :: "call list \<Rightarrow> bool" where
  "releases clean \<longleftrightarrow> Release True \<in> set clean \<or> Release False \<in> set clean"

definition closing :: "call list \<Rightarrow> call list \<Rightarrow> bool" where
  "closing tr0 clean \<longleftrightarrow>
     (if tr0 = [] then clean = []
      else if started tr0 then clean = [Quiesce False] \<or> (\<exists>rel. clean = [Quiesce True, Release rel])
      else \<exists>rel. clean = [Release rel])"

lemma stopped_start:
  assumes "trace c = tr0" and "submitted (res c) = 0" and "attempted (res c) = 0"
    and "is_error (tr_status (res c))" and "tr_polls (res c) = 0" and "flags0 c"
  shows "stopped tr0 count n c"
  using assms by (simp add: stopped_def pub_trace_def)

lemma run_transfer_result:
  assumes "published [] 0 0 c" and "0 < unat (Packets_count pk)"
    and run: "run_transfer b start pk c = (prepared, attempt, c')"
  obtains tr0 where "tr0 \<in> openings" and "prepared = (tr0 \<noteq> [])" and "attempt = started tr0"
    and "stopped tr0 (unat (Packets_count pk)) 32004 c' \<or>
      tr0 = [Prepare True, Start True] \<and> completed tr0 (unat (Packets_count pk)) 32004 c'"
proof -
  let ?n = "unat (Packets_count pk)"
  obtain ok1 c1 where k1: "check b start c = (ok1, c1)" by fastforce
  obtain ok2 s2 where k2: "be_prepare b pk (dev c1) = (ok2, s2)" by fastforce
  define c2 where "c2 = c1\<lparr>dev := s2, trace := trace c1 @ [Prepare ok2]\<rparr>"
  obtain ok3 c3 where k3: "check b start c2 = (ok3, c3)" by fastforce
  obtain ok4 s4 where k4: "be_startDownload b (dev c3) = (ok4, s4)" by fastforce
  define c4 where "c4 = c3\<lparr>dev := s4, trace := trace c3 @ [Start ok4]\<rparr>"
  have q1: "quiet 0 c (ok1, c1)" and q3: "quiet 0 c2 (ok3, c3)"
    using quiet_check [of c b start] quiet_check [of c2 b start] k1 k3 by simp_all
  have s1: "stopped [] ?n 32004 c1" if "\<not> ok1"
    using q1 assms(1) that by (auto simp: quiet_def published_def stopped_def flags0_def)
  have s2: "stopped [Prepare False] ?n 32004 (fail TS_prepareFailed c2)" if "ok1" "\<not> ok2"
    using q1 assms(1) that
    by (auto simp: quiet_def published_def stopped_def flags0_def c2_def fail_def is_error_def pub_trace_def)
  have p2: "published [Prepare True] 0 0 c2" if "ok1" "ok2"
    using q1 assms(1) that by (auto simp: quiet_def published_def flags0_def c2_def pub_trace_def)
  have s3: "stopped [Prepare True] ?n 32004 c3" if "ok1" "ok2" "\<not> ok3"
    using q3 p2 that by (auto simp: quiet_def published_def stopped_def flags0_def)
  have s4: "stopped [Prepare True, Start False] ?n 32004 (fail TS_startFailed c4)" if "ok1" "ok2" "ok3" "\<not> ok4"
    using q3 p2 that
    by (auto simp: quiet_def published_def stopped_def flags0_def c4_def fail_def is_error_def pub_trace_def)
  have p4: "published [Prepare True, Start True] 0 0 c4" if "ok1" "ok2" "ok3" "ok4"
    using q3 p2 that by (auto simp: quiet_def published_def flags0_def c4_def pub_trace_def)
  have d: "stopped [Prepare True, Start True] ?n 32004 (snd (download b start ?n c4)) \<or>
      completed [Prepare True, Start True] ?n 32004 (snd (download b start ?n c4))"
    if "ok1" "ok2" "ok3" "ok4"
    using download_result [OF p4 [OF that] assms(2), of b start]
    by (cases "download b start ?n c4") (auto simp: outcome_def split: if_splits)
  have eq: "(prepared, attempt, c') =
     (if \<not> ok1 then (False, False, c1) else if \<not> ok2 then (True, False, fail TS_prepareFailed c2)
      else if \<not> ok3 then (True, False, c3) else if \<not> ok4 then (True, True, fail TS_startFailed c4)
      else (True, True, snd (download b start ?n c4)))"
    using run unfolding run_transfer_def Let_def k1 k2 k3 k4 prod.case c2_def [symmetric] c4_def [symmetric]
    by simp
  show ?thesis
    using eq s1 s2 s3 s4 d that [of "[]"] that [of "[Prepare False]"] that [of "[Prepare True]"]
      that [of "[Prepare True, Start False]"] that [of "[Prepare True, Start True]"]
    by (auto simp: openings_def started_def split: if_splits)
qed

text \<open>The shape of every transfer, and what its result says of it.\<close>

definition transfer_spec :: "nat \<Rightarrow> TransferResult \<Rightarrow> call list \<Rightarrow> bool" where
  "transfer_spec count r tr \<longleftrightarrow> (\<exists>tr0 \<in> openings. \<exists>clean.
     tr = tr0 @ pub_trace (submitted r) (attempted r) @ clean \<and> closing tr0 clean \<and>
     submitted r \<le> attempted r \<and> attempted r \<le> Suc (submitted r) \<and> attempted r \<le> count \<and>
     tr_polls r \<le> 32004 \<and>
     cleanupAttempted r = (tr0 \<noteq> []) \<and> quiesced r = releases clean \<and>
     buffersReleased r = (Release True \<in> set clean) \<and>
     retainBuffers r = (tr0 \<noteq> [] \<and> Release True \<notin> set clean) \<and>
     (if operationStatus r = TS_complete
      then tr0 = [Prepare True, Start True] \<and> submitted r = count \<and> attempted r = count \<and>
        drained_at count (lastIndex r) \<and>
        tr_status r = (if buffersReleased r then TS_complete
          else if quiesced r then TS_releaseFailed else TS_quiesceFailed)
      else is_error (tr_status r) \<and> is_error (operationStatus r)))"

text \<open>What the clean-up adds to the result, given the calls it makes.\<close>

definition cleaned :: "call list \<Rightarrow> TransferResult \<Rightarrow> TransferResult \<Rightarrow> bool" where
  "cleaned clean r r' \<longleftrightarrow> submitted r' = submitted r \<and> attempted r' = attempted r \<and>
     tr_polls r' = tr_polls r \<and> lastIndex r' = lastIndex r \<and> operationStatus r' = operationStatus r \<and>
     cleanupAttempted r' \<and> quiesced r' = releases clean \<and>
     buffersReleased r' = (Release True \<in> set clean) \<and> retainBuffers r' = (Release True \<notin> set clean) \<and>
     tr_status r' = (if Release True \<in> set clean then tr_status r
       else if releases clean then TS_releaseFailed else TS_quiesceFailed)"

lemma cleanup_result:
  assumes "flags0 c" and "attempt = started tr0" and "tr0 \<noteq> []"
  obtains clean where "closing tr0 clean" and "trace (cleanup b attempt c) = trace c @ clean"
    and "cleaned clean (res c) (res (cleanup b attempt c))"
proof -
  obtain q s where q: "be_quiesceAndProveIdle b (dev c) = (q, s)" by fastforce
  obtain rel s' where rel: "be_releaseAll b (if attempt then s else dev c) = (rel, s')" by fastforce
  define clean where "clean = (if attempt then if q then [Quiesce True, Release rel] else [Quiesce False]
     else [Release rel])"
  have "closing tr0 clean" using assms(2,3) by (auto simp: clean_def closing_def)
  moreover have "trace (cleanup b attempt c) = trace c @ clean"
    using q rel by (cases attempt; cases q; cases rel) (simp_all add: clean_def cleanup_def)
  moreover have "cleaned clean (res c) (res (cleanup b attempt c))"
    using q rel assms(1)
    by (cases attempt; cases q; cases rel) (simp_all add: clean_def cleanup_def flags0_def cleaned_def releases_def)
  ultimately show ?thesis by (rule that)
qed

lemma transfer_spec_holds:
  assumes "transfer b pk s0 = (r, tr, s)" and "Packets_count pk \<noteq> 0" and "Packets_count pk \<le> maxPackets"
  shows "transfer_spec (unat (Packets_count pk)) r tr"
proof -
  let ?n = "unat (Packets_count pk)"
  obtain start s1 where now: "be_nowUs b s0 = (start, s1)" by fastforce
  define c where "c = \<lparr>res = TransferResult0, previous = start, dev = s1, trace = []\<rparr>"
  obtain prep att c1 where run: "run_transfer b start pk c = (prep, att, c1)" by (metis prod_cases3)
  have "published [] 0 0 c"
    by (simp add: published_def c_def TransferResult0_def pub_trace_def flags0_def)
  moreover have "0 < ?n" using assms(2) by (simp add: unat_gt_0)
  ultimately obtain tr0 where o: "tr0 \<in> openings" "prep = (tr0 \<noteq> [])" "att = started tr0"
    and out: "stopped tr0 ?n 32004 c1 \<or> tr0 = [Prepare True, Start True] \<and> completed tr0 ?n 32004 c1"
    using run_transfer_result [OF _ _ run] by blast
  define c2 where "c2 = c1\<lparr>res := (res c1)\<lparr>failedPhase := (if tr_status (res c1) = TS_complete then Ph_idle
      else tr_phase (res c1)), operationStatus := tr_status (res c1)\<rparr>\<rparr>"
  have fl: "flags0 c2" using out by (auto simp: c2_def stopped_def completed_def flags0_def)
  have res: "r = (res (if prep then cleanup b att c2 else c2))\<lparr>tr_phase := Ph_done\<rparr>"
    "tr = trace (if prep then cleanup b att c2 else c2)"
    using assms now run
    by (auto simp: transfer_def c_def [symmetric] Let_def c2_def not_less [symmetric] split: if_splits)
  show ?thesis
  proof (cases "tr0 = []")
    case True
    then show ?thesis using o out fl res
      by (auto simp: transfer_spec_def closing_def c2_def stopped_def flags0_def is_error_def releases_def
          intro!: bexI [of _ "[]"])
  next
    case False
    then obtain clean where cl: "closing tr0 clean" "trace (cleanup b att c2) = trace c2 @ clean"
      "cleaned clean (res c2) (res (cleanup b att c2))"
      using cleanup_result [OF fl o(3)] by metis
    have r: "r = (res (cleanup b att c2))\<lparr>tr_phase := Ph_done\<rparr>" "tr = trace c1 @ clean"
      using res cl(2) o(2) False by (simp_all add: c2_def)
    have c2s: "submitted (res c2) = submitted (res c1)" "attempted (res c2) = attempted (res c1)"
      "tr_polls (res c2) = tr_polls (res c1)" "lastIndex (res c2) = lastIndex (res c1)"
      "operationStatus (res c2) = tr_status (res c1)" "tr_status (res c2) = tr_status (res c1)"
      by (simp_all add: c2_def)
    note cd = cl(3) [unfolded cleaned_def c2s]
    from out show ?thesis
    proof
      assume "stopped tr0 ?n 32004 c1"
      then show ?thesis
        unfolding transfer_spec_def using r cd o False cl(1)
        by (intro bexI [of _ tr0] exI [of _ clean]) (simp_all add: stopped_def is_error_def)
    next
      assume "tr0 = [Prepare True, Start True] \<and> completed tr0 ?n 32004 c1"
      then show ?thesis
        unfolding transfer_spec_def using r cd o False cl(1)
        by (intro bexI [of _ tr0] exI [of _ clean]) (simp_all add: completed_def is_error_def releases_def)
    qed
  qed
qed

lemma transfer_cases:
  assumes "transfer b pk s0 = (r, tr, s)"
  obtains "r = TransferResult0\<lparr>tr_status := TS_invalidPlan\<rparr>" and "tr = []"
  | "transfer_spec (unat (Packets_count pk)) r tr"
proof (cases "Packets_count pk = 0 \<or> maxPackets < Packets_count pk")
  case True
  then show ?thesis using assms that(1) by (auto simp: transfer_def)
next
  case False
  then show ?thesis using transfer_spec_holds [OF assms] that(2) by auto
qed

text \<open>A device that answers at once: its state is the producer index last published.\<close>

definition prompt_device :: "nat \<Rightarrow> nat Backend" where
  "prompt_device n = \<lparr>be_nowUs = (\<lambda>s. (0, s)), be_cancelled = (\<lambda>s. (False, s)),
     be_prepare = (\<lambda>pk s. (True, s)), be_startDownload = (\<lambda>s. (True, s)),
     be_readControl = (\<lambda>s. (if s < n then 6 else 0xe0, s)), be_delayUs = (\<lambda>us s. s),
     be_publish = (\<lambda>k s. (True, k)), be_clearHaltControls = (\<lambda>s. (True, s)),
     be_readIndex = (\<lambda>s. (of_nat s OR push_bit 16 (of_nat s), s)),
     be_quiesceAndProveIdle = (\<lambda>s. (True, s)), be_releaseAll = (\<lambda>s. (True, s))\<rparr>"

text \<open>On this device every check passes and every poll is answered the first time.\<close>

definition calm :: "'s transfer_ctx \<Rightarrow> bool" where
  "calm c \<longleftrightarrow> previous c = 0 \<and> elapsedUs (res c) = 0"

lemma check_prompt: "calm c \<Longrightarrow> check (prompt_device n) 0 c = (True, c)"
  by (cases c; cases "res c") (simp add: calm_def check_def prompt_device_def)

lemma wait_prompt:
  assumes "calm c" and "(if path then v AND rb \<noteq> 0 \<and> v = 6 \<and> dev c < n else v = 0xe0 \<and> n \<le> dev c)"
  shows "wait (prompt_device n) 0 path rb c =
    (True, c\<lparr>res := (res c)\<lparr>lastControl := v, tr_polls := Suc (tr_polls (res c))\<rparr>\<rparr>)"
proof -
  let ?c = "c\<lparr>res := (res c)\<lparr>lastControl := v, tr_polls := Suc (tr_polls (res c))\<rparr>\<rparr>"
  have dev: "be_readControl (prompt_device n) (dev c) = (v, dev c)" "be_nowUs (prompt_device n) s = (0, s)" for s
    using assms(2) by (auto simp: prompt_device_def split: if_splits)
  have prev: "previous c = 0" using assms(1) by (simp add: calm_def)
  have chk: "check (prompt_device n) 0 c = (True, c)" "check (prompt_device n) 0 ?c = (True, ?c)"
    using assms(1) by (simp_all add: check_prompt calm_def)
  have ok: "controlError v = TS_notRun" "path \<Longrightarrow> drop_bit 5 v AND 7 \<noteq> 7"
    "if path then v AND rb \<noteq> 0 else drop_bit 5 v AND 7 = 7"
    using assms(2) by (auto simp: controlError_def split: if_splits)
  have s: "c\<lparr>dev := dev c\<rparr> = c" by simp
  have "wait_loop (prompt_device n) 0 path rb 0 (Suc m) c = (True, ?c)" for m
    using dev chk prev ok by (cases path) simp_all
  from this [of 8000] show ?thesis unfolding wait_def dev(2) by simp
qed

lemma settle_prompt: "calm c \<Longrightarrow> settle (prompt_device n) 0 m c = (True, c)"
  by (induction m) (simp_all add: check_prompt, simp add: prompt_device_def)

lemma drain_prompt:
  assumes "calm c" and "dev c = n" and "0 < n" and "n < 0xfff"
    and "host_hw = of_nat n OR push_bit 16 (of_nat n)"
    and "unat (host_hw AND 0xfff) = n" and "unat (drop_bit 16 host_hw AND 0xfff) = n"
    and "host_hw \<noteq> 0xffffffff" and "host_hw \<noteq> 0xdeadbeef"
  shows "drain (prompt_device n) 0 n c =
    (True, c\<lparr>res := (res c)\<lparr>lastIndex := host_hw, tr_polls := Suc (tr_polls (res c))\<rparr>\<rparr>)"
proof -
  let ?c = "c\<lparr>res := (res c)\<lparr>lastIndex := host_hw, tr_polls := Suc (tr_polls (res c))\<rparr>\<rparr>"
  have dev: "be_readIndex (prompt_device n) (dev c) = (host_hw, dev c)" "be_nowUs (prompt_device n) s = (0, s)" for s
    using assms(2,5) by (auto simp: prompt_device_def)
  have prev: "previous c = 0" using assms(1) by (simp add: calm_def)
  have chk: "check (prompt_device n) 0 c = (True, c)" "check (prompt_device n) 0 ?c = (True, ?c)"
    using assms(1) by (simp_all add: check_prompt calm_def)
  have "drain_loop (prompt_device n) 0 n 0 (Suc m) c = (True, ?c)" for m
    using dev chk prev assms(6-9) by simp
  from this [of 8000] show ?thesis unfolding drain_def dev(2) by simp
qed

lemma sample_download:
  assumes "calm c" and "dev c = 0" and "submitted (res c) = 0" and "attempted (res c) = 0" and "tr_polls (res c) = 0"
  shows "download (prompt_device 2) 0 2 c = (True, c\<lparr>dev := 2, trace := trace c @ [Publish 1 True, Publish 2 True],
    res := (res c)\<lparr>tr_status := TS_complete, tr_phase := Ph_drain, submitted := 2, attempted := 2,
      tr_polls := 4, lastControl := 0xe0, lastIndex := 0x20002\<rparr>\<rparr>)"
proof -
  note w = wait_prompt [where path = True and v = 6 and n = 2] wait_prompt [where path = False and v = "0xe0" and n = 2]
    drain_prompt [where n = 2 and host_hw = "0x20002"]
  have calm: "calm c" if "previous c = 0" "elapsedUs (res c) = 0" for c :: "nat transfer_ctx"
    using that by (simp add: calm_def)
  have z: "previous c = 0" "elapsedUs (res c) = 0" using assms(1) by (simp_all add: calm_def)
  have up: "[Suc 0..<2] = [1]" by (simp add: upt_rec)
  have pub: "be_publish (prompt_device n) k s = (True, k)" "be_clearHaltControls (prompt_device n) s = (True, s)" for n k s
    by (simp_all add: prompt_device_def)
  show ?thesis using assms
    by (simp add: download_def w settle_prompt check_prompt calm z up publish_one_def pub enter_def clear_halt_def fail_def)
qed

lemma sample_transfer:
  "transfer (prompt_device 2) sample_packets 0 =
     (TransferResult0\<lparr>tr_status := TS_complete, operationStatus := TS_complete, tr_phase := Ph_done,
        submitted := 2, attempted := 2, tr_polls := 4, lastControl := 0xe0, lastIndex := 0x20002,
        cleanupAttempted := True, quiesced := True, buffersReleased := True\<rparr>,
      [Prepare True, Start True, Publish 1 True, Publish 2 True, Quiesce True, Release True], 2)"
proof -
  have cnt: "Packets_count sample_packets = 2" by code_simp
  have dev: "be_nowUs (prompt_device 2) s = (0, s)" "be_prepare (prompt_device 2) pk s = (True, s)"
    "be_startDownload (prompt_device 2) s = (True, s)" "be_quiesceAndProveIdle (prompt_device 2) s = (True, s)"
    "be_releaseAll (prompt_device 2) s = (True, s)" for s pk
    by (simp_all add: prompt_device_def)
  have calm: "calm c" if "previous c = 0" "elapsedUs (res c) = 0" for c :: "nat transfer_ctx"
    using that by (simp add: calm_def)
  show ?thesis
    by (simp add: transfer_def cnt dev run_transfer_def check_prompt calm sample_download cleanup_def
        TransferResult0_def maxPackets_def)
qed

section \<open>Properties\<close>

lemma openings_no_cleanup:
  "tr0 \<in> openings \<Longrightarrow> Release rel \<notin> set tr0 \<and> (\<forall>k ok. Publish k ok \<notin> set tr0)"
  by (auto simp: openings_def)

lemma pub_trace_only: "x \<in> set (pub_trace s a) \<Longrightarrow> \<exists>k ok. x = Publish k ok"
  by (auto simp: pub_trace_def split: if_splits)

text \<open>C1: no buffer is released while the device may still use it. If
  a download start was attempted, a release is the last call and comes right after a
  quiesce that proved the device idle; and buffers are reported as retained exactly when a
  preparation was attempted and no release succeeded.\<close>

theorem transfer_release_safe:
  assumes "transfer b pk s0 = (r, tr, s)"
  shows "(\<forall>rel. started tr \<and> Release rel \<in> set tr \<longrightarrow>
      (\<exists>pre. tr = pre @ [Quiesce True, Release rel] \<and> Release True \<notin> set pre \<and> Release False \<notin> set pre)) \<and>
    retainBuffers r = ((\<exists>ok. Prepare ok \<in> set tr) \<and> Release True \<notin> set tr)"
  using assms
proof (cases rule: transfer_cases)
  case 1
  then show ?thesis by (simp add: TransferResult0_def)
next
  case 2
  then obtain tr0 clean where o: "tr0 \<in> openings" and cl: "closing tr0 clean"
    and tr: "tr = tr0 @ pub_trace (submitted r) (attempted r) @ clean"
    and ret: "retainBuffers r = (tr0 \<noteq> [] \<and> Release True \<notin> set clean)"
    by (auto simp: transfer_spec_def)
  let ?p = "pub_trace (submitted r) (attempted r)"
  have rel: "Release x \<in> set tr \<longleftrightarrow> Release x \<in> set clean" for x
    using openings_no_cleanup [OF o] tr by (auto dest: pub_trace_only)
  have pr: "(\<exists>ok. Prepare ok \<in> set tr) \<longleftrightarrow> tr0 \<noteq> []"
    using o tr cl by (auto simp: openings_def closing_def dest: pub_trace_only split: if_splits)
  have st: "started tr \<longleftrightarrow> started tr0"
    using o tr cl by (auto simp: started_def closing_def dest: pub_trace_only split: if_splits)
  have "\<exists>pre. tr = pre @ [Quiesce True, Release x] \<and> Release True \<notin> set pre \<and> Release False \<notin> set pre"
    if "started tr" "Release x \<in> set tr" for x
  proof -
    have "clean = [Quiesce True, Release x]"
      using that st rel cl by (auto simp: closing_def started_def split: if_splits)
    then show ?thesis using tr openings_no_cleanup [OF o]
      by (intro exI [of _ "tr0 @ ?p"]) (auto dest: pub_trace_only)
  qed
  then show ?thesis using rel pr ret by blast
qed

theorem transfer_release_safe_witness:
  "\<exists>pre. snd (transfer (prompt_device 2) sample_packets 0) =
     (pre @ [Quiesce True, Release True], 2) \<and> Release True \<notin> set pre"
  using transfer_release_safe [OF sample_transfer] by (auto simp: sample_transfer started_def)

text \<open>C5: whatever the device does, the producer indices are
  published in order 1, 2, 3, ... without gap or repetition, at most one publication fails, it
  is the last one, and the counters of the result say how many were tried and succeeded.\<close>

theorem transfer_publish_order:
  assumes "transfer b pk s0 = (r, tr, s)"
  shows "filter (\<lambda>x. \<exists>k ok. x = Publish k ok) tr = pub_trace (submitted r) (attempted r) \<and>
    submitted r \<le> attempted r \<and> attempted r \<le> Suc (submitted r) \<and> attempted r \<le> unat (Packets_count pk)"
  using assms
proof (cases rule: transfer_cases)
  case 1
  then show ?thesis by (simp add: TransferResult0_def pub_trace_def)
next
  case 2
  then obtain tr0 clean where o: "tr0 \<in> openings" and cl: "closing tr0 clean"
    and tr: "tr = tr0 @ pub_trace (submitted r) (attempted r) @ clean"
    and n: "submitted r \<le> attempted r" "attempted r \<le> Suc (submitted r)" "attempted r \<le> unat (Packets_count pk)"
    by (auto simp: transfer_spec_def)
  have "filter (\<lambda>x. \<exists>k ok. x = Publish k ok) tr0 = []" using openings_no_cleanup [OF o]
    by (auto simp: filter_empty_conv)
  moreover have "filter (\<lambda>x. \<exists>k ok. x = Publish k ok) clean = []"
    using cl by (auto simp: closing_def split: if_splits)
  moreover have "filter (\<lambda>x. \<exists>k ok. x = Publish k ok) (pub_trace (submitted r) (attempted r)) =
      pub_trace (submitted r) (attempted r)"
    by (auto simp: filter_id_conv dest: pub_trace_only)
  ultimately show ?thesis using tr n by simp
qed

theorem transfer_publish_order_witness:
  "filter (\<lambda>x. \<exists>k ok. x = Publish k ok) (fst (snd (transfer (prompt_device 2) sample_packets 0))) =
     [Publish 1 True, Publish 2 True]"
proof -
  have "pub_trace 2 2 = [Publish 1 True, Publish 2 True]" by code_simp
  then show ?thesis using transfer_publish_order [OF sample_transfer] by (simp add: sample_transfer)
qed

text \<open>C6: a transfer that reports complete published every packet,
  read back a ring index whose host and hardware halves both equal the packet count, proved
  the device idle and released the buffers.\<close>

theorem transfer_complete_sound:
  assumes "transfer b pk s0 = (r, tr, s)" and "tr_status r = TS_complete"
  shows "submitted r = unat (Packets_count pk) \<and> drained_at (unat (Packets_count pk)) (lastIndex r) \<and>
    tr = [Prepare True, Start True] @ pub_trace (submitted r) (submitted r) @ [Quiesce True, Release True] \<and>
    quiesced r \<and> buffersReleased r \<and> \<not> retainBuffers r"
  using assms(1)
proof (cases rule: transfer_cases)
  case 1
  then show ?thesis using assms(2) by simp
next
  case 2
  then obtain tr0 clean where cl: "closing tr0 clean"
    and tr: "tr = tr0 @ pub_trace (submitted r) (attempted r) @ clean"
    and fl: "quiesced r = releases clean" "buffersReleased r = (Release True \<in> set clean)"
      "retainBuffers r = (tr0 \<noteq> [] \<and> Release True \<notin> set clean)"
    and st: "if operationStatus r = TS_complete
      then tr0 = [Prepare True, Start True] \<and> submitted r = unat (Packets_count pk) \<and>
        attempted r = unat (Packets_count pk) \<and> drained_at (unat (Packets_count pk)) (lastIndex r) \<and>
        tr_status r = (if buffersReleased r then TS_complete
          else if quiesced r then TS_releaseFailed else TS_quiesceFailed)
      else is_error (tr_status r) \<and> is_error (operationStatus r)"
    by (auto simp: transfer_spec_def)
  have op: "operationStatus r = TS_complete" using st assms(2) by (auto simp: is_error_def split: if_splits)
  with st assms(2) have rel: "Release True \<in> set clean" and t0: "tr0 = [Prepare True, Start True]"
    using fl by (auto split: if_splits)
  then have "clean = [Quiesce True, Release True]"
    using cl by (auto simp: closing_def started_def split: if_splits)
  then show ?thesis using st op tr fl t0 by (simp add: releases_def)
qed

theorem transfer_complete_sound_witness:
  "submitted (fst (transfer (prompt_device 2) sample_packets 0)) = unat (Packets_count sample_packets)"
  using transfer_complete_sound [OF sample_transfer] by (simp add: sample_transfer)

text \<open>C7: whatever the device answers, one transfer polls its registers at
  most 4 * 8001 times in all.\<close>

theorem transfer_bounded: "tr_polls (fst (transfer b pk s0)) \<le> 4 * 8001"
proof -
  obtain r tr s where t: "transfer b pk s0 = (r, tr, s)" by (metis prod_cases3)
  then show ?thesis
    by (cases rule: transfer_cases) (auto simp: t TransferResult0_def transfer_spec_def)
qed

end
