(* ===== verification/Descriptors.thy ===== *)
theory Descriptors
  imports Prelude
begin

text \<open>The transmit and receive descriptors of \<open>src/network/Rtw89DescriptorCore.hpp\<close> and
  \<open>src/network/NetworkDescriptors.hpp\<close>: bit fields, the encoder and the decoder, that no
  field is lost in a descriptor that is accepted, and that a decoded frame lies in its buffer.\<close>

named_theorems mask_defs \<open>the bit masks of the descriptor words\<close>

section \<open>Bit fields\<close>

definition shift32 :: "u32 \<Rightarrow> nat" where
  "shift32 n = length (takeWhile (\<lambda>i. \<not> bit n i) [0..<32])"

definition le32_get_bits :: "u32 \<Rightarrow> u32 \<Rightarrow> u32" where
  "le32_get_bits n m = drop_bit (shift32 m) (n AND m)"

definition BIT :: "nat \<Rightarrow> u32" where
  "BIT n = push_bit n 1"

definition GENMASK :: "nat \<Rightarrow> nat \<Rightarrow> u32" where
  "GENMASK h l = drop_bit (31 - h) 0xffffffff AND push_bit l 0xffffffff"

definition FIELD_PREP :: "u32 \<Rightarrow> u32 \<Rightarrow> u32" where
  "FIELD_PREP m n = push_bit (shift32 m) n AND m"

datatype chip_id = RTL8852B | RTL8852C

definition RTW89_TXWD_BODY0_WP_OFFSET :: u32 where [mask_defs]: "RTW89_TXWD_BODY0_WP_OFFSET = GENMASK 31 24"
definition RTW89_TXWD_BODY0_WD_INFO_EN :: u32 where [mask_defs]: "RTW89_TXWD_BODY0_WD_INFO_EN = BIT 22"
definition RTW89_TXWD_BODY0_FW_DL :: u32 where [mask_defs]: "RTW89_TXWD_BODY0_FW_DL = BIT 20"
definition RTW89_TXWD_BODY0_CHANNEL_DMA :: u32 where [mask_defs]: "RTW89_TXWD_BODY0_CHANNEL_DMA = GENMASK 19 16"
definition RTW89_TXWD_BODY0_HDR_LLC_LEN :: u32 where [mask_defs]: "RTW89_TXWD_BODY0_HDR_LLC_LEN = GENMASK 15 11"
definition RTW89_TXWD_BODY0_WD_PAGE :: u32 where [mask_defs]: "RTW89_TXWD_BODY0_WD_PAGE = BIT 7"
definition RTW89_TXWD_BODY0_HW_SSN_SEL :: u32 where [mask_defs]: "RTW89_TXWD_BODY0_HW_SSN_SEL = GENMASK 3 2"
definition RTW89_TXWD_BODY0_HW_SSN_MODE :: u32 where [mask_defs]: "RTW89_TXWD_BODY0_HW_SSN_MODE = GENMASK 1 0"
definition RTW89_TXWD_BODY2_MACID :: u32 where [mask_defs]: "RTW89_TXWD_BODY2_MACID = GENMASK 30 24"
definition RTW89_TXWD_BODY2_TID_INDICATE :: u32 where [mask_defs]: "RTW89_TXWD_BODY2_TID_INDICATE = BIT 23"
definition RTW89_TXWD_BODY2_QSEL :: u32 where [mask_defs]: "RTW89_TXWD_BODY2_QSEL = GENMASK 22 17"
definition RTW89_TXWD_BODY2_TXPKT_SIZE :: u32 where [mask_defs]: "RTW89_TXWD_BODY2_TXPKT_SIZE = GENMASK 13 0"
definition RTW89_TXWD_BODY3_BK :: u32 where [mask_defs]: "RTW89_TXWD_BODY3_BK = BIT 13"
definition RTW89_TXWD_BODY3_AGG_EN :: u32 where [mask_defs]: "RTW89_TXWD_BODY3_AGG_EN = BIT 12"
definition RTW89_TXWD_BODY3_SW_SEQ :: u32 where [mask_defs]: "RTW89_TXWD_BODY3_SW_SEQ = GENMASK 11 0"
definition RTW89_TXWD_INFO0_USE_RATE :: u32 where [mask_defs]: "RTW89_TXWD_INFO0_USE_RATE = BIT 30"
definition RTW89_TXWD_INFO0_DATA_RATE :: u32 where [mask_defs]: "RTW89_TXWD_INFO0_DATA_RATE = GENMASK 24 16"
definition RTW89_TXWD_INFO0_DISDATAFB :: u32 where [mask_defs]: "RTW89_TXWD_INFO0_DISDATAFB = BIT 10"
definition RTW89_TXWD_INFO0_MULTIPORT_ID :: u32 where [mask_defs]: "RTW89_TXWD_INFO0_MULTIPORT_ID = GENMASK 6 4"
definition RTW89_TXWD_INFO1_DATA_RTY_LOWEST_RATE :: u32 where [mask_defs]: "RTW89_TXWD_INFO1_DATA_RTY_LOWEST_RATE = GENMASK 24 16"
definition RTW89_TXWD_INFO1_A_CTRL_BSR :: u32 where [mask_defs]: "RTW89_TXWD_INFO1_A_CTRL_BSR = BIT 14"
definition RTW89_TXWD_INFO1_MAX_AGGNUM :: u32 where [mask_defs]: "RTW89_TXWD_INFO1_MAX_AGGNUM = GENMASK 7 0"
definition RTW89_TXWD_INFO2_AMPDU_DENSITY :: u32 where [mask_defs]: "RTW89_TXWD_INFO2_AMPDU_DENSITY = GENMASK 20 18"
definition RTW89_TXWD_INFO2_SEC_TYPE :: u32 where [mask_defs]: "RTW89_TXWD_INFO2_SEC_TYPE = GENMASK 12 9"
definition RTW89_TXWD_INFO2_SEC_HW_ENC :: u32 where [mask_defs]: "RTW89_TXWD_INFO2_SEC_HW_ENC = BIT 8"
definition RTW89_TXWD_INFO2_SEC_CAM_IDX :: u32 where [mask_defs]: "RTW89_TXWD_INFO2_SEC_CAM_IDX = GENMASK 7 0"
definition RTW89_TXWD_INFO4_RTS_EN :: u32 where [mask_defs]: "RTW89_TXWD_INFO4_RTS_EN = BIT 27"
definition RTW89_TXWD_INFO4_HW_RTS_EN :: u32 where [mask_defs]: "RTW89_TXWD_INFO4_HW_RTS_EN = BIT 31"
definition AX_RXD_RPKT_LEN_MASK :: u32 where [mask_defs]: "AX_RXD_RPKT_LEN_MASK = GENMASK 13 0"
definition AX_RXD_MAC_INFO_VLD :: u32 where [mask_defs]: "AX_RXD_MAC_INFO_VLD = BIT 23"
definition AX_RXD_RPKT_TYPE_MASK :: u32 where [mask_defs]: "AX_RXD_RPKT_TYPE_MASK = GENMASK 27 24"
definition AX_RXD_DRV_INFO_SIZE_MASK :: u32 where [mask_defs]: "AX_RXD_DRV_INFO_SIZE_MASK = GENMASK 30 28"
definition AX_RXD_LONG_RXD :: u32 where [mask_defs]: "AX_RXD_LONG_RXD = BIT 31"
definition AX_RXD_PPDU_TYPE_MASK :: u32 where [mask_defs]: "AX_RXD_PPDU_TYPE_MASK = GENMASK 3 0"
definition AX_RXD_PPDU_CNT_MASK :: u32 where [mask_defs]: "AX_RXD_PPDU_CNT_MASK = GENMASK 6 4"
definition AX_RXD_SR_EN :: u32 where [mask_defs]: "AX_RXD_SR_EN = BIT 7"
definition AX_RXD_USER_ID_MASK :: u32 where [mask_defs]: "AX_RXD_USER_ID_MASK = GENMASK 15 8"
definition AX_RXD_RX_DATARATE_MASK :: u32 where [mask_defs]: "AX_RXD_RX_DATARATE_MASK = GENMASK 24 16"
definition AX_RXD_RX_GI_LTF_MASK :: u32 where [mask_defs]: "AX_RXD_RX_GI_LTF_MASK = GENMASK 27 25"
definition AX_RXD_BW_MASK :: u32 where [mask_defs]: "AX_RXD_BW_MASK = GENMASK 31 30"
definition AX_RXD_BW_v1_MASK :: u32 where [mask_defs]: "AX_RXD_BW_v1_MASK = GENMASK 31 29"
definition AX_RXD_FREERUN_CNT_MASK :: u32 where [mask_defs]: "AX_RXD_FREERUN_CNT_MASK = GENMASK 31 0"
definition AX_RXD_A1_MATCH :: u32 where [mask_defs]: "AX_RXD_A1_MATCH = BIT 0"
definition AX_RXD_SW_DEC :: u32 where [mask_defs]: "AX_RXD_SW_DEC = BIT 1"
definition AX_RXD_HW_DEC :: u32 where [mask_defs]: "AX_RXD_HW_DEC = BIT 2"
definition AX_RXD_CRC32_ERR :: u32 where [mask_defs]: "AX_RXD_CRC32_ERR = BIT 9"
definition AX_RXD_ICV_ERR :: u32 where [mask_defs]: "AX_RXD_ICV_ERR = BIT 10"
definition AX_RXD_TYPE_MASK :: u32 where [mask_defs]: "AX_RXD_TYPE_MASK = GENMASK 1 0"
definition AX_RXD_SEC_CAM_IDX_MASK :: u32 where [mask_defs]: "AX_RXD_SEC_CAM_IDX_MASK = GENMASK 7 0"
definition AX_RXD_ADDR_CAM_MASK :: u32 where [mask_defs]: "AX_RXD_ADDR_CAM_MASK = GENMASK 15 8"
definition AX_RXD_MAC_ID_MASK :: u32 where [mask_defs]: "AX_RXD_MAC_ID_MASK = GENMASK 23 16"
definition AX_RXD_RX_PL_ID_MASK :: u32 where [mask_defs]: "AX_RXD_RX_PL_ID_MASK = GENMASK 27 24"
definition AX_RXD_ADDR_CAM_VLD :: u32 where [mask_defs]: "AX_RXD_ADDR_CAM_VLD = BIT 28"

section \<open>Descriptor structures\<close>

record rtw89_txwd_body =
  tb_dword0 :: u32
  tb_dword1 :: u32
  tb_dword2 :: u32
  tb_dword3 :: u32
  tb_dword4 :: u32
  tb_dword5 :: u32

record rtw89_txwd_info =
  tw_dword0 :: u32
  tw_dword1 :: u32
  tw_dword2 :: u32
  tw_dword3 :: u32
  tw_dword4 :: u32
  tw_dword5 :: u32

record rtw89_rx_desc_info =
  ri_pkt_size :: u16
  ri_pkt_type :: u8
  ri_drv_info_size :: u8
  ri_phy_rpt_size :: u8
  ri_hdr_cnv_size :: u8
  ri_shift :: u8
  ri_wl_hd_iv_len :: u8
  ri_long_rxdesc :: bool
  ri_bb_sel :: bool
  ri_mac_info_valid :: bool
  ri_data_rate :: u16
  ri_gi_ltf :: u8
  ri_bw :: u8
  ri_free_run_cnt :: u32
  ri_user_id :: u8
  ri_sr_en :: bool
  ri_ppdu_cnt :: u8
  ri_ppdu_type :: u8
  ri_icv_err :: bool
  ri_crc32_err :: bool
  ri_hw_dec :: bool
  ri_sw_dec :: bool
  ri_addr1_match :: bool
  ri_frag :: u8
  ri_seq :: u16
  ri_frame_type :: u8
  ri_rx_pl_id :: u8
  ri_addr_cam_valid :: bool
  ri_addr_cam_id :: u8
  ri_sec_cam_id :: u8
  ri_mac_id :: u8
  ri_offset :: u16
  ri_rxd_len :: u16
  ri_ready :: bool

record rtw89_tx_desc_info =
  ti_pkt_size :: u16
  ti_wp_offset :: u8
  ti_mac_id :: u8
  ti_qsel :: u8
  ti_ch_dma :: u8
  ti_hdr_llc_len :: u8
  ti_is_bmc :: bool
  ti_en_wd_info :: bool
  ti_wd_page :: bool
  ti_use_rate :: bool
  ti_dis_data_fb :: bool
  ti_tid_indicate :: bool
  ti_agg_en :: bool
  ti_bk :: bool
  ti_ampdu_density :: u8
  ti_ampdu_num :: u8
  ti_sec_en :: bool
  ti_addr_info_nr :: u8
  ti_sec_keyid :: u8
  ti_sec_type :: u8
  ti_sec_cam_idx :: u8
  ti_sec_seq :: bytes
  ti_data_rate :: u16
  ti_data_retry_lowest_rate :: u16
  ti_fw_dl :: bool
  ti_seq :: u16
  ti_a_ctrl_bsr :: bool
  ti_hw_ssn_sel :: u8
  ti_hw_seq_mode :: u8
  ti_hiq :: bool
  ti_port :: u8
  ti_er_cap :: bool

definition rx_desc_info0 :: rtw89_rx_desc_info where
  "rx_desc_info0 = \<lparr>ri_pkt_size = 0, ri_pkt_type = 0, ri_drv_info_size = 0, ri_phy_rpt_size = 0, ri_hdr_cnv_size = 0, ri_shift = 0, ri_wl_hd_iv_len = 0, ri_long_rxdesc = False, ri_bb_sel = False, ri_mac_info_valid = False, ri_data_rate = 0, ri_gi_ltf = 0, ri_bw = 0, ri_free_run_cnt = 0, ri_user_id = 0, ri_sr_en = False, ri_ppdu_cnt = 0, ri_ppdu_type = 0, ri_icv_err = False, ri_crc32_err = False, ri_hw_dec = False, ri_sw_dec = False, ri_addr1_match = False, ri_frag = 0, ri_seq = 0, ri_frame_type = 0, ri_rx_pl_id = 0, ri_addr_cam_valid = False, ri_addr_cam_id = 0, ri_sec_cam_id = 0, ri_mac_id = 0, ri_offset = 0, ri_rxd_len = 0, ri_ready = False\<rparr>"

definition tx_desc_info0 :: rtw89_tx_desc_info where
  "tx_desc_info0 = \<lparr>ti_pkt_size = 0, ti_wp_offset = 0, ti_mac_id = 0, ti_qsel = 0, ti_ch_dma = 0, ti_hdr_llc_len = 0, ti_is_bmc = False, ti_en_wd_info = False, ti_wd_page = False, ti_use_rate = False, ti_dis_data_fb = False, ti_tid_indicate = False, ti_agg_en = False, ti_bk = False, ti_ampdu_density = 0, ti_ampdu_num = 0, ti_sec_en = False, ti_addr_info_nr = 0, ti_sec_keyid = 0, ti_sec_type = 0, ti_sec_cam_idx = 0, ti_sec_seq = replicate 6 0, ti_data_rate = 0, ti_data_retry_lowest_rate = 0, ti_fw_dl = False, ti_seq = 0, ti_a_ctrl_bsr = False, ti_hw_ssn_sel = 0, ti_hw_seq_mode = 0, ti_hiq = False, ti_port = 0, ti_er_cap = False\<rparr>"

section \<open>Transmit descriptors\<close>

definition rtw89_build_txwd_body0 :: "rtw89_tx_desc_info \<Rightarrow> u32" where
  "rtw89_build_txwd_body0 d =
     FIELD_PREP RTW89_TXWD_BODY0_WP_OFFSET (ucast (ti_wp_offset d)) OR
     FIELD_PREP RTW89_TXWD_BODY0_WD_INFO_EN (of_bool (ti_en_wd_info d)) OR
     FIELD_PREP RTW89_TXWD_BODY0_CHANNEL_DMA (ucast (ti_ch_dma d)) OR
     FIELD_PREP RTW89_TXWD_BODY0_HDR_LLC_LEN (ucast (ti_hdr_llc_len d)) OR
     FIELD_PREP RTW89_TXWD_BODY0_WD_PAGE (of_bool (ti_wd_page d)) OR
     FIELD_PREP RTW89_TXWD_BODY0_FW_DL (of_bool (ti_fw_dl d)) OR
     FIELD_PREP RTW89_TXWD_BODY0_HW_SSN_SEL (ucast (ti_hw_ssn_sel d)) OR
     FIELD_PREP RTW89_TXWD_BODY0_HW_SSN_MODE (ucast (ti_hw_seq_mode d))"

definition rtw89_build_txwd_body2 :: "rtw89_tx_desc_info \<Rightarrow> u32" where
  "rtw89_build_txwd_body2 d =
     FIELD_PREP RTW89_TXWD_BODY2_TID_INDICATE (of_bool (ti_tid_indicate d)) OR
     FIELD_PREP RTW89_TXWD_BODY2_QSEL (ucast (ti_qsel d)) OR
     FIELD_PREP RTW89_TXWD_BODY2_TXPKT_SIZE (ucast (ti_pkt_size d)) OR
     FIELD_PREP RTW89_TXWD_BODY2_MACID (ucast (ti_mac_id d))"

definition rtw89_build_txwd_body3 :: "rtw89_tx_desc_info \<Rightarrow> u32" where
  "rtw89_build_txwd_body3 d =
     FIELD_PREP RTW89_TXWD_BODY3_SW_SEQ (ucast (ti_seq d)) OR
     FIELD_PREP RTW89_TXWD_BODY3_AGG_EN (of_bool (ti_agg_en d)) OR
     FIELD_PREP RTW89_TXWD_BODY3_BK (of_bool (ti_bk d))"

definition rtw89_build_txwd_info0 :: "rtw89_tx_desc_info \<Rightarrow> u32" where
  "rtw89_build_txwd_info0 d =
     FIELD_PREP RTW89_TXWD_INFO0_USE_RATE (of_bool (ti_use_rate d)) OR
     FIELD_PREP RTW89_TXWD_INFO0_DATA_RATE (ucast (ti_data_rate d)) OR
     FIELD_PREP RTW89_TXWD_INFO0_DISDATAFB (of_bool (ti_dis_data_fb d)) OR
     FIELD_PREP RTW89_TXWD_INFO0_MULTIPORT_ID (ucast (ti_port d))"

definition rtw89_build_txwd_info1 :: "rtw89_tx_desc_info \<Rightarrow> u32" where
  "rtw89_build_txwd_info1 d =
     FIELD_PREP RTW89_TXWD_INFO1_MAX_AGGNUM (ucast (ti_ampdu_num d)) OR
     FIELD_PREP RTW89_TXWD_INFO1_A_CTRL_BSR (of_bool (ti_a_ctrl_bsr d)) OR
     FIELD_PREP RTW89_TXWD_INFO1_DATA_RTY_LOWEST_RATE (ucast (ti_data_retry_lowest_rate d))"

definition rtw89_build_txwd_info2 :: "rtw89_tx_desc_info \<Rightarrow> u32" where
  "rtw89_build_txwd_info2 d =
     FIELD_PREP RTW89_TXWD_INFO2_AMPDU_DENSITY (ucast (ti_ampdu_density d)) OR
     FIELD_PREP RTW89_TXWD_INFO2_SEC_TYPE (ucast (ti_sec_type d)) OR
     FIELD_PREP RTW89_TXWD_INFO2_SEC_HW_ENC (of_bool (ti_sec_en d)) OR
     FIELD_PREP RTW89_TXWD_INFO2_SEC_CAM_IDX (ucast (ti_sec_cam_idx d))"

definition rtw89_build_txwd_info4 :: "rtw89_tx_desc_info \<Rightarrow> u32" where
  "rtw89_build_txwd_info4 d =
     FIELD_PREP RTW89_TXWD_INFO4_RTS_EN (of_bool (\<not> ti_is_bmc d)) OR
     FIELD_PREP RTW89_TXWD_INFO4_HW_RTS_EN 1"

definition rtw89_core_fill_txdesc ::
  "rtw89_tx_desc_info \<Rightarrow> rtw89_txwd_body \<times> rtw89_txwd_info \<Rightarrow> rtw89_txwd_body \<times> rtw89_txwd_info" where
  "rtw89_core_fill_txdesc d txdesc = (let (body, info) = txdesc;
     body = body\<lparr>tb_dword0 := rtw89_build_txwd_body0 d, tb_dword2 := rtw89_build_txwd_body2 d,
       tb_dword3 := rtw89_build_txwd_body3 d\<rparr> in
     if \<not> ti_en_wd_info d then (body, info)
     else (body, info\<lparr>tw_dword0 := rtw89_build_txwd_info0 d, tw_dword1 := rtw89_build_txwd_info1 d,
       tw_dword2 := rtw89_build_txwd_info2 d, tw_dword4 := rtw89_build_txwd_info4 d\<rparr>))"

section \<open>Receive descriptors\<close>

text \<open>The descriptor parser. \<open>data_offset\<close> is where the descriptor starts; the words of the long form
  are read only when the first word says it is long.\<close>

definition query_short :: "chip_id \<Rightarrow> u32 \<Rightarrow> u32 \<Rightarrow> u32 \<Rightarrow> u32 \<Rightarrow> rtw89_rx_desc_info \<Rightarrow> rtw89_rx_desc_info" where
  "query_short chip w0 w1 w2 w3 d = d\<lparr>
     ri_pkt_size := ucast (le32_get_bits w0 AX_RXD_RPKT_LEN_MASK),
     ri_drv_info_size := ucast (le32_get_bits w0 AX_RXD_DRV_INFO_SIZE_MASK),
     ri_long_rxdesc := le32_get_bits w0 AX_RXD_LONG_RXD \<noteq> 0,
     ri_pkt_type := ucast (le32_get_bits w0 AX_RXD_RPKT_TYPE_MASK),
     ri_mac_info_valid := le32_get_bits w0 AX_RXD_MAC_INFO_VLD \<noteq> 0,
     ri_bw := (if chip = RTL8852C then ucast (le32_get_bits w1 AX_RXD_BW_v1_MASK)
               else ucast (le32_get_bits w1 AX_RXD_BW_MASK)),
     ri_data_rate := ucast (le32_get_bits w1 AX_RXD_RX_DATARATE_MASK),
     ri_gi_ltf := ucast (le32_get_bits w1 AX_RXD_RX_GI_LTF_MASK),
     ri_user_id := ucast (le32_get_bits w1 AX_RXD_USER_ID_MASK),
     ri_sr_en := le32_get_bits w1 AX_RXD_SR_EN \<noteq> 0,
     ri_ppdu_cnt := ucast (le32_get_bits w1 AX_RXD_PPDU_CNT_MASK),
     ri_ppdu_type := ucast (le32_get_bits w1 AX_RXD_PPDU_TYPE_MASK),
     ri_free_run_cnt := le32_get_bits w2 AX_RXD_FREERUN_CNT_MASK,
     ri_icv_err := le32_get_bits w3 AX_RXD_ICV_ERR \<noteq> 0,
     ri_crc32_err := le32_get_bits w3 AX_RXD_CRC32_ERR \<noteq> 0,
     ri_hw_dec := le32_get_bits w3 AX_RXD_HW_DEC \<noteq> 0,
     ri_sw_dec := le32_get_bits w3 AX_RXD_SW_DEC \<noteq> 0,
     ri_addr1_match := le32_get_bits w3 AX_RXD_A1_MATCH \<noteq> 0\<rparr>"

definition query_long :: "u32 \<Rightarrow> u32 \<Rightarrow> rtw89_rx_desc_info \<Rightarrow> rtw89_rx_desc_info" where
  "query_long w4 w5 d = d\<lparr>
     ri_frame_type := ucast (le32_get_bits w4 AX_RXD_TYPE_MASK),
     ri_addr_cam_valid := le32_get_bits w5 AX_RXD_ADDR_CAM_VLD \<noteq> 0,
     ri_addr_cam_id := ucast (le32_get_bits w5 AX_RXD_ADDR_CAM_MASK),
     ri_sec_cam_id := ucast (le32_get_bits w5 AX_RXD_SEC_CAM_IDX_MASK),
     ri_mac_id := ucast (le32_get_bits w5 AX_RXD_MAC_ID_MASK),
     ri_rx_pl_id := ucast (le32_get_bits w5 AX_RXD_RX_PL_ID_MASK)\<rparr>"

definition rtw89_core_query_rxdesc ::
  "chip_id \<Rightarrow> rtw89_rx_desc_info \<Rightarrow> bytes \<Rightarrow> u32 \<Rightarrow> rtw89_rx_desc_info option" where
  "rtw89_core_query_rxdesc chip d data data_offset = do {
     let o0 = unat data_offset;
     w0 \<leftarrow> rd32 data o0;
     w1 \<leftarrow> rd32 data (o0 + 4);
     w2 \<leftarrow> rd32 data (o0 + 8);
     w3 \<leftarrow> rd32 data (o0 + 12);
     let d = query_short chip w0 w1 w2 w3 d;
     let shift_len = push_bit 1 (ri_shift d);
     let drv_info_len = push_bit 3 (ri_drv_info_size d);
     let d = d\<lparr>ri_offset := ucast (data_offset + ucast shift_len + ucast drv_info_len),
       ri_rxd_len := (if ri_long_rxdesc d then 32 else 16), ri_ready := True\<rparr>;
     if \<not> ri_long_rxdesc d then Some d
     else do {
       w4 \<leftarrow> rd32 data (o0 + 16);
       w5 \<leftarrow> rd32 data (o0 + 20);
       Some (query_long w4 w5 d) } }"

section \<open>The checked codec\<close>

type_synonym TxInfo = rtw89_tx_desc_info
type_synonym RxInfo = rtw89_rx_desc_info

datatype DescriptorStatus =
    DS_ok | DS_nullPointer | DS_truncated | DS_invalidLength | DS_unrepresentable | DS_corruptFrame

definition little32 :: "bytes \<Rightarrow> nat \<Rightarrow> u32 option" where
  "little32 p i = do {
     a \<leftarrow> rd8 p i; b \<leftarrow> rd8 p (i + 1); c \<leftarrow> rd8 p (i + 2); d \<leftarrow> rd8 p (i + 3);
     Some (ucast a OR push_bit 8 (ucast b) OR push_bit 16 (ucast c) OR push_bit 24 (ucast d)) }"

definition txFieldsFit :: "TxInfo \<Rightarrow> bool" where
  "txFieldsFit p \<longleftrightarrow> \<not> 15 < ti_ch_dma p \<and> \<not> 31 < ti_hdr_llc_len p \<and> \<not> 3 < ti_hw_ssn_sel p \<and>
     \<not> 3 < ti_hw_seq_mode p \<and> \<not> 63 < ti_qsel p \<and> \<not> 16383 < ti_pkt_size p \<and> \<not> 127 < ti_mac_id p \<and>
     \<not> 4095 < ti_seq p \<and> \<not> 511 < ti_data_rate p \<and> \<not> 7 < ti_port p \<and>
     \<not> 511 < ti_data_retry_lowest_rate p \<and> \<not> 7 < ti_ampdu_density p \<and> \<not> 15 < ti_sec_type p"

text \<open>The zeroed 48-byte array \<open>encoded\<close> seen as the two structures, and its bytes.\<close>

definition encoded0 :: "rtw89_txwd_body \<times> rtw89_txwd_info" where
  "encoded0 = (\<lparr>tb_dword0 = 0, tb_dword1 = 0, tb_dword2 = 0, tb_dword3 = 0, tb_dword4 = 0, tb_dword5 = 0\<rparr>,
     \<lparr>tw_dword0 = 0, tw_dword1 = 0, tw_dword2 = 0, tw_dword3 = 0, tw_dword4 = 0, tw_dword5 = 0\<rparr>)"

definition txdesc_bytes :: "rtw89_txwd_body \<times> rtw89_txwd_info \<Rightarrow> bytes" where
  "txdesc_bytes txdesc = (let (b, i) = txdesc in
     bytes_of32 (tb_dword0 b) @ bytes_of32 (tb_dword1 b) @ bytes_of32 (tb_dword2 b) @
     bytes_of32 (tb_dword3 b) @ bytes_of32 (tb_dword4 b) @ bytes_of32 (tb_dword5 b) @
     bytes_of32 (tw_dword0 i) @ bytes_of32 (tw_dword1 i) @ bytes_of32 (tw_dword2 i) @
     bytes_of32 (tw_dword3 i) @ bytes_of32 (tw_dword4 i) @ bytes_of32 (tw_dword5 i))"

definition encodeTx :: "TxInfo \<Rightarrow> bytes option \<Rightarrow> (DescriptorStatus \<times> nat \<times> bytes option) option" where
  "encodeTx p out = (case out of None \<Rightarrow> Some (DS_nullPointer, 0, out) | Some buf \<Rightarrow>
     if ti_pkt_size p = 0 then Some (DS_invalidLength, 0, out)
     else if \<not> txFieldsFit p then Some (DS_unrepresentable, 0, out)
     else let needed = (if ti_en_wd_info p then 48 else 24) in
       if length buf < needed then Some (DS_truncated, 0, out)
       else do {
         copied \<leftarrow> rd_bytes (txdesc_bytes (rtw89_core_fill_txdesc p encoded0)) 0 needed;
         buf \<leftarrow> wr buf 0 copied;
         Some (DS_ok, needed, Some buf) })"

text \<open>\<open>payload\<close> is a pointer into the buffer: the offset it points to.\<close>

record RxPacket =
  rp_info :: RxInfo
  rp_payload :: "nat option"
  rp_length :: nat
  rp_offset :: nat

definition RxPacket0 :: RxPacket where
  "RxPacket0 = \<lparr>rp_info = rx_desc_info0, rp_payload = None, rp_length = 0, rp_offset = 0\<rparr>"

definition hardwareDecrypted :: "RxInfo \<Rightarrow> bool" where
  "hardwareDecrypted i \<longleftrightarrow> ri_hw_dec i \<and> \<not> ri_sw_dec i \<and> \<not> ri_icv_err i"

definition decodeRxHeader :: "bytes option \<Rightarrow> nat \<Rightarrow> (DescriptorStatus \<times> RxPacket) option" where
  "decodeRxHeader source off = (case source of None \<Rightarrow> Some (DS_nullPointer, RxPacket0) | Some data \<Rightarrow>
     if length data < off \<or> length data - off < 16 then Some (DS_truncated, RxPacket0)
     else do {
       w \<leftarrow> little32 data off;
       let descriptorBytes = (if w AND 0x80000000 \<noteq> 0 then 32 else 16);
       if length data - off < descriptorBytes then Some (DS_truncated, RxPacket0)
       else do {
         copied \<leftarrow> rd_bytes data off descriptorBytes;
         descriptor \<leftarrow> wr (replicate 32 0) 0 copied;
         let info = rx_desc_info0\<lparr>ri_shift := ucast (drop_bit 14 w AND 3)\<rparr>;
         info \<leftarrow> rtw89_core_query_rxdesc RTL8852B info descriptor 0;
         let overhead = unat (ri_offset info) + unat (ri_rxd_len info);
         if ri_pkt_size info = 0 \<or> ri_pkt_type info = 15 then Some (DS_invalidLength, RxPacket0)
         else if length data - off < overhead then Some (DS_truncated, RxPacket0)
         else if ri_icv_err info \<or> ri_crc32_err info then Some (DS_corruptFrame, RxPacket0)
         else Some (DS_ok, RxPacket0\<lparr>rp_info := info, rp_offset := off + overhead,
           rp_length := unat (ri_pkt_size info)\<rparr>) } })"

definition decodeRx :: "bytes option \<Rightarrow> nat \<Rightarrow> (DescriptorStatus \<times> RxPacket) option" where
  "decodeRx source off = do {
     (st, out) \<leftarrow> decodeRxHeader source off;
     if st \<noteq> DS_ok then Some (st, out)
     else if (case source of None \<Rightarrow> 0 | Some data \<Rightarrow> length data) - rp_offset out < rp_length out
     then Some (DS_truncated, RxPacket0)
     else Some (DS_ok, out\<lparr>rp_payload := Some (rp_offset out)\<rparr>) }"

section \<open>Algebra of the bit fields\<close>

lemma bit_GENMASK: "h \<le> 31 \<Longrightarrow> bit (GENMASK h l) n \<longleftrightarrow> l \<le> n \<and> n \<le> h"
proof -
  assume h: "h \<le> 31"
  have ones: "(0xffffffff :: u32) = - 1" by simp
  show ?thesis unfolding GENMASK_def ones using h by (auto simp: bit_simps)
qed

lemma shift32_GENMASK: "l \<le> h \<Longrightarrow> h \<le> 31 \<Longrightarrow> shift32 (GENMASK h l) = l"
proof -
  assume lh: "l \<le> h" and h: "h \<le> 31"
  have s: "[0..<32] = [0..<l] @ l # [Suc l..<32]"
    using lh h upt_add_eq_append [of 0 l "32 - l"] by (simp add: upt_conv_Cons)
  show ?thesis unfolding shift32_def s
    by (subst takeWhile_append2) (use lh h in \<open>auto simp: bit_GENMASK\<close>)
qed

lemma BIT_GENMASK: "n \<le> 31 \<Longrightarrow> BIT n = GENMASK n n"
  by (rule bit_word_eqI) (auto simp: bit_GENMASK BIT_def bit_simps)

lemma FIELD_PREP_GENMASK:
  "l \<le> h \<Longrightarrow> h \<le> 31 \<Longrightarrow> FIELD_PREP (GENMASK h l) v = push_bit l (take_bit (Suc h - l) v)"
  by (rule bit_word_eqI) (auto simp: FIELD_PREP_def shift32_GENMASK bit_GENMASK bit_simps)

lemma get_bits_GENMASK:
  "l \<le> h \<Longrightarrow> h \<le> 31 \<Longrightarrow> le32_get_bits n (GENMASK h l) = take_bit (Suc h - l) (drop_bit l n)"
  by (rule bit_word_eqI) (auto simp: le32_get_bits_def shift32_GENMASK bit_GENMASK bit_simps)

lemma get_bits_or: "le32_get_bits (a OR b) m = le32_get_bits a m OR le32_get_bits b m"
  by (rule bit_word_eqI) (auto simp: le32_get_bits_def bit_simps)

lemma get_prep_same:
  "l \<le> h \<Longrightarrow> h \<le> 31 \<Longrightarrow>
   le32_get_bits (FIELD_PREP (GENMASK h l) v) (GENMASK h l) = take_bit (Suc h - l) v"
  by (rule bit_word_eqI) (auto simp: FIELD_PREP_GENMASK get_bits_GENMASK bit_simps)

lemma get_prep_other:
  "l \<le> h \<Longrightarrow> h \<le> 31 \<Longrightarrow> l' \<le> h' \<Longrightarrow> h' \<le> 31 \<Longrightarrow> h < l' \<or> h' < l \<Longrightarrow>
   le32_get_bits (FIELD_PREP (GENMASK h l) v) (GENMASK h' l') = 0"
  by (rule bit_word_eqI) (auto simp: FIELD_PREP_GENMASK get_bits_GENMASK bit_simps)

lemma take_bit_ucast:
  assumes "unat v < 2 ^ k" and "k < 32"
  shows "take_bit k (ucast (v :: 'a::len word) :: u32) = ucast v"
proof -
  have "unat (ucast v :: u32) \<le> unat v" by (simp add: unsigned_ucast_eq take_bit_eq_mod)
  then have "unat (ucast v :: u32) < 2 ^ k" using assms(1) by linarith
  then show ?thesis by (simp add: word_unat_eq_iff unsigned_take_bit_eq take_bit_nat_eq_self)
qed

lemma take_bit_of_bool: "take_bit (Suc n) (of_bool b :: u32) = of_bool b"
  by (cases b) (simp_all add: take_bit_Suc)

lemmas field_simps32 = get_bits_or get_prep_same get_prep_other BIT_GENMASK

section \<open>What a transmit descriptor carries\<close>

text \<open>The fields of an encoded descriptor, read back with the masks of the words.\<close>

definition body_fields :: "bytes \<Rightarrow> u32 list" where
  "body_fields b = (let w0 = word_at b 0; w2 = word_at b 8; w3 = word_at b 12 in
     map (le32_get_bits w0) [RTW89_TXWD_BODY0_WP_OFFSET, RTW89_TXWD_BODY0_WD_INFO_EN,
       RTW89_TXWD_BODY0_CHANNEL_DMA, RTW89_TXWD_BODY0_HDR_LLC_LEN, RTW89_TXWD_BODY0_WD_PAGE,
       RTW89_TXWD_BODY0_FW_DL, RTW89_TXWD_BODY0_HW_SSN_SEL, RTW89_TXWD_BODY0_HW_SSN_MODE] @
     map (le32_get_bits w2) [RTW89_TXWD_BODY2_TID_INDICATE, RTW89_TXWD_BODY2_QSEL,
       RTW89_TXWD_BODY2_TXPKT_SIZE, RTW89_TXWD_BODY2_MACID] @
     map (le32_get_bits w3) [RTW89_TXWD_BODY3_SW_SEQ, RTW89_TXWD_BODY3_AGG_EN, RTW89_TXWD_BODY3_BK])"

definition info_fields :: "bytes \<Rightarrow> u32 list" where
  "info_fields b = (let w0 = word_at b 24; w1 = word_at b 28; w2 = word_at b 32; w4 = word_at b 40 in
     map (le32_get_bits w0) [RTW89_TXWD_INFO0_USE_RATE, RTW89_TXWD_INFO0_DATA_RATE,
       RTW89_TXWD_INFO0_DISDATAFB, RTW89_TXWD_INFO0_MULTIPORT_ID] @
     map (le32_get_bits w1) [RTW89_TXWD_INFO1_MAX_AGGNUM, RTW89_TXWD_INFO1_A_CTRL_BSR,
       RTW89_TXWD_INFO1_DATA_RTY_LOWEST_RATE] @
     map (le32_get_bits w2) [RTW89_TXWD_INFO2_AMPDU_DENSITY, RTW89_TXWD_INFO2_SEC_TYPE,
       RTW89_TXWD_INFO2_SEC_HW_ENC, RTW89_TXWD_INFO2_SEC_CAM_IDX] @
     map (le32_get_bits w4) [RTW89_TXWD_INFO4_RTS_EN, RTW89_TXWD_INFO4_HW_RTS_EN])"

definition wanted_body :: "TxInfo \<Rightarrow> u32 list" where
  "wanted_body p = [ucast (ti_wp_offset p), of_bool (ti_en_wd_info p), ucast (ti_ch_dma p),
     ucast (ti_hdr_llc_len p), of_bool (ti_wd_page p), of_bool (ti_fw_dl p), ucast (ti_hw_ssn_sel p),
     ucast (ti_hw_seq_mode p), of_bool (ti_tid_indicate p), ucast (ti_qsel p), ucast (ti_pkt_size p),
     ucast (ti_mac_id p), ucast (ti_seq p), of_bool (ti_agg_en p), of_bool (ti_bk p)]"

definition wanted_info :: "TxInfo \<Rightarrow> u32 list" where
  "wanted_info p = [of_bool (ti_use_rate p), ucast (ti_data_rate p), of_bool (ti_dis_data_fb p),
     ucast (ti_port p), ucast (ti_ampdu_num p), of_bool (ti_a_ctrl_bsr p),
     ucast (ti_data_retry_lowest_rate p), ucast (ti_ampdu_density p), ucast (ti_sec_type p),
     of_bool (ti_sec_en p), ucast (ti_sec_cam_idx p), of_bool (\<not> ti_is_bmc p), 1]"

lemma take_bit_u8: "take_bit 8 (ucast (v :: u8) :: u32) = ucast v"
  by (rule take_bit_ucast) (use unsigned_less [of v] in simp_all)

lemma take_bit_fit:
  "\<not> 15 < (a :: u8) \<Longrightarrow> take_bit 4 (ucast a :: u32) = ucast a"
  "\<not> 31 < (a :: u8) \<Longrightarrow> take_bit 5 (ucast a :: u32) = ucast a"
  "\<not> 3 < (a :: u8) \<Longrightarrow> take_bit 2 (ucast a :: u32) = ucast a"
  "\<not> 63 < (a :: u8) \<Longrightarrow> take_bit 6 (ucast a :: u32) = ucast a"
  "\<not> 127 < (a :: u8) \<Longrightarrow> take_bit 7 (ucast a :: u32) = ucast a"
  "\<not> 7 < (a :: u8) \<Longrightarrow> take_bit 3 (ucast a :: u32) = ucast a"
  "\<not> 16383 < (b :: u16) \<Longrightarrow> take_bit 14 (ucast b :: u32) = ucast b"
  "\<not> 4095 < (b :: u16) \<Longrightarrow> take_bit 12 (ucast b :: u32) = ucast b"
  "\<not> 511 < (b :: u16) \<Longrightarrow> take_bit 9 (ucast b :: u32) = ucast b"
  by (rule take_bit_ucast; simp add: not_less word_le_nat_alt)+

lemma take_bit_1_of_bool: "take_bit 1 (of_bool b :: u32) = of_bool b" "take_bit 1 (1 :: u32) = 1"
  "take_bit (Suc 0) (of_bool b :: u32) = of_bool b" "take_bit (Suc 0) (1 :: u32) = 1"
  by (cases b, simp_all)+

lemma body_words_fields:
  assumes "txFieldsFit p"
  shows "map (le32_get_bits (rtw89_build_txwd_body0 p)) [RTW89_TXWD_BODY0_WP_OFFSET,
      RTW89_TXWD_BODY0_WD_INFO_EN, RTW89_TXWD_BODY0_CHANNEL_DMA, RTW89_TXWD_BODY0_HDR_LLC_LEN,
      RTW89_TXWD_BODY0_WD_PAGE, RTW89_TXWD_BODY0_FW_DL, RTW89_TXWD_BODY0_HW_SSN_SEL,
      RTW89_TXWD_BODY0_HW_SSN_MODE] @
    map (le32_get_bits (rtw89_build_txwd_body2 p)) [RTW89_TXWD_BODY2_TID_INDICATE,
      RTW89_TXWD_BODY2_QSEL, RTW89_TXWD_BODY2_TXPKT_SIZE, RTW89_TXWD_BODY2_MACID] @
    map (le32_get_bits (rtw89_build_txwd_body3 p)) [RTW89_TXWD_BODY3_SW_SEQ,
      RTW89_TXWD_BODY3_AGG_EN, RTW89_TXWD_BODY3_BK] = wanted_body p"
  using assms
  by (simp add: rtw89_build_txwd_body0_def rtw89_build_txwd_body2_def rtw89_build_txwd_body3_def
      mask_defs field_simps32 wanted_body_def txFieldsFit_def take_bit_fit
      take_bit_fit(3) [unfolded numeral_2_eq_2] take_bit_u8 take_bit_1_of_bool)

lemma info_words_fields:
  assumes "txFieldsFit p"
  shows "map (le32_get_bits (rtw89_build_txwd_info0 p)) [RTW89_TXWD_INFO0_USE_RATE,
      RTW89_TXWD_INFO0_DATA_RATE, RTW89_TXWD_INFO0_DISDATAFB, RTW89_TXWD_INFO0_MULTIPORT_ID] @
    map (le32_get_bits (rtw89_build_txwd_info1 p)) [RTW89_TXWD_INFO1_MAX_AGGNUM,
      RTW89_TXWD_INFO1_A_CTRL_BSR, RTW89_TXWD_INFO1_DATA_RTY_LOWEST_RATE] @
    map (le32_get_bits (rtw89_build_txwd_info2 p)) [RTW89_TXWD_INFO2_AMPDU_DENSITY,
      RTW89_TXWD_INFO2_SEC_TYPE, RTW89_TXWD_INFO2_SEC_HW_ENC, RTW89_TXWD_INFO2_SEC_CAM_IDX] @
    map (le32_get_bits (rtw89_build_txwd_info4 p)) [RTW89_TXWD_INFO4_RTS_EN,
      RTW89_TXWD_INFO4_HW_RTS_EN] = wanted_info p"
  using assms
  by (simp add: rtw89_build_txwd_info0_def rtw89_build_txwd_info1_def rtw89_build_txwd_info2_def
      rtw89_build_txwd_info4_def mask_defs field_simps32 wanted_info_def txFieldsFit_def take_bit_fit
      take_bit_u8 take_bit_1_of_bool)

lemma word_at_skip: "length xs = n \<Longrightarrow> word_at (xs @ ys) (n + i) = word_at ys i"
  by (auto simp: word_at_def nth_append)

lemma txdesc_words:
  "word_at (txdesc_bytes (b, i) @ r) 0 = tb_dword0 b" "word_at (txdesc_bytes (b, i) @ r) 8 = tb_dword2 b"
  "word_at (txdesc_bytes (b, i) @ r) 12 = tb_dword3 b" "word_at (txdesc_bytes (b, i) @ r) 24 = tw_dword0 i"
  "word_at (txdesc_bytes (b, i) @ r) 28 = tw_dword1 i" "word_at (txdesc_bytes (b, i) @ r) 32 = tw_dword2 i"
  "word_at (txdesc_bytes (b, i) @ r) 40 = tw_dword4 i"
  by (simp_all add: txdesc_bytes_def word_at_def bytes_of32_def)

lemma length_txdesc_bytes [simp]: "length (txdesc_bytes x) = 48"
  by (cases x) (simp add: txdesc_bytes_def)

lemma word_at_take:
  "i + 3 < n \<Longrightarrow> word_at (take n xs @ ys) i = word_at (take n xs @ zs) i \<or> length xs < n"
  by (auto simp: word_at_def nth_append)

lemma word_at_prefix: "i + 3 < n \<Longrightarrow> n \<le> length xs \<Longrightarrow> word_at (take n xs @ ys) i = word_at (xs @ zs) i"
  by (simp add: word_at_def nth_append)

lemma encodeTx_ok:
  assumes "encodeTx p (Some buf) = Some (DS_ok, n, Some out)"
  shows "n = (if ti_en_wd_info p then 48 else 24)" and "txFieldsFit p" and "n \<le> length buf"
    and "out = take n (txdesc_bytes (rtw89_core_fill_txdesc p encoded0)) @ drop n buf"
  using assms by (auto simp: encodeTx_def rd_bytes_def wr_def Let_def split: if_splits)

section \<open>What a receive descriptor says\<close>

lemma small_u8:
  assumes "unat (v :: u8) < 8"
  shows "v \<in> {0, 1, 2, 3, 4, 5, 6, 7}"
proof -
  from assms have "unat v \<in> {0, 1, 2, 3, 4, 5, 6, 7}" by auto
  then show ?thesis by (simp add: word_unat_eq_iff)
qed

lemma rx_overhead:
  assumes "unat s < 4" and "unat v < 8"
  shows "unat (ucast (ucast (push_bit 1 s) + ucast (push_bit 3 v) :: u32) :: u16) =
    2 * unat (s :: u8) + 8 * unat (v :: u8)"
  using small_u8 [of s] small_u8 [of v] assms by (auto simp: push_bit_eq_mult)

lemma take_bit_narrow: "unat (ucast (take_bit k w :: u32) :: 'a::len word) < 2 ^ k"
proof -
  have "unat (ucast (take_bit k w :: u32) :: 'a word) \<le> unat (take_bit k w)"
    by (simp add: unsigned_ucast_eq take_bit_eq_mod)
  also have "\<dots> < 2 ^ k" by (simp add: unsigned_take_bit_eq)
  finally show ?thesis .
qed

lemma rx_mask_bounds:
  "unat (ucast (le32_get_bits w AX_RXD_DRV_INFO_SIZE_MASK) :: u8) < 8"
  "unat (ucast (le32_get_bits w AX_RXD_RPKT_LEN_MASK) :: u16) < 16384"
  using take_bit_narrow [of 3 "drop_bit 28 w", where 'a = 8] take_bit_narrow [of 14 w, where 'a = 16]
  by (simp_all add: mask_defs get_bits_GENMASK)

lemma long_rxdesc_bit: "le32_get_bits w AX_RXD_LONG_RXD \<noteq> 0 \<longleftrightarrow> w AND 0x80000000 \<noteq> 0"
proof -
  have p: "(0x80000000 :: u32) = 2 ^ 31" by simp
  show ?thesis unfolding p and_exp_eq_0_iff_not_bit
    by (simp add: mask_defs BIT_GENMASK get_bits_GENMASK bit_iff_odd_drop_bit take_bit_Suc
      odd_iff_mod_2_eq_one)
qed

lemma query_rxdesc_spec:
  assumes "length d = 32" and "unat (ri_shift i) < 4"
  obtains r where "rtw89_core_query_rxdesc RTL8852B i d 0 = Some r"
    and "unat (ri_offset r) = 2 * unat (ri_shift i) + 8 * unat (ri_drv_info_size r)"
    and "ri_rxd_len r = (if word_at d 0 AND 0x80000000 \<noteq> 0 then 32 else 16)"
    and "ri_long_rxdesc r \<longleftrightarrow> word_at d 0 AND 0x80000000 \<noteq> 0" and "ri_shift r = ri_shift i"
    and "unat (ri_pkt_size r) < 16384" and "unat (ri_drv_info_size r) < 8"
  using assms rx_overhead [OF assms(2) rx_mask_bounds(1)] rx_mask_bounds
  by (cases "word_at d 0 AND 0x80000000 = 0")
    (simp_all add: rtw89_core_query_rxdesc_def rd32_in query_short_def query_long_def long_rxdesc_bit
      long_rxdesc_bit [unfolded not_not, THEN iffD2])

lemma little32_bytes_of32 [simp]: "little32 (bytes_of32 w @ rest) 0 = Some w"
  by (simp add: little32_def rd8_def bytes_of32_def)
    (simp only: le32_of_def [symmetric] le32_of_bytes_of32)

section \<open>Properties\<close>

text \<open>C8: an accepted transmit descriptor loses nothing: every field of
  \<open>TxInfo\<close> that has a place in the descriptor, read back with its mask, is the value that was
  given, the rate and security words are there exactly when \<open>en_wd_info\<close> is set, and the bytes
  of the caller's buffer behind the descriptor are untouched.\<close>

theorem encodeTx_lossless:
  assumes "encodeTx p (Some buf) = Some (DS_ok, n, Some out)"
  shows "n = (if ti_en_wd_info p then 48 else 24) \<and> length out = length buf \<and> drop n out = drop n buf \<and>
    body_fields out = wanted_body p \<and> (ti_en_wd_info p \<longrightarrow> info_fields out = wanted_info p)"
proof -
  note ok = encodeTx_ok [OF assms]
  obtain b i where bi: "rtw89_core_fill_txdesc p encoded0 = (b, i)" by fastforce
  have b: "tb_dword0 b = rtw89_build_txwd_body0 p" "tb_dword2 b = rtw89_build_txwd_body2 p"
    "tb_dword3 b = rtw89_build_txwd_body3 p"
    using bi by (auto simp: rtw89_core_fill_txdesc_def Let_def split: prod.splits if_splits)
  have i: "tw_dword0 i = rtw89_build_txwd_info0 p" "tw_dword1 i = rtw89_build_txwd_info1 p"
    "tw_dword2 i = rtw89_build_txwd_info2 p" "tw_dword4 i = rtw89_build_txwd_info4 p"
    if "ti_en_wd_info p"
    using bi that by (auto simp: rtw89_core_fill_txdesc_def Let_def split: prod.splits if_splits)
  have n: "24 \<le> n" "n \<le> 48" using ok(1) by simp_all
  have w: "word_at out k = word_at (txdesc_bytes (b, i) @ []) k" if "k + 3 < n" for k
    using ok(4) bi n that by (simp add: word_at_prefix [where zs = "[]"])
  have "body_fields out = wanted_body p"
    using body_words_fields [OF ok(2)] n
    by (simp only: body_fields_def Let_def w txdesc_words b)
  moreover have "info_fields out = wanted_info p" if e: "ti_en_wd_info p"
  proof -
    have "48 \<le> n" using ok(1) e by simp
    then show ?thesis using info_words_fields [OF ok(2)]
      by (simp only: info_fields_def Let_def w txdesc_words i [OF e])
  qed
  ultimately show ?thesis using ok n by auto
qed

definition sample_tx :: TxInfo where
  "sample_tx = tx_desc_info0\<lparr>ti_pkt_size := 1500, ti_ch_dma := 3, ti_seq := 0x123, ti_en_wd_info := True,
     ti_data_rate := 0x10b, ti_sec_type := 6\<rparr>"

theorem encodeTx_lossless_witness:
  "\<exists>out. encodeTx sample_tx (Some (replicate 50 7)) = Some (DS_ok, 48, Some out) \<and>
     body_fields out = wanted_body sample_tx \<and> info_fields out = wanted_info sample_tx"
proof -
  obtain out where o: "encodeTx sample_tx (Some (replicate 50 7)) = Some (DS_ok, 48, Some out)"
    by (simp add: encodeTx_def sample_tx_def tx_desc_info0_def txFieldsFit_def rd_bytes_def wr_def)
  have "ti_en_wd_info sample_tx" by (simp add: sample_tx_def)
  then show ?thesis using encodeTx_lossless [OF o] o by blast
qed

text \<open>the encoder always ends, accepts exactly a non-empty frame whose
  fields all fit their bit fields and a buffer that holds the descriptor, and in every other
  case reports length 0 and leaves the caller's buffer as it was.\<close>

theorem encodeTx_accepts:
  "\<exists>st n out'. encodeTx p out = Some (st, n, out') \<and>
     (st = DS_ok \<longleftrightarrow> (\<exists>buf. out = Some buf \<and> (if ti_en_wd_info p then 48 else 24) \<le> length buf) \<and>
        ti_pkt_size p \<noteq> 0 \<and> txFieldsFit p) \<and>
     (st = DS_ok \<or> n = 0 \<and> out' = out)"
  by (cases out) (auto simp: encodeTx_def rd_bytes_def wr_def Let_def)

lemma decodeRxHeader_spec:
  "\<exists>st out. decodeRxHeader (Some data) off = Some (st, out) \<and>
     (if st = DS_ok
      then rp_payload out = None \<and> rp_offset out \<le> length data \<and>
        rp_offset out = off + (if ri_long_rxdesc (rp_info out) then 32 else 16) +
          2 * unat (ri_shift (rp_info out)) + 8 * unat (ri_drv_info_size (rp_info out)) \<and>
        unat (ri_shift (rp_info out)) < 4 \<and> unat (ri_drv_info_size (rp_info out)) < 8 \<and>
        rp_length out = unat (ri_pkt_size (rp_info out)) \<and> 0 < rp_length out \<and> rp_length out < 16384 \<and>
        \<not> ri_icv_err (rp_info out) \<and> \<not> ri_crc32_err (rp_info out) \<and>
        (\<forall>data'. take (rp_offset out) data' = take (rp_offset out) data \<longrightarrow> rp_offset out \<le> length data' \<longrightarrow>
           decodeRxHeader (Some data') off = Some (st, out))
      else out = RxPacket0)"
proof (cases "length data < off \<or> length data - off < 16")
  case True
  then show ?thesis by (simp add: decodeRxHeader_def)
next
  case False
  let ?w = "word_at data off"
  define n where "n = (if ?w AND 0x80000000 \<noteq> 0 then 32 else 16 :: nat)"
  have "off + 16 \<le> length data" using False by linarith
  then have w: "little32 data off = Some ?w"
    by (simp add: little32_def rd8_def word_at_def le32_of_def)
  show ?thesis
  proof (cases "length data - off < n")
    case True
    then show ?thesis using False w by (simp add: decodeRxHeader_def n_def [symmetric])
  next
    case len: False
    define d where "d = take n (drop off data) @ replicate (32 - n) 0"
    have n: "16 \<le> n" "n \<le> 32" by (simp_all add: n_def)
    have d: "rd_bytes data off n = Some (take n (drop off data))"
      "wr (replicate 32 0) 0 (take n (drop off data)) = Some d"
      using len False n by (simp_all add: rd_bytes_def wr_def d_def min_def)
    have ld: "length d = 32" and wd: "word_at d 0 = ?w"
      using len False n by (simp_all add: d_def word_at_def nth_append)
    define i where "i = rx_desc_info0\<lparr>ri_shift := ucast (drop_bit 14 ?w AND 3)\<rparr>"
    have "drop_bit 14 ?w AND 3 = take_bit 2 (drop_bit 14 ?w)"
      by (simp add: take_bit_eq_mask mask_eq_exp_minus_1)
    then have "unat (ri_shift i) < 4"
      using take_bit_narrow [of 2 "drop_bit 14 ?w", where 'a = 8] by (simp add: i_def)
    then obtain r where r: "rtw89_core_query_rxdesc RTL8852B i d 0 = Some r"
      "unat (ri_offset r) = 2 * unat (ri_shift i) + 8 * unat (ri_drv_info_size r)"
      "ri_rxd_len r = (if ?w AND 0x80000000 \<noteq> 0 then 32 else 16)"
      "ri_long_rxdesc r \<longleftrightarrow> ?w AND 0x80000000 \<noteq> 0" "ri_shift r = ri_shift i" "unat (ri_pkt_size r) < 16384" "unat (ri_drv_info_size r) < 8"
      using query_rxdesc_spec [OF ld, of i] wd by metis
    let ?ov = "unat (ri_offset r) + unat (ri_rxd_len r)"
    have hd: "decodeRxHeader (Some data) off =
      (if ri_pkt_size r = 0 \<or> ri_pkt_type r = 15 then Some (DS_invalidLength, RxPacket0)
       else if length data - off < ?ov then Some (DS_truncated, RxPacket0)
       else if ri_icv_err r \<or> ri_crc32_err r then Some (DS_corruptFrame, RxPacket0)
       else Some (DS_ok, RxPacket0\<lparr>rp_info := r, rp_offset := off + ?ov, rp_length := unat (ri_pkt_size r)\<rparr>))"
      using False len w d r(1) by (simp add: decodeRxHeader_def n_def [symmetric] i_def [symmetric])
    have pos: "0 < unat (ri_pkt_size r)" if "ri_pkt_size r \<noteq> 0" using that by (simp add: unat_gt_0)
    have sh: "unat (ri_shift r) < 4" using \<open>unat (ri_shift i) < 4\<close> r(5) by simp
    have same: "decodeRxHeader (Some data') off =
        Some (DS_ok, RxPacket0\<lparr>rp_info := r, rp_offset := off + ?ov, rp_length := unat (ri_pkt_size r)\<rparr>)"
      if eq: "take (off + ?ov) data' = take (off + ?ov) data" and l: "off + ?ov \<le> length data'"
        and ok: "ri_pkt_size r \<noteq> 0" "ri_pkt_type r \<noteq> 15" "\<not> ri_icv_err r" "\<not> ri_crc32_err r" "off + ?ov \<le> length data" for data'
    proof -
      have ov: "n \<le> ?ov" using r(3) by (auto simp: n_def)
      have nth: "data' ! k = data ! k" if "k < off + ?ov" for k
        using arg_cong [OF eq, of "\<lambda>xs. xs ! k"] that by simp
      have "data' ! off = data ! off" by (rule nth) (use ov n in linarith)
      then have w': "little32 data' off = Some ?w"
        using nth [of "off + 1"] nth [of "off + 2"] nth [of "off + 3"] ov n l
        by (simp add: little32_def rd8_def word_at_def le32_of_def)
      have "take n (drop off data') = take n (drop off data)"
        using ov n l ok(5) by (intro nth_equalityI) (auto simp: nth)
      then have d': "rd_bytes data' off n = Some (take n (drop off data))" using ov l by (simp add: rd_bytes_def)
      have "\<not> length data' < off" "\<not> length data' - off < 16" "\<not> length data' - off < n" "\<not> length data' - off < ?ov"
        using l ov n by linarith+
      then show ?thesis using w' d' d(2) r(1) ok(1-4)
        by (simp add: decodeRxHeader_def n_def [symmetric] i_def [symmetric] Let_def)
    qed
    show ?thesis
      using r(2-7) sh pos same unfolding hd by (auto simp: RxPacket0_def)
  qed
qed

text \<open>C9: on every buffer and descriptor offset the receive decoder ends
  without an access outside the buffer; an accepted frame is not empty, lies wholly inside the
  buffer behind its descriptor, shift and driver-info bytes, and has no CRC or ICV error; any
  other outcome exposes nothing.\<close>

theorem decodeRx_in_bounds:
  "\<exists>st out. decodeRx (Some data) off = Some (st, out) \<and>
     (if st = DS_ok
      then rp_payload out = Some (rp_offset out) \<and> rp_offset out + rp_length out \<le> length data \<and>
        rp_offset out = off + (if ri_long_rxdesc (rp_info out) then 32 else 16) +
          2 * unat (ri_shift (rp_info out)) + 8 * unat (ri_drv_info_size (rp_info out)) \<and>
        rp_length out = unat (ri_pkt_size (rp_info out)) \<and> 0 < rp_length out \<and> rp_length out < 16384 \<and>
        \<not> ri_icv_err (rp_info out) \<and> \<not> ri_crc32_err (rp_info out)
      else out = RxPacket0)"
proof -
  obtain st out where h: "decodeRxHeader (Some data) off = Some (st, out)"
    and s: "if st = DS_ok
      then rp_payload out = None \<and> rp_offset out \<le> length data \<and>
        rp_offset out = off + (if ri_long_rxdesc (rp_info out) then 32 else 16) +
          2 * unat (ri_shift (rp_info out)) + 8 * unat (ri_drv_info_size (rp_info out)) \<and>
        unat (ri_shift (rp_info out)) < 4 \<and> unat (ri_drv_info_size (rp_info out)) < 8 \<and>
        rp_length out = unat (ri_pkt_size (rp_info out)) \<and> 0 < rp_length out \<and> rp_length out < 16384 \<and>
        \<not> ri_icv_err (rp_info out) \<and> \<not> ri_crc32_err (rp_info out) \<and>
        (\<forall>data'. take (rp_offset out) data' = take (rp_offset out) data \<longrightarrow> rp_offset out \<le> length data' \<longrightarrow>
           decodeRxHeader (Some data') off = Some (st, out))
      else out = RxPacket0"
    using decodeRxHeader_spec [of data off] by blast
  show ?thesis using s unfolding decodeRx_def h by (auto split: if_splits)
qed

end
