(* ===== verification/DmaRing.thy ===== *)
theory DmaRing
  imports Prelude "HOL-Library.Multiset"
begin

text \<open>Ring buffers and ownership ledgers, shared by the data and the firmware transmit queues: the
  window of a ring as a list, and the contract of a ledger that takes buffers in and gives
  them back.\<close>

section \<open>The window of a ring\<close>

text \<open>The \<open>k\<close> entries of a ring of \<open>n\<close> slots that start at index \<open>start\<close>.\<close>

definition window :: "nat \<Rightarrow> 'a list \<Rightarrow> nat \<Rightarrow> nat \<Rightarrow> 'a list" where
  "window n xs start k = map (\<lambda>i. xs ! ((start + i) mod n)) [0..<k]"

lemma length_window [simp]: "length (window n xs start k) = k"
  by (simp add: window_def)

lemma window_0 [simp]: "window n xs start 0 = []"
  by (simp add: window_def)

lemma ring_index_inj:
  assumes "i < n" and "j < n" and "(start + i) mod n = (start + j) mod n"
  shows "i = (j :: nat)"
proof -
  have "int (start + i) mod int n = int (start + j) mod int n"
    using assms(3) by (metis zmod_int)
  then have d: "int n dvd int i - int j" "int n dvd int j - int i"
    by (simp_all add: mod_eq_dvd_iff dvd_diff_commute)
  show ?thesis
    using zdvd_imp_le [OF d(1)] zdvd_imp_le [OF d(2)] assms(1,2) by linarith
qed

lemma window_push:
  assumes "length xs = n" and "k < n"
  shows "window n (xs[(start + k) mod n := v]) start (Suc k) = window n xs start k @ [v]"
proof (rule nth_equalityI)
  show "length (window n (xs[(start + k) mod n := v]) start (Suc k)) = length (window n xs start k @ [v])"
    by simp
next
  fix i assume "i < length (window n (xs[(start + k) mod n := v]) start (Suc k))"
  then have i: "i \<le> k" by simp
  have m: "(start + k) mod n < n" using assms(2) by simp
  show "window n (xs[(start + k) mod n := v]) start (Suc k) ! i = (window n xs start k @ [v]) ! i"
  proof (cases "i = k")
    case True
    then show ?thesis using assms m by (simp add: window_def nth_append del: upt_Suc)
  next
    case False
    then have "(start + i) mod n \<noteq> (start + k) mod n" using ring_index_inj [of i n k] i assms(2) by auto
    then show ?thesis using False i by (simp add: window_def nth_append del: upt_Suc)
  qed
qed

lemma window_pop:
  assumes "0 < k" and "start < n"
  shows "window n xs start k = xs ! start # window n xs ((start + 1) mod n) (k - 1)"
proof -
  obtain j where k: "k = Suc j" using assms(1) by (cases k) auto
  have "[0..<Suc j] = 0 # map Suc [0..<j]" by (simp add: map_Suc_upt upt_conv_Cons)
  then show ?thesis using assms(2)
    by (simp add: window_def k mod_add_left_eq del: upt_Suc)
qed

section \<open>Ledgers\<close>

text \<open>A run of a ledger: operations one after the other, with the buffers they took in and gave
  back.\<close>

inductive ledger_run ::
  "('s \<Rightarrow> 'c multiset \<Rightarrow> 'c multiset \<Rightarrow> 's \<Rightarrow> bool) \<Rightarrow> 's \<Rightarrow> 'c multiset \<Rightarrow> 'c multiset \<Rightarrow> 's \<Rightarrow> bool"
  for step where
  ledger_run_empty: "ledger_run step s {#} {#} s"
| ledger_run_step: "ledger_run step s taken given t \<Longrightarrow> step t taken' given' u \<Longrightarrow>
    ledger_run step s (taken + taken') (given + given') u"

text \<open>The contract: every operation keeps the invariant and neither loses nor duplicates a buffer.\<close>

locale ledger =
  fixes inv :: "'s \<Rightarrow> bool"
    and held :: "'s \<Rightarrow> 'c multiset"
    and step :: "'s \<Rightarrow> 'c multiset \<Rightarrow> 'c multiset \<Rightarrow> 's \<Rightarrow> bool"
  assumes step_inv: "inv s \<Longrightarrow> step s taken given t \<Longrightarrow> inv t"
    and step_balance: "inv s \<Longrightarrow> step s taken given t \<Longrightarrow> held t + given = held s + taken"
begin

lemma run_inv:
  assumes "ledger_run step s taken given t" and "inv s"
  shows "inv t"
  using assms by induction (auto intro: step_inv)

lemma run_balance:
  assumes "ledger_run step s taken given t" and "inv s"
  shows "held t + given = held s + taken"
  using assms
proof induction
  case (ledger_run_step s taken given t taken' given' u)
  then have "held u + given' = held t + taken'" using step_balance run_inv by blast
  then show ?case using ledger_run_step by (simp add: ac_simps) (metis union_assoc union_commute)
qed simp

lemma conserve:
  "ledger_run step s taken given t \<Longrightarrow> inv s \<Longrightarrow> held s = {#} \<Longrightarrow> taken = given + held t"
  using run_balance [of s taken given t] by (simp add: ac_simps)

end

text \<open>Replacing one slot of a table changes the buffers it holds by exactly that slot.\<close>

definition held_in :: "('a \<Rightarrow> bool) \<Rightarrow> ('a \<Rightarrow> 'c) \<Rightarrow> 'a list \<Rightarrow> 'c multiset" where
  "held_in used cookie xs = image_mset cookie (filter_mset used (mset xs))"

lemma held_in_update:
  assumes "i < length xs"
  shows "held_in used cookie (xs[i := v]) + (if used (xs ! i) then {#cookie (xs ! i)#} else {#}) =
    held_in used cookie xs + (if used v then {#cookie v#} else {#})"
proof -
  have "mset xs = mset (take i xs) + mset (drop (Suc i) xs) + {#xs ! i#}"
    by (subst id_take_nth_drop [OF assms]) simp
  moreover have "mset (xs[i := v]) = mset (take i xs) + mset (drop (Suc i) xs) + {#v#}"
    by (simp add: upd_conv_take_nth_drop [OF assms])
  ultimately show ?thesis by (simp add: held_in_def)
qed

lemma held_in_none: "(\<And>x. x \<in> set xs \<Longrightarrow> \<not> used x) \<Longrightarrow> held_in used cookie xs = {#}"
  by (simp add: held_in_def filter_mset_eq_conv)

end
