(* ===== verification/PciDataPath.thy ===== *)
theory PciDataPath
  imports Descriptors DmaRing
begin

text \<open>The PCI data path of \<open>src/network/PciDataPath.hpp\<close>: the wire formats of transmit pages,
  buffer descriptors and release reports, and the ledger \<open>TxOwnership\<close> that decides when a
  transmit page may be used again.\<close>

section \<open>Wire formats\<close>

definition bytes_of16 :: "u16 \<Rightarrow> bytes" where
  "bytes_of16 v = [ucast v, ucast (drop_bit 8 v)]"

definition store16 :: "bytes \<Rightarrow> nat \<Rightarrow> u16 \<Rightarrow> bytes option" where
  "store16 p off v = wr p off (bytes_of16 v)"

definition store32 :: "bytes \<Rightarrow> nat \<Rightarrow> u32 \<Rightarrow> bytes option" where
  "store32 p off v = do {
     p \<leftarrow> store16 p off (ucast v);
     store16 p (off + 2) (ucast (drop_bit 16 v)) }"

definition dma32Range :: "u64 \<Rightarrow> nat \<Rightarrow> bool" where
  "dma32Range address len \<longleftrightarrow>
     len \<noteq> 0 \<and> address \<le> 0xffffffff \<and> len - 1 \<le> 0xffffffff - unat address"

lemma dma32Range_code [code]:
  "dma32Range address len \<longleftrightarrow> len \<noteq> 0 \<and> address \<le> 0xffffffff \<and> int len - 1 \<le> 0xffffffff - uint address"
proof (cases "address \<le> 0xffffffff")
  case True
  then have h: "unat address \<le> 0xffffffff" by (simp add: word_le_nat_alt)
  have "(len - 1 \<le> 0xffffffff - unat address) = (int len - 1 \<le> 0xffffffff - int (unat address))"
    if "len \<noteq> 0" using that h by linarith
  then show ?thesis unfolding dma32Range_def uint_nat by blast
next
  case False
  then show ?thesis unfolding dma32Range_def by blast
qed

definition dataChannel :: "u8 \<Rightarrow> int" where
  "dataChannel qsel = (if qsel = 0 then 0 else if qsel = 1 then 1 else if qsel = 2 then 2
     else if qsel = 3 then 3 else if qsel = 0x12 then 8 else if qsel = 0x11 then 9 else - 1)"

record TxWire =
  wi_wd :: bytes
  wi_bd :: bytes
  wi_wdBytes :: nat

definition TxWire0 :: TxWire where
  "TxWire0 = \<lparr>wi_wd = replicate 64 0, wi_bd = replicate 8 0, wi_wdBytes = 0\<rparr>"

definition encodePciTx :: "TxInfo \<Rightarrow> u16 \<Rightarrow> u64 \<Rightarrow> u64 \<Rightarrow> (DescriptorStatus \<times> TxWire) option" where
  "encodePciTx info page wdDma frameDma =
     (if 0x7fff < page \<or> dataChannel (ti_qsel info) < 0 \<or> uint (ti_ch_dma info) \<noteq> dataChannel (ti_qsel info)
      then Some (DS_unrepresentable, TxWire0)
      else let wdBytes = (if ti_en_wd_info info then 48 else 24) + 16 in
        if \<not> dma32Range wdDma wdBytes \<or> \<not> dma32Range frameDma (unat (ti_pkt_size info))
        then Some (DS_invalidLength, TxWire0)
        else do {
          let info = info\<lparr>ti_addr_info_nr := 1\<rparr>;
          (status, body, wd) \<leftarrow> encodeTx info (Some (wi_wd TxWire0));
          if status \<noteq> DS_ok then Some (status, TxWire0)
          else do {
            wd \<leftarrow> wd;
            wd \<leftarrow> store16 wd body (page OR 0x8000);
            wd \<leftarrow> store16 wd (body + 8) (ti_pkt_size info);
            wd \<leftarrow> store16 wd (body + 10) 0x8001;
            wd \<leftarrow> store32 wd (body + 12) (ucast frameDma);
            bd \<leftarrow> store16 (wi_bd TxWire0) 0 (of_nat wdBytes);
            bd \<leftarrow> store16 bd 2 0x4000;
            bd \<leftarrow> store32 bd 4 (ucast wdDma);
            Some (DS_ok, \<lparr>wi_wd = wd, wi_bd = bd, wi_wdBytes = wdBytes\<rparr>) } })"

definition encodeRxBd :: "u64 \<Rightarrow> nat \<Rightarrow> bytes \<Rightarrow> (bool \<times> bytes) option" where
  "encodeRxBd address bytes out =
     (if bytes < 20 \<or> 0x3fff < bytes \<or> \<not> dma32Range address bytes then Some (False, out)
      else do {
        out \<leftarrow> store16 out 0 (of_nat bytes);
        out \<leftarrow> store16 out 2 0;
        out \<leftarrow> store32 out 4 (ucast address);
        Some (True, out) })"

record ReleaseReport =
  rr_page :: u16
  rr_qsel :: u8
  rr_macid :: u8
  rr_status :: u8
  rr_polluted :: bool

definition ReleaseReport0 :: ReleaseReport where
  "ReleaseReport0 = \<lparr>rr_page = 0, rr_qsel = 0, rr_macid = 0, rr_status = 0, rr_polluted = False\<rparr>"

definition decodeRelease :: "bytes option \<Rightarrow> (bool \<times> ReleaseReport) option" where
  "decodeRelease source = (case source of None \<Rightarrow> Some (False, ReleaseReport0) | Some data \<Rightarrow>
     if length data < 4 then Some (False, ReleaseReport0)
     else do {
       w \<leftarrow> little32 data 0;
       let r = \<lparr>rr_page = ucast (drop_bit 16 w AND 0x7fff), rr_qsel = ucast (drop_bit 8 w AND 31),
                rr_macid = ucast w, rr_status = ucast (drop_bit 13 w AND 7),
                rr_polluted = (drop_bit 31 w \<noteq> 0)\<rparr>;
       if dataChannel (rr_qsel r) < 0 \<or> 3 < rr_status r then Some (False, ReleaseReport0)
       else Some (True, r) })"

section \<open>The transmit ownership ledger\<close>

datatype QueueStatus = QS_ok | QS_full | QS_invalid | QS_duplicate | QS_notReady

record 'c Slot =
  sl_used :: bool
  sl_consumed :: bool
  sl_reported :: bool
  sl_qsel :: u8
  sl_macid :: u8
  sl_status :: u8
  sl_cookie :: "'c option"

definition Slot0 :: "'c Slot" where
  "Slot0 = \<lparr>sl_used = False, sl_consumed = False, sl_reported = False, sl_qsel = 0, sl_macid = 0,
     sl_status = 0, sl_cookie = None\<rparr>"

text \<open>The members; \<open>Count\<close> is the parameter \<open>n\<close> of the operations. Page numbers and ring indices are
  below \<open>Count <= 0x8000\<close>, so the \<open>uint16_t\<close> casts (\<open>cast16\<close>) keep them.\<close>

record 'c TxOwnership =
  tx_pages :: "'c Slot list"
  tx_ring :: "nat list"
  tx_producer :: nat
  tx_consumer :: nat
  tx_pendingBd :: nat
  tx_outstanding :: nat
  tx_nextPage :: nat
  tx_polluted :: "bool list"

definition TxOwnership0 :: "nat \<Rightarrow> 'c TxOwnership" where
  "TxOwnership0 n = \<lparr>tx_pages = replicate n Slot0, tx_ring = replicate n 0, tx_producer = 0,
     tx_consumer = 0, tx_pendingBd = 0, tx_outstanding = 0, tx_nextPage = 0,
     tx_polluted = replicate n False\<rparr>"

record Ticket =
  tk_page :: nat
  tk_bd :: nat
  tk_nextProducer :: nat

definition Ticket0 :: Ticket where
  "Ticket0 = \<lparr>tk_page = 0, tk_bd = 0, tk_nextProducer = 0\<rparr>"

record 'c Completion =
  cp_cookie :: "'c option"
  cp_status :: u8
  cp_polluted :: bool

definition Completion0 :: "'c Completion" where
  "Completion0 = \<lparr>cp_cookie = None, cp_status = 0, cp_polluted = False\<rparr>"

text \<open>The search of \<open>peek\<close>, over the page numbers still to be tried.\<close>

fun find_free :: "'c Slot list \<Rightarrow> nat list \<Rightarrow> nat option" where
  "find_free pages [] = None"
| "find_free pages (p # ps) = (if \<not> sl_used (pages ! p) then Some p else find_free pages ps)"

definition peek :: "nat \<Rightarrow> 'c TxOwnership \<Rightarrow> QueueStatus \<times> Ticket" where
  "peek n t = (if tx_pendingBd t = n - 1 \<or> tx_outstanding t = n then (QS_full, Ticket0)
     else case find_free (tx_pages t) (map (\<lambda>i. (tx_nextPage t + i) mod n) [0..<n]) of
       None \<Rightarrow> (QS_full, Ticket0)
     | Some p \<Rightarrow> (QS_ok, \<lparr>tk_page = cast16 p, tk_bd = cast16 (tx_producer t),
         tk_nextProducer = cast16 ((tx_producer t + 1) mod n)\<rparr>))"

definition commit :: "nat \<Rightarrow> Ticket \<Rightarrow> u8 \<Rightarrow> u8 \<Rightarrow> 'c option \<Rightarrow> 'c TxOwnership \<Rightarrow> QueueStatus \<times> 'c TxOwnership" where
  "commit n ticket qsel macid cookie t = (let (status, current) = peek n t in
     if cookie = None \<or> dataChannel qsel < 0 \<or> status \<noteq> QS_ok \<or> tk_page ticket \<noteq> tk_page current \<or>
        tk_bd ticket \<noteq> tk_bd current \<or> tk_nextProducer ticket \<noteq> tk_nextProducer current
     then (QS_invalid, t)
     else (QS_ok, t\<lparr>
       tx_pages := (tx_pages t)[tk_page ticket := \<lparr>sl_used = True, sl_consumed = False,
         sl_reported = False, sl_qsel = qsel, sl_macid = macid, sl_status = 0, sl_cookie = cookie\<rparr>],
       tx_polluted := (tx_polluted t)[tk_page ticket := False],
       tx_ring := (tx_ring t)[tx_producer t := tk_page ticket],
       tx_producer := tk_nextProducer ticket,
       tx_pendingBd := tx_pendingBd t + 1,
       tx_outstanding := tx_outstanding t + 1,
       tx_nextPage := (tk_page ticket + 1) mod n\<rparr>))"

definition consume_one :: "nat \<Rightarrow> 'c TxOwnership \<Rightarrow> 'c TxOwnership" where
  "consume_one n t = (let p = tx_ring t ! tx_consumer t in
     t\<lparr>tx_pages := (tx_pages t)[p := (tx_pages t ! p)\<lparr>sl_consumed := True\<rparr>],
       tx_consumer := (tx_consumer t + 1) mod n\<rparr>)"

fun consume_loop :: "nat \<Rightarrow> nat \<Rightarrow> 'c TxOwnership \<Rightarrow> 'c TxOwnership" where
  "consume_loop n 0 t = t"
| "consume_loop n (Suc k) t = consume_loop n k (consume_one n t)"

definition consumedTo :: "nat \<Rightarrow> nat \<Rightarrow> 'c TxOwnership \<Rightarrow> QueueStatus \<times> 'c TxOwnership" where
  "consumedTo n hardwareConsumer t = (if n \<le> hardwareConsumer then (QS_invalid, t)
     else let advance = (hardwareConsumer + n - tx_consumer t) mod n in
       if tx_pendingBd t < advance then (QS_invalid, t)
       else let t = consume_loop n advance t in
         (QS_ok, t\<lparr>tx_pendingBd := tx_pendingBd t - advance\<rparr>))"

definition report :: "nat \<Rightarrow> ReleaseReport \<Rightarrow> 'c TxOwnership \<Rightarrow> QueueStatus \<times> 'c TxOwnership" where
  "report n r t = (let page = unat (rr_page r) in
     if n \<le> page \<or> 3 < rr_status r then (QS_invalid, t)
     else let p = tx_pages t ! page in
       if \<not> sl_used p \<or> sl_qsel p \<noteq> rr_qsel r \<or> sl_macid p \<noteq> rr_macid r then (QS_invalid, t)
       else if sl_reported p then (QS_duplicate, t)
       else (QS_ok, t\<lparr>
         tx_pages := (tx_pages t)[page := p\<lparr>sl_reported := True, sl_status := rr_status r\<rparr>],
         tx_polluted := (tx_polluted t)[page := rr_polluted r]\<rparr>))"

definition take_page :: "nat \<Rightarrow> nat \<Rightarrow> 'c TxOwnership \<Rightarrow> QueueStatus \<times> 'c Completion \<times> 'c TxOwnership" where
  "take_page n page t = (if n \<le> page then (QS_invalid, Completion0, t)
     else let p = tx_pages t ! page in
       if \<not> sl_used p \<or> \<not> sl_consumed p \<or> \<not> sl_reported p then (QS_notReady, Completion0, t)
       else (QS_ok, \<lparr>cp_cookie = sl_cookie p, cp_status = sl_status p, cp_polluted = tx_polluted t ! page\<rparr>,
         t\<lparr>tx_pages := (tx_pages t)[page := Slot0], tx_polluted := (tx_polluted t)[page := False],
           tx_outstanding := tx_outstanding t - 1\<rparr>))"

text \<open>The cookies given to the release callback, in the order of the pages, and the cleared ledger.\<close>

definition reclaimAfterDmaStopped :: "nat \<Rightarrow> 'c TxOwnership \<Rightarrow> 'c option list \<times> 'c TxOwnership" where
  "reclaimAfterDmaStopped n t = (map sl_cookie (filter sl_used (tx_pages t)),
     t\<lparr>tx_pages := map (\<lambda>_. Slot0) (tx_pages t), tx_polluted := map (\<lambda>_. False) (tx_polluted t),
       tx_producer := 0, tx_consumer := 0, tx_pendingBd := 0, tx_outstanding := 0, tx_nextPage := 0\<rparr>)"

section \<open>The invariant of the ledger\<close>

text \<open>The pages whose buffer descriptors the hardware has not consumed, oldest first.\<close>

definition pending :: "nat \<Rightarrow> 'c TxOwnership \<Rightarrow> nat list" where
  "pending n t = window n (tx_ring t) (tx_consumer t) (tx_pendingBd t)"

definition tx_shape :: "nat \<Rightarrow> 'c TxOwnership \<Rightarrow> bool" where
  "tx_shape n t \<longleftrightarrow> 2 \<le> n \<and> n \<le> 0x8000 \<and> length (tx_pages t) = n \<and> length (tx_ring t) = n \<and>
     length (tx_polluted t) = n \<and> tx_consumer t < n \<and> tx_nextPage t < n \<and> tx_pendingBd t < n \<and>
     tx_producer t = (tx_consumer t + tx_pendingBd t) mod n"

definition slot_ok :: "'c Slot \<Rightarrow> bool \<Rightarrow> bool" where
  "slot_ok s pol \<longleftrightarrow> (if sl_used s then sl_cookie s \<noteq> None \<and> 0 \<le> dataChannel (sl_qsel s) \<and> (pol \<longrightarrow> sl_reported s)
     else s = Slot0 \<and> \<not> pol)"

definition tx_inv :: "nat \<Rightarrow> 'c TxOwnership \<Rightarrow> bool" where
  "tx_inv n t \<longleftrightarrow> tx_shape n t \<and>
     tx_outstanding t = length (filter sl_used (tx_pages t)) \<and>
     distinct (pending n t) \<and>
     set (pending n t) = {p. p < n \<and> sl_used (tx_pages t ! p) \<and> \<not> sl_consumed (tx_pages t ! p)} \<and>
     (\<forall>p<n. slot_ok (tx_pages t ! p) (tx_polluted t ! p))"

lemma tx_inv_init: "2 \<le> n \<Longrightarrow> n \<le> 0x8000 \<Longrightarrow> tx_inv n (TxOwnership0 n)"
  by (auto simp: tx_inv_def tx_shape_def TxOwnership0_def pending_def Slot0_def slot_ok_def)

lemma filter_used_update:
  assumes "i < length xs"
  shows "length (filter P (xs[i := v])) + (if P (xs ! i) then 1 else 0) =
    length (filter P xs) + (if P v then 1 else 0)"
proof -
  have "length (filter P xs) = length (filter P (take i xs @ xs ! i # drop (Suc i) xs))"
    using id_take_nth_drop [OF assms] by simp
  then show ?thesis by (simp add: upd_conv_take_nth_drop [OF assms])
qed

section \<open>Leases: the abstract ledger\<close>

text \<open>What the ledger promises about a page: nobody holds it, or one buffer does, until the hardware
  has both consumed its descriptor and reported its release.\<close>

record 'c lease =
  ls_cookie :: "'c option"
  ls_qsel :: u8
  ls_macid :: u8
  ls_consumed :: bool
  ls_report :: "(u8 \<times> bool) option"

definition lease_of :: "'c Slot \<Rightarrow> bool \<Rightarrow> 'c lease" where
  "lease_of s pol = \<lparr>ls_cookie = sl_cookie s, ls_qsel = sl_qsel s, ls_macid = sl_macid s,
     ls_consumed = sl_consumed s, ls_report = (if sl_reported s then Some (sl_status s, pol) else None)\<rparr>"

definition leases :: "nat \<Rightarrow> 'c TxOwnership \<Rightarrow> nat \<rightharpoonup> 'c lease" where
  "leases n t p = (if p < n \<and> sl_used (tx_pages t ! p)
     then Some (lease_of (tx_pages t ! p) (tx_polluted t ! p)) else None)"

datatype 'c tx_event =
    EvCommit nat 'c u8 u8
  | EvConsumed nat
  | EvReport nat u8 bool
  | EvTake nat 'c u8 bool
  | EvReclaim "'c list"

fun apply_ev :: "(nat \<rightharpoonup> 'c lease) \<Rightarrow> 'c tx_event \<Rightarrow> (nat \<rightharpoonup> 'c lease)" where
  "apply_ev L (EvCommit p c q m) =
     L(p \<mapsto> \<lparr>ls_cookie = Some c, ls_qsel = q, ls_macid = m, ls_consumed = False, ls_report = None\<rparr>)"
| "apply_ev L (EvConsumed p) = L(p := map_option (ls_consumed_update (\<lambda>_. True)) (L p))"
| "apply_ev L (EvReport p s pol) = L(p := map_option (ls_report_update (\<lambda>_. Some (s, pol))) (L p))"
| "apply_ev L (EvTake p c s pol) = L(p := None)"
| "apply_ev L (EvReclaim cs) = Map.empty"

text \<open>The operations as one type, each with the events it causes.\<close>

datatype 'c tx_op =
    OpCommit Ticket u8 u8 "'c option"
  | OpConsumedTo nat
  | OpReport ReleaseReport
  | OpTake nat
  | OpReclaim

fun tx_exec :: "nat \<Rightarrow> 'c tx_op \<Rightarrow> 'c TxOwnership \<Rightarrow> 'c tx_event list \<times> 'c TxOwnership" where
  "tx_exec n (OpCommit tk q m c) t = (let (st, t') = commit n tk q m c t in
     (if st = QS_ok then [EvCommit (tk_page tk) (the c) q m] else [], t'))"
| "tx_exec n (OpConsumedTo h) t = (let (st, t') = consumedTo n h t in
     (map EvConsumed (take (tx_pendingBd t - tx_pendingBd t') (pending n t)), t'))"
| "tx_exec n (OpReport r) t = (let (st, t') = report n r t in
     (if st = QS_ok then [EvReport (unat (rr_page r)) (rr_status r) (rr_polluted r)] else [], t'))"
| "tx_exec n (OpTake p) t = (let (st, cp, t') = take_page n p t in
     (if st = QS_ok then [EvTake p (the (cp_cookie cp)) (cp_status cp) (cp_polluted cp)] else [], t'))"
| "tx_exec n OpReclaim t = (let (cs, t') = reclaimAfterDmaStopped n t in ([EvReclaim (map the cs)], t'))"

section \<open>Each operation keeps the invariant and acts on the leases\<close>

lemma find_free_Some: "find_free pages ps = Some p \<Longrightarrow> p \<in> set ps \<and> \<not> sl_used (pages ! p)"
  by (induction ps) (auto split: if_splits)

lemma find_free_None: "find_free pages ps = None \<Longrightarrow> p \<in> set ps \<Longrightarrow> sl_used (pages ! p)"
  by (induction ps) (auto split: if_splits)

lemma peek_ok:
  assumes "tx_shape n t" and "peek n t = (QS_ok, tk)"
  shows "tk_page tk < n" and "\<not> sl_used (tx_pages t ! tk_page tk)" and "tk_bd tk = tx_producer t"
    and "tk_nextProducer tk = (tx_producer t + 1) mod n" and "tx_pendingBd t < n - 1"
    and "tx_outstanding t \<noteq> n"
proof -
  from assms(2) obtain p where ff: "find_free (tx_pages t) (map (\<lambda>i. (tx_nextPage t + i) mod n) [0..<n]) = Some p"
    and tk: "tk = \<lparr>tk_page = cast16 p, tk_bd = cast16 (tx_producer t),
      tk_nextProducer = cast16 ((tx_producer t + 1) mod n)\<rparr>"
    and room: "tx_pendingBd t \<noteq> n - 1" "tx_outstanding t \<noteq> n"
    by (auto simp: peek_def split: if_splits option.splits)
  have n: "0 < n" "n \<le> 0x8000" "tx_pendingBd t < n" "tx_producer t < n" using assms(1) by (auto simp: tx_shape_def)
  have p: "p < n" "\<not> sl_used (tx_pages t ! p)" using find_free_Some [OF ff] n by auto
  have "(tx_producer t + 1) mod n < n" using n by simp
  then have "cast16 ((tx_producer t + 1) mod n) = (tx_producer t + 1) mod n" using n by (intro cast16_id) linarith
  then show "tk_page tk < n" "\<not> sl_used (tx_pages t ! tk_page tk)" "tk_bd tk = tx_producer t"
    "tk_nextProducer tk = (tx_producer t + 1) mod n" "tx_pendingBd t < n - 1" "tx_outstanding t \<noteq> n"
    using p n room tk by simp_all
qed

lemma commit_ok:
  assumes "tx_inv n t" and "commit n tk q m c t = (QS_ok, t')"
  obtains k where "c = Some k" and "0 \<le> dataChannel q" and "tk_page tk < n"
    and "\<not> sl_used (tx_pages t ! tk_page tk)" and "tx_pendingBd t < n - 1"
    and "t' = t\<lparr>tx_pages := (tx_pages t)[tk_page tk := \<lparr>sl_used = True, sl_consumed = False,
         sl_reported = False, sl_qsel = q, sl_macid = m, sl_status = 0, sl_cookie = Some k\<rparr>],
       tx_polluted := (tx_polluted t)[tk_page tk := False],
       tx_ring := (tx_ring t)[tx_producer t := tk_page tk],
       tx_producer := (tx_producer t + 1) mod n,
       tx_pendingBd := tx_pendingBd t + 1,
       tx_outstanding := tx_outstanding t + 1,
       tx_nextPage := (tk_page tk + 1) mod n\<rparr>"
proof -
  obtain st cur where pk: "peek n t = (st, cur)" by fastforce
  with assms(2) have ok: "st = QS_ok" "c \<noteq> None" "0 \<le> dataChannel q" "tk_page tk = tk_page cur"
    "tk_nextProducer tk = tk_nextProducer cur"
    by (auto simp: commit_def split: if_splits)
  note pko = peek_ok [of n t cur]
  have "tx_shape n t" using assms(1) by (simp add: tx_inv_def)
  with pk ok assms(2) show ?thesis
    using pko that by (auto simp: commit_def split: if_splits)
qed

lemma window_ring_only: "window n xs start k = window n ys start k"
  if "\<And>i. i < k \<Longrightarrow> xs ! ((start + i) mod n) = ys ! ((start + i) mod n)"
  using that by (simp add: window_def)

lemma commit_step:
  assumes "tx_inv n t" and "commit n tk q m (Some c) t = (QS_ok, t')"
  shows "tx_inv n t'" and "leases n t (tk_page tk) = None"
    and "leases n t' = apply_ev (leases n t) (EvCommit (tk_page tk) c q m)"
    and "pending n t' = pending n t @ [tk_page tk]"
proof -
  from assms obtain page: "tk_page tk < n" "\<not> sl_used (tx_pages t ! tk_page tk)" "tx_pendingBd t < n - 1"
    and q: "0 \<le> dataChannel q"
    and t': "t' = t\<lparr>tx_pages := (tx_pages t)[tk_page tk := \<lparr>sl_used = True, sl_consumed = False,
         sl_reported = False, sl_qsel = q, sl_macid = m, sl_status = 0, sl_cookie = Some c\<rparr>],
       tx_polluted := (tx_polluted t)[tk_page tk := False],
       tx_ring := (tx_ring t)[tx_producer t := tk_page tk],
       tx_producer := (tx_producer t + 1) mod n,
       tx_pendingBd := tx_pendingBd t + 1,
       tx_outstanding := tx_outstanding t + 1,
       tx_nextPage := (tk_page tk + 1) mod n\<rparr>"
    by (elim commit_ok) auto
  have sh: "tx_shape n t" using assms(1) by (simp add: tx_inv_def)
  then have lens: "length (tx_pages t) = n" "length (tx_ring t) = n" "length (tx_polluted t) = n"
    "tx_producer t = (tx_consumer t + tx_pendingBd t) mod n" "tx_pendingBd t < n"
    by (simp_all add: tx_shape_def)
  show pend: "pending n t' = pending n t @ [tk_page tk]"
    using lens page window_push [OF lens(2,5)] by (simp add: pending_def t')
  have "tk_page tk \<notin> set (pending n t)" using assms(1) page(2) by (simp add: tx_inv_def)
  moreover have "tx_outstanding t' = length (filter sl_used (tx_pages t'))"
    using filter_used_update [of "tk_page tk" "tx_pages t" sl_used] assms(1) page lens
    by (simp add: t' tx_inv_def)
  moreover have "tx_shape n t'"
    using sh page by (simp add: tx_shape_def t' mod_Suc_eq)
  ultimately show "tx_inv n t'"
    using assms(1) page q lens unfolding tx_inv_def pend
    by (auto simp: t' nth_list_update slot_ok_def)
  show "leases n t (tk_page tk) = None" using page by (simp add: leases_def)
  show "leases n t' = apply_ev (leases n t) (EvCommit (tk_page tk) c q m)"
    using page lens by (auto simp: leases_def lease_of_def t' nth_list_update)
qed

text \<open>One turn of the consumption loop, with the pending count kept in step.\<close>

definition consume1 :: "nat \<Rightarrow> 'c TxOwnership \<Rightarrow> 'c TxOwnership" where
  "consume1 n t = consume_one n (t\<lparr>tx_pendingBd := tx_pendingBd t - 1\<rparr>)"

lemma consume1_step:
  assumes "tx_inv n t" and "0 < tx_pendingBd t"
  shows "tx_inv n (consume1 n t)" and "pending n t = hd (pending n t) # pending n (consume1 n t)"
    and "leases n (consume1 n t) = apply_ev (leases n t) (EvConsumed (hd (pending n t)))"
proof -
  let ?p = "tx_ring t ! tx_consumer t"
  have sh: "tx_shape n t" using assms(1) by (simp add: tx_inv_def)
  then have lens: "length (tx_pages t) = n" "length (tx_ring t) = n" "length (tx_polluted t) = n"
    "tx_consumer t < n" by (simp_all add: tx_shape_def)
  have c: "consume1 n t = t\<lparr>tx_pendingBd := tx_pendingBd t - 1,
      tx_pages := (tx_pages t)[?p := (tx_pages t ! ?p)\<lparr>sl_consumed := True\<rparr>],
      tx_consumer := (tx_consumer t + 1) mod n\<rparr>"
    by (simp add: consume1_def consume_one_def Let_def)
  have pop: "pending n t = ?p # pending n (consume1 n t)"
    using window_pop [OF assms(2) lens(4), of "tx_ring t"] by (simp add: pending_def c)
  then show "pending n t = hd (pending n t) # pending n (consume1 n t)" by simp
  have in_pend: "set (pending n t) = {p. p < n \<and> sl_used (tx_pages t ! p) \<and> \<not> sl_consumed (tx_pages t ! p)}"
    and dist: "distinct (pending n t)" using assms(1) by (simp_all add: tx_inv_def)
  then have p: "?p < n" "sl_used (tx_pages t ! ?p)" "?p \<notin> set (pending n (consume1 n t))"
    using pop by (auto dest: arg_cong [where f = set])
  have "(tx_consumer t + tx_pendingBd t) mod n = ((tx_consumer t + 1) mod n + (tx_pendingBd t - 1)) mod n"
    using assms(2) by (cases "tx_pendingBd t") (simp_all add: mod_add_left_eq)
  then have "tx_shape n (consume1 n t)" using sh assms(2) by (auto simp: tx_shape_def c)
  moreover have "set (pending n (consume1 n t)) = set (pending n t) - {?p}"
    using pop dist by (metis distinct.simps(2) list.simps(15) Diff_insert_absorb)
  moreover have "distinct (pending n (consume1 n t))" using pop dist by (metis distinct.simps(2))
  moreover have "length (filter sl_used (tx_pages (consume1 n t))) = length (filter sl_used (tx_pages t))"
    using filter_used_update [of ?p "tx_pages t" sl_used "(tx_pages t ! ?p)\<lparr>sl_consumed := True\<rparr>"] p lens
    by (simp add: c)
  ultimately show "tx_inv n (consume1 n t)"
    using assms(1) p lens unfolding tx_inv_def by (auto simp: c nth_list_update slot_ok_def)
  show "leases n (consume1 n t) = apply_ev (leases n t) (EvConsumed (hd (pending n t)))"
    using p lens unfolding pop list.sel(1) by (auto simp: leases_def lease_of_def c nth_list_update)
qed

lemma consume1_loop:
  assumes "tx_inv n t" and "k \<le> tx_pendingBd t"
  shows "tx_inv n ((consume1 n ^^ k) t) \<and> pending n ((consume1 n ^^ k) t) = drop k (pending n t) \<and>
    leases n ((consume1 n ^^ k) t) = foldl apply_ev (leases n t) (map EvConsumed (take k (pending n t)))"
  using assms
proof (induction k)
  case (Suc k)
  let ?u = "(consume1 n ^^ k) t"
  have u: "tx_inv n ?u" "pending n ?u = drop k (pending n t)"
    "leases n ?u = foldl apply_ev (leases n t) (map EvConsumed (take k (pending n t)))"
    using Suc.IH Suc.prems by simp_all
  have len: "length (pending n t) = tx_pendingBd t" "length (pending n ?u) = tx_pendingBd ?u"
    by (simp_all add: pending_def)
  then have pos: "0 < tx_pendingBd ?u" and kl: "k < length (pending n t)" using Suc.prems(2) u(2) by simp_all
  note s = consume1_step [OF u(1) pos]
  have h: "hd (pending n ?u) = pending n t ! k" using u(2) kl by (simp add: hd_drop_conv_nth)
  have "tx_inv n ((consume1 n ^^ Suc k) t)" using s(1) by simp
  moreover have "pending n ((consume1 n ^^ Suc k) t) = drop (Suc k) (pending n t)"
    using s(2) u(2) by (metis comp_apply drop_Suc funpow.simps(2) list.sel(3) tl_drop)
  moreover have "leases n ((consume1 n ^^ Suc k) t) =
      foldl apply_ev (leases n t) (map EvConsumed (take (Suc k) (pending n t)))"
    using s(3) u(3) h kl by (simp add: take_Suc_conv_app_nth)
  ultimately show ?case by blast
qed simp

lemma consume_one_pending: "consume_one n (t\<lparr>tx_pendingBd := k\<rparr>) = (consume_one n t)\<lparr>tx_pendingBd := k\<rparr>"
  by (simp add: consume_one_def Let_def)

lemma consume_loop_eq:
  "(consume_loop n k t)\<lparr>tx_pendingBd := tx_pendingBd t - k\<rparr> = (consume1 n ^^ k) t"
proof (induction k arbitrary: t)
  case (Suc k)
  have p: "tx_pendingBd (consume_one n t) = tx_pendingBd t" by (simp add: consume_one_def Let_def)
  have l: "consume_loop n k (u\<lparr>tx_pendingBd := j\<rparr>) = (consume_loop n k u)\<lparr>tx_pendingBd := j\<rparr>" for u :: "'a TxOwnership" and j
    by (induction k arbitrary: u) (simp_all add: consume_one_pending)
  have c: "consume1 n t = (consume_one n t)\<lparr>tx_pendingBd := tx_pendingBd t - 1\<rparr>"
    by (simp add: consume1_def consume_one_pending)
  have "(consume1 n ^^ Suc k) t = (consume1 n ^^ k) (consume1 n t)" by (simp add: funpow_swap1)
  also have "\<dots> = (consume_loop n k (consume1 n t))\<lparr>tx_pendingBd := tx_pendingBd (consume1 n t) - k\<rparr>"
    using Suc [of "consume1 n t"] by simp
  also have "\<dots> = (consume_loop n (Suc k) t)\<lparr>tx_pendingBd := tx_pendingBd t - Suc k\<rparr>"
    by (simp add: c l)
  finally show ?case by simp
qed simp

lemma consume_loop_pending: "tx_pendingBd (consume_loop n k t) = tx_pendingBd t"
  by (induction k arbitrary: t) (simp_all add: consume_one_def Let_def)

lemma consumedTo_step:
  assumes "tx_inv n t" and "consumedTo n h t = (st, t')"
  shows "tx_inv n t'" and "pending n t' = drop (tx_pendingBd t - tx_pendingBd t') (pending n t)"
    and "leases n t' = foldl apply_ev (leases n t)
      (map EvConsumed (take (tx_pendingBd t - tx_pendingBd t') (pending n t)))"
proof -
  let ?a = "(h + n - tx_consumer t) mod n"
  have "tx_inv n t' \<and> pending n t' = drop (tx_pendingBd t - tx_pendingBd t') (pending n t) \<and>
    leases n t' = foldl apply_ev (leases n t)
      (map EvConsumed (take (tx_pendingBd t - tx_pendingBd t') (pending n t)))"
  proof (cases "n \<le> h \<or> tx_pendingBd t < ?a")
    case True
    then show ?thesis using assms by (auto simp: consumedTo_def split: if_splits)
  next
    case False
    then have "t' = (consume1 n ^^ ?a) t"
      using assms(2) consume_loop_eq [of t ?a n] by (simp add: consumedTo_def consume_loop_pending)
    moreover have "tx_pendingBd ((consume1 n ^^ ?a) t) = tx_pendingBd t - ?a"
      by (simp add: consume_loop_eq [symmetric])
    ultimately show ?thesis using consume1_loop [OF assms(1), of ?a] False by simp
  qed
  then show "tx_inv n t'" "pending n t' = drop (tx_pendingBd t - tx_pendingBd t') (pending n t)"
    "leases n t' = foldl apply_ev (leases n t)
      (map EvConsumed (take (tx_pendingBd t - tx_pendingBd t') (pending n t)))" by blast+
qed

lemma page_update_inv:
  assumes "tx_inv n t" and "p < n" and "slot_ok s pol"
    and "(sl_used s \<and> \<not> sl_consumed s) = (sl_used (tx_pages t ! p) \<and> \<not> sl_consumed (tx_pages t ! p))"
    and "out + (if sl_used (tx_pages t ! p) then 1 else 0) = tx_outstanding t + (if sl_used s then 1 else 0)"
  shows "tx_inv n (t\<lparr>tx_pages := (tx_pages t)[p := s], tx_polluted := (tx_polluted t)[p := pol],
    tx_outstanding := out\<rparr>)"
proof -
  let ?t = "t\<lparr>tx_pages := (tx_pages t)[p := s], tx_polluted := (tx_polluted t)[p := pol],
    tx_outstanding := out\<rparr>"
  have lens: "length (tx_pages t) = n" "length (tx_polluted t) = n"
    using assms(1) by (simp_all add: tx_inv_def tx_shape_def)
  have "pending n ?t = pending n t" by (simp add: pending_def)
  moreover have "tx_shape n ?t" using assms(1) by (simp add: tx_inv_def tx_shape_def)
  moreover have "out = length (filter sl_used ((tx_pages t)[p := s]))"
    using filter_used_update [of p "tx_pages t" sl_used s] assms(1,2,5) lens
    by (auto simp: tx_inv_def split: if_splits)
  moreover have "{q. q < n \<and> sl_used ((tx_pages t)[p := s] ! q) \<and> \<not> sl_consumed ((tx_pages t)[p := s] ! q)} =
      {q. q < n \<and> sl_used (tx_pages t ! q) \<and> \<not> sl_consumed (tx_pages t ! q)}"
    using assms(2,4) lens by (auto simp: nth_list_update)
  ultimately show ?thesis
    using assms(1,2,3) lens unfolding tx_inv_def by (auto simp: nth_list_update)
qed

lemma report_step:
  assumes "tx_inv n t" and "report n r t = (st, t')"
  shows "tx_inv n t'" and "pending n t' = pending n t"
    and "leases n t' = (if st = QS_ok
      then apply_ev (leases n t) (EvReport (unat (rr_page r)) (rr_status r) (rr_polluted r)) else leases n t)"
proof -
  let ?p = "unat (rr_page r)"
  let ?s = "(tx_pages t ! ?p)\<lparr>sl_reported := True, sl_status := rr_status r\<rparr>"
  have lens: "length (tx_pages t) = n" "length (tx_polluted t) = n"
    using assms(1) by (simp_all add: tx_inv_def tx_shape_def)
  have no: "t' = t" if "st \<noteq> QS_ok" using that assms(2) by (auto simp: report_def Let_def split: if_splits)
  have ok: "?p < n" "sl_used (tx_pages t ! ?p)"
    "t' = t\<lparr>tx_pages := (tx_pages t)[?p := ?s], tx_polluted := (tx_polluted t)[?p := rr_polluted r],
       tx_outstanding := tx_outstanding t\<rparr>" if "st = QS_ok"
    using that assms(2) by (auto simp: report_def Let_def split: if_splits)
  have "slot_ok ?s (rr_polluted r)" if "?p < n" "sl_used (tx_pages t ! ?p)"
    using that assms(1) by (auto simp: tx_inv_def slot_ok_def)
  then have "tx_inv n t'" if "st = QS_ok"
    using page_update_inv [OF assms(1), of ?p ?s "rr_polluted r" "tx_outstanding t"] ok that by simp
  then show "tx_inv n t'" using no assms(1) by blast
  show "pending n t' = pending n t" using ok(3) no by (cases "st = QS_ok") (auto simp: pending_def)
  show "leases n t' = (if st = QS_ok
      then apply_ev (leases n t) (EvReport ?p (rr_status r) (rr_polluted r)) else leases n t)"
    using ok no lens by (auto simp: leases_def lease_of_def nth_list_update)
qed

lemma take_page_step:
  assumes "tx_inv n t" and "take_page n p t = (st, cp, t')"
  shows "tx_inv n t'" and "pending n t' = pending n t"
    and "if st = QS_ok
      then \<exists>l c. leases n t p = Some l \<and> ls_consumed l \<and> ls_cookie l = Some c \<and> cp_cookie cp = Some c \<and>
        ls_report l = Some (cp_status cp, cp_polluted cp) \<and>
        leases n t' = apply_ev (leases n t) (EvTake p c (cp_status cp) (cp_polluted cp))
      else t' = t"
proof -
  have lens: "length (tx_pages t) = n" "length (tx_polluted t) = n"
    using assms(1) by (simp_all add: tx_inv_def tx_shape_def)
  let ?s = "tx_pages t ! p"
  have no: "t' = t" if "st \<noteq> QS_ok" using that assms(2) by (auto simp: take_page_def Let_def split: if_splits)
  have ok: "p < n" "sl_used ?s" "sl_consumed ?s" "sl_reported ?s"
    "cp = \<lparr>cp_cookie = sl_cookie ?s, cp_status = sl_status ?s, cp_polluted = tx_polluted t ! p\<rparr>"
    "t' = t\<lparr>tx_pages := (tx_pages t)[p := Slot0], tx_polluted := (tx_polluted t)[p := False],
       tx_outstanding := tx_outstanding t - 1\<rparr>" if "st = QS_ok"
    using that assms(2) by (auto simp: take_page_def Let_def split: if_splits)
  have pos: "0 < tx_outstanding t" if "p < n" "sl_used ?s"
    using assms(1) that lens by (auto simp: tx_inv_def length_greater_0_conv filter_empty_conv simp del: length_greater_0_conv intro!: length_pos_if_in_set [of ?s])
  have "tx_inv n t'" if "st = QS_ok"
    using page_update_inv [OF assms(1), of p Slot0 False "tx_outstanding t - 1"] ok that pos
    by (simp add: slot_ok_def Slot0_def)
  then show "tx_inv n t'" using no assms(1) by blast
  show "pending n t' = pending n t" using ok(6) no by (cases "st = QS_ok") (auto simp: pending_def)
  have "\<exists>c. sl_cookie ?s = Some c" if "p < n" "sl_used ?s"
    using assms(1) that by (auto simp: tx_inv_def slot_ok_def)
  then show "if st = QS_ok
      then \<exists>l c. leases n t p = Some l \<and> ls_consumed l \<and> ls_cookie l = Some c \<and> cp_cookie cp = Some c \<and>
        ls_report l = Some (cp_status cp, cp_polluted cp) \<and>
        leases n t' = apply_ev (leases n t) (EvTake p c (cp_status cp) (cp_polluted cp))
      else t' = t"
    using ok no lens by (auto simp: leases_def lease_of_def nth_list_update Slot0_def)
qed

lemma reclaim_step:
  assumes "tx_inv n t" and "reclaimAfterDmaStopped n t = (cs, t')"
  shows "tx_inv n t'" and "leases n t' = Map.empty" and "pending n t' = []"
    and "None \<notin> set cs"
proof -
  have sh: "tx_shape n t" using assms(1) by (simp add: tx_inv_def)
  have t': "tx_pages t' = replicate n Slot0" "tx_polluted t' = replicate n False" "tx_pendingBd t' = 0"
    using assms(2) sh by (auto simp: reclaimAfterDmaStopped_def tx_shape_def map_replicate_const)
  have "tx_shape n t'" using assms(2) sh by (auto simp: reclaimAfterDmaStopped_def tx_shape_def)
  then show "tx_inv n t'" using t' assms(2)
    by (auto simp: tx_inv_def pending_def Slot0_def slot_ok_def reclaimAfterDmaStopped_def)
  show "leases n t' = Map.empty" "pending n t' = []"
    using t' by (auto simp: leases_def Slot0_def pending_def)
  show "None \<notin> set cs"
  proof
    assume "None \<in> set cs"
    then obtain s where s: "s \<in> set (tx_pages t)" "sl_used s" "sl_cookie s = None"
      using assms(2) by (auto simp: reclaimAfterDmaStopped_def)
    then obtain p where "p < n" "s = tx_pages t ! p" using sh by (auto simp: in_set_conv_nth tx_shape_def)
    then show False using s assms(1) by (auto simp: tx_inv_def slot_ok_def)
  qed
qed

lemma tx_exec_step:
  assumes "tx_inv n t" and "tx_exec n op t = (evs, t')"
  shows "tx_inv n t'" and "leases n t' = foldl apply_ev (leases n t) evs"
proof -
  have "tx_inv n t' \<and> leases n t' = foldl apply_ev (leases n t) evs"
  proof (cases op)
    case (OpCommit tk q m c)
    obtain st u where k: "commit n tk q m c t = (st, u)" by fastforce
    show ?thesis
    proof (cases "st = QS_ok")
      case True
      then obtain c' where "c = Some c'" using commit_ok [OF assms(1)] k by metis
      then show ?thesis using commit_step [OF assms(1)] k True assms(2) OpCommit by auto
    next
      case False
      then have "u = t" using k by (auto simp: commit_def split: prod.splits if_splits)
      then show ?thesis using False k assms OpCommit by auto
    qed
  next
    case (OpConsumedTo h)
    obtain st u where k: "consumedTo n h t = (st, u)" by fastforce
    then show ?thesis using consumedTo_step [OF assms(1) k] assms(2) OpConsumedTo by auto
  next
    case (OpReport r)
    obtain st u where k: "report n r t = (st, u)" by fastforce
    then show ?thesis using report_step [OF assms(1) k] assms(2) OpReport by (auto split: if_splits)
  next
    case (OpTake p)
    obtain st cp u where k: "take_page n p t = (st, cp, u)" by (metis prod_cases3)
    then show ?thesis using take_page_step [OF assms(1) k] assms(2) assms(1) OpTake by (auto split: if_splits)
  next
    case OpReclaim
    obtain cs u where k: "reclaimAfterDmaStopped n t = (cs, u)" by fastforce
    then show ?thesis using reclaim_step [OF assms(1) k] assms(2) OpReclaim by auto
  qed
  then show "tx_inv n t'" "leases n t' = foldl apply_ev (leases n t) evs" by blast+
qed

section \<open>Runs\<close>

inductive tx_run :: "nat \<Rightarrow> 'c tx_event list \<Rightarrow> 'c TxOwnership \<Rightarrow> bool" for n where
  tx_run_start: "2 \<le> n \<Longrightarrow> n \<le> 0x8000 \<Longrightarrow> tx_run n [] (TxOwnership0 n)"
| tx_run_op: "tx_run n tr t \<Longrightarrow> tx_exec n op t = (evs, t') \<Longrightarrow> tx_run n (tr @ evs) t'"

inductive_cases tx_run_Cons: "tx_run n (e # tr) t"

lemma tx_run_inv: "tx_run n tr t \<Longrightarrow> tx_inv n t \<and> leases n t = foldl apply_ev Map.empty tr"
proof (induction rule: tx_run.induct)
  case tx_run_start
  then show ?case using tx_inv_init by (auto simp: leases_def TxOwnership0_def Slot0_def)
next
  case (tx_run_op tr t op evs t')
  then show ?case using tx_exec_step [of n t op evs t'] by simp
qed

text \<open>A lease in the abstract ledger goes back to one commit, and everything it says happened since.\<close>

definition undisturbed :: "nat \<Rightarrow> 'c tx_event list \<Rightarrow> bool" where
  "undisturbed p evs \<longleftrightarrow> (\<forall>e \<in> set evs. case e of EvCommit q c s m \<Rightarrow> q \<noteq> p | EvTake q c s pol \<Rightarrow> q \<noteq> p
     | EvReclaim cs \<Rightarrow> False | _ \<Rightarrow> True)"

lemma lease_history:
  assumes "foldl apply_ev Map.empty tr p = Some l"
  shows "\<exists>a c q m b. tr = a @ EvCommit p c q m # b \<and> undisturbed p b \<and> ls_cookie l = Some c \<and>
    (ls_consumed l \<longrightarrow> EvConsumed p \<in> set b) \<and>
    (\<forall>s pol. ls_report l = Some (s, pol) \<longrightarrow> EvReport p s pol \<in> set b)"
  using assms
proof (induction tr arbitrary: l rule: rev_induct)
  case (snoc e tr)
  let ?L = "foldl apply_ev Map.empty tr"
  show ?case
  proof (cases "\<exists>c q m. e = EvCommit p c q m")
    case True
    then obtain c q m where e: "e = EvCommit p c q m" by blast
    with snoc.prems have "l = \<lparr>ls_cookie = Some c, ls_qsel = q, ls_macid = m, ls_consumed = False, ls_report = None\<rparr>"
      by simp
    then show ?thesis using e by (intro exI [of _ tr] exI [of _ c] exI [of _ q] exI [of _ m] exI [of _ "[]"])
        (simp add: undisturbed_def)
  next
    case False
    then have ne: "e \<noteq> EvCommit p c q m" for c q m by blast
    from snoc.prems ne obtain l0 where l0: "?L p = Some l0" and ok: "undisturbed p [e]"
      and c0: "ls_cookie l = ls_cookie l0"
      and cons: "ls_consumed l = ls_consumed l0 \<or> e = EvConsumed p"
      and rep: "ls_report l = ls_report l0 \<or> (\<exists>s pol. e = EvReport p s pol \<and> ls_report l = Some (s, pol))"
      by (cases e) (auto simp: undisturbed_def split: if_splits)
    from snoc.IH [OF l0] obtain a c q m b where h: "tr = a @ EvCommit p c q m # b" "undisturbed p b"
      "ls_cookie l0 = Some c" "ls_consumed l0 \<longrightarrow> EvConsumed p \<in> set b"
      "\<forall>s pol. ls_report l0 = Some (s, pol) \<longrightarrow> EvReport p s pol \<in> set b" by blast
    have "undisturbed p (b @ [e])" using h(2) ok by (auto simp: undisturbed_def)
    then show ?thesis using h c0 cons rep
      by (intro exI [of _ a] exI [of _ c] exI [of _ q] exI [of _ m] exI [of _ "b @ [e]"]) auto
  qed
qed simp

section \<open>The ledger neither loses nor duplicates a buffer\<close>

fun ev_taken :: "'c tx_event \<Rightarrow> 'c multiset" where
  "ev_taken (EvCommit p c q m) = {#c#}"
| "ev_taken _ = {#}"

fun ev_given :: "'c tx_event \<Rightarrow> 'c multiset" where
  "ev_given (EvTake p c s pol) = {#c#}"
| "ev_given (EvReclaim cs) = mset cs"
| "ev_given _ = {#}"

definition tx_held :: "'c TxOwnership \<Rightarrow> 'c multiset" where
  "tx_held t = held_in sl_used (the \<circ> sl_cookie) (tx_pages t)"

definition tx_step :: "nat \<Rightarrow> 'c TxOwnership \<Rightarrow> 'c multiset \<Rightarrow> 'c multiset \<Rightarrow> 'c TxOwnership \<Rightarrow> bool" where
  "tx_step n t taken given t' \<longleftrightarrow> (\<exists>op evs. tx_exec n op t = (evs, t') \<and>
     taken = sum_list (map ev_taken evs) \<and> given = sum_list (map ev_given evs))"

lemma consume_held: "p < length (tx_pages t) \<Longrightarrow>
  held_in sl_used (the \<circ> sl_cookie) ((tx_pages t)[p := (tx_pages t ! p)\<lparr>sl_consumed := True\<rparr>]) = tx_held t"
  using held_in_update [of p "tx_pages t" sl_used "the \<circ> sl_cookie" "(tx_pages t ! p)\<lparr>sl_consumed := True\<rparr>"]
  by (simp add: tx_held_def split: if_splits)

lemma consumed_no_exchange: "sum_list (map (ev_taken \<circ> EvConsumed) ps) = {#}"
  "sum_list (map (ev_given \<circ> EvConsumed) ps) = {#}"
  by (induction ps) auto

lemma consume1_held:
  assumes "tx_inv n t" and "0 < tx_pendingBd t"
  shows "tx_held (consume1 n t) = tx_held t"
proof -
  have "tx_consumer t < n" "length (tx_pages t) = n" using assms(1) by (simp_all add: tx_inv_def tx_shape_def)
  moreover have "tx_ring t ! tx_consumer t \<in> set (pending n t)"
    using window_pop [OF assms(2) calculation(1), of "tx_ring t"] by (simp add: pending_def)
  ultimately have "tx_ring t ! tx_consumer t < length (tx_pages t)" using assms(1) by (simp add: tx_inv_def)
  then show ?thesis using consume_held by (simp add: tx_held_def consume1_def consume_one_def Let_def)
qed

lemma consume1_loop_held:
  assumes "tx_inv n t" and "k \<le> tx_pendingBd t"
  shows "tx_held ((consume1 n ^^ k) t) = tx_held t"
  using assms(2)
proof (induction k)
  case (Suc k)
  then have u: "tx_inv n ((consume1 n ^^ k) t)" "pending n ((consume1 n ^^ k) t) = drop k (pending n t)"
    using consume1_loop [OF assms(1)] by simp_all
  have "length (pending n ((consume1 n ^^ k) t)) = tx_pendingBd ((consume1 n ^^ k) t)"
    "length (pending n t) = tx_pendingBd t" by (simp_all add: pending_def)
  then have "0 < tx_pendingBd ((consume1 n ^^ k) t)" using u(2) Suc.prems by simp
  then show ?case using consume1_held [OF u(1)] Suc by simp
qed simp

lemma consumedTo_held:
  assumes "tx_inv n t" and "consumedTo n h t = (st, t')"
  shows "tx_held t' = tx_held t"
proof -
  let ?a = "(h + n - tx_consumer t) mod n"
  show ?thesis
  proof (cases "n \<le> h \<or> tx_pendingBd t < ?a")
    case True
    then show ?thesis using assms by (auto simp: consumedTo_def split: if_splits)
  next
    case False
    then have "t' = (consume1 n ^^ ?a) t"
      using assms(2) consume_loop_eq [of t ?a n] by (simp add: consumedTo_def consume_loop_pending)
    then show ?thesis using consume1_loop_held [OF assms(1)] False by simp
  qed
qed

lemma tx_exec_balance:
  assumes "tx_inv n t" and "tx_exec n op t = (evs, t')"
  shows "tx_held t' + sum_list (map ev_given evs) = tx_held t + sum_list (map ev_taken evs)"
proof (cases op)
  case (OpCommit tk q m c)
  obtain st u where k: "commit n tk q m c t = (st, u)" by fastforce
  have len: "length (tx_pages t) = n" using assms(1) by (simp add: tx_inv_def tx_shape_def)
  show ?thesis
  proof (cases "st = QS_ok")
    case True
    with k have "commit n tk q m c t = (QS_ok, u)" by simp
    then obtain c' where c: "c = Some c'" and p: "tk_page tk < n" "\<not> sl_used (tx_pages t ! tk_page tk)"
      and u: "tx_pages u = (tx_pages t)[tk_page tk := \<lparr>sl_used = True, sl_consumed = False,
         sl_reported = False, sl_qsel = q, sl_macid = m, sl_status = 0, sl_cookie = Some c'\<rparr>]"
      by (elim commit_ok [OF assms(1)]) auto
    have "tx_held u = tx_held t + {#c'#}"
      using held_in_update [of "tk_page tk" "tx_pages t" sl_used "the \<circ> sl_cookie"] p len
      by (simp add: tx_held_def u)
    then show ?thesis using True k c assms(2) OpCommit by auto
  next
    case False
    then have "u = t" using k by (auto simp: commit_def split: prod.splits if_splits)
    then show ?thesis using False k assms OpCommit by auto
  qed
next
  case (OpConsumedTo h)
  obtain st u where k: "consumedTo n h t = (st, u)" by fastforce
  then show ?thesis using consumedTo_held [OF assms(1) k] assms(2) OpConsumedTo
    by (auto simp: consumed_no_exchange)
next
  case (OpReport r)
  have "tx_held (snd (report n r t)) = tx_held t"
    using held_in_update [of "unat (rr_page r)" "tx_pages t" sl_used "the \<circ> sl_cookie"
        "(tx_pages t ! unat (rr_page r))\<lparr>sl_reported := True, sl_status := rr_status r\<rparr>"] assms(1)
    by (cases "unat (rr_page r) < n")
      (simp_all add: report_def Let_def tx_held_def tx_inv_def tx_shape_def split: if_splits)
  then show ?thesis using assms(2) OpReport by (auto split: prod.splits if_splits)
next
  case (OpTake p)
  obtain st cp u where k: "take_page n p t = (st, cp, u)" by (metis prod_cases3)
  have "tx_held u + (if st = QS_ok then {#the (cp_cookie cp)#} else {#}) = tx_held t"
    using held_in_update [of p "tx_pages t" sl_used "the \<circ> sl_cookie" Slot0] assms(1) k
    by (auto simp: take_page_def Let_def tx_held_def tx_inv_def tx_shape_def Slot0_def split: if_splits)
  then show ?thesis using assms(2) k OpTake by (auto split: if_splits)
next
  case OpReclaim
  obtain cs u where k: "reclaimAfterDmaStopped n t = (cs, u)" by fastforce
  then have "mset (map the cs) = tx_held t" "tx_held u = {#}"
    by (auto simp: reclaimAfterDmaStopped_def tx_held_def held_in_def Slot0_def
        simp flip: mset_filter mset_map)
  then show ?thesis using assms(2) k OpReclaim by auto
qed

lemma tx_held_init: "tx_held (TxOwnership0 n) = {#}"
  unfolding tx_held_def by (rule held_in_none) (auto simp: TxOwnership0_def Slot0_def)

interpretation tx: ledger "tx_inv n" tx_held "tx_step n" for n
  by unfold_locales (auto simp: tx_step_def dest: tx_exec_step tx_exec_balance)

section \<open>Properties\<close>

text \<open>C10: a transmit page is given back only when the hardware is done with
  it. In any run of the ledger, when \<open>take\<close> succeeds on a page, the buffer it returns is the one of
  the last commit of that page, and since that commit the hardware has consumed the page's
  buffer descriptor and reported its release with the returned status; the page was not taken or
  committed in between.\<close>

theorem take_after_both:
  assumes "tx_run n tr t" and "take_page n p t = (QS_ok, cp, t')"
  shows "\<exists>a c q m b. tr = a @ EvCommit p c q m # b \<and> cp_cookie cp = Some c \<and> undisturbed p b \<and>
    EvConsumed p \<in> set b \<and> EvReport p (cp_status cp) (cp_polluted cp) \<in> set b"
proof -
  from tx_run_inv [OF assms(1)] have i: "tx_inv n t" "leases n t = foldl apply_ev Map.empty tr" by blast+
  from take_page_step(3) [OF i(1) assms(2)] obtain l c where l: "leases n t p = Some l" "ls_consumed l"
    "ls_cookie l = Some c" "cp_cookie cp = Some c" "ls_report l = Some (cp_status cp, cp_polluted cp)"
    by auto
  from lease_history [of tr p l] l i(2) show ?thesis by fastforce
qed

definition sample_ticket :: Ticket where
  "sample_ticket = \<lparr>tk_page = 0, tk_bd = 0, tk_nextProducer = 1\<rparr>"

definition sample_report :: ReleaseReport where
  "sample_report = \<lparr>rr_page = 0, rr_qsel = 2, rr_macid = 5, rr_status = 1, rr_polluted = False\<rparr>"

definition sample_ops :: "nat tx_op list" where
  "sample_ops = [OpCommit sample_ticket 2 5 (Some 77), OpReport sample_report, OpConsumedTo 1]"

fun tx_execs :: "nat \<Rightarrow> 'c tx_op list \<Rightarrow> 'c tx_event list \<times> 'c TxOwnership \<Rightarrow> 'c tx_event list \<times> 'c TxOwnership" where
  "tx_execs n [] x = x"
| "tx_execs n (op # ops) (tr, t) = (let (evs, t') = tx_exec n op t in tx_execs n ops (tr @ evs, t'))"

lemma tx_execs_run: "tx_run n tr t \<Longrightarrow> tx_execs n ops (tr, t) = (tr', t') \<Longrightarrow> tx_run n tr' t'"
  by (induction ops arbitrary: tr t) (auto split: prod.splits intro: tx_run_op)

definition sample_ledger :: "nat TxOwnership" where
  "sample_ledger = snd (tx_execs 4 sample_ops ([], TxOwnership0 4))"

lemma sample_ledger_run:
  "tx_run 4 [EvCommit 0 77 2 5, EvReport 0 1 False, EvConsumed 0] sample_ledger"
proof -
  have "tx_run 4 (fst (tx_execs 4 sample_ops ([], TxOwnership0 4))) sample_ledger"
    unfolding sample_ledger_def by (rule tx_execs_run [OF tx_run_start]) simp_all
  moreover have "fst (tx_execs 4 sample_ops ([], TxOwnership0 4 :: nat TxOwnership)) =
    [EvCommit 0 77 2 5, EvReport 0 1 False, EvConsumed 0]" by code_simp
  ultimately show ?thesis by simp
qed

theorem take_after_both_witness:
  "take_page 4 0 sample_ledger = (QS_ok, \<lparr>cp_cookie = Some 77, cp_status = 1, cp_polluted = False\<rparr>,
     snd (snd (take_page 4 0 sample_ledger))) \<and>
   (\<exists>a c q m b. [EvCommit 0 77 2 5, EvReport 0 1 False, EvConsumed 0] = a @ EvCommit 0 c q m # b \<and>
     c = 77 \<and> undisturbed 0 b \<and> EvConsumed 0 \<in> set b \<and> EvReport 0 1 False \<in> set (b :: nat tx_event list))"
proof -
  have k: "fst (take_page 4 0 sample_ledger) = QS_ok"
    "fst (snd (take_page 4 0 sample_ledger)) = \<lparr>cp_cookie = Some 77, cp_status = 1, cp_polluted = False\<rparr>"
    by code_simp+
  then have e: "take_page 4 0 sample_ledger = (QS_ok, \<lparr>cp_cookie = Some 77, cp_status = 1, cp_polluted = False\<rparr>,
     snd (snd (take_page 4 0 sample_ledger)))" by (metis prod.collapse)
  show ?thesis using take_after_both [OF sample_ledger_run e] e by simp
qed

text \<open>over any run of the ledger from its empty state, the buffers committed
  are exactly the buffers given back (by \<open>take\<close> or by the reclaim after DMA stopped) together with
  those still held: none is lost and none is given back twice.\<close>

theorem tx_conserve:
  assumes "2 \<le> n" and "n \<le> 0x8000" and "ledger_run (tx_step n) (TxOwnership0 n) taken given t"
  shows "taken = given + tx_held t"
  using assms(3) tx_inv_init [OF assms(1,2)] tx_held_init by (rule tx.conserve)

theorem tx_conserve_witness:
  "tx_held (snd (tx_exec 4 (OpCommit sample_ticket 2 5 (Some (77 :: nat))) (TxOwnership0 4))) = {#77#}"
proof -
  let ?t = "snd (tx_exec 4 (OpCommit sample_ticket 2 5 (Some (77 :: nat))) (TxOwnership0 4))"
  have "fst (tx_exec 4 (OpCommit sample_ticket 2 5 (Some 77)) (TxOwnership0 4 :: nat TxOwnership)) = [EvCommit 0 77 2 5]"
    by code_simp
  then have "tx_exec 4 (OpCommit sample_ticket 2 5 (Some 77)) (TxOwnership0 4) = ([EvCommit 0 77 2 5], ?t)"
    by (metis prod.collapse)
  then have "tx_step 4 (TxOwnership0 4) (sum_list (map ev_taken [EvCommit 0 77 2 5 :: nat tx_event]))
      (sum_list (map ev_given [EvCommit 0 77 2 5 :: nat tx_event])) ?t"
    unfolding tx_step_def by blast
  then have "tx_step 4 (TxOwnership0 4) {#77#} {#} ?t" by (simp del: tx_exec.simps)
  then have "ledger_run (tx_step 4) (TxOwnership0 4) ({#} + {#77#}) ({#} + {#}) ?t"
    by (rule ledger_run_step [OF ledger_run_empty])
  then show ?thesis using tx_conserve [of 4 "{#77#}" "{#}" ?t] by (simp del: tx_exec.simps)
qed

text \<open>in any run, \<open>peek\<close> hands out a ticket exactly when the descriptor
  ring has room and not every page is leased; the page of the ticket is then free, and the
  ticket names the current producer slot.\<close>

theorem peek_finds_page:
  assumes "tx_run n tr t"
  shows "if tx_pendingBd t = n - 1 \<or> tx_outstanding t = n then fst (peek n t) = QS_full
    else \<exists>tk. peek n t = (QS_ok, tk) \<and> tk_page tk < n \<and> leases n t (tk_page tk) = None \<and>
      tk_bd tk = tx_producer t"
proof (cases "tx_pendingBd t = n - 1 \<or> tx_outstanding t = n")
  case True
  then show ?thesis by (auto simp: peek_def)
next
  case False
  have inv: "tx_inv n t" using tx_run_inv [OF assms] by blast
  then have sh: "tx_shape n t" and n: "0 < n" by (simp_all add: tx_inv_def tx_shape_def)
  let ?order = "map (\<lambda>i. (tx_nextPage t + i) mod n) [0..<n]"
  have "length (filter sl_used (tx_pages t)) \<noteq> length (tx_pages t)"
    using inv False by (simp add: tx_inv_def tx_shape_def)
  then obtain s where "s \<in> set (tx_pages t)" "\<not> sl_used s" by (metis filter_True)
  then obtain p where p: "p < n" "\<not> sl_used (tx_pages t ! p)" using sh by (auto simp: in_set_conv_nth tx_shape_def)
  have "p \<in> set ?order"
  proof -
    have "(tx_nextPage t + (p + n - tx_nextPage t) mod n) mod n = (tx_nextPage t + (p + n - tx_nextPage t)) mod n"
      by (simp add: mod_add_right_eq)
    also have "\<dots> = p" using sh p by (simp add: tx_shape_def)
    finally show ?thesis using n by (auto intro!: image_eqI [of _ _ "(p + n - tx_nextPage t) mod n"])
  qed
  then have "find_free (tx_pages t) ?order \<noteq> None" using find_free_None [of "tx_pages t" ?order p] p(2) by blast
  then obtain tk where tk: "peek n t = (QS_ok, tk)" using False by (auto simp: peek_def)
  then show ?thesis using peek_ok [OF sh tk] False by (simp add: leases_def)
qed

theorem peek_finds_page_witness: "peek 4 sample_ledger = (QS_ok, \<lparr>tk_page = 1, tk_bd = 1, tk_nextProducer = 2\<rparr>) \<and>
  leases 4 sample_ledger 1 = None"
proof -
  have "peek 4 sample_ledger = (QS_ok, \<lparr>tk_page = 1, tk_bd = 1, tk_nextProducer = 2\<rparr>)"
    "\<not> (tx_pendingBd sample_ledger = 4 - 1 \<or> tx_outstanding sample_ledger = 4)" by code_simp+
  then show ?thesis using peek_finds_page [OF sample_ledger_run] by auto
qed

section \<open>Properties of the wire formats\<close>

lemma bytes_of32_halves: "bytes_of32 v = bytes_of16 (ucast v) @ bytes_of16 (ucast (drop_bit 16 v))"
  by (auto simp: bytes_of32_def bytes_of16_def intro!: bit_word_eqI simp: bit_simps)

lemma length_bytes_of16 [simp]: "length (bytes_of16 v) = 2"
  by (simp add: bytes_of16_def)

lemma wr_skip: "length xs = n \<Longrightarrow> wr (xs @ zs) (n + k) ys = map_option (\<lambda>r. xs @ r) (wr zs k ys)"
  by (simp add: wr_def)

lemma wr_front: "k + length ys \<le> length xs \<Longrightarrow> wr (xs @ zs) k ys = map_option (\<lambda>r. r @ zs) (wr xs k ys)"
  by (simp add: wr_def)

lemma page_tail:
  assumes "length d = n" "p = d @ replicate 16 0 @ r"
  shows "do { p \<leftarrow> store16 p n a; p \<leftarrow> store16 p (n + 8) b; p \<leftarrow> store16 p (n + 10) c; store32 p (n + 12) e } =
    Some (d @ bytes_of16 a @ replicate 6 0 @ bytes_of16 b @ bytes_of16 c @ bytes_of32 e @ r)"
  using assms
  by (simp add: store16_def store32_def wr_def bytes_of32_halves bytes_of16_def numeral_eq_Suc)

text \<open>an accepted transmit page is the descriptor of the frame followed by the
  page number marked valid, the frame length, one last-segment address entry and the frame's
  32-bit DMA address; the buffer descriptor holds the page's length, the last-segment flag and
  the page's DMA address; page and frame lie wholly below 4 GiB; and the channel is the one of
  the queue, never the firmware channel 12.\<close>

theorem pciTx_layout:
  assumes "encodePciTx info page wdDma frameDma = Some (DS_ok, w)"
  shows "\<exists>d body. encodeTx (info\<lparr>ti_addr_info_nr := 1\<rparr>) (Some (replicate 64 0)) =
        Some (DS_ok, body, Some (d @ replicate (64 - body) 0)) \<and>
      length d = body \<and> body = (if ti_en_wd_info info then 48 else 24) \<and>
      wi_wd w = d @ bytes_of16 (page OR 0x8000) @ replicate 6 0 @ bytes_of16 (ti_pkt_size info) @
        bytes_of16 0x8001 @ bytes_of32 (ucast frameDma) @ replicate (48 - body) 0 \<and>
      wi_bd w = bytes_of16 (of_nat (body + 16)) @ bytes_of16 0x4000 @ bytes_of32 (ucast wdDma) \<and>
      wi_wdBytes w = body + 16 \<and>
      unat wdDma + body + 16 \<le> 2 ^ 32 \<and> unat frameDma + unat (ti_pkt_size info) \<le> 2 ^ 32 \<and>
      uint (ti_ch_dma info) \<in> {0, 1, 2, 3, 8, 9}"
proof -
  let ?i = "info\<lparr>ti_addr_info_nr := 1\<rparr>"
  let ?n = "if ti_en_wd_info info then 48 else 24 :: nat"
  obtain st body buf where e: "encodeTx ?i (Some (replicate 64 0)) = Some (st, body, buf)"
    using encodeTx_accepts [of ?i "Some (replicate 64 0)"] by auto
  have st: "st = DS_ok" using assms e by (auto simp: encodePciTx_def TxWire0_def Let_def split: if_splits)
  then obtain b where b: "buf = Some b" using e by (auto simp: encodeTx_def rd_bytes_def wr_def Let_def split: if_splits)
  let ?d = "take body (txdesc_bytes (rtw89_core_fill_txdesc ?i encoded0))"
  note ok = encodeTx_ok [OF e [unfolded st b]]
  have n: "body = ?n" "body \<le> 48" using ok(1) by simp_all
  have bd: "b = ?d @ replicate 16 0 @ replicate (48 - body) 0"
    using ok(4) n by (simp add: replicate_add [symmetric])
  have d: "length ?d = body" using n by simp
  have g: "\<not> 0x7fff < page" "\<not> dataChannel (ti_qsel info) < 0" "uint (ti_ch_dma info) = dataChannel (ti_qsel info)"
    "dma32Range wdDma (body + 16)" "dma32Range frameDma (unat (ti_pkt_size info))"
    using assms n by (auto simp: encodePciTx_def Let_def split: if_splits)
  have bdw: "do { bd \<leftarrow> store16 (replicate 8 0) 0 x; bd \<leftarrow> store16 bd 2 y; store32 bd 4 v } =
      Some (bytes_of16 x @ bytes_of16 y @ bytes_of32 v)" for x y v
    by (simp add: store16_def store32_def wr_def bytes_of32_halves bytes_of16_def numeral_eq_Suc)
  have w: "w = \<lparr>wi_wd = ?d @ bytes_of16 (page OR 0x8000) @ replicate 6 0 @ bytes_of16 (ti_pkt_size info) @
        bytes_of16 0x8001 @ bytes_of32 (ucast frameDma) @ replicate (48 - body) 0,
      wi_bd = bytes_of16 (of_nat (body + 16)) @ bytes_of16 0x4000 @ bytes_of32 (ucast wdDma),
      wi_wdBytes = body + 16\<rparr>"
  proof -
    have "encodePciTx info page wdDma frameDma =
      do { wd \<leftarrow> do { p \<leftarrow> store16 b body (page OR 0x8000); p \<leftarrow> store16 p (body + 8) (ti_pkt_size info);
               p \<leftarrow> store16 p (body + 10) 0x8001; store32 p (body + 12) (ucast frameDma) };
           bd \<leftarrow> do { bd \<leftarrow> store16 (replicate 8 0) 0 (of_nat (body + 16)); bd \<leftarrow> store16 bd 2 0x4000;
               store32 bd 4 (ucast wdDma) };
           Some (DS_ok, \<lparr>wi_wd = wd, wi_bd = bd, wi_wdBytes = body + 16\<rparr>) }"
      using g e st b n by (simp add: encodePciTx_def TxWire0_def Let_def)
    then show ?thesis using assms unfolding page_tail [OF d bd] bdw by simp
  qed
  have "encodeTx ?i (Some (replicate 64 0)) = Some (DS_ok, body, Some (?d @ replicate (64 - body) 0))"
    using e st b bd n by (simp add: replicate_add [symmetric])
  moreover have "unat wdDma + body + 16 \<le> 2 ^ 32" "unat frameDma + unat (ti_pkt_size info) \<le> 2 ^ 32"
    using g(4,5) by (auto simp: dma32Range_def word_le_nat_alt)
  moreover have "uint (ti_ch_dma info) \<in> {0, 1, 2, 3, 8, 9}"
    using g(2,3) by (auto simp: dataChannel_def split: if_splits)
  ultimately show ?thesis using w n d by (intro exI [of _ ?d] exI [of _ body]) simp
qed

definition sample_pci_info :: TxInfo where
  "sample_pci_info = tx_desc_info0\<lparr>ti_pkt_size := 60, ti_qsel := 0x12, ti_ch_dma := 8\<rparr>"

theorem pciTx_layout_witness:
  "\<exists>w. encodePciTx sample_pci_info 3 0x1000 0x2000 = Some (DS_ok, w) \<and> wi_wdBytes w = 40 \<and>
     take 8 (drop 4 (wi_bd w)) = bytes_of32 0x1000"
proof -
  have "map_option fst (encodePciTx sample_pci_info 3 0x1000 0x2000) = Some DS_ok" by code_simp
  then obtain w where w: "encodePciTx sample_pci_info 3 0x1000 0x2000 = Some (DS_ok, w)" by auto
  have "ucast (0x1000 :: u64) = (0x1000 :: u32)" by simp
  with pciTx_layout [OF w] w show ?thesis by (auto simp: sample_pci_info_def tx_desc_info0_def bytes_of16_def)
qed

definition release_word :: "ReleaseReport \<Rightarrow> u32" where
  "release_word r = ucast (rr_macid r) OR push_bit 8 (ucast (rr_qsel r)) OR push_bit 13 (ucast (rr_status r)) OR
     push_bit 16 (ucast (rr_page r)) OR push_bit 31 (of_bool (rr_polluted r))"

definition release_valid :: "ReleaseReport \<Rightarrow> bool" where
  "release_valid r \<longleftrightarrow> rr_page r \<le> 0x7fff \<and> 0 \<le> dataChannel (rr_qsel r) \<and> rr_status r \<le> 3"

lemma small_bit:
  assumes "unat (v :: 'a::len word) < 2 ^ k" and "k \<le> n"
  shows "\<not> bit v n"
proof -
  have "unat v < 2 ^ n" using assms by (meson less_le_trans one_le_numeral power_increasing)
  then have "\<not> bit (unat v) n" by (simp add: bit_iff_odd)
  then show ?thesis by (simp add: bit_unsigned_iff)
qed

lemma dataChannel_small: "0 \<le> dataChannel q \<Longrightarrow> unat q < 2 ^ 5"
  by (auto simp: dataChannel_def split: if_splits)

lemma low_masks: "w AND 0x7fff = take_bit 15 (w :: u32)" "w AND 31 = take_bit 5 (w :: u32)" "w AND 7 = take_bit 3 (w :: u32)"
  by (simp_all add: take_bit_eq_mask mask_eq_exp_minus_1)

lemma release_word_fields:
  assumes "release_valid r"
  shows "ucast (take_bit 15 (drop_bit 16 (release_word r))) = rr_page r"
    and "ucast (take_bit 5 (drop_bit 8 (release_word r))) = rr_qsel r"
    and "ucast (release_word r) = rr_macid r"
    and "ucast (take_bit 3 (drop_bit 13 (release_word r))) = rr_status r"
    and "drop_bit 31 (release_word r) = of_bool (rr_polluted r)"
proof -
  have p: "\<not> bit (rr_page r) n" if "15 \<le> n" for n
    using assms that small_bit [of "rr_page r" 15] by (auto simp: release_valid_def word_le_nat_alt)
  have q: "\<not> bit (rr_qsel r) n" if "5 \<le> n" for n
    using assms that small_bit [of "rr_qsel r" 5] dataChannel_small by (auto simp: release_valid_def)
  have s: "\<not> bit (rr_status r) n" if "2 \<le> n" for n
    using assms that small_bit [of "rr_status r" 2] by (auto simp: release_valid_def word_le_nat_alt)
  note b = release_word_def bit_simps p q s
  show "ucast (take_bit 15 (drop_bit 16 (release_word r))) = rr_page r"
    by (rule bit_word_eqI) (auto simp: b)
  show "ucast (take_bit 5 (drop_bit 8 (release_word r))) = rr_qsel r"
    by (rule bit_word_eqI) (auto simp: b)
  show "ucast (release_word r) = rr_macid r"
    by (rule bit_word_eqI) (auto simp: b)
  show "ucast (take_bit 3 (drop_bit 13 (release_word r))) = rr_status r"
    by (rule bit_word_eqI) (auto simp: b)
  show "drop_bit 31 (release_word r) = of_bool (rr_polluted r)"
    by (rule bit_word_eqI) (auto simp: b)
qed

text \<open>every valid release report, written as the hardware's word, is
  decoded to itself, whatever follows it.\<close>

theorem release_roundtrip:
  assumes "release_valid r"
  shows "decodeRelease (Some (bytes_of32 (release_word r) @ rest)) = Some (True, r)"
proof -
  have "\<not> dataChannel (rr_qsel r) < 0" "\<not> 3 < rr_status r"
    using assms by (auto simp: release_valid_def)
  then show ?thesis
    by (simp add: decodeRelease_def low_masks release_word_fields [OF assms])
qed

theorem release_roundtrip_witness:
  "decodeRelease (Some (bytes_of32 (release_word sample_report) @ [9])) = Some (True, sample_report)"
  by (rule release_roundtrip) (simp add: release_valid_def sample_report_def dataChannel_def word_le_nat_alt)

end
