(* ===== verification/FirmwareProtocol.thy ===== *)
theory FirmwareProtocol
  imports PciDataPath
begin

text \<open>The firmware command and event formats of \<open>src/network/FirmwareProtocol.hpp\<close>: command frames
  (with the in-place payload copy), events and acknowledgements, and their round trips.\<close>

section \<open>Commands and events\<close>

record CommandId =
  ci_category :: u8
  ci_commandClass :: u8
  ci_function :: u8

definition CommandId0 :: CommandId where
  "CommandId0 = \<lparr>ci_category = 0, ci_commandClass = 0, ci_function = 0\<rparr>"

definition sameCommand :: "CommandId \<Rightarrow> CommandId \<Rightarrow> bool" where
  "sameCommand a b \<longleftrightarrow> ci_category a = ci_category b \<and> ci_commandClass a = ci_commandClass b \<and>
     ci_function a = ci_function b"

text \<open>The payload argument of \<open>encodeH2c\<close>: a null pointer, a buffer of its own, or the output buffer
  itself (\<open>payload == out\<close>).\<close>

datatype payload_arg = PlNull | PlApart bytes | PlInPlace

text \<open>The backwards copy loop of the in-place case.\<close>

fun copy_back :: "bytes \<Rightarrow> nat \<Rightarrow> bytes option" where
  "copy_back out 0 = Some out"
| "copy_back out (Suc i) = do {
     b \<leftarrow> rd8 out i;
     out \<leftarrow> wr out (i + 8) [b];
     copy_back out i }"

definition h2c_word0 :: "CommandId \<Rightarrow> u8 \<Rightarrow> u32" where
  "h2c_word0 cid seq = ucast (ci_category cid) OR push_bit 2 (ucast (ci_commandClass cid)) OR
     push_bit 8 (ucast (ci_function cid)) OR push_bit 24 (ucast seq)"

definition h2c_word1 :: "nat \<Rightarrow> u8 \<Rightarrow> bool \<Rightarrow> bool \<Rightarrow> u32" where
  "h2c_word1 len seq receiveAck doneAck = (let receiveAck = (receiveAck \<or> seq mod 4 = 0) in
     of_nat (len + 8) OR (if receiveAck then 0x4000 else 0) OR (if doneAck then 0x8000 else 0))"

definition encodeH2c ::
  "CommandId \<Rightarrow> u8 \<Rightarrow> bool \<Rightarrow> bool \<Rightarrow> payload_arg \<Rightarrow> nat \<Rightarrow> bytes option \<Rightarrow> (bool \<times> nat \<times> bytes option) option" where
  "encodeH2c cid seq receiveAck doneAck payload len out = (case out of None \<Rightarrow> Some (False, 0, None) | Some buf \<Rightarrow>
     if payload = PlNull \<and> len \<noteq> 0 \<or> 3 < ci_category cid \<or> 63 < ci_commandClass cid \<or> 0x3fff - 8 < len \<or>
        length buf < len + 8 then Some (False, 0, out)
     else do {
       buf \<leftarrow> (case payload of
           PlInPlace \<Rightarrow> copy_back buf len
         | PlApart bs \<Rightarrow> rd_bytes bs 0 len \<bind> wr buf 8
         | PlNull \<Rightarrow> Some buf);
       buf \<leftarrow> store32 buf 0 (h2c_word0 cid seq);
       buf \<leftarrow> store32 buf 4 (h2c_word1 len seq receiveAck doneAck);
       Some (True, len + 8, Some buf) })"

text \<open>\<open>payload\<close> is the pointer \<open>packet + 8\<close>: the bytes from there on.\<close>

record FirmwareEvent =
  fe_id :: CommandId
  fe_payload :: "bytes option"
  fe_length :: nat

definition FirmwareEvent0 :: FirmwareEvent where
  "FirmwareEvent0 = \<lparr>fe_id = CommandId0, fe_payload = None, fe_length = 0\<rparr>"

definition decodeC2h :: "bytes option \<Rightarrow> (bool \<times> FirmwareEvent) option" where
  "decodeC2h source = (case source of None \<Rightarrow> Some (False, FirmwareEvent0) | Some packet \<Rightarrow>
     if length packet < 8 then Some (False, FirmwareEvent0)
     else do {
       w0 \<leftarrow> little32 packet 0;
       w1 \<leftarrow> little32 packet 4;
       let whole = unat (w1 AND 0x3fff);
       if whole < 8 \<or> length packet < whole then Some (False, FirmwareEvent0)
       else Some (True, \<lparr>fe_id = \<lparr>ci_category = ucast (w0 AND 3), ci_commandClass = ucast (drop_bit 2 w0 AND 63),
           ci_function = ucast (drop_bit 8 w0 AND 255)\<rparr>,
         fe_payload = Some (drop 8 packet), fe_length = whole - 8\<rparr>) })"

record FirmwareAck =
  fa_command :: CommandId
  fa_sequence :: u8
  fa_returnCode :: u8
  fa_done :: bool

definition FirmwareAck0 :: FirmwareAck where
  "FirmwareAck0 = \<lparr>fa_command = CommandId0, fa_sequence = 0, fa_returnCode = 0, fa_done = False\<rparr>"

definition decodeAck :: "FirmwareEvent \<Rightarrow> (bool \<times> FirmwareAck) option" where
  "decodeAck ev = (if ci_category (fe_id ev) \<noteq> 1 \<or> ci_commandClass (fe_id ev) \<noteq> 0 \<or> 1 < ci_function (fe_id ev) \<or>
       fe_payload ev = None \<or> fe_length ev < 4 then Some (False, FirmwareAck0)
     else do {
       p \<leftarrow> fe_payload ev;
       w \<leftarrow> little32 p 0;
       let d = (ci_function (fe_id ev) = 1);
       Some (True, \<lparr>fa_command = \<lparr>ci_category = ucast (w AND 3), ci_commandClass = ucast (drop_bit 2 w AND 63),
           ci_function = ucast (drop_bit 8 w AND 255)\<rparr>,
         fa_sequence = ucast (drop_bit (if d then 24 else 16) w),
         fa_returnCode = (if d then ucast (drop_bit 16 w) else 0), fa_done = d\<rparr>) })"

record RoleCommand =
  rc_macid :: u8
  rc_selfRole :: u8
  rc_updateMode :: u8
  rc_wifiRole :: u8

definition role_word :: "RoleCommand \<Rightarrow> u32" where
  "role_word p = ucast (rc_macid p) OR push_bit 8 (ucast (rc_selfRole p)) OR
     push_bit 10 (ucast (rc_updateMode p)) OR push_bit 13 (ucast (rc_wifiRole p))"

definition encodeRole :: "RoleCommand \<Rightarrow> u8 \<Rightarrow> bytes option \<Rightarrow> (bool \<times> nat \<times> bytes option) option" where
  "encodeRole p seq out = (if 3 < rc_selfRole p \<or> 7 < rc_updateMode p \<or> 15 < rc_wifiRole p then Some (False, 0, out)
     else do {
       payload \<leftarrow> store32 (replicate 4 0) 0 (role_word p);
       encodeH2c \<lparr>ci_category = 1, ci_commandClass = 8, ci_function = 4\<rparr> seq False True (PlApart payload) 4 out })"

record JoinCommand =
  jc_macid :: u8
  jc_band :: u8
  jc_wmm :: u8
  jc_port :: u8
  jc_netType :: u8
  jc_wifiRole :: u8
  jc_selfRole :: u8
  jc_disconnect :: bool
  jc_trigger :: bool

definition join_word :: "JoinCommand \<Rightarrow> u32" where
  "join_word p = ucast (jc_macid p) OR push_bit 8 (of_bool (jc_disconnect p)) OR
     push_bit 9 (ucast (jc_band p)) OR push_bit 10 (ucast (jc_wmm p)) OR push_bit 12 (of_bool (jc_trigger p)) OR
     push_bit 21 (ucast (jc_port p)) OR push_bit 24 (ucast (jc_netType p)) OR
     push_bit 26 (ucast (jc_wifiRole p)) OR push_bit 30 (ucast (jc_selfRole p))"

definition encodeJoin :: "JoinCommand \<Rightarrow> u8 \<Rightarrow> bytes option \<Rightarrow> (bool \<times> nat \<times> bytes option) option" where
  "encodeJoin p seq out = (if 1 < jc_band p \<or> 3 < jc_wmm p \<or> 7 < jc_port p \<or> 3 < jc_netType p \<or>
       15 < jc_wifiRole p \<or> 3 < jc_selfRole p then Some (False, 0, out)
     else do {
       payload \<leftarrow> store32 (replicate 4 0) 0 (join_word p);
       encodeH2c \<lparr>ci_category = 1, ci_commandClass = 8, ci_function = 0\<rparr> seq False True (PlApart payload) 4 out })"

section \<open>The bytes of a command\<close>

lemma copy_back_moves:
  "n + 8 \<le> length out \<Longrightarrow> copy_back out n = Some (take 8 out @ take n out @ drop (n + 8) out)"
proof (induction n arbitrary: out)
  case 0
  then show ?case by simp
next
  case (Suc n)
  let ?o = "out[n + 8 := out ! n]"
  have w: "wr out (n + 8) [out ! n] = Some ?o"
    using Suc.prems by (simp add: wr_def upd_conv_take_nth_drop)
  have d: "drop (n + 8) ?o = out ! n # drop (n + 9) out"
    using Suc.prems by (simp add: drop_update_swap Cons_nth_drop_Suc [symmetric] add.commute)
  have "copy_back out (Suc n) = copy_back ?o n" using Suc.prems w by (simp add: rd8_def)
  also have "\<dots> = Some (take 8 out @ take n out @ out ! n # drop (n + 9) out)"
    using Suc.IH [of ?o] Suc.prems d by simp
  also have "\<dots> = Some (take 8 out @ take (Suc n) out @ drop (Suc n + 8) out)"
    using Suc.prems by (simp add: take_Suc_conv_app_nth add.commute)
  finally show ?case .
qed

lemma store32_list4: "store32 (xs @ [a, b, c, d] @ r) (length xs) v = Some (xs @ bytes_of32 v @ r)"
  by (simp add: store32_def store16_def wr_def bytes_of32_halves bytes_of16_def)

lemma store32_front:
  assumes "4 \<le> length zs"
  shows "store32 (xs @ zs) (length xs) v = Some (xs @ bytes_of32 v @ drop 4 zs)"
proof -
  from assms obtain a b c d where "zs = [a, b, c, d] @ drop 4 zs"
    by (auto simp: numeral_eq_Suc Suc_le_length_iff)
  then show ?thesis
    by (metis (no_types, lifting) store32_list4)
qed

lemma little32_skip: "length xs = n \<Longrightarrow> little32 (xs @ ys) n = little32 ys 0"
  by (auto simp: little32_def rd8_def nth_append numeral_2_eq_2)

lemma little32_in: "i + 3 < length p \<Longrightarrow> little32 p i = Some (word_at p i)"
  by (simp add: little32_def rd8_def word_at_def le32_of_def)

definition h2c_bytes :: "CommandId \<Rightarrow> u8 \<Rightarrow> bool \<Rightarrow> bool \<Rightarrow> bytes \<Rightarrow> bytes" where
  "h2c_bytes cid seq ra da bs = bytes_of32 (h2c_word0 cid seq) @ bytes_of32 (h2c_word1 (length bs) seq ra da) @ bs"

lemma length_h2c_bytes [simp]: "length (h2c_bytes cid seq ra da bs) = length bs + 8"
  by (simp add: h2c_bytes_def)

lemma drop_h2c_bytes [simp]: "drop 8 (h2c_bytes cid seq ra da bs) = bs"
  by (simp add: h2c_bytes_def)

definition h2c_fits :: "CommandId \<Rightarrow> nat \<Rightarrow> bool" where
  "h2c_fits cid len \<longleftrightarrow> ci_category cid \<le> 3 \<and> ci_commandClass cid \<le> 63 \<and> len \<le> 0x3fff - 8"

lemma h2c_headers:
  assumes "length buf = len + 8 + length r" and "drop 8 buf = bs @ r" and "length bs = len"
  shows "do { b \<leftarrow> store32 buf 0 a; b \<leftarrow> store32 b 4 w; Some (True, len + 8, Some b) } =
    Some (True, len + 8, Some (bytes_of32 a @ bytes_of32 w @ bs @ r))"
proof -
  obtain x y where b: "buf = x @ y @ drop 8 buf" "length x = 4" "length y = 4"
  proof
    show "buf = take 4 buf @ take 4 (drop 4 buf) @ drop 8 buf"
      using append_take_drop_id [of 4 "drop 4 buf"] by simp
  qed (use assms(1) in simp_all)
  have "store32 buf 0 a = Some (bytes_of32 a @ y @ drop 8 buf)"
    using store32_front [of "x @ y @ drop 8 buf" "[]" a] b(2,3) by (subst b(1)) simp
  moreover have "store32 (bytes_of32 a @ y @ drop 8 buf) 4 w = Some (bytes_of32 a @ bytes_of32 w @ drop 8 buf)"
    using store32_front [of "y @ drop 8 buf" "bytes_of32 a" w] b by simp
  ultimately show ?thesis using assms by simp
qed

lemma encodeH2c_guard:
  assumes "encodeH2c cid seq ra da payload len (Some buf) = Some (True, n, Some out)"
  shows "h2c_fits cid len" and "len + 8 \<le> length buf" and "payload = PlNull \<Longrightarrow> len = 0"
proof -
  have "\<not> (payload = PlNull \<and> len \<noteq> 0 \<or> 3 < ci_category cid \<or> 63 < ci_commandClass cid \<or> 0x3fff - 8 < len \<or>
        length buf < len + 8)"
  proof
    assume g: "payload = PlNull \<and> len \<noteq> 0 \<or> 3 < ci_category cid \<or> 63 < ci_commandClass cid \<or>
        0x3fff - 8 < len \<or> length buf < len + 8"
    show False using assms unfolding encodeH2c_def option.case if_P [OF g] by simp
  qed
  then show "h2c_fits cid len" "len + 8 \<le> length buf" "payload = PlNull \<Longrightarrow> len = 0"
    by (auto simp: h2c_fits_def)
qed

lemma encodeH2c_apart:
  assumes "h2c_fits cid (length bs)" and "length bs + 8 \<le> length buf"
  shows "encodeH2c cid seq ra da (PlApart bs) (length bs) (Some buf) =
    Some (True, length bs + 8, Some (h2c_bytes cid seq ra da bs @ drop (length bs + 8) buf))"
proof -
  let ?b = "take 8 buf @ bs @ drop (8 + length bs) buf"
  have "wr buf 8 bs = Some ?b" using assms(2) by (simp add: wr_def)
  moreover have "do { b \<leftarrow> store32 ?b 0 (h2c_word0 cid seq); b \<leftarrow> store32 b 4 (h2c_word1 (length bs) seq ra da);
      Some (True, length bs + 8, Some b) } =
    Some (True, length bs + 8, Some (h2c_bytes cid seq ra da bs @ drop (length bs + 8) buf))"
    using assms(2) unfolding h2c_bytes_def append_assoc by (intro h2c_headers) (simp_all add: add.commute)
  ultimately show ?thesis using assms
    by (auto simp: encodeH2c_def h2c_fits_def rd_bytes_def not_less [symmetric])
qed

lemma encodeH2c_inplace:
  assumes "h2c_fits cid len" and "len + 8 \<le> length buf"
  shows "encodeH2c cid seq ra da PlInPlace len (Some buf) =
    Some (True, len + 8, Some (h2c_bytes cid seq ra da (take len buf) @ drop (len + 8) buf))"
proof -
  let ?b = "take 8 buf @ take len buf @ drop (len + 8) buf"
  have l: "length (take len buf) = len" using assms(2) by simp
  have "do { b \<leftarrow> store32 ?b 0 (h2c_word0 cid seq); b \<leftarrow> store32 b 4 (h2c_word1 len seq ra da);
      Some (True, len + 8, Some b) } =
    Some (True, len + 8, Some (h2c_bytes cid seq ra da (take len buf) @ drop (len + 8) buf))"
    using assms(2) unfolding h2c_bytes_def append_assoc l by (intro h2c_headers) simp_all
  then show ?thesis using assms
    by (auto simp: encodeH2c_def h2c_fits_def copy_back_moves not_less [symmetric])
qed

section \<open>Reading the headers back\<close>

lemma and_low: "w AND 0x3fff = take_bit 14 (w :: u32)" "w AND 3 = take_bit 2 (w :: u32)"
  "w AND 63 = take_bit 6 (w :: u32)" "w AND 255 = take_bit 8 (w :: u32)"
  by (simp_all add: take_bit_eq_mask mask_eq_exp_minus_1)

lemma h2c_word0_fields:
  assumes "ci_category cid \<le> 3" and "ci_commandClass cid \<le> 63"
  shows "ucast (take_bit 2 (h2c_word0 cid seq)) = ci_category cid"
    and "ucast (take_bit 6 (drop_bit 2 (h2c_word0 cid seq))) = ci_commandClass cid"
    and "ucast (take_bit 8 (drop_bit 8 (h2c_word0 cid seq))) = ci_function cid"
proof -
  have a: "\<not> bit (ci_category cid) n" if "2 \<le> n" for n
    using assms(1) that small_bit [of "ci_category cid" 2] by (auto simp: word_le_nat_alt)
  have c: "\<not> bit (ci_commandClass cid) n" if "6 \<le> n" for n
    using assms(2) that small_bit [of "ci_commandClass cid" 6] by (auto simp: word_le_nat_alt)
  note b = h2c_word0_def bit_simps a c
  show "ucast (take_bit 2 (h2c_word0 cid seq)) = ci_category cid" by (rule bit_word_eqI) (auto simp: b)
  show "ucast (take_bit 6 (drop_bit 2 (h2c_word0 cid seq))) = ci_commandClass cid" by (rule bit_word_eqI) (auto simp: b)
  show "ucast (take_bit 8 (drop_bit 8 (h2c_word0 cid seq))) = ci_function cid" by (rule bit_word_eqI) (auto simp: b)
qed

lemma h2c_word1_length: "len \<le> 0x3fff - 8 \<Longrightarrow> unat (take_bit 14 (h2c_word1 len seq ra da)) = len + 8"
proof -
  assume l: "len \<le> 0x3fff - 8"
  have z: "take_bit 14 (0x4000 :: u32) = 0" "take_bit 14 (0x8000 :: u32) = 0"
    by (simp_all add: take_bit_eq_mask mask_eq_exp_minus_1)
  have "take_bit 14 (h2c_word1 len seq ra da) = take_bit 14 (of_nat (len + 8))"
    by (simp add: h2c_word1_def z del: of_nat_add)
  then show ?thesis using l
    by (simp add: unsigned_take_bit_eq unsigned_of_nat take_bit_nat_eq_self del: of_nat_add)
qed

definition event_of :: "bytes \<Rightarrow> (CommandId \<times> bytes) option" where
  "event_of packet = (case decodeC2h (Some packet) of
     Some (True, ev) \<Rightarrow> Some (fe_id ev, take (fe_length ev) (the (fe_payload ev))) | _ \<Rightarrow> None)"

lemma event_of_h2c:
  assumes "h2c_fits cid (length bs)"
  shows "event_of (h2c_bytes cid seq ra da bs @ rest) = Some (cid, bs)"
proof -
  let ?p = "h2c_bytes cid seq ra da bs @ rest"
  have l: "length bs \<le> 0x3fff - 8" using assms by (simp add: h2c_fits_def)
  have w: "little32 ?p 0 = Some (h2c_word0 cid seq)" "little32 ?p 4 = Some (h2c_word1 (length bs) seq ra da)"
    by (simp_all add: h2c_bytes_def little32_skip)
  have d: "drop 8 ?p = bs @ rest" by (simp add: h2c_bytes_def)
  show ?thesis using h2c_word0_fields [of cid seq] assms
    by (simp add: event_of_def decodeC2h_def w d and_low h2c_word1_length [OF l] h2c_fits_def)
qed

text \<open>Commands and release reports are self-delimiting wire formats.\<close>

interpretation h2c: wire_format "\<lambda>x. h2c_fits (fst x) (length (snd x))"
    "\<lambda>x. h2c_bytes (fst x) seq ra da (snd x)" event_of for seq ra da
  by unfold_locales (simp add: event_of_h2c)

section \<open>Properties of the protocol\<close>

text \<open>an accepted command frame determines its command and its
  payload: two accepted encodings with the same sequence number and acknowledgement flags that
  agree on the bytes written (whatever follows) carry the same command and the same payload.\<close>

theorem h2c_unambiguous:
  assumes "encodeH2c c1 seq ra da (PlApart p1) (length p1) (Some b1) = Some (True, n1, Some o1)"
    and "encodeH2c c2 seq ra da (PlApart p2) (length p2) (Some b2) = Some (True, n2, Some o2)"
    and "take n1 o1 = take n1 o2"
  shows "c1 = c2 \<and> p1 = p2"
proof -
  note fits = encodeH2c_guard(1,2) [OF assms(1)] encodeH2c_guard(1,2) [OF assms(2)]
  from encodeH2c_apart [OF fits(1,2)] assms(1) have 1: "n1 = length p1 + 8"
    "o1 = h2c_bytes c1 seq ra da p1 @ drop n1 b1" by auto
  from encodeH2c_apart [OF fits(3,4)] assms(2) have 2: "o2 = h2c_bytes c2 seq ra da p2 @ drop n2 b2" by auto
  have "h2c_bytes c1 seq ra da p1 @ drop n1 o2 = o2"
    using assms(3) 1 by (metis append_eq_conv_conj append_take_drop_id h2c_bytes_def length_append length_bytes_of32
        add.commute add.left_commute numeral_Bit0)
  then show ?thesis
    using h2c.unambiguous [of "(c1, p1)" "(c2, p2)" seq ra da "drop n1 o2" "drop n2 b2"] fits 2 by simp
qed

definition sample_id :: CommandId where
  "sample_id = \<lparr>ci_category = 1, ci_commandClass = 8, ci_function = 4\<rparr>"

theorem h2c_unambiguous_witness:
  "h2c_bytes sample_id 7 False True [1, 2] \<noteq> h2c_bytes sample_id 7 False True [1, 3]"
proof
  assume eq: "h2c_bytes sample_id 7 False True [1, 2] = h2c_bytes sample_id 7 False True [1, 3]"
  have f: "h2c_fits sample_id (length [1 :: u8, x])" for x by (simp add: h2c_fits_def sample_id_def word_le_nat_alt)
  have e: "encodeH2c sample_id 7 False True (PlApart [1, x]) (length [1, x]) (Some (replicate 10 0)) =
      Some (True, 10, Some (h2c_bytes sample_id 7 False True [1, x]))" for x
    using encodeH2c_apart [OF f, where buf = "replicate 10 0"] by simp
  from h2c_unambiguous [OF e e] eq have "[1 :: u8, 2] = [1, 3]" by metis
  then show False by simp
qed

text \<open>C11: an accepted command, whether its payload stands in a buffer of its
  own or in the output buffer itself (the backwards copy), is read back as its command and its
  payload by the event decoder, and the bytes behind the frame are untouched.\<close>

theorem h2c_roundtrip:
  assumes "encodeH2c cid seq ra da payload len (Some buf) = Some (True, n, Some out)"
    and "case payload of PlApart bs \<Rightarrow> length bs = len | _ \<Rightarrow> True"
  shows "n = len + 8 \<and> drop n out = drop n buf \<and>
    event_of (take n out) = Some (cid, case payload of PlApart bs \<Rightarrow> bs | PlInPlace \<Rightarrow> take len buf | PlNull \<Rightarrow> [])"
proof -
  note f = encodeH2c_guard [OF assms(1)]
  have *: "n = length bs + 8 \<and> drop n out = drop n buf \<and> event_of (take n out) = Some (cid, bs)"
    if "out = h2c_bytes cid seq ra da bs @ drop (length bs + 8) buf" "n = length bs + 8" "length bs = len" for bs
    using that f event_of_h2c [of cid bs seq ra da "[]"] by simp
  show ?thesis
  proof (cases payload)
    case PlNull
    then have "encodeH2c cid seq ra da payload len (Some buf) = encodeH2c cid seq ra da (PlApart []) 0 (Some buf)"
      using f(2,3) by (simp add: encodeH2c_def rd_bytes_def wr_def)
    moreover have "h2c_fits cid (length ([] :: bytes))" "length ([] :: bytes) + 8 \<le> length buf" using f PlNull by simp_all
    ultimately show ?thesis using encodeH2c_apart [of cid "[]" buf seq ra da] assms(1) f(3) PlNull * [of "[]"] by simp
  next
    case (PlApart bs)
    then have len: "length bs = len" using assms(2) by simp
    then have "out = h2c_bytes cid seq ra da bs @ drop (length bs + 8) buf" "n = length bs + 8"
      using encodeH2c_apart [of cid bs buf seq ra da] assms(1) f(1,2) PlApart by auto
    then show ?thesis using * [of bs] len PlApart by simp
  next
    case PlInPlace
    have len: "length (take len buf) = len" using f(2) by simp
    have "out = h2c_bytes cid seq ra da (take len buf) @ drop (length (take len buf) + 8) buf" "n = length (take len buf) + 8"
      using encodeH2c_inplace [OF f(1,2), of seq ra da] assms(1) PlInPlace len by auto
    then show ?thesis using * [of "take len buf"] len PlInPlace by simp
  qed
qed

theorem h2c_roundtrip_witness:
  "\<exists>out. encodeH2c sample_id 7 False True PlInPlace 2 (Some [1, 2, 3, 4, 5, 6, 7, 8, 9, 10, 11]) =
      Some (True, 10, Some out) \<and> drop 10 out = [11] \<and> event_of (take 10 out) = Some (sample_id, [1, 2])"
proof -
  obtain out where o: "encodeH2c sample_id 7 False True PlInPlace 2 (Some [1, 2, 3, 4, 5, 6, 7, 8, 9, 10, 11]) =
      Some (True, 10, Some out)"
    using encodeH2c_inplace [of sample_id 2 "[1, 2, 3, 4, 5, 6, 7, 8, 9, 10, 11]" 7 False True]
    by (simp add: h2c_fits_def sample_id_def word_le_nat_alt)
  from h2c_roundtrip [OF o] o show ?thesis by simp
qed

text \<open>the event decoder never reads outside its packet; an accepted
  event's payload is the part of the packet after the header, within the packet, and anything
  else leaves an empty event.\<close>

theorem c2h_in_bounds:
  "\<exists>ok ev. decodeC2h (Some packet) = Some (ok, ev) \<and>
    (if ok then fe_payload ev = Some (drop 8 packet) \<and> fe_length ev + 8 \<le> length packet \<and> fe_length ev + 8 \<le> 0x3fff
     else ev = FirmwareEvent0)"
proof (cases "length packet < 8")
  case True
  then show ?thesis by (auto simp: decodeC2h_def)
next
  case False
  then have l: "8 \<le> length packet" by simp
  obtain w0 w1 where w: "little32 packet 0 = Some w0" "little32 packet 4 = Some w1"
    using l little32_in [of 0 packet] little32_in [of 4 packet] by simp
  define k where "k = unat (take_bit 14 w1)"
  have "k < 2 ^ 14" unfolding k_def by (subst unsigned_take_bit_eq) (rule take_bit_nat_less_exp)
  then have k: "k \<le> 0x3fff" by simp
  show ?thesis
  proof (cases "k < 8 \<or> length packet < k")
    case True
    then show ?thesis using False by (auto simp: decodeC2h_def w and_low k_def [symmetric])
  next
    case ok: False
    then show ?thesis using False k by (auto simp: decodeC2h_def w and_low k_def [symmetric])
  qed
qed

definition ack_word :: "FirmwareAck \<Rightarrow> u32" where
  "ack_word a = h2c_word0 (fa_command a) 0 OR
     (if fa_done a then push_bit 16 (ucast (fa_returnCode a)) OR push_bit 24 (ucast (fa_sequence a))
      else push_bit 16 (ucast (fa_sequence a)))"

definition ack_event :: "FirmwareAck \<Rightarrow> FirmwareEvent" where
  "ack_event a = \<lparr>fe_id = \<lparr>ci_category = 1, ci_commandClass = 0, ci_function = of_bool (fa_done a)\<rparr>,
     fe_payload = Some (bytes_of32 (ack_word a)), fe_length = 4\<rparr>"

definition ack_valid :: "FirmwareAck \<Rightarrow> bool" where
  "ack_valid a \<longleftrightarrow> ci_category (fa_command a) \<le> 3 \<and> ci_commandClass (fa_command a) \<le> 63 \<and>
     (fa_done a \<or> fa_returnCode a = 0)"

lemma ack_word_fields:
  assumes "ack_valid a"
  shows "ucast (take_bit 2 (ack_word a)) = ci_category (fa_command a)"
    and "ucast (take_bit 6 (drop_bit 2 (ack_word a))) = ci_commandClass (fa_command a)"
    and "ucast (take_bit 8 (drop_bit 8 (ack_word a))) = ci_function (fa_command a)"
    and "fa_done a \<Longrightarrow> ucast (drop_bit 24 (ack_word a)) = fa_sequence a \<and> ucast (drop_bit 16 (ack_word a)) = fa_returnCode a"
    and "\<not> fa_done a \<Longrightarrow> ucast (drop_bit 16 (ack_word a)) = fa_sequence a"
proof -
  have p: "\<not> bit (ci_category (fa_command a)) n" if "2 \<le> n" for n
    using assms that small_bit [of "ci_category (fa_command a)" 2] by (auto simp: ack_valid_def word_le_nat_alt)
  have q: "\<not> bit (ci_commandClass (fa_command a)) n" if "6 \<le> n" for n
    using assms that small_bit [of "ci_commandClass (fa_command a)" 6] by (auto simp: ack_valid_def word_le_nat_alt)
  note b = ack_word_def h2c_word0_def bit_simps p q
  show "ucast (take_bit 2 (ack_word a)) = ci_category (fa_command a)" by (rule bit_word_eqI) (auto simp: b)
  show "ucast (take_bit 6 (drop_bit 2 (ack_word a))) = ci_commandClass (fa_command a)" by (rule bit_word_eqI) (auto simp: b)
  show "ucast (take_bit 8 (drop_bit 8 (ack_word a))) = ci_function (fa_command a)" by (rule bit_word_eqI) (auto simp: b)
  show "ucast (drop_bit 24 (ack_word a)) = fa_sequence a \<and> ucast (drop_bit 16 (ack_word a)) = fa_returnCode a" if "fa_done a"
  proof
    show "ucast (drop_bit 24 (ack_word a)) = fa_sequence a" using that by (intro bit_word_eqI) (auto simp: b)
    show "ucast (drop_bit 16 (ack_word a)) = fa_returnCode a" using that by (intro bit_word_eqI) (auto simp: b)
  qed
  show "ucast (drop_bit 16 (ack_word a)) = fa_sequence a" if "\<not> fa_done a"
    using that by (intro bit_word_eqI) (auto simp: b)
qed

lemma decode_ack_event:
  assumes "ack_valid a"
  shows "decodeAck (ack_event a) = Some (True, a)"
proof -
  have "little32 (bytes_of32 (ack_word a)) 0 = Some (ack_word a)"
    using little32_bytes_of32 [of "ack_word a" "[]"] by simp
  then show ?thesis using ack_word_fields [OF assms] assms
    by (cases "fa_done a") (simp_all add: decodeAck_def ack_event_def and_low ack_valid_def)
qed

text \<open>the acknowledgement the firmware sends for a command (a receive or
  a done report carrying the command, its sequence number and, for done, a return code) is
  decoded to exactly that.\<close>

theorem ack_roundtrip:
  assumes "ack_valid a"
  shows "decodeAck (ack_event a) = Some (True, a)"
  by (rule decode_ack_event [OF assms])

definition sample_ack :: FirmwareAck where
  "sample_ack = \<lparr>fa_command = sample_id, fa_sequence = 9, fa_returnCode = 2, fa_done = True\<rparr>"

theorem ack_roundtrip_witness: "decodeAck (ack_event sample_ack) = Some (True, sample_ack)"
  by (rule ack_roundtrip) (simp add: ack_valid_def sample_ack_def sample_id_def word_le_nat_alt)

end
