(* ===== verification/FirmwareDmaQueue.thy ===== *)
theory FirmwareDmaQueue
  imports FirmwareProtocol
begin

text \<open>The framing of firmware commands for DMA channel 12 and the ledger \<open>FirmwareDmaOwnership\<close> of
  \<open>src/network/FirmwareDmaQueue.hpp\<close>, which keeps the eight most recently consumed commands.\<close>

section \<open>Command framing for channel 12\<close>

text \<open>The descriptor of a command: channel 12, its length and, when it is long enough, the sequence bits
  taken from its bytes 22 and 23.\<close>

definition command_info :: "bytes \<Rightarrow> TxInfo option" where
  "command_info cmd = (let info = tx_desc_info0\<lparr>ti_ch_dma := 12, ti_pkt_size := of_nat (length cmd)\<rparr> in
     if 24 \<le> length cmd then do {
       lo \<leftarrow> rd8 cmd 22;
       hi \<leftarrow> rd8 cmd 23;
       Some (info\<lparr>ti_seq := drop_bit 4 (ucast lo OR push_bit 8 (ucast hi))\<rparr>) }
     else Some info)"

text \<open>\<open>encodeCommandDma\<close>: the command at address \<open>source\<close>, the output buffer at address \<open>target\<close>.\<close>

definition encodeCommandDma ::
  "bytes option \<Rightarrow> nat \<Rightarrow> u64 \<Rightarrow> bytes option \<Rightarrow> nat \<Rightarrow> bytes \<Rightarrow> (bool \<times> nat \<times> bytes option \<times> bytes) option" where
  "encodeCommandDma command source physical out target bd = (case (command, out) of
     (Some cmd, Some buf) \<Rightarrow>
       let len = length cmd in
       if len < 8 \<or> 16383 < len \<or> length buf < len + 24 \<or> \<not> dma32Range physical (len + 24)
       then Some (False, 0, out, bd)
       else do {
         w \<leftarrow> little32 cmd 4;
         if unat (w AND 0x3fff) \<noteq> len then Some (False, 0, out, bd)
         else if (if source \<le> target then target - source < len else source - target < len + 24)
         then Some (False, 0, out, bd)
         else do {
           info \<leftarrow> command_info cmd;
           (st, n, out') \<leftarrow> encodeTx info out;
           if st \<noteq> DS_ok \<or> n \<noteq> 24 then Some (False, 0, out', bd)
           else do {
             buf \<leftarrow> out';
             buf \<leftarrow> wr buf 24 cmd;
             bd \<leftarrow> store16 bd 0 (of_nat (len + 24));
             bd \<leftarrow> store16 bd 2 0x4000;
             bd \<leftarrow> store32 bd 4 (ucast physical);
             Some (True, len + 24, Some buf, bd) } } }
   | _ \<Rightarrow> Some (False, 0, out, bd))"

section \<open>The retention ledger\<close>

record 'c FirmwareDmaOwnership =
  fd_cookies :: "'c option list"
  fd_retained :: "nat list"
  fd_producer :: nat
  fd_consumer :: nat
  fd_pending :: nat
  fd_holdHead :: nat
  fd_holdTail :: nat
  fd_held :: nat

definition FirmwareDmaOwnership0 :: "nat \<Rightarrow> 'c FirmwareDmaOwnership" where
  "FirmwareDmaOwnership0 n = \<lparr>fd_cookies = replicate n None, fd_retained = replicate n 0, fd_producer = 0,
     fd_consumer = 0, fd_pending = 0, fd_holdHead = 0, fd_holdTail = 0, fd_held = 0\<rparr>"

definition fd_full :: "nat \<Rightarrow> 'c FirmwareDmaOwnership \<Rightarrow> bool" where
  "fd_full n t \<longleftrightarrow> fd_pending t = n - 1 \<or> fd_cookies t ! fd_producer t \<noteq> None"

definition fd_commit :: "nat \<Rightarrow> nat \<Rightarrow> 'c option \<Rightarrow> 'c FirmwareDmaOwnership \<Rightarrow> bool \<times> 'c FirmwareDmaOwnership" where
  "fd_commit n slot cookie t = (if cookie = None \<or> fd_full n t \<or> slot \<noteq> fd_producer t then (False, t)
     else (True, t\<lparr>fd_cookies := (fd_cookies t)[fd_producer t := cookie],
       fd_producer := (fd_producer t + 1) mod n, fd_pending := fd_pending t + 1\<rparr>))"

text \<open>One turn of the loop of \<open>consumeTo\<close>: the slot is retained, and a ninth retained slot is released.\<close>

definition fd_retain :: "nat \<Rightarrow> 'c FirmwareDmaOwnership \<Rightarrow> 'c FirmwareDmaOwnership" where
  "fd_retain n t = t\<lparr>fd_retained := (fd_retained t)[fd_holdTail t := cast16 (fd_consumer t)],
     fd_holdTail := (fd_holdTail t + 1) mod n, fd_held := fd_held t + 1,
     fd_consumer := (fd_consumer t + 1) mod n, fd_pending := fd_pending t - 1\<rparr>"

definition fd_expire :: "nat \<Rightarrow> 'c FirmwareDmaOwnership \<Rightarrow> 'c option list \<times> 'c FirmwareDmaOwnership" where
  "fd_expire n t = (if 8 < fd_held t
     then let slot = fd_retained t ! fd_holdHead t in
       ([fd_cookies t ! slot], t\<lparr>fd_holdHead := (fd_holdHead t + 1) mod n, fd_held := fd_held t - 1,
         fd_cookies := (fd_cookies t)[slot := None]\<rparr>)
     else ([], t))"

fun fd_consume_loop :: "nat \<Rightarrow> nat \<Rightarrow> 'c FirmwareDmaOwnership \<Rightarrow> 'c option list \<times> 'c FirmwareDmaOwnership" where
  "fd_consume_loop n 0 t = ([], t)"
| "fd_consume_loop n (Suc k) t = (let (r1, t) = fd_expire n (fd_retain n t); (r2, t) = fd_consume_loop n k t in
     (r1 @ r2, t))"

definition fd_consumeTo :: "nat \<Rightarrow> nat \<Rightarrow> 'c FirmwareDmaOwnership \<Rightarrow> bool \<times> 'c option list \<times> 'c FirmwareDmaOwnership" where
  "fd_consumeTo n index t = (if n \<le> index then (False, [], t)
     else let advance = (index + n - fd_consumer t) mod n in
       if fd_pending t < advance then (False, [], t)
       else let (r, t) = fd_consume_loop n advance t in (True, r, t))"

definition fd_reclaim :: "'c FirmwareDmaOwnership \<Rightarrow> 'c option list \<times> 'c FirmwareDmaOwnership" where
  "fd_reclaim t = (filter (\<lambda>c. c \<noteq> None) (fd_cookies t),
     t\<lparr>fd_cookies := map (\<lambda>_. None) (fd_cookies t), fd_producer := 0, fd_consumer := 0, fd_pending := 0,
       fd_holdHead := 0, fd_holdTail := 0, fd_held := 0\<rparr>)"

section \<open>The abstract queue\<close>

text \<open>The slots in use, oldest first: those retained, then those the hardware has not consumed.\<close>

definition fd_slots :: "nat \<Rightarrow> 'c FirmwareDmaOwnership \<Rightarrow> nat list" where
  "fd_slots n t = window n (fd_retained t) (fd_holdHead t) (fd_held t) @ window n [0..<n] (fd_consumer t) (fd_pending t)"

definition fd_queue :: "nat \<Rightarrow> 'c FirmwareDmaOwnership \<Rightarrow> 'c list" where
  "fd_queue n t = map (\<lambda>s. the (fd_cookies t ! s)) (fd_slots n t)"

definition fd_shape :: "nat \<Rightarrow> 'c FirmwareDmaOwnership \<Rightarrow> bool" where
  "fd_shape n t \<longleftrightarrow> 9 < n \<and> n \<le> 4095 \<and> length (fd_cookies t) = n \<and> length (fd_retained t) = n \<and>
     fd_consumer t < n \<and> fd_holdHead t < n \<and> fd_pending t < n \<and> fd_held t \<le> 9 \<and>
     fd_producer t = (fd_consumer t + fd_pending t) mod n \<and> fd_holdTail t = (fd_holdHead t + fd_held t) mod n"

definition fd_occupied :: "nat \<Rightarrow> 'c FirmwareDmaOwnership \<Rightarrow> bool" where
  "fd_occupied n t \<longleftrightarrow> distinct (fd_slots n t) \<and> set (fd_slots n t) = {s. s < n \<and> fd_cookies t ! s \<noteq> None}"

definition fd_inv :: "nat \<Rightarrow> 'c FirmwareDmaOwnership \<Rightarrow> bool" where
  "fd_inv n t \<longleftrightarrow> fd_shape n t \<and> fd_occupied n t \<and> fd_held t \<le> 8"

lemma fd_inv_init: "9 < n \<Longrightarrow> n \<le> 4095 \<Longrightarrow> fd_inv n (FirmwareDmaOwnership0 n)"
  by (auto simp: fd_inv_def fd_shape_def fd_occupied_def fd_slots_def FirmwareDmaOwnership0_def)

lemma occupied_add: "p < length cs \<Longrightarrow>
  {s. s < length cs \<and> cs[p := Some c] ! s \<noteq> None} = insert p {s. s < length cs \<and> cs ! s \<noteq> None}"
  by (auto simp: nth_list_update)

lemma occupied_drop: "{s. s < length cs \<and> cs[p := None] ! s \<noteq> None} = {s. s < length cs \<and> cs ! s \<noteq> None} - {p}"
  by (auto simp: nth_list_update split: if_splits) (metis nth_list_update_neq option.discI nth_list_update_eq)

lemma fd_commit_step:
  assumes "fd_inv n t" and "fd_commit n slot (Some c) t = (True, t')"
  shows "fd_inv n t'" and "fd_queue n t' = fd_queue n t @ [c]" and "fd_held t' = fd_held t"
proof -
  from assms(2) have free: "fd_cookies t ! fd_producer t = None" "fd_pending t \<noteq> n - 1"
    and t': "t' = t\<lparr>fd_cookies := (fd_cookies t)[fd_producer t := Some c],
       fd_producer := (fd_producer t + 1) mod n, fd_pending := fd_pending t + 1\<rparr>"
    by (auto simp: fd_commit_def fd_full_def split: if_splits)
  have sh: "fd_shape n t" and oc: "fd_occupied n t" and h8: "fd_held t \<le> 8" using assms(1) by (auto simp: fd_inv_def)
  have p: "fd_producer t < n" "length (fd_cookies t) = n" "fd_pending t < n - 1"
    "fd_producer t = (fd_consumer t + fd_pending t) mod n" using sh free by (auto simp: fd_shape_def)
  have s: "fd_slots n t' = fd_slots n t @ [fd_producer t]"
    using p by (simp add: fd_slots_def t' window_def)
  have out: "fd_producer t \<notin> set (fd_slots n t)" using oc free by (auto simp: fd_occupied_def)
  have "fd_cookies t' = (fd_cookies t)[fd_producer t := Some c]" by (simp add: t')
  then have "fd_occupied n t'"
    using oc p(1,2) out occupied_add [of "fd_producer t" "fd_cookies t" c] unfolding fd_occupied_def s by simp
  moreover have "fd_shape n t'" using sh p(3) by (simp add: fd_shape_def t' mod_Suc_eq)
  ultimately show "fd_inv n t'" using h8 by (simp add: fd_inv_def t')
  show "fd_held t' = fd_held t" by (simp add: t')
  have "map (\<lambda>s. the (fd_cookies t' ! s)) (fd_slots n t) = map (\<lambda>s. the (fd_cookies t ! s)) (fd_slots n t)"
  proof (rule map_cong)
    fix x assume "x \<in> set (fd_slots n t)"
    then have "x \<noteq> fd_producer t" using out by blast
    then show "the (fd_cookies t' ! x) = the (fd_cookies t ! x)" by (simp add: t')
  qed simp
  then show "fd_queue n t' = fd_queue n t @ [c]" unfolding fd_queue_def s using p by (simp add: t')
qed

lemma fd_retain_step:
  assumes "fd_inv n t" and "0 < fd_pending t"
  shows "fd_shape n (fd_retain n t)" and "fd_occupied n (fd_retain n t)" and "fd_queue n (fd_retain n t) = fd_queue n t"
    and "fd_held (fd_retain n t) = fd_held t + 1" and "fd_pending (fd_retain n t) = fd_pending t - 1"
proof -
  let ?u = "fd_retain n t"
  have sh: "fd_shape n t" and oc: "fd_occupied n t" and h8: "fd_held t \<le> 8" using assms(1) by (auto simp: fd_inv_def)
  have b: "fd_consumer t < n" "length (fd_retained t) = n" "fd_held t < n" "n \<le> 4095"
    "fd_holdTail t = (fd_holdHead t + fd_held t) mod n" using sh h8 by (auto simp: fd_shape_def)
  have c: "cast16 (fd_consumer t) = fd_consumer t" using b by simp
  have "window n (fd_retained ?u) (fd_holdHead ?u) (fd_held ?u) =
      window n (fd_retained t) (fd_holdHead t) (fd_held t) @ [fd_consumer t]"
    using window_push [OF b(2,3), of "fd_holdHead t" "fd_consumer t"] b(5) c by (simp add: fd_retain_def)
  moreover have "window n [0..<n] (fd_consumer t) (fd_pending t) =
      fd_consumer t # window n [0..<n] (fd_consumer ?u) (fd_pending ?u)"
    using window_pop [OF assms(2) b(1), of "[0..<n]"] b(1) by (simp add: fd_retain_def)
  ultimately have s: "fd_slots n ?u = fd_slots n t" by (simp add: fd_slots_def)
  have "(fd_consumer t + fd_pending t) mod n = ((fd_consumer t + 1) mod n + (fd_pending t - 1)) mod n"
    using assms(2) by (cases "fd_pending t") (simp_all add: mod_add_left_eq)
  then show "fd_shape n ?u" using sh h8 assms(2) unfolding fd_shape_def
    by (simp add: fd_retain_def mod_Suc_eq less_imp_diff_less)
  show "fd_occupied n ?u" using oc unfolding fd_occupied_def s by (simp add: fd_retain_def)
  show "fd_queue n ?u = fd_queue n t" unfolding fd_queue_def s by (simp add: fd_retain_def)
  show "fd_held ?u = fd_held t + 1" "fd_pending ?u = fd_pending t - 1" by (simp_all add: fd_retain_def)
qed

lemma fd_expire_step:
  assumes "fd_shape n t" and "fd_expire n t = (r, t')" and "fd_occupied n t"
  shows "fd_inv n t'" and "fd_held t' = min 8 (fd_held t)" and "fd_pending t' = fd_pending t"
    and "fd_queue n t = map the r @ fd_queue n t'" and "length r = fd_held t - 8" and "None \<notin> set r"
proof -
  have "fd_inv n t' \<and> fd_held t' = min 8 (fd_held t) \<and> fd_pending t' = fd_pending t \<and>
    fd_queue n t = map the r @ fd_queue n t' \<and> length r = fd_held t - 8 \<and> None \<notin> set r"
  proof (cases "8 < fd_held t")
    case False
    then show ?thesis using assms by (auto simp: fd_expire_def fd_inv_def min_def)
  next
    case True
    let ?s = "fd_retained t ! fd_holdHead t"
    have b: "fd_holdHead t < n" "length (fd_cookies t) = n" "fd_held t = 9"
      "fd_holdTail t = (fd_holdHead t + fd_held t) mod n" using assms(1) True by (auto simp: fd_shape_def)
    have t': "t' = t\<lparr>fd_holdHead := (fd_holdHead t + 1) mod n, fd_held := fd_held t - 1,
        fd_cookies := (fd_cookies t)[?s := None]\<rparr>" and r: "r = [fd_cookies t ! ?s]"
      using assms(2) True by (auto simp: fd_expire_def Let_def)
    have "window n (fd_retained t) (fd_holdHead t) (fd_held t) =
        ?s # window n (fd_retained t') (fd_holdHead t') (fd_held t')"
      using window_pop [of "fd_held t" "fd_holdHead t" n "fd_retained t"] b True by (simp add: t')
    then have s: "fd_slots n t = ?s # fd_slots n t'" by (simp add: fd_slots_def t')
    have d: "distinct (?s # fd_slots n t')" and st: "set (?s # fd_slots n t') = {s. s < n \<and> fd_cookies t ! s \<noteq> None}"
      using assms(3) unfolding fd_occupied_def s by blast+
    then have sn: "?s < n" "fd_cookies t ! ?s \<noteq> None" by auto
    have ck: "fd_cookies t' = (fd_cookies t)[?s := None]" by (simp add: t')
    have "set (fd_slots n t') = {s. s < n \<and> fd_cookies t' ! s \<noteq> None}"
      using d st b(2) occupied_drop [of "fd_cookies t" ?s] unfolding ck by auto
    then have "fd_occupied n t'" using d by (simp add: fd_occupied_def)
    moreover have "(fd_holdHead t + 9) mod n = ((fd_holdHead t + 1) mod n + 8) mod n"
      using mod_add_left_eq [of "fd_holdHead t + 1" n 8] by (simp add: add.commute)
    then have "fd_shape n t'" using assms(1) b unfolding fd_shape_def by (simp add: t')
    ultimately have "fd_inv n t'" using b(3) by (simp add: fd_inv_def t')
    moreover have "map (\<lambda>s. the (fd_cookies t ! s)) (fd_slots n t') = fd_queue n t'"
      unfolding fd_queue_def ck
    proof (rule map_cong)
      fix x assume "x \<in> set (fd_slots n t')"
      then have "x \<noteq> ?s" using d by auto
      then show "the (fd_cookies t ! x) = the ((fd_cookies t)[?s := None] ! x)" by simp
    qed simp
    ultimately show ?thesis using sn b by (simp add: fd_queue_def s r t') (metis option.distinct(1))
  qed
  then show "fd_inv n t'" "fd_held t' = min 8 (fd_held t)" "fd_pending t' = fd_pending t"
    "fd_queue n t = map the r @ fd_queue n t'" "length r = fd_held t - 8" "None \<notin> set r" by blast+
qed

lemma fd_consume_loop_step:
  assumes "fd_inv n t" and "k \<le> fd_pending t" and "fd_consume_loop n k t = (r, t')"
  shows "fd_inv n t' \<and> fd_held t' = min 8 (fd_held t + k) \<and> fd_queue n t = map the r @ fd_queue n t' \<and>
    length r = fd_held t + k - 8 \<and> None \<notin> set r"
  using assms
proof (induction k arbitrary: t r t')
  case 0
  then show ?case by (auto simp: fd_inv_def min_def)
next
  case (Suc k)
  obtain r1 u where e: "fd_expire n (fd_retain n t) = (r1, u)" by fastforce
  obtain r2 v where l: "fd_consume_loop n k u = (r2, v)" by fastforce
  have r: "r = r1 @ r2" "t' = v" using Suc.prems(3) e l by simp_all
  have pos: "0 < fd_pending t" using Suc.prems(2) by simp
  note a = fd_retain_step [OF Suc.prems(1) pos]
  note b = fd_expire_step [OF a(1) e a(2)]
  have "k \<le> fd_pending u" using b(3) a(5) Suc.prems(2) by simp
  note c = Suc.IH [OF b(1) this l]
  have h: "fd_held t \<le> 8" using Suc.prems(1) by (simp add: fd_inv_def)
  show ?case using a(3,4) b c h r by (auto simp: min_def)
qed

section \<open>The ledger contract\<close>

datatype 'c fd_op = FdCommit nat "'c option" | FdConsumeTo nat | FdReclaim

text \<open>The buffers an operation takes in and gives back.\<close>

fun fd_exec :: "nat \<Rightarrow> 'c fd_op \<Rightarrow> 'c FirmwareDmaOwnership \<Rightarrow> 'c list \<times> 'c list \<times> 'c FirmwareDmaOwnership" where
  "fd_exec n (FdCommit slot c) t = (let (ok, t') = fd_commit n slot c t in (if ok then [the c] else [], [], t'))"
| "fd_exec n (FdConsumeTo h) t = (let (ok, r, t') = fd_consumeTo n h t in ([], map the r, t'))"
| "fd_exec n FdReclaim t = (let (r, t') = fd_reclaim t in ([], map the r, t'))"

definition fd_step :: "nat \<Rightarrow> 'c FirmwareDmaOwnership \<Rightarrow> 'c multiset \<Rightarrow> 'c multiset \<Rightarrow> 'c FirmwareDmaOwnership \<Rightarrow> bool" where
  "fd_step n t taken given t' \<longleftrightarrow> (\<exists>op i r. fd_exec n op t = (i, r, t') \<and> taken = mset i \<and> given = mset r)"

lemma fd_consumeTo_step:
  assumes "fd_inv n t" and "fd_consumeTo n h t = (ok, r, t')"
  shows "fd_inv n t'" and "fd_queue n t = map the r @ fd_queue n t'"
    and "if ok then \<exists>k \<le> fd_pending t. (fd_consumer t + k) mod n = h \<and> length r = fd_held t + k - 8 \<and> fd_held t' = min 8 (fd_held t + k)
      else t' = t"
proof -
  let ?a = "(h + n - fd_consumer t) mod n"
  have "fd_inv n t' \<and> fd_queue n t = map the r @ fd_queue n t' \<and>
    (if ok then \<exists>k \<le> fd_pending t. (fd_consumer t + k) mod n = h \<and> length r = fd_held t + k - 8 \<and> fd_held t' = min 8 (fd_held t + k)
      else t' = t)"
  proof (cases "n \<le> h \<or> fd_pending t < ?a")
    case True
    then show ?thesis using assms by (auto simp: fd_consumeTo_def split: if_splits)
  next
    case False
    then have l: "fd_consume_loop n ?a t = (r, t')" "ok"
      using assms(2) by (auto simp: fd_consumeTo_def split: prod.splits)
    have "fd_consumer t < n" using assms(1) by (simp add: fd_inv_def fd_shape_def)
    then have "(fd_consumer t + ?a) mod n = h" using False by (simp add: mod_add_right_eq)
    then show ?thesis using fd_consume_loop_step [OF assms(1) _ l(1)] l(2) False by (auto intro!: exI [of _ ?a])
  qed
  then show "fd_inv n t'" "fd_queue n t = map the r @ fd_queue n t'"
    "if ok then \<exists>k \<le> fd_pending t. (fd_consumer t + k) mod n = h \<and> length r = fd_held t + k - 8 \<and> fd_held t' = min 8 (fd_held t + k)
      else t' = t" by blast+
qed

lemma fd_reclaim_step:
  assumes "fd_inv n t" and "fd_reclaim t = (r, t')"
  shows "fd_inv n t'" and "fd_queue n t' = []" and "mset (map the r) = mset (fd_queue n t)"
proof -
  have sh: "fd_shape n t" and oc: "fd_occupied n t" using assms(1) by (auto simp: fd_inv_def)
  have len: "length (fd_cookies t) = n" using sh by (simp add: fd_shape_def)
  have t': "fd_cookies t' = replicate n None" "fd_pending t' = 0" "fd_held t' = 0" "fd_holdHead t' = 0"
    "fd_holdTail t' = 0" "fd_consumer t' = 0" "fd_producer t' = 0" "fd_retained t' = fd_retained t"
    using assms(2) len by (auto simp: fd_reclaim_def map_replicate_const)
  show q: "fd_queue n t' = []" by (simp add: fd_queue_def fd_slots_def t')
  have "fd_shape n t'" using sh by (simp add: fd_shape_def t')
  moreover have "fd_occupied n t'" by (auto simp: fd_occupied_def fd_slots_def t')
  ultimately show "fd_inv n t'" by (simp add: fd_inv_def t')
  let ?f = "(!) (fd_cookies t)" and ?used = "filter (\<lambda>s. fd_cookies t ! s \<noteq> None) [0..<n]"
  have ck: "fd_cookies t = map ?f [0..<n]" using map_nth [of "fd_cookies t"] len by simp
  have "r = filter (\<lambda>c. c \<noteq> None) (map ?f [0..<n])" using assms(2) ck by (simp add: fd_reclaim_def)
  then have "r = map ?f ?used" by (simp add: filter_map comp_def)
  then have "mset (map the r) = image_mset (\<lambda>s. the (fd_cookies t ! s)) (mset ?used)"
    by (simp add: comp_def flip: mset_map mset_filter)
  moreover have "mset ?used = mset (fd_slots n t)"
    using oc by (intro set_eq_iff_mset_eq_distinct [THEN iffD1]) (auto simp: fd_occupied_def)
  ultimately show "mset (map the r) = mset (fd_queue n t)" by (simp add: fd_queue_def)
qed

lemma fd_exec_step:
  assumes "fd_inv n t" and "fd_exec n op t = (i, r, t')"
  shows "fd_inv n t' \<and> mset (fd_queue n t') + mset r = mset (fd_queue n t) + mset i"
proof (cases op)
  case (FdCommit slot c)
  obtain ok u where k: "fd_commit n slot c t = (ok, u)" by fastforce
  show ?thesis
  proof (cases ok)
    case True
    then obtain c' where "c = Some c'" using k by (cases c) (auto simp: fd_commit_def)
    then show ?thesis using fd_commit_step [OF assms(1)] k True assms(2) FdCommit by auto
  next
    case False
    then have "u = t" using k by (auto simp: fd_commit_def split: if_splits)
    then show ?thesis using False k assms FdCommit by auto
  qed
next
  case (FdConsumeTo h)
  obtain ok q u where k: "fd_consumeTo n h t = (ok, q, u)" by (metis prod_cases3)
  then show ?thesis using fd_consumeTo_step [OF assms(1) k] assms(2) FdConsumeTo by auto
next
  case FdReclaim
  obtain q u where k: "fd_reclaim t = (q, u)" by fastforce
  then show ?thesis using fd_reclaim_step [OF assms(1) k] assms(2) FdReclaim by auto
qed

interpretation fd: ledger "fd_inv n" "\<lambda>t. mset (fd_queue n t)" "fd_step n" for n
  by unfold_locales (auto simp: fd_step_def dest: fd_exec_step)

section \<open>Properties\<close>

lemma fd_queue_init: "fd_queue n (FirmwareDmaOwnership0 n) = []"
  by (simp add: fd_queue_def fd_slots_def FirmwareDmaOwnership0_def)

text \<open>C12: firmware command buffers are released in the order they were
  committed, and never early: when the hardware index advances by \<open>k\<close> commands, exactly the oldest
  \<open>held + k - 8\<close> buffers are released, so the (at most) eight most recently consumed ones are still
  retained, and nothing is released when the index is refused.\<close>

theorem fw_retention:
  assumes "9 < n" and "n \<le> 4095" and "ledger_run (fd_step n) (FirmwareDmaOwnership0 n) taken given t"
    and "fd_consumeTo n h t = (ok, r, t')"
  shows "fd_queue n t = map the r @ fd_queue n t' \<and> fd_held t \<le> 8 \<and>
    (if ok then \<exists>k \<le> fd_pending t. (fd_consumer t + k) mod n = h \<and>
        length r = fd_held t + k - 8 \<and> fd_held t' = min 8 (fd_held t + k)
     else r = [] \<and> t' = t)"
proof -
  have inv: "fd_inv n t" using fd.run_inv [OF assms(3)] fd_inv_init [OF assms(1,2)] by blast
  have "r = []" if "\<not> ok" using that assms(4) by (auto simp: fd_consumeTo_def Let_def split: if_splits prod.splits)
  then show ?thesis using fd_consumeTo_step [OF inv assms(4)] inv by (auto simp: fd_inv_def)
qed

definition fd_after :: "nat \<Rightarrow> nat FirmwareDmaOwnership" where
  "fd_after k = foldl (\<lambda>t i. snd (snd (fd_exec 12 (FdCommit i (Some (100 + i))) t))) (FirmwareDmaOwnership0 12) [0..<k]"

lemma fd_after_step:
  assumes "ledger_run (fd_step n) (FirmwareDmaOwnership0 n) i g t" and "fd_exec n op t = (i', g', t')"
  shows "ledger_run (fd_step n) (FirmwareDmaOwnership0 n) (i + mset i') (g + mset g') t'"
  using assms by (intro ledger_run_step [OF assms(1)]) (auto simp: fd_step_def)

lemma fd_after_run: "\<exists>i g. ledger_run (fd_step 12) (FirmwareDmaOwnership0 12) i g (fd_after k)"
proof (induction k)
  case 0
  show ?case using ledger_run_empty [of "fd_step 12" "FirmwareDmaOwnership0 12"] by (auto simp: fd_after_def)
next
  case (Suc k)
  obtain i g where r: "ledger_run (fd_step 12) (FirmwareDmaOwnership0 12) i g (fd_after k)" using Suc by blast
  obtain i' g' t' where e: "fd_exec 12 (FdCommit k (Some (100 + k))) (fd_after k) = (i', g', t')" by (metis prod_cases3)
  have "fd_after (Suc k) = t'" using e by (simp add: fd_after_def)
  then show ?case using fd_after_step [OF r e] by auto
qed

theorem fw_retention_witness:
  "map the (fst (snd (fd_consumeTo 12 10 (fd_after 10)))) = [100, 101] \<and>
   fd_held (snd (snd (fd_consumeTo 12 10 (fd_after 10)))) = 8"
proof -
  obtain i g where run: "ledger_run (fd_step 12) (FirmwareDmaOwnership0 12) i g (fd_after 10)"
    using fd_after_run by blast
  obtain ok r t' where e: "fd_consumeTo 12 10 (fd_after 10) = (ok, r, t')" by (metis prod_cases3)
  have v: "fst (fd_consumeTo 12 10 (fd_after 10)) = True" "fd_pending (fd_after 10) = 10" "fd_held (fd_after 10) = 0"
    "fd_consumer (fd_after 10) = 0" "take 2 (fd_queue 12 (fd_after 10)) = [100, 101]" by code_simp+
  have ok: "ok" using v(1) e by simp
  from fw_retention [OF _ _ run e] ok v obtain k where k: "k \<le> 10" "k mod 12 = 10" "length r = k - 8"
    "fd_held t' = min 8 k" and q: "fd_queue 12 (fd_after 10) = map the r @ fd_queue 12 t'" by auto
  have "k = 10" using k(1,2) by simp
  then have "length (map the r) = 2" "fd_held t' = 8" using k by simp_all
  then show ?thesis using e q v(5) by (metis append_eq_conv_conj fst_conv snd_conv)
qed

text \<open>over any run of the firmware ledger from its empty state, the buffers
  committed are exactly those released together with those in its queue.\<close>

theorem fw_conserve:
  assumes "9 < n" and "n \<le> 4095" and "ledger_run (fd_step n) (FirmwareDmaOwnership0 n) taken given t"
  shows "taken = given + mset (fd_queue n t)"
  using assms(3) fd_inv_init [OF assms(1,2)] by (rule fd.conserve) (simp add: fd_queue_init)

theorem fw_conserve_witness:
  "\<exists>i g. ledger_run (fd_step 12) (FirmwareDmaOwnership0 12) i g (fd_after 3) \<and> i = g + {#100, 101, 102#}"
proof -
  obtain i g where run: "ledger_run (fd_step 12) (FirmwareDmaOwnership0 12) i g (fd_after 3)"
    using fd_after_run by blast
  have "fd_queue 12 (fd_after 3) = [100, 101, 102]" by code_simp
  then show ?thesis using fw_conserve [OF _ _ run] run by auto
qed

text \<open>an accepted firmware command is a 24-byte descriptor for channel 12
  that carries the command's length, followed by the command; the buffer descriptor points to
  it with its length and the last-segment flag; the whole lies below 4 GiB; and the length in
  the command's own header is its length.\<close>

theorem command_layout:
  assumes "encodeCommandDma (Some cmd) src physical (Some buf) dst bd = Some (True, n, Some out, bd')"
    and "length bd = 8"
  shows "n = length cmd + 24 \<and> length out = length buf \<and> take (length cmd) (drop 24 out) = cmd \<and>
    drop n out = drop n buf \<and> unat (word_at cmd 4 AND 0x3fff) = length cmd \<and> unat physical + n \<le> 2 ^ 32 \<and>
    le32_get_bits (word_at out 0) RTW89_TXWD_BODY0_CHANNEL_DMA = 12 \<and>
    le32_get_bits (word_at out 8) RTW89_TXWD_BODY2_TXPKT_SIZE = of_nat (length cmd) \<and>
    bd' = bytes_of16 (of_nat n) @ bytes_of16 0x4000 @ bytes_of32 (ucast physical)"
proof -
  let ?len = "length cmd"
  have g: "8 \<le> ?len" "?len \<le> 16383" "?len + 24 \<le> length buf" "dma32Range physical (?len + 24)"
    using assms(1) by (auto simp: encodeCommandDma_def Let_def split: if_splits)
  have w: "little32 cmd 4 = Some (word_at cmd 4)" using g(1) by (intro little32_in) simp
  have g': "unat (word_at cmd 4 AND 0x3fff) = ?len"
    "\<not> (if src \<le> dst then dst - src < ?len else src - dst < ?len + 24)"
    using assms(1) g by (auto simp: encodeCommandDma_def Let_def w split: if_splits)
  obtain info' where i: "command_info cmd = Some info'" "ti_ch_dma info' = 12" "ti_pkt_size info' = of_nat ?len"
    by (cases "24 \<le> ?len") (simp_all add: command_info_def rd8_def)
  obtain st k o' where e: "encodeTx info' (Some buf) = Some (st, k, o')"
    using encodeTx_accepts [of info' "Some buf"] by auto
  have step: "encodeCommandDma (Some cmd) src physical (Some buf) dst bd =
    (if st \<noteq> DS_ok \<or> k \<noteq> 24 then Some (False, 0, o', bd) else do {
       buf \<leftarrow> o'; buf \<leftarrow> wr buf 24 cmd; bd \<leftarrow> store16 bd 0 (of_nat (?len + 24)); bd \<leftarrow> store16 bd 2 0x4000;
       bd \<leftarrow> store32 bd 4 (ucast physical); Some (True, ?len + 24, Some buf, bd) })"
    using g g' w e i(1) by (simp add: encodeCommandDma_def Let_def)
  then have st: "st = DS_ok" "k = 24" using assms(1) by (auto split: if_splits)
  then obtain o1 where o1: "o' = Some o1" using step assms(1) by (cases o') auto
  from encodeTx_lossless [OF e [unfolded st o1]]
  have l1: "length o1 = length buf" "drop 24 o1 = drop 24 buf" and bf: "body_fields o1 = wanted_body info'" by simp_all
  have wr1: "wr o1 24 cmd = Some (take 24 o1 @ cmd @ drop (24 + ?len) o1)" using g l1 by (simp add: wr_def)
  have bdw: "do { bd \<leftarrow> store16 bd 0 x; bd \<leftarrow> store16 bd 2 y; bd \<leftarrow> store32 bd 4 v; Some (True, ?len + 24, Some o2, bd) } =
      Some (True, ?len + 24, Some o2, bytes_of16 x @ bytes_of16 y @ bytes_of32 v)" for x y v o2
    using assms(2) by (simp add: store16_def store32_def wr_def bytes_of32_halves bytes_of16_def)
  have "Some (True, n, Some out, bd') = Some (True, ?len + 24, Some (take 24 o1 @ cmd @ drop (24 + ?len) o1),
      bytes_of16 (of_nat (?len + 24)) @ bytes_of16 0x4000 @ bytes_of32 (ucast physical))"
    using step st o1 wr1 unfolding assms(1) by (simp only: bdw option.simps Option.bind.simps simp_thms if_False)
  then have out: "out = take 24 o1 @ cmd @ drop (24 + ?len) o1" and n: "n = ?len + 24"
    and bd': "bd' = bytes_of16 (of_nat n) @ bytes_of16 0x4000 @ bytes_of32 (ucast physical)"
    by simp_all
  have "word_at out i = word_at o1 i" if "i + 3 < 24" for i
    unfolding out using that l1 g word_at_prefix [of i 24 o1 "cmd @ drop (24 + ?len) o1" "[]"] by simp
  then have "le32_get_bits (word_at out 0) RTW89_TXWD_BODY0_CHANNEL_DMA = 12 \<and>
      le32_get_bits (word_at out 8) RTW89_TXWD_BODY2_TXPKT_SIZE = ucast (of_nat ?len :: u16)"
    using bf by (simp add: body_fields_def wanted_body_def Let_def i)
  moreover have "ucast (of_nat ?len :: u16) = (of_nat ?len :: u32)"
    using g(2) by (simp add: word_unat_eq_iff unsigned_ucast_eq unsigned_of_nat take_bit_nat_eq_self)
  moreover have "drop n out = drop n buf" "take ?len (drop 24 out) = cmd" "length out = length buf"
  proof -
    have "length (take 24 o1) = 24" using l1 g by simp
    then show "take ?len (drop 24 out) = cmd" "length out = length buf" unfolding out using l1 g by simp_all
    have "drop n out = drop (24 + ?len) o1" unfolding out n using \<open>length (take 24 o1) = 24\<close> by simp
    also have "\<dots> = drop n buf" unfolding n
      by (metis add.commute drop_drop l1(2))
    finally show "drop n out = drop n buf" .
  qed
  moreover have "unat physical + n \<le> 2 ^ 32" using g(4) n by (auto simp: dma32Range_def word_le_nat_alt)
  ultimately show ?thesis using n g' bd' by simp
qed

definition sample_command :: bytes where
  "sample_command = [0x21, 4, 0, 7, 8, 0, 0, 0]"

theorem command_layout_witness:
  "\<exists>out bd'. encodeCommandDma (Some sample_command) 0 0x1000 (Some (replicate 40 0)) 100 (replicate 8 0) =
      Some (True, 32, Some out, bd') \<and> take 8 (drop 24 out) = sample_command"
proof -
  have "map_option (\<lambda>(ok, n, out, bd). (ok, n, out \<noteq> None))
      (encodeCommandDma (Some sample_command) 0 0x1000 (Some (replicate 40 0)) 100 (replicate 8 0)) = Some (True, 32, True)"
    by code_simp
  then obtain out bd' where e: "encodeCommandDma (Some sample_command) 0 0x1000 (Some (replicate 40 0)) 100 (replicate 8 0) =
      Some (True, 32, Some out, bd')" by auto
  have "length sample_command = 8" by (simp add: sample_command_def)
  then show ?thesis using command_layout [OF e] e by simp
qed

end
