(* ===== verification/StationController.thy ===== *)
theory StationController
  imports FirmwareProtocol
begin

text \<open>The station state machine of \<open>src/network/StationController.hpp\<close> over an arbitrary backend, with
  the channel geometry of \<open>src/network/ChannelGeometry.hpp\<close>. Two ghost fields record what the
  backend was asked: the last traffic mode and the tokens handed out.\<close>

section \<open>Channels\<close>

record Channel =
  chn_band :: u8
  chn_width :: u8
  chn_center :: u8
  chn_primary :: u8

definition Channel0 :: Channel where
  "Channel0 = \<lparr>chn_band = 0, chn_width = 0, chn_center = 0, chn_primary = 0\<rparr>"

text \<open>\<open>rfk::validChannel\<close>: the bands are \<open>RTW89_BAND_2G = 0\<close> and \<open>RTW89_BAND_5G = 1\<close>.\<close>

definition rfk_validChannel :: "u8 \<Rightarrow> u8 \<Rightarrow> u8 \<Rightarrow> bool" where
  "rfk_validChannel band width center =
     (if band = 0 then (if width = 0 then 1 \<le> center \<and> center \<le> 14 else width = 1 \<and> 3 \<le> center \<and> center \<le> 11)
      else if band \<noteq> 1 then False
      else if width = 0 then 36 \<le> center \<and> center \<le> 64 \<and> center mod 4 = 0 \<or>
        100 \<le> center \<and> center \<le> 144 \<and> center mod 4 = 0 \<or>
        149 \<le> center \<and> center \<le> 177 \<and> (uint center - 149) mod 4 = 0
      else width = 1 \<and> center \<in> set [38, 46, 54, 62, 102, 110, 118, 126, 134, 142, 151, 159, 167, 175] \<or>
        width = 2 \<and> center \<in> set [42, 58, 106, 122, 138, 155, 171])"

definition validChannel :: "Channel \<Rightarrow> bool" where
  "validChannel c = (if \<not> rfk_validChannel (chn_band c) (chn_width c) (chn_center c) \<or>
       \<not> rfk_validChannel (chn_band c) 0 (chn_primary c) then False
     else let distance = uint (chn_primary c) - uint (chn_center c) in
       if chn_width c = 0 then distance = 0
       else if chn_band c = 0 \<and> chn_primary c = 14 then False
       else if chn_width c = 1 then distance = 2 \<or> distance = - 2
       else distance = 2 \<or> distance = - 2 \<or> distance = 6 \<or> distance = - 6)"

section \<open>Data\<close>

record Token =
  tok_epoch :: u64
  tok_operation :: u64

definition Token0 :: Token where
  "Token0 = \<lparr>tok_epoch = 0, tok_operation = 0\<rparr>"

definition same_token :: "Token \<Rightarrow> Token \<Rightarrow> bool" where
  "same_token a b \<longleftrightarrow> tok_epoch a = tok_epoch b \<and> tok_operation a = tok_operation b"

definition sameChannel :: "Channel \<Rightarrow> Channel \<Rightarrow> bool" where
  "sameChannel a b \<longleftrightarrow> chn_band a = chn_band b \<and> chn_width a = chn_width b \<and> chn_center a = chn_center b \<and>
     chn_primary a = chn_primary b"

text \<open>An address is its six bytes.\<close>

type_synonym Address = bytes

definition Address0 :: Address where
  "Address0 = replicate 6 0"

definition same_address :: "Address \<Rightarrow> Address \<Rightarrow> bool" where
  "same_address a b \<longleftrightarrow> list_all (\<lambda>i. a ! i = b ! i) [0..<6]"

definition unicast :: "Address \<Rightarrow> bool" where
  "unicast a \<longleftrightarrow> fold (OR) a 0 \<noteq> 0 \<and> a ! 0 AND 1 = 0"

record Interface =
  if_macid :: u8
  if_macIndex :: u8
  if_wmm :: u8
  if_port :: u8
  if_address :: Address
  if_home :: Channel

definition Interface0 :: Interface where
  "Interface0 = \<lparr>if_macid = 0, if_macIndex = 0, if_wmm = 0, if_port = 0, if_address = Address0, if_home = Channel0\<rparr>"

record Peer =
  pe_bssid :: Address
  pe_channel :: Channel
  pe_ssid :: bytes
  pe_ssidLength :: u8
  pe_protectedNetwork :: bool

definition Peer0 :: Peer where
  "Peer0 = \<lparr>pe_bssid = Address0, pe_channel = Channel0, pe_ssid = replicate 32 0, pe_ssidLength = 0,
     pe_protectedNetwork = False\<rparr>"

record Association =
  as_bssid :: Address
  as_channel :: Channel
  as_aid :: u16

definition Association0 :: Association where
  "Association0 = \<lparr>as_bssid = Address0, as_channel = Channel0, as_aid = 0\<rparr>"

record ScanChannel =
  sn_channel :: Channel
  sn_dwellMs :: u16
  sn_active :: bool

definition ScanChannel0 :: ScanChannel where
  "ScanChannel0 = \<lparr>sn_channel = Channel0, sn_dwellMs = 0, sn_active = False\<rparr>"

datatype Traffic = Tr_none | Tr_management | Tr_scanProbe | Tr_controlledPort | Tr_authorized

datatype Action =
    Ac_prepareInterface | Ac_idleTables | Ac_scanBegin | Ac_scanTune | Ac_scanRestore | Ac_scanEnd
  | Ac_prepareAuthentication | Ac_associationCmac | Ac_associationCam | Ac_disconnectCmac
  | Ac_disconnectCam | Ac_removeCam

datatype State =
    S_stopped | S_preparing | S_creatingRole | S_initialNoLink | S_installingIdle | S_idle
  | S_scanningBegin | S_scanningTune | S_scanningDwell | S_scanningRestore | S_scanningEnd
  | S_preparingAuthentication | S_authenticating | S_installingAssociationCmac | S_joining
  | S_installingAssociationCam | S_associated | S_authorized | S_disconnectingCmac | S_disconnecting
  | S_disconnectingCam | S_removingRole | S_removingCam | S_faulted

datatype Error =
    E_none | E_backend | E_clock | E_timeout | E_firmwareRejected | E_sequenceExhausted
  | E_authentication | E_association | E_cancelled | E_invalidProtocol

record ActionRequest =
  aq_action :: Action
  aq_token :: Token
  aq_association :: Token
  aq_interface :: Interface
  aq_peer :: Peer
  aq_channel :: Channel
  aq_aid :: u16
  aq_activeScan :: bool

text \<open>The backend: each operation acts on the state of the device.\<close>

record 's StationIo =
  io_inGate :: "'s \<Rightarrow> bool \<times> 's"
  io_setTraffic :: "Traffic \<Rightarrow> 's \<Rightarrow> bool \<times> 's"
  io_reserveH2cSequence :: "'s \<Rightarrow> (bool \<times> u8) \<times> 's"
  io_publishH2c :: "bytes \<Rightarrow> Token \<Rightarrow> 's \<Rightarrow> bool \<times> 's"
  io_beginAction :: "ActionRequest \<Rightarrow> 's \<Rightarrow> bool \<times> 's"
  io_beginAuthentication :: "Token \<Rightarrow> Peer \<Rightarrow> 's \<Rightarrow> bool \<times> 's"
  io_sendProbe :: "Token \<Rightarrow> Peer option \<Rightarrow> ScanChannel \<Rightarrow> 's \<Rightarrow> bool \<times> 's"
  io_cancelProtocol :: "Token \<Rightarrow> 's \<Rightarrow> bool \<times> 's"
  io_scanFinished :: "Token \<Rightarrow> bool \<Rightarrow> 's \<Rightarrow> 's"
  io_recoveryRequired :: "Token \<Rightarrow> Error \<Rightarrow> 's \<Rightarrow> 's"
  io_firmwareRestartVerified :: "u64 \<Rightarrow> 's \<Rightarrow> bool \<times> 's"

text \<open>The members of \<open>Controller\<close>, the device state, and the ghost fields \<open>sc_requested\<close> (the mode of the
  last \<open>setTraffic\<close> call) and \<open>sc_issued\<close> (the tokens handed out, newest first).\<close>

record 's Controller =
  sc_state :: State
  sc_scanResume :: State
  sc_error :: Error
  sc_interface :: Interface
  sc_peer :: Peer
  sc_association :: Association
  sc_channels :: "ScanChannel list"
  sc_channelCount :: nat
  sc_channelIndex :: nat
  sc_epoch :: Token
  sc_associationToken :: Token
  sc_scanToken :: Token
  sc_pendingToken :: Token
  sc_pendingAction :: Action
  sc_pendingCommand :: CommandId
  sc_pendingSequence :: u8
  sc_serial :: u64
  sc_lastNow :: u64
  sc_deadline :: u64
  sc_scanDeadline :: u64
  sc_clockStarted :: bool
  sc_waitingAction :: bool
  sc_waitingCommand :: bool
  sc_roleCreated :: bool
  sc_authenticated :: bool
  sc_scanCancelled :: bool
  sc_disconnectRequested :: bool
  sc_dev :: 's
  sc_requested :: Traffic
  sc_issued :: "Token list"

definition Controller0 :: "'s \<Rightarrow> 's Controller" where
  "Controller0 s = \<lparr>sc_state = S_stopped, sc_scanResume = S_idle, sc_error = E_none, sc_interface = Interface0,
     sc_peer = Peer0, sc_association = Association0, sc_channels = replicate 64 ScanChannel0,
     sc_channelCount = 0, sc_channelIndex = 0, sc_epoch = Token0, sc_associationToken = Token0,
     sc_scanToken = Token0, sc_pendingToken = Token0, sc_pendingAction = Ac_prepareInterface,
     sc_pendingCommand = CommandId0, sc_pendingSequence = 0, sc_serial = 0, sc_lastNow = 0,
     sc_deadline = 0, sc_scanDeadline = 0, sc_clockStarted = False, sc_waitingAction = False,
     sc_waitingCommand = False, sc_roleCreated = False, sc_authenticated = False,
     sc_scanCancelled = False, sc_disconnectRequested = False, sc_dev = s, sc_requested = Tr_none,
     sc_issued = []\<rparr>"

definition actionTimeout :: u64 where "actionTimeout = 12000000"
definition commandTimeout :: u64 where "commandTimeout = 2000000"
definition authenticationTimeout :: u64 where "authenticationTimeout = 10000000"

type_synonym 's step = "'s Controller \<Rightarrow> bool \<times> 's Controller"

section \<open>Private helpers\<close>

text \<open>A call of a backend operation that returns a success flag.\<close>

definition io_call :: "('s \<Rightarrow> bool \<times> 's) \<Rightarrow> 's step" where
  "io_call f c = (let (ok, s) = f (sc_dev c) in (ok, c\<lparr>sc_dev := s\<rparr>))"

definition setTraffic :: "'s StationIo \<Rightarrow> Traffic \<Rightarrow> 's step" where
  "setTraffic b v c = io_call (io_setTraffic b v) (c\<lparr>sc_requested := v\<rparr>)"

definition st_fail :: "'s StationIo \<Rightarrow> Error \<Rightarrow> 's step" where
  "st_fail b e c = (if sc_state c = S_faulted then (False, c)
     else let c = c\<lparr>sc_error := e, sc_state := S_faulted, sc_waitingAction := False, sc_waitingCommand := False\<rparr>;
              (_, c) = setTraffic b Tr_none c in
       (False, c\<lparr>sc_dev := io_recoveryRequired b (sc_epoch c) e (sc_dev c)\<rparr>))"

text \<open>\<open>result || fail(error)\<close>.\<close>

definition orFail :: "'s StationIo \<Rightarrow> Error \<Rightarrow> bool \<times> 's Controller \<Rightarrow> bool \<times> 's Controller" where
  "orFail b e r = (case r of (ok, c) \<Rightarrow> if ok then (True, c) else st_fail b e c)"

definition st_time :: "'s StationIo \<Rightarrow> u64 \<Rightarrow> 's step" where
  "st_time b now c = (let (gate, c) = io_call (io_inGate b) c in
     if \<not> gate \<or> sc_state c = S_faulted then (False, c)
     else if sc_clockStarted c \<and> now < sc_lastNow c then st_fail b E_clock c
     else (True, c\<lparr>sc_lastNow := now, sc_clockStarted := True\<rparr>))"

definition arm :: "'s StationIo \<Rightarrow> u64 \<Rightarrow> 's step" where
  "arm b duration c = (if - 1 - sc_lastNow c < duration then st_fail b E_clock c
     else (True, c\<lparr>sc_deadline := sc_lastNow c + duration\<rparr>))"

definition token :: "'s StationIo \<Rightarrow> 's Controller \<Rightarrow> Token \<times> 's Controller" where
  "token b c = (if sc_serial c = - 1 then (Token0, snd (st_fail b E_sequenceExhausted c))
     else let t = \<lparr>tok_epoch = tok_epoch (sc_epoch c), tok_operation = sc_serial c + 1\<rparr> in
       (t, c\<lparr>sc_serial := sc_serial c + 1, sc_issued := t # sc_issued c\<rparr>))"

definition traffic :: "'s StationIo \<Rightarrow> Traffic \<Rightarrow> 's step" where
  "traffic b v c = orFail b E_backend (setTraffic b v c)"

definition scanning :: "'s Controller \<Rightarrow> bool" where
  "scanning c \<longleftrightarrow> sc_state c \<in> {S_scanningBegin, S_scanningTune, S_scanningDwell, S_scanningRestore, S_scanningEnd}"

definition linked :: "'s Controller \<Rightarrow> bool" where
  "linked c \<longleftrightarrow> sc_state c = S_associated \<or> sc_state c = S_authorized"

definition action_request :: "Action \<Rightarrow> Channel \<Rightarrow> 's Controller \<Rightarrow> ActionRequest" where
  "action_request kind target c = \<lparr>aq_action = kind, aq_token = sc_pendingToken c,
     aq_association = sc_associationToken c, aq_interface = sc_interface c, aq_peer = sc_peer c,
     aq_channel = target, aq_aid = as_aid (sc_association c),
     aq_activeScan = (kind = Ac_scanTune \<and> sn_active (sc_channels c ! sc_channelIndex c))\<rparr>"

definition action :: "'s StationIo \<Rightarrow> Action \<Rightarrow> State \<Rightarrow> Channel \<Rightarrow> 's step" where
  "action b kind st target c = (if sc_waitingAction c \<or> sc_waitingCommand c then st_fail b E_backend c
     else let (t, c) = token b c; c = c\<lparr>sc_pendingToken := t\<rparr> in
       if sc_state c = S_faulted then (False, c)
       else andThen (arm b actionTimeout (c\<lparr>sc_pendingAction := kind, sc_waitingAction := True, sc_state := st\<rparr>))
         (\<lambda>c. orFail b E_backend (io_call (io_beginAction b (action_request kind target c)) c)))"

text \<open>The two commands of \<open>command\<close>: the encoded bytes, or \<open>None\<close> when the encoder refuses.\<close>

definition role_request :: "bool \<Rightarrow> 's Controller \<Rightarrow> RoleCommand" where
  "role_request rem c = \<lparr>rc_macid = if_macid (sc_interface c), rc_selfRole = 0,
     rc_updateMode = (if rem then 1 else 0), rc_wifiRole = 1\<rparr>"

definition join_request :: "bool \<Rightarrow> 's Controller \<Rightarrow> JoinCommand" where
  "join_request disc c = \<lparr>jc_macid = if_macid (sc_interface c), jc_band = if_macIndex (sc_interface c),
     jc_wmm = if_wmm (sc_interface c), jc_port = if_port (sc_interface c), jc_netType = (if disc then 0 else 2),
     jc_wifiRole = 1, jc_selfRole = 0, jc_disconnect = disc, jc_trigger = False\<rparr>"

definition command_bytes :: "bool \<Rightarrow> bool \<Rightarrow> u8 \<Rightarrow> 's Controller \<Rightarrow> bytes option" where
  "command_bytes role flag sequence c =
     (case (if role then encodeRole (role_request flag c) sequence (Some (replicate 12 0))
        else encodeJoin (join_request flag c) sequence (Some (replicate 12 0))) of
        Some (True, len, Some buf) \<Rightarrow> Some (take len buf) | _ \<Rightarrow> None)"

definition command :: "'s StationIo \<Rightarrow> bool \<Rightarrow> bool \<Rightarrow> State \<Rightarrow> 's step" where
  "command b role flag st c = (if sc_waitingAction c \<or> sc_waitingCommand c then st_fail b E_backend c
     else let ((ok, sequence), s) = io_reserveH2cSequence b (sc_dev c); c = c\<lparr>sc_dev := s\<rparr> in
       if \<not> ok then st_fail b E_sequenceExhausted c
       else let c = c\<lparr>sc_pendingCommand := \<lparr>ci_category = 1, ci_commandClass = 8,
                        ci_function = (if role then 4 else 0)\<rparr>\<rparr> in
         case command_bytes role flag sequence c of
           None \<Rightarrow> st_fail b E_backend c
         | Some bs \<Rightarrow> let (t, c) = token b c; c = c\<lparr>sc_pendingToken := t\<rparr> in
             if sc_state c = S_faulted then (False, c)
             else andThen (arm b commandTimeout (c\<lparr>sc_pendingSequence := sequence, sc_waitingCommand := True, sc_state := st\<rparr>))
               (\<lambda>c. orFail b E_backend (io_call (io_publishH2c b bs (sc_pendingToken c)) c)))"

definition beginDisconnect :: "'s StationIo \<Rightarrow> 's step" where
  "beginDisconnect b c =
     andThen (traffic b Tr_none c) (\<lambda>c.
     andThen (orFail b E_backend (io_call (io_cancelProtocol b (sc_associationToken c)) c)) (\<lambda>c.
     action b Ac_disconnectCmac S_disconnectingCmac Channel0 c))"

definition tuneScan :: "'s StationIo \<Rightarrow> 's step" where
  "tuneScan b c = andThen (traffic b Tr_none c) (\<lambda>c.
     action b Ac_scanTune S_scanningTune (sn_channel (sc_channels c ! sc_channelIndex c)) c)"

definition restoreScan :: "'s StationIo \<Rightarrow> 's step" where
  "restoreScan b c = andThen (traffic b Tr_none c) (\<lambda>c.
     action b Ac_scanRestore S_scanningRestore
       (if sc_scanResume c = S_idle then if_home (sc_interface c) else pe_channel (sc_peer c)) c)"

definition completeScan :: "'s StationIo \<Rightarrow> 's step" where
  "completeScan b c = (let c = c\<lparr>sc_state := sc_scanResume c\<rparr>;
       mode = (if sc_state c = S_authorized then Tr_authorized
               else if sc_state c = S_associated then Tr_controlledPort else Tr_management) in
     andThen (traffic b (if sc_disconnectRequested c then Tr_none else mode) c) (\<lambda>c.
       let c = c\<lparr>sc_dev := io_scanFinished b (sc_scanToken c) (sc_scanCancelled c) (sc_dev c), sc_scanToken := Token0\<rparr> in
       if sc_disconnectRequested c then beginDisconnect b c else (True, c)))"

definition expire :: "'s StationIo \<Rightarrow> 's step" where
  "expire b c = (if scanning c \<and> sc_scanDeadline c \<le> sc_lastNow c then st_fail b E_timeout c
     else if sc_waitingAction c \<or> sc_waitingCommand c
     then (if sc_deadline c \<le> sc_lastNow c then st_fail b E_timeout c else (True, c))
     else if sc_state c = S_authenticating \<and> sc_deadline c \<le> sc_lastNow c
     then beginDisconnect b (c\<lparr>sc_error := E_timeout, sc_disconnectRequested := True\<rparr>)
     else (True, c))"

section \<open>Entry points\<close>

text \<open>\<open>if (!time(now) || guard) return false;\<close>: the guard is read after the clock check.\<close>

definition st_enter :: "'s StationIo \<Rightarrow> u64 \<Rightarrow> ('s Controller \<Rightarrow> bool) \<Rightarrow> 's step \<Rightarrow> 's step" where
  "st_enter b now guard body c = andThen (st_time b now c) (\<lambda>c. if guard c then body c else (False, c))"

definition requiresRecovery :: "'s Controller \<Rightarrow> bool" where
  "requiresRecovery c \<longleftrightarrow> sc_state c = S_faulted"

definition st_associated :: "'s Controller \<Rightarrow> bool" where
  "st_associated c \<longleftrightarrow> linked c \<or> scanning c \<and> sc_scanResume c \<noteq> S_idle"

definition portAuthorized :: "'s Controller \<Rightarrow> bool" where
  "portAuthorized c \<longleftrightarrow> sc_state c = S_authorized"

definition canSendScanProbe :: "Token \<Rightarrow> u64 \<Rightarrow> 's Controller \<Rightarrow> bool" where
  "canSendScanProbe original now c \<longleftrightarrow> sc_state c = S_scanningDwell \<and> \<not> sc_scanCancelled c \<and>
     \<not> sc_disconnectRequested c \<and> same_token original (sc_scanToken c) \<and> tok_operation original \<noteq> 0 \<and>
     sc_channelIndex c < sc_channelCount c \<and> sn_active (sc_channels c ! sc_channelIndex c) \<and>
     sc_lastNow c \<le> now \<and> now < sc_deadline c \<and> now < sc_scanDeadline c"

definition restart :: "'s StationIo \<Rightarrow> u64 \<Rightarrow> u64 \<Rightarrow> 's step" where
  "restart b newEpoch now c = (let (gate, c) = io_call (io_inGate b) c in
     if \<not> gate \<or> newEpoch = 0 \<or> newEpoch \<le> tok_epoch (sc_epoch c) then (False, c)
     else andThen (io_call (io_firmwareRestartVerified b newEpoch) c) (\<lambda>c.
          andThen (setTraffic b Tr_none c) (\<lambda>c.
       (True, c\<lparr>sc_state := S_stopped, sc_error := E_none, sc_epoch := \<lparr>tok_epoch = newEpoch, tok_operation = 0\<rparr>,
          sc_serial := 0, sc_associationToken := Token0, sc_scanToken := Token0, sc_pendingToken := Token0,
          sc_waitingAction := False, sc_waitingCommand := False, sc_roleCreated := False,
          sc_authenticated := False, sc_scanCancelled := False, sc_disconnectRequested := False,
          sc_channelCount := 0, sc_channelIndex := 0, sc_interface := Interface0, sc_peer := Peer0,
          sc_association := Association0, sc_lastNow := now, sc_clockStarted := True\<rparr>))))"

definition start :: "'s StationIo \<Rightarrow> Interface \<Rightarrow> u64 \<Rightarrow> 's step" where
  "start b config now = st_enter b now
     (\<lambda>c. \<not> (sc_state c \<noteq> S_stopped \<or> tok_epoch (sc_epoch c) = 0 \<or> \<not> unicast (if_address config) \<or>
        if_macIndex config \<noteq> 0 \<or> 128 \<le> if_macid config \<or> 3 < if_wmm config \<or> 4 < if_port config \<or>
        \<not> validChannel (if_home config)))
     (\<lambda>c. andThen (traffic b Tr_none (c\<lparr>sc_interface := config, sc_error := E_none\<rparr>))
        (action b Ac_prepareInterface S_preparing (if_home config)))"

definition scan_channel_ok :: "ScanChannel \<Rightarrow> bool" where
  "scan_channel_ok ch \<longleftrightarrow> \<not> (\<not> validChannel (sn_channel ch) \<or> chn_width (sn_channel ch) \<noteq> 0 \<or>
     sn_dwellMs ch < 10 \<or> 1000 < sn_dwellMs ch)"

definition scan_budget :: "ScanChannel list \<Rightarrow> u64" where
  "scan_budget channels = foldl (\<lambda>d ch. d + ucast (sn_dwellMs ch) * 1000) 0 channels +
     (of_nat (length channels) + 4) * actionTimeout"

definition scan :: "'s StationIo \<Rightarrow> ScanChannel list option \<Rightarrow> u64 \<Rightarrow> 's step" where
  "scan b source now = st_enter b now
     (\<lambda>c. (sc_state c = S_idle \<or> sc_state c = S_authorized) \<and>
        (case source of None \<Rightarrow> False | Some chs \<Rightarrow> chs \<noteq> [] \<and> length chs \<le> 64 \<and> list_all scan_channel_ok chs))
     (\<lambda>c. let chs = the source; budget = scan_budget chs in
        if - 1 - now < budget then st_fail b E_clock c
        else let c = c\<lparr>sc_channels := chs @ drop (length chs) (sc_channels c), sc_channelCount := length chs,
                       sc_channelIndex := 0, sc_scanResume := sc_state c, sc_scanCancelled := False\<rparr>;
                 (t, c) = token b c; c = c\<lparr>sc_scanToken := t\<rparr> in
          if sc_state c = S_faulted then (False, c)
          else andThen (traffic b Tr_none (c\<lparr>sc_scanDeadline := now + budget\<rparr>))
            (action b Ac_scanBegin S_scanningBegin Channel0))"

definition cancelScan :: "'s StationIo \<Rightarrow> Token \<Rightarrow> u64 \<Rightarrow> 's step" where
  "cancelScan b original now = st_enter b now (\<lambda>c. scanning c \<and> same_token original (sc_scanToken c))
     (\<lambda>c. andThen (expire b c) (\<lambda>c. let c = c\<lparr>sc_scanCancelled := True\<rparr> in
        if sc_state c = S_scanningDwell then restoreScan b c else (True, c)))"

definition connect :: "'s StationIo \<Rightarrow> Peer \<Rightarrow> u64 \<Rightarrow> 's step" where
  "connect b peer now = st_enter b now
     (\<lambda>c. \<not> (sc_state c \<noteq> S_idle \<or> \<not> unicast (pe_bssid peer) \<or> 32 < pe_ssidLength peer \<or>
        \<not> validChannel (pe_channel peer)))
     (\<lambda>c. let c = c\<lparr>sc_peer := peer, sc_association := Association0, sc_authenticated := False, sc_error := E_none\<rparr>;
              (t, c) = token b c; c = c\<lparr>sc_associationToken := t\<rparr> in
        if sc_state c = S_faulted then (False, c)
        else andThen (traffic b Tr_none c)
          (action b Ac_prepareAuthentication S_preparingAuthentication (pe_channel peer)))"

definition authenticated :: "'s StationIo \<Rightarrow> Token \<Rightarrow> Address \<Rightarrow> bool \<Rightarrow> u64 \<Rightarrow> 's step" where
  "authenticated b original bssid success now = st_enter b now
     (\<lambda>c. sc_state c = S_authenticating \<and> same_token original (sc_associationToken c) \<and>
        same_address bssid (pe_bssid (sc_peer c)))
     (\<lambda>c. andThen (expire b c) (\<lambda>c.
        if \<not> success then beginDisconnect b (c\<lparr>sc_error := E_authentication, sc_disconnectRequested := True\<rparr>)
        else (True, c\<lparr>sc_authenticated := True\<rparr>)))"

definition associationReceived :: "'s StationIo \<Rightarrow> Token \<Rightarrow> Association \<Rightarrow> u64 \<Rightarrow> 's step" where
  "associationReceived b original peer now = st_enter b now
     (\<lambda>c. sc_state c = S_authenticating \<and> sc_authenticated c \<and> same_token original (sc_associationToken c) \<and>
        same_address (as_bssid peer) (pe_bssid (sc_peer c)) \<and> sameChannel (as_channel peer) (pe_channel (sc_peer c)) \<and>
        as_aid peer \<noteq> 0 \<and> as_aid peer \<le> 2007)
     (\<lambda>c. andThen (expire b c) (\<lambda>c.
        action b Ac_associationCmac S_installingAssociationCmac Channel0 (c\<lparr>sc_association := peer\<rparr>)))"

definition associationRejected :: "'s StationIo \<Rightarrow> Token \<Rightarrow> Address \<Rightarrow> u16 \<Rightarrow> u64 \<Rightarrow> 's step" where
  "associationRejected b original bssid status now = st_enter b now
     (\<lambda>c. sc_state c = S_authenticating \<and> sc_authenticated c \<and> same_token original (sc_associationToken c) \<and>
        same_address bssid (pe_bssid (sc_peer c)) \<and> status \<noteq> 0)
     (\<lambda>c. andThen (expire b c) (\<lambda>c.
        beginDisconnect b (c\<lparr>sc_error := E_association, sc_disconnectRequested := True\<rparr>)))"

definition authorizePort :: "'s StationIo \<Rightarrow> Token \<Rightarrow> u64 \<Rightarrow> 's step" where
  "authorizePort b original now = st_enter b now
     (\<lambda>c. sc_state c = S_associated \<and> same_token original (sc_associationToken c))
     (\<lambda>c. andThen (traffic b Tr_authorized c) (\<lambda>c. (True, c\<lparr>sc_state := S_authorized\<rparr>)))"

definition revokePort :: "'s StationIo \<Rightarrow> Token \<Rightarrow> u64 \<Rightarrow> 's step" where
  "revokePort b original now = st_enter b now (\<lambda>c. same_token original (sc_associationToken c))
     (\<lambda>c. andThen (expire b c) (\<lambda>c.
        if scanning c \<and> sc_scanResume c \<noteq> S_idle then (True, c\<lparr>sc_scanResume := S_associated\<rparr>)
        else if \<not> linked c then (False, c)
        else andThen (traffic b Tr_controlledPort c) (\<lambda>c. (True, c\<lparr>sc_state := S_associated\<rparr>))))"

text \<open>The range \<open>preparingAuthentication .. disconnectingCam\<close> of \<open>disconnect\<close>.\<close>

definition disconnectable :: "State \<Rightarrow> bool" where
  "disconnectable st \<longleftrightarrow> st \<in> {S_preparingAuthentication, S_authenticating, S_installingAssociationCmac,
     S_joining, S_installingAssociationCam, S_associated, S_authorized, S_disconnectingCmac, S_disconnecting,
     S_disconnectingCam}"

definition disconnect :: "'s StationIo \<Rightarrow> u64 \<Rightarrow> 's step" where
  "disconnect b now = st_enter b now (\<lambda>c. True) (\<lambda>c. andThen (expire b c) (\<lambda>c.
     if sc_state c = S_idle then (True, c)
     else if scanning c
     then cancelScan b (sc_scanToken c) now
       (if sc_scanResume c \<noteq> S_idle then c\<lparr>sc_disconnectRequested := True\<rparr> else c)
     else if \<not> disconnectable (sc_state c) then (False, c)
     else andThen (traffic b Tr_none (c\<lparr>sc_disconnectRequested := True\<rparr>)) (\<lambda>c.
       if sc_waitingAction c \<or> sc_waitingCommand c then (True, c) else beginDisconnect b c)))"

definition stop :: "'s StationIo \<Rightarrow> u64 \<Rightarrow> 's step" where
  "stop b now = st_enter b now (\<lambda>c. sc_state c = S_idle)
     (\<lambda>c. andThen (traffic b Tr_none c) (command b True True S_removingRole))"

definition tick :: "'s StationIo \<Rightarrow> u64 \<Rightarrow> 's step" where
  "tick b now = st_enter b now (\<lambda>c. True) (\<lambda>c. andThen (expire b c) (\<lambda>c.
     if sc_state c = S_scanningDwell \<and> sc_deadline c \<le> now then
       (if sc_scanCancelled c then restoreScan b c
        else let c = c\<lparr>sc_channelIndex := sc_channelIndex c + 1\<rparr> in
          if sc_channelIndex c = sc_channelCount c then restoreScan b c else tuneScan b c)
     else (True, c)))"

text \<open>The body of \<open>actionComplete\<close> after a successful completion.\<close>

definition dwell_scan :: "'s StationIo \<Rightarrow> 's step" where
  "dwell_scan b c = (let ch = sc_channels c ! sc_channelIndex c in
     andThen (arm b (ucast (sn_dwellMs ch) * 1000) (c\<lparr>sc_state := S_scanningDwell\<rparr>)) (\<lambda>c.
     andThen (traffic b (if sn_active ch then Tr_scanProbe else Tr_none) c) (\<lambda>c.
     if sn_active ch
     then orFail b E_backend (io_call (io_sendProbe b (sc_scanToken c)
            (if sc_scanResume c = S_idle then None else Some (sc_peer c)) ch) c)
     else (True, c))))"

fun completed_action :: "'s StationIo \<Rightarrow> Action \<Rightarrow> 's step" where
  "completed_action b Ac_prepareInterface c = command b True False S_creatingRole c"
| "completed_action b Ac_idleTables c = traffic b Tr_management (c\<lparr>sc_state := S_idle\<rparr>)"
| "completed_action b Ac_scanBegin c = (if sc_scanCancelled c then restoreScan b c else tuneScan b c)"
| "completed_action b Ac_scanTune c = (if sc_scanCancelled c then restoreScan b c else dwell_scan b c)"
| "completed_action b Ac_scanRestore c = action b Ac_scanEnd S_scanningEnd Channel0 c"
| "completed_action b Ac_scanEnd c = completeScan b c"
| "completed_action b Ac_prepareAuthentication c =
     (let c = c\<lparr>sc_interface := (sc_interface c)\<lparr>if_home := pe_channel (sc_peer c)\<rparr>\<rparr> in
      if sc_disconnectRequested c then beginDisconnect b c
      else andThen (arm b authenticationTimeout (c\<lparr>sc_state := S_authenticating\<rparr>)) (\<lambda>c.
           andThen (traffic b Tr_management c) (\<lambda>c.
           orFail b E_backend (io_call (io_beginAuthentication b (sc_associationToken c) (sc_peer c)) c))))"
| "completed_action b Ac_associationCmac c =
     (if sc_disconnectRequested c then beginDisconnect b c else command b False False S_joining c)"
| "completed_action b Ac_associationCam c =
     (if sc_disconnectRequested c then beginDisconnect b c
      else traffic b Tr_controlledPort (c\<lparr>sc_state := S_associated\<rparr>))"
| "completed_action b Ac_disconnectCmac c = command b False True S_disconnecting c"
| "completed_action b Ac_disconnectCam c = traffic b Tr_management
     (c\<lparr>sc_state := S_idle, sc_associationToken := Token0, sc_association := Association0, sc_peer := Peer0,
        sc_authenticated := False, sc_disconnectRequested := False\<rparr>)"
| "completed_action b Ac_removeCam c = (True, c\<lparr>sc_roleCreated := False, sc_state := S_stopped\<rparr>)"

definition actionComplete :: "'s StationIo \<Rightarrow> Token \<Rightarrow> Action \<Rightarrow> bool \<Rightarrow> u64 \<Rightarrow> 's step" where
  "actionComplete b original kind success now = st_enter b now
     (\<lambda>c. sc_waitingAction c \<and> same_token original (sc_pendingToken c) \<and> kind = sc_pendingAction c)
     (\<lambda>c. andThen (expire b c) (\<lambda>c. let c = c\<lparr>sc_waitingAction := False\<rparr> in
        if \<not> success then st_fail b E_backend c else completed_action b kind c))"

text \<open>The body of \<open>firmwareEvent\<close> after the DONE acknowledgement of the pending command.\<close>

definition completed_command :: "'s StationIo \<Rightarrow> 's step" where
  "completed_command b c = (case sc_state c of
     S_creatingRole \<Rightarrow> command b False True S_initialNoLink (c\<lparr>sc_roleCreated := True\<rparr>)
   | S_initialNoLink \<Rightarrow> action b Ac_idleTables S_installingIdle Channel0 c
   | S_joining \<Rightarrow> if sc_disconnectRequested c then beginDisconnect b c
        else action b Ac_associationCam S_installingAssociationCam Channel0 c
   | S_disconnecting \<Rightarrow> action b Ac_disconnectCam S_disconnectingCam Channel0 c
   | S_removingRole \<Rightarrow> action b Ac_removeCam S_removingCam Channel0 c
   | _ \<Rightarrow> st_fail b E_backend c)"

text \<open>An event here carries at least the bytes its length states, so that the acknowledgement decoder
  stays in its payload.\<close>

definition firmwareEvent :: "'s StationIo \<Rightarrow> FirmwareEvent \<Rightarrow> u64 \<Rightarrow> u64 \<Rightarrow> 's step" where
  "firmwareEvent b ev receiveEpoch now = st_enter b now
     (\<lambda>c. sc_waitingCommand c \<and> receiveEpoch = tok_epoch (sc_epoch c))
     (\<lambda>c. andThen (expire b c) (\<lambda>c. case decodeAck ev of
        Some (True, ack) \<Rightarrow>
          if \<not> fa_done ack \<or> fa_sequence ack \<noteq> sc_pendingSequence c \<or> \<not> sameCommand (fa_command ack) (sc_pendingCommand c)
          then (False, c)
          else let c = c\<lparr>sc_waitingCommand := False\<rparr> in
            if fa_returnCode ack \<noteq> 0 then st_fail b E_firmwareRejected c else completed_command b c
      | _ \<Rightarrow> (False, c)))"

end
