(* ===== verification/StationInvariant.thy ===== *)
theory StationInvariant
  imports StationController
begin

text \<open>The invariant of the station controller: what is pending in which state, the traffic a state may
  have asked for, the access point's evidence behind an association, and the order of the tokens.
  Every helper and every entry point keeps it.\<close>

section \<open>The invariant\<close>

text \<open>The action or the command a state waits for.\<close>

fun awaits :: "State \<Rightarrow> Action option" where
  "awaits S_preparing = Some Ac_prepareInterface"
| "awaits S_installingIdle = Some Ac_idleTables"
| "awaits S_scanningBegin = Some Ac_scanBegin"
| "awaits S_scanningTune = Some Ac_scanTune"
| "awaits S_scanningRestore = Some Ac_scanRestore"
| "awaits S_scanningEnd = Some Ac_scanEnd"
| "awaits S_preparingAuthentication = Some Ac_prepareAuthentication"
| "awaits S_installingAssociationCmac = Some Ac_associationCmac"
| "awaits S_installingAssociationCam = Some Ac_associationCam"
| "awaits S_disconnectingCmac = Some Ac_disconnectCmac"
| "awaits S_disconnectingCam = Some Ac_disconnectCam"
| "awaits S_removingCam = Some Ac_removeCam"
| "awaits _ = None"

definition awaits_cmd :: "State \<Rightarrow> u8 option" where
  "awaits_cmd st = (if st = S_creatingRole \<or> st = S_removingRole then Some 4
     else if st = S_initialNoLink \<or> st = S_joining \<or> st = S_disconnecting then Some 0 else None)"

text \<open>The traffic a state may have asked for: data only with an authorized port.\<close>

fun allowed :: "State \<Rightarrow> Traffic set" where
  "allowed S_idle = {Tr_none, Tr_management}"
| "allowed S_scanningDwell = {Tr_none, Tr_scanProbe}"
| "allowed S_authenticating = {Tr_none, Tr_management}"
| "allowed S_installingAssociationCmac = {Tr_none, Tr_management}"
| "allowed S_joining = {Tr_none, Tr_management}"
| "allowed S_installingAssociationCam = {Tr_none, Tr_management}"
| "allowed S_associated = {Tr_none, Tr_controlledPort}"
| "allowed S_authorized = {Tr_none, Tr_authorized}"
| "allowed _ = {Tr_none}"

text \<open>The access point's evidence for the current attempt: an authentication and a matching association
  response.\<close>

definition evidence :: "'s Controller \<Rightarrow> bool" where
  "evidence c \<longleftrightarrow> sc_authenticated c \<and> same_address (as_bssid (sc_association c)) (pe_bssid (sc_peer c)) \<and>
     sameChannel (as_channel (sc_association c)) (pe_channel (sc_peer c)) \<and>
     as_aid (sc_association c) \<noteq> 0 \<and> as_aid (sc_association c) \<le> 2007"

definition scan_state :: "State \<Rightarrow> bool" where
  "scan_state st \<longleftrightarrow> st \<in> {S_scanningBegin, S_scanningTune, S_scanningDwell, S_scanningRestore, S_scanningEnd}"

text \<open>What a state says about the rest of the controller.\<close>

definition at_state :: "State \<Rightarrow> 's Controller \<Rightarrow> bool" where
  "at_state st c \<longleftrightarrow> sc_requested c \<in> allowed st \<and>
     (st \<in> {S_installingAssociationCmac, S_joining, S_installingAssociationCam, S_associated, S_authorized}
        \<longrightarrow> evidence c) \<and>
     (scan_state st \<longrightarrow> sc_scanResume c \<in> {S_idle, S_associated, S_authorized} \<and>
        (sc_scanResume c \<noteq> S_idle \<longrightarrow> evidence c)) \<and>
     (st \<in> {S_scanningBegin, S_scanningTune, S_scanningDwell} \<longrightarrow> sc_channelIndex c < sc_channelCount c)"

definition waits :: "'s Controller \<Rightarrow> bool" where
  "waits c \<longleftrightarrow> sc_waitingAction c = (awaits (sc_state c) \<noteq> None) \<and>
     (sc_waitingAction c \<longrightarrow> awaits (sc_state c) = Some (sc_pendingAction c)) \<and>
     sc_waitingCommand c = (awaits_cmd (sc_state c) \<noteq> None) \<and>
     (sc_waitingCommand c \<longrightarrow> ci_category (sc_pendingCommand c) = 1 \<and> ci_commandClass (sc_pendingCommand c) = 8 \<and>
        awaits_cmd (sc_state c) = Some (ci_function (sc_pendingCommand c))) \<and>
     (sc_waitingAction c \<or> sc_waitingCommand c \<longrightarrow> sc_pendingToken c \<in> set (sc_issued c) \<and>
        tok_epoch (sc_pendingToken c) = tok_epoch (sc_epoch c))"

text \<open>Tokens are issued in increasing order and none is beyond the current epoch and serial.\<close>

definition tok_less :: "Token \<Rightarrow> Token \<Rightarrow> bool" where
  "tok_less a b \<longleftrightarrow> tok_epoch a < tok_epoch b \<or> tok_epoch a = tok_epoch b \<and> tok_operation a < tok_operation b"

definition core :: "'s Controller \<Rightarrow> bool" where
  "core c \<longleftrightarrow> length (sc_channels c) = 64 \<and> sc_channelCount c \<le> 64 \<and>
     sorted_wrt (\<lambda>a b. tok_less b a) (sc_issued c) \<and>
     (\<forall>t \<in> set (sc_issued c). tok_epoch t < tok_epoch (sc_epoch c) \<or>
        tok_epoch t = tok_epoch (sc_epoch c) \<and> tok_operation t \<le> sc_serial c)"

definition st_inv :: "'s Controller \<Rightarrow> bool" where
  "st_inv c \<longleftrightarrow> core c \<and> waits c \<and> at_state (sc_state c) c"

lemma st_inv_init: "st_inv (Controller0 s)"
  by (simp add: st_inv_def core_def waits_def at_state_def Controller0_def awaits_cmd_def scan_state_def)

lemma none_allowed [simp]: "Tr_none \<in> allowed st"
  by (cases st) simp_all

text \<open>The invariant does not look at the device, the clock, the error or the deadlines.\<close>

lemma core_unrelated [simp]:
  "core (c\<lparr>sc_dev := s\<rparr>) = core c" "core (c\<lparr>sc_requested := v\<rparr>) = core c" "core (c\<lparr>sc_deadline := d\<rparr>) = core c"
  "core (c\<lparr>sc_state := st\<rparr>) = core c" "core (c\<lparr>sc_error := e\<rparr>) = core c" "core (c\<lparr>sc_pendingToken := t\<rparr>) = core c"
  "core (c\<lparr>sc_waitingAction := w\<rparr>) = core c" "core (c\<lparr>sc_waitingCommand := w\<rparr>) = core c"
  "core (c\<lparr>sc_lastNow := d\<rparr>) = core c" "core (c\<lparr>sc_clockStarted := w\<rparr>) = core c"
  "core (c\<lparr>sc_scanDeadline := d\<rparr>) = core c" "core (c\<lparr>sc_pendingAction := a\<rparr>) = core c"
  "core (c\<lparr>sc_pendingCommand := cmd\<rparr>) = core c" "core (c\<lparr>sc_pendingSequence := sq\<rparr>) = core c"
  "core (c\<lparr>sc_scanToken := t\<rparr>) = core c" "core (c\<lparr>sc_associationToken := t\<rparr>) = core c"
  "core (c\<lparr>sc_peer := p\<rparr>) = core c" "core (c\<lparr>sc_interface := i\<rparr>) = core c" "core (c\<lparr>sc_association := as\<rparr>) = core c"
  "core (c\<lparr>sc_authenticated := w\<rparr>) = core c" "core (c\<lparr>sc_scanCancelled := w\<rparr>) = core c"
  "core (c\<lparr>sc_disconnectRequested := w\<rparr>) = core c" "core (c\<lparr>sc_roleCreated := w\<rparr>) = core c"
  "core (c\<lparr>sc_scanResume := st\<rparr>) = core c" "core (c\<lparr>sc_channelIndex := i2\<rparr>) = core c"
  by (simp_all add: core_def)

lemma evidence_unrelated [simp]:
  "evidence (c\<lparr>sc_dev := s\<rparr>) = evidence c" "evidence (c\<lparr>sc_requested := v\<rparr>) = evidence c"
  "evidence (c\<lparr>sc_deadline := d\<rparr>) = evidence c" "evidence (c\<lparr>sc_state := st\<rparr>) = evidence c"
  "evidence (c\<lparr>sc_error := e\<rparr>) = evidence c" "evidence (c\<lparr>sc_pendingToken := t\<rparr>) = evidence c"
  "evidence (c\<lparr>sc_waitingAction := w\<rparr>) = evidence c" "evidence (c\<lparr>sc_waitingCommand := w\<rparr>) = evidence c"
  "evidence (c\<lparr>sc_lastNow := d\<rparr>) = evidence c" "evidence (c\<lparr>sc_clockStarted := w\<rparr>) = evidence c"
  "evidence (c\<lparr>sc_scanDeadline := d\<rparr>) = evidence c" "evidence (c\<lparr>sc_pendingAction := a\<rparr>) = evidence c"
  "evidence (c\<lparr>sc_pendingCommand := cmd\<rparr>) = evidence c" "evidence (c\<lparr>sc_pendingSequence := sq\<rparr>) = evidence c"
  "evidence (c\<lparr>sc_scanToken := t\<rparr>) = evidence c" "evidence (c\<lparr>sc_interface := i\<rparr>) = evidence c"
  "evidence (c\<lparr>sc_scanCancelled := w\<rparr>) = evidence c" "evidence (c\<lparr>sc_disconnectRequested := w\<rparr>) = evidence c"
  "evidence (c\<lparr>sc_scanResume := st\<rparr>) = evidence c" "evidence (c\<lparr>sc_channelIndex := i2\<rparr>) = evidence c"
  "evidence (c\<lparr>sc_serial := d\<rparr>) = evidence c" "evidence (c\<lparr>sc_issued := ts\<rparr>) = evidence c"
  "evidence (c\<lparr>sc_channels := chs\<rparr>) = evidence c" "evidence (c\<lparr>sc_channelCount := i2\<rparr>) = evidence c"
  by (simp_all add: evidence_def)

section \<open>The helpers keep the invariant\<close>

lemma faulted_inv:
  "core c \<Longrightarrow> sc_state c = S_faulted \<Longrightarrow> \<not> sc_waitingAction c \<Longrightarrow> \<not> sc_waitingCommand c \<Longrightarrow>
   sc_requested c = Tr_none \<Longrightarrow> st_inv c"
  by (simp add: st_inv_def waits_def at_state_def awaits_cmd_def scan_state_def)

lemma st_fail_inv: "core c \<Longrightarrow> sc_state c \<noteq> S_faulted \<Longrightarrow> st_inv (snd (st_fail b e c)) \<and> fst (st_fail b e c) = False \<and> sc_state (snd (st_fail b e c)) = S_faulted"
  by (auto simp: st_fail_def setTraffic_def io_call_def Let_def split: prod.splits intro!: faulted_inv)

lemma st_fail_out: "core c \<Longrightarrow> sc_state c \<noteq> S_faulted \<Longrightarrow> outcome Q st_inv (st_fail b e c)"
  using st_fail_inv [of c b e] by (cases "st_fail b e c") (simp add: outcome_def)

lemma io_out:
  "core c \<Longrightarrow> sc_state c \<noteq> S_faulted \<Longrightarrow> outcome (\<lambda>c'. \<exists>s. c' = c\<lparr>sc_dev := s\<rparr>) st_inv (orFail b e (io_call f c))"
  by (auto simp: orFail_def io_call_def split: prod.splits intro!: st_fail_out)

lemma traffic_out:
  "core c \<Longrightarrow> sc_state c \<noteq> S_faulted \<Longrightarrow>
   outcome (\<lambda>c'. \<exists>s. c' = c\<lparr>sc_requested := v, sc_dev := s\<rparr>) st_inv (traffic b v c)"
  by (auto simp: traffic_def orFail_def setTraffic_def io_call_def split: prod.splits intro!: st_fail_out)

lemma arm_out:
  "core c \<Longrightarrow> sc_state c \<noteq> S_faulted \<Longrightarrow> outcome (\<lambda>c'. \<exists>d. c' = c\<lparr>sc_deadline := d\<rparr>) st_inv (arm b d0 c)"
  by (auto simp: arm_def intro!: st_fail_out)

lemma word_less_succ: "x \<noteq> - 1 \<Longrightarrow> x < x + (1 :: u64)"
  by (simp add: word_less_nat_alt unatSuc eq_neg_iff_add_eq_0 add.commute)

lemma token_out:
  assumes "core c" and "sc_state c \<noteq> S_faulted" and "token b c = (t, c')"
  shows "if sc_state c' = S_faulted then st_inv c'
    else tok_epoch t = tok_epoch (sc_epoch c) \<and> core c' \<and>
      c' = c\<lparr>sc_serial := sc_serial c + 1, sc_issued := t # sc_issued c\<rparr>"
proof (cases "sc_serial c = - 1")
  case True
  then show ?thesis using assms st_fail_inv [of c b E_sequenceExhausted] by (auto simp: token_def)
next
  case False
  then have t: "t = \<lparr>tok_epoch = tok_epoch (sc_epoch c), tok_operation = sc_serial c + 1\<rparr>"
    and c': "c' = c\<lparr>sc_serial := sc_serial c + 1, sc_issued := t # sc_issued c\<rparr>"
    using assms(3) by (auto simp: token_def Let_def)
  have "core c'"
    using assms(1) word_less_succ [OF False] by (fastforce simp: core_def c' t tok_less_def)
  then show ?thesis using assms(2) t c' by simp
qed

lemma at_state_unrelated [simp]:
  "at_state st (c\<lparr>sc_dev := s\<rparr>) = at_state st c" "at_state st (c\<lparr>sc_deadline := d\<rparr>) = at_state st c"
  "at_state st (c\<lparr>sc_state := st2\<rparr>) = at_state st c" "at_state st (c\<lparr>sc_error := e\<rparr>) = at_state st c"
  "at_state st (c\<lparr>sc_pendingToken := t\<rparr>) = at_state st c" "at_state st (c\<lparr>sc_waitingAction := w\<rparr>) = at_state st c"
  "at_state st (c\<lparr>sc_waitingCommand := w\<rparr>) = at_state st c" "at_state st (c\<lparr>sc_lastNow := d\<rparr>) = at_state st c"
  "at_state st (c\<lparr>sc_clockStarted := w\<rparr>) = at_state st c" "at_state st (c\<lparr>sc_scanDeadline := d\<rparr>) = at_state st c"
  "at_state st (c\<lparr>sc_pendingAction := a\<rparr>) = at_state st c" "at_state st (c\<lparr>sc_pendingCommand := cmd\<rparr>) = at_state st c"
  "at_state st (c\<lparr>sc_pendingSequence := sq\<rparr>) = at_state st c" "at_state st (c\<lparr>sc_scanToken := t\<rparr>) = at_state st c"
  "at_state st (c\<lparr>sc_interface := i\<rparr>) = at_state st c" "at_state st (c\<lparr>sc_scanCancelled := w\<rparr>) = at_state st c"
  "at_state st (c\<lparr>sc_disconnectRequested := w\<rparr>) = at_state st c" "at_state st (c\<lparr>sc_serial := d\<rparr>) = at_state st c"
  "at_state st (c\<lparr>sc_issued := ts\<rparr>) = at_state st c"
  by (simp_all add: at_state_def)

lemma waits_unrelated [simp]:
  "waits (c\<lparr>sc_dev := s\<rparr>) = waits c"
  "waits (c\<lparr>sc_requested := v\<rparr>) = waits c"
  "waits (c\<lparr>sc_deadline := d\<rparr>) = waits c"
  "waits (c\<lparr>sc_error := e\<rparr>) = waits c"
  "waits (c\<lparr>sc_lastNow := d\<rparr>) = waits c"
  "waits (c\<lparr>sc_clockStarted := w\<rparr>) = waits c"
  "waits (c\<lparr>sc_scanDeadline := d\<rparr>) = waits c"
  "waits (c\<lparr>sc_scanToken := t\<rparr>) = waits c"
  "waits (c\<lparr>sc_associationToken := t\<rparr>) = waits c"
  "waits (c\<lparr>sc_peer := p\<rparr>) = waits c"
  "waits (c\<lparr>sc_interface := i\<rparr>) = waits c"
  "waits (c\<lparr>sc_association := a2\<rparr>) = waits c"
  "waits (c\<lparr>sc_authenticated := w\<rparr>) = waits c"
  "waits (c\<lparr>sc_scanCancelled := w\<rparr>) = waits c"
  "waits (c\<lparr>sc_disconnectRequested := w\<rparr>) = waits c"
  "waits (c\<lparr>sc_roleCreated := w\<rparr>) = waits c"
  "waits (c\<lparr>sc_scanResume := st\<rparr>) = waits c"
  "waits (c\<lparr>sc_channelIndex := i2\<rparr>) = waits c"
  by (simp_all add: waits_def)

lemma action_out:
  assumes "core c" and "sc_state c \<noteq> S_faulted" and "\<not> sc_waitingAction c" and "\<not> sc_waitingCommand c"
    and "awaits st = Some kind" and "awaits_cmd st = None" and "at_state st c"
  shows "outcome (\<lambda>c'. st_inv c' \<and> sc_state c' = st) st_inv (action b kind st target c)"
proof -
  obtain t c1 where tk: "token b c = (t, c1)" by fastforce
  note to = token_out [OF assms(1,2) tk]
  have nf: "st \<noteq> S_faulted" using assms(5) by auto
  show ?thesis
  proof (cases "sc_state c1 = S_faulted")
    case True
    have "st_inv (c1\<lparr>sc_pendingToken := t\<rparr>)"
      using to True by (auto simp: st_inv_def waits_def awaits_cmd_def)
    then show ?thesis using tk True assms(3,4) by (simp add: action_def outcome_def)
  next
    case False
    then have c1: "c1 = c\<lparr>sc_serial := sc_serial c + 1, sc_issued := t # sc_issued c\<rparr>" "core c1"
      "tok_epoch t = tok_epoch (sc_epoch c)" using to by auto
    let ?c = "c1\<lparr>sc_pendingToken := t, sc_pendingAction := kind, sc_waitingAction := True, sc_state := st\<rparr>"
    have cc: "core ?c" using c1(2) by simp
    have inv: "st_inv (?c\<lparr>sc_deadline := d, sc_dev := s\<rparr>)" for d s
    proof -
      have "core (?c\<lparr>sc_deadline := d, sc_dev := s\<rparr>)" using cc by simp
      moreover have "waits (?c\<lparr>sc_deadline := d, sc_dev := s\<rparr>)" using assms(4-6) c1(3) by (simp add: waits_def c1(1))
      moreover have "at_state st (?c\<lparr>sc_deadline := d, sc_dev := s\<rparr>)" using assms(7) by (simp add: c1(1))
      ultimately show ?thesis by (simp add: st_inv_def)
    qed
    have "outcome (\<lambda>c'. st_inv c' \<and> sc_state c' = st) st_inv (andThen (arm b actionTimeout ?c)
        (\<lambda>c. orFail b E_backend (io_call (io_beginAction b (action_request kind target c)) c)))"
    proof (rule outcome_andThen [OF arm_out [OF cc]])
      show "sc_state ?c \<noteq> S_faulted" using nf by simp
      fix c2 assume "\<exists>d. c2 = ?c\<lparr>sc_deadline := d\<rparr>"
      then obtain d where c2: "c2 = ?c\<lparr>sc_deadline := d\<rparr>" by blast
      show "outcome (\<lambda>c'. st_inv c' \<and> sc_state c' = st) st_inv (orFail b E_backend (io_call (io_beginAction b (action_request kind target c2)) c2))"
        by (rule outcome_weaken [OF io_out]) (use c2 cc nf inv [where d = d] in auto)
    qed
    then show ?thesis using tk False assms(3,4) by (simp add: action_def)
  qed
qed

lemma command_out:
  assumes "core c" and "sc_state c \<noteq> S_faulted" and "\<not> sc_waitingAction c" and "\<not> sc_waitingCommand c"
    and "awaits st = None" and "awaits_cmd st = Some (if role then 4 else 0)" and "at_state st c"
  shows "outcome (\<lambda>c'. st_inv c' \<and> sc_state c' = st) st_inv (command b role flag st c)"
proof -
  obtain ok sequence s where rs: "io_reserveH2cSequence b (sc_dev c) = ((ok, sequence), s)" by (metis surj_pair)
  define c0 where "c0 = c\<lparr>sc_dev := s, sc_pendingCommand := \<lparr>ci_category = 1, ci_commandClass = 8,
                        ci_function = (if role then 4 else 0)\<rparr>\<rparr>"
  have c0: "core c0" "sc_state c0 \<noteq> S_faulted" "at_state st c0" using assms by (simp_all add: c0_def)
  have nf: "st \<noteq> S_faulted" using assms(6) by (auto simp: awaits_cmd_def)
  have fl: "outcome Q st_inv (st_fail b e (c\<lparr>sc_dev := s\<rparr>))" "outcome Q st_inv (st_fail b e c0)" for e Q
    using assms(1,2) c0 by (auto intro!: st_fail_out)
  have pub: "outcome (\<lambda>c'. st_inv c' \<and> sc_state c' = st) st_inv (let (t, c) = token b c0; c = c\<lparr>sc_pendingToken := t\<rparr> in
             if sc_state c = S_faulted then (False, c)
             else andThen (arm b commandTimeout (c\<lparr>sc_pendingSequence := sequence, sc_waitingCommand := True, sc_state := st\<rparr>))
               (\<lambda>c. orFail b E_backend (io_call (io_publishH2c b bs (sc_pendingToken c)) c)))" for bs
  proof -
    obtain t c1 where tk: "token b c0 = (t, c1)" by fastforce
    note to = token_out [OF c0(1,2) tk]
    show ?thesis
    proof (cases "sc_state c1 = S_faulted")
      case True
      have "st_inv (c1\<lparr>sc_pendingToken := t\<rparr>)"
        using to True by (auto simp: st_inv_def waits_def awaits_cmd_def)
      then show ?thesis using tk True by (simp add: outcome_def)
    next
      case False
      then have c1: "c1 = c0\<lparr>sc_serial := sc_serial c0 + 1, sc_issued := t # sc_issued c0\<rparr>" "core c1"
        "tok_epoch t = tok_epoch (sc_epoch c0)" using to by auto
      let ?c = "c1\<lparr>sc_pendingToken := t, sc_pendingSequence := sequence, sc_waitingCommand := True, sc_state := st\<rparr>"
      have cc: "core ?c" using c1(2) by simp
      have inv: "st_inv (?c\<lparr>sc_deadline := d, sc_dev := s\<rparr>)" for d s
      proof -
        have "core (?c\<lparr>sc_deadline := d, sc_dev := s\<rparr>)" using cc by simp
        moreover have "waits (?c\<lparr>sc_deadline := d, sc_dev := s\<rparr>)"
          using assms(3-6) c1(3) by (simp add: waits_def c1(1) c0_def)
        moreover have "at_state st (?c\<lparr>sc_deadline := d, sc_dev := s\<rparr>)" using c0(3) by (simp add: c1(1))
        ultimately show ?thesis by (simp add: st_inv_def)
      qed
      have "outcome (\<lambda>c'. st_inv c' \<and> sc_state c' = st) st_inv (andThen (arm b commandTimeout ?c)
          (\<lambda>c. orFail b E_backend (io_call (io_publishH2c b bs (sc_pendingToken c)) c)))"
      proof (rule outcome_andThen [OF arm_out [OF cc]])
        show "sc_state ?c \<noteq> S_faulted" using nf by simp
        fix c2 assume "\<exists>d. c2 = ?c\<lparr>sc_deadline := d\<rparr>"
        then obtain d where c2: "c2 = ?c\<lparr>sc_deadline := d\<rparr>" by blast
        show "outcome (\<lambda>c'. st_inv c' \<and> sc_state c' = st) st_inv (orFail b E_backend (io_call (io_publishH2c b bs (sc_pendingToken c2)) c2))"
          by (rule outcome_weaken [OF io_out]) (use c2 cc nf inv [where d = d] in auto)
      qed
      then show ?thesis using tk False by simp
    qed
  qed
  show ?thesis
    unfolding command_def rs using assms(3,4) fl pub
    by (auto simp: c0_def [symmetric] Let_def split: option.split)
qed

text \<open>The same, also when a request is still pending: then the helper only faults.\<close>

lemma action_any:
  assumes "core c" and "sc_state c \<noteq> S_faulted" and "awaits st = Some kind" and "awaits_cmd st = None" and "at_state st c"
    and "\<And>c'. st_inv c' \<Longrightarrow> sc_state c' = st \<Longrightarrow> Q c'"
  shows "outcome Q st_inv (action b kind st target c)"
proof (cases "sc_waitingAction c \<or> sc_waitingCommand c")
  case True
  then show ?thesis using st_fail_out [OF assms(1,2)] by (simp add: action_def)
next
  case False
  then show ?thesis using outcome_weaken [OF action_out] assms by blast
qed

lemma command_any:
  assumes "core c" and "sc_state c \<noteq> S_faulted" and "awaits st = None"
    and "awaits_cmd st = Some (if role then 4 else 0)" and "at_state st c"
    and "\<And>c'. st_inv c' \<Longrightarrow> sc_state c' = st \<Longrightarrow> Q c'"
  shows "outcome Q st_inv (command b role flag st c)"
proof (cases "sc_waitingAction c \<or> sc_waitingCommand c")
  case True
  then show ?thesis using st_fail_out [OF assms(1,2)] by (simp add: command_def)
next
  case False
  then show ?thesis using outcome_weaken [OF command_out] assms by blast
qed

lemma andThen_traffic:
  assumes "core c" and "sc_state c \<noteq> S_faulted"
    and "\<And>s. outcome R st_inv (f (c\<lparr>sc_requested := v, sc_dev := s\<rparr>))"
  shows "outcome R st_inv (andThen (traffic b v c) f)"
  by (rule outcome_andThen [OF traffic_out [OF assms(1,2)]]) (use assms(3) in auto)

lemma andThen_io:
  assumes "core c" and "sc_state c \<noteq> S_faulted" and "\<And>s. outcome R st_inv (f (c\<lparr>sc_dev := s\<rparr>))"
  shows "outcome R st_inv (andThen (orFail b e (io_call g c)) f)"
  by (rule outcome_andThen [OF io_out [OF assms(1,2)]]) (use assms(3) in auto)

lemma andThen_arm:
  assumes "core c" and "sc_state c \<noteq> S_faulted" and "\<And>d. outcome R st_inv (f (c\<lparr>sc_deadline := d\<rparr>))"
  shows "outcome R st_inv (andThen (arm b d0 c) f)"
  by (rule outcome_andThen [OF arm_out [OF assms(1,2)]]) (use assms(3) in auto)

lemma last_traffic:
  assumes "core c" and "sc_state c \<noteq> S_faulted" and "\<And>s. Q (c\<lparr>sc_requested := v, sc_dev := s\<rparr>)"
  shows "outcome Q st_inv (traffic b v c)"
  by (rule outcome_weaken [OF traffic_out [OF assms(1,2)]]) (use assms(3) in auto)

lemma last_io:
  assumes "core c" and "sc_state c \<noteq> S_faulted" and "\<And>s. Q (c\<lparr>sc_dev := s\<rparr>)"
  shows "outcome Q st_inv (orFail b e (io_call g c))"
  by (rule outcome_weaken [OF io_out [OF assms(1,2)]]) (use assms(3) in auto)

lemmas out_rules = andThen_traffic andThen_io andThen_arm action_any command_any last_traffic last_io st_fail_out

lemma beginDisconnect_out:
  assumes "core c" and "sc_state c \<noteq> S_faulted"
  shows "outcome (\<lambda>c'. st_inv c' \<and> sc_state c' = S_disconnectingCmac) st_inv (beginDisconnect b c)"
  unfolding beginDisconnect_def
  by (intro out_rules) (use assms in \<open>auto simp: awaits_cmd_def at_state_def scan_state_def\<close>)

definition resumes :: "'s Controller \<Rightarrow> bool" where
  "resumes c \<longleftrightarrow> sc_scanResume c \<in> {S_idle, S_associated, S_authorized} \<and> (sc_scanResume c \<noteq> S_idle \<longrightarrow> evidence c)"

lemma tuneScan_out:
  assumes "core c" and "sc_state c \<noteq> S_faulted" and "resumes c" and "sc_channelIndex c < sc_channelCount c"
  shows "outcome st_inv st_inv (tuneScan b c)"
  unfolding tuneScan_def
  by (intro out_rules) (use assms in \<open>auto simp: awaits_cmd_def at_state_def scan_state_def resumes_def\<close>)

lemma restoreScan_out:
  assumes "core c" and "sc_state c \<noteq> S_faulted" and "resumes c"
  shows "outcome st_inv st_inv (restoreScan b c)"
  unfolding restoreScan_def
  by (intro out_rules) (use assms in \<open>auto simp: awaits_cmd_def at_state_def scan_state_def resumes_def\<close>)

lemma completeScan_out:
  assumes "core c" and "\<not> sc_waitingAction c" and "\<not> sc_waitingCommand c" and "resumes c"
  shows "outcome st_inv st_inv (completeScan b c)"
  unfolding completeScan_def Let_def
  using assms
  by (intro out_rules)
    (auto simp: st_inv_def waits_def awaits_cmd_def at_state_def scan_state_def resumes_def
      intro: outcome_weaken [OF beginDisconnect_out])

lemma expire_out:
  assumes "st_inv c" and "sc_state c \<noteq> S_faulted"
  shows "outcome (\<lambda>c'. st_inv c' \<and> (c' = c \<or> sc_state c' = S_disconnectingCmac \<and> sc_state c = S_authenticating)) st_inv (expire b c)"
proof -
  have core: "core c" using assms(1) by (simp add: st_inv_def)
  have "outcome (\<lambda>c'. st_inv c' \<and> sc_state c' = S_disconnectingCmac) st_inv
      (beginDisconnect b (c\<lparr>sc_error := E_timeout, sc_disconnectRequested := True\<rparr>))"
    using core assms(2) by (intro beginDisconnect_out) simp_all
  then show ?thesis unfolding expire_def
    using assms core by (auto intro: st_fail_out elim: outcome_weaken)
qed

section \<open>The entry points keep the invariant\<close>

lemma st_inv_clock: "st_inv c \<Longrightarrow> st_inv (c\<lparr>sc_dev := s, sc_lastNow := now, sc_clockStarted := w\<rparr>)"
  "st_inv c \<Longrightarrow> st_inv (c\<lparr>sc_dev := s\<rparr>)"
  by (simp_all add: st_inv_def waits_def)

lemma st_time_out:
  assumes "st_inv c"
  shows "outcome (\<lambda>c'. sc_state c' \<noteq> S_faulted \<and> st_inv c' \<and>
      (\<exists>s. c' = c\<lparr>sc_dev := s, sc_lastNow := now, sc_clockStarted := True\<rparr>)) st_inv (st_time b now c)"
proof -
  obtain g s where g: "io_inGate b (sc_dev c) = (g, s)" by fastforce
  have "core c" using assms by (simp add: st_inv_def)
  then show ?thesis using st_inv_clock [OF assms] unfolding st_time_def io_call_def g
    by (auto intro!: st_fail_out)
qed

lemma st_enter_out:
  assumes "st_inv c" and "\<And>c'. st_inv c' \<Longrightarrow> sc_state c' \<noteq> S_faulted \<Longrightarrow> guard c' \<Longrightarrow> outcome Q st_inv (body c')"
  shows "outcome Q st_inv (st_enter b now guard body c)"
  unfolding st_enter_def
  by (rule outcome_andThen [OF st_time_out [OF assms(1)]]) (use assms(2) in auto)

lemma after_expire:
  assumes "st_inv c" and "sc_state c \<noteq> S_faulted"
    and "\<And>c'. st_inv c' \<Longrightarrow> sc_state c' \<noteq> S_faulted \<Longrightarrow>
      c' = c \<or> sc_state c' = S_disconnectingCmac \<and> sc_state c = S_authenticating \<Longrightarrow> outcome Q st_inv (f c')"
  shows "outcome Q st_inv (andThen (expire b c) f)"
  by (rule outcome_andThen [OF expire_out [OF assms(1,2)]]) (use assms in auto)

lemmas inv_simps = st_inv_def waits_def at_state_def awaits_cmd_def scan_state_def resumes_def scanning_def

lemma start_out: "st_inv c \<Longrightarrow> outcome st_inv st_inv (start b config now c)"
  unfolding start_def
  by (rule st_enter_out, assumption, intro out_rules) (auto simp: inv_simps)

lemma stop_out: "st_inv c \<Longrightarrow> outcome st_inv st_inv (stop b now c)"
  unfolding stop_def
  by (rule st_enter_out, assumption, intro out_rules) (auto simp: inv_simps)

lemma token_faulted_inv: "st_inv c \<Longrightarrow> sc_state c = S_faulted \<Longrightarrow> st_inv (c\<lparr>sc_scanToken := t\<rparr>) \<and> st_inv (c\<lparr>sc_associationToken := t\<rparr>)"
  by (auto simp: inv_simps)

lemma connect_out: "st_inv c \<Longrightarrow> outcome st_inv st_inv (connect b peer now c)"
  unfolding connect_def
proof (rule st_enter_out, assumption)
  fix c :: "'a Controller" assume i: "st_inv c" "sc_state c \<noteq> S_faulted"
  let ?c = "c\<lparr>sc_peer := peer, sc_association := Association0, sc_authenticated := False, sc_error := E_none\<rparr>"
  obtain t c1 where tk: "token b ?c = (t, c1)" by fastforce
  have "core ?c" "sc_state ?c \<noteq> S_faulted" using i by (simp_all add: st_inv_def)
  note to = token_out [OF this tk]
  show "outcome st_inv st_inv (let c = ?c; (t, c) = token b c; c = c\<lparr>sc_associationToken := t\<rparr> in
        if sc_state c = S_faulted then (False, c)
        else andThen (traffic b Tr_none c)
          (action b Ac_prepareAuthentication S_preparingAuthentication (pe_channel peer)))"
  proof (cases "sc_state c1 = S_faulted")
    case True
    then show ?thesis using to tk token_faulted_inv [of c1 t] by (simp add: outcome_def)
  next
    case False
    then have "core c1" using to unfolding if_not_P [OF False] by blast
    then have "outcome st_inv st_inv (andThen (traffic b Tr_none (c1\<lparr>sc_associationToken := t\<rparr>))
          (action b Ac_prepareAuthentication S_preparingAuthentication (pe_channel peer)))"
      by (intro out_rules) (use False in \<open>auto simp: inv_simps\<close>)
    then show ?thesis using tk False by simp
  qed
qed

lemma scan_out: "st_inv c \<Longrightarrow> outcome st_inv st_inv (scan b source now c)"
  unfolding scan_def
proof (rule st_enter_out, assumption)
  fix c :: "'a Controller" assume i: "st_inv c" "sc_state c \<noteq> S_faulted" and g: "(sc_state c = S_idle \<or> sc_state c = S_authorized) \<and>
        (case source of None \<Rightarrow> False | Some chs \<Rightarrow> chs \<noteq> [] \<and> length chs \<le> 64 \<and> list_all scan_channel_ok chs)"
  let ?chs = "the source"
  let ?c = "c\<lparr>sc_channels := ?chs @ drop (length ?chs) (sc_channels c), sc_channelCount := length ?chs,
                       sc_channelIndex := 0, sc_scanResume := sc_state c, sc_scanCancelled := False\<rparr>"
  have chs: "?chs \<noteq> []" "length ?chs \<le> 64" using g by (auto split: option.splits)
  obtain t c1 where tk: "token b ?c = (t, c1)" by fastforce
  have core: "core ?c" "sc_state ?c \<noteq> S_faulted" using i chs by (auto simp: st_inv_def core_def)
  note to = token_out [OF this tk]
  have main: "outcome st_inv st_inv (if sc_state c1 = S_faulted then (False, c1\<lparr>sc_scanToken := t\<rparr>)
      else andThen (traffic b Tr_none (c1\<lparr>sc_scanToken := t, sc_scanDeadline := now + scan_budget ?chs\<rparr>))
            (action b Ac_scanBegin S_scanningBegin Channel0))"
  proof (cases "sc_state c1 = S_faulted")
    case True
    then show ?thesis using to token_faulted_inv [of c1 t] by simp
  next
    case False
    then have c1: "core c1" "c1 = ?c\<lparr>sc_serial := sc_serial ?c + 1, sc_issued := t # sc_issued ?c\<rparr>"
      using to unfolding if_not_P [OF False] by blast+
    have "evidence c" if "sc_state c = S_authorized" using i(1) that by (simp add: st_inv_def at_state_def)
    then have r: "resumes c1" "sc_channelIndex c1 < sc_channelCount c1"
      using g chs unfolding resumes_def by (auto simp: c1(2))
    have "outcome st_inv st_inv (andThen (traffic b Tr_none (c1\<lparr>sc_scanToken := t, sc_scanDeadline := now + scan_budget ?chs\<rparr>))
            (action b Ac_scanBegin S_scanningBegin Channel0))"
      by (intro out_rules) (use c1(1) False r in \<open>auto simp: awaits_cmd_def at_state_def scan_state_def resumes_def\<close>)
    then show ?thesis using False by simp
  qed
  have cc: "core c" using i by (simp add: st_inv_def)
  show "outcome st_inv st_inv (let chs = ?chs; budget = scan_budget chs in
        if - 1 - now < budget then st_fail b E_clock c
        else let c = c\<lparr>sc_channels := chs @ drop (length chs) (sc_channels c), sc_channelCount := length chs,
                       sc_channelIndex := 0, sc_scanResume := sc_state c, sc_scanCancelled := False\<rparr>;
                 (t, c) = token b c; c = c\<lparr>sc_scanToken := t\<rparr> in
          if sc_state c = S_faulted then (False, c)
          else andThen (traffic b Tr_none (c\<lparr>sc_scanDeadline := now + budget\<rparr>))
            (action b Ac_scanBegin S_scanningBegin Channel0))"
    using main tk st_fail_out [OF cc i(2)] by (simp add: Let_def)
qed

lemma scanning_resumes: "st_inv c \<Longrightarrow> scanning c \<Longrightarrow> resumes c"
  by (auto simp: inv_simps)

lemma cancelScan_out: "st_inv c \<Longrightarrow> outcome st_inv st_inv (cancelScan b original now c)"
  unfolding cancelScan_def Let_def
proof (rule st_enter_out, assumption, rule after_expire, assumption, assumption)
  fix c c' :: "'a Controller"
  assume sc: "scanning c \<and> same_token original (sc_scanToken c)" and inv: "st_inv c'" "sc_state c' \<noteq> S_faulted"
    and eq: "c' = c \<or> sc_state c' = S_disconnectingCmac \<and> sc_state c = S_authenticating"
  then have s: "scanning c'" by (auto simp: scanning_def)
  let ?c = "c'\<lparr>sc_scanCancelled := True\<rparr>"
  have "st_inv ?c" using inv(1) by (auto simp: inv_simps)
  moreover have "outcome st_inv st_inv (restoreScan b ?c)"
    using scanning_resumes [OF inv(1) s] inv by (intro restoreScan_out) (auto simp: resumes_def st_inv_def)
  ultimately show "outcome st_inv st_inv (if sc_state ?c = S_scanningDwell then restoreScan b ?c else (True, ?c))"
    by simp
qed

lemma disconnect_now:
  "st_inv c \<Longrightarrow> sc_state c \<noteq> S_faulted \<Longrightarrow>
   outcome st_inv st_inv (beginDisconnect b (c\<lparr>sc_error := e, sc_disconnectRequested := True\<rparr>))"
  by (rule outcome_weaken [OF beginDisconnect_out]) (auto simp: st_inv_def)

lemma st_inv_authenticated: "st_inv c \<Longrightarrow> st_inv (c\<lparr>sc_authenticated := True\<rparr>)"
proof -
  assume i: "st_inv c"
  have "evidence (c\<lparr>sc_authenticated := True\<rparr>)" if "evidence c" using that by (simp add: evidence_def)
  then show ?thesis using i by (auto simp: st_inv_def at_state_def)
qed

lemma authenticated_out: "st_inv c \<Longrightarrow> outcome st_inv st_inv (authenticated b original bssid success now c)"
  unfolding authenticated_def
proof (rule st_enter_out, assumption, rule after_expire, assumption, assumption)
  fix c c' :: "'a Controller"
  assume g: "sc_state c = S_authenticating \<and> same_token original (sc_associationToken c) \<and>
        same_address bssid (pe_bssid (sc_peer c))"
    and inv: "st_inv c'" "sc_state c' \<noteq> S_faulted"
    and eq: "c' = c \<or> sc_state c' = S_disconnectingCmac \<and> sc_state c = S_authenticating"
  have "st_inv (c'\<lparr>sc_authenticated := True\<rparr>)" by (rule st_inv_authenticated [OF inv(1)])
  then show "outcome st_inv st_inv (if \<not> success
      then beginDisconnect b (c'\<lparr>sc_error := E_authentication, sc_disconnectRequested := True\<rparr>)
      else (True, c'\<lparr>sc_authenticated := True\<rparr>))"
    using disconnect_now [OF inv] by simp
qed

lemma associationRejected_out: "st_inv c \<Longrightarrow> outcome st_inv st_inv (associationRejected b original bssid status now c)"
  unfolding associationRejected_def
  by (rule st_enter_out, assumption, rule after_expire, assumption, assumption) (rule disconnect_now)

lemma associationReceived_out: "st_inv c \<Longrightarrow> outcome st_inv st_inv (associationReceived b original peer now c)"
  unfolding associationReceived_def
proof (rule st_enter_out, assumption, rule after_expire, assumption, assumption)
  fix c c' :: "'a Controller"
  assume g: "sc_state c = S_authenticating \<and> sc_authenticated c \<and> same_token original (sc_associationToken c) \<and>
        same_address (as_bssid peer) (pe_bssid (sc_peer c)) \<and> sameChannel (as_channel peer) (pe_channel (sc_peer c)) \<and>
        as_aid peer \<noteq> 0 \<and> as_aid peer \<le> 2007"
    and inv: "st_inv c'" "sc_state c' \<noteq> S_faulted"
    and eq: "c' = c \<or> sc_state c' = S_disconnectingCmac \<and> sc_state c = S_authenticating"
  let ?c = "c'\<lparr>sc_association := peer\<rparr>"
  show "outcome st_inv st_inv (action b Ac_associationCmac S_installingAssociationCmac Channel0 ?c)"
  proof (cases "c' = c")
    case True
    then have "evidence ?c" using g by (simp add: evidence_def)
    then show ?thesis using True g inv
      by (intro action_any) (auto simp: inv_simps)
  next
    case False
    then have "sc_waitingAction ?c" using inv(1) eq by (auto simp: inv_simps)
    then show ?thesis using inv by (simp add: action_def st_fail_out st_inv_def)
  qed
qed

lemma authorizePort_out: "st_inv c \<Longrightarrow> outcome st_inv st_inv (authorizePort b original now c)"
  unfolding authorizePort_def
  by (rule st_enter_out, assumption, intro out_rules) (auto simp: inv_simps)

lemma revokePort_out: "st_inv c \<Longrightarrow> outcome st_inv st_inv (revokePort b original now c)"
  unfolding revokePort_def
proof (rule st_enter_out, assumption, rule after_expire, assumption, assumption)
  fix c c' :: "'a Controller"
  assume inv: "st_inv c'" "sc_state c' \<noteq> S_faulted"
  have core: "core c'" using inv by (simp add: st_inv_def)
  have 1: "st_inv (c'\<lparr>sc_scanResume := S_associated\<rparr>)" if "scanning c'" "sc_scanResume c' \<noteq> S_idle"
    using inv(1) that scanning_resumes [OF inv(1) that(1)] by (simp add: st_inv_def at_state_def resumes_def)
  have 2: "outcome st_inv st_inv (andThen (traffic b Tr_controlledPort c') (\<lambda>c. (True, c\<lparr>sc_state := S_associated\<rparr>)))"
    if "linked c'"
  proof (rule andThen_traffic [OF core inv(2)])
    fix s
    have st: "sc_state c' = S_associated \<or> sc_state c' = S_authorized" using that by (simp add: linked_def)
    then have "evidence c'" "waits c'" using inv(1) by (auto simp: st_inv_def at_state_def)
    moreover have "\<not> sc_waitingAction c'" "\<not> sc_waitingCommand c'"
      using inv(1) st by (auto simp: st_inv_def waits_def awaits_cmd_def)
    ultimately have "st_inv (c'\<lparr>sc_requested := Tr_controlledPort, sc_dev := s, sc_state := S_associated\<rparr>)"
      using core by (simp add: st_inv_def at_state_def scan_state_def waits_def awaits_cmd_def)
    then show "outcome st_inv st_inv (True, c'\<lparr>sc_requested := Tr_controlledPort, sc_dev := s\<rparr>\<lparr>sc_state := S_associated\<rparr>)"
      by simp
  qed
  show "outcome st_inv st_inv (if scanning c' \<and> sc_scanResume c' \<noteq> S_idle then (True, c'\<lparr>sc_scanResume := S_associated\<rparr>)
        else if \<not> linked c' then (False, c')
        else andThen (traffic b Tr_controlledPort c') (\<lambda>c. (True, c\<lparr>sc_state := S_associated\<rparr>)))"
    using 1 2 inv(1) by simp
qed

lemma disconnect_out: "st_inv c \<Longrightarrow> outcome st_inv st_inv (disconnect b now c)"
  unfolding disconnect_def
proof (rule st_enter_out, assumption, rule after_expire, assumption, assumption)
  fix c c' :: "'a Controller"
  assume inv: "st_inv c'" "sc_state c' \<noteq> S_faulted"
  have core: "core c'" using inv by (simp add: st_inv_def)
  let ?d = "c'\<lparr>sc_disconnectRequested := True\<rparr>"
  have d: "st_inv ?d" using inv(1) by (auto simp: inv_simps)
  have 1: "outcome st_inv st_inv (cancelScan b (sc_scanToken c') now (if sc_scanResume c' \<noteq> S_idle then ?d else c'))"
    using cancelScan_out [OF inv(1)] cancelScan_out [OF d] by simp
  have 2: "outcome st_inv st_inv (andThen (traffic b Tr_none ?d) (\<lambda>c.
       if sc_waitingAction c \<or> sc_waitingCommand c then (True, c) else beginDisconnect b c))"
  proof (rule andThen_traffic)
    fix s
    let ?e = "?d\<lparr>sc_requested := Tr_none, sc_dev := s\<rparr>"
    have "st_inv ?e" using d by (auto simp: inv_simps)
    moreover have "outcome st_inv st_inv (beginDisconnect b ?e)"
      by (rule outcome_weaken [OF beginDisconnect_out]) (use core inv in auto)
    ultimately show "outcome st_inv st_inv (if sc_waitingAction ?e \<or> sc_waitingCommand ?e then (True, ?e) else beginDisconnect b ?e)"
      by simp
  qed (use core inv in auto)
  show "outcome st_inv st_inv (if sc_state c' = S_idle then (True, c')
     else if scanning c'
     then cancelScan b (sc_scanToken c') now (if sc_scanResume c' \<noteq> S_idle then ?d else c')
     else if \<not> disconnectable (sc_state c') then (False, c')
     else andThen (traffic b Tr_none ?d) (\<lambda>c.
       if sc_waitingAction c \<or> sc_waitingCommand c then (True, c) else beginDisconnect b c))"
    using 1 2 inv(1) by simp
qed

lemma tick_out: "st_inv c \<Longrightarrow> outcome st_inv st_inv (tick b now c)"
  unfolding tick_def Let_def
proof (rule st_enter_out, assumption, rule after_expire, assumption, assumption)
  fix c c' :: "'a Controller"
  assume inv: "st_inv c'" "sc_state c' \<noteq> S_faulted"
  have core: "core c'" using inv by (simp add: st_inv_def)
  let ?i = "c'\<lparr>sc_channelIndex := sc_channelIndex c' + 1\<rparr>"
  have r: "resumes c'" "sc_channelIndex c' < sc_channelCount c'" if "sc_state c' = S_scanningDwell"
    using inv(1) that by (auto simp: inv_simps)
  have 1: "outcome st_inv st_inv (restoreScan b c')" "outcome st_inv st_inv (restoreScan b ?i)"
    if "sc_state c' = S_scanningDwell"
    using core r that by (auto intro!: restoreScan_out simp: resumes_def)
  have 2: "outcome st_inv st_inv (tuneScan b ?i)"
    if "sc_state c' = S_scanningDwell" "sc_channelIndex ?i \<noteq> sc_channelCount ?i"
    using core r that by (intro tuneScan_out) (auto simp: resumes_def)
  have 3: "outcome st_inv st_inv (True, c')" using inv(1) by simp
  show "outcome st_inv st_inv (if sc_state c' = S_scanningDwell \<and> sc_deadline c' \<le> now then
       (if sc_scanCancelled c' then restoreScan b c'
        else if sc_channelIndex ?i = sc_channelCount ?i then restoreScan b ?i else tuneScan b ?i)
     else (True, c'))"
    using 1 2 3 by (simp only: split: if_split) blast
qed

end
