(* ===== verification/StationRun.thy ===== *)
theory StationRun
  imports StationInvariant
begin

text \<open>The completions of the station controller, its remaining entry points, and runs of all of them over any backend: every call keeps the invariant.\<close>

text \<open>After a completed action or command: nothing is pending, the rest of the state is as it was.\<close>

definition settled :: "State \<Rightarrow> 's Controller \<Rightarrow> bool" where
  "settled st c \<longleftrightarrow> core c \<and> sc_state c = st \<and> st \<noteq> S_faulted \<and> \<not> sc_waitingAction c \<and> \<not> sc_waitingCommand c \<and> at_state st c"

lemma settled_core: "settled st c \<Longrightarrow> core c \<and> sc_state c \<noteq> S_faulted"
  by (simp add: settled_def)

lemma dwell_scan_out:
  assumes "settled S_scanningTune c"
  shows "outcome st_inv st_inv (dwell_scan b c)"
proof -
  have s: "core c" "\<not> sc_waitingAction c" "\<not> sc_waitingCommand c" "at_state S_scanningTune c"
    using assms by (auto simp: settled_def)
  have inv: "st_inv (c\<lparr>sc_state := S_scanningDwell, sc_deadline := d, sc_requested := v, sc_dev := s\<rparr>)"
    if "v \<in> {Tr_none, Tr_scanProbe}" for d v s
    using s that by (auto simp: st_inv_def waits_def awaits_cmd_def at_state_def scan_state_def)
  have step: "outcome st_inv st_inv (orFail b E_backend (io_call g c'))" if "st_inv c'" "sc_state c' = S_scanningDwell" for g c'
    by (rule last_io) (use that st_inv_clock(2) [OF that(1)] in \<open>auto simp: st_inv_def\<close>)
  show ?thesis
  proof (cases "sn_active (sc_channels c ! sc_channelIndex c)")
    case True
    then show ?thesis using s(1) unfolding dwell_scan_def Let_def if_P [OF True]
      by (intro andThen_arm andThen_traffic step) (simp_all add: inv)
  next
    case False
    then show ?thesis using s(1) unfolding dwell_scan_def Let_def if_not_P [OF False]
      by (intro andThen_arm andThen_traffic) (simp_all add: inv)
  qed
qed

lemma settled_resumes: "settled st c \<Longrightarrow> scan_state st \<Longrightarrow> resumes c"
  by (auto simp: settled_def at_state_def resumes_def)

lemma beginDisconnect_settled: "settled st c \<Longrightarrow> outcome st_inv st_inv (beginDisconnect b c)"
  by (rule outcome_weaken [OF beginDisconnect_out]) (auto simp: settled_def)

lemma settledD:
  assumes "settled st c"
  shows "core c" "sc_state c = st" "\<not> sc_waitingAction c" "\<not> sc_waitingCommand c" "at_state st c" "sc_state c \<noteq> S_faulted"
  using assms by (auto simp: settled_def)

text \<open>A settled controller may move to a state that waits for nothing.\<close>

lemma settled_move:
  assumes "settled st c" and "awaits st' = None" and "awaits_cmd st' = None" and "at_state st' (c\<lparr>sc_requested := v\<rparr>)"
  shows "st_inv (c\<lparr>sc_state := st', sc_requested := v, sc_dev := s\<rparr>)"
  using settledD [OF assms(1)] assms(2-4) by (simp add: st_inv_def waits_def at_state_def)

lemma traffic_move:
  assumes "settled st c" and "awaits st' = None" and "awaits_cmd st' = None" and "at_state st' (c\<lparr>sc_requested := v\<rparr>)"
    and "st' \<noteq> S_faulted"
  shows "outcome st_inv st_inv (traffic b v (c\<lparr>sc_state := st'\<rparr>))"
  using settled_move [OF assms(1-4)] assms(5) settledD [OF assms(1)] by (intro last_traffic) simp_all

lemma settled_action:
  assumes "settled st c" and "awaits st' = Some kind" and "awaits_cmd st' = None" and "at_state st' c"
  shows "outcome st_inv st_inv (action b kind st' target c)"
  using settledD [OF assms(1)] assms(2-4) by (intro action_any)

lemma settled_command:
  assumes "settled st c" and "awaits st' = None" and "awaits_cmd st' = Some (if role then 4 else 0)" and "at_state st' c"
  shows "outcome st_inv st_inv (command b role flag st' c)"
  using settledD [OF assms(1)] assms(2-4) by (intro command_any)

lemmas state_simps = awaits_cmd_def at_state_def scan_state_def

lemma begin_authentication_out:
  assumes "settled S_preparingAuthentication c"
  shows "outcome st_inv st_inv (completed_action b Ac_prepareAuthentication c)"
proof -
  note s = settledD [OF assms]
  let ?c = "c\<lparr>sc_interface := (sc_interface c)\<lparr>if_home := pe_channel (sc_peer c)\<rparr>\<rparr>"
  have "settled S_preparingAuthentication ?c" using s by (simp add: settled_def)
  then have 1: "outcome st_inv st_inv (beginDisconnect b ?c)" by (rule beginDisconnect_settled)
  have i: "st_inv (?c\<lparr>sc_state := S_authenticating, sc_deadline := d, sc_requested := Tr_management, sc_dev := z\<rparr>)" for d z
    using s by (simp add: st_inv_def waits_def state_simps)
  have 2: "outcome st_inv st_inv (andThen (arm b authenticationTimeout (?c\<lparr>sc_state := S_authenticating\<rparr>)) (\<lambda>c.
         andThen (traffic b Tr_management c) (\<lambda>c.
         orFail b E_backend (io_call (io_beginAuthentication b (sc_associationToken c) (sc_peer c)) c))))"
    by (intro andThen_arm andThen_traffic last_io) (use s i in simp_all)
  show ?thesis using 1 2 by (simp add: Let_def)
qed

lemma link_removed_out:
  assumes "settled S_disconnectingCam c"
  shows "outcome st_inv st_inv (completed_action b Ac_disconnectCam c)"
proof -
  note s = settledD [OF assms]
  let ?c = "c\<lparr>sc_associationToken := Token0, sc_association := Association0, sc_peer := Peer0,
        sc_authenticated := False, sc_disconnectRequested := False\<rparr>"
  have "settled S_disconnectingCam ?c" using s by (simp add: settled_def state_simps)
  then have "outcome st_inv st_inv (traffic b Tr_management (?c\<lparr>sc_state := S_idle\<rparr>))"
    by (rule traffic_move) (simp_all add: state_simps)
  moreover have "?c\<lparr>sc_state := S_idle\<rparr> = c\<lparr>sc_state := S_idle, sc_associationToken := Token0,
      sc_association := Association0, sc_peer := Peer0, sc_authenticated := False, sc_disconnectRequested := False\<rparr>"
    by (cases c) simp
  ultimately show ?thesis by (simp only: completed_action.simps)
qed

lemma awaits_eq:
  "awaits st = Some kind \<longleftrightarrow> st = (case kind of Ac_prepareInterface \<Rightarrow> S_preparing | Ac_idleTables \<Rightarrow> S_installingIdle
     | Ac_scanBegin \<Rightarrow> S_scanningBegin | Ac_scanTune \<Rightarrow> S_scanningTune | Ac_scanRestore \<Rightarrow> S_scanningRestore
     | Ac_scanEnd \<Rightarrow> S_scanningEnd | Ac_prepareAuthentication \<Rightarrow> S_preparingAuthentication
     | Ac_associationCmac \<Rightarrow> S_installingAssociationCmac | Ac_associationCam \<Rightarrow> S_installingAssociationCam
     | Ac_disconnectCmac \<Rightarrow> S_disconnectingCmac | Ac_disconnectCam \<Rightarrow> S_disconnectingCam
     | Ac_removeCam \<Rightarrow> S_removingCam)"
  by (cases st) (auto split: Action.splits)

lemma scan_action_out:
  assumes "settled st c" and "awaits st = Some kind" and "scan_state st"
  shows "outcome st_inv st_inv (completed_action b kind c)"
proof -
  note s = settledD [OF assms(1)]
  have r: "resumes c" by (rule settled_resumes [OF assms(1,3)])
  note rs = restoreScan_out [OF s(1,6) r, of b]
  consider "kind = Ac_scanBegin" "st = S_scanningBegin" | "kind = Ac_scanTune" "st = S_scanningTune"
    | "kind = Ac_scanRestore" "st = S_scanningRestore" | "kind = Ac_scanEnd" "st = S_scanningEnd"
    using assms(2,3) by (cases kind) (auto simp: awaits_eq scan_state_def)
  then show ?thesis
  proof cases
    case 1
    then have "sc_channelIndex c < sc_channelCount c" using s(5) by (simp add: at_state_def)
    then show ?thesis using 1 rs tuneScan_out [OF s(1,6) r] by simp
  next
    case 2
    then show ?thesis using rs dwell_scan_out [of c b] assms(1) by simp
  next
    case 3
    then have "at_state S_scanningEnd c" using s(5) by (simp add: state_simps)
    then show ?thesis using 3 settled_action [OF assms(1)] by (simp add: awaits_cmd_def)
  next
    case 4
    then show ?thesis using completeScan_out [OF s(1,3,4) r] by simp
  qed
qed

lemma completed_action_out:
  assumes "settled st c" and "awaits st = Some kind"
  shows "outcome st_inv st_inv (completed_action b kind c)"
proof (cases "scan_state st")
  case True
  then show ?thesis by (rule scan_action_out [OF assms])
next
  case False
  note s = settledD [OF assms(1)] and bd = beginDisconnect_settled [OF assms(1), of b]
    and cmd = settled_command [OF assms(1)] and mv = traffic_move [OF assms(1)]
  show ?thesis
  proof (cases kind)
    case Ac_prepareInterface
    then show ?thesis using assms(2) s(5) cmd [of S_creatingRole True] by (simp add: awaits_eq state_simps)
  next
    case Ac_idleTables
    then show ?thesis using mv [of S_idle] by (simp add: state_simps)
  next
    case Ac_prepareAuthentication
    then show ?thesis using begin_authentication_out assms by (simp only: awaits_eq Action.case)
  next
    case Ac_associationCmac
    then show ?thesis using assms(2) s(5) bd cmd [of S_joining False] by (simp add: awaits_eq state_simps)
  next
    case Ac_associationCam
    then have "evidence c" using assms(2) s(5) by (simp add: awaits_eq state_simps)
    then show ?thesis using Ac_associationCam bd mv [of S_associated] by (simp add: state_simps)
  next
    case Ac_disconnectCmac
    then show ?thesis using assms(2) s(5) cmd [of S_disconnecting False] by (simp add: awaits_eq state_simps)
  next
    case Ac_disconnectCam
    then show ?thesis using link_removed_out assms by (simp only: awaits_eq Action.case)
  next
    case Ac_removeCam
    then show ?thesis using assms(2) s by (simp add: awaits_eq st_inv_def waits_def state_simps)
  qed (use False assms(2) in \<open>simp_all add: awaits_eq scan_state_def\<close>)
qed

lemma completed_command_out:
  assumes "settled st c" and "awaits_cmd st \<noteq> None"
  shows "outcome st_inv st_inv (completed_command b c)"
proof -
  note s = settledD [OF assms(1)] and act = settled_action [OF assms(1)]
  have "st \<in> {S_creatingRole, S_initialNoLink, S_joining, S_disconnecting, S_removingRole}"
    using assms(2) by (auto simp: awaits_cmd_def split: if_splits)
  then consider "st = S_creatingRole" | "st = S_initialNoLink" | "st = S_joining" | "st = S_disconnecting"
    | "st = S_removingRole" by blast
  then show ?thesis
  proof cases
    case 1
    let ?c = "c\<lparr>sc_roleCreated := True\<rparr>"
    have "settled S_creatingRole ?c" using s 1 by (simp add: settled_def state_simps)
    then have "outcome st_inv st_inv (command b False True S_initialNoLink ?c)"
      by (rule settled_command) (use s(5) 1 in \<open>simp_all add: state_simps\<close>)
    then show ?thesis using s(2) 1 by (simp add: completed_command_def)
  next
    case 2
    then show ?thesis using s(2,5) act [of S_installingIdle] by (simp add: completed_command_def state_simps)
  next
    case 3
    then show ?thesis using s(2,5) beginDisconnect_settled [OF assms(1), of b] act [of S_installingAssociationCam]
      by (simp add: completed_command_def state_simps)
  next
    case 4
    then show ?thesis using s(2,5) act [of S_disconnectingCam] by (simp add: completed_command_def state_simps)
  next
    case 5
    then show ?thesis using s(2,5) act [of S_removingCam] by (simp add: completed_command_def state_simps)
  qed
qed

lemma awaits_exclusive: "awaits st \<noteq> None \<Longrightarrow> awaits_cmd st = None"
  by (cases st) (simp_all add: awaits_cmd_def)

lemma settled_action_done:
  assumes "st_inv c" and "sc_state c \<noteq> S_faulted" and "sc_waitingAction c"
  shows "settled (sc_state c) (c\<lparr>sc_waitingAction := False\<rparr>)" and "awaits (sc_state c) = Some (sc_pendingAction c)"
  using assms awaits_exclusive [of "sc_state c"] by (simp_all add: settled_def st_inv_def waits_def)

lemma settled_command_done:
  assumes "st_inv c" and "sc_state c \<noteq> S_faulted" and "sc_waitingCommand c"
  shows "settled (sc_state c) (c\<lparr>sc_waitingCommand := False\<rparr>)" and "awaits_cmd (sc_state c) \<noteq> None"
proof -
  have "waits c" "core c" "at_state (sc_state c) c" using assms(1) by (simp_all add: st_inv_def)
  moreover have "awaits_cmd (sc_state c) \<noteq> None" using \<open>waits c\<close> assms(3) by (simp add: waits_def)
  moreover have "\<not> sc_waitingAction c"
    using \<open>waits c\<close> awaits_exclusive [of "sc_state c"] calculation(4) by (auto simp: waits_def)
  ultimately show "settled (sc_state c) (c\<lparr>sc_waitingCommand := False\<rparr>)" "awaits_cmd (sc_state c) \<noteq> None"
    using assms(2) by (simp_all add: settled_def)
qed

lemma actionComplete_out: "st_inv c \<Longrightarrow> outcome st_inv st_inv (actionComplete b original kind success now c)"
  unfolding actionComplete_def Let_def
proof (rule st_enter_out, assumption, rule after_expire, assumption, assumption)
  fix c c' :: "'a Controller"
  assume g: "sc_waitingAction c \<and> same_token original (sc_pendingToken c) \<and> kind = sc_pendingAction c"
    and c: "st_inv c"
    and inv: "st_inv c'" "sc_state c' \<noteq> S_faulted"
    and eq: "c' = c \<or> sc_state c' = S_disconnectingCmac \<and> sc_state c = S_authenticating"
  have "sc_state c \<noteq> S_authenticating" using g c by (auto simp: st_inv_def waits_def)
  then have c': "c' = c" using eq by simp
  then have w: "sc_waitingAction c'" "kind = sc_pendingAction c'" using g by auto
  note d = settled_action_done [OF inv w(1)]
  show "outcome st_inv st_inv (if \<not> success then st_fail b E_backend (c'\<lparr>sc_waitingAction := False\<rparr>)
          else completed_action b kind (c'\<lparr>sc_waitingAction := False\<rparr>))"
    using completed_action_out [OF d(1)] d(2) w(2) inv by (simp add: st_fail_out st_inv_def)
qed

lemma firmwareEvent_out: "st_inv c \<Longrightarrow> outcome st_inv st_inv (firmwareEvent b ev receiveEpoch now c)"
  unfolding firmwareEvent_def Let_def
proof (rule st_enter_out, assumption, rule after_expire, assumption, assumption)
  fix c c' :: "'a Controller"
  assume g: "sc_waitingCommand c \<and> receiveEpoch = tok_epoch (sc_epoch c)" and c: "st_inv c"
    and inv: "st_inv c'" "sc_state c' \<noteq> S_faulted"
    and eq: "c' = c \<or> sc_state c' = S_disconnectingCmac \<and> sc_state c = S_authenticating"
  have "sc_state c \<noteq> S_authenticating" using g c by (auto simp: st_inv_def waits_def awaits_cmd_def)
  then have w: "sc_waitingCommand c'" using eq g by simp
  note d = settled_command_done [OF inv w]
  have "outcome st_inv st_inv (completed_command b (c'\<lparr>sc_waitingCommand := False\<rparr>))"
    by (rule completed_command_out [OF d])
  moreover have "outcome st_inv st_inv (st_fail b e (c'\<lparr>sc_waitingCommand := False\<rparr>))" for e
    using inv by (simp add: st_fail_out st_inv_def)
  ultimately show "outcome st_inv st_inv (case decodeAck ev of
        Some (True, ack) \<Rightarrow>
          if \<not> fa_done ack \<or> fa_sequence ack \<noteq> sc_pendingSequence c' \<or> \<not> sameCommand (fa_command ack) (sc_pendingCommand c')
          then (False, c')
          else if fa_returnCode ack \<noteq> 0 then st_fail b E_firmwareRejected (c'\<lparr>sc_waitingCommand := False\<rparr>)
            else completed_command b (c'\<lparr>sc_waitingCommand := False\<rparr>)
      | _ \<Rightarrow> (False, c'))"
    using inv(1) by (auto split: option.splits bool.splits)
qed

lemma core_new_epoch:
  "core c \<Longrightarrow> tok_epoch (sc_epoch c) < e \<Longrightarrow>
   length (sc_channels c) = 64 \<and> sorted_wrt (\<lambda>a b. tok_less b a) (sc_issued c) \<and> (\<forall>t \<in> set (sc_issued c). tok_epoch t < e)"
  by (fastforce simp: core_def)

lemma restart_out: "st_inv c \<Longrightarrow> outcome st_inv st_inv (restart b newEpoch now c)"
proof -
  assume inv: "st_inv c"
  obtain g s where g: "io_inGate b (sc_dev c) = (g, s)" by fastforce
  obtain v s2 where v: "io_firmwareRestartVerified b newEpoch s = (v, s2)" by fastforce
  obtain r s3 where r: "io_setTraffic b Tr_none s2 = (r, s3)" by fastforce
  have inv': "st_inv (c\<lparr>sc_dev := s\<rparr>)" "st_inv (c\<lparr>sc_dev := s2\<rparr>)" by (simp_all add: st_inv_clock(2) [OF inv])
  have quiet: "st_inv (c\<lparr>sc_requested := Tr_none, sc_dev := s3\<rparr>)"
    using inv by (simp add: st_inv_def at_state_def)
  show ?thesis
  proof (cases "tok_epoch (sc_epoch c) < newEpoch")
    case True
    have cr: "core c" using inv by (simp add: st_inv_def)
    note ce = core_new_epoch [OF cr True]
    define n where "n = c\<lparr>sc_requested := Tr_none, sc_dev := s3, sc_state := S_stopped, sc_error := E_none,
          sc_epoch := \<lparr>tok_epoch = newEpoch, tok_operation = 0\<rparr>,
          sc_serial := 0, sc_associationToken := Token0, sc_scanToken := Token0, sc_pendingToken := Token0,
          sc_waitingAction := False, sc_waitingCommand := False, sc_roleCreated := False,
          sc_authenticated := False, sc_scanCancelled := False, sc_disconnectRequested := False,
          sc_channelCount := 0, sc_channelIndex := 0, sc_interface := Interface0, sc_peer := Peer0,
          sc_association := Association0, sc_lastNow := now, sc_clockStarted := True\<rparr>"
    have "st_inv n" using ce by (simp add: st_inv_def core_def waits_def state_simps n_def)
    moreover have "restart b newEpoch now c =
        (if \<not> g \<or> newEpoch = 0 \<or> newEpoch \<le> tok_epoch (sc_epoch c) then (False, c\<lparr>sc_dev := s\<rparr>)
         else if \<not> v then (False, c\<lparr>sc_dev := s2\<rparr>)
         else if \<not> r then (False, c\<lparr>sc_requested := Tr_none, sc_dev := s3\<rparr>) else (True, n))"
      by (simp add: restart_def io_call_def setTraffic_def g v r n_def)
    ultimately show ?thesis using inv' quiet by simp
  next
    case False
    then have "newEpoch \<le> tok_epoch (sc_epoch c)" by simp
    then show ?thesis using inv' by (simp add: restart_def io_call_def g)
  qed
qed

section \<open>Runs\<close>

text \<open>The entry points as one type of operation; every operation happens with the backend's gate and at
  the time it carries.\<close>

datatype st_op =
    Op_restart u64 u64 | Op_start Interface u64 | Op_scan "ScanChannel list option" u64 | Op_cancelScan Token u64
  | Op_connect Peer u64 | Op_authenticated Token Address bool u64 | Op_associationReceived Token Association u64
  | Op_associationRejected Token Address u16 u64 | Op_authorizePort Token u64 | Op_revokePort Token u64
  | Op_disconnect u64 | Op_stop u64 | Op_tick u64 | Op_actionComplete Token Action bool u64
  | Op_firmwareEvent FirmwareEvent u64 u64

fun st_call :: "'s StationIo \<Rightarrow> st_op \<Rightarrow> 's step" where
  "st_call b (Op_restart e now) = restart b e now"
| "st_call b (Op_start config now) = start b config now"
| "st_call b (Op_scan source now) = scan b source now"
| "st_call b (Op_cancelScan t now) = cancelScan b t now"
| "st_call b (Op_connect peer now) = connect b peer now"
| "st_call b (Op_authenticated t a ok now) = authenticated b t a ok now"
| "st_call b (Op_associationReceived t a now) = associationReceived b t a now"
| "st_call b (Op_associationRejected t a status now) = associationRejected b t a status now"
| "st_call b (Op_authorizePort t now) = authorizePort b t now"
| "st_call b (Op_revokePort t now) = revokePort b t now"
| "st_call b (Op_disconnect now) = disconnect b now"
| "st_call b (Op_stop now) = stop b now"
| "st_call b (Op_tick now) = tick b now"
| "st_call b (Op_actionComplete t kind ok now) = actionComplete b t kind ok now"
| "st_call b (Op_firmwareEvent ev e now) = firmwareEvent b ev e now"

definition st_run :: "'s StationIo \<Rightarrow> st_op list \<Rightarrow> 's Controller \<Rightarrow> 's Controller" where
  "st_run b ops c = fold (\<lambda>op c. snd (st_call b op c)) ops c"

inductive st_reach :: "'s StationIo \<Rightarrow> 's \<Rightarrow> 's Controller \<Rightarrow> bool" for b s where
  init: "st_reach b s (Controller0 s)"
| step: "st_reach b s c \<Longrightarrow> st_call b op c = (ok, c') \<Longrightarrow> st_reach b s c'"

lemma st_call_out: "st_inv c \<Longrightarrow> outcome st_inv st_inv (st_call b op c)"
  by (cases op) (simp_all add: restart_out start_out scan_out cancelScan_out connect_out authenticated_out
      associationReceived_out associationRejected_out authorizePort_out revokePort_out disconnect_out stop_out
      tick_out actionComplete_out firmwareEvent_out)

lemma st_call_inv: "st_inv c \<Longrightarrow> st_call b op c = (ok, c') \<Longrightarrow> st_inv c'"
  using st_call_out [of c b op] by (cases ok) (auto simp: outcome_def)

lemma reach_inv: "st_reach b s c \<Longrightarrow> st_inv c"
  by (induction rule: st_reach.induct) (auto intro: st_inv_init st_call_inv)

lemma reach_run: "st_reach b s c \<Longrightarrow> st_reach b s (st_run b ops c)"
  unfolding st_run_def
proof (induction ops arbitrary: c)
  case (Cons op ops)
  have "st_reach b s (snd (st_call b op c))" by (rule step [OF Cons.prems, of op "fst (st_call b op c)"]) simp
  then show ?case using Cons.IH by simp
qed simp

end
