(* ===== verification/StationJoin.thy ===== *)
theory StationJoin
  imports StationRun
begin

text \<open>The station controller over a backend that accepts every request: from power up to an authorized
  port, and what a late association response does. Witnesses of the run properties are runs of
  this kind.\<close>

section \<open>A backend that accepts everything\<close>

definition willing :: "u8 \<Rightarrow> unit StationIo" where
  "willing q = \<lparr>io_inGate = \<lambda>s. (True, s), io_setTraffic = \<lambda>v s. (True, s), io_reserveH2cSequence = \<lambda>s. ((True, q), s),
     io_publishH2c = \<lambda>bs t s. (True, s), io_beginAction = \<lambda>r s. (True, s), io_beginAuthentication = \<lambda>t p s. (True, s),
     io_sendProbe = \<lambda>t p ch s. (True, s), io_cancelProtocol = \<lambda>t s. (True, s), io_scanFinished = \<lambda>t x s. s,
     io_recoveryRequired = \<lambda>t e s. s, io_firmwareRestartVerified = \<lambda>e s. (True, s)\<rparr>"

lemma unit_dev [simp]: "c\<lparr>sc_dev := u\<rparr> = (c :: unit Controller)"
  by (cases c) simp

lemma willing_calls [simp]:
  "io_call (io_inGate (willing q)) c = (True, c)" "setTraffic (willing q) v c = (True, c\<lparr>sc_requested := v\<rparr>)"
  "io_call (io_publishH2c (willing q) bs t) c = (True, c)" "io_call (io_beginAction (willing q) r) c = (True, c)"
  "io_call (io_beginAuthentication (willing q) t p) c = (True, c)"
  "io_call (io_cancelProtocol (willing q) t) c = (True, c)"
  "io_call (io_firmwareRestartVerified (willing q) e) c = (True, c)"
  "io_reserveH2cSequence (willing q) s = ((True, q), s)"
  by (simp_all add: willing_def io_call_def setTraffic_def)

lemma orFail_True [simp]: "orFail b e (True, c) = (True, c)"
  by (simp add: orFail_def)

lemma willing_traffic [simp]: "traffic (willing q) v c = (True, c\<lparr>sc_requested := v\<rparr>)"
  by (simp add: traffic_def)

text \<open>There is room on the clock for every deadline.\<close>

definition clock_room :: "u64 \<Rightarrow> bool" where
  "clock_room now \<longleftrightarrow> now \<le> - 1 - 12000000"

lemma clock_room_arm:
  assumes "clock_room now" and "d \<le> 12000000"
  shows "\<not> (- 1 - now < d)"
proof -
  have "unat now \<le> unat (- 1 - 12000000 :: u64)" using assms(1) by (simp add: clock_room_def word_le_nat_alt)
  then have "unat now + 12000000 \<le> 2 ^ 64 - 1" by simp
  moreover have "unat (- 1 - now) = 2 ^ 64 - 1 - unat now"
    by (simp add: unat_sub unsigned_minus_1_eq_mask mask_eq_exp_minus_1)
  ultimately show ?thesis using assms(2) by (simp add: word_less_nat_alt word_le_nat_alt)
qed

lemma arm_room:
  "clock_room (sc_lastNow c) \<Longrightarrow> d \<le> 12000000 \<Longrightarrow> arm b d c = (True, c\<lparr>sc_deadline := sc_lastNow c + d\<rparr>)"
  using clock_room_arm [of "sc_lastNow c" d] by (simp add: arm_def)

lemma room_later:
  assumes "clock_room now" and "0 < d" and "d \<le> 12000000"
  shows "now < now + d"
proof -
  have "unat now \<le> unat (- 1 - 12000000 :: u64)" using assms(1) by (simp add: clock_room_def word_le_nat_alt)
  then have "unat now + unat d < 2 ^ 64" using assms(3) by (simp add: word_le_nat_alt)
  then have "unat (now + d) = unat now + unat d" by (simp add: unat_word_ariths)
  then show ?thesis using assms(2) by (simp add: word_less_nat_alt unat_gt_0)
qed

section \<open>One step at a time\<close>

definition issue :: "'s Controller \<Rightarrow> 's Controller" where
  "issue c = c\<lparr>sc_serial := sc_serial c + 1,
     sc_issued := \<lparr>tok_epoch = tok_epoch (sc_epoch c), tok_operation = sc_serial c + 1\<rparr> # sc_issued c\<rparr>"

definition next_token :: "'s Controller \<Rightarrow> Token" where
  "next_token c = \<lparr>tok_epoch = tok_epoch (sc_epoch c), tok_operation = sc_serial c + 1\<rparr>"

lemma token_issue: "sc_serial c \<noteq> - 1 \<Longrightarrow> token b c = (next_token c, issue c)"
  by (simp add: token_def issue_def next_token_def Let_def)

lemma willing_action:
  assumes "\<not> sc_waitingAction c" and "\<not> sc_waitingCommand c" and "sc_state c \<noteq> S_faulted"
    and "sc_serial c \<noteq> - 1" and "clock_room (sc_lastNow c)"
  shows "action (willing q) kind st target c = (True, (issue c)\<lparr>sc_pendingToken := next_token c,
     sc_pendingAction := kind, sc_waitingAction := True, sc_state := st, sc_deadline := sc_lastNow c + 12000000\<rparr>)"
  using assms by (simp add: action_def token_issue arm_room actionTimeout_def) (simp add: issue_def arm_room actionTimeout_def)

lemma command_bytes_some:
  assumes "if_macIndex (sc_interface c) = 0" and "if_wmm (sc_interface c) \<le> 3" and "if_port (sc_interface c) \<le> 4"
  shows "\<exists>bs. command_bytes role flag q c = Some bs"
proof -
  have e: "\<exists>x. encodeH2c \<lparr>ci_category = 1, ci_commandClass = 8, ci_function = f\<rparr> q False True (PlApart (bytes_of32 w)) 4
      (Some (replicate 12 0)) = Some (True, 12, Some x)" for f w
    using encodeH2c_apart [of "\<lparr>ci_category = 1, ci_commandClass = 8, ci_function = f\<rparr>" "bytes_of32 w" "replicate 12 0" q False True]
    by (simp add: h2c_fits_def)
  have s: "store32 (replicate 4 0) 0 w = Some (bytes_of32 w)" for w
    using store32_list4 [of "[]" 0 0 0 0 "[]" w] by (simp add: numeral_eq_Suc)
  have "\<exists>x. encodeRole (role_request flag c) q (Some (replicate 12 0)) = Some (True, 12, Some x)"
    using e by (simp add: encodeRole_def role_request_def s)
  moreover have "\<exists>x. encodeJoin (join_request flag c) q (Some (replicate 12 0)) = Some (True, 12, Some x)"
    using e assms by (simp add: encodeJoin_def join_request_def s word_less_nat_alt word_le_nat_alt)
  ultimately show ?thesis by (auto simp: command_bytes_def)
qed

lemma willing_command:
  assumes "\<not> sc_waitingAction c" and "\<not> sc_waitingCommand c" and "sc_state c \<noteq> S_faulted"
    and "sc_serial c \<noteq> - 1" and "clock_room (sc_lastNow c)"
    and "if_macIndex (sc_interface c) = 0" and "if_wmm (sc_interface c) \<le> 3" and "if_port (sc_interface c) \<le> 4"
  shows "command (willing q) role flag st c = (True, (issue c)\<lparr>sc_pendingCommand := \<lparr>ci_category = 1, ci_commandClass = 8,
       ci_function = (if role then 4 else 0)\<rparr>, sc_pendingToken := next_token c, sc_pendingSequence := q,
     sc_waitingCommand := True, sc_state := st, sc_deadline := sc_lastNow c + 2000000\<rparr>)"
proof -
  let ?c = "c\<lparr>sc_pendingCommand := \<lparr>ci_category = 1, ci_commandClass = 8, ci_function = (if role then 4 else 0)\<rparr>\<rparr>"
  obtain bs where bs: "command_bytes role flag q ?c = Some bs"
    using command_bytes_some [of ?c role flag q] assms(6-8) by auto
  show ?thesis using assms(1-5) bs unfolding command_def
    by (simp add: token_issue commandTimeout_def arm_room) (simp add: issue_def next_token_def arm_room commandTimeout_def)
qed

lemma willing_enter:
  assumes "sc_state c \<noteq> S_faulted" and "\<not> (sc_clockStarted c \<and> now < sc_lastNow c)"
  shows "st_enter (willing q) now guard body c =
    (let c = c\<lparr>sc_lastNow := now, sc_clockStarted := True\<rparr> in if guard c then body c else (False, c))"
  using assms by (auto simp: st_enter_def st_time_def)

section \<open>From power up to an authorized port\<close>

definition done_event :: "u8 \<Rightarrow> u8 \<Rightarrow> FirmwareEvent" where
  "done_event f q = ack_event \<lparr>fa_command = \<lparr>ci_category = 1, ci_commandClass = 8, ci_function = f\<rparr>, fa_sequence = q,
     fa_returnCode = 0, fa_done = True\<rparr>"

lemma decode_done: "decodeAck (done_event f q) = Some (True, \<lparr>fa_command = \<lparr>ci_category = 1, ci_commandClass = 8, ci_function = f\<rparr>,
    fa_sequence = q, fa_returnCode = 0, fa_done = True\<rparr>)"
  unfolding done_event_def by (rule decode_ack_event) (simp add: ack_valid_def word_le_nat_alt)

definition good_interface :: "Interface \<Rightarrow> bool" where
  "good_interface i \<longleftrightarrow> unicast (if_address i) \<and> if_macIndex i = 0 \<and> if_macid i < 128 \<and> if_wmm i \<le> 3 \<and> if_port i \<le> 4 \<and>
     validChannel (if_home i)"

definition good_peer :: "Peer \<Rightarrow> bool" where
  "good_peer p \<longleftrightarrow> unicast (pe_bssid p) \<and> pe_ssidLength p \<le> 32 \<and> validChannel (pe_channel p)"

text \<open>The steps the controller asks for, in order: the interface, its role, no link, the idle tables.\<close>

definition start_ops :: "u64 \<Rightarrow> u8 \<Rightarrow> Interface \<Rightarrow> u64 \<Rightarrow> st_op list" where
  "start_ops e q i now = [Op_restart e now, Op_start i now,
     Op_actionComplete \<lparr>tok_epoch = e, tok_operation = 1\<rparr> Ac_prepareInterface True now,
     Op_firmwareEvent (done_event 4 q) e now, Op_firmwareEvent (done_event 0 q) e now,
     Op_actionComplete \<lparr>tok_epoch = e, tok_operation = 4\<rparr> Ac_idleTables True now]"

text \<open>Then the peer: authentication, association, the join command, the address CAM, the port.\<close>

definition join_ops :: "u64 \<Rightarrow> u8 \<Rightarrow> Peer \<Rightarrow> u16 \<Rightarrow> u64 \<Rightarrow> st_op list" where
  "join_ops e q p aid now = (let t = \<lparr>tok_epoch = e, tok_operation = 5\<rparr> in
    [Op_connect p now,
     Op_actionComplete \<lparr>tok_epoch = e, tok_operation = 6\<rparr> Ac_prepareAuthentication True now,
     Op_authenticated t (pe_bssid p) True now,
     Op_associationReceived t \<lparr>as_bssid = pe_bssid p, as_channel = pe_channel p, as_aid = aid\<rparr> now,
     Op_actionComplete \<lparr>tok_epoch = e, tok_operation = 7\<rparr> Ac_associationCmac True now,
     Op_firmwareEvent (done_event 0 q) e now,
     Op_actionComplete \<lparr>tok_epoch = e, tok_operation = 9\<rparr> Ac_associationCam True now,
     Op_authorizePort t now])"

lemma same_refl [simp]: "same_token t t" "same_address a a" "sameChannel ch ch" "sameCommand k k"
  by (simp_all add: same_token_def same_address_def sameChannel_def sameCommand_def list_all_iff)

text \<open>Where a run is: the state, the serial, and the link as (peer, association token, authenticated,
  association).\<close>

definition phase :: "u64 \<Rightarrow> u8 \<Rightarrow> u64 \<Rightarrow> State \<Rightarrow> u64 \<Rightarrow> Peer \<times> Token \<times> bool \<times> Association \<Rightarrow> unit Controller \<Rightarrow> bool" where
  "phase e q now st n lk c \<longleftrightarrow> sc_state c = st \<and> sc_serial c = n \<and> sc_lastNow c = now \<and> sc_clockStarted c \<and>
     tok_epoch (sc_epoch c) = e \<and> \<not> sc_disconnectRequested c \<and>
     sc_waitingAction c = (awaits st \<noteq> None) \<and> sc_waitingCommand c = (awaits_cmd st \<noteq> None) \<and>
     (sc_waitingAction c \<longrightarrow> awaits st = Some (sc_pendingAction c)) \<and>
     (sc_waitingCommand c \<longrightarrow> sc_pendingCommand c = \<lparr>ci_category = 1, ci_commandClass = 8, ci_function = the (awaits_cmd st)\<rparr> \<and>
        sc_pendingSequence c = q) \<and>
     (sc_waitingAction c \<or> sc_waitingCommand c \<longrightarrow>
        sc_pendingToken c = \<lparr>tok_epoch = e, tok_operation = n\<rparr> \<and> now < sc_deadline c) \<and>
     (st = S_authenticating \<longrightarrow> now < sc_deadline c) \<and>
     if_macIndex (sc_interface c) = 0 \<and> if_wmm (sc_interface c) \<le> 3 \<and> if_port (sc_interface c) \<le> 4 \<and>
     (sc_peer c, sc_associationToken c, sc_authenticated c, sc_association c) = lk"

text \<open>A request the controller makes with nothing pending.\<close>

lemma phase_action:
  assumes "phase e q now st n lk c" and "clock_room now" and "n \<noteq> - 1" and "st \<noteq> S_faulted"
    and "awaits st' = Some kind" and "awaits_cmd st' = None"
  shows "phase e q now st' (n + 1) lk (snd (action (willing q) kind st' target (c\<lparr>sc_waitingAction := False, sc_waitingCommand := False\<rparr>)))"
  using assms room_later [of now 12000000]
  by (subst willing_action) (auto simp: phase_def issue_def next_token_def)

lemma phase_command:
  assumes "phase e q now st n lk c" and "clock_room now" and "n \<noteq> - 1" and "st \<noteq> S_faulted"
    and "awaits st' = None" and "awaits_cmd st' = Some (if role then 4 else 0)" and "st' \<noteq> S_authenticating"
  shows "phase e q now st' (n + 1) lk (snd (command (willing q) role flag st' (c\<lparr>sc_waitingAction := False, sc_waitingCommand := False\<rparr>)))"
  using assms room_later [of now 2000000]
  by (subst willing_command) (auto simp: phase_def issue_def next_token_def)

text \<open>A matching completion gets to the body of its entry point.\<close>

lemma phase_complete:
  assumes "phase e q now st n lk c" and "awaits st = Some kind" and "\<not> scan_state st"
  shows "st_call (willing q) (Op_actionComplete \<lparr>tok_epoch = e, tok_operation = n\<rparr> kind True now) c =
    completed_action (willing q) kind (c\<lparr>sc_waitingAction := False, sc_waitingCommand := False\<rparr>)"
proof -
  have c: "c\<lparr>sc_lastNow := now, sc_clockStarted := True\<rparr> = c" using assms(1) by (cases c) (simp add: phase_def)
  have w: "c\<lparr>sc_waitingAction := False, sc_waitingCommand := False\<rparr> = c\<lparr>sc_waitingAction := False\<rparr>"
    using assms(1) awaits_exclusive [of st] assms(2) by (cases c) (simp add: phase_def)
  have x: "expire (willing q) c = (True, c)"
    using assms by (auto simp: phase_def expire_def scanning_def scan_state_def)
  have f: "sc_state c \<noteq> S_faulted" using assms(1,2) by (auto simp: phase_def)
  show ?thesis unfolding w using assms(1,2) f x by (simp add: actionComplete_def willing_enter c phase_def)
qed

lemma phase_event:
  assumes "phase e q now st n lk c" and "awaits_cmd st = Some f"
  shows "st_call (willing q) (Op_firmwareEvent (done_event f q) e now) c =
    completed_command (willing q) (c\<lparr>sc_waitingAction := False, sc_waitingCommand := False\<rparr>)"
proof -
  have c: "c\<lparr>sc_lastNow := now, sc_clockStarted := True\<rparr> = c" using assms(1) by (cases c) (simp add: phase_def)
  have a: "awaits st = None" using awaits_exclusive [of st] assms(2) by (cases "awaits st") auto
  have w: "c\<lparr>sc_waitingAction := False, sc_waitingCommand := False\<rparr> = c\<lparr>sc_waitingCommand := False\<rparr>"
    using assms a by (cases c) (simp add: phase_def)
  have s: "\<not> scan_state st" "sc_state c \<noteq> S_faulted" using assms by (auto simp: phase_def awaits_cmd_def scan_state_def)
  have x: "expire (willing q) c = (True, c)"
    using assms s by (auto simp: phase_def expire_def scanning_def scan_state_def)
  show ?thesis unfolding w using assms s x by (simp add: firmwareEvent_def willing_enter c phase_def decode_done)
qed

definition unlinked :: "Peer \<times> Token \<times> bool \<times> Association" where
  "unlinked = (Peer0, Token0, False, Association0)"

lemma restart_phase:
  assumes "e \<noteq> 0"
  shows "snd (st_call (willing q) (Op_restart e now) (Controller0 ())) =
    (Controller0 ())\<lparr>sc_epoch := \<lparr>tok_epoch = e, tok_operation = 0\<rparr>, sc_lastNow := now, sc_clockStarted := True\<rparr>"
proof -
  have "\<not> e \<le> 0" using assms by simp
  then show ?thesis by (simp add: restart_def Controller0_def Token0_def)
qed

lemma start_phase:
  assumes "clock_room now" and "good_interface i" and "e \<noteq> 0"
    and c0: "c0 = (Controller0 ())\<lparr>sc_epoch := \<lparr>tok_epoch = e, tok_operation = 0\<rparr>, sc_lastNow := now, sc_clockStarted := True\<rparr>"
  shows "phase e q now S_preparing 1 unlinked (snd (st_call (willing q) (Op_start i now) c0))"
proof -
  have "st_call (willing q) (Op_start i now) c0 =
      action (willing q) Ac_prepareInterface S_preparing (if_home i) (c0\<lparr>sc_interface := i, sc_error := E_none, sc_requested := Tr_none\<rparr>)"
    using assms(2,3) by (simp add: c0 start_def willing_enter good_interface_def Controller0_def not_less not_le)
  also have "c0\<lparr>sc_interface := i, sc_error := E_none, sc_requested := Tr_none\<rparr> =
      c0\<lparr>sc_interface := i, sc_error := E_none, sc_requested := Tr_none, sc_waitingAction := False, sc_waitingCommand := False\<rparr>"
    by (simp add: c0 Controller0_def)
  finally show ?thesis
    using phase_action [of e q now S_stopped 0 unlinked "c0\<lparr>sc_interface := i, sc_error := E_none, sc_requested := Tr_none\<rparr>"
        S_preparing Ac_prepareInterface "if_home i"] assms
    by (simp add: phase_def unlinked_def Controller0_def awaits_cmd_def good_interface_def)
qed

lemma role_phase:
  assumes "phase e q now S_preparing n lk c" and "clock_room now" and "n \<noteq> - 1"
  shows "phase e q now S_creatingRole (n + 1) lk
    (snd (st_call (willing q) (Op_actionComplete \<lparr>tok_epoch = e, tok_operation = n\<rparr> Ac_prepareInterface True now) c))"
  using phase_command [OF assms, of S_creatingRole True False] phase_complete [OF assms(1), of Ac_prepareInterface]
  by (simp only: completed_action.simps) (simp add: scan_state_def awaits_cmd_def)

lemma no_link_phase:
  assumes "phase e q now S_creatingRole n lk c" and "clock_room now" and "n \<noteq> - 1"
  shows "phase e q now S_initialNoLink (n + 1) lk (snd (st_call (willing q) (Op_firmwareEvent (done_event 4 q) e now) c))"
proof -
  let ?d = "c\<lparr>sc_roleCreated := True\<rparr>"
  have d: "phase e q now S_creatingRole n lk ?d" using assms(1) by (simp add: phase_def)
  have eq: "c\<lparr>sc_waitingAction := False, sc_waitingCommand := False, sc_roleCreated := True\<rparr> =
    ?d\<lparr>sc_waitingAction := False, sc_waitingCommand := False\<rparr>" by (cases c) simp
  have "sc_state c = S_creatingRole" using assms(1) by (simp add: phase_def)
  then have "completed_command (willing q) (c\<lparr>sc_waitingAction := False, sc_waitingCommand := False\<rparr>) =
      command (willing q) False True S_initialNoLink (?d\<lparr>sc_waitingAction := False, sc_waitingCommand := False\<rparr>)"
    unfolding eq [symmetric] by (simp add: completed_command_def)
  moreover have "awaits_cmd S_creatingRole = Some 4" by (simp add: awaits_cmd_def)
  ultimately show ?thesis
    using phase_command [OF d assms(2,3), of S_initialNoLink False True] phase_event [OF assms(1), of 4]
    by (simp only:) (simp add: awaits_cmd_def)
qed

lemma event_action_phase:
  assumes "phase e q now st n lk c" and "clock_room now" and "n \<noteq> - 1" and "awaits_cmd st = Some f"
    and "completed_command (willing q) (c\<lparr>sc_waitingAction := False, sc_waitingCommand := False\<rparr>) =
      action (willing q) kind st' target (c\<lparr>sc_waitingAction := False, sc_waitingCommand := False\<rparr>)"
    and "awaits st' = Some kind" and "awaits_cmd st' = None"
  shows "phase e q now st' (n + 1) lk (snd (st_call (willing q) (Op_firmwareEvent (done_event f q) e now) c))"
  unfolding phase_event [OF assms(1,4)] assms(5)
  by (rule phase_action [OF assms(1-3)]) (use assms(4,6,7) in \<open>auto simp: awaits_cmd_def\<close>)

lemma idle_phase:
  assumes "phase e q now S_installingIdle n lk c"
  shows "phase e q now S_idle n lk
    (snd (st_call (willing q) (Op_actionComplete \<lparr>tok_epoch = e, tok_operation = n\<rparr> Ac_idleTables True now) c))"
proof -
  have "st_call (willing q) (Op_actionComplete \<lparr>tok_epoch = e, tok_operation = n\<rparr> Ac_idleTables True now) c =
      (True, c\<lparr>sc_waitingAction := False, sc_waitingCommand := False, sc_state := S_idle, sc_requested := Tr_management\<rparr>)"
    using phase_complete [OF assms, of Ac_idleTables] by (simp del: st_call.simps add: scan_state_def)
  then show ?thesis using assms by (simp del: st_call.simps add: phase_def awaits_cmd_def)
qed

lemma start_run:
  assumes "clock_room now" and "good_interface i" and "e \<noteq> 0"
  shows "phase e q now S_idle 4 unlinked (st_run (willing q) (start_ops e q i now) (Controller0 ()))"
proof -
  note 1 = start_phase [OF assms refl, of q]
  note 2 = role_phase [OF 1 assms(1)]
  note 3 = no_link_phase [OF 2 assms(1)]
  have "phase e q now S_installingIdle (1 + 1 + 1 + 1) unlinked (snd (st_call (willing q) (Op_firmwareEvent (done_event 0 q) e now) c))"
    if "phase e q now S_initialNoLink (1 + 1 + 1) unlinked c" for c
  proof (rule event_action_phase [OF that assms(1), of 0 Ac_idleTables S_installingIdle Channel0])
    have "sc_state c = S_initialNoLink" using that by (simp add: phase_def)
    then show "completed_command (willing q) (c\<lparr>sc_waitingAction := False, sc_waitingCommand := False\<rparr>) =
        action (willing q) Ac_idleTables S_installingIdle Channel0 (c\<lparr>sc_waitingAction := False, sc_waitingCommand := False\<rparr>)"
      by (simp add: completed_command_def)
  qed (simp_all add: awaits_cmd_def)
  note 4 = this [OF 3]
  note 5 = idle_phase [OF 4]
  show ?thesis
    using 5 unfolding st_run_def start_ops_def fold_simps restart_phase [OF assms(3)] by simp
qed

section \<open>The peer\<close>

lemma phase_clock: "phase e q now st n lk c \<Longrightarrow> c\<lparr>sc_lastNow := now, sc_clockStarted := True\<rparr> = c"
  by (cases c) (simp add: phase_def)

lemma phase_enter:
  assumes "phase e q now st n lk c" and "st \<noteq> S_faulted"
  shows "st_enter (willing q) now guard body c = (if guard c then body c else (False, c))"
  using assms by (simp add: willing_enter phase_clock [OF assms(1)] phase_def)

lemma phase_expire:
  assumes "phase e q now st n lk c" and "\<not> scan_state st"
  shows "expire (willing q) c = (True, c)"
  using assms by (auto simp: phase_def expire_def scanning_def scan_state_def)

lemma connect_phase:
  assumes "phase e q now S_idle n lk c" and "clock_room now" and "n \<noteq> - 1" and "n + 1 \<noteq> - 1" and "good_peer p"
  shows "phase e q now S_preparingAuthentication (n + 1 + 1) (p, \<lparr>tok_epoch = e, tok_operation = n + 1\<rparr>, False, Association0)
    (snd (st_call (willing q) (Op_connect p now) c))"
proof -
  let ?d = "c\<lparr>sc_peer := p, sc_association := Association0, sc_authenticated := False, sc_error := E_none\<rparr>"
  let ?f = "(issue ?d)\<lparr>sc_associationToken := next_token ?d, sc_requested := Tr_none\<rparr>"
  have "sc_serial ?d \<noteq> - 1" "sc_state c = S_idle" using assms(1,3) by (simp_all add: phase_def)
  then have "st_call (willing q) (Op_connect p now) c =
      action (willing q) Ac_prepareAuthentication S_preparingAuthentication (pe_channel p) ?f"
    using assms(5) by (simp add: connect_def phase_enter [OF assms(1)] good_peer_def not_less token_issue issue_def)
  moreover have ph: "phase e q now S_idle (n + 1) (p, \<lparr>tok_epoch = e, tok_operation = n + 1\<rparr>, False, Association0) ?f"
    using assms(1) by (simp add: phase_def issue_def next_token_def awaits_cmd_def)
  moreover have "?f\<lparr>sc_waitingAction := False, sc_waitingCommand := False\<rparr> = ?f"
    using assms(1) by (cases c) (simp add: phase_def issue_def awaits_cmd_def)
  ultimately show ?thesis
    using phase_action [OF ph assms(2,4), of S_preparingAuthentication Ac_prepareAuthentication "pe_channel p"]
    by (simp del: st_call.simps add: awaits_cmd_def)
qed

lemma authenticating_phase:
  assumes "phase e q now S_preparingAuthentication n lk c" and "clock_room now"
  shows "phase e q now S_authenticating n lk
    (snd (st_call (willing q) (Op_actionComplete \<lparr>tok_epoch = e, tok_operation = n\<rparr> Ac_prepareAuthentication True now) c))"
proof -
  let ?c = "c\<lparr>sc_waitingAction := False, sc_waitingCommand := False\<rparr>"
  let ?d = "?c\<lparr>sc_interface := (sc_interface c)\<lparr>if_home := pe_channel (sc_peer c)\<rparr>\<rparr>"
  have n: "sc_lastNow c = now" "\<not> sc_disconnectRequested c" using assms(1) by (simp_all add: phase_def)
  have "completed_action (willing q) Ac_prepareAuthentication ?c =
      (True, ?d\<lparr>sc_state := S_authenticating, sc_deadline := now + authenticationTimeout, sc_requested := Tr_management\<rparr>)"
    using assms(2) n by (simp add: arm_room authenticationTimeout_def)
  moreover have "now < now + authenticationTimeout"
    using room_later [OF assms(2), of authenticationTimeout] by (simp add: authenticationTimeout_def)
  ultimately show ?thesis
    using assms(1) phase_complete [OF assms(1), of Ac_prepareAuthentication]
    by (simp del: st_call.simps completed_action.simps add: scan_state_def phase_def awaits_cmd_def)
qed

lemma authenticated_phase:
  assumes "phase e q now S_authenticating n (p, t, False, as) c"
  shows "phase e q now S_authenticating n (p, t, True, as) (snd (st_call (willing q) (Op_authenticated t (pe_bssid p) True now) c))"
proof -
  have "sc_peer c = p" "sc_associationToken c = t" "sc_state c = S_authenticating" using assms by (simp_all add: phase_def)
  then have "st_call (willing q) (Op_authenticated t (pe_bssid p) True now) c = (True, c\<lparr>sc_authenticated := True\<rparr>)"
    by (simp add: authenticated_def phase_enter [OF assms] phase_expire [OF assms] scan_state_def)
  then show ?thesis using assms by (simp del: st_call.simps add: phase_def)
qed

lemma association_phase:
  assumes "phase e q now S_authenticating n (p, t, True, as) c" and "clock_room now" and "n \<noteq> - 1"
    and "aid \<noteq> 0" and "aid \<le> 2007"
  defines "a \<equiv> \<lparr>as_bssid = pe_bssid p, as_channel = pe_channel p, as_aid = aid\<rparr>"
  shows "phase e q now S_installingAssociationCmac (n + 1) (p, t, True, a) (snd (st_call (willing q) (Op_associationReceived t a now) c))"
proof -
  let ?d = "c\<lparr>sc_association := a\<rparr>"
  have "sc_peer c = p" "sc_associationToken c = t" "sc_state c = S_authenticating" "sc_authenticated c"
    using assms(1) by (simp_all add: phase_def)
  then have "st_call (willing q) (Op_associationReceived t a now) c =
      action (willing q) Ac_associationCmac S_installingAssociationCmac Channel0 ?d"
    using assms(4,5) by (simp add: associationReceived_def phase_enter [OF assms(1)] phase_expire [OF assms(1)] scan_state_def a_def)
  moreover have ph: "phase e q now S_authenticating n (p, t, True, a) ?d" using assms(1) by (simp add: phase_def)
  moreover have "?d\<lparr>sc_waitingAction := False, sc_waitingCommand := False\<rparr> = ?d"
    using assms(1) by (cases c) (simp add: phase_def awaits_cmd_def)
  ultimately show ?thesis
    using phase_action [OF ph assms(2,3), of S_installingAssociationCmac Ac_associationCmac Channel0]
    by (simp del: st_call.simps add: awaits_cmd_def)
qed

lemma joining_phase:
  assumes "phase e q now S_installingAssociationCmac n lk c" and "clock_room now" and "n \<noteq> - 1"
  shows "phase e q now S_joining (n + 1) lk
    (snd (st_call (willing q) (Op_actionComplete \<lparr>tok_epoch = e, tok_operation = n\<rparr> Ac_associationCmac True now) c))"
proof -
  have "\<not> sc_disconnectRequested c" using assms(1) by (simp add: phase_def)
  then show ?thesis
    using phase_command [OF assms, of S_joining False False] phase_complete [OF assms(1), of Ac_associationCmac]
    by (simp del: st_call.simps add: scan_state_def awaits_cmd_def)
qed

lemma cam_phase:
  assumes "phase e q now S_joining n lk c" and "clock_room now" and "n \<noteq> - 1"
  shows "phase e q now S_installingAssociationCam (n + 1) lk (snd (st_call (willing q) (Op_firmwareEvent (done_event 0 q) e now) c))"
proof (rule event_action_phase [OF assms, of 0 Ac_associationCam S_installingAssociationCam Channel0])
  have "sc_state c = S_joining" "\<not> sc_disconnectRequested c" using assms(1) by (simp_all add: phase_def)
  then show "completed_command (willing q) (c\<lparr>sc_waitingAction := False, sc_waitingCommand := False\<rparr>) =
      action (willing q) Ac_associationCam S_installingAssociationCam Channel0 (c\<lparr>sc_waitingAction := False, sc_waitingCommand := False\<rparr>)"
    by (simp add: completed_command_def)
qed (simp_all add: awaits_cmd_def)

lemma associated_phase:
  assumes "phase e q now S_installingAssociationCam n lk c"
  shows "phase e q now S_associated n lk
    (snd (st_call (willing q) (Op_actionComplete \<lparr>tok_epoch = e, tok_operation = n\<rparr> Ac_associationCam True now) c))"
proof -
  have "\<not> sc_disconnectRequested c" using assms(1) by (simp add: phase_def)
  then have "st_call (willing q) (Op_actionComplete \<lparr>tok_epoch = e, tok_operation = n\<rparr> Ac_associationCam True now) c =
      (True, c\<lparr>sc_waitingAction := False, sc_waitingCommand := False, sc_state := S_associated, sc_requested := Tr_controlledPort\<rparr>)"
    using phase_complete [OF assms, of Ac_associationCam] by (simp del: st_call.simps add: scan_state_def)
  then show ?thesis using assms by (simp del: st_call.simps add: phase_def awaits_cmd_def)
qed

lemma authorized_phase:
  assumes "phase e q now S_associated n (p, t, w, as) c"
  shows "phase e q now S_authorized n (p, t, w, as) (snd (st_call (willing q) (Op_authorizePort t now) c))"
    and "sc_requested (snd (st_call (willing q) (Op_authorizePort t now) c)) = Tr_authorized"
proof -
  have "sc_associationToken c = t" "sc_state c = S_associated" using assms(1) by (simp_all add: phase_def)
  then have "st_call (willing q) (Op_authorizePort t now) c = (True, c\<lparr>sc_requested := Tr_authorized, sc_state := S_authorized\<rparr>)"
    by (simp add: authorizePort_def phase_enter [OF assms])
  then show "phase e q now S_authorized n (p, t, w, as) (snd (st_call (willing q) (Op_authorizePort t now) c))"
    and "sc_requested (snd (st_call (willing q) (Op_authorizePort t now) c)) = Tr_authorized"
    using assms by (simp_all del: st_call.simps add: phase_def awaits_cmd_def)
qed

lemma join_run:
  assumes "phase e q now S_idle 4 lk c" and "clock_room now" and "good_peer p" and "aid \<noteq> 0" and "aid \<le> 2007"
  defines "a \<equiv> \<lparr>as_bssid = pe_bssid p, as_channel = pe_channel p, as_aid = aid\<rparr>"
  defines "d \<equiv> st_run (willing q) (join_ops e q p aid now) c"
  shows "phase e q now S_authorized 9 (p, \<lparr>tok_epoch = e, tok_operation = 5\<rparr>, True, a) d" and "sc_requested d = Tr_authorized"
proof -
  note 1 = connect_phase [OF assms(1,2) _ _ assms(3), simplified]
  note 2 = authenticating_phase [OF 1 assms(2)]
  note 3 = authenticated_phase [OF 2]
  note 4 = association_phase [OF 3 assms(2) _ assms(4,5), simplified]
  note 5 = joining_phase [OF 4 assms(2), simplified]
  note 6 = cam_phase [OF 5 assms(2), simplified]
  note 7 = associated_phase [OF 6]
  show "phase e q now S_authorized 9 (p, \<lparr>tok_epoch = e, tok_operation = 5\<rparr>, True, a) d" "sc_requested d = Tr_authorized"
    using authorized_phase [OF 7] by (simp_all add: d_def st_run_def join_ops_def a_def Let_def)
qed

lemma authenticated_run:
  assumes "phase e q now S_idle 4 lk c" and "clock_room now" and "good_peer p"
  shows "phase e q now S_authenticating 6 (p, \<lparr>tok_epoch = e, tok_operation = 5\<rparr>, True, Association0)
    (st_run (willing q) (take 3 (join_ops e q p aid now)) c)"
proof -
  note 1 = connect_phase [OF assms(1,2) _ _ assms(3), simplified]
  note 2 = authenticating_phase [OF 1 assms(2)]
  note 3 = authenticated_phase [OF 2]
  show ?thesis using 3 by (simp add: st_run_def join_ops_def numeral_3_eq_3 Let_def)
qed

section \<open>Sample runs\<close>

definition sample_address :: Address where
  "sample_address = [2, 0, 0, 0, 0, 1]"

definition sample_interface :: Interface where
  "sample_interface = \<lparr>if_macid = 0, if_macIndex = 0, if_wmm = 0, if_port = 0, if_address = sample_address,
     if_home = \<lparr>chn_band = 0, chn_width = 0, chn_center = 1, chn_primary = 1\<rparr>\<rparr>"

definition sample_peer :: Peer where
  "sample_peer = Peer0\<lparr>pe_bssid := sample_address, pe_channel := \<lparr>chn_band = 1, chn_width = 2, chn_center = 42, chn_primary = 36\<rparr>\<rparr>"

lemma sample_good: "good_interface sample_interface" "good_peer sample_peer" "clock_room 1000" "clock_room 30000000"
  by code_simp+

definition authenticated_sample :: "unit Controller" where
  "authenticated_sample = st_run (willing 7) (start_ops 1 7 sample_interface 1000 @ take 3 (join_ops 1 7 sample_peer 3 1000)) (Controller0 ())"

lemma authenticated_sample_phase:
  "phase 1 7 1000 S_authenticating 6 (sample_peer, \<lparr>tok_epoch = 1, tok_operation = 5\<rparr>, True, Association0) authenticated_sample"
  using authenticated_run [OF start_run [of 1000 sample_interface 1 7] sample_good(3,2), of 3] sample_good
  by (simp add: authenticated_sample_def st_run_def)

definition authorized_sample :: "unit Controller" where
  "authorized_sample = st_run (willing 7) (start_ops 1 7 sample_interface 1000 @ join_ops 1 7 sample_peer 3 1000) (Controller0 ())"

lemma authorized_sample_phase:
  "phase 1 7 1000 S_authorized 9 (sample_peer, \<lparr>tok_epoch = 1, tok_operation = 5\<rparr>, True,
     \<lparr>as_bssid = pe_bssid sample_peer, as_channel = pe_channel sample_peer, as_aid = 3\<rparr>) authorized_sample"
  "sc_requested authorized_sample = Tr_authorized"
  using join_run [OF start_run [of 1000 sample_interface 1 7] sample_good(3,2), of 3] sample_good
  by (simp_all add: authorized_sample_def st_run_def)

lemma authorized_sample_reach: "st_reach (willing 7) () authorized_sample"
  unfolding authorized_sample_def by (rule reach_run [OF st_reach.init])

section \<open>Properties of every run\<close>

text \<open>C13: In every state the controller can reach, over any backend, the traffic it last
  asked the device for is one the state allows: data frames only while the port is authorized, port
  control frames only while associated, probes only while dwelling in a scan, and nothing while a
  fault is pending or the link is being torn down.\<close>

theorem station_traffic_safe:
  assumes "st_reach b s c"
  shows "sc_requested c \<in> allowed (sc_state c) \<and> (sc_requested c = Tr_authorized \<longrightarrow> portAuthorized c) \<and>
    (requiresRecovery c \<longrightarrow> sc_requested c = Tr_none)"
proof (intro conjI impI)
  show a: "sc_requested c \<in> allowed (sc_state c)"
    using reach_inv [OF assms] by (simp add: st_inv_def at_state_def)
  show "portAuthorized c" if "sc_requested c = Tr_authorized"
    using a that by (cases "sc_state c") (simp_all add: portAuthorized_def)
  show "sc_requested c = Tr_none" if "requiresRecovery c"
    using a that by (simp add: requiresRecovery_def)
qed

theorem station_traffic_safe_witness:
  "st_reach (willing 7) () authorized_sample \<and> sc_requested authorized_sample = Tr_authorized \<and> portAuthorized authorized_sample"
  using station_traffic_safe [OF authorized_sample_reach] authorized_sample_reach authorized_sample_phase(2) by simp

text \<open>C14: Whenever the controller reports an association, the access point has
  authenticated this station and its association response names the peer's address, the peer's channel
  and an association id between 1 and 2007. The same holds for an authorized port.\<close>

theorem station_association_evidence:
  assumes "st_reach b s c" and "st_associated c \<or> portAuthorized c"
  shows "sc_authenticated c \<and> same_address (as_bssid (sc_association c)) (pe_bssid (sc_peer c)) \<and>
     sameChannel (as_channel (sc_association c)) (pe_channel (sc_peer c)) \<and>
     1 \<le> as_aid (sc_association c) \<and> as_aid (sc_association c) \<le> 2007"
proof -
  have i: "at_state (sc_state c) c" using reach_inv [OF assms(1)] by (simp add: st_inv_def)
  have "evidence c"
    using assms(2) i by (auto simp: st_associated_def portAuthorized_def linked_def scanning_def at_state_def scan_state_def)
  then show ?thesis by (simp add: evidence_def word_le_nat_alt unat_gt_0 Suc_le_eq)
qed

theorem station_association_evidence_witness:
  "sc_authenticated authorized_sample \<and> as_aid (sc_association authorized_sample) = 3"
proof -
  have "portAuthorized authorized_sample" using authorized_sample_phase(1) by (simp add: phase_def portAuthorized_def)
  then show ?thesis
    using station_association_evidence [OF authorized_sample_reach] authorized_sample_phase(1) by (simp add: phase_def)
qed

text \<open>Over all restarts of one controller no token is handed out twice: the tokens are
  strictly increasing in (epoch, operation), and a request that is pending carries a token of the
  current epoch, at most one request being pending at a time.\<close>

theorem station_tokens_fresh:
  assumes "st_reach b s c"
  shows "distinct (sc_issued c) \<and> \<not> (sc_waitingAction c \<and> sc_waitingCommand c) \<and>
    (sc_waitingAction c \<or> sc_waitingCommand c \<longrightarrow>
      sc_pendingToken c \<in> set (sc_issued c) \<and> tok_epoch (sc_pendingToken c) = tok_epoch (sc_epoch c))"
proof (intro conjI impI)
  have i: "core c" "waits c" using reach_inv [OF assms] by (simp_all add: st_inv_def)
  have "sorted_wrt (\<lambda>a b. tok_less b a) ts \<Longrightarrow> distinct ts" for ts
    by (induction ts) (auto simp: tok_less_def)
  then show "distinct (sc_issued c)" using i by (simp add: core_def)
  show "\<not> (sc_waitingAction c \<and> sc_waitingCommand c)"
    using i(2) awaits_exclusive [of "sc_state c"] by (auto simp: waits_def)
  show "sc_pendingToken c \<in> set (sc_issued c)" "tok_epoch (sc_pendingToken c) = tok_epoch (sc_epoch c)"
    if "sc_waitingAction c \<or> sc_waitingCommand c"
    using i(2) that by (simp_all add: waits_def)
qed

theorem station_tokens_fresh_witness:
  "distinct (sc_issued authorized_sample) \<and> sc_serial authorized_sample = 9"
  using station_tokens_fresh [OF authorized_sample_reach] authorized_sample_phase(1) by (simp add: phase_def)

text \<open>When the clock does not run backwards, the clock check leaves the rest of the controller alone.\<close>

definition same_but_clock :: "'s Controller \<Rightarrow> 's Controller \<Rightarrow> bool" where
  "same_but_clock c d \<longleftrightarrow> (\<exists>s l w. d = c\<lparr>sc_dev := s, sc_lastNow := l, sc_clockStarted := w\<rparr>)"

lemma st_time_same:
  assumes "\<not> (sc_clockStarted c \<and> now < sc_lastNow c)"
  shows "same_but_clock c (snd (st_time b now c))"
proof -
  obtain g s where g: "io_inGate b (sc_dev c) = (g, s)" by fastforce
  have "same_but_clock c (c\<lparr>sc_dev := s, sc_lastNow := sc_lastNow c, sc_clockStarted := sc_clockStarted c\<rparr>)"
    unfolding same_but_clock_def by blast
  moreover have "same_but_clock c (c\<lparr>sc_dev := s, sc_lastNow := now, sc_clockStarted := True\<rparr>)"
    unfolding same_but_clock_def by blast
  ultimately show ?thesis using assms by (auto simp: st_time_def io_call_def g)
qed

lemma st_enter_refused:
  assumes "\<And>d. same_but_clock c d \<Longrightarrow> \<not> guard d" and "\<not> (sc_clockStarted c \<and> now < sc_lastNow c)"
  shows "fst (st_enter b now guard body c) = False \<and> same_but_clock c (snd (st_enter b now guard body c))"
  using st_time_same [OF assms(2), of b] assms(1)
  by (cases "st_time b now c") (auto simp: st_enter_def andThen_def)

text \<open>A completion whose token is not the pending one changes nothing but the
  clock of the controller: the call returns false, and unless its time runs backwards the state,
  the pending request, the association and the requested traffic stay as they are.\<close>

theorem stale_completion_ignored:
  assumes "\<not> same_token original (sc_pendingToken c)" and "sc_clockStarted c \<Longrightarrow> sc_lastNow c \<le> now"
  shows "fst (actionComplete b original kind success now c) = False \<and>
    same_but_clock c (snd (actionComplete b original kind success now c))"
proof -
  have "\<not> (sc_waitingAction d \<and> same_token original (sc_pendingToken d) \<and> kind = sc_pendingAction d)"
    if "same_but_clock c d" for d using that assms(1) by (auto simp: same_but_clock_def)
  then show ?thesis
    unfolding actionComplete_def by (rule st_enter_refused) (use assms(2) in auto)
qed

theorem stale_completion_ignored_witness:
  "fst (actionComplete (willing 7) \<lparr>tok_epoch = 3, tok_operation = 1\<rparr> Ac_scanEnd True 5 (Controller0 ())) = False"
  by (rule conjunct1 [OF stale_completion_ignored]) (simp_all add: Controller0_def same_token_def Token0_def)

text \<open>C15: Over a backend that accepts every request the controller does get to an
  authorized port: from its initial state, for every epoch but 0, every interface and peer the checks
  admit and every association id in range, the completions and acknowledgements it asks for lead to
  \<open>authorized\<close> with data traffic enabled and the given peer, as long as the clock has room for the
  deadlines.\<close>

theorem station_reaches_authorized:
  assumes "clock_room now" and "good_interface i" and "e \<noteq> 0" and "good_peer p" and "aid \<noteq> 0" and "aid \<le> 2007"
  shows "let c = st_run (willing q) (start_ops e q i now @ join_ops e q p aid now) (Controller0 ()) in
    portAuthorized c \<and> sc_requested c = Tr_authorized \<and> sc_peer c = p \<and> as_aid (sc_association c) = aid"
proof -
  have "st_run (willing q) (start_ops e q i now @ join_ops e q p aid now) (Controller0 ()) =
      st_run (willing q) (join_ops e q p aid now) (st_run (willing q) (start_ops e q i now) (Controller0 ()))"
    by (simp add: st_run_def)
  then show ?thesis
    using join_run [OF start_run [OF assms(1-3)] assms(1,4-6), of q] by (simp add: phase_def portAuthorized_def Let_def)
qed

theorem station_reaches_authorized_witness:
  "portAuthorized (st_run (willing 7) (start_ops 1 7 sample_interface 1000 @ join_ops 1 7 sample_peer 3 1000) (Controller0 ()))"
  using station_reaches_authorized [of 1000 sample_interface 1 sample_peer 3 7] sample_good by (simp add: Let_def)

text \<open>C16: When the answer of the access point comes at or after the authentication
  deadline, the expiry check starts the disconnection and reports success, so the handler goes on to
  request the association tables while the disconnection request is pending, and the controller
  faults. A response that had come in time would have moved the association on; a \<open>tick\<close> at the same
  time would only have disconnected.\<close>

theorem late_association_faults:
  assumes "sc_state c = S_authenticating" and "sc_authenticated c" and "\<not> sc_waitingAction c" and "\<not> sc_waitingCommand c"
    and "same_token t (sc_associationToken c)" and "same_address (as_bssid a) (pe_bssid (sc_peer c))"
    and "sameChannel (as_channel a) (pe_channel (sc_peer c))" and "as_aid a \<noteq> 0" and "as_aid a \<le> 2007"
    and "sc_lastNow c \<le> now" and "sc_deadline c \<le> now" and "sc_serial c \<noteq> - 1" and "clock_room now"
  shows "requiresRecovery (snd (associationReceived (willing q) t a now c)) \<and>
    sc_error (snd (associationReceived (willing q) t a now c)) = E_backend \<and>
    sc_state (snd (tick (willing q) now c)) = S_disconnectingCmac"
proof (intro conjI)
  let ?c = "c\<lparr>sc_lastNow := now, sc_clockStarted := True\<rparr>"
  let ?d = "?c\<lparr>sc_error := E_timeout, sc_disconnectRequested := True, sc_requested := Tr_none\<rparr>"
  have x: "expire (willing q) ?c = action (willing q) Ac_disconnectCmac S_disconnectingCmac Channel0 ?d"
    using assms(1,3,4,11) by (simp add: expire_def scanning_def beginDisconnect_def)
  also have "\<dots> = (True, (issue ?d)\<lparr>sc_pendingToken := next_token ?d, sc_pendingAction := Ac_disconnectCmac,
      sc_waitingAction := True, sc_state := S_disconnectingCmac, sc_deadline := now + 12000000\<rparr>)"
    by (subst willing_action) (use assms(1,3,4,12,13) in simp_all)
  finally have e: "expire (willing q) ?c = (True, (issue ?d)\<lparr>sc_pendingToken := next_token ?d, sc_pendingAction := Ac_disconnectCmac,
      sc_waitingAction := True, sc_state := S_disconnectingCmac, sc_deadline := now + 12000000\<rparr>)" .
  have en: "st_enter (willing q) now guard body c = (if guard ?c then body ?c else (False, ?c))" for guard body
    using assms(1,10) by (simp add: willing_enter not_less)
  show "requiresRecovery (snd (associationReceived (willing q) t a now c))"
    and "sc_error (snd (associationReceived (willing q) t a now c)) = E_backend"
    using assms by (simp_all add: associationReceived_def en e action_def st_fail_def requiresRecovery_def Let_def)
  show "sc_state (snd (tick (willing q) now c)) = S_disconnectingCmac"
    by (simp add: tick_def en e)
qed

theorem late_association_faults_witness:
  "requiresRecovery (snd (associationReceived (willing 7) \<lparr>tok_epoch = 1, tok_operation = 5\<rparr>
     \<lparr>as_bssid = pe_bssid sample_peer, as_channel = pe_channel sample_peer, as_aid = 3\<rparr> 30000000
     (authenticated_sample\<lparr>sc_deadline := 10001000\<rparr>)))"
  by (rule conjunct1 [OF late_association_faults]) (use authenticated_sample_phase sample_good in \<open>simp_all add: phase_def awaits_cmd_def\<close>)

end
