(* ===== verification/RxAssembly.thy ===== *)
theory RxAssembly
  imports Descriptors
begin

text \<open>The receive reassembly of \<open>src/network/PciRxAssembly.hpp\<close>: segments of a frame, as the DMA engine
  wrote them, are collected in a buffer until the last one. Reads and writes are checked; the main
  result is that a frame cut into segments in any way comes out as it went in.\<close>

section \<open>Model\<close>

datatype AssemblyStatus = AS_incomplete | AS_complete | AS_invalid

record AssembledRx =
  ar_data :: "bytes option"
  ar_bytes :: nat
  ar_packet :: RxPacket

definition AssembledRx0 :: AssembledRx where
  "AssembledRx0 = \<lparr>ar_data = None, ar_bytes = 0, ar_packet = RxPacket0\<rparr>"

record PciRxAssembly =
  ra_bytes :: bytes
  ra_used :: nat
  ra_target :: nat
  ra_active :: bool

definition rx_storage :: nat where
  "rx_storage = 4 + 32 + 6 + 56 + 16383"

definition PciRxAssembly0 :: PciRxAssembly where
  "PciRxAssembly0 = \<lparr>ra_bytes = replicate rx_storage 0, ra_used = 0, ra_target = 0, ra_active = False\<rparr>"

definition ra_reset :: "PciRxAssembly \<Rightarrow> PciRxAssembly" where
  "ra_reset a = a\<lparr>ra_used := 0, ra_target := 0, ra_active := False\<rparr>"

definition ra_pending :: "PciRxAssembly \<Rightarrow> bool" where
  "ra_pending a = ra_active a"

text \<open>\<open>reset(); return AssemblyStatus::invalid;\<close>.\<close>

definition ra_invalid :: "PciRxAssembly \<Rightarrow> ((AssemblyStatus \<times> AssembledRx) \<times> PciRxAssembly) option" where
  "ra_invalid a = Some ((AS_invalid, AssembledRx0), ra_reset a)"

text \<open>The branch of a first segment: \<open>None\<close> in the second component is a refused one; otherwise the offset
  the frame starts at.\<close>

definition feed_first :: "bytes \<Rightarrow> nat \<Rightarrow> PciRxAssembly \<Rightarrow> (nat option \<times> PciRxAssembly) option" where
  "feed_first dma written a = (if ra_active a then Some (None, a) else do {
     (st, header) \<leftarrow> decodeRxHeader (Some (take written dma)) 4;
     if st \<noteq> DS_ok then Some (None, a)
     else let a = a\<lparr>ra_target := rp_offset header + rp_length header\<rparr> in
       if rx_storage < ra_target a then Some (None, a)
       else do {
         head \<leftarrow> rd_bytes dma 0 (rp_offset header);
         bs \<leftarrow> wr (ra_bytes a) 0 head;
         Some (Some (rp_offset header), a\<lparr>ra_bytes := bs, ra_used := rp_offset header, ra_active := True\<rparr>) } })"

text \<open>The copy of the payload and the end of the frame.\<close>

definition feed_copy :: "bytes \<Rightarrow> nat \<Rightarrow> bool \<Rightarrow> bool \<Rightarrow> nat \<Rightarrow> PciRxAssembly \<Rightarrow>
    ((AssemblyStatus \<times> AssembledRx) \<times> PciRxAssembly) option" where
  "feed_copy dma written first lastSeg start a = (let room = ra_target a - ra_used a in
     if room < written - start \<and> \<not> (first \<and> lastSeg) then ra_invalid a
     else let copy = (if room < written - start then room else written - start) in
       if copy = 0 \<or> \<not> lastSeg \<and> copy = room then ra_invalid a
       else do {
         part \<leftarrow> rd_bytes dma start copy;
         bs \<leftarrow> wr (ra_bytes a) (ra_used a) part;
         let a = a\<lparr>ra_bytes := bs, ra_used := ra_used a + copy\<rparr>;
         if \<not> lastSeg then Some ((AS_incomplete, AssembledRx0), a)
         else if ra_used a \<noteq> ra_target a then ra_invalid a
         else do {
           (st, packet) \<leftarrow> decodeRx (Some (take (ra_used a) (ra_bytes a))) 4;
           if st \<noteq> DS_ok then ra_invalid a
           else Some ((AS_complete, \<lparr>ar_data = Some (take (ra_used a) (ra_bytes a)), ar_bytes = ra_used a, ar_packet = packet\<rparr>),
             a\<lparr>ra_active := False, ra_used := 0, ra_target := 0\<rparr>) } })"

definition feed :: "bytes option \<Rightarrow> PciRxAssembly \<Rightarrow> ((AssemblyStatus \<times> AssembledRx) \<times> PciRxAssembly) option" where
  "feed source a = (case source of None \<Rightarrow> ra_invalid a | Some dma \<Rightarrow>
     if length dma < 4 then ra_invalid a
     else do {
       prefix \<leftarrow> little32 dma 0;
       let written = unat (prefix AND 0x3fff);
       let first = (prefix AND 0x8000 \<noteq> 0);
       let lastSeg = (prefix AND 0x4000 \<noteq> 0);
       if written < 4 \<or> length dma < written then ra_invalid a
       else if first then do {
         (start, a) \<leftarrow> feed_first dma written a;
         case start of None \<Rightarrow> ra_invalid a | Some start \<Rightarrow> feed_copy dma written first lastSeg start a }
       else if \<not> ra_active a then ra_invalid a
       else feed_copy dma written first lastSeg 4 a })"

section \<open>The buffer is never left\<close>

text \<open>A packet in progress fits the storage and has more to come.\<close>

definition ra_inv :: "PciRxAssembly \<Rightarrow> bool" where
  "ra_inv a \<longleftrightarrow> length (ra_bytes a) = rx_storage \<and> (ra_active a \<longrightarrow> ra_used a < ra_target a \<and> ra_target a \<le> rx_storage)"

lemma ra_inv_init: "ra_inv PciRxAssembly0"
  by (simp add: ra_inv_def PciRxAssembly0_def)

lemma ra_inv_reset: "length (ra_bytes a) = rx_storage \<Longrightarrow> ra_inv (ra_reset a)"
  by (simp add: ra_inv_def ra_reset_def)

lemma wr_length: "wr xs off ys = Some zs \<Longrightarrow> length zs = length xs"
  by (auto simp: wr_def split: if_splits)

lemma wr_in: "off + length ys \<le> length xs \<Longrightarrow> wr xs off ys = Some (take off xs @ ys @ drop (off + length ys) xs)"
  by (simp add: wr_def)

definition feeds :: "((AssemblyStatus \<times> AssembledRx) \<times> PciRxAssembly) option \<Rightarrow> bool" where
  "feeds r \<longleftrightarrow> (\<exists>st out b. r = Some ((st, out), b) \<and> ra_inv b \<and>
     (if st = AS_complete then (\<exists>data. ar_data out = Some data \<and> length data = ar_bytes out \<and>
          decodeRx (Some data) 4 = Some (DS_ok, ar_packet out)) \<and> ar_bytes out \<le> rx_storage \<and> \<not> ra_pending b
      else out = AssembledRx0) \<and>
     (st = AS_invalid \<longrightarrow> \<not> ra_pending b))"

lemma invalid_feeds: "length (ra_bytes a) = rx_storage \<Longrightarrow> feeds (ra_invalid a)"
  by (simp add: feeds_def ra_invalid_def ra_inv_reset) (simp add: ra_reset_def ra_pending_def)

lemma decodeRx_total: "\<exists>st p. decodeRx (Some data) off = Some (st, p)"
  using decodeRxHeader_spec [of data off] by (fastforce simp: decodeRx_def)

lemma feed_copy_feeds:
  assumes "ra_inv a" and "ra_active a" and "start \<le> written" and "written \<le> length dma"
  shows "feeds (feed_copy dma written first lastSeg start a)"
proof -
  have l: "length (ra_bytes a) = rx_storage" and u: "ra_used a < ra_target a" "ra_target a \<le> rx_storage"
    using assms(1,2) by (auto simp: ra_inv_def)
  define room where "room = ra_target a - ra_used a"
  define copy where "copy = (if room < written - start then room else written - start)"
  have r: "rd_bytes dma start copy = Some (take copy (drop start dma))"
    by (rule rd_bytes_in) (use assms(3,4) in \<open>auto simp: copy_def\<close>)
  have lp: "length (take copy (drop start dma)) = copy" using assms(3,4) by (auto simp: copy_def)
  have cr: "copy \<le> room" "ra_used a + room = ra_target a" using u by (auto simp: copy_def room_def)
  define bs where "bs = take (ra_used a) (ra_bytes a) @ take copy (drop start dma) @ drop (ra_used a + copy) (ra_bytes a)"
  have w: "wr (ra_bytes a) (ra_used a) (take copy (drop start dma)) = Some bs"
    unfolding bs_def by (subst wr_in) (use l u cr lp in auto)
  have lb: "length bs = rx_storage" using wr_length [OF w] l by simp
  let ?a = "a\<lparr>ra_bytes := bs, ra_used := ra_used a + copy\<rparr>"
  obtain st p where d: "decodeRx (Some (take (ra_used a + copy) bs)) 4 = Some (st, p)"
    using decodeRx_total by blast
  have fin: "feeds (Some ((AS_complete, \<lparr>ar_data = Some (take (ra_used a + copy) bs), ar_bytes = ra_used a + copy, ar_packet = p\<rparr>), b))"
    if "st = DS_ok" "length (ra_bytes b) = rx_storage" "\<not> ra_active b" for b
    using that d lb u(2) cr by (simp add: feeds_def ra_inv_def ra_pending_def)
  have mid: "feeds (Some ((AS_incomplete, AssembledRx0), ?a))"
    if "copy \<noteq> room" using that lb u cr by (auto simp: feeds_def ra_inv_def)
  show ?thesis
  proof (cases "ra_used a + copy = ra_target a")
    case True
    show ?thesis unfolding feed_copy_def Let_def room_def [symmetric] copy_def [symmetric]
      using fin mid d unfolding True by (simp add: r w invalid_feeds l lb True)
  next
    case False
    then show ?thesis unfolding feed_copy_def Let_def room_def [symmetric] copy_def [symmetric]
      using mid by (simp add: r w invalid_feeds l lb)
  qed
qed

lemma feed_first_ok:
  assumes "ra_inv a" and "written \<le> length dma" and "feed_first dma written a = Some (x, b)"
  shows "case x of None \<Rightarrow> length (ra_bytes b) = rx_storage
    | Some start \<Rightarrow> ra_inv b \<and> ra_active b \<and> start \<le> written"
proof (cases "ra_active a")
  case True
  then show ?thesis using assms by (auto simp: feed_first_def ra_inv_def)
next
  case False
  obtain st h where h: "decodeRxHeader (Some (take written dma)) 4 = Some (st, h)"
    and s: "st = DS_ok \<Longrightarrow> rp_offset h \<le> written \<and> 0 < rp_length h"
    using decodeRxHeader_spec [of "take written dma" 4] assms(2) by (fastforce split: if_splits)
  show ?thesis
    using assms False s wr_length unfolding feed_first_def h
    by (auto simp: ra_inv_def Let_def split: if_splits bind_splits)
qed

lemma feed_first_total:
  assumes "ra_inv a" and "written \<le> length dma"
  shows "\<exists>x b. feed_first dma written a = Some (x, b)"
proof (cases "ra_active a")
  case True
  then show ?thesis by (simp add: feed_first_def)
next
  case False
  obtain st h where h: "decodeRxHeader (Some (take written dma)) 4 = Some (st, h)"
    and s: "st = DS_ok \<Longrightarrow> rp_offset h \<le> written"
    using decodeRxHeader_spec [of "take written dma" 4] assms(2) by (fastforce split: if_splits)
  show ?thesis
    using assms False s unfolding feed_first_def h
    by (auto simp: ra_inv_def Let_def rd_bytes_def wr_def)
qed

lemma feed_feeds:
  assumes "ra_inv a"
  shows "feeds (feed source a)"
proof (cases source)
  case None
  then show ?thesis using assms by (simp add: feed_def invalid_feeds ra_inv_def)
next
  case (Some dma)
  have l: "length (ra_bytes a) = rx_storage" using assms by (simp add: ra_inv_def)
  show ?thesis
  proof (cases "length dma < 4")
    case True
    then show ?thesis using Some l by (simp add: feed_def invalid_feeds)
  next
    case False
    then have "0 < length dma" "1 < length dma" "2 < length dma" "3 < length dma" by linarith+
    then obtain w where w: "little32 dma 0 = Some w" by (simp add: little32_def rd8_def)
    let ?n = "unat (w AND 0x3fff)"
    show ?thesis
    proof (cases "?n < 4 \<or> length dma < ?n")
      case True
      then show ?thesis using Some False l w by (auto simp: feed_def invalid_feeds Let_def)
    next
      case n: False
      obtain x b where f: "feed_first dma ?n a = Some (x, b)" using feed_first_total [OF assms, of ?n dma] n by auto
      have fo: "case x of None \<Rightarrow> length (ra_bytes b) = rx_storage | Some start \<Rightarrow> ra_inv b \<and> ra_active b \<and> start \<le> ?n"
        by (rule feed_first_ok [OF assms _ f]) (use n in simp)
      have 1: "feeds (case x of None \<Rightarrow> ra_invalid b | Some start \<Rightarrow> feed_copy dma ?n f' l' start b)" for f' l'
        using fo n by (cases x) (auto intro: invalid_feeds feed_copy_feeds)
      have 2: "feeds (feed_copy dma ?n f' l' 4 a)" if "ra_active a" for f' l'
        by (rule feed_copy_feeds [OF assms that]) (use n in auto)
      show ?thesis using Some False n w f 1 2 l by (auto simp: feed_def invalid_feeds Let_def)
    qed
  qed
qed

text \<open>Whatever the DMA engine wrote into a receive buffer, feeding it to the reassembly never
  reads or writes outside a buffer and leaves a well-formed reassembly. A packet is handed out only
  when it is complete, decodes without error and lies inside the storage; after an invalid segment
  nothing is pending and nothing is handed out.\<close>

theorem rx_feed_safe:
  assumes "ra_inv a"
  shows "\<exists>st out b. feed source a = Some ((st, out), b) \<and> ra_inv b \<and>
     (if st = AS_complete then (\<exists>data. ar_data out = Some data \<and> length data = ar_bytes out \<and>
          decodeRx (Some data) 4 = Some (DS_ok, ar_packet out)) \<and> ar_bytes out \<le> rx_storage \<and> \<not> ra_pending b
      else out = AssembledRx0) \<and>
     (st = AS_invalid \<longrightarrow> \<not> ra_pending b)"
  using feed_feeds [OF assms] by (simp only: feeds_def)

theorem rx_feed_safe_witness: "\<exists>st out b. feed (Some [4, 0, 0, 0]) PciRxAssembly0 = Some ((st, out), b) \<and> ra_inv b"
  using rx_feed_safe [OF ra_inv_init] by blast

section \<open>A frame comes out as it went in\<close>

text \<open>What the engine writes for a part of a frame: the length, the first and last flags, and the bytes.\<close>

definition seg_prefix :: "nat \<Rightarrow> bool \<Rightarrow> bool \<Rightarrow> u32" where
  "seg_prefix n f l = of_nat n OR (if f then 0x8000 else 0) OR (if l then 0x4000 else 0)"

definition segment :: "bool \<Rightarrow> bool \<Rightarrow> bytes \<Rightarrow> bytes" where
  "segment f l part = bytes_of32 (seg_prefix (length part + 4) f l) @ part"

lemma of_nat_bit_high: "n < 16384 \<Longrightarrow> 14 \<le> k \<Longrightarrow> \<not> bit (of_nat n :: u32) k"
proof -
  assume n: "n < 16384" and k: "14 \<le> k"
  have "n < 2 ^ k" using n power_increasing [OF k, of "2 :: nat"] by simp
  then have "\<not> bit n k" by (simp add: bit_iff_odd)
  then show "\<not> bit (of_nat n :: u32) k" by (simp add: bit_simps)
qed

lemma flag_bits: "bit (0x8000 :: u32) k \<longleftrightarrow> k = 15" "bit (0x4000 :: u32) k \<longleftrightarrow> k = 14"
proof -
  have "bit (2 ^ 15 :: u32) k \<longleftrightarrow> k = 15" "bit (2 ^ 14 :: u32) k \<longleftrightarrow> k = 14"
    by (auto simp only: bit_exp_iff possible_bit_word) simp_all
  then show "bit (0x8000 :: u32) k \<longleftrightarrow> k = 15" "bit (0x4000 :: u32) k \<longleftrightarrow> k = 14" by simp_all
qed

lemma seg_prefix_fields:
  assumes "n < 16384"
  shows "unat (seg_prefix n f l AND 0x3fff) = n" and "(seg_prefix n f l AND 0x8000 \<noteq> 0) = f" and "(seg_prefix n f l AND 0x4000 \<noteq> 0) = l"
proof -
  note b = of_nat_bit_high [OF assms]
  have m: "(0x3fff :: u32) = mask 14" "(0x8000 :: u32) = 2 ^ 15" "(0x4000 :: u32) = 2 ^ 14"
    by (simp_all add: mask_eq_exp_minus_1)
  have p: "bit (seg_prefix n f l) k \<longleftrightarrow> bit (of_nat n :: u32) k \<or> f \<and> k = 15 \<or> l \<and> k = 14" for k
    unfolding seg_prefix_def bit_or_iff by (cases f; cases l) (simp_all only: flag_bits if_True if_False bit_0_eq bot_apply bot_bool_def simp_thms)
  have "seg_prefix n f l AND 0x3fff = of_nat n"
  proof (rule bit_word_eqI)
    fix k
    show "bit (seg_prefix n f l AND 0x3fff) k = bit (of_nat n :: u32) k"
      unfolding m(1) bit_and_iff p bit_mask_iff possible_bit_word using b [of k] by (cases "14 \<le> k") auto
  qed
  then show "unat (seg_prefix n f l AND 0x3fff) = n" using assms by (simp add: unat_of_nat)
  show "(seg_prefix n f l AND 0x8000 \<noteq> 0) = f" "(seg_prefix n f l AND 0x4000 \<noteq> 0) = l"
    unfolding m(2,3) and_exp_eq_0_iff_not_bit not_not p using b [of 15] b [of 14] by simp_all
qed

text \<open>The bytes collected so far of a frame of \<open>T\<close> bytes.\<close>

definition collected :: "bytes \<Rightarrow> nat \<Rightarrow> PciRxAssembly \<Rightarrow> bool" where
  "collected got T a \<longleftrightarrow> length (ra_bytes a) = rx_storage \<and> ra_active a \<and> ra_used a = length got \<and> ra_target a = T \<and>
     T \<le> rx_storage \<and> take (length got) (ra_bytes a) = got"

lemma copy_more:
  assumes "collected got T a" and "start + length part \<le> length dma" and "take (length part) (drop start dma) = part"
    and "part \<noteq> []" and "length got + length part < T"
  shows "\<exists>b. feed_copy dma (start + length part) f False start a = Some ((AS_incomplete, AssembledRx0), b) \<and> collected (got @ part) T b"
proof -
  let ?b = "a\<lparr>ra_bytes := take (length got) (ra_bytes a) @ part @ drop (length got + length part) (ra_bytes a),
    ra_used := length got + length part\<rparr>"
  have r: "rd_bytes dma start (length part) = Some part" using assms(2,3) by (simp add: rd_bytes_def)
  have w: "wr (ra_bytes a) (length got) part = Some (ra_bytes ?b)"
    using assms(1,5) by (simp add: wr_def collected_def)
  have room: "length part < T - length got" using assms(5) by linarith
  have "feed_copy dma (start + length part) f False start a = Some ((AS_incomplete, AssembledRx0), ?b)"
    using assms r w room by (simp add: feed_copy_def collected_def Let_def)
  moreover have "collected (got @ part) T ?b" using assms by (simp add: collected_def)
  ultimately show ?thesis by blast
qed

lemma copy_end:
  assumes "collected got T a" and "start + length part \<le> length dma" and "take (length part) (drop start dma) = part"
    and "part \<noteq> []" and "length got + length part = T" and "decodeRx (Some (got @ part)) 4 = Some (DS_ok, pk)"
  shows "\<exists>b. feed_copy dma (start + length part) f True start a =
    Some ((AS_complete, \<lparr>ar_data = Some (got @ part), ar_bytes = T, ar_packet = pk\<rparr>), b) \<and> \<not> ra_pending b"
proof -
  let ?bs = "take (length got) (ra_bytes a) @ part @ drop (length got + length part) (ra_bytes a)"
  have r: "rd_bytes dma start (length part) = Some part" using assms(2,3) by (simp add: rd_bytes_def)
  have w: "wr (ra_bytes a) (length got) part = Some ?bs" using assms(1,5) by (simp add: wr_def collected_def)
  have t: "take T ?bs = got @ part" using assms(1,5) by (simp add: collected_def)
  have room: "T - length got = length part" using assms(5) by simp
  have "feed_copy dma (start + length part) f True start a =
      Some ((AS_complete, \<lparr>ar_data = Some (got @ part), ar_bytes = T, ar_packet = pk\<rparr>),
        a\<lparr>ra_bytes := ?bs, ra_used := T\<rparr>\<lparr>ra_active := False, ra_used := 0, ra_target := 0\<rparr>)"
    using assms(1,4,6) r w t room assms(5) [symmetric] by (simp add: feed_copy_def collected_def Let_def)
  then show ?thesis by (simp add: ra_pending_def)
qed

lemma segment_facts:
  assumes "length part + 4 < 16384"
  shows "little32 (segment f l part) 0 = Some (seg_prefix (length part + 4) f l)" and "length (segment f l part) = 4 + length part"
    and "drop 4 (segment f l part) = part"
  by (simp_all add: segment_def little32_bytes_of32)

lemma feed_later:
  assumes "collected got T a" and "length part + 4 < 16384"
  shows "feed (Some (segment False l part)) a = feed_copy (segment False l part) (4 + length part) False l 4 a"
  using assms segment_facts [OF assms(2), of False l] seg_prefix_fields [OF assms(2), of False l]
  by (simp add: feed_def collected_def Let_def add.commute)

fun feed_seq :: "bytes list \<Rightarrow> (AssemblyStatus \<times> AssembledRx) \<times> PciRxAssembly \<Rightarrow>
    ((AssemblyStatus \<times> AssembledRx) \<times> PciRxAssembly) option" where
  "feed_seq [] r = Some r"
| "feed_seq (s # ss) r = feed (Some s) (snd r) \<bind> feed_seq ss"

fun later_segments :: "bytes list \<Rightarrow> bytes list" where
  "later_segments [] = []"
| "later_segments [part] = [segment False True part]"
| "later_segments (part # parts) = segment False False part # later_segments parts"

lemma later_collect:
  assumes "collected got T a" and "parts \<noteq> []" and "\<forall>part \<in> set parts. part \<noteq> [] \<and> length part + 4 < 16384"
    and "length got + length (concat parts) = T" and "decodeRx (Some (got @ concat parts)) 4 = Some (DS_ok, pk)"
  shows "\<exists>b. feed_seq (later_segments parts) (r, a) =
    Some ((AS_complete, \<lparr>ar_data = Some (got @ concat parts), ar_bytes = T, ar_packet = pk\<rparr>), b) \<and> \<not> ra_pending b"
  using assms
proof (induction parts arbitrary: got a r rule: later_segments.induct)
  case (2 part)
  then have p: "part \<noteq> []" "length part + 4 < 16384" by auto
  show ?case
    using copy_end [OF 2(1), of 4 part "segment False True part" pk False] feed_later [OF 2(1) p(2), of True] p 2(4,5)
      segment_facts [OF p(2), of False True] by auto
next
  case (3 part p2 parts)
  have p: "part \<noteq> []" "length part + 4 < 16384" using 3(4) by auto
  have n: "p2 \<noteq> []" using 3(4) by simp
  obtain b where b: "feed (Some (segment False False part)) a = Some ((AS_incomplete, AssembledRx0), b)" "collected (got @ part) T b"
    using copy_more [OF 3(2), of 4 part "segment False False part" False] feed_later [OF 3(2) p(2), of False] p 3(5) n
      segment_facts [OF p(2), of False False] by auto
  show ?case
    using 3(1) [OF b(2), of "(AS_incomplete, AssembledRx0)"] 3(4-6) b(1) by simp
qed simp

text \<open>The first segment of a frame.\<close>

lemma feed_starts:
  assumes "ra_inv a" and "\<not> ra_pending a" and "length h + 4 < 16384"
    and "decodeRxHeader (Some (segment True l h)) 4 = Some (DS_ok, rh)" and "rp_offset rh < 4 + length h"
  shows "\<exists>b. feed (Some (segment True l h)) a = feed_copy (segment True l h) (4 + length h) True l (rp_offset rh) b \<and>
    collected (take (rp_offset rh) (segment True l h)) (rp_offset rh + rp_length rh) b"
proof -
  let ?d = "segment True l h" and ?o = "rp_offset rh" and ?T = "rp_offset rh + rp_length rh"
  note sf = segment_facts [OF assms(3), of True l]
  have la: "length (ra_bytes a) = rx_storage" "\<not> ra_active a" using assms(1,2) by (auto simp: ra_inv_def ra_pending_def)
  have T: "?T \<le> rx_storage" "?o \<le> length ?d"
    using decodeRxHeader_spec [of ?d 4] assms(4) by (auto simp: rx_storage_def split: if_splits)
  let ?bs = "take ?o ?d @ drop ?o (ra_bytes a)"
  have r: "rd_bytes ?d 0 ?o = Some (take ?o ?d)" using T(2) by (simp add: rd_bytes_def)
  have w: "wr (ra_bytes a) 0 (take ?o ?d) = Some ?bs" using T la by (simp add: wr_def)
  let ?b = "a\<lparr>ra_target := ?T, ra_bytes := ?bs, ra_used := ?o, ra_active := True\<rparr>"
  have "feed_first ?d (4 + length h) a = Some (Some ?o, ?b)"
    using assms(4) la(2) sf(2) r w T by (simp add: feed_first_def Let_def not_less)
  then have "feed (Some ?d) a = feed_copy ?d (4 + length h) True l ?o ?b"
    using sf seg_prefix_fields [OF assms(3), of True l] by (simp add: feed_def Let_def add.commute)
  moreover have "collected (take ?o ?d) ?T ?b" using la T by (simp add: collected_def)
  ultimately show ?thesis by blast
qed

text \<open>C17: A frame comes out of the reassembly as it went in, however the DMA engine cut it: if the
  descriptor of a frame lies in its first segment, the segments are not empty and their bytes add up
  to the frame the descriptor announces, feeding them one after the other ends in a complete packet
  whose bytes are the frame and whose fields are those decoded from the whole frame.\<close>

theorem rx_reassembly:
  assumes "ra_inv a" and "\<not> ra_pending a" and "length h + 4 < 16384"
    and "\<forall>part \<in> set parts. part \<noteq> [] \<and> length part + 4 < 16384"
    and "decodeRx (Some (segment True (parts = []) h @ concat parts)) 4 = Some (DS_ok, pk)"
    and "rp_offset pk < 4 + length h" and "rp_offset pk + rp_length pk = 4 + length h + length (concat parts)"
  shows "\<exists>b. feed_seq (segment True (parts = []) h # later_segments parts) (r, a) =
    Some ((AS_complete, \<lparr>ar_data = Some (segment True (parts = []) h @ concat parts),
      ar_bytes = 4 + length h + length (concat parts), ar_packet = pk\<rparr>), b) \<and> \<not> ra_pending b"
proof -
  let ?d = "segment True (parts = []) h" and ?f = "segment True (parts = []) h @ concat parts" and ?o = "rp_offset pk"
  note sf = segment_facts [OF assms(3), of True "parts = []"]
  obtain rh where rh: "decodeRxHeader (Some ?f) 4 = Some (DS_ok, rh)" and pk: "pk = rh\<lparr>rp_payload := Some (rp_offset rh)\<rparr>"
    using assms(5) by (auto simp: decodeRx_def split: bind_splits if_splits)
  have o: "rp_offset rh = ?o" "rp_length rh = rp_length pk" by (simp_all add: pk)
  have "take ?o ?d = take ?o ?f" "?o \<le> length ?d" using assms(6) sf(2) by simp_all
  then have h: "decodeRxHeader (Some ?d) 4 = Some (DS_ok, rh)"
    using decodeRxHeader_spec [of ?f 4] rh o(1) by (auto split: if_splits)
  obtain b where b: "feed (Some ?d) a = feed_copy ?d (4 + length h) True (parts = []) ?o b"
    "collected (take ?o ?d) (?o + rp_length pk) b"
    using feed_starts [OF assms(1-3) h] assms(6) o by auto
  let ?p = "drop ?o ?d"
  have p: "?o + length ?p = 4 + length h" "?p \<noteq> []" "take (length ?p) (drop ?o ?d) = ?p" "take ?o ?d @ ?p = ?d"
    using assms(6) sf(2) by simp_all
  show ?thesis
  proof (cases "parts = []")
    case True
    have "\<exists>b'. feed_copy ?d (?o + length ?p) True True ?o b =
        Some ((AS_complete, \<lparr>ar_data = Some (take ?o ?d @ ?p), ar_bytes = ?o + rp_length pk, ar_packet = pk\<rparr>), b') \<and> \<not> ra_pending b'"
      by (rule copy_end [OF b(2)]) (use p sf(2) assms(5,6,7) True in simp_all)
    then show ?thesis using True b(1) assms(7) p by (auto simp: True)
  next
    case False
    then have n: "concat parts \<noteq> []" using assms(4) by (cases parts) auto
    obtain c where c: "feed_copy ?d (?o + length ?p) True False ?o b = Some ((AS_incomplete, AssembledRx0), c)"
      "collected (take ?o ?d @ ?p) (?o + rp_length pk) c"
      using copy_more [OF b(2), of ?o ?p ?d True] p sf(2) assms(7) n by auto
    have "\<exists>b'. feed_seq (later_segments parts) ((AS_incomplete, AssembledRx0), c) =
        Some ((AS_complete, \<lparr>ar_data = Some (?d @ concat parts), ar_bytes = ?o + rp_length pk, ar_packet = pk\<rparr>), b') \<and> \<not> ra_pending b'"
      using later_collect [OF c(2) False assms(4), of pk "(AS_incomplete, AssembledRx0)"] assms(5,7) p sf(2) by simp
    then show ?thesis using False b(1) c(1) assms(7) p by simp
  qed
qed

definition sample_head :: bytes where
  "sample_head = [3, 0, 0, 0] @ replicate 12 0 @ [0xa1]"

lemma sample_frame:
  "(case decodeRx (Some (segment True False sample_head @ concat [[0xb2], [0xc3]])) 4 of
     Some (DS_ok, pk) \<Rightarrow> rp_offset pk = 20 \<and> rp_length pk = 3 | _ \<Rightarrow> False)"
  by code_simp

theorem rx_reassembly_witness:
  "\<exists>st out b. feed_seq [segment True False sample_head, segment False False [0xb2], segment False True [0xc3]]
     ((AS_invalid, AssembledRx0), PciRxAssembly0) = Some ((AS_complete, out), b) \<and>
     (\<exists>data. ar_data out = Some data \<and> drop 20 data = [0xa1, 0xb2, 0xc3])"
proof -
  obtain pk where pk: "decodeRx (Some (segment True False sample_head @ concat [[0xb2], [0xc3]])) 4 = Some (DS_ok, pk)"
    "rp_offset pk = 20" "rp_length pk = 3"
    using sample_frame by (auto split: option.splits prod.splits DescriptorStatus.splits)
  show ?thesis
    using rx_reassembly [of PciRxAssembly0 sample_head "[[0xb2], [0xc3]]" pk "(AS_invalid, AssembledRx0)"] pk ra_inv_init
    by (auto simp: ra_pending_def PciRxAssembly0_def sample_head_def segment_def)
qed

end
