(* ===== verification/FirmwareCommands.thy ===== *)
theory FirmwareCommands
  imports FirmwareProtocol
begin

text \<open>The command bus of \<open>src/network/FirmwareCommands.hpp\<close>: 256 records, one per wire sequence number,
  shared by all producers of firmware commands. The transport and the receivers of completions are
  parameters; a receiver acts on the whole bus, since it may submit its next command from the
  callback.\<close>

section \<open>Data\<close>

text \<open>The owner of a receiver is a number, and the callback table says what it does.\<close>

record CommandReceiver =
  cr_owner :: "nat option"
  cr_event :: bool

definition CommandReceiver0 :: CommandReceiver where
  "CommandReceiver0 = \<lparr>cr_owner = None, cr_event = False\<rparr>"

datatype CommandError = CE_none | CE_clock | CE_timeout | CE_transport | CE_receiver | CE_firmwareRejected | CE_exhausted | CE_invalidated

datatype CommandEvent = CEv_unrelated | CEv_received | CEv_completed | CEv_fault

datatype CommandState = CS_unused | CS_reserved | CS_pending | CS_complete

record CommandRecord =
  cd_state :: CommandState
  cd_id :: CommandId
  cd_receiver :: CommandReceiver
  cd_token :: u64
  cd_deadline :: u64
  cd_receiveAck :: bool
  cd_doneAck :: bool
  cd_received :: bool

definition CommandRecord0 :: CommandRecord where
  "CommandRecord0 = \<lparr>cd_state = CS_unused, cd_id = CommandId0, cd_receiver = CommandReceiver0, cd_token = 0,
     cd_deadline = 0, cd_receiveAck = False, cd_doneAck = False, cd_received = False\<rparr>"

record 's FirmwareCommands =
  fc_epoch :: u64
  fc_records :: "CommandRecord list"
  fc_packet :: bytes
  fc_next :: u32
  fc_lastTime :: u64
  fc_clockStarted :: bool
  fc_publishing :: bool
  fc_delivering :: bool
  fc_error :: CommandError
  fc_dev :: 's

definition FirmwareCommands0 :: "'s \<Rightarrow> u64 \<Rightarrow> 's FirmwareCommands" where
  "FirmwareCommands0 s verifiedEpoch = \<lparr>fc_epoch = verifiedEpoch, fc_records = replicate 256 CommandRecord0,
     fc_packet = replicate 16383 0, fc_next = 0, fc_lastTime = 0, fc_clockStarted = False, fc_publishing = False,
     fc_delivering = False, fc_error = CE_none, fc_dev = s\<rparr>"

text \<open>The transport, and the callbacks by owner: event, epoch, token.\<close>

record 's Transport =
  tr_inGate :: "'s \<Rightarrow> bool \<times> 's"
  tr_nowUs :: "'s \<Rightarrow> u64 \<times> 's"
  tr_publish :: "bytes \<Rightarrow> 's \<Rightarrow> bool \<times> 's"

type_synonym 's receivers = "nat option \<Rightarrow> FirmwareEvent \<Rightarrow> u64 \<Rightarrow> u64 \<Rightarrow> 's FirmwareCommands \<Rightarrow> bool \<times> 's FirmwareCommands"

section \<open>Operations\<close>

definition fc_fail :: "CommandError \<Rightarrow> 's FirmwareCommands \<Rightarrow> bool \<times> 's FirmwareCommands" where
  "fc_fail e c = (False, if fc_error c = CE_none then c\<lparr>fc_error := e\<rparr> else c)"

definition outstanding :: "CommandRecord \<Rightarrow> bool" where
  "outstanding r \<longleftrightarrow> cd_state r = CS_reserved \<or> cd_state r = CS_pending"

definition fc_check :: "'s Transport \<Rightarrow> 's FirmwareCommands \<Rightarrow> bool \<times> 's FirmwareCommands" where
  "fc_check io c = (if fc_epoch c = 0 \<or> fc_error c \<noteq> CE_none then (False, c)
     else let (gate, s) = tr_inGate io (fc_dev c); c = c\<lparr>fc_dev := s\<rparr> in
       if \<not> gate then (False, c)
       else let (now, s) = tr_nowUs io (fc_dev c); c = c\<lparr>fc_dev := s\<rparr> in
         if fc_clockStarted c \<and> now < fc_lastTime c then fc_fail CE_clock c
         else let c = c\<lparr>fc_lastTime := now, fc_clockStarted := True\<rparr> in
           if list_ex (\<lambda>r. outstanding r \<and> cd_deadline r \<le> now) (fc_records c) then fc_fail CE_timeout c
           else (True, c))"

definition deliver :: "'s Transport \<Rightarrow> 's receivers \<Rightarrow> CommandRecord \<Rightarrow> FirmwareEvent \<Rightarrow> 's FirmwareCommands \<Rightarrow>
    bool \<times> 's FirmwareCommands" where
  "deliver io rcv r ev c = (if \<not> cr_event (cd_receiver r) then (True, c)
     else let (ok, c) = rcv (cr_owner (cd_receiver r)) ev (fc_epoch c) (cd_token r) (c\<lparr>fc_delivering := True\<rparr>);
              c = c\<lparr>fc_delivering := False\<rparr> in
       if ok then fc_check io c else fc_fail CE_receiver c)"

definition invalidate :: "'s FirmwareCommands \<Rightarrow> 's FirmwareCommands" where
  "invalidate c = snd (fc_fail CE_invalidated c)"

definition service :: "'s Transport \<Rightarrow> 's FirmwareCommands \<Rightarrow> bool \<times> 's FirmwareCommands" where
  "service io c = fc_check io c"

text \<open>The result of \<open>reserve\<close> is its return value and the sequence it writes.\<close>

definition reserve :: "'s Transport \<Rightarrow> CommandReceiver \<Rightarrow> u64 \<Rightarrow> u64 \<Rightarrow> 's FirmwareCommands \<Rightarrow> (bool \<times> u8) \<times> 's FirmwareCommands" where
  "reserve io receiver token timeoutUs c = (if fc_publishing c then ((False, 0), c)
     else let (ok, c) = fc_check io c in
       if \<not> ok \<or> timeoutUs = 0 \<or> 10000000 < timeoutUs \<or> (cr_owner receiver \<noteq> None) \<noteq> cr_event receiver \<or>
          - 1 - fc_lastTime c < timeoutUs then ((False, 0), c)
       else if fc_next c = - 1 then ((False, 0), snd (fc_fail CE_exhausted c))
       else let sequence = ucast (fc_next c) :: u8 in
         if outstanding (fc_records c ! unat sequence) then ((False, 0), snd (fc_fail CE_exhausted c))
         else ((True, sequence), c\<lparr>fc_next := fc_next c + 1,
           fc_records := (fc_records c)[unat sequence := CommandRecord0\<lparr>cd_state := CS_reserved, cd_receiver := receiver,
             cd_token := token, cd_deadline := fc_lastTime c + timeoutUs\<rparr>]\<rparr>))"

text \<open>The bytes are read through checked accesses: \<open>None\<close> is a read outside them.\<close>

definition publish :: "'s Transport \<Rightarrow> bytes option \<Rightarrow> 's FirmwareCommands \<Rightarrow> (bool \<times> 's FirmwareCommands) option" where
  "publish io source c = (if fc_publishing c then Some (False, c)
     else let (ok, c) = fc_check io c in
       case source of None \<Rightarrow> Some (False, c) | Some bs \<Rightarrow>
         if \<not> ok \<or> length bs < 8 \<or> 16383 < length bs then Some (False, c)
         else do {
           w0 \<leftarrow> little32 bs 0;
           w1 \<leftarrow> little32 bs 4;
           let i = unat (ucast (drop_bit 24 w0) :: u8);
           if w0 AND 0x00ff0000 \<noteq> 0 \<or> w1 AND 0xffff0000 \<noteq> 0 \<or> unat (w1 AND 0x3fff) \<noteq> length bs then Some (False, c)
           else if cd_state (fc_records c ! i) \<noteq> CS_reserved then Some (False, c)
           else let r = (fc_records c ! i)\<lparr>cd_id := \<lparr>ci_category = ucast (w0 AND 3), ci_commandClass = ucast (drop_bit 2 w0 AND 63),
                      ci_function = ucast (drop_bit 8 w0)\<rparr>, cd_receiveAck := (w1 AND 0x4000 \<noteq> 0), cd_doneAck := (w1 AND 0x8000 \<noteq> 0)\<rparr>;
                    c = c\<lparr>fc_records := (fc_records c)[i := r]\<rparr> in
             if cr_event (cd_receiver r) \<and> \<not> cd_receiveAck r \<and> \<not> cd_doneAck r then Some (False, c)
             else do {
               packet \<leftarrow> wr (fc_packet c) 0 bs;
               let (ok, s) = tr_publish io bs (fc_dev c);
               let c = c\<lparr>fc_packet := packet, fc_records := (fc_records c)[i := r\<lparr>cd_state := CS_pending\<rparr>], fc_dev := s\<rparr>;
               if \<not> ok then Some (fc_fail CE_transport c)
               else let (ok, c) = fc_check io c in
                 if \<not> ok then Some (False, c)
                 else if \<not> cd_receiveAck r \<and> \<not> cd_doneAck r
                 then Some (True, c\<lparr>fc_records := (fc_records c)[i := (fc_records c ! i)\<lparr>cd_state := CS_complete\<rparr>]\<rparr>)
                 else Some (True, c) } })"

definition submit :: "'s Transport \<Rightarrow> CommandId \<Rightarrow> bool \<Rightarrow> bool \<Rightarrow> bytes option \<Rightarrow> nat \<Rightarrow> CommandReceiver \<Rightarrow> u64 \<Rightarrow> u64 \<Rightarrow>
    's FirmwareCommands \<Rightarrow> ((bool \<times> u8) \<times> 's FirmwareCommands) option" where
  "submit io cid receiveAck doneAck payload len receiver token timeoutUs c =
     (if fc_publishing c \<or> 3 < ci_category cid \<or> 63 < ci_commandClass cid \<or> (payload = None \<and> len \<noteq> 0) \<or> 16383 - 8 < len \<or>
         (cr_event receiver \<and> \<not> receiveAck \<and> \<not> doneAck) then Some ((False, 0), c)
      else let ((ok, sequence), c) = reserve io receiver token timeoutUs c in
        if \<not> ok then Some ((False, sequence), c)
        else do {
          (ok, encoded, packet) \<leftarrow> encodeH2c cid sequence receiveAck doneAck
             (case payload of None \<Rightarrow> PlNull | Some bs \<Rightarrow> PlApart bs) len (Some (fc_packet c));
          case packet of None \<Rightarrow> None | Some p \<Rightarrow>
            if \<not> ok then Some ((False, sequence), c)
            else do {
              (ok, c) \<leftarrow> publish io (Some (take encoded p)) (c\<lparr>fc_packet := p\<rparr>);
              Some ((ok, sequence), c) } })"

definition complete_record :: "nat \<Rightarrow> 's FirmwareCommands \<Rightarrow> 's FirmwareCommands" where
  "complete_record i c = c\<lparr>fc_records := (fc_records c)[i := (fc_records c ! i)\<lparr>cd_state := CS_complete\<rparr>]\<rparr>"

text \<open>The part of \<open>accept\<close> after the acknowledgement is decoded.\<close>

definition accept_ack :: "'s Transport \<Rightarrow> 's receivers \<Rightarrow> FirmwareEvent \<Rightarrow> FirmwareAck \<Rightarrow> 's FirmwareCommands \<Rightarrow>
    CommandEvent \<times> 's FirmwareCommands" where
  "accept_ack io rcv ev ack c = (let i = unat (fa_sequence ack); r = fc_records c ! i in
     if cd_state r \<noteq> CS_pending \<or> \<not> sameCommand (fa_command ack) (cd_id r) then (CEv_unrelated, c)
     else if fa_done ack then
       (if \<not> cd_doneAck r then (CEv_unrelated, c)
        else let c = complete_record i c in
          if fa_returnCode ack \<noteq> 0
          then (CEv_fault, snd (deliver io rcv (fc_records c ! i) ev (snd (fc_fail CE_firmwareRejected c))))
          else let (ok, c) = deliver io rcv (fc_records c ! i) ev c in
            (if ok then CEv_completed else CEv_fault, c))
     else if \<not> cd_receiveAck r \<or> cd_received r then (CEv_unrelated, c)
     else let c = c\<lparr>fc_records := (fc_records c)[i := r\<lparr>cd_received := True\<rparr>]\<rparr> in
       if cd_doneAck r then (CEv_received, c)
       else let c = complete_record i c; (ok, c) = deliver io rcv (fc_records c ! i) ev c in
         (if ok then CEv_completed else CEv_fault, c))"

definition accept :: "'s Transport \<Rightarrow> 's receivers \<Rightarrow> FirmwareEvent \<Rightarrow> u64 \<Rightarrow> 's FirmwareCommands \<Rightarrow>
    (CommandEvent \<times> 's FirmwareCommands) option" where
  "accept io rcv ev receiveEpoch c = (if receiveEpoch \<noteq> fc_epoch c then Some (CEv_unrelated, c)
     else if fc_publishing c \<or> fc_delivering c then Some (CEv_fault, snd (fc_fail CE_receiver c))
     else let (ok, c) = fc_check io c in
       if \<not> ok then Some (CEv_fault, c)
       else do {
         (ok, ack) \<leftarrow> decodeAck ev;
         Some (if \<not> ok then (CEv_unrelated, c) else accept_ack io rcv ev ack c) })"

text \<open>A client binds the bus to one receiver, token and timeout.\<close>

record FirmwareCommandClient =
  cc_receiver :: CommandReceiver
  cc_token :: u64
  cc_timeout :: u64

definition client_submit :: "'s Transport \<Rightarrow> FirmwareCommandClient \<Rightarrow> CommandId \<Rightarrow> bool \<Rightarrow> bytes option \<Rightarrow> nat \<Rightarrow>
    's FirmwareCommands \<Rightarrow> ((bool \<times> u8) \<times> 's FirmwareCommands) option" where
  "client_submit io k cid d payload len = submit io cid False d payload len
     (if d then cc_receiver k else CommandReceiver0) (cc_token k) (cc_timeout k)"

section \<open>Properties\<close>

definition fc_ok :: "'s FirmwareCommands \<Rightarrow> bool" where
  "fc_ok c \<longleftrightarrow> length (fc_records c) = 256 \<and> length (fc_packet c) = 16383"

text \<open>The commands under way: the sequence numbers in use and the tokens they carry.\<close>

definition under_way :: "'s FirmwareCommands \<Rightarrow> nat \<rightharpoonup> u64" where
  "under_way c i = (if i < 256 \<and> outstanding (fc_records c ! i) then Some (cd_token (fc_records c ! i)) else None)"

definition same_bus :: "'s FirmwareCommands \<Rightarrow> 's FirmwareCommands \<Rightarrow> bool" where
  "same_bus c d \<longleftrightarrow> fc_records d = fc_records c \<and> fc_next d = fc_next c \<and> fc_packet d = fc_packet c \<and> fc_epoch d = fc_epoch c \<and>
     fc_publishing d = fc_publishing c \<and> fc_delivering d = fc_delivering c"

lemma same_bus_refl [simp]: "same_bus c c"
  by (simp add: same_bus_def)

lemma same_bus_fail: "same_bus c d \<Longrightarrow> same_bus c (snd (fc_fail e d))"
  by (simp add: same_bus_def fc_fail_def)

lemma check_same: "same_bus c (snd (fc_check io c))"
  by (auto simp: fc_check_def fc_fail_def same_bus_def Let_def split: prod.splits)

lemma check_ok: "fst (fc_check io c) \<Longrightarrow> fc_error c = CE_none \<and> fc_error (snd (fc_check io c)) = CE_none"
  by (auto simp: fc_check_def fc_fail_def Let_def split: prod.splits if_splits)

lemma check_faulted: "fc_error c \<noteq> CE_none \<Longrightarrow> fc_check io c = (False, c)"
  by (simp add: fc_check_def)

lemma under_way_same: "same_bus c d \<Longrightarrow> under_way d = under_way c"
  by (simp add: under_way_def same_bus_def fun_eq_iff)

lemma under_way_update:
  assumes "fc_ok c" and "i < 256" and "outstanding x"
  shows "under_way (d\<lparr>fc_next := n, fc_records := (fc_records c)[i := x]\<rparr>) = (under_way c)(i \<mapsto> cd_token x)"
proof
  fix j
  show "under_way (d\<lparr>fc_next := n, fc_records := (fc_records c)[i := x]\<rparr>) j = ((under_way c)(i \<mapsto> cd_token x)) j"
    using assms by (cases "j = i") (simp_all add: under_way_def fc_ok_def)
qed

lemma not_under_way: "\<not> outstanding (fc_records c ! i) \<Longrightarrow> i \<notin> dom (under_way c)"
  by (auto simp: under_way_def)

lemma sequence_range: "unat (ucast (n :: u32) :: u8) < 256"
  using unsigned_less [of "ucast n :: u8"] by simp

text \<open>The allocator of wire sequence numbers refines a finite map of the commands under
  way: a successful reservation adds one entry for a sequence number that is not in use, with the
  caller's token, and leaves every other command alone; a refused reservation changes no command.\<close>

theorem reserve_fresh:
  assumes "fc_ok c" and "reserve io receiver token timeoutUs c = ((ok, sequence), d)"
  shows "if ok then unat sequence \<notin> dom (under_way c) \<and> under_way d = (under_way c)(unat sequence \<mapsto> token) \<and>
      fc_next d = fc_next c + 1 \<and> fc_error c = CE_none
    else under_way d = under_way c \<and> fc_next d = fc_next c \<and> sequence = 0"
proof (cases "fc_publishing c")
  case True
  then show ?thesis using assms(2) by (auto simp: reserve_def)
next
  case False
  obtain k c1 where k: "fc_check io c = (k, c1)" by (cases "fc_check io c")
  have s: "same_bus c c1" using check_same [of c io] by (simp add: k)
  then have r: "fc_records c1 = fc_records c" "fc_next c1 = fc_next c" "under_way c1 = under_way c"
    by (simp_all add: same_bus_def under_way_same [OF s])
  have e: "k \<Longrightarrow> fc_error c = CE_none" using check_ok [of io c] by (simp add: k)
  let ?i = "unat (ucast (fc_next c) :: u8)"
  have u: "under_way (snd (fc_fail x c1)) = under_way c" "fc_next (snd (fc_fail x c1)) = fc_next c" for x
    using same_bus_fail [OF s, of x] under_way_same [OF same_bus_fail [OF s], of x] by (simp_all add: same_bus_def)
  define g where "g = (\<not> k \<or> timeoutUs = 0 \<or> 10000000 < timeoutUs \<or> (cr_owner receiver \<noteq> None) \<noteq> cr_event receiver \<or>
    - 1 - fc_lastTime c1 < timeoutUs)"
  let ?r = "CommandRecord0\<lparr>cd_state := CS_reserved, cd_receiver := receiver, cd_token := token, cd_deadline := fc_lastTime c1 + timeoutUs\<rparr>"
  have eq: "((ok, sequence), d) = (if g then ((False, 0), c1)
      else if fc_next c = - 1 then ((False, 0), snd (fc_fail CE_exhausted c1))
      else if outstanding (fc_records c ! ?i) then ((False, 0), snd (fc_fail CE_exhausted c1))
      else ((True, ucast (fc_next c)), c1\<lparr>fc_next := fc_next c + 1, fc_records := (fc_records c)[?i := ?r]\<rparr>))"
    using assms(2) False unfolding reserve_def k Let_def prod.case r g_def by (simp only: if_False)
  consider (a) g | (b) "\<not> g" "fc_next c = - 1" | (c) "\<not> g" "fc_next c \<noteq> - 1" "outstanding (fc_records c ! ?i)"
    | (d) "\<not> g" "fc_next c \<noteq> - 1" "\<not> outstanding (fc_records c ! ?i)" by blast
  then show ?thesis
  proof cases
    case a
    have "((ok, sequence), d) = ((False, 0), c1)" using eq unfolding if_P [OF a] .
    then show ?thesis using r by simp
  next
    case b
    have "((ok, sequence), d) = ((False, 0), snd (fc_fail CE_exhausted c1))"
      using eq unfolding if_not_P [OF b(1)] if_P [OF b(2)] .
    then show ?thesis using u by simp
  next
    case c
    have "((ok, sequence), d) = ((False, 0), snd (fc_fail CE_exhausted c1))"
      using eq unfolding if_not_P [OF c(1)] if_not_P [OF c(2)] if_P [OF c(3)] .
    then show ?thesis using u by simp
  next
    case d
    have "((ok, sequence), d) = ((True, ucast (fc_next c)), c1\<lparr>fc_next := fc_next c + 1, fc_records := (fc_records c)[?i := ?r]\<rparr>)"
      using eq unfolding if_not_P [OF d(1)] if_not_P [OF d(2)] if_not_P [OF d(3)] .
    then have x: "ok" "sequence = ucast (fc_next c)" "d = c1\<lparr>fc_next := fc_next c + 1, fc_records := (fc_records c)[?i := ?r]\<rparr>"
      by blast+
    have "fc_error c = CE_none" using d(1) e by (simp add: g_def)
    moreover have "under_way d = (under_way c)(?i \<mapsto> token)"
      using under_way_update [OF assms(1) sequence_range, of ?r] unfolding x(3) by (simp add: outstanding_def del: unsigned_ucast_eq)
    moreover have "fc_next d = fc_next c + 1" unfolding x(3) by simp
    ultimately show ?thesis using not_under_way [OF d(3)] unfolding x(2) if_P [OF x(1)] by blast
  qed
qed

definition sample_transport :: "u64 Transport" where
  "sample_transport = \<lparr>tr_inGate = \<lambda>s. (True, s), tr_nowUs = \<lambda>s. (s, s + 1), tr_publish = \<lambda>bs s. (True, s)\<rparr>"

theorem reserve_fresh_witness:
  "unat (0 :: u8) \<notin> dom (under_way (FirmwareCommands0 (5 :: u64) 1))"
proof -
  obtain d where d: "reserve sample_transport CommandReceiver0 7 1000 (FirmwareCommands0 5 1) = ((True, 0), d)"
    by (simp add: reserve_def FirmwareCommands0_def fc_check_def sample_transport_def CommandReceiver0_def outstanding_def
      CommandRecord0_def list_ex_iff)
  show ?thesis using reserve_fresh [OF _ d] by (simp add: fc_ok_def FirmwareCommands0_def)
qed

text \<open>A receiver that submits nothing leaves the records alone.\<close>

definition quiet_receivers :: "'s receivers \<Rightarrow> bool" where
  "quiet_receivers rcv \<longleftrightarrow> (\<forall>own ev e t c. fc_records (snd (rcv own ev e t c)) = fc_records c \<and> fc_epoch (snd (rcv own ev e t c)) = fc_epoch c)"

lemma deliver_records: "quiet_receivers rcv \<Longrightarrow> fc_records (snd (deliver io rcv r ev c)) = fc_records c"
proof -
  assume p: "quiet_receivers rcv"
  obtain ok d where d: "rcv (cr_owner (cd_receiver r)) ev (fc_epoch c) (cd_token r) (c\<lparr>fc_delivering := True\<rparr>) = (ok, d)"
    by fastforce
  have "fc_records (snd (rcv (cr_owner (cd_receiver r)) ev (fc_epoch c) (cd_token r) (c\<lparr>fc_delivering := True\<rparr>))) =
      fc_records (c\<lparr>fc_delivering := True\<rparr>)"
    using p unfolding quiet_receivers_def by blast
  then have "fc_records d = fc_records c" by (simp add: d)
  then show ?thesis
    using check_same [of "d\<lparr>fc_delivering := False\<rparr>" io] by (simp add: deliver_def d fc_fail_def same_bus_def Let_def)
qed

text \<open>How an acknowledgement may change the records: only the pending record it names, towards complete.\<close>

lemma accept_ack_changes:
  assumes "quiet_receivers rcv" and "accept_ack io rcv ev ack c = (x, d)" and "unat (fa_sequence ack) < length (fc_records c)"
  defines "i \<equiv> unat (fa_sequence ack)"
  shows "fc_records d = fc_records c \<and> x \<noteq> CEv_completed \<or>
    cd_state (fc_records c ! i) = CS_pending \<and>
      (\<exists>r. fc_records d = (fc_records c)[i := r] \<and> (cd_state r = CS_complete \<or> cd_state r = CS_pending \<and> x \<noteq> CEv_completed))"
proof -
  note dr = deliver_records [OF assms(1)]
  have ff: "fc_records (snd (fc_fail y z)) = fc_records z" for y z by (simp add: fc_fail_def)
  have x: "x = fst (accept_ack io rcv ev ack c)" and d: "d = snd (accept_ack io rcv ev ack c)" using assms(2) by simp_all
  show ?thesis unfolding x d accept_ack_def Let_def i_def [symmetric] split_beta complete_record_def
    using assms(3) by (auto simp: dr ff i_def)
qed


definition sample_receivers :: "u64 receivers" where
  "sample_receivers = (\<lambda>own ev e t c. (True, c))"

text \<open>A bus with command 2 of sequence 0 pending, and its acknowledgement.\<close>

definition sample_bus :: "u64 FirmwareCommands" where
  "sample_bus = (FirmwareCommands0 5 1)\<lparr>fc_records := CommandRecord0\<lparr>cd_state := CS_pending, cd_doneAck := True,
     cd_id := \<lparr>ci_category = 1, ci_commandClass = 8, ci_function = 2\<rparr>, cd_deadline := 1000\<rparr> # replicate 255 CommandRecord0\<rparr>"

definition sample_done :: FirmwareAck where
  "sample_done = \<lparr>fa_command = \<lparr>ci_category = 1, ci_commandClass = 8, ci_function = 2\<rparr>, fa_sequence = 0, fa_returnCode = 0, fa_done = True\<rparr>"


end
