(* ===== verification/DeviceMonad.thy ===== *)
theory DeviceMonad
  imports Prelude
begin

text \<open>Programs that drive a device: an object's own fields and an arbitrary device, in the state monad. The
  device is a record of its operations, each of which may change the device. A logging wrapper
  records what a program does to any device, and \<open>frames\<close> bounds it.\<close>

section \<open>Devices\<close>

record 's Device =
  dv_read8 :: "u32 \<Rightarrow> 's \<Rightarrow> u8 \<times> 's"
  dv_read16 :: "u32 \<Rightarrow> 's \<Rightarrow> u16 \<times> 's"
  dv_read32 :: "u32 \<Rightarrow> 's \<Rightarrow> u32 \<times> 's"
  dv_write8 :: "u32 \<Rightarrow> u8 \<Rightarrow> 's \<Rightarrow> bool \<times> 's"
  dv_write16 :: "u32 \<Rightarrow> u16 \<Rightarrow> 's \<Rightarrow> bool \<times> 's"
  dv_write32 :: "u32 \<Rightarrow> u32 \<Rightarrow> 's \<Rightarrow> bool \<times> 's"
  dv_command :: "'s \<Rightarrow> u16 \<times> 's"
  dv_writeCommand :: "u16 \<Rightarrow> 's \<Rightarrow> bool \<times> 's"
  dv_nowUs :: "'s \<Rightarrow> u64 \<times> 's"
  dv_pauseUs :: "u64 \<Rightarrow> 's \<Rightarrow> 's"
  dv_barrier :: "'s \<Rightarrow> 's"

section \<open>Programs\<close>

text \<open>The state is the object's fields and the device.\<close>

type_synonym ('o, 's, 'a) prog = "('o \<times> 's, 'a) state"

abbreviation ret :: "'a \<Rightarrow> ('t, 'a) state" where
  "ret \<equiv> State_Monad.return"

definition dcall :: "('s \<Rightarrow> 'a \<times> 's) \<Rightarrow> ('o, 's, 'a) prog" where
  "dcall f = State (\<lambda>(x, s). let (v, s') = f s in (v, (x, s')))"

definition ddo :: "('s \<Rightarrow> 's) \<Rightarrow> ('o, 's, unit) prog" where
  "ddo f = State (\<lambda>(x, s). ((), (x, f s)))"

definition ogets :: "('o \<Rightarrow> 'a) \<Rightarrow> ('o, 's, 'a) prog" where
  "ogets f = State (\<lambda>(x, s). (f x, (x, s)))"

definition omod :: "('o \<Rightarrow> 'o) \<Rightarrow> ('o, 's, unit) prog" where
  "omod f = State (\<lambda>(x, s). ((), (f x, s)))"

text \<open>\<open>a() && b()\<close>, \<open>a() || b()\<close>, a loop that stops at the first failure, and a loop \<open>ok = f(x) && ok\<close> that
  does not.\<close>

definition andM :: "('t, bool) state \<Rightarrow> ('t, bool) state \<Rightarrow> ('t, bool) state" where
  "andM a b = do { x \<leftarrow> a; if x then b else ret False }"

definition orM :: "('t, bool) state \<Rightarrow> ('t, bool) state \<Rightarrow> ('t, bool) state" where
  "orM a b = do { x \<leftarrow> a; if x then ret True else b }"

fun allM :: "('x \<Rightarrow> ('t, bool) state) \<Rightarrow> 'x list \<Rightarrow> ('t, bool) state" where
  "allM f [] = ret True"
| "allM f (x # xs) = andM (f x) (allM f xs)"

fun eachM :: "('x \<Rightarrow> ('t, bool) state) \<Rightarrow> 'x list \<Rightarrow> ('t, bool) state" where
  "eachM f [] = ret True"
| "eachM f (x # xs) = do { a \<leftarrow> f x; b \<leftarrow> eachM f xs; ret (a \<and> b) }"

fun runM :: "('x \<Rightarrow> ('t, unit) state) \<Rightarrow> 'x list \<Rightarrow> ('t, unit) state" where
  "runM f [] = ret ()"
| "runM f (x # xs) = do { f x; runM f xs }"

abbreviation read8 :: "'s Device \<Rightarrow> u32 \<Rightarrow> ('o, 's, u8) prog" where
  "read8 d a \<equiv> dcall (dv_read8 d a)"
abbreviation read16 :: "'s Device \<Rightarrow> u32 \<Rightarrow> ('o, 's, u16) prog" where
  "read16 d a \<equiv> dcall (dv_read16 d a)"
abbreviation read32 :: "'s Device \<Rightarrow> u32 \<Rightarrow> ('o, 's, u32) prog" where
  "read32 d a \<equiv> dcall (dv_read32 d a)"
abbreviation write8 :: "'s Device \<Rightarrow> u32 \<Rightarrow> u8 \<Rightarrow> ('o, 's, bool) prog" where
  "write8 d a v \<equiv> dcall (dv_write8 d a v)"
abbreviation write16 :: "'s Device \<Rightarrow> u32 \<Rightarrow> u16 \<Rightarrow> ('o, 's, bool) prog" where
  "write16 d a v \<equiv> dcall (dv_write16 d a v)"
abbreviation write32 :: "'s Device \<Rightarrow> u32 \<Rightarrow> u32 \<Rightarrow> ('o, 's, bool) prog" where
  "write32 d a v \<equiv> dcall (dv_write32 d a v)"
abbreviation readCommand :: "'s Device \<Rightarrow> ('o, 's, u16) prog" where
  "readCommand d \<equiv> dcall (dv_command d)"
abbreviation writeCommand :: "'s Device \<Rightarrow> u16 \<Rightarrow> ('o, 's, bool) prog" where
  "writeCommand d v \<equiv> dcall (dv_writeCommand d v)"
abbreviation nowUs :: "'s Device \<Rightarrow> ('o, 's, u64) prog" where
  "nowUs d \<equiv> dcall (dv_nowUs d)"
abbreviation pauseUs :: "'s Device \<Rightarrow> u64 \<Rightarrow> ('o, 's, unit) prog" where
  "pauseUs d t \<equiv> ddo (dv_pauseUs d t)"
abbreviation barrier :: "'s Device \<Rightarrow> ('o, 's, unit) prog" where
  "barrier d \<equiv> ddo (dv_barrier d)"

section \<open>Weakest preconditions\<close>

named_theorems wp_simps \<open>weakest preconditions of programs\<close>

definition wp :: "('t, 'a) state \<Rightarrow> ('a \<Rightarrow> 't \<Rightarrow> bool) \<Rightarrow> 't \<Rightarrow> bool" where
  "wp m Q t = (case run_state m t of (a, t') \<Rightarrow> Q a t')"

lemma wp_rules [wp_simps]:
  "wp (ret a) Q t = Q a t"
  "wp (State_Monad.bind h f) Q t = wp h (\<lambda>a. wp (f a) Q) t"
  "wp (if b then m else n) Q t = (if b then wp m Q t else wp n Q t)"
  "wp (andM k l) R t = wp k (\<lambda>a. if a then wp l R else R False) t"
  "wp (orM k l) R t = wp k (\<lambda>a. if a then R True else wp l R) t"
  by (auto simp: wp_def andM_def orM_def split: prod.splits if_splits)

lemma wp_obj [wp_simps]:
  "wp (ogets g) Q (x, s) = Q (g x) (x, s)" "wp (omod h) R (x, s) = R () (h x, s)"
  by (simp_all add: wp_def ogets_def omod_def)

lemma wp_dcall: "wp (dcall f) Q (x, s) = Q (fst (f s)) (x, snd (f s))"
  "wp (ddo g) R (x, s) = R () (x, g s)"
  by (simp_all add: wp_def dcall_def ddo_def split_beta Let_def)

lemma wp_mono: "wp m Q t \<Longrightarrow> (\<And>a t. Q a t \<Longrightarrow> R a t) \<Longrightarrow> wp m R t"
  by (auto simp: wp_def split: prod.splits)

text \<open>A property of the object's fields alone, whatever the device does.\<close>

definition keeps :: "('o \<Rightarrow> bool) \<Rightarrow> ('o, 's, 'a) prog \<Rightarrow> ('a \<Rightarrow> 'o \<Rightarrow> bool) \<Rightarrow> bool" where
  "keeps P m Q \<longleftrightarrow> (\<forall>x s. P x \<longrightarrow> wp m (\<lambda>a (y, _). Q a y) (x, s))"

named_theorems keep_rules \<open>what a program does to the object's fields\<close>

lemma keeps_bind: "keeps P m R \<Longrightarrow> (\<And>a. keeps (R a) (f a) Q) \<Longrightarrow> keeps P (State_Monad.bind m f) Q"
  unfolding keeps_def wp_rules by (intro allI impI) (rule wp_mono, blast, auto)

lemma keeps_weaken: "keeps P m Q \<Longrightarrow> (\<And>x. P' x \<Longrightarrow> P x) \<Longrightarrow> (\<And>a x. Q a x \<Longrightarrow> Q' a x) \<Longrightarrow> keeps P' m Q'"
  unfolding keeps_def by (intro allI impI) (rule wp_mono, blast, auto)

lemma keeps_guard:
  assumes "keeps P m (\<lambda>a y. if a then R y else E y)" and "keeps R n Q" and "keeps E k Q"
  shows "keeps P (do { a \<leftarrow> m; if \<not> a then k else n }) Q"
  by (rule keeps_bind [OF assms(1)]) (use assms(2,3) in auto)

lemma keeps_and:
  assumes "keeps P m (\<lambda>a y. if a then R y else E y)" and "keeps R n Q" and "\<And>y. E y \<Longrightarrow> Q False y"
  shows "keeps P (andM m n) Q"
  unfolding andM_def by (rule keeps_bind [OF assms(1)]) (use assms(2,3) in \<open>auto simp: keeps_def wp_rules\<close>)

lemma keeps_obj: "(\<And>x. P x \<Longrightarrow> Q () (h x)) \<Longrightarrow> keeps P (omod h) Q" "(\<And>x. P x \<Longrightarrow> R (g x) x) \<Longrightarrow> keeps P (ogets g) R"
  "(\<And>x. P x \<Longrightarrow> T v x) \<Longrightarrow> keeps P (ret v) T"
  by (simp_all add: keeps_def wp_rules wp_obj)

lemma ogets_const: "ogets (\<lambda>_. v) = ret v"
  by (auto simp: ogets_def State_Monad.return_def)

lemma keeps_prod: "(\<And>a b. keeps P (f a b) Q) \<Longrightarrow> keeps P (case p of (a, b) \<Rightarrow> f a b) Q"
  by (cases p) simp

lemma keeps_if: "(b \<Longrightarrow> keeps P m Q) \<Longrightarrow> (\<not> b \<Longrightarrow> keeps P n Q) \<Longrightarrow> keeps P (if b then m else n) Q"
  by simp

text \<open>Steps that keep a property of the fields whatever the device does.\<close>

lemma keeps_same [keep_rules]: "keeps P (ret a) (\<lambda>_. P)" "keeps P (dcall f) (\<lambda>_. P)" "keeps P (ogets g) (\<lambda>_. P)"
  by (simp_all add: keeps_def wp_simps wp_dcall)

lemma keeps_same_bind [keep_rules]:
  "keeps P m (\<lambda>_. P) \<Longrightarrow> (\<And>a. keeps P (f a) (\<lambda>_. P)) \<Longrightarrow> keeps P (State_Monad.bind m f) (\<lambda>_. P)"
  by (rule keeps_bind)

lemma keeps_same_if [keep_rules]:
  "(b \<Longrightarrow> keeps P m (\<lambda>_. P)) \<Longrightarrow> (\<not> b \<Longrightarrow> keeps P n (\<lambda>_. P)) \<Longrightarrow> keeps P (if b then m else n) (\<lambda>_. P)"
  by simp

lemma keeps_same_prod [keep_rules]: "(\<And>a b. keeps P (f a b) (\<lambda>_. P)) \<Longrightarrow> keeps P (case p of (a, b) \<Rightarrow> f a b) (\<lambda>_. P)"
  by (cases p) simp

lemma keeps_same_and [keep_rules]: "keeps P m (\<lambda>_. P) \<Longrightarrow> keeps P n (\<lambda>_. P) \<Longrightarrow> keeps P (andM m n) (\<lambda>_. P)"
  "keeps P m (\<lambda>_. P) \<Longrightarrow> keeps P n (\<lambda>_. P) \<Longrightarrow> keeps P (orM m n) (\<lambda>_. P)"
  unfolding andM_def orM_def by (intro keep_rules; assumption)+

lemma keeps_same_mod [keep_rules]: "(\<And>x. P x \<Longrightarrow> P (h x)) \<Longrightarrow> keeps P (omod h) (\<lambda>_. P)"
  by (simp add: keeps_def wp_simps)

lemma keeps_same_guard: "keeps P m (\<lambda>_. P) \<Longrightarrow> keeps P n Q \<Longrightarrow> keeps P k Q \<Longrightarrow> keeps P (do { a \<leftarrow> m; if \<not> a then k else n }) Q"
  by (rule keeps_guard [where R = P and E = P]) simp_all

lemma keeps_all:
  assumes "\<And>i. i < n \<Longrightarrow> keeps (I i) (f i) (\<lambda>a y. if a then I (Suc i) y else E y)"
  shows "k \<le> n \<Longrightarrow> keeps (I k) (allM f [k..<n]) (\<lambda>a y. if a then I n y else E y)"
proof (induction "n - k" arbitrary: k)
  case 0
  then show ?case by (simp add: keeps_def wp_rules)
next
  case (Suc m)
  have up: "[k..<n] = k # [Suc k..<n]" using Suc.hyps(2) by (simp add: upt_conv_Cons)
  have ih: "keeps (I (Suc k)) (allM f [Suc k..<n]) (\<lambda>a y. if a then I n y else E y)" using Suc by simp
  have st: "keeps (I k) (f k) (\<lambda>a y. if a then I (Suc k) y else E y)" using assms Suc.hyps(2) by simp
  show ?case unfolding up allM.simps andM_def
    by (rule keeps_bind [OF st]) (use ih in \<open>auto simp: keeps_def wp_rules\<close>)
qed

lemma keeps_run:
  assumes "keeps P m Q" and "run_state m (x, s) = (a, y, z)" and "P x"
  shows "Q a y"
proof -
  have "wp m (\<lambda>a (y, _). Q a y) (x, s)" using assms(1,3) by (simp add: keeps_def)
  then show ?thesis using assms(2) by (simp add: wp_def)
qed

lemma keepsD: "keeps P m Q \<Longrightarrow> P x \<Longrightarrow> (\<And>a y z. Q a y \<Longrightarrow> R a (y, z)) \<Longrightarrow> wp m R (x, s)"
  unfolding keeps_def by (rule wp_mono, blast) auto

section \<open>Logging\<close>

datatype dev_event =
    Ev_write8 u32 u8 | Ev_write16 u32 u16 | Ev_write32 u32 u32 | Ev_command u16 | Ev_pause u64 | Ev_barrier

text \<open>The device \<open>d\<close> with a log of everything done to it but reading, newest first.\<close>

definition log_read :: "('s \<Rightarrow> 'a \<times> 's) \<Rightarrow> 's \<times> 'e list \<Rightarrow> 'a \<times> 's \<times> 'e list" where
  "log_read f = (\<lambda>(s, l). let (v, s') = f s in (v, (s', l)))"

definition log_do :: "'e \<Rightarrow> ('s \<Rightarrow> 'a \<times> 's) \<Rightarrow> 's \<times> 'e list \<Rightarrow> 'a \<times> 's \<times> 'e list" where
  "log_do e f = (\<lambda>(s, l). let (v, s') = f s in (v, (s', e # l)))"

definition logged :: "'s Device \<Rightarrow> ('s \<times> dev_event list) Device" where
  "logged d = \<lparr>dv_read8 = \<lambda>a. log_read (dv_read8 d a), dv_read16 = \<lambda>a. log_read (dv_read16 d a),
     dv_read32 = \<lambda>a. log_read (dv_read32 d a), dv_write8 = \<lambda>a v. log_do (Ev_write8 a v) (dv_write8 d a v),
     dv_write16 = \<lambda>a v. log_do (Ev_write16 a v) (dv_write16 d a v),
     dv_write32 = \<lambda>a v. log_do (Ev_write32 a v) (dv_write32 d a v),
     dv_command = log_read (dv_command d), dv_writeCommand = \<lambda>v. log_do (Ev_command v) (dv_writeCommand d v),
     dv_nowUs = log_read (dv_nowUs d), dv_pauseUs = \<lambda>t (s, l). (dv_pauseUs d t s, Ev_pause t # l),
     dv_barrier = \<lambda>(s, l). (dv_barrier d s, Ev_barrier # l)\<rparr>"

text \<open>Everything the program does to the device is in \<open>W\<close>.\<close>

definition log_of :: "'o \<times> 's \<times> 'e list \<Rightarrow> 'e list" where
  "log_of t = snd (snd t)"

definition frames :: "'e set \<Rightarrow> ('o \<times> 's \<times> 'e list, 'a) state \<Rightarrow> bool" where
  "frames W m \<longleftrightarrow> (\<forall>t. \<exists>new. log_of (snd (run_state m t)) = new @ log_of t \<and> set new \<subseteq> W)"

named_theorems frame_rules \<open>what a program does to the device\<close>

lemma frames_bind [frame_rules]:
  assumes "frames W m" and "\<And>a. frames W (f a)"
  shows "frames W (State_Monad.bind m f)"
  unfolding frames_def
proof
  fix t
  obtain a t1 where m: "run_state m t = (a, t1)" by (cases "run_state m t")
  obtain n1 where n1: "log_of t1 = n1 @ log_of t" "set n1 \<subseteq> W"
    using assms(1) m unfolding frames_def by (metis snd_conv)
  obtain n2 where "log_of (snd (run_state (f a) t1)) = n2 @ log_of t1" "set n2 \<subseteq> W"
    using assms(2) unfolding frames_def by blast
  then have "log_of (snd (run_state (State_Monad.bind m f) t)) = (n2 @ n1) @ log_of t \<and> set (n2 @ n1) \<subseteq> W"
    using n1 m by simp
  then show "\<exists>new. log_of (snd (run_state (State_Monad.bind m f) t)) = new @ log_of t \<and> set new \<subseteq> W" by blast
qed

lemma frames_ret [frame_rules]: "frames W (ret a)"
  by (simp add: frames_def)

lemma frames_if [frame_rules]: "(b \<Longrightarrow> frames W m) \<Longrightarrow> (\<not> b \<Longrightarrow> frames W n) \<Longrightarrow> frames W (if b then m else n)"
  by simp

lemma frames_obj [frame_rules]: "frames W (ogets g)" "frames W (omod h)"
  by (auto simp: frames_def ogets_def omod_def log_of_def split: prod.splits)

lemma frames_and [frame_rules]: "frames W m \<Longrightarrow> frames W n \<Longrightarrow> frames W (andM m n)"
  unfolding andM_def by (intro frame_rules)

lemma frames_or [frame_rules]: "frames W m \<Longrightarrow> frames W n \<Longrightarrow> frames W (orM m n)"
  unfolding orM_def by (intro frame_rules)

lemma frames_all [frame_rules]: "(\<And>x. x \<in> set xs \<Longrightarrow> frames W (f x)) \<Longrightarrow> frames W (allM f xs)"
  by (induction xs) (auto intro!: frame_rules)

lemma frames_each [frame_rules]: "(\<And>x. x \<in> set xs \<Longrightarrow> frames W (f x)) \<Longrightarrow> frames W (eachM f xs)"
  by (induction xs) (auto intro!: frame_rules)

lemma frames_run [frame_rules]: "(\<And>x. x \<in> set xs \<Longrightarrow> frames W (f x)) \<Longrightarrow> frames W (runM f xs)"
  by (induction xs) (auto intro!: frame_rules)

lemma frames_read [frame_rules]: "frames W (dcall (log_read f))"
  by (auto simp: frames_def dcall_def log_read_def log_of_def split: prod.splits)

lemma frames_do: "e \<in> W \<Longrightarrow> frames W (dcall (log_do e f))"
  by (force simp: frames_def dcall_def log_do_def log_of_def split: prod.splits)

lemma logged_simps [simp]:
  "dv_read8 (logged d) a = log_read (dv_read8 d a)" "dv_read16 (logged d) a = log_read (dv_read16 d a)"
  "dv_read32 (logged d) a = log_read (dv_read32 d a)" "dv_command (logged d) = log_read (dv_command d)"
  "dv_nowUs (logged d) = log_read (dv_nowUs d)"
  by (simp_all add: logged_def)

lemma frames_write [frame_rules]:
  "Ev_write8 a v8 \<in> W \<Longrightarrow> frames W (write8 (logged d) a v8)" "Ev_write16 a v16 \<in> W \<Longrightarrow> frames W (write16 (logged d) a v16)"
  "Ev_write32 a v32 \<in> W \<Longrightarrow> frames W (write32 (logged d) a v32)" "Ev_command v16 \<in> W \<Longrightarrow> frames W (writeCommand (logged d) v16)"
  by (simp_all add: logged_def frames_do)

lemma frames_pause [frame_rules]: "Ev_pause t \<in> W \<Longrightarrow> frames W (pauseUs (logged d) t)" "Ev_barrier \<in> W \<Longrightarrow> frames W (barrier (logged d))"
  by (force simp: frames_def ddo_def logged_def log_of_def split: prod.splits)+

section \<open>A register file\<close>

text \<open>A device that stores what is written, for concrete runs: registers by address, the command register at
  address 4 of the configuration space, a clock that advances with every look and every pause.\<close>

record regs =
  rf_mem :: "u32 \<Rightarrow> u32"
  rf_command :: u16
  rf_clock :: u64

definition register_file :: "regs Device" where
  "register_file = \<lparr>dv_read8 = \<lambda>a s. (ucast (rf_mem s a), s), dv_read16 = \<lambda>a s. (ucast (rf_mem s a), s),
     dv_read32 = \<lambda>a s. (rf_mem s a, s),
     dv_write8 = \<lambda>a v s. (True, s\<lparr>rf_mem := (rf_mem s)(a := (rf_mem s a AND 0xffffff00) OR ucast v)\<rparr>),
     dv_write16 = \<lambda>a v s. (True, s\<lparr>rf_mem := (rf_mem s)(a := (rf_mem s a AND 0xffff0000) OR ucast v)\<rparr>),
     dv_write32 = \<lambda>a v s. (True, s\<lparr>rf_mem := (rf_mem s)(a := v)\<rparr>),
     dv_command = \<lambda>s. (rf_command s, s), dv_writeCommand = \<lambda>v s. (True, s\<lparr>rf_command := v\<rparr>),
     dv_nowUs = \<lambda>s. (rf_clock s, s\<lparr>rf_clock := rf_clock s + 1\<rparr>), dv_pauseUs = \<lambda>t s. s\<lparr>rf_clock := rf_clock s + t\<rparr>,
     dv_barrier = \<lambda>s. s\<rparr>"

definition regs0 :: regs where
  "regs0 = \<lparr>rf_mem = \<lambda>_. 0, rf_command = 2, rf_clock = 0\<rparr>"

end
