(* ===== verification/PciRings.thy ===== *)
theory PciRings
  imports DeviceMonad PciDataPath
begin

text \<open>The registers of the nine DMA rings: \<open>src/network/PciRingSetup.hpp\<close> programs them while the engine is
  stopped, \<open>src/network/PciRuntime.hpp\<close> starts and stops the engine, rings the doorbells and masks the
  interrupts. The device is arbitrary: it may answer every read with any value.\<close>

section \<open>Ring setup\<close>

record RingRegisters =
  rg_count :: u32
  rg_index :: u32
  rg_low :: u32
  rg_high :: u32
  rg_bdram :: u32
  rg_allocation :: u32

definition ring_register :: "u32 \<Rightarrow> u32 \<Rightarrow> u32 \<Rightarrow> u32 \<Rightarrow> u32 \<Rightarrow> u32 \<Rightarrow> RingRegisters" where
  "ring_register c i l h b a = \<lparr>rg_count = c, rg_index = i, rg_low = l, rg_high = h, rg_bdram = b, rg_allocation = a\<rparr>"

definition ringRegisters :: "RingRegisters list" where
  "ringRegisters = [ring_register 0x1024 0x1058 0x1110 0x1114 0x1200 0x020500, ring_register 0x1026 0x105c 0x1118 0x111c 0x1204 0x020505,
     ring_register 0x1028 0x1060 0x1120 0x1124 0x1208 0x02050a, ring_register 0x102a 0x1064 0x1128 0x112c 0x120c 0x02050f,
     ring_register 0x1034 0x1078 0x1150 0x1154 0x1220 0x010414, ring_register 0x1036 0x107c 0x1158 0x115c 0x1224 0x010418,
     ring_register 0x1038 0x1080 0x1160 0x1164 0x1228 0x01041c, ring_register 0x1020 0x1050 0x1100 0x1104 0 0,
     ring_register 0x1022 0x1054 0x1108 0x110c 0 0]"

record RingMemory =
  rm_address :: u64
  rm_count :: u16

record RingSetupResult =
  rr_attempted :: bool
  rr_programmed :: bool
  rr_restored :: bool
  rr_failureAddress :: u32
  rr_expected :: u32
  rr_actual :: u32
  rr_writes :: nat
  rr_polls :: nat

record Snapshot =
  sv_low :: u32
  sv_high :: u32
  sv_bdram :: u32
  sv_count :: u16

record PciRingSetup = RingSetupResult +
  rs_saved :: "Snapshot list"
  rs_init :: u32
  rs_snapshot :: bool

definition Snapshot0 :: Snapshot where
  "Snapshot0 = \<lparr>sv_low = 0, sv_high = 0, sv_bdram = 0, sv_count = 0\<rparr>"

definition PciRingSetup0 :: PciRingSetup where
  "PciRingSetup0 = \<lparr>rr_attempted = False, rr_programmed = False, rr_restored = False, rr_failureAddress = 0, rr_expected = 0,
     rr_actual = 0, rr_writes = 0, rr_polls = 0, rs_saved = replicate 9 Snapshot0, rs_init = 0, rs_snapshot = False\<rparr>"

type_synonym ('s, 'a) rs_prog = "(PciRingSetup, 's, 'a) prog"

definition rs_mismatch :: "u32 \<Rightarrow> u32 \<Rightarrow> u32 \<Rightarrow> ('s, bool) rs_prog" where
  "rs_mismatch address expected actual = do {
     omod (\<lambda>x. if rr_failureAddress x = 0 then x\<lparr>rr_failureAddress := address, rr_expected := expected, rr_actual := actual\<rparr> else x);
     ret False }"

definition rs_safe :: "'s Device \<Rightarrow> ('s, bool) rs_prog" where
  "rs_safe d = do {
     c \<leftarrow> readCommand d;
     if c AND 6 \<noteq> 2 then do { c \<leftarrow> readCommand d; rs_mismatch 4 2 (ucast (c AND 6)) }
     else do {
       init \<leftarrow> read32 d 0x1000;
       stop \<leftarrow> read32 d 0x1010;
       busy \<leftarrow> read32 d 0x101c;
       if init = 0xffffffff \<or> init AND 0x2800 \<noteq> 0 then rs_mismatch 0x1000 0 init
       else if stop = 0xffffffff \<or> stop AND 0x1f0f00 \<noteq> 0x1f0f00 then rs_mismatch 0x1010 0x1f0f00 stop
       else if busy = 0xffffffff \<or> busy AND 0x7f0f03 \<noteq> 0 then rs_mismatch 0x101c 0 busy
       else allM (\<lambda>a. do { v \<leftarrow> read32 d a; if v \<noteq> 0 then do { v \<leftarrow> read32 d a; rs_mismatch a 0 v } else ret True })
         [0x1a0, 0x10b0, 0x13b0] } }"

definition rs_write32 :: "'s Device \<Rightarrow> u32 \<Rightarrow> u32 \<Rightarrow> ('s, bool) rs_prog" where
  "rs_write32 d address value = andM (rs_safe d) (do {
     omod (\<lambda>x. x\<lparr>rr_writes := rr_writes x + 1\<rparr>);
     ok \<leftarrow> write32 d address value;
     if ok then ret True else do { v \<leftarrow> read32 d address; rs_mismatch address value v } })"

definition rs_write16 :: "'s Device \<Rightarrow> u32 \<Rightarrow> u16 \<Rightarrow> ('s, bool) rs_prog" where
  "rs_write16 d address value = andM (rs_safe d) (do {
     omod (\<lambda>x. x\<lparr>rr_writes := rr_writes x + 1\<rparr>);
     ok \<leftarrow> write16 d address value;
     if ok then ret True else do { v \<leftarrow> read16 d address; rs_mismatch address (ucast value) (ucast v) } })"

definition rs_equal32 :: "'s Device \<Rightarrow> u32 \<Rightarrow> u32 \<Rightarrow> ('s, bool) rs_prog" where
  "rs_equal32 d address expected = do {
     v \<leftarrow> read32 d address;
     if v = expected then ret True else rs_mismatch address expected v }"

definition rs_equal16 :: "'s Device \<Rightarrow> u32 \<Rightarrow> u16 \<Rightarrow> ('s, bool) rs_prog" where
  "rs_equal16 d address expected = do {
     v \<leftarrow> read16 d address;
     if v = expected then ret True else rs_mismatch address (ucast expected) (ucast v) }"

text \<open>The rings given to \<open>configure\<close>: aligned, addressable by the device and disjoint.\<close>

definition rings_overlap :: "RingMemory \<Rightarrow> RingMemory \<Rightarrow> bool" where
  "rings_overlap m r \<longleftrightarrow> rm_address m < rm_address r + ucast (rm_count r) * 8 \<and> rm_address r < rm_address m + ucast (rm_count m) * 8"

definition ring_ok :: "RingMemory list \<Rightarrow> nat \<Rightarrow> bool" where
  "ring_ok rings i \<longleftrightarrow> (let m = rings ! i in
     \<not> (rm_count m < 2 \<or> 4095 < rm_count m \<or> rm_address m AND 7 \<noteq> 0 \<or> \<not> dma32Range (rm_address m) (unat (rm_count m) * 8)) \<and>
     list_all (\<lambda>j. \<not> rings_overlap m (rings ! j)) [0..<i])"

definition rs_save :: "'s Device \<Rightarrow> nat \<Rightarrow> ('s, bool) rs_prog" where
  "rs_save d i = (let r = ringRegisters ! i in do {
     low \<leftarrow> read32 d (rg_low r);
     high \<leftarrow> read32 d (rg_high r);
     count \<leftarrow> read16 d (rg_count r);
     bdram \<leftarrow> (if rg_bdram r \<noteq> 0 then read32 d (rg_bdram r) else ret 0);
     omod (\<lambda>x. x\<lparr>rs_saved := (rs_saved x)[i := \<lparr>sv_low = low, sv_high = high, sv_bdram = bdram, sv_count = count\<rparr>]\<rparr>);
     if low \<noteq> 0 then rs_mismatch (rg_low r) 0 low
     else if high \<noteq> 0 then rs_mismatch (rg_high r) 0 high
     else if count AND 0xfff \<noteq> 0 then rs_mismatch (rg_count r) 0 (ucast count)
     else andM (rs_equal32 d (rg_index r) 0)
       (if bdram = 0xffffffff \<or> bdram = 0xdeadbeef then rs_mismatch (rg_bdram r) 0 bdram else ret True) })"

definition rs_program :: "'s Device \<Rightarrow> RingMemory list \<Rightarrow> nat \<Rightarrow> ('s, bool) rs_prog" where
  "rs_program d rings i = (let r = ringRegisters ! i; m = rings ! i in do {
     saved \<leftarrow> ogets (\<lambda>x. rs_saved x ! i);
     let count = (sv_count saved AND 0xf000) OR rm_count m;
     let bdram = (sv_bdram saved AND 0xff000000) OR rg_allocation r;
     andM (rs_write32 d (rg_high r) 0) (andM (rs_write32 d (rg_low r) (ucast (rm_address m))) (andM (rs_write16 d (rg_count r) count)
      (andM (if rg_bdram r \<noteq> 0 then rs_write32 d (rg_bdram r) bdram else ret True)
      (andM (rs_equal32 d (rg_high r) 0) (andM (rs_equal32 d (rg_low r) (ucast (rm_address m))) (andM (rs_equal16 d (rg_count r) count)
       (if rg_bdram r \<noteq> 0 then rs_equal32 d (rg_bdram r) bdram else ret True))))))) })"

text \<open>The wait for the BDRAM reset, at most 201 rounds: \<open>None\<close> when the function returns from the loop.\<close>

fun rs_poll :: "'s Device \<Rightarrow> u64 \<Rightarrow> nat \<Rightarrow> u64 \<Rightarrow> ('s, bool option) rs_prog" where
  "rs_poll d begin 0 previous = ret (Some False)"
| "rs_poll d begin (Suc n) previous = do {
     now \<leftarrow> nowUs d;
     if now < previous \<or> 10000 \<le> now - begin then ret (Some False)
     else do {
       value \<leftarrow> read32 d 0x1000;
       omod (\<lambda>x. x\<lparr>rr_polls := rr_polls x + 1\<rparr>);
       if value = 0xffffffff \<or> value = 0xdeadbeef then do {
         init \<leftarrow> ogets rs_init;
         rs_mismatch 0x1000 init value;
         ret None }
       else if value AND 8 = 0 then ret (Some True)
       else do { pauseUs d 50; rs_poll d begin n now } } }"

definition rs_reset :: "'s Device \<Rightarrow> ('s, bool) rs_prog" where
  "rs_reset d = do {
     begin \<leftarrow> nowUs d;
     reset \<leftarrow> rs_poll d begin 201 begin;
     init \<leftarrow> ogets rs_init;
     case reset of None \<Rightarrow> ret False
     | Some False \<Rightarrow> do { v \<leftarrow> read32 d 0x1000; rs_mismatch 0x1000 init v }
     | Some True \<Rightarrow> ret True }"

definition configure :: "'s Device \<Rightarrow> RingMemory list \<Rightarrow> ('s, bool) rs_prog" where
  "configure d rings = do {
     attempted \<leftarrow> ogets rr_attempted;
     if attempted then ret False
     else do {
       omod (\<lambda>x. x\<lparr>rr_attempted := True\<rparr>);
       if \<not> list_all (ring_ok rings) [0..<9] then ret False
       else andM (rs_safe d) (do {
         hci \<leftarrow> read32 d 0x8380;
         if hci = 0xffffffff \<or> hci AND 3 \<noteq> 3 then rs_mismatch 0x8380 3 hci
         else do {
           init \<leftarrow> read32 d 0x1000;
           omod (\<lambda>x. x\<lparr>rs_init := init\<rparr>);
           if init AND 8 \<noteq> 0 then rs_mismatch 0x1000 0 init
           else andM (allM (rs_save d) [0..<9]) (do {
             omod (\<lambda>x. x\<lparr>rs_snapshot := True\<rparr>);
             andM (allM (rs_program d rings) [0..<9])
              (andM (rs_write32 d 0x1014 0x70f) (andM (rs_write32 d 0x1018 3) (andM (rs_write32 d 0x1000 (init OR 8))
              (andM (rs_reset d) (andM (allM (\<lambda>r. rs_equal32 d (rg_index r) 0) ringRegisters)
              (andM (rs_equal32 d 0x1000 init) (andM (rs_safe d) (do {
                omod (\<lambda>x. x\<lparr>rr_programmed := True\<rparr>);
                ret True })))))))) }) } }) } }"

definition rs_restore_ring :: "'s Device \<Rightarrow> nat \<Rightarrow> ('s, bool) rs_prog" where
  "rs_restore_ring d i = (let r = ringRegisters ! i in do {
     s \<leftarrow> ogets (\<lambda>x. rs_saved x ! i);
     high \<leftarrow> rs_write32 d (rg_high r) (sv_high s);
     low \<leftarrow> rs_write32 d (rg_low r) (sv_low s);
     count \<leftarrow> rs_write16 d (rg_count r) (sv_count s);
     bdram \<leftarrow> (if rg_bdram r = 0 then ret True else rs_write32 d (rg_bdram r) (sv_bdram s));
     ret (high \<and> low \<and> count \<and> bdram) })"

definition rs_verify_ring :: "'s Device \<Rightarrow> nat \<Rightarrow> ('s, bool) rs_prog" where
  "rs_verify_ring d i = (let r = ringRegisters ! i in do {
     s \<leftarrow> ogets (\<lambda>x. rs_saved x ! i);
     a \<leftarrow> andM (rs_equal32 d (rg_high r) (sv_high s)) (andM (rs_equal32 d (rg_low r) (sv_low s)) (rs_equal16 d (rg_count r) (sv_count s)));
     b \<leftarrow> (if rg_bdram r \<noteq> 0 then rs_equal32 d (rg_bdram r) (sv_bdram s) else ret True);
     ret (a \<and> b) })"

definition rs_restore :: "'s Device \<Rightarrow> ('s, bool) rs_prog" where
  "rs_restore d = do {
     snapshot \<leftarrow> ogets rs_snapshot;
     if \<not> snapshot then ret False
     else andM (rs_safe d) (do {
       a \<leftarrow> eachM (rs_restore_ring d) [0..<9];
       init \<leftarrow> ogets rs_init;
       b \<leftarrow> rs_write32 d 0x1000 init;
       c \<leftarrow> eachM (rs_verify_ring d) [0..<9];
       e \<leftarrow> rs_equal32 d 0x1000 init;
       restored \<leftarrow> (if e \<and> a \<and> b \<and> c then rs_safe d else ret False);
       omod (\<lambda>x. x\<lparr>rr_restored := restored\<rparr>);
       ret restored }) }"

section \<open>Runtime\<close>

definition irqMasks :: "u32 list" where "irqMasks = [0x1a0, 0x10b0, 0x13b0]"
definition irqStatus :: "u32 list" where "irqStatus = [0x1a4, 0x10b4, 0x13b4]"
definition irqEnabled :: "u32 list" where "irqEnabled = [0x00200000, 0x011e0007, 0x10000000]"
definition runtimeStopMask :: u32 where "runtimeStopMask = 0x001f0f00"
definition runtimeBusyMask :: u32 where "runtimeBusyMask = 0x007f0f03"

record InterruptStatus =
  is_halt :: u32
  is_dma :: u32
  is_indirect :: u32
  is_valid :: bool

definition InterruptStatus0 :: InterruptStatus where
  "InterruptStatus0 = \<lparr>is_halt = 0, is_dma = 0, is_indirect = 0, is_valid = False\<rparr>"

definition irq_pending :: "InterruptStatus \<Rightarrow> bool" where
  "irq_pending i \<longleftrightarrow> is_valid i \<and> (is_halt i \<noteq> 0 \<or> is_dma i \<noteq> 0 \<or> is_indirect i \<noteq> 0)"

definition irq_fatal :: "InterruptStatus \<Rightarrow> bool" where
  "irq_fatal i \<longleftrightarrow> is_halt i AND 0x00200000 \<noteq> 0 \<or> is_dma i AND 0x00060000 \<noteq> 0"

record RuntimeResult =
  ru_failureAddress :: u32
  ru_expected :: u32
  ru_actual :: u32
  ru_lastBusy :: u32
  ru_polls :: nat
  ru_irqMasked :: bool
  ru_masterOff :: bool
  ru_idle :: bool
  ru_stopped :: bool

record PciRuntime = RuntimeResult +
  rt_attempted :: bool
  rt_running :: bool
  rt_faulted :: bool
  rt_host :: "u16 list"
  rt_addresses :: "u64 list"

definition PciRuntime0 :: PciRuntime where
  "PciRuntime0 = \<lparr>ru_failureAddress = 0, ru_expected = 0, ru_actual = 0, ru_lastBusy = 0, ru_polls = 0, ru_irqMasked = False,
     ru_masterOff = False, ru_idle = False, ru_stopped = False, rt_attempted = False, rt_running = False, rt_faulted = False,
     rt_host = replicate 9 0, rt_addresses = replicate 9 0\<rparr>"

type_synonym ('s, 'a) rt_prog = "(PciRuntime, 's, 'a) prog"

definition rt_bad :: "u32 \<Rightarrow> bool" where
  "rt_bad v \<longleftrightarrow> v = 0xffffffff \<or> v = 0xdeadbeef"

definition rt_fail :: "u32 \<Rightarrow> u32 \<Rightarrow> u32 \<Rightarrow> ('s, bool) rt_prog" where
  "rt_fail a expected actual = do {
     omod (\<lambda>x. x\<lparr>rt_faulted := True\<rparr>);
     omod (\<lambda>x. if ru_failureAddress x = 0 then x\<lparr>ru_failureAddress := a, ru_expected := expected, ru_actual := actual\<rparr> else x);
     ret False }"

definition rt_equal :: "'s Device \<Rightarrow> u32 \<Rightarrow> u32 \<Rightarrow> u32 \<Rightarrow> ('s, bool) rt_prog" where
  "rt_equal d a msk expected = do {
     v \<leftarrow> read32 d a;
     if \<not> rt_bad v \<and> v AND msk = expected then ret True else rt_fail a expected v }"

definition rt_write :: "'s Device \<Rightarrow> u32 \<Rightarrow> u32 \<Rightarrow> ('s, bool) rt_prog" where
  "rt_write d a value = orM (write32 d a value) (rt_fail a value 0xffffffff)"

definition rt_modify :: "'s Device \<Rightarrow> u32 \<Rightarrow> u32 \<Rightarrow> u32 \<Rightarrow> ('s, bool) rt_prog" where
  "rt_modify d a msk value = do {
     old \<leftarrow> read32 d a;
     if rt_bad old then rt_fail a value old
     else andM (rt_write d a ((old AND NOT msk) OR value)) (rt_equal d a msk value) }"

definition rt_command :: "'s Device \<Rightarrow> u16 \<Rightarrow> ('s, bool) rt_prog" where
  "rt_command d value = do {
     wrote \<leftarrow> writeCommand d value;
     actual \<leftarrow> readCommand d;
     if wrote \<and> actual = value then ret True else rt_fail 4 (ucast value) (ucast actual) }"

definition rt_runs :: "PciRuntime \<Rightarrow> bool" where
  "rt_runs x \<longleftrightarrow> rt_running x \<and> \<not> rt_faulted x"

definition ownsRing :: "nat \<Rightarrow> u64 \<Rightarrow> PciRuntime \<Rightarrow> bool" where
  "ownsRing ring address x \<longleftrightarrow> rt_runs x \<and> ring < 9 \<and> rt_addresses x ! ring = address"

definition maskInterrupts :: "'s Device \<Rightarrow> ('s, bool) rt_prog" where
  "maskInterrupts d = do {
     a \<leftarrow> eachM (\<lambda>a. rt_write d a 0) irqMasks;
     b \<leftarrow> eachM (\<lambda>a. rt_equal d a 0xffffffff 0) irqMasks;
     omod (\<lambda>x. x\<lparr>ru_irqMasked := a \<and> b\<rparr>);
     ret (a \<and> b) }"

definition enableInterrupts :: "'s Device \<Rightarrow> ('s, bool) rt_prog" where
  "enableInterrupts d = do {
     running \<leftarrow> ogets rt_runs;
     if \<not> running then ret False
     else do {
       ok \<leftarrow> allM (\<lambda>(a, v). andM (rt_write d a v) (rt_equal d a 0xffffffff v)) (zip irqMasks irqEnabled);
       if \<not> ok then do { maskInterrupts d; ret False }
       else do { omod (\<lambda>x. x\<lparr>ru_irqMasked := False\<rparr>); ret True } } }"

text \<open>The three causes, or \<open>None\<close> when a status register cannot be read.\<close>

fun irq_causes :: "'s Device \<Rightarrow> (u32 \<times> u32) list \<Rightarrow> ('s, u32 list option) rt_prog" where
  "irq_causes d [] = ret (Some [])"
| "irq_causes d ((a, en) # rest) = do {
     v \<leftarrow> read32 d a;
     if rt_bad v then do { rt_fail a 0 v; ret None }
     else do {
       vs \<leftarrow> irq_causes d rest;
       ret (map_option ((#) (v AND en)) vs) } }"

definition acknowledgeInterrupts :: "'s Device \<Rightarrow> ('s, InterruptStatus) rt_prog" where
  "acknowledgeInterrupts d = do {
     running \<leftarrow> ogets rt_runs;
     masked \<leftarrow> ogets ru_irqMasked;
     if \<not> running \<or> \<not> masked then ret InterruptStatus0
     else do {
       values \<leftarrow> irq_causes d (zip irqStatus irqEnabled);
       case values of None \<Rightarrow> ret InterruptStatus0
       | Some vs \<Rightarrow> do {
           ok \<leftarrow> allM (\<lambda>(a, v). if v \<noteq> 0 then rt_write d a v else ret True) (zip irqStatus vs);
           ret (if ok then \<lparr>is_halt = vs ! 0, is_dma = vs ! 1, is_indirect = vs ! 2, is_valid = True\<rparr> else InterruptStatus0) } } }"

definition rt_check_ring :: "'s Device \<Rightarrow> RingMemory list \<Rightarrow> nat \<Rightarrow> ('s, bool) rt_prog" where
  "rt_check_ring d rings i = (let m = rings ! i; r = ringRegisters ! i in
     if rm_count m \<noteq> 64 \<or> rm_address m AND 7 \<noteq> 0 \<or> \<not> dma32Range (rm_address m) 512 \<or>
        list_ex (\<lambda>j. rm_address m < rm_address (rings ! j) + 512 \<and> rm_address (rings ! j) < rm_address m + 512) [0..<i]
     then rt_fail (rg_low r) 0 (ucast (rm_address m))
     else do {
       ok \<leftarrow> andM (rt_equal d (rg_low r) 0xffffffff (ucast (rm_address m))) (andM (rt_equal d (rg_high r) 0xffffffff 0)
         (andM (do { c \<leftarrow> read16 d (rg_count r); ret (c AND 0xfff = 64) }) (rt_equal d (rg_index r) 0x0fff0fff 0)));
       if \<not> ok then do { c \<leftarrow> read16 d (rg_count r); rt_fail (rg_count r) 64 (ucast c) }
       else do { omod (\<lambda>x. x\<lparr>rt_addresses := (rt_addresses x)[i := rm_address m]\<rparr>); ret True } })"

definition rt_start :: "'s Device \<Rightarrow> RingMemory list \<Rightarrow> ('s, bool) rt_prog" where
  "rt_start d rings = do {
     attempted \<leftarrow> ogets rt_attempted;
     faulted \<leftarrow> ogets rt_faulted;
     if attempted \<or> faulted then ret False
     else do {
       omod (\<lambda>x. x\<lparr>rt_attempted := True\<rparr>);
       c \<leftarrow> readCommand d;
       if c AND 6 \<noteq> 2 then do { c \<leftarrow> readCommand d; rt_fail 4 2 (ucast c) }
       else andM (maskInterrupts d) (andM (rt_equal d 0x1000 0x2808 0) (andM (rt_equal d 0x1010 runtimeStopMask runtimeStopMask)
        (andM (rt_equal d 0x101c runtimeBusyMask 0) (andM (rt_equal d 0x8380 3 3) (andM (rt_equal d 0x8400 0x60000000 0x60000000)
        (andM (rt_equal d 0xc000 0x40000000 0x40000000) (andM (rt_equal d 0x1e0 0xe0 0xe0)
        (andM (allM (rt_check_ring d rings) [0..<9])
        (andM (allM (\<lambda>(a, en). do {
            value \<leftarrow> read32 d a;
            if rt_bad value then rt_fail a 0 value
            else if value AND en \<noteq> 0 then rt_write d a (value AND en) else ret True }) (zip irqStatus irqEnabled)) (do {
          barrier d;
          cmd \<leftarrow> readCommand d;
          if cmd = 0xffff then rt_fail 4 2 (ucast cmd)
          else andM (rt_command d (cmd OR 0x404)) (do {
            omod (\<lambda>x. x\<lparr>ru_masterOff := False, ru_stopped := False\<rparr>);
            andM (rt_modify d 0x1010 runtimeStopMask 0) (andM (rt_modify d 0x1000 0x2800 0x2800) (do {
              omod (\<lambda>x. x\<lparr>rt_running := True\<rparr>);
              ret True })) }) })))))))))) } }"

text \<open>The indices, in the order host, hardware.\<close>

definition readIndices :: "'s Device \<Rightarrow> nat \<Rightarrow> ('s, bool \<times> u16 \<times> u16) rt_prog" where
  "readIndices d ring = do {
     running \<leftarrow> ogets rt_runs;
     if \<not> running \<or> 9 \<le> ring then ret (False, 0, 0)
     else do {
       let a = rg_index (ringRegisters ! ring);
       v \<leftarrow> read32 d a;
       let host = ucast (v AND 0xfff);
       let hardware = ucast (drop_bit 16 v AND 0xfff);
       known \<leftarrow> ogets (\<lambda>x. rt_host x ! ring);
       if rt_bad v \<or> 64 \<le> host \<or> 64 \<le> hardware \<or> host \<noteq> known
       then do { rt_fail a (ucast known) v; ret (False, host, hardware) }
       else ret (True, host, hardware) } }"

definition rt_publish :: "'s Device \<Rightarrow> nat \<Rightarrow> u16 \<Rightarrow> ('s, bool) rt_prog" where
  "rt_publish d ring next = do {
     running \<leftarrow> ogets rt_runs;
     if \<not> running \<or> 9 \<le> ring \<or> 64 \<le> next then ret False
     else do {
       (ok, host, hardware) \<leftarrow> readIndices d ring;
       if \<not> ok then ret False
       else do {
         let a = rg_index (ringRegisters ! ring);
         let advance = (unat next + 64 - unat host) mod 64;
         if ring < 7 \<and> (advance \<noteq> 1 \<or> next = hardware) then rt_fail a (of_nat ((unat host + 1) mod 64)) (ucast next)
         else if 7 \<le> ring \<and> (unat hardware + 64 - unat host) mod 64 < advance then rt_fail a (ucast hardware) (ucast next)
         else if advance = 0 then ret True
         else do {
           barrier d;
           ok \<leftarrow> write16 d a next;
           if \<not> ok then rt_fail a (ucast next) 0xffffffff
           else do {
             omod (\<lambda>x. x\<lparr>rt_host := (rt_host x)[ring := next]\<rparr>);
             value \<leftarrow> read32 d a;
             if \<not> rt_bad value \<and> value AND 0xfff = ucast next then ret True else rt_fail a (ucast next) value } } } } }"

fun rt_poll :: "'s Device \<Rightarrow> u64 \<Rightarrow> nat \<Rightarrow> u64 \<Rightarrow> ('s, unit) rt_prog" where
  "rt_poll d begin 0 previous = ret ()"
| "rt_poll d begin (Suc n) previous = do {
     now \<leftarrow> nowUs d;
     if now < previous \<or> 10000 \<le> now - begin then ret ()
     else do {
       busy \<leftarrow> read32 d 0x101c;
       omod (\<lambda>x. x\<lparr>ru_lastBusy := busy, ru_polls := ru_polls x + 1\<rparr>);
       if rt_bad busy then ret ()
       else if busy AND runtimeBusyMask = 0 then omod (\<lambda>x. x\<lparr>ru_idle := True\<rparr>)
       else do { pauseUs d 50; rt_poll d begin n now } } }"

definition rt_master_off :: "'s Device \<Rightarrow> ('s, bool) rt_prog" where
  "rt_master_off d = do {
     cmd \<leftarrow> readCommand d;
     off \<leftarrow> (if cmd = 0xffff then ret False
       else andM (rt_command d (cmd AND NOT 4)) (do { c \<leftarrow> readCommand d; ret (c AND 4 = 0) }));
     omod (\<lambda>x. x\<lparr>ru_masterOff := off\<rparr>);
     ret off }"

definition rt_stopped :: "'s Device \<Rightarrow> bool \<Rightarrow> ('s, bool) rt_prog" where
  "rt_stopped d ok = do {
     e \<leftarrow> andM (rt_equal d 0x1000 0x2800 0) (rt_equal d 0x1010 runtimeStopMask runtimeStopMask);
     finalMasked \<leftarrow> maskInterrupts d;
     stopped \<leftarrow> ogets (\<lambda>x. finalMasked \<and> e \<and> ok \<and> ru_idle x \<and> ru_masterOff x \<and> ru_irqMasked x);
     omod (\<lambda>x. x\<lparr>ru_stopped := stopped, rt_faulted := rt_faulted x \<or> \<not> stopped\<rparr>);
     ret stopped }"

definition rt_stop :: "'s Device \<Rightarrow> ('s, bool) rt_prog" where
  "rt_stop d = do {
     omod (\<lambda>x. x\<lparr>rt_running := False, ru_stopped := False\<rparr>);
     masked \<leftarrow> maskInterrupts d;
     hci \<leftarrow> rt_modify d 0x1000 0x2800 0;
     channels \<leftarrow> rt_modify d 0x1010 runtimeStopMask runtimeStopMask;
     begin \<leftarrow> nowUs d;
     omod (\<lambda>x. x\<lparr>ru_idle := False\<rparr>);
     rt_poll d begin 201 begin;
     rt_master_off d;
     rt_stopped d (hci \<and> channels \<and> masked) }"

section \<open>What ring setup writes\<close>

text \<open>The registers of the rings, their enable masks and the init register; never the command register.\<close>

definition setup_writes :: "dev_event set" where
  "setup_writes = {Ev_write32 a v |a v. a \<in> {0x1000, 0x1014, 0x1018} \<union> rg_low ` set ringRegisters \<union> rg_high ` set ringRegisters \<union>
       rg_bdram ` set ringRegisters - {0}} \<union>
     {Ev_write16 a v |a v. a \<in> rg_count ` set ringRegisters} \<union> {Ev_pause 50}"

lemma setup_frames [frame_rules]:
  "frames W (rs_mismatch a e v)" "frames W (rs_safe (logged d))" "frames W (rs_equal32 (logged d) a e)" "frames W (rs_equal16 (logged d) a e16)"
  by (auto simp: rs_mismatch_def rs_safe_def rs_equal32_def rs_equal16_def intro!: frame_rules)

lemma setup_write_frames [frame_rules]:
  "Ev_write32 a v \<in> W \<Longrightarrow> frames W (rs_write32 (logged d) a v)" "Ev_write16 a v16 \<in> W \<Longrightarrow> frames W (rs_write16 (logged d) a v16)"
  by (auto simp: rs_write32_def rs_write16_def intro!: frame_rules)

lemma ring_registers_in: "i < 9 \<Longrightarrow> ringRegisters ! i \<in> set ringRegisters"
  by (rule nth_mem) (simp add: ringRegisters_def)

lemma ring_writes:
  assumes "i < 9"
  shows "Ev_write32 (rg_low (ringRegisters ! i)) v \<in> setup_writes" "Ev_write32 (rg_high (ringRegisters ! i)) v \<in> setup_writes"
    "Ev_write16 (rg_count (ringRegisters ! i)) v16 \<in> setup_writes"
    "rg_bdram (ringRegisters ! i) \<noteq> 0 \<Longrightarrow> Ev_write32 (rg_bdram (ringRegisters ! i)) v \<in> setup_writes"
proof -
  have "rg_low r \<noteq> 0" "rg_high r \<noteq> 0" if "r \<in> set ringRegisters" for r
    using that by (auto simp: ringRegisters_def ring_register_def)
  then show "Ev_write32 (rg_low (ringRegisters ! i)) v \<in> setup_writes" "Ev_write32 (rg_high (ringRegisters ! i)) v \<in> setup_writes"
    "Ev_write16 (rg_count (ringRegisters ! i)) v16 \<in> setup_writes"
    "rg_bdram (ringRegisters ! i) \<noteq> 0 \<Longrightarrow> Ev_write32 (rg_bdram (ringRegisters ! i)) v \<in> setup_writes"
    using ring_registers_in [OF assms] by (auto simp: setup_writes_def)
qed

lemma ring_step_frames [frame_rules]:
  assumes "i < 9"
  shows "frames setup_writes (rs_save (logged d) i)" "frames setup_writes (rs_program (logged d) rings i)"
    "frames setup_writes (rs_restore_ring (logged d) i)" "frames setup_writes (rs_verify_ring (logged d) i)"
  using ring_writes [OF assms]
  by (auto simp: rs_save_def rs_program_def rs_restore_ring_def rs_verify_ring_def Let_def intro!: frame_rules)

lemma poll_frames [frame_rules]: "frames setup_writes (rs_poll (logged d) begin n previous)"
  by (induction n arbitrary: previous) (auto simp: setup_writes_def intro!: frame_rules)

lemma reset_frames [frame_rules]: "frames setup_writes (rs_reset (logged d))"
  by (auto simp: rs_reset_def intro!: frame_rules split: option.split bool.split)

lemma configure_frames: "frames setup_writes (configure (logged d) rings)" "frames setup_writes (rs_restore (logged d))"
  by (auto simp: configure_def rs_restore_def setup_writes_def [symmetric] intro!: frame_rules)
     (auto simp: setup_writes_def)

text \<open>Whatever the device answers, programming and restoring the rings writes nothing but
  the base, count and BDRAM registers of the nine rings, the two channel masks and the init register,
  and pauses only in steps of 50 microseconds: in particular the PCI command register, and with it bus
  mastering, is left alone.\<close>

theorem ring_setup_write_set:
  assumes "run_state (configure (logged d) rings) (x, s, []) = (ok, x', s', done)"
    and "run_state (rs_restore (logged d)) (x', s', []) = (ok', x'', s'', undone)"
  shows "set done \<subseteq> setup_writes \<and> set undone \<subseteq> setup_writes \<and> (\<forall>c. Ev_command c \<notin> set done \<union> set undone)"
proof -
  have "frames setup_writes (configure (logged d) rings)" "frames setup_writes (rs_restore (logged d))" by (rule configure_frames)+
  then have "set done \<subseteq> setup_writes \<and> set undone \<subseteq> setup_writes"
    unfolding frames_def log_of_def using assms by (metis append_Nil2 snd_conv)
  then show ?thesis by (auto simp: setup_writes_def)
qed

definition sample_rings :: "RingMemory list" where
  "sample_rings = map (\<lambda>i. \<lparr>rm_address = of_nat (4096 * (i + 1)), rm_count = 64\<rparr>) [0..<9]"

theorem ring_setup_write_set_witness:
  "\<exists>ok x s done. run_state (configure (logged register_file) sample_rings) (PciRingSetup0, regs0, []) = (ok, x, s, done) \<and>
     set done \<subseteq> setup_writes"
proof -
  obtain ok x s dn where r: "run_state (configure (logged register_file) sample_rings) (PciRingSetup0, regs0, []) = (ok, x, s, dn)"
    by (metis prod_cases4)
  obtain ok' x' s' un where u: "run_state (rs_restore (logged register_file)) (x, s, []) = (ok', x', s', un)"
    by (metis prod_cases4)
  show ?thesis using ring_setup_write_set [OF r u] r by auto
qed

section \<open>Doorbells and the stop\<close>

lemma wp_logged [simp]:
  "wp (dcall (log_read f)) Q (x, s, l) = Q (fst (f s)) (x, snd (f s), l)"
  "wp (dcall (log_do e f)) Q (x, s, l) = Q (fst (f s)) (x, snd (f s), e # l)"
  by (simp_all add: wp_dcall log_read_def log_do_def split_beta Let_def)

lemma logged_write16: "dv_write16 (logged d) a v = log_do (Ev_write16 a v) (dv_write16 d a v)"
  and logged_barrier: "dv_barrier (logged d) (s, l) = (dv_barrier d s, Ev_barrier # l)"
  by (simp_all add: logged_def)

lemma run_wp: "run_state m t = (a, t') \<Longrightarrow> wp m Q t \<Longrightarrow> Q a t'"
  by (simp add: wp_def)

lemma wp_run: "wp m (\<lambda>a t'. run_state m t = (a, t')) t"
  by (simp add: wp_def split: prod.split)

lemma fail_wp [wp_simps]:
  "wp (rt_fail a e v) Q (x, t) = Q False ((if ru_failureAddress x = 0 then x\<lparr>rt_faulted := True, ru_failureAddress := a, ru_expected := e, ru_actual := v\<rparr>
     else x\<lparr>rt_faulted := True\<rparr>), t)"
  by (simp add: rt_fail_def wp_simps)

lemma readIndices_rule:
  assumes "\<And>y z h w. Q (False, h, w) (y, z, l)"
    and "\<And>z w. rt_host x ! ring < 64 \<Longrightarrow> w < 64 \<Longrightarrow> Q (True, rt_host x ! ring, w) (x, z, l)"
  shows "wp (readIndices (logged d) ring) Q (x, s, l)"
  using assms by (auto simp: readIndices_def wp_simps Let_def not_le)

lemma publish_wp:
  "wp (rt_publish (logged d) ring next) (\<lambda>a (y, z, l'). l' = l \<or>
    l' = [Ev_write16 (rg_index (ringRegisters ! ring)) next, Ev_barrier] @ l \<and> rt_runs x \<and> ring < 9 \<and> next < 64 \<and>
    rt_host x ! ring < 64 \<and> (ring < 7 \<longrightarrow> (unat next + 64 - unat (rt_host x ! ring)) mod 64 = 1)) (x, s, l)"
proof (cases "\<not> rt_runs x \<or> 9 \<le> ring \<or> 64 \<le> next")
  case True
  then show ?thesis by (simp add: rt_publish_def wp_simps)
next
  case False
  then have g: "rt_runs x" "ring < 9" "next < 64" by auto
  show ?thesis unfolding rt_publish_def wp_rules wp_obj if_not_P [OF False]
    by (rule readIndices_rule)
      (simp_all add: g wp_simps wp_dcall(2) Let_def not_le logged_barrier logged_write16)
qed

text \<open>A doorbell is rung only for a running engine, a known ring and an index in the ring,
  with the data behind a barrier, and it writes the host half of that ring's index register once. On a
  transmit ring it advances the host index known to the driver by exactly one.\<close>

theorem publish_doorbell:
  assumes "run_state (rt_publish (logged d) ring next) (x, s, l) = (ok, x', s', l')" and "l' \<noteq> l"
  shows "l' = [Ev_write16 (rg_index (ringRegisters ! ring)) next, Ev_barrier] @ l \<and> rt_runs x \<and> ring < 9 \<and> next < 64 \<and>
    (ring < 7 \<longrightarrow> unat next = (unat (rt_host x ! ring) + 1) mod 64)"
proof (intro conjI impI)
  let ?e = "[Ev_write16 (rg_index (ringRegisters ! ring)) next, Ev_barrier]"
  have q: "l' = ?e @ l" "rt_runs x" "ring < 9" "next < 64" "rt_host x ! ring < 64"
    "ring < 7 \<Longrightarrow> (unat next + 64 - unat (rt_host x ! ring)) mod 64 = 1"
    using run_wp [OF assms(1) publish_wp [where x = x]] assms(2) by auto
  then show "l' = ?e @ l" "rt_runs x" "ring < 9" "next < 64" by blast+
  have mod64: "n = (h + 1) mod 64" if "n < 64" "h < 64" "(n + 64 - h) mod 64 = (1 :: nat)" for n h :: nat
  proof (cases "h \<le> n")
    case True
    then have "(n + 64 - h) mod 64 = n - h" using that(1) by (simp add: mod_if)
    then have "n = h + 1" using that(3) True by linarith
    then show ?thesis using that(1) by simp
  next
    case False
    then have "(n + 64 - h) mod 64 = n + 64 - h" by simp
    then have "h = 63" "n = 0" using that False by linarith+
    then show ?thesis by simp
  qed
  show "unat next = (unat (rt_host x ! ring) + 1) mod 64" if "ring < 7"
    using q(4,5) q(6) [OF that] by (intro mod64) (simp_all add: word_less_nat_alt)
qed

definition running_sample :: PciRuntime where
  "running_sample = PciRuntime0\<lparr>rt_running := True\<rparr>"

theorem publish_doorbell_witness:
  "\<exists>x s. run_state (rt_publish (logged register_file) 0 1) (running_sample, regs0, []) =
     (True, x, s, [Ev_write16 0x1058 1, Ev_barrier])"
proof -
  have "fst (run_state (rt_publish (logged register_file) 0 1) (running_sample, regs0, []))"
    and "snd (snd (snd (run_state (rt_publish (logged register_file) 0 1) (running_sample, regs0, [])))) \<noteq> []"
    by code_simp+
  then obtain x s l where r: "run_state (rt_publish (logged register_file) 0 1) (running_sample, regs0, []) = (True, x, s, l)" "l \<noteq> []"
    by (metis prod_cases4 fst_conv snd_conv)
  have "rg_index (ringRegisters ! 0) = 0x1058" by (simp add: ringRegisters_def ring_register_def)
  then show ?thesis using publish_doorbell [OF r] r(1) by simp
qed

text \<open>Steps that do not touch the running flag and only add to the log.\<close>

definition steady :: "(PciRuntime \<times> 's \<times> dev_event list, 'a) state \<Rightarrow> bool" where
  "steady m \<longleftrightarrow> (\<forall>x s l. wp m (\<lambda>a (y, z, l'). rt_running y = rt_running x \<and> set l \<subseteq> set l') (x, s, l))"

lemma wp_steady:
  assumes "steady m" and "\<And>a y z l'. rt_running y = rt_running x \<Longrightarrow> set l \<subseteq> set l' \<Longrightarrow> Q a (y, z, l')"
  shows "wp m Q (x, s, l)"
  by (rule wp_mono [OF assms(1) [unfolded steady_def, rule_format]]) (use assms(2) in auto)

lemma steady_bind: "steady m \<Longrightarrow> (\<And>a. steady (f a)) \<Longrightarrow> steady (State_Monad.bind m f)"
  unfolding steady_def wp_rules by (blast intro: wp_mono)

lemma steady_simple:
  "steady (ret a)" "steady (dcall (log_read f))" "steady (dcall (log_do e f))" "steady (pauseUs (logged d) t)"
  "steady (ogets g)" "(\<And>x. rt_running (h x) = rt_running x) \<Longrightarrow> steady (omod h)"
  "(b \<Longrightarrow> steady m) \<Longrightarrow> (\<not> b \<Longrightarrow> steady n) \<Longrightarrow> steady (if b then m else n)"
  by (auto simp: steady_def wp_simps wp_dcall logged_def log_read_def log_do_def split_beta Let_def)

lemma steady_logic: "steady m \<Longrightarrow> steady n \<Longrightarrow> steady (andM m n)" "steady m \<Longrightarrow> steady n \<Longrightarrow> steady (orM m n)"
  unfolding andM_def orM_def by (auto intro!: steady_bind steady_simple)

lemma logged_writes: "dv_write32 (logged d) a v = log_do (Ev_write32 a v) (dv_write32 d a v)"
  "dv_writeCommand (logged d) c = log_do (Ev_command c) (dv_writeCommand d c)"
  by (simp_all add: logged_def)

lemmas steady_rules = steady_bind steady_simple steady_logic

lemma steady_rt:
  "steady (rt_fail a e v)" "steady (rt_equal (logged d) a m e)" "steady (rt_write (logged d) a v)"
  "steady (rt_modify (logged d) a m v)" "steady (rt_command (logged d) c)"
  by (auto simp: rt_fail_def rt_equal_def rt_write_def rt_modify_def rt_command_def logged_writes intro!: steady_rules split: if_splits)

lemma steady_poll: "steady (rt_poll (logged d) begin n previous)"
  by (induction n arbitrary: previous) (auto intro!: steady_rules)

definition masked_events :: "dev_event list" where
  "masked_events = [Ev_write32 0x13b0 0, Ev_write32 0x10b0 0, Ev_write32 0x1a0 0]"

lemma equal_rule:
  assumes "\<And>b y z. rt_running y = rt_running x \<Longrightarrow> ru_masterOff y = ru_masterOff x \<Longrightarrow> Q b (y, z, l)"
  shows "wp (rt_equal (logged d) a m e) Q (x, s, l)"
  using assms by (simp add: rt_equal_def wp_simps)

lemma write_rule:
  assumes "\<And>b y z. rt_running y = rt_running x \<Longrightarrow> ru_masterOff y = ru_masterOff x \<Longrightarrow> Q b (y, z, Ev_write32 a v # l)"
  shows "wp (rt_write (logged d) a v) Q (x, s, l)"
  using assms by (simp add: rt_write_def wp_simps logged_writes)

lemma mask_rule:
  assumes "\<And>b y z. rt_running y = rt_running x \<Longrightarrow> ru_masterOff y = ru_masterOff x \<Longrightarrow> Q b (y, z, masked_events @ l)"
  shows "wp (maskInterrupts (logged d)) Q (x, s, l)"
  unfolding maskInterrupts_def irqMasks_def eachM.simps wp_rules
  by (rule write_rule equal_rule | simp add: wp_simps)+
    (use assms in \<open>simp add: masked_events_def\<close>)

text \<open>A command register value without the bus master bit has been written.\<close>

definition master_cut :: "dev_event list \<Rightarrow> bool" where
  "master_cut l \<longleftrightarrow> (\<exists>c. Ev_command c \<in> set l \<and> c AND 4 = 0)"

lemma clear_bit: "master_cut (Ev_command (c AND NOT 4) # l)"
  unfolding master_cut_def by (rule exI [of _ "c AND NOT 4"]) (simp add: and.assoc)

lemma master_off_rule:
  assumes "\<And>y z l'. rt_running y = rt_running x \<Longrightarrow> (ru_masterOff y \<Longrightarrow> master_cut l') \<Longrightarrow> Q (ru_masterOff y) (y, z, l')"
  shows "wp (rt_master_off (logged d)) Q (x, s, l)"
proof -
  have m: "wp (rt_command (logged d) (cmd AND NOT 4)) R (y, z, l)"
    if "\<And>b y' z. rt_running y' = rt_running y \<Longrightarrow> R b (y', z, Ev_command (cmd AND NOT 4) # l)" for cmd R y z
    using that by (simp add: rt_command_def wp_simps logged_writes)
  let ?c = "fst (dv_command d s)" and ?s = "snd (dv_command d s)"
  let ?m = "if ?c = 0xffff then ret False
    else andM (rt_command (logged d) (?c AND NOT 4)) (do { c \<leftarrow> readCommand (logged d); ret (c AND 4 = 0) })"
  have q: "wp ?m (\<lambda>off (y, z, l'). rt_running y = rt_running x \<and> (off \<longrightarrow> master_cut l')) (x, ?s, l)"
  proof (cases "?c = 0xffff")
    case True
    then show ?thesis by (simp add: wp_simps)
  next
    case False
    show ?thesis unfolding if_not_P [OF False] wp_rules(4)
    proof (rule m)
      fix b z and y' :: PciRuntime
      assume "rt_running y' = rt_running x"
      then show "(if b then wp (do { c \<leftarrow> readCommand (logged d); ret (c AND 4 = 0) })
          (\<lambda>off (y, z, l'). rt_running y = rt_running x \<and> (off \<longrightarrow> master_cut l'))
        else (\<lambda>(y, z, l'). rt_running y = rt_running x \<and> (False \<longrightarrow> master_cut l'))) (y', z, Ev_command (?c AND NOT 4) # l)"
        using clear_bit by (cases b) (simp_all add: wp_rules)
    qed
  qed
  have "wp (do { off \<leftarrow> ?m; omod (\<lambda>x. x\<lparr>ru_masterOff := off\<rparr>); ret off }) Q (x, ?s, l)"
    unfolding wp_rules(2)
  proof (rule wp_mono [OF q])
    fix off and t :: "PciRuntime \<times> 'a \<times> dev_event list"
    assume "case t of (y, z, l') \<Rightarrow> rt_running y = rt_running x \<and> (off \<longrightarrow> master_cut l')"
    then show "wp (omod (\<lambda>x. x\<lparr>ru_masterOff := off\<rparr>)) (\<lambda>_. wp (ret off) Q) t"
      using assms [of "fst t\<lparr>ru_masterOff := off\<rparr>" "snd (snd t)" "fst (snd t)"] by (cases t) (simp add: wp_simps)
  qed
  then show ?thesis unfolding rt_master_off_def wp_rules(2) logged_simps wp_logged .
qed

lemma two_equal_rule:
  assumes "\<And>b y z. rt_running y = rt_running x \<Longrightarrow> ru_masterOff y = ru_masterOff x \<Longrightarrow> Q b (y, z, l)"
  shows "wp (andM (rt_equal (logged d) a m e) (rt_equal (logged d) a' m' e')) Q (x, s, l)"
  unfolding wp_rules(4)
proof (rule equal_rule)
  fix b z and y :: PciRuntime
  assume y: "rt_running y = rt_running x" "ru_masterOff y = ru_masterOff x"
  have "wp (rt_equal (logged d) a' m' e') Q (y, z, l)" by (rule equal_rule) (use assms y in auto)
  then show "(if b then wp (rt_equal (logged d) a' m' e') Q else Q False) (y, z, l)" using assms y by simp
qed

lemma stopped_rule:
  assumes "\<not> rt_running x" and "ru_masterOff x \<Longrightarrow> master_cut l"
  shows "wp (rt_stopped (logged d) ok) (\<lambda>b (y, z, k). (\<exists>rest. k = masked_events @ rest) \<and> \<not> rt_running y \<and> ru_stopped y = b \<and>
    (\<not> b \<longrightarrow> rt_faulted y) \<and> (b \<longrightarrow> master_cut k)) (x, s, l)"
proof -
  have fin: "wp (maskInterrupts (logged d)) (\<lambda>f. wp (do {
       stopped \<leftarrow> ogets (\<lambda>x. f \<and> e \<and> ok \<and> ru_idle x \<and> ru_masterOff x \<and> ru_irqMasked x);
       omod (\<lambda>x. x\<lparr>ru_stopped := stopped, rt_faulted := rt_faulted x \<or> \<not> stopped\<rparr>);
       ret stopped }) (\<lambda>b (y, z, k). (\<exists>rest. k = masked_events @ rest) \<and> \<not> rt_running y \<and> ru_stopped y = b \<and>
    (\<not> b \<longrightarrow> rt_faulted y) \<and> (b \<longrightarrow> master_cut k))) (y, z, l)"
    if "rt_running y = rt_running x" "ru_masterOff y = ru_masterOff x" for e y z
    by (rule mask_rule) (use that assms in \<open>auto simp: wp_simps master_cut_def\<close>)
  show ?thesis unfolding rt_stopped_def wp_rules(2)
    by (rule two_equal_rule) (rule fin [unfolded wp_rules(2)])
qed

text \<open>C19: Whatever the device answers, \<open>stop\<close> ends with the engine marked as not running and zero
  written to all three interrupt masks as the last thing; it returns the stopped flag, and when it
  returns false the runtime is faulted. It reports success only after writing a command register value
  without the bus master bit.\<close>

theorem stop_contains_dma:
  assumes "run_state (rt_stop (logged d)) (x, s, l) = (ok, x', s', l')"
  shows "(\<exists>rest. l' = masked_events @ rest) \<and> \<not> rt_running x' \<and> ru_stopped x' = ok \<and> (\<not> ok \<longrightarrow> rt_faulted x') \<and>
    (ok \<longrightarrow> (\<exists>c. Ev_command c \<in> set l' \<and> c AND 4 = 0))"
proof -
  have "wp (rt_stop (logged d)) (\<lambda>b (y, z, k). (\<exists>rest. k = masked_events @ rest) \<and> \<not> rt_running y \<and> ru_stopped y = b \<and>
    (\<not> b \<longrightarrow> rt_faulted y) \<and> (b \<longrightarrow> master_cut k)) (x, s, l)"
    unfolding rt_stop_def wp_rules(2) wp_obj
    by (rule mask_rule, rule wp_steady [OF steady_rt(4)], rule wp_steady [OF steady_rt(4)], simp only: logged_simps wp_logged wp_obj,
        rule wp_steady [OF steady_poll], rule master_off_rule, rule stopped_rule) simp_all
  from run_wp [OF assms this] show ?thesis by (auto simp: master_cut_def)
qed

theorem stop_contains_dma_witness:
  "\<exists>ok x s l. run_state (rt_stop (logged register_file)) (running_sample, regs0, []) = (ok, x, s, l) \<and>
     \<not> rt_running x \<and> (\<exists>rest. l = masked_events @ rest)"
proof -
  obtain ok x s l where r: "run_state (rt_stop (logged register_file)) (running_sample, regs0, []) = (ok, x, s, l)" by (metis prod_cases4)
  show ?thesis using stop_contains_dma [OF r] r by auto
qed

end
