(* ===== verification/PowerConstants.thy ===== *)
theory PowerConstants
  imports Prelude
begin

text \<open>The register addresses, bits and fields of \<open>src/network/Rtw8852bDevicePowerConstants.hpp\<close> that the power sequences use. The
  offsets and bits of the crystal serial port are bytes.\<close>

definition reg_bit :: "nat \<Rightarrow> 'a :: len word" where
  "reg_bit n = push_bit n 1"

definition reg_mask :: "nat \<Rightarrow> nat \<Rightarrow> 'a :: len word" where
  "reg_mask hi lo = ucast (drop_bit (31 - hi) (0xffffffff :: u32) AND push_bit lo 0xffffffff)"

text \<open>The source does not return for a zero mask; no caller has one.\<close>

function reg_shift :: "u32 \<Rightarrow> nat" where
  "reg_shift m = (if m = 0 \<or> bit m 0 then 0 else 1 + reg_shift (drop_bit 1 m))"
  by pat_completeness auto
termination
proof (relation "measure unat")
  fix m :: u32 assume "\<not> (m = 0 \<or> bit m 0)"
  then have "0 < unat m" by (simp add: unat_gt_0)
  then show "(drop_bit 1 m, m) \<in> measure unat" by (simp add: drop_bit_eq_div unat_div)
qed simp

declare reg_shift.simps [simp del]

definition XTAL_SI_XTAL_XMD_2 :: u8 where "XTAL_SI_XTAL_XMD_2 = 0x24"
definition XTAL_SI_XTAL_XMD_4 :: u8 where "XTAL_SI_XTAL_XMD_4 = 0x26"
definition XTAL_SI_WL_RFC_S0 :: u8 where "XTAL_SI_WL_RFC_S0 = 0x80"
definition XTAL_SI_WL_RFC_S1 :: u8 where "XTAL_SI_WL_RFC_S1 = 0x81"
definition XTAL_SI_ANAPAR_WL :: u8 where "XTAL_SI_ANAPAR_WL = 0x90"
definition XTAL_SI_SRAM_CTRL :: u8 where "XTAL_SI_SRAM_CTRL = 0xa1"
definition R_AX_SPS_ANA_ON_CTRL2 :: u32 where "R_AX_SPS_ANA_ON_CTRL2 = 0x228"
definition RTL8852B_RFE_05_SPS_ANA :: u32 where "RTL8852B_RFE_05_SPS_ANA = 0x4a82"
definition R_AX_SYS_PW_CTRL :: u32 where "R_AX_SYS_PW_CTRL = 0x4"
definition B_AX_AFSM_WLSUS_EN :: u32 where "B_AX_AFSM_WLSUS_EN = reg_bit 11"
definition B_AX_AFSM_PCIE_SUS_EN :: u32 where "B_AX_AFSM_PCIE_SUS_EN = reg_bit 12"
definition B_AX_DIS_WLBT_PDNSUSEN_SOPC :: u32 where "B_AX_DIS_WLBT_PDNSUSEN_SOPC = reg_bit 18"
definition R_AX_WLLPS_CTRL :: u32 where "R_AX_WLLPS_CTRL = 0x90"
definition B_AX_DIS_WLBT_LPSEN_LOPC :: u32 where "B_AX_DIS_WLBT_LPSEN_LOPC = reg_bit 1"
definition B_AX_APDM_HPDN :: u32 where "B_AX_APDM_HPDN = reg_bit 15"
definition B_AX_APFM_SWLPS :: u32 where "B_AX_APFM_SWLPS = reg_bit 10"
definition B_AX_RDY_SYSPWR :: u32 where "B_AX_RDY_SYSPWR = reg_bit 17"
definition R_AX_AFE_LDO_CTRL :: u32 where "R_AX_AFE_LDO_CTRL = 0x20"
definition B_AX_AON_OFF_PC_EN :: u32 where "B_AX_AON_OFF_PC_EN = reg_bit 23"
definition R_AX_SPS_DIG_OFF_CTRL0 :: u32 where "R_AX_SPS_DIG_OFF_CTRL0 = 0x400"
definition B_AX_C1_L1_MASK :: u32 where "B_AX_C1_L1_MASK = reg_mask 1 0"
definition B_AX_C3_L1_MASK :: u32 where "B_AX_C3_L1_MASK = reg_mask 5 4"
definition B_AX_EN_WLON :: u32 where "B_AX_EN_WLON = reg_bit 16"
definition B_AX_APFN_ONMAC :: u32 where "B_AX_APFN_ONMAC = reg_bit 8"
definition R_AX_PLATFORM_ENABLE :: u32 where "R_AX_PLATFORM_ENABLE = 0x88"
definition B_AX_PLATFORM_EN :: u32 where "B_AX_PLATFORM_EN = reg_bit 0"
definition R_AX_SYS_SDIO_CTRL :: u32 where "R_AX_SYS_SDIO_CTRL = 0x70"
definition B_AX_PCIE_CALIB_EN_V1 :: u32 where "B_AX_PCIE_CALIB_EN_V1 = reg_bit 12"
definition R_AX_SYS_ADIE_PAD_PWR_CTRL :: u32 where "R_AX_SYS_ADIE_PAD_PWR_CTRL = 0x18"
definition B_AX_SYM_PADPDN_WL_PTA_1P3 :: u32 where "B_AX_SYM_PADPDN_WL_PTA_1P3 = reg_bit 6"
definition XTAL_SI_GND_SHDN_WL :: u8 where "XTAL_SI_GND_SHDN_WL = reg_bit 6"
definition B_AX_SYM_PADPDN_WL_RFC_1P3 :: u32 where "B_AX_SYM_PADPDN_WL_RFC_1P3 = reg_bit 5"
definition XTAL_SI_SHDN_WL :: u8 where "XTAL_SI_SHDN_WL = reg_bit 5"
definition XTAL_SI_OFF_WEI :: u8 where "XTAL_SI_OFF_WEI = reg_bit 2"
definition XTAL_SI_OFF_EI :: u8 where "XTAL_SI_OFF_EI = reg_bit 3"
definition XTAL_SI_RFC2RF :: u8 where "XTAL_SI_RFC2RF = reg_bit 4"
definition XTAL_SI_PON_WEI :: u8 where "XTAL_SI_PON_WEI = reg_bit 0"
definition XTAL_SI_PON_EI :: u8 where "XTAL_SI_PON_EI = reg_bit 1"
definition XTAL_SI_SRAM2RFC :: u8 where "XTAL_SI_SRAM2RFC = reg_bit 7"
definition XTAL_SI_SRAM_DIS :: u8 where "XTAL_SI_SRAM_DIS = reg_bit 1"
definition XTAL_SI_LDO_LPS :: u8 where "XTAL_SI_LDO_LPS = reg_mask 6 4"
definition XTAL_SI_LPS_CAP :: u8 where "XTAL_SI_LPS_CAP = reg_mask 3 0"
definition R_AX_PMC_DBG_CTRL2 :: u32 where "R_AX_PMC_DBG_CTRL2 = 0xcc"
definition B_AX_SYSON_DIS_PMCR_AX_WRMSK :: u32 where "B_AX_SYSON_DIS_PMCR_AX_WRMSK = reg_bit 2"
definition R_AX_SYS_ISO_CTRL :: u32 where "R_AX_SYS_ISO_CTRL = 0x0"
definition B_AX_ISO_EB2CORE :: u32 where "B_AX_ISO_EB2CORE = reg_bit 8"
definition B_AX_PWC_EV2EF_B15 :: u32 where "B_AX_PWC_EV2EF_B15 = reg_bit 15"
definition B_AX_PWC_EV2EF_B14 :: u32 where "B_AX_PWC_EV2EF_B14 = reg_bit 14"
definition R_AX_SPS_DIG_ON_CTRL0 :: u32 where "R_AX_SPS_DIG_ON_CTRL0 = 0x200"
definition B_AX_VOL_L1_MASK :: u32 where "B_AX_VOL_L1_MASK = reg_mask 3 0"
definition B_AX_VREFPFM_L_MASK :: u32 where "B_AX_VREFPFM_L_MASK = reg_mask 25 22"
definition R_AX_HCI_LDO_CTRL :: u32 where "R_AX_HCI_LDO_CTRL = 0x7a"
definition B_AX_R_AX_VADJ_MASK :: u32 where "B_AX_R_AX_VADJ_MASK = reg_mask 3 0"
definition R_AX_DMAC_FUNC_EN :: u32 where "R_AX_DMAC_FUNC_EN = 0x8400"
definition B_AX_MAC_FUNC_EN :: u32 where "B_AX_MAC_FUNC_EN = reg_bit 30"
definition B_AX_DMAC_FUNC_EN :: u32 where "B_AX_DMAC_FUNC_EN = reg_bit 29"
definition B_AX_MPDU_PROC_EN :: u32 where "B_AX_MPDU_PROC_EN = reg_bit 28"
definition B_AX_WD_RLS_EN :: u32 where "B_AX_WD_RLS_EN = reg_bit 27"
definition B_AX_DLE_WDE_EN :: u32 where "B_AX_DLE_WDE_EN = reg_bit 26"
definition B_AX_TXPKT_CTRL_EN :: u32 where "B_AX_TXPKT_CTRL_EN = reg_bit 25"
definition B_AX_STA_SCH_EN :: u32 where "B_AX_STA_SCH_EN = reg_bit 24"
definition B_AX_DLE_PLE_EN :: u32 where "B_AX_DLE_PLE_EN = reg_bit 23"
definition B_AX_PKT_BUF_EN :: u32 where "B_AX_PKT_BUF_EN = reg_bit 22"
definition B_AX_DMAC_TBL_EN :: u32 where "B_AX_DMAC_TBL_EN = reg_bit 21"
definition B_AX_PKT_IN_EN :: u32 where "B_AX_PKT_IN_EN = reg_bit 20"
definition B_AX_DLE_CPUIO_EN :: u32 where "B_AX_DLE_CPUIO_EN = reg_bit 19"
definition B_AX_DISPATCHER_EN :: u32 where "B_AX_DISPATCHER_EN = reg_bit 18"
definition B_AX_BBRPT_EN :: u32 where "B_AX_BBRPT_EN = reg_bit 17"
definition B_AX_MAC_SEC_EN :: u32 where "B_AX_MAC_SEC_EN = reg_bit 16"
definition B_AX_DMACREG_GCKEN :: u32 where "B_AX_DMACREG_GCKEN = reg_bit 15"
definition R_AX_CMAC_FUNC_EN :: u32 where "R_AX_CMAC_FUNC_EN = 0xc000"
definition B_AX_CMAC_EN :: u32 where "B_AX_CMAC_EN = reg_bit 30"
definition B_AX_CMAC_TXEN :: u32 where "B_AX_CMAC_TXEN = reg_bit 29"
definition B_AX_CMAC_RXEN :: u32 where "B_AX_CMAC_RXEN = reg_bit 28"
definition B_AX_FORCE_CMACREG_GCKEN :: u32 where "B_AX_FORCE_CMACREG_GCKEN = reg_bit 15"
definition B_AX_PHYINTF_EN :: u32 where "B_AX_PHYINTF_EN = reg_bit 5"
definition B_AX_CMAC_DMA_EN :: u32 where "B_AX_CMAC_DMA_EN = reg_bit 4"
definition B_AX_PTCLTOP_EN :: u32 where "B_AX_PTCLTOP_EN = reg_bit 3"
definition B_AX_SCHEDULER_EN :: u32 where "B_AX_SCHEDULER_EN = reg_bit 2"
definition B_AX_TMAC_EN :: u32 where "B_AX_TMAC_EN = reg_bit 1"
definition B_AX_RMAC_EN :: u32 where "B_AX_RMAC_EN = reg_bit 0"
definition R_AX_EECS_EESK_FUNC_SEL :: u32 where "R_AX_EECS_EESK_FUNC_SEL = 0x2d8"
definition B_AX_PINMUX_EESK_FUNC_SEL_MASK :: u32 where "B_AX_PINMUX_EESK_FUNC_SEL_MASK = reg_mask 7 4"
definition PINMUX_EESK_FUNC_SEL_BT_LOG :: u32 where "PINMUX_EESK_FUNC_SEL_BT_LOG = 0x1"
definition XTAL_SI_RF00 :: u8 where "XTAL_SI_RF00 = reg_bit 0"
definition XTAL_SI_RF10 :: u8 where "XTAL_SI_RF10 = reg_bit 0"
definition R_AX_WLRF_CTRL :: u32 where "R_AX_WLRF_CTRL = 0x2f0"
definition B_AX_AFC_AFEDIG :: u32 where "B_AX_AFC_AFEDIG = reg_bit 17"
definition R_AX_SYS_FUNC_EN :: u32 where "R_AX_SYS_FUNC_EN = 0x2"
definition B_AX_FEN_BB_GLB_RSTN :: u32 where "B_AX_FEN_BB_GLB_RSTN = reg_bit 1"
definition B_AX_FEN_BBRSTB :: u32 where "B_AX_FEN_BBRSTB = reg_bit 0"
definition B_AX_APFM_OFFMAC :: u32 where "B_AX_APFM_OFFMAC = reg_bit 9"
definition SW_LPS_OPTION :: u32 where "SW_LPS_OPTION = 0x1a0b2"
definition R_AX_SYS_SWR_CTRL1 :: u32 where "R_AX_SYS_SWR_CTRL1 = 0x10"
definition B_AX_SYM_CTRL_SPS_PWMFREQ :: u32 where "B_AX_SYM_CTRL_SPS_PWMFREQ = reg_bit 10"
definition B_AX_REG_ZCDC_H_MASK :: u32 where "B_AX_REG_ZCDC_H_MASK = reg_mask 18 17"
definition R_AX_IC_PWR_STATE :: u32 where "R_AX_IC_PWR_STATE = 0x3f0"
definition B_AX_WLMAC_PWR_STE_MASK :: u32 where "B_AX_WLMAC_PWR_STE_MASK = reg_mask 9 8"
definition R_AX_WLAN_XTAL_SI_CTRL :: u32 where "R_AX_WLAN_XTAL_SI_CTRL = 0x270"
definition B_AX_WL_XTAL_SI_CMD_POLL :: u32 where "B_AX_WL_XTAL_SI_CMD_POLL = reg_bit 31"
definition R_AX_SCOREBOARD :: u32 where "R_AX_SCOREBOARD = 0xac"
definition MAC_AX_NOTIFY_TP_MAJOR :: u32 where "MAC_AX_NOTIFY_TP_MAJOR = 0x81"
definition MAC_AX_NOTIFY_PWR_MAJOR :: u32 where "MAC_AX_NOTIFY_PWR_MAJOR = 0x80"
definition XTAL_SI_NORMAL_READ :: u32 where "XTAL_SI_NORMAL_READ = 0x1"
definition XTAL_SI_NORMAL_WRITE :: u32 where "XTAL_SI_NORMAL_WRITE = 0x0"

lemmas power_consts = reg_bit_def reg_mask_def
  XTAL_SI_XTAL_XMD_2_def XTAL_SI_XTAL_XMD_4_def XTAL_SI_WL_RFC_S0_def XTAL_SI_WL_RFC_S1_def XTAL_SI_ANAPAR_WL_def
  XTAL_SI_SRAM_CTRL_def R_AX_SPS_ANA_ON_CTRL2_def RTL8852B_RFE_05_SPS_ANA_def R_AX_SYS_PW_CTRL_def
  B_AX_AFSM_WLSUS_EN_def B_AX_AFSM_PCIE_SUS_EN_def B_AX_DIS_WLBT_PDNSUSEN_SOPC_def R_AX_WLLPS_CTRL_def
  B_AX_DIS_WLBT_LPSEN_LOPC_def B_AX_APDM_HPDN_def B_AX_APFM_SWLPS_def B_AX_RDY_SYSPWR_def R_AX_AFE_LDO_CTRL_def
  B_AX_AON_OFF_PC_EN_def R_AX_SPS_DIG_OFF_CTRL0_def B_AX_C1_L1_MASK_def B_AX_C3_L1_MASK_def B_AX_EN_WLON_def
  B_AX_APFN_ONMAC_def R_AX_PLATFORM_ENABLE_def B_AX_PLATFORM_EN_def R_AX_SYS_SDIO_CTRL_def B_AX_PCIE_CALIB_EN_V1_def
  R_AX_SYS_ADIE_PAD_PWR_CTRL_def B_AX_SYM_PADPDN_WL_PTA_1P3_def XTAL_SI_GND_SHDN_WL_def B_AX_SYM_PADPDN_WL_RFC_1P3_def
  XTAL_SI_SHDN_WL_def XTAL_SI_OFF_WEI_def XTAL_SI_OFF_EI_def XTAL_SI_RFC2RF_def XTAL_SI_PON_WEI_def XTAL_SI_PON_EI_def
  XTAL_SI_SRAM2RFC_def XTAL_SI_SRAM_DIS_def XTAL_SI_LDO_LPS_def XTAL_SI_LPS_CAP_def R_AX_PMC_DBG_CTRL2_def
  B_AX_SYSON_DIS_PMCR_AX_WRMSK_def R_AX_SYS_ISO_CTRL_def B_AX_ISO_EB2CORE_def B_AX_PWC_EV2EF_B15_def
  B_AX_PWC_EV2EF_B14_def R_AX_SPS_DIG_ON_CTRL0_def B_AX_VOL_L1_MASK_def B_AX_VREFPFM_L_MASK_def R_AX_HCI_LDO_CTRL_def
  B_AX_R_AX_VADJ_MASK_def R_AX_DMAC_FUNC_EN_def B_AX_MAC_FUNC_EN_def B_AX_DMAC_FUNC_EN_def B_AX_MPDU_PROC_EN_def
  B_AX_WD_RLS_EN_def B_AX_DLE_WDE_EN_def B_AX_TXPKT_CTRL_EN_def B_AX_STA_SCH_EN_def B_AX_DLE_PLE_EN_def
  B_AX_PKT_BUF_EN_def B_AX_DMAC_TBL_EN_def B_AX_PKT_IN_EN_def B_AX_DLE_CPUIO_EN_def B_AX_DISPATCHER_EN_def
  B_AX_BBRPT_EN_def B_AX_MAC_SEC_EN_def B_AX_DMACREG_GCKEN_def R_AX_CMAC_FUNC_EN_def B_AX_CMAC_EN_def
  B_AX_CMAC_TXEN_def B_AX_CMAC_RXEN_def B_AX_FORCE_CMACREG_GCKEN_def B_AX_PHYINTF_EN_def B_AX_CMAC_DMA_EN_def
  B_AX_PTCLTOP_EN_def B_AX_SCHEDULER_EN_def B_AX_TMAC_EN_def B_AX_RMAC_EN_def R_AX_EECS_EESK_FUNC_SEL_def
  B_AX_PINMUX_EESK_FUNC_SEL_MASK_def PINMUX_EESK_FUNC_SEL_BT_LOG_def XTAL_SI_RF00_def XTAL_SI_RF10_def
  R_AX_WLRF_CTRL_def B_AX_AFC_AFEDIG_def R_AX_SYS_FUNC_EN_def B_AX_FEN_BB_GLB_RSTN_def B_AX_FEN_BBRSTB_def
  B_AX_APFM_OFFMAC_def SW_LPS_OPTION_def R_AX_SYS_SWR_CTRL1_def B_AX_SYM_CTRL_SPS_PWMFREQ_def B_AX_REG_ZCDC_H_MASK_def
  R_AX_IC_PWR_STATE_def B_AX_WLMAC_PWR_STE_MASK_def R_AX_WLAN_XTAL_SI_CTRL_def B_AX_WL_XTAL_SI_CMD_POLL_def
  R_AX_SCOREBOARD_def MAC_AX_NOTIFY_TP_MAJOR_def MAC_AX_NOTIFY_PWR_MAJOR_def XTAL_SI_NORMAL_READ_def
  XTAL_SI_NORMAL_WRITE_def

end
