(* ===== verification/DeviceIo.thy ===== *)
theory DeviceIo
  imports DeviceMonad
begin

text \<open>The guarded register interface of the initialisation components: every access reports whether it
  succeeded, every operation may change the device. Components latch their first error and then stop touching the
  device; the locale \<open>fail_stop\<close> states that contract once.\<close>

section \<open>The interface\<close>

text \<open>A read gives whether it succeeded and what it left in the output variable.\<close>

record 's Io =
  io_inGate :: "'s \<Rightarrow> bool \<times> 's"
  io_cancelled :: "'s \<Rightarrow> bool \<times> 's"
  io_command :: "'s \<Rightarrow> u16 \<times> 's"
  io_nowUs :: "'s \<Rightarrow> u64 \<times> 's"
  io_delayUs :: "u32 \<Rightarrow> 's \<Rightarrow> bool \<times> 's"
  io_read8 :: "u32 \<Rightarrow> 's \<Rightarrow> (bool \<times> u8) \<times> 's"
  io_read16 :: "u32 \<Rightarrow> 's \<Rightarrow> (bool \<times> u16) \<times> 's"
  io_read32 :: "u32 \<Rightarrow> 's \<Rightarrow> (bool \<times> u32) \<times> 's"
  io_write8 :: "u32 \<Rightarrow> u8 \<Rightarrow> 's \<Rightarrow> bool \<times> 's"
  io_write16 :: "u32 \<Rightarrow> u16 \<Rightarrow> 's \<Rightarrow> bool \<times> 's"
  io_write32 :: "u32 \<Rightarrow> u32 \<Rightarrow> 's \<Rightarrow> bool \<times> 's"
  io_readConfig8 :: "u16 \<Rightarrow> 's \<Rightarrow> (bool \<times> u8) \<times> 's"
  io_writeConfig8 :: "u16 \<Rightarrow> u8 \<Rightarrow> 's \<Rightarrow> bool \<times> 's"

text \<open>\<open>if (!a(v)) return false; b(v)\<close>; \<open>if (a) return b;\<close> with a value; and \<open>ok = a() && ok\<close>.\<close>

definition okM :: "('t, bool \<times> 'a) state \<Rightarrow> ('a \<Rightarrow> ('t, bool) state) \<Rightarrow> ('t, bool) state" where
  "okM m f = do { r \<leftarrow> m; if fst r then f (snd r) else ret False }"

definition alsoM :: "('t, bool) state \<Rightarrow> bool \<Rightarrow> ('t, bool) state" where
  "alsoM m ok = do { a \<leftarrow> m; ret (a \<and> ok) }"

lemma wp_okM [wp_simps]: "wp (okM m f) Q t = wp m (\<lambda>r. if fst r then wp (f (snd r)) Q else Q False) t"
  by (auto simp: okM_def wp_def split: prod.splits)

lemma wp_alsoM [wp_simps]: "wp (alsoM m ok) Q t = wp m (\<lambda>a. Q (a \<and> ok)) t"
  by (auto simp: alsoM_def wp_def split: prod.splits)

lemma frames_okM [frame_rules]: "frames W m \<Longrightarrow> (\<And>a. frames W (f a)) \<Longrightarrow> frames W (okM m f)"
  unfolding okM_def by (intro frame_rules)

lemma frames_alsoM [frame_rules]: "frames W m \<Longrightarrow> frames W (alsoM m ok)"
  unfolding alsoM_def by (intro frame_rules)

lemma keeps_same_also [keep_rules]: "keeps P m (\<lambda>_. P) \<Longrightarrow> keeps P (alsoM m ok) (\<lambda>_. P)"
  unfolding alsoM_def by (intro keep_rules)

lemma keeps_same_okM [keep_rules]: "keeps P m (\<lambda>_. P) \<Longrightarrow> (\<And>a. keeps P (f a) (\<lambda>_. P)) \<Longrightarrow> keeps P (okM m f) (\<lambda>_. P)"
  unfolding okM_def by (intro keep_rules)

lemma keeps_same_all [keep_rules]: "(\<And>x. x \<in> set xs \<Longrightarrow> keeps P (f x) (\<lambda>_. P)) \<Longrightarrow> keeps P (allM f xs) (\<lambda>_. P)"
  by (induction xs) (auto intro!: keep_rules)

section \<open>Logging\<close>

datatype io_event =
    Io_write8 u32 u8 | Io_write16 u32 u16 | Io_write32 u32 u32 | Io_config u16 u8 | Io_delay u32

definition io_logged :: "'s Io \<Rightarrow> ('s \<times> io_event list) Io" where
  "io_logged d = \<lparr>io_inGate = log_read (io_inGate d), io_cancelled = log_read (io_cancelled d),
     io_command = log_read (io_command d), io_nowUs = log_read (io_nowUs d),
     io_delayUs = \<lambda>t. log_do (Io_delay t) (io_delayUs d t),
     io_read8 = \<lambda>a. log_read (io_read8 d a), io_read16 = \<lambda>a. log_read (io_read16 d a),
     io_read32 = \<lambda>a. log_read (io_read32 d a),
     io_write8 = \<lambda>a v. log_do (Io_write8 a v) (io_write8 d a v),
     io_write16 = \<lambda>a v. log_do (Io_write16 a v) (io_write16 d a v),
     io_write32 = \<lambda>a v. log_do (Io_write32 a v) (io_write32 d a v),
     io_readConfig8 = \<lambda>a. log_read (io_readConfig8 d a),
     io_writeConfig8 = \<lambda>a v. log_do (Io_config a v) (io_writeConfig8 d a v)\<rparr>"

lemma io_logged_simps [simp]:
  "io_inGate (io_logged d) = log_read (io_inGate d)" "io_cancelled (io_logged d) = log_read (io_cancelled d)"
  "io_command (io_logged d) = log_read (io_command d)" "io_nowUs (io_logged d) = log_read (io_nowUs d)"
  "io_delayUs (io_logged d) t = log_do (Io_delay t) (io_delayUs d t)"
  "io_read8 (io_logged d) a = log_read (io_read8 d a)" "io_read16 (io_logged d) a = log_read (io_read16 d a)"
  "io_read32 (io_logged d) a = log_read (io_read32 d a)"
  "io_write8 (io_logged d) a v8 = log_do (Io_write8 a v8) (io_write8 d a v8)"
  "io_write16 (io_logged d) a v16 = log_do (Io_write16 a v16) (io_write16 d a v16)"
  "io_write32 (io_logged d) a v32 = log_do (Io_write32 a v32) (io_write32 d a v32)"
  "io_readConfig8 (io_logged d) c = log_read (io_readConfig8 d c)"
  "io_writeConfig8 (io_logged d) c v8 = log_do (Io_config c v8) (io_writeConfig8 d c v8)"
  by (simp_all add: io_logged_def)

lemma frames_prod [frame_rules]: "(\<And>a b. frames W (f a b)) \<Longrightarrow> frames W (case p of (a, b) \<Rightarrow> f a b)"
  by (cases p) simp

lemma frames_ddo [frame_rules]: "e \<in> W \<Longrightarrow> frames W (dcall (log_do e f))"
  by (rule frames_do)

text \<open>What a run adds to the log.\<close>

lemma frames_run_state:
  assumes "frames W m" and "run_state m (x, s, l) = (a, x', s', l')"
  shows "\<exists>new. l' = new @ l \<and> set new \<subseteq> W"
  using assms unfolding frames_def log_of_def by (metis snd_conv)

section \<open>Fail-stop components\<close>

text \<open>\<open>inert E m\<close>: started in a state whose fields satisfy \<open>E\<close>, \<open>m\<close> leaves the device as it is and the
  fields in \<open>E\<close>.\<close>

definition inert :: "('o \<Rightarrow> bool) \<Rightarrow> ('o, 's, 'a) prog \<Rightarrow> bool" where
  "inert E m \<longleftrightarrow> (\<forall>x s. E x \<longrightarrow> wp m (\<lambda>_ (y, z). E y \<and> z = s) (x, s))"

named_theorems inert_rules \<open>programs that leave the device alone after a failure\<close>

lemma inert_bind [inert_rules]:
  assumes "inert E m" and "\<And>a. inert E (f a)"
  shows "inert E (State_Monad.bind m f)"
  unfolding inert_def
proof (intro allI impI)
  fix x s assume "E x"
  then have "wp m (\<lambda>_ (y, z). E y \<and> z = s) (x, s)" using assms(1) by (simp add: inert_def)
  then have "wp m (\<lambda>a. wp (f a) (\<lambda>_ (y, z). E y \<and> z = s)) (x, s)"
    by (rule wp_mono) (use assms(2) in \<open>auto simp: inert_def\<close>)
  then show "wp (m \<bind> f) (\<lambda>_ (y, z). E y \<and> z = s) (x, s)" by (simp add: wp_rules)
qed

lemma inert_ret [inert_rules]: "inert E (ret a)"
  by (simp add: inert_def wp_simps)

lemma inert_if [inert_rules]: "(b \<Longrightarrow> inert E m) \<Longrightarrow> (\<not> b \<Longrightarrow> inert E n) \<Longrightarrow> inert E (if b then m else n)"
  by simp

lemma inert_gets [inert_rules]: "inert E (ogets g)"
  by (simp add: inert_def wp_simps)

lemma inert_mod [inert_rules]: "(\<And>x. E x \<Longrightarrow> E (h x)) \<Longrightarrow> inert E (omod h)"
  by (simp add: inert_def wp_simps)

lemma inert_logic [inert_rules]: "inert E k \<Longrightarrow> inert E l \<Longrightarrow> inert E (andM k l)"
  "inert E k \<Longrightarrow> inert E l \<Longrightarrow> inert E (orM k l)" "inert E k \<Longrightarrow> inert E (alsoM k ok)"
  unfolding andM_def orM_def alsoM_def by (intro inert_rules; assumption)+

lemma inert_okM [inert_rules]: "inert E m \<Longrightarrow> (\<And>a. inert E (f a)) \<Longrightarrow> inert E (okM m f)"
  unfolding okM_def by (intro inert_rules)

lemma inert_loops [inert_rules]: "(\<And>x. x \<in> set xs \<Longrightarrow> inert E (f x)) \<Longrightarrow> inert E (allM f xs)"
  "(\<And>x. x \<in> set ys \<Longrightarrow> inert E (g x)) \<Longrightarrow> inert E (eachM g ys)"
  "(\<And>x. x \<in> set zs \<Longrightarrow> inert E (h x)) \<Longrightarrow> inert E (runM h zs)"
  by (induction xs, auto intro!: inert_rules) (induction ys, auto intro!: inert_rules, induction zs, auto intro!: inert_rules)

text \<open>The contract: after a failure the guard refuses and touches nothing. Then neither does anything that asks
  the guard first.\<close>

locale fail_stop =
  fixes failed :: "'o \<Rightarrow> bool"
    and guard :: "('o, 's, bool) prog"
  assumes stops: "failed x \<Longrightarrow> run_state guard (x, s) = (False, (x, s))"
begin

lemma inert_guard: "inert failed guard"
  using stops by (simp add: inert_def wp_def)

lemma inert_guarded:
  assumes "inert failed n"
  shows "inert failed (do { c \<leftarrow> guard; if c then m else n })"
  unfolding inert_def
proof (intro allI impI)
  fix x s assume "failed x"
  then show "wp (do { c \<leftarrow> guard; if c then m else n }) (\<lambda>_ (y, z). failed y \<and> z = s) (x, s)"
    using assms stops by (simp add: inert_def wp_def)
qed

lemma inert_and: "inert failed (andM guard m)"
  unfolding andM_def by (rule inert_guarded) (rule inert_ret)

end

section \<open>A register file\<close>

text \<open>A well-behaved device for concrete runs: registers by byte address, a clock that advances with every look and every
  delay.\<close>

record iofile =
  if_mem :: "u32 \<Rightarrow> u32"
  if_config :: "u16 \<Rightarrow> u8"
  if_clock :: u64

definition io_file :: "iofile Io" where
  "io_file = \<lparr>io_inGate = \<lambda>s. (True, s), io_cancelled = \<lambda>s. (False, s), io_command = \<lambda>s. (2, s),
     io_nowUs = \<lambda>s. (if_clock s, s\<lparr>if_clock := if_clock s + 1\<rparr>), io_delayUs = \<lambda>t s. (True, s\<lparr>if_clock := if_clock s + ucast t\<rparr>),
     io_read8 = \<lambda>a s. ((True, ucast (if_mem s a)), s), io_read16 = \<lambda>a s. ((True, ucast (if_mem s a)), s),
     io_read32 = \<lambda>a s. ((True, if_mem s a), s),
     io_write8 = \<lambda>a v s. (True, s\<lparr>if_mem := (if_mem s)(a := ucast v)\<rparr>),
     io_write16 = \<lambda>a v s. (True, s\<lparr>if_mem := (if_mem s)(a := ucast v)\<rparr>),
     io_write32 = \<lambda>a v s. (True, s\<lparr>if_mem := (if_mem s)(a := v)\<rparr>),
     io_readConfig8 = \<lambda>a s. ((True, if_config s a), s),
     io_writeConfig8 = \<lambda>a v s. (True, s\<lparr>if_config := (if_config s)(a := v)\<rparr>)\<rparr>"

definition iofile0 :: iofile where
  "iofile0 = \<lparr>if_mem = \<lambda>_. 0, if_config = \<lambda>_. 0, if_clock = 0\<rparr>"

end
