(* ===== verification/EfuseReader.thy ===== *)
theory EfuseReader
  imports DeviceIo
begin

text \<open>The reader of the DDV bank in \<open>src/network/EfuseReader.hpp\<close>: it powers the eFuse rail, reads byte by byte,
  and restores the rail. Loops run over their bounded attempt counts.\<close>

datatype EfuseReadStatus = ER_ok | ER_invalid | ER_busy | ER_ioError | ER_timeout | ER_clockError | ER_cancelled | ER_cleanupFailed

record EfuseReadResult =
  rd_status :: EfuseReadStatus
  rd_primary :: EfuseReadStatus
  rd_bytesRead :: nat
  rd_validBytes :: nat
  rd_polls :: u32
  rd_last :: u32
  rd_cleanupAttempted :: bool
  rd_restored :: bool

definition EfuseReadResult0 :: EfuseReadResult where
  "EfuseReadResult0 = \<lparr>rd_status = ER_invalid, rd_primary = ER_invalid, rd_bytesRead = 0, rd_validBytes = 0, rd_polls = 0,
     rd_last = 0, rd_cleanupAttempted = False, rd_restored = False\<rparr>"

text \<open>The reader's fields, and the buffer it was given.\<close>

record EfuseReader =
  er_originalIso :: u16
  er_originalPmc :: u8
  er_originalBurst :: u32
  er_begin :: u64
  er_previous :: u64
  er_touched :: bool
  er_burst :: bool
  er_result :: EfuseReadResult
  er_out :: bytes

type_synonym ('s, 'a) ddv = "(EfuseReader, 's, 'a) prog"

definition er_upd :: "(EfuseReadResult \<Rightarrow> EfuseReadResult) \<Rightarrow> ('s, unit) ddv" where
  "er_upd f = omod (\<lambda>x. x\<lparr>er_result := f (er_result x)\<rparr>)"

definition er_stop :: "EfuseReadStatus \<Rightarrow> ('s, bool) ddv" where
  "er_stop st = do { er_upd (rd_primary_update (\<lambda>_. st)); ret False }"

definition er_active :: "'s Io \<Rightarrow> ('s, bool) ddv" where
  "er_active d = do {
     c \<leftarrow> dcall (io_cancelled d);
     if c then er_stop ER_cancelled else do {
       now \<leftarrow> dcall (io_nowUs d);
       previous \<leftarrow> ogets er_previous;
       if now < previous then er_stop ER_clockError else do {
         omod (er_previous_update (\<lambda>_. now));
         begin \<leftarrow> ogets er_begin;
         if 5000000 \<le> now - begin then er_stop ER_timeout else ret True } } }"

definition er_failed :: "('s, bool) ddv" where
  "er_failed = er_stop ER_ioError"

definition er_iso :: "'s Io \<Rightarrow> u16 \<Rightarrow> u16 \<Rightarrow> ('s, bool) ddv" where
  "er_iso d m bits = do {
     (ok, v) \<leftarrow> dcall (io_read16 d 0);
     if \<not> ok \<or> v = 0xffff then ret False
     else dcall (io_write16 d 0 ((v AND NOT m) OR (bits AND m))) }"

definition er_pmc :: "'s Io \<Rightarrow> u8 \<Rightarrow> ('s, bool) ddv" where
  "er_pmc d bits = do {
     (ok, v) \<leftarrow> dcall (io_read8 d 0xcc);
     if \<not> ok \<or> v = 0xff then ret False
     else dcall (io_write8 d 0xcc ((v AND NOT 4) OR (bits AND 4))) }"

definition er_setBurst :: "'s Io \<Rightarrow> u32 \<Rightarrow> ('s, bool) ddv" where
  "er_setBurst d bits = do {
     (ok, v) \<leftarrow> dcall (io_read32 d 0x38);
     if \<not> ok \<or> v = 0xffffffff then ret False
     else dcall (io_write32 d 0x38 ((v AND NOT 0x80000) OR (bits AND 0x80000))) }"

definition er_restore :: "'s Io \<Rightarrow> ('s, bool) ddv" where
  "er_restore d = do {
     er_upd (rd_cleanupAttempted_update (\<lambda>_. True));
     b \<leftarrow> ogets er_burst;
     originalBurst \<leftarrow> ogets er_originalBurst;
     originalPmc \<leftarrow> ogets er_originalPmc;
     originalIso \<leftarrow> ogets er_originalIso;
     ok \<leftarrow> if b then alsoM (er_setBurst d originalBurst) True else ret True;
     ok \<leftarrow> alsoM (er_iso d 0x100 0x100) ok;
     ok \<leftarrow> alsoM (er_iso d 0x8000 0) ok;
     ok \<leftarrow> alsoM (dcall (io_delayUs d 1000)) ok;
     ok \<leftarrow> alsoM (er_iso d 0x4000 0) ok;
     ok \<leftarrow> alsoM (er_pmc d originalPmc) ok;
     (r, v16) \<leftarrow> dcall (io_read16 d 0);
     ok \<leftarrow> ret (r \<and> v16 \<noteq> 0xffff \<and> v16 AND 0xc100 = originalIso AND 0xc100 \<and> ok);
     (r, v8) \<leftarrow> dcall (io_read8 d 0xcc);
     ok \<leftarrow> ret (r \<and> v8 \<noteq> 0xff \<and> v8 AND 4 = originalPmc AND 4 \<and> ok);
     ok \<leftarrow> if b then do {
         (r, v32) \<leftarrow> dcall (io_read32 d 0x38);
         ret (r \<and> v32 \<noteq> 0xffffffff \<and> v32 AND 0x80000 = originalBurst AND 0x80000 \<and> ok) }
       else ret ok;
     er_upd (rd_restored_update (\<lambda>_. ok));
     ret ok }"

text \<open>The three reads of \<open>enable\<close> fill the fields even when they fail.\<close>

definition er_readIso :: "'s Io \<Rightarrow> ('s, bool) ddv" where
  "er_readIso d = do { (ok, v) \<leftarrow> dcall (io_read16 d 0); omod (er_originalIso_update (\<lambda>_. v)); ret (ok \<and> v \<noteq> 0xffff) }"

definition er_readPmc :: "'s Io \<Rightarrow> ('s, bool) ddv" where
  "er_readPmc d = do { (ok, v) \<leftarrow> dcall (io_read8 d 0xcc); omod (er_originalPmc_update (\<lambda>_. v)); ret (ok \<and> v \<noteq> 0xff) }"

definition er_readBurst :: "'s Io \<Rightarrow> ('s, bool) ddv" where
  "er_readBurst d = do { (ok, v) \<leftarrow> dcall (io_read32 d 0x38); omod (er_originalBurst_update (\<lambda>_. v)); ret (ok \<and> v \<noteq> 0xffffffff) }"

definition er_enable :: "'s Io \<Rightarrow> ('s, bool) ddv" where
  "er_enable d = do {
     a \<leftarrow> er_active d;
     if \<not> a then ret False else do {
     r \<leftarrow> andM (er_readIso d) (er_readPmc d);
     if \<not> r then er_failed else do {
     iso \<leftarrow> ogets er_originalIso;
     pmc \<leftarrow> ogets er_originalPmc;
     if iso AND 0xc100 \<noteq> 0x100 \<or> pmc AND 4 \<noteq> 0 then er_stop ER_busy else do {
     b \<leftarrow> ogets er_burst;
     r \<leftarrow> if b then er_readBurst d else ret True;
     if \<not> r then er_failed else do {
     a \<leftarrow> er_active d;
     if \<not> a then ret False else do {
     omod (er_touched_update (\<lambda>_. True));
     r \<leftarrow> andM (er_pmc d 4) (andM (er_iso d 0x4000 0x4000) (dcall (io_delayUs d 1000)));
     if \<not> r then er_failed else do {
     a \<leftarrow> er_active d;
     if \<not> a then ret False else do {
     r \<leftarrow> andM (er_iso d 0x8000 0x8000) (er_iso d 0x100 0);
     if \<not> r then er_failed else do {
     r \<leftarrow> if b then er_setBurst d 0x80000 else ret True;
     if \<not> r then er_failed else ret True } } } } } } } } }"

text \<open>The wait for one byte: \<open>n\<close> attempts are left.\<close>

fun er_wait :: "'s Io \<Rightarrow> u64 \<Rightarrow> nat \<Rightarrow> ('s, bool) ddv" where
  "er_wait d started n = (if n = 0 then ret False else do {
     a \<leftarrow> er_active d;
     if \<not> a then ret False else do {
     ok \<leftarrow> andM (dcall (io_delayUs d 1)) (do {
       (r, v) \<leftarrow> dcall (io_read32 d 0x30);
       er_upd (rd_last_update (\<lambda>_. v));
       ret (r \<and> v \<noteq> 0xffffffff) });
     if \<not> ok then er_failed else do {
     er_upd (rd_polls_update (\<lambda>p. p + 1));
     v \<leftarrow> ogets (\<lambda>x. rd_last (er_result x));
     if v AND 0x20000000 \<noteq> 0 then ret True else do {
     previous \<leftarrow> ogets er_previous;
     if 1000000 \<le> previous - started then er_stop ER_timeout else er_wait d started (n - 1) } } } })"

declare er_wait.simps [simp del]

definition er_byte :: "'s Io \<Rightarrow> u32 \<Rightarrow> nat \<Rightarrow> ('s, bool) ddv" where
  "er_byte d address i = do {
     a \<leftarrow> er_active d;
     if \<not> a then ret False else do {
     w \<leftarrow> dcall (io_write32 d 0x30 (push_bit 16 (address + of_nat i)));
     if \<not> w then er_failed else do {
     started \<leftarrow> ogets er_previous;
     ready \<leftarrow> er_wait d started 1000000;
     if \<not> ready then do {
       er_upd (\<lambda>r. if rd_primary r = ER_ok then r\<lparr>rd_primary := ER_timeout\<rparr> else r);
       ret False }
     else do {
       omod (\<lambda>x. x\<lparr>er_out := (er_out x)[i := ucast (rd_last (er_result x))],
         er_result := (er_result x)\<lparr>rd_bytesRead := rd_bytesRead (er_result x) + 1\<rparr>\<rparr>);
       ret True } } } }"

definition er_range :: "u32 \<Rightarrow> nat \<Rightarrow> nat \<Rightarrow> bool" where
  "er_range address count capacity \<longleftrightarrow> count \<noteq> 0 \<and> count \<le> capacity \<and> unat address < 0x600 \<and> count \<le> 0x600 - unat address \<and>
     (unat address < 1216 \<and> count \<le> 1216 - unat address \<or> 0x580 \<le> unat address \<and> count \<le> 0x600 - unat address)"

text \<open>\<open>present\<close> is whether the output pointer is not null.\<close>

definition readDdv :: "'s Io \<Rightarrow> u8 \<Rightarrow> u32 \<Rightarrow> nat \<Rightarrow> bool \<Rightarrow> nat \<Rightarrow> ('s, EfuseReadResult) ddv" where
  "readDdv d chipCut address count present capacity = do {
     omod (\<lambda>x. x\<lparr>er_result := EfuseReadResult0, er_touched := False, er_burst := chipCut = 0\<rparr>);
     if \<not> present \<or> \<not> er_range address count capacity then ogets er_result else do {
     now \<leftarrow> dcall (io_nowUs d);
     omod (\<lambda>x. x\<lparr>er_begin := now, er_previous := now, er_result := (er_result x)\<lparr>rd_primary := ER_ok\<rparr>\<rparr>);
     andM (er_enable d) (allM (er_byte d address) [0..<count]);
     er_upd (\<lambda>r. r\<lparr>rd_status := rd_primary r\<rparr>);
     touched \<leftarrow> ogets er_touched;
     clean \<leftarrow> if touched then er_restore d else ret True;
     (if \<not> clean then er_upd (rd_status_update (\<lambda>_. ER_cleanupFailed)) else ret ());
     omod (\<lambda>x. if rd_status (er_result x) = ER_ok
       then x\<lparr>er_result := (er_result x)\<lparr>rd_validBytes := rd_bytesRead (er_result x)\<rparr>\<rparr>
       else x\<lparr>er_out := replicate (rd_bytesRead (er_result x)) 0 @ drop (rd_bytesRead (er_result x)) (er_out x)\<rparr>);
     ogets er_result } }"

section \<open>What reaches the device\<close>

text \<open>The isolation and power registers, the burst register, delays, and requests for the addresses asked for.\<close>

definition ddv_writes :: "u32 \<Rightarrow> nat \<Rightarrow> io_event set" where
  "ddv_writes address count = {e. (\<exists>v. e = Io_write16 0 v) \<or> (\<exists>v. e = Io_write8 0xcc v) \<or> (\<exists>v. e = Io_write32 0x38 v) \<or>
     (\<exists>t. e = Io_delay t) \<or> (\<exists>i < count. e = Io_write32 0x30 (push_bit 16 (address + of_nat i)))}"

lemma er_frames [frame_rules]:
  "frames W (er_upd u)" "frames W (er_stop st)" "frames W er_failed" "frames W (er_active (io_logged d))"
  "frames W (er_readIso (io_logged d))" "frames W (er_readPmc (io_logged d))" "frames W (er_readBurst (io_logged d))"
  unfolding er_upd_def er_stop_def er_failed_def er_active_def er_readIso_def er_readPmc_def er_readBurst_def io_logged_simps
  by (intro frame_rules)+

lemma er_write_frames [frame_rules]:
  "frames (ddv_writes a n) (er_iso (io_logged d) m b)" "frames (ddv_writes a n) (er_pmc (io_logged d) b8)"
  "frames (ddv_writes a n) (er_setBurst (io_logged d) b32)" "frames (ddv_writes a n) (dcall (io_delayUs (io_logged d) t))"
  unfolding er_iso_def er_pmc_def er_setBurst_def io_logged_simps
  by (auto intro!: frame_rules simp: ddv_writes_def)

lemma er_wait_frames [frame_rules]: "frames (ddv_writes a n) (er_wait (io_logged d) started k)"
proof (induction k)
  case 0
  show ?case by (simp add: er_wait.simps frame_rules)
next
  case (Suc k)
  show ?case
    by (subst er_wait.simps) (simp only: nat.distinct diff_Suc_1 if_False io_logged_simps(8), intro frame_rules Suc)
qed

lemma er_step_frames [frame_rules]:
  "frames (ddv_writes a n) (er_enable (io_logged d))" "frames (ddv_writes a n) (er_restore (io_logged d))"
  unfolding er_enable_def er_restore_def io_logged_simps(6-8) by (intro frame_rules)+

lemma er_byte_frames: "i < n \<Longrightarrow> frames (ddv_writes a n) (er_byte (io_logged d) a i)"
  unfolding er_byte_def io_logged_simps(11) by (intro frame_rules) (auto simp: ddv_writes_def)

lemma readDdv_frames: "frames (ddv_writes address count) (readDdv (io_logged d) chipCut address count present capacity)"
  unfolding readDdv_def io_logged_simps(4) by (intro frame_rules er_byte_frames) auto

section \<open>A successful read is complete\<close>

text \<open>\<open>er_at k x\<close>: \<open>k\<close> bytes have been read with no failure so far. \<open>er_bad x\<close>: a failure is recorded. Both relate to the buffer
  \<open>out\<close> at the start.\<close>

definition er_base :: "bytes \<Rightarrow> nat \<Rightarrow> EfuseReader \<Rightarrow> bool" where
  "er_base out count x \<longleftrightarrow> rd_validBytes (er_result x) = 0 \<and> \<not> rd_restored (er_result x) \<and> rd_bytesRead (er_result x) \<le> count \<and>
     length (er_out x) = length out \<and> drop count (er_out x) = drop count out"

definition er_at :: "bytes \<Rightarrow> nat \<Rightarrow> nat \<Rightarrow> EfuseReader \<Rightarrow> bool" where
  "er_at out count k x \<longleftrightarrow> er_base out count x \<and> er_touched x \<and> rd_primary (er_result x) = ER_ok \<and> rd_bytesRead (er_result x) = k"

definition er_bad :: "bytes \<Rightarrow> nat \<Rightarrow> EfuseReader \<Rightarrow> bool" where
  "er_bad out count x \<longleftrightarrow> er_base out count x \<and> rd_primary (er_result x) \<noteq> ER_ok"

definition er_start :: "bytes \<Rightarrow> nat \<Rightarrow> EfuseReader \<Rightarrow> bool" where
  "er_start out count x \<longleftrightarrow> er_base out count x \<and> rd_primary (er_result x) = ER_ok \<and> rd_bytesRead (er_result x) = 0"

lemmas er_states = er_at_def er_bad_def er_start_def er_base_def
lemmas er_wp = wp_simps wp_dcall er_upd_def er_stop_def er_failed_def split_beta

lemma er_active_keeps:
  "keeps (er_start out count) (er_active d) (\<lambda>a y. if a then er_start out count y else er_bad out count y)"
  "keeps (er_at out count k) (er_active d) (\<lambda>a y. if a then er_at out count k y else er_bad out count y)"
  unfolding keeps_def er_active_def by (auto simp: er_wp er_states Let_def)

lemma er_prims_keep [keep_rules]:
  "keeps P (er_iso d m b) (\<lambda>_. P)" "keeps P (er_pmc d b8) (\<lambda>_. P)" "keeps P (er_setBurst d b32) (\<lambda>_. P)"
  unfolding er_iso_def er_pmc_def er_setBurst_def by (intro keep_rules)+

lemma er_reads_keep [keep_rules]:
  "keeps (er_start out count) (er_readIso d) (\<lambda>_. er_start out count)"
  "keeps (er_start out count) (er_readPmc d) (\<lambda>_. er_start out count)"
  "keeps (er_start out count) (er_readBurst d) (\<lambda>_. er_start out count)"
  unfolding er_readIso_def er_readPmc_def er_readBurst_def by (intro keep_rules; simp add: er_states)+

lemma er_stop_keeps:
  assumes "st \<noteq> ER_ok"
  shows "keeps (er_start out count) (er_stop st) (\<lambda>a y. if a then er_at out count k y else er_bad out count y)"
    and "keeps (er_at out count i) (er_stop st) (\<lambda>a y. if a then er_at out count k y else er_bad out count y)"
  using assms unfolding keeps_def by (auto simp: er_wp er_states)

lemma er_touch_keeps: "keeps (er_start out count) (omod (er_touched_update (\<lambda>_. True))) (\<lambda>_. er_at out count 0)"
  unfolding keeps_def by (simp add: wp_simps er_states)

lemma er_end_keeps: "keeps (er_bad out count) (ret False) (\<lambda>a y. if a then er_at out count k y else er_bad out count y)"
  "keeps (er_at out count k) (ret True) (\<lambda>a y. if a then er_at out count k y else er_bad out count y)"
  unfolding keeps_def by (simp_all add: wp_simps)

lemma er_enable_keeps: "keeps (er_start out count) (er_enable d) (\<lambda>a y. if a then er_at out count 0 y else er_bad out count y)"
  unfolding er_enable_def er_failed_def
  by (rule keeps_guard [OF er_active_keeps(1)], rule keeps_same_guard, intro keep_rules,
      rule keeps_bind [OF keeps_same(3)], rule keeps_bind [OF keeps_same(3)], rule keeps_if, rule er_stop_keeps, simp,
      rule keeps_bind [OF keeps_same(3)], rule keeps_same_guard, intro keep_rules,
      rule keeps_guard [OF er_active_keeps(1)], rule keeps_bind [OF er_touch_keeps],
      rule keeps_same_guard, intro keep_rules, rule keeps_guard [OF er_active_keeps(2)],
      rule keeps_same_guard, intro keep_rules, rule keeps_same_guard, intro keep_rules)
    (rule er_end_keeps er_stop_keeps; simp)+

lemma er_upd_keeps: "keeps (\<lambda>x. P (er_out x) \<and> er_result x = r) (er_upd f) (\<lambda>_ x. P (er_out x) \<and> er_result x = f r)"
  unfolding keeps_def by (simp add: er_wp)

lemma er_ret_keeps: "keeps P (ret b) (\<lambda>a y. P y \<and> a = b)"
  unfolding keeps_def by (simp add: wp_simps)

lemma er_restore_keeps: "keeps (\<lambda>x. P (er_out x) \<and> er_result x = r) (er_restore d)
    (\<lambda>a y. P (er_out y) \<and> er_result y = r\<lparr>rd_cleanupAttempted := True, rd_restored := a\<rparr>)"
  unfolding er_restore_def
  by (rule keeps_bind [OF er_upd_keeps], (rule keeps_prod | rule keeps_bind, (rule keep_rules | rule keeps_same_if)+)+)
    (rule keeps_bind [OF er_upd_keeps], simp add: keeps_def wp_simps)

lemma er_wait_keeps: "keeps (er_at out count k) (er_wait d started n)
  (\<lambda>a y. if a then er_at out count k y else er_bad out count y \<or> er_at out count k y)"
proof (induction n)
  case 0
  show ?case by (simp add: er_wait.simps keeps_def wp_simps)
next
  case (Suc n)
  have "wp (er_wait d started n) (\<lambda>a (y, _). if a then er_at out count k y else er_bad out count y \<or> er_at out count k y) (x, s)"
    if "er_at out count k x" for x s using Suc that by (simp add: keeps_def)
  then show ?case unfolding keeps_def
    by (subst er_wait.simps) (auto simp: er_wp er_states er_active_def Let_def)
qed

lemma er_late_keeps: "keeps (\<lambda>y. er_bad out count y \<or> er_at out count k y) (do {
       er_upd (\<lambda>r. if rd_primary r = ER_ok then r\<lparr>rd_primary := ER_timeout\<rparr> else r);
       ret False }) (\<lambda>a y. if a then er_at out count j y else er_bad out count y)"
  unfolding keeps_def by (auto simp: er_wp er_states)

lemma er_store_keeps:
  assumes "i < count" "count \<le> length out"
  shows "keeps (er_at out count i) (do {
       omod (\<lambda>x. x\<lparr>er_out := (er_out x)[i := v x],
         er_result := (er_result x)\<lparr>rd_bytesRead := rd_bytesRead (er_result x) + 1\<rparr>\<rparr>);
       ret True }) (\<lambda>a y. if a then er_at out count (Suc i) y else er_bad out count y)"
  unfolding keeps_def using assms by (simp add: er_wp er_states)

lemma er_byte_keeps:
  assumes "i < count" "count \<le> length out"
  shows "keeps (er_at out count i) (er_byte d address i) (\<lambda>a y. if a then er_at out count (Suc i) y else er_bad out count y)"
  unfolding er_byte_def er_failed_def
  by (rule keeps_guard [OF er_active_keeps(2)], rule keeps_same_guard, intro keep_rules, rule keeps_bind [OF keeps_same(3)],
      rule keeps_guard [OF er_wait_keeps], rule er_store_keeps [OF assms], rule er_late_keeps, rule er_stop_keeps, simp, rule er_end_keeps)

lemma er_bytes_keep:
  assumes "count \<le> length out"
  shows "keeps (er_start out count) (andM (er_enable d) (allM (er_byte d address) [0..<count]))
    (\<lambda>a y. if a then er_at out count count y else er_bad out count y)"
proof -
  have all: "keeps (er_at out count 0) (allM (er_byte d address) [0..<count])
    (\<lambda>a y. if a then er_at out count count y else er_bad out count y)"
    by (rule keeps_all, rule er_byte_keeps) (use assms in auto)
  show ?thesis by (rule keeps_and [OF er_enable_keeps all]) simp
qed

text \<open>The tail of \<open>readDdv\<close>, after the bytes.\<close>

definition er_done :: "bytes \<Rightarrow> nat \<Rightarrow> EfuseReadResult \<Rightarrow> bytes \<Rightarrow> bool" where
  "er_done out count r out' \<longleftrightarrow> length out' = length out \<and> drop count out' = drop count out \<and>
     (if rd_status r = ER_ok then rd_validBytes r = count \<and> rd_bytesRead r = count \<and> rd_restored r
      else rd_validBytes r = 0 \<and> (\<forall>i < rd_bytesRead r. out' ! i = 0))"

definition er_tail :: "'s Io \<Rightarrow> ('s, EfuseReadResult) ddv" where
  "er_tail d = do {
     er_upd (\<lambda>r. r\<lparr>rd_status := rd_primary r\<rparr>);
     touched \<leftarrow> ogets er_touched;
     clean \<leftarrow> if touched then er_restore d else ret True;
     (if \<not> clean then er_upd (rd_status_update (\<lambda>_. ER_cleanupFailed)) else ret ());
     omod (\<lambda>x. if rd_status (er_result x) = ER_ok
       then x\<lparr>er_result := (er_result x)\<lparr>rd_validBytes := rd_bytesRead (er_result x)\<rparr>\<rparr>
       else x\<lparr>er_out := replicate (rd_bytesRead (er_result x)) 0 @ drop (rd_bytesRead (er_result x)) (er_out x)\<rparr>);
     ogets er_result }"

lemma er_tail_keeps:
  assumes "count \<le> length out"
  shows "keeps (\<lambda>x. er_at out count count x \<or> er_bad out count x) (er_tail d) (\<lambda>r y. er_done out count r (er_out y))"
  unfolding keeps_def
proof (intro allI impI)
  fix x :: EfuseReader and s :: 'a
  assume x: "er_at out count count x \<or> er_bad out count x"
  let ?r = "(er_result x)\<lparr>rd_status := rd_primary (er_result x)\<rparr>"
  have base: "length (er_out x) = length out" "drop count (er_out x) = drop count out" "rd_bytesRead (er_result x) \<le> count"
    "rd_validBytes (er_result x) = 0" using x by (auto simp: er_states)
  show "wp (er_tail d) (\<lambda>r (y, _). er_done out count r (er_out y)) (x, s)"
  proof (cases "er_touched x")
    case True
    have "wp (er_restore d) (\<lambda>clean. wp (do {
      (if \<not> clean then er_upd (rd_status_update (\<lambda>_. ER_cleanupFailed)) else ret ());
      omod (\<lambda>x. if rd_status (er_result x) = ER_ok
       then x\<lparr>er_result := (er_result x)\<lparr>rd_validBytes := rd_bytesRead (er_result x)\<rparr>\<rparr>
       else x\<lparr>er_out := replicate (rd_bytesRead (er_result x)) 0 @ drop (rd_bytesRead (er_result x)) (er_out x)\<rparr>);
      ogets er_result }) (\<lambda>r (y, _). er_done out count r (er_out y))) (x\<lparr>er_result := ?r\<rparr>, s)"
      by (rule keepsD [OF er_restore_keeps [where P = "\<lambda>b. b = er_out x" and r = ?r]])
        (use x base assms in \<open>auto simp: er_wp er_states er_done_def nth_append Let_def\<close>)
    then show ?thesis using True by (simp add: er_tail_def er_wp)
  next
    case False
    then have "rd_primary (er_result x) \<noteq> ER_ok" using x by (auto simp: er_states)
    then show ?thesis using False base assms by (auto simp: er_tail_def er_wp er_done_def nth_append)
  qed
qed

lemma readDdv_keeps:
  assumes "count \<le> length out"
  shows "keeps (\<lambda>x. er_out x = out) (readDdv d chipCut address count present capacity) (\<lambda>r y. er_done out count r (er_out y))"
proof -
  let ?body = "do { andM (er_enable d) (allM (er_byte d address) [0..<count]); er_tail d }"
  have body: "keeps (er_start out count) ?body (\<lambda>r y. er_done out count r (er_out y))"
    by (rule keeps_bind [OF er_bytes_keep [OF assms]], rule keeps_weaken [OF er_tail_keeps [OF assms]]) (auto split: if_splits)
  have inv: "er_done out count EfuseReadResult0 out" by (simp add: er_done_def EfuseReadResult0_def)
  have rd: "readDdv d chipCut address count present capacity = do {
     omod (\<lambda>x. x\<lparr>er_result := EfuseReadResult0, er_touched := False, er_burst := chipCut = 0\<rparr>);
     if \<not> present \<or> \<not> er_range address count capacity then ogets er_result else do {
     now \<leftarrow> dcall (io_nowUs d);
     omod (\<lambda>x. x\<lparr>er_begin := now, er_previous := now, er_result := (er_result x)\<lparr>rd_primary := ER_ok\<rparr>\<rparr>);
     ?body } }"
    by (simp add: readDdv_def er_tail_def)
  show ?thesis unfolding rd
    by (rule keeps_bind [OF keeps_obj(1) [where Q = "\<lambda>_ x. er_out x = out \<and> er_result x = EfuseReadResult0"]], simp,
        rule keeps_if, rule keeps_obj(2), simp add: inv, rule keeps_bind [OF keeps_same(2)],
        rule keeps_bind [OF keeps_obj(1) [where Q = "\<lambda>_. er_start out count"]], simp add: er_states EfuseReadResult0_def, rule body)
qed


definition EfuseReader0 :: "bytes \<Rightarrow> EfuseReader" where
  "EfuseReader0 out = \<lparr>er_originalIso = 0, er_originalPmc = 0, er_originalBurst = 0, er_begin = 0, er_previous = 0,
     er_touched = False, er_burst = False, er_result = EfuseReadResult0, er_out = out\<rparr>"


end
