(* ===== verification/Efuse.thy ===== *)
theory Efuse
  imports Prelude
begin

text \<open>The eFuse decoder and the calibration fields of \<open>src/network/EfuseCalibration.hpp\<close>, with the byte
  offsets of the layout in \<open>src/network/Rtw8852bEfuseLayout.hpp\<close>. The two-pass decoder is shown
  equal to a one-pass reference that reads the bank as a list of entries.\<close>

section \<open>Decoding a bank\<close>

datatype EfuseStatus = ES_ok | ES_invalid | ES_overlap | ES_truncated | ES_outOfRange

text \<open>The words of one block, from \<open>cursor\<close> on: a status returns from the function with the buffer as it is then, a cursor goes on. Reads are
  checked.\<close>

fun efuse_words :: "bytes \<Rightarrow> nat \<Rightarrow> bool \<Rightarrow> nat \<Rightarrow> u8 \<Rightarrow> nat list \<Rightarrow> nat \<Rightarrow> bytes \<Rightarrow> (EfuseStatus \<times> bytes + nat \<times> bytes) option" where
  "efuse_words ph e pass block second [] cursor logical = Some (Inr (cursor, logical))"
| "efuse_words ph e pass block second (w # ws) cursor logical =
     (if bit second w then efuse_words ph e pass block second ws cursor logical
      else let address = block * 8 + w * 2 in
        if e - cursor < 2 then Some (Inl (ES_truncated, logical))
        else if length logical \<le> address \<or> length logical - address < 2 then Some (Inl (ES_outOfRange, logical))
        else do {
          a \<leftarrow> rd8 ph cursor;
          b \<leftarrow> rd8 ph (cursor + 1);
          efuse_words ph e pass block second ws (cursor + 2)
            (if pass then logical[address := a, address + 1 := b] else logical) })"

definition efuse_block :: "u8 \<Rightarrow> u8 \<Rightarrow> nat" where
  "efuse_block first second = unat ((drop_bit 4 second AND 15) OR push_bit 4 (first AND 15))"

lemma efuse_words_mono: "efuse_words ph e pass block second ws cursor logical = Some (Inr (c, l)) \<Longrightarrow> cursor \<le> c"
  by (induction ws arbitrary: cursor logical) (fastforce simp: Let_def split: if_splits bind_splits)+

function efuse_scan :: "bytes \<Rightarrow> nat \<Rightarrow> bool \<Rightarrow> nat \<Rightarrow> bytes \<Rightarrow> (EfuseStatus \<times> bytes + bytes) option" where
  "efuse_scan ph e pass cursor logical = (if e \<le> cursor then Some (Inr logical)
     else do {
       first \<leftarrow> rd8 ph cursor;
       if first = 0xff then Some (Inr logical)
       else if e - cursor < 2 then Some (Inl (ES_truncated, logical))
       else do {
         second \<leftarrow> rd8 ph (cursor + 1);
         if second = 0xff then Some (Inr logical)
         else do {
           r \<leftarrow> efuse_words ph e pass (efuse_block first second) second [0..<4] (cursor + 2) logical;
           case r of Inl st \<Rightarrow> Some (Inl st) | Inr (c, l) \<Rightarrow> efuse_scan ph e pass c l } } })"
  by pat_completeness auto
termination
proof (relation "measure (\<lambda>(ph, e, pass, cursor, logical). e - cursor)")
  fix ph :: bytes and e cursor :: nat and pass and logical and first second and r :: "EfuseStatus \<times> bytes + nat \<times> bytes" and y c l
  assume "\<not> e \<le> cursor" and "efuse_words ph e pass (efuse_block first second) second [0..<4] (cursor + 2) logical = Some r"
    and "r = Inr y" and "(c, l) = y"
  then show "((ph, e, pass, c, l), ph, e, pass, cursor, logical) \<in> measure (\<lambda>(ph, e, pass, cursor, logical). e - cursor)"
    using efuse_words_mono [of ph e pass "efuse_block first second" second "[0..<4]" "cursor + 2" logical c l] by auto
qed auto

declare efuse_scan.simps [simp del]

text \<open>The buffers are given with their addresses, so that the overlap check is the code's. The result is the
  status and the logical buffer.\<close>

definition decodeEfuse :: "nat \<Rightarrow> bytes option \<Rightarrow> nat \<Rightarrow> bytes option \<Rightarrow> nat \<Rightarrow> (EfuseStatus \<times> bytes option) option" where
  "decodeEfuse inAt physical outAt logical securityBytes = (case (physical, logical) of
     (Some ph, Some lg) \<Rightarrow>
       if lg = [] \<or> length ph div 2 < securityBytes then Some (ES_invalid, logical)
       else if (if inAt \<le> outAt then outAt - inAt < length ph else inAt - outAt < length lg) then Some (ES_overlap, logical)
       else let e = length ph - securityBytes in do {
         r \<leftarrow> efuse_scan ph e False securityBytes lg;
         case r of Inl (st, lg) \<Rightarrow> Some (st, Some lg)
         | Inr lg \<Rightarrow> do {
             r \<leftarrow> efuse_scan ph e True securityBytes (replicate (length lg) 0xff);
             case r of Inl (st, lg) \<Rightarrow> Some (st, Some lg) | Inr lg \<Rightarrow> Some (ES_ok, Some lg) } }
   | _ \<Rightarrow> Some (ES_invalid, logical))"

section \<open>The reference\<close>

text \<open>A bank is a list of two-byte entries with their logical addresses.\<close>

fun block_entries :: "nat \<Rightarrow> nat \<Rightarrow> u8 \<Rightarrow> nat list \<Rightarrow> bytes \<Rightarrow> EfuseStatus + (nat \<times> u8 \<times> u8) list \<times> bytes" where
  "block_entries L block second [] xs = Inr ([], xs)"
| "block_entries L block second (w # ws) xs =
     (if bit second w then block_entries L block second ws xs
      else case xs of
        a # b # rest \<Rightarrow> if L < block * 8 + w * 2 + 2 then Inl ES_outOfRange
          else (case block_entries L block second ws rest of Inl st \<Rightarrow> Inl st
            | Inr (es, r) \<Rightarrow> Inr ((block * 8 + w * 2, a, b) # es, r))
      | _ \<Rightarrow> Inl ES_truncated)"

lemma block_entries_length: "block_entries L block second ws xs = Inr (es, r) \<Longrightarrow> length r \<le> length xs"
  by (induction ws arbitrary: xs es) (fastforce split: if_splits list.splits sum.splits)+

function bank_entries :: "nat \<Rightarrow> bytes \<Rightarrow> EfuseStatus + (nat \<times> u8 \<times> u8) list" where
  "bank_entries L xs = (case xs of [] \<Rightarrow> Inr []
     | first # ys \<Rightarrow> if first = 0xff then Inr []
       else (case ys of [] \<Rightarrow> Inl ES_truncated
         | second # zs \<Rightarrow> if second = 0xff then Inr []
           else (case block_entries L (efuse_block first second) second [0..<4] zs of Inl st \<Rightarrow> Inl st
             | Inr (es, rest) \<Rightarrow> map_sum id ((@) es) (bank_entries L rest))))"
  by pat_completeness auto
termination
proof (relation "measure (\<lambda>(L, xs). length xs)")
  fix L :: nat and xs ys zs :: bytes and first second y es rest
  assume "xs = first # ys" "ys = second # zs"
    and "block_entries L (efuse_block first second) second [0..<4] zs = Inr y" "(es, rest) = y"
  then show "((L, rest), L, xs) \<in> measure (\<lambda>(L, xs). length xs)"
    using block_entries_length [of L "efuse_block first second" second "[0..<4]" zs es rest] by simp
qed auto

declare bank_entries.simps [simp del]

lemma block_entries_status: "block_entries L block second ws xs = Inl st \<Longrightarrow> st \<noteq> ES_ok"
  by (induction ws arbitrary: xs) (auto split: if_splits list.splits sum.splits)

lemma bank_entries_status: "bank_entries L xs = Inl st \<Longrightarrow> st \<noteq> ES_ok"
proof (induction L xs arbitrary: st rule: bank_entries.induct)
  case (1 L xs)
  show ?case
  proof (cases "\<exists>first second zs. xs = first # second # zs \<and> first \<noteq> 0xff \<and> second \<noteq> 0xff")
    case False
    then show ?thesis using 1(2) by (subst (asm) bank_entries.simps) (auto split: list.splits if_splits)
  next
    case True
    then obtain first second zs where xs: "xs = first # second # zs" "first \<noteq> 0xff" "second \<noteq> 0xff" by blast
    show ?thesis
    proof (cases "block_entries L (efuse_block first second) second [0..<4] zs")
      case (Inl a)
      then show ?thesis using 1(2) xs block_entries_status [OF Inl] by (subst (asm) bank_entries.simps) simp
    next
      case (Inr p)
      obtain es rest where p: "p = (es, rest)" by (cases p)
      have "bank_entries L rest = Inl st" using 1(2) xs Inr p by (subst (asm) bank_entries.simps) (cases "bank_entries L rest"; simp)
      then show ?thesis by (rule 1(1) [OF xs(1,2) refl xs(3) Inr p [symmetric]])
    qed
  qed
qed

definition apply_entry :: "bytes \<Rightarrow> nat \<times> u8 \<times> u8 \<Rightarrow> bytes" where
  "apply_entry lg t = (case t of (address, a, b) \<Rightarrow> lg[address := a, address + 1 := b])"

lemma length_apply_entry [simp]: "length (apply_entry lg t) = length lg"
  by (simp add: apply_entry_def split: prod.splits)

lemma length_foldl_apply [simp]: "length (foldl apply_entry lg es) = length lg"
  by (induction es arbitrary: lg) auto

section \<open>The decoder is the reference\<close>

text \<open>The bytes of the bank from \<open>cursor\<close> up to its end.\<close>

definition bank_rest :: "bytes \<Rightarrow> nat \<Rightarrow> nat \<Rightarrow> bytes" where
  "bank_rest ph e cursor = take (e - cursor) (drop cursor ph)"

lemma bank_rest_simps:
  assumes "e \<le> length ph"
  shows "length (bank_rest ph e c) = e - c" and "e \<le> c \<Longrightarrow> bank_rest ph e c = []"
    and "c < e \<Longrightarrow> bank_rest ph e c = ph ! c # bank_rest ph e (c + 1)"
  using assms by (simp_all add: bank_rest_def Cons_nth_drop_Suc [symmetric] Suc_diff_Suc [symmetric])

lemma bank_rest_two:
  assumes "e \<le> length ph" and "\<not> e - c < 2"
  shows "bank_rest ph e c = ph ! c # ph ! (c + 1) # bank_rest ph e (c + 2)"
  using bank_rest_simps(3) [OF assms(1), of c] bank_rest_simps(3) [OF assms(1), of "c + 1"] assms(2) by simp

lemma bank_rest_short:
  assumes "e \<le> length ph" and "e - c < 2"
  shows "bank_rest ph e c = [] \<or> (\<exists>a. bank_rest ph e c = [a])"
proof (cases "bank_rest ph e c")
  case (Cons a xs)
  then have "Suc (length xs) = e - c" using bank_rest_simps(1) [OF assms(1), of c] by simp
  then have "length xs = 0" using assms(2) by linarith
  then show ?thesis using Cons by simp
qed simp

lemma words_refine:
  assumes "e \<le> length ph" and "cursor \<le> e"
  shows "case block_entries (length lg) block second ws (bank_rest ph e cursor) of
      Inl st \<Rightarrow> \<exists>l. efuse_words ph e pass block second ws cursor lg = Some (Inl (st, l)) \<and> (\<not> pass \<longrightarrow> l = lg)
    | Inr (es, rest) \<Rightarrow> \<exists>c \<le> e. efuse_words ph e pass block second ws cursor lg =
        Some (Inr (c, if pass then foldl apply_entry lg es else lg)) \<and> rest = bank_rest ph e c"
  using assms(2)
proof (induction ws arbitrary: cursor lg)
  case Nil
  then show ?case by auto
next
  case (Cons w ws)
  show ?case
  proof (cases "bit second w")
    case True
    have "efuse_words ph e pass block second (w # ws) cursor lg = efuse_words ph e pass block second ws cursor lg"
      "block_entries (length lg) block second (w # ws) (bank_rest ph e cursor) =
        block_entries (length lg) block second ws (bank_rest ph e cursor)" using True by simp_all
    then show ?thesis using Cons.IH [OF Cons.prems, of lg] by (simp only:)
  next
    case False
    let ?a = "block * 8 + w * 2"
    show ?thesis
    proof (cases "e - cursor < 2")
      case True
      then show ?thesis using False bank_rest_short [OF assms(1) True] by (auto simp: Let_def)
    next
      case two: False
      note b2 = bank_rest_two [OF assms(1) two]
      have r: "rd8 ph cursor = Some (ph ! cursor)" "rd8 ph (cursor + 1) = Some (ph ! (cursor + 1))"
        using two assms(1) by (auto intro!: rd8_in)
      show ?thesis
      proof (cases "length lg < ?a + 2")
        case True
        then have "length lg \<le> ?a \<or> length lg - ?a < 2" by linarith
        then show ?thesis using True False two b2 by (auto simp: Let_def)
      next
        case fits: False
        then have nf: "\<not> (length lg \<le> ?a \<or> length lg - ?a < 2)" by linarith
        let ?lg = "if pass then lg[?a := ph ! cursor, ?a + 1 := ph ! (cursor + 1)] else lg"
        have eq: "efuse_words ph e pass block second (w # ws) cursor lg = efuse_words ph e pass block second ws (cursor + 2) ?lg"
          using False two nf r by (simp add: Let_def)
        have ap: "?lg = (if pass then apply_entry lg (?a, ph ! cursor, ph ! (cursor + 1)) else lg)" by (simp add: apply_entry_def)
        have "cursor + 2 \<le> e" using two by linarith
        note ih = Cons.IH [OF this, of ?lg]
        have be: "block_entries (length lg) block second (w # ws) (bank_rest ph e cursor) =
            (case block_entries (length lg) block second ws (bank_rest ph e (cursor + 2)) of Inl st \<Rightarrow> Inl st
             | Inr (es, r) \<Rightarrow> Inr ((?a, ph ! cursor, ph ! (cursor + 1)) # es, r))"
          using False fits b2 by (simp split: sum.split)
        show ?thesis unfolding eq be
          using ih by (cases pass) (auto simp: apply_entry_def split: sum.splits prod.splits)
      qed
    qed
  qed
qed

lemma scan_refine:
  assumes "e \<le> length ph" and "cursor \<le> e"
  shows "case bank_entries (length lg) (bank_rest ph e cursor) of
      Inl st \<Rightarrow> \<exists>l. efuse_scan ph e pass cursor lg = Some (Inl (st, l)) \<and> (\<not> pass \<longrightarrow> l = lg)
    | Inr es \<Rightarrow> efuse_scan ph e pass cursor lg = Some (Inr (if pass then foldl apply_entry lg es else lg))"
  using assms(2)
proof (induction "e - cursor" arbitrary: cursor lg rule: less_induct)
  case less
  show ?case
  proof (cases "e \<le> cursor")
    case True
    then show ?thesis using bank_rest_simps(2) [OF assms(1) True] by (simp add: efuse_scan.simps bank_entries.simps)
  next
    case False
    let ?f = "ph ! cursor" and ?s = "ph ! (cursor + 1)"
    have f: "rd8 ph cursor = Some ?f" using False assms(1) by (intro rd8_in) simp
    have bf: "bank_rest ph e cursor = ?f # bank_rest ph e (cursor + 1)" using bank_rest_simps(3) [OF assms(1)] False by simp
    show ?thesis
    proof (cases "?f = 0xff \<or> e - cursor < 2")
      case True
      have "bank_rest ph e (cursor + 1) = []" if "e - cursor < 2"
        using bank_rest_simps(2) [OF assms(1), of "cursor + 1"] that by simp
      then show ?thesis using False True f bf by (auto simp: efuse_scan.simps [of ph e pass cursor lg] bank_entries.simps [of _ "_ # _"])
    next
      case two: False
      have s: "rd8 ph (cursor + 1) = Some ?s" using two assms(1) by (intro rd8_in) linarith
      have bs: "bank_rest ph e (cursor + 1) = ?s # bank_rest ph e (cursor + 2)"
      proof -
        have "cursor + 1 < e" using two by linarith
        then show ?thesis using bank_rest_simps(3) [OF assms(1), of "cursor + 1"] by simp
      qed
      show ?thesis
      proof (cases "?s = 0xff")
        case True
        then show ?thesis using False two f s bf bs
          by (simp add: efuse_scan.simps [of ph e pass cursor lg] bank_entries.simps [of _ "_ # _"])
      next
        case sec: False
        let ?b = "efuse_block ?f ?s"
        have c2: "cursor + 2 \<le> e" using two by linarith
        note w = words_refine [OF assms(1) c2, where lg = lg and block = ?b and second = ?s and ws = "[0..<4]" and pass = pass]
        have sc: "efuse_scan ph e pass cursor lg = efuse_words ph e pass ?b ?s [0..<4] (cursor + 2) lg \<bind>
            (\<lambda>r. case r of Inl st \<Rightarrow> Some (Inl st) | Inr (c, l) \<Rightarrow> efuse_scan ph e pass c l)"
          using False two sec f s by (simp add: efuse_scan.simps [of ph e pass cursor lg])
        have be: "bank_entries (length lg) (bank_rest ph e cursor) =
            (case block_entries (length lg) ?b ?s [0..<4] (bank_rest ph e (cursor + 2)) of Inl st \<Rightarrow> Inl st
             | Inr (es, rest) \<Rightarrow> map_sum id ((@) es) (bank_entries (length lg) rest))"
          using two sec bf bs by (simp add: bank_entries.simps [of _ "_ # _"])
        show ?thesis
        proof (cases "block_entries (length lg) ?b ?s [0..<4] (bank_rest ph e (cursor + 2))")
          case (Inl st)
          then show ?thesis using w unfolding sc be by auto
        next
          case (Inr y)
          obtain es rest where y: "y = (es, rest)" by fastforce
          let ?lg = "if pass then foldl apply_entry lg es else lg"
          obtain c where c: "c \<le> e" "efuse_words ph e pass ?b ?s [0..<4] (cursor + 2) lg = Some (Inr (c, ?lg))" "rest = bank_rest ph e c"
            using w Inr y by auto
          have "cursor + 2 \<le> c" by (rule efuse_words_mono [OF c(2)])
          then have ih: "case bank_entries (length lg) (bank_rest ph e c) of
              Inl st \<Rightarrow> \<exists>l. efuse_scan ph e pass c ?lg = Some (Inl (st, l)) \<and> (\<not> pass \<longrightarrow> l = ?lg)
            | Inr es' \<Rightarrow> efuse_scan ph e pass c ?lg = Some (Inr (if pass then foldl apply_entry ?lg es' else ?lg))"
            using less.hyps [where cursor = c and lg = ?lg] c(1) c2 by (cases pass) auto
          have sc2: "efuse_scan ph e pass cursor lg = efuse_scan ph e pass c ?lg" unfolding sc c(2) by simp
          have be2: "bank_entries (length lg) (bank_rest ph e cursor) = map_sum id ((@) es) (bank_entries (length lg) (bank_rest ph e c))"
            unfolding be using Inr y c(3) by simp
          show ?thesis unfolding sc2 be2
            using ih by (cases "bank_entries (length lg) (bank_rest ph e c)"; cases pass) auto
        qed
      qed
    qed
  qed
qed

lemma decode_reference:
  assumes "length lg \<noteq> 0" and "securityBytes \<le> length ph div 2"
    and "\<not> (if inAt \<le> outAt then outAt - inAt < length ph else inAt - outAt < length lg)"
  shows "decodeEfuse inAt (Some ph) outAt (Some lg) securityBytes = Some
    (case bank_entries (length lg) (take (length ph - 2 * securityBytes) (drop securityBytes ph)) of
       Inl st \<Rightarrow> (st, Some lg)
     | Inr es \<Rightarrow> (ES_ok, Some (foldl apply_entry (replicate (length lg) 0xff) es)))"
proof -
  let ?e = "length ph - securityBytes"
  have e: "?e \<le> length ph" "securityBytes \<le> ?e" using assms(2) by linarith+
  have br: "bank_rest ph ?e securityBytes = take (length ph - 2 * securityBytes) (drop securityBytes ph)"
    by (simp add: bank_rest_def mult_2)
  note s0 = scan_refine [OF e, where lg = lg and pass = False, unfolded br]
    and s1 = scan_refine [OF e, where lg = "replicate (length lg) 0xff" and pass = True, unfolded br]
  have g: "\<not> (lg = [] \<or> length ph div 2 < securityBytes)" using assms(1,2) by auto
  show ?thesis
    unfolding decodeEfuse_def prod.case option.case if_not_P [OF g] if_not_P [OF assms(3)] Let_def
    using s0 s1 by (auto split: sum.splits)
qed

text \<open>C21: The two-pass eFuse decoder is the one-pass reference. It never reads or writes outside
  its buffers and always ends; when the bank is well formed, the logical image is the erased image with
  the entries of the bank written in order; when it is not, the error is the reference's and the
  logical buffer is untouched.\<close>

theorem efuse_decode_reference:
  assumes "length lg \<noteq> 0" and "securityBytes \<le> length ph div 2"
    and "\<not> (if inAt \<le> outAt then outAt - inAt < length ph else inAt - outAt < length lg)"
  shows "decodeEfuse inAt (Some ph) outAt (Some lg) securityBytes = Some
    (case bank_entries (length lg) (take (length ph - 2 * securityBytes) (drop securityBytes ph)) of
       Inl st \<Rightarrow> (st, Some lg)
     | Inr es \<Rightarrow> (ES_ok, Some (foldl apply_entry (replicate (length lg) 0xff) es)))"
  by (rule decode_reference [OF assms])

definition sample_bank :: bytes where
  "sample_bank = [0, 0] @ [0x00, 0x1e, 0x11, 0x22, 0xff, 0xff] @ [0, 0]"

theorem efuse_decode_reference_witness:
  "decodeEfuse 0 (Some sample_bank) 100 (Some (replicate 16 0)) 2 = Some (ES_ok, Some (replicate 8 0xff @ [0x11, 0x22] @ replicate 6 0xff))"
proof -
  have b: "bank_entries 16 (take (length sample_bank - 2 * 2) (drop 2 sample_bank)) = Inr [(8, 0x11, 0x22)]"
    by code_simp
  have f: "foldl apply_entry (replicate 16 0xff) [(8, 0x11, 0x22)] = replicate 8 0xff @ [0x11, 0x22] @ replicate 6 0xff"
    by code_simp
  have "decodeEfuse 0 (Some sample_bank) 100 (Some (replicate 16 0)) 2 = Some
    (case bank_entries (length (replicate 16 (0 :: u8))) (take (length sample_bank - 2 * 2) (drop 2 sample_bank)) of
       Inl st \<Rightarrow> (st, Some (replicate 16 0))
     | Inr es \<Rightarrow> (ES_ok, Some (foldl apply_entry (replicate (length (replicate 16 (0 :: u8))) 0xff) es)))"
    by (rule efuse_decode_reference) (simp_all add: sample_bank_def)
  then show ?thesis unfolding length_replicate b by (simp only: sum.case f)
qed

section \<open>Calibration fields\<close>

text \<open>Signed fields are integers; the arrays of the source are lists, two paths each.\<close>

definition signedByte :: "u8 \<Rightarrow> int" where
  "signedByte value = (if value < 128 then uint value else uint value - 256)"

definition signedNibble :: "u8 \<Rightarrow> int" where
  "signedNibble value = (let value = value AND 15 in if value < 8 then uint value else uint value - 16)"

record BoardCalibration =
  bc_mac :: bytes
  bc_rfe :: u8
  bc_xtal :: u8
  bc_channelPlan :: u8
  bc_country :: bytes
  bc_thermal :: bytes
  bc_tssiCck :: "int list list"
  bc_tssiMcs :: "int list list"
  bc_gainOffset :: "int list list"
  bc_identityValid :: bool
  bc_xtalValid :: bool
  bc_gainOffsetValid :: bool

definition BoardCalibration0 :: BoardCalibration where
  "BoardCalibration0 = \<lparr>bc_mac = replicate 6 0, bc_rfe = 0, bc_xtal = 0, bc_channelPlan = 0, bc_country = [0, 0], bc_thermal = [0, 0],
     bc_tssiCck = replicate 2 (replicate 6 0), bc_tssiMcs = replicate 2 (replicate 19 0), bc_gainOffset = replicate 2 (replicate 5 0),
     bc_identityValid = False, bc_xtalValid = False, bc_gainOffsetValid = False\<rparr>"

text \<open>Offsets of the packed layout \<open>rtw8852b_efuse\<close>: \<open>path_a_tssi\<close>, \<open>path_b_tssi\<close>; the gains 2G CCK, 2G OFDM, 5G
  low, mid and high.\<close>

definition efuse_tssi :: "nat list" where
  "efuse_tssi = [0x210, 0x23a]"

definition efuse_gains :: "nat list" where
  "efuse_gains = [0x2d6, 0x2d4, 0x2d8, 0x2da, 0x2dc]"

definition parseBoardCalibration :: "bytes option \<Rightarrow> bool \<times> BoardCalibration" where
  "parseBoardCalibration logical = (case logical of
     None \<Rightarrow> (False, BoardCalibration0)
   | Some lg \<Rightarrow> if length lg < 0x48e then (False, BoardCalibration0)
     else let mac = map (\<lambda>i. lg ! (0x400 + i)) [0..<6];
         values = map (\<lambda>g. lg ! g) efuse_gains
       in (True, \<lparr>bc_mac = mac, bc_rfe = lg ! 0x2ca, bc_xtal = lg ! 0x2b9, bc_channelPlan = lg ! 0x2b8,
         bc_country = map (\<lambda>i. lg ! (0x2cb + i)) [0..<2], bc_thermal = [lg ! 0x2d0, lg ! 0x2d1],
         bc_tssiCck = map (\<lambda>t. map (\<lambda>i. signedByte (lg ! (t + i))) [0..<6]) efuse_tssi,
         bc_tssiMcs = map (\<lambda>t. map (\<lambda>i. signedByte (lg ! (t + 6 + i))) [0..<5] @
           map (\<lambda>i. signedByte (lg ! (t + 18 + i))) [0..<14]) efuse_tssi,
         bc_gainOffset = [map (\<lambda>v. signedNibble (drop_bit 4 v)) values, map signedNibble values],
         bc_identityValid = (foldl (OR) 0 mac \<noteq> 0 \<and> mac ! 0 AND 1 = 0 \<and> lg ! 0x2ca \<noteq> 0xff),
         bc_xtalValid = (lg ! 0x2b9 \<noteq> 0xff),
         bc_gainOffsetValid = list_ex (\<lambda>v. v \<noteq> 0xff) values\<rparr>))"

record PhyCalibration =
  pc_tssiTrim :: "int list list"
  pc_gainComp :: "int list list"
  pc_thermalTrim :: bytes
  pc_paBiasTrim :: bytes
  pc_powerValid :: bool
  pc_tssiValid :: bool
  pc_thermalValid :: bool
  pc_paBiasValid :: bool
  pc_gainCompValid :: bool

definition PhyCalibration0 :: PhyCalibration where
  "PhyCalibration0 = \<lparr>pc_tssiTrim = replicate 2 (replicate 8 0), pc_gainComp = replicate 2 (replicate 5 0), pc_thermalTrim = [0, 0],
     pc_paBiasTrim = [0, 0], pc_powerValid = False, pc_tssiValid = False, pc_thermalValid = False, pc_paBiasValid = False,
     pc_gainCompValid = False\<rparr>"

definition phy_gains :: "nat list list" where
  "phy_gains = [[0x5bb, 0x5ba, 0, 0x5b9, 0x5b8], [0x590, 0x58f, 0, 0x58e, 0x58d]]"

definition parsePhyCalibration :: "bytes option \<Rightarrow> bool \<times> PhyCalibration" where
  "parsePhyCalibration phycap = (case phycap of
     None \<Rightarrow> (False, PhyCalibration0)
   | Some pc \<Rightarrow> if length pc < 128 then (False, PhyCalibration0)
     else let tssi = map (\<lambda>t. map (\<lambda>i. pc ! (t - 0x580 - i)) [0..<8]) [0x5d6, 0x5ab];
         thermal = map (\<lambda>t. pc ! (t - 0x580)) [0x5df, 0x5dc];
         bias = map (\<lambda>t. pc ! (t - 0x580)) [0x5de, 0x5db];
         tssiValid = list_ex (list_ex (\<lambda>v. v \<noteq> 0xff)) tssi
       in (True, \<lparr>pc_tssiTrim = (if tssiValid then map (map signedByte) tssi else replicate 2 (replicate 8 0)),
         pc_gainComp = map (map (\<lambda>g. if g \<noteq> 0 then signedNibble (pc ! (g - 0x580)) else 0)) phy_gains,
         pc_thermalTrim = thermal, pc_paBiasTrim = bias,
         pc_powerValid = (pc ! (0x5e9 - 0x580) = 0xaa), pc_tssiValid = tssiValid,
         pc_thermalValid = list_ex (\<lambda>v. v \<noteq> 0xff) thermal, pc_paBiasValid = list_ex (\<lambda>v. v \<noteq> 0xff) bias,
         pc_gainCompValid = list_ex (list_ex (\<lambda>g. g \<noteq> 0 \<and> pc ! (g - 0x580) \<noteq> 0xff)) phy_gains\<rparr>))"

text \<open>The signed fields are the two's complement readings, in their ranges.\<close>

lemma signedByte_sint: "signedByte v = sint v"
proof -
  have "v < 128 \<longleftrightarrow> uint v < 128" by (simp add: word_less_def)
  moreover have "sint v = (uint v + 128) mod 256 - 128"
    by (simp add: sint_uint signed_take_bit_eq_take_bit_shift take_bit_eq_mod)
  moreover have "0 \<le> uint v" "uint v < 256" using uint_lt2p [of v] by simp_all
  moreover have "(uint v + 128) mod 256 = (if uint v < 128 then uint v + 128 else uint v - 128)"
    using calculation(3,4) by (auto simp: mod_pos_pos_trivial intro: mod_pos_geq [THEN trans])
  ultimately show ?thesis by (simp add: signedByte_def)
qed

lemma signedByte_bounds: "- 128 \<le> signedByte v \<and> signedByte v \<le> 127"
  using sint_greater_eq [of v] sint_lt [of v] by (simp add: signedByte_sint)

end
