(* ===== verification/DavEfuseReader.thy ===== *)
theory DavEfuseReader
  imports DeviceIo Efuse
begin

text \<open>The reader of the DAV bank over the crystal serial port in \<open>src/network/DavEfuseReader.hpp\<close>. A loop counts the rounds it has
  left.\<close>

datatype DavStatus = DAV_ok | DAV_invalid | DAV_busy | DAV_ioError | DAV_timeout | DAV_clockError | DAV_cancelled | DAV_cleanupFailed
  | DAV_requiresReset | DAV_decodeFailed

record DavResult =
  dav_status :: DavStatus
  dav_primary :: DavStatus
  dav_decode :: EfuseStatus
  dav_bytesRead :: nat
  dav_validBytes :: nat
  dav_commands :: u32
  dav_polls :: u32
  dav_cleanupAttempted :: bool
  dav_busIdle :: bool
  dav_readEngineIdle :: bool
  dav_requiresReset :: bool
  dav_logicalValid :: bool

definition DavResult0 :: DavResult where
  "DavResult0 = \<lparr>dav_status = DAV_invalid, dav_primary = DAV_invalid, dav_decode = ES_invalid, dav_bytesRead = 0, dav_validBytes = 0,
     dav_commands = 0, dav_polls = 0, dav_cleanupAttempted = False, dav_busIdle = False, dav_readEngineIdle = False,
     dav_requiresReset = False, dav_logicalValid = False\<rparr>"

definition davCommandAllowed :: "u32 \<Rightarrow> bool" where
  "davCommandAllowed command = (if command AND 0xfe000000 \<noteq> 0x80000000 then False
     else let reg = ucast command :: u8; data = ucast (drop_bit 8 command) :: u8; m = ucast (drop_bit 16 command) :: u8 in
       if command AND 0x01000000 \<noteq> 0 then data = 0 \<and> m = 0 \<and> (reg = 0x63 \<or> reg = 0x7a)
       else if reg = 0x62 then m = 0xff \<and> data < 96
       else reg = 0x63 \<and> (m = 0xff \<and> data = 0x40 \<or> m = 7 \<and> data = 0 \<or> m = 0xc0 \<and> data = 0))"

text \<open>The fields of the reader, and the buffer it was given.\<close>

record DavEfuseReader =
  dr_result :: DavResult
  dr_start :: u64
  dr_previous :: u64
  dr_davStarted :: u64
  dr_cleanupStarted :: u64
  dr_cleanupPrevious :: u64
  dr_steps :: u32
  dr_cleanupSteps :: u32
  dr_cleanupDelay :: u32
  dr_pending :: bool
  dr_touched :: bool
  dr_poisoned :: bool
  dr_davPolling :: bool
  dr_out :: bytes

type_synonym ('s, 'a) dav = "(DavEfuseReader, 's, 'a) prog"

definition dr_upd :: "(DavResult \<Rightarrow> DavResult) \<Rightarrow> ('s, unit) dav" where
  "dr_upd f = omod (\<lambda>x. x\<lparr>dr_result := f (dr_result x)\<rparr>)"

definition dr_fail :: "DavStatus \<Rightarrow> ('s, bool) dav" where
  "dr_fail st = do { dr_upd (\<lambda>r. if dav_primary r = DAV_ok then r\<lparr>dav_primary := st\<rparr> else r); ret False }"

definition dr_cleanActive :: "'s Io \<Rightarrow> ('s, bool) dav" where
  "dr_cleanActive d = do {
     now \<leftarrow> dcall (io_nowUs d);
     previous \<leftarrow> ogets dr_cleanupPrevious;
     if now < previous then ret False else do {
       omod (dr_cleanupPrevious_update (\<lambda>_. now));
       ogets (\<lambda>x. now - dr_cleanupStarted x < 100000) } }"

definition dr_cleanDelay :: "'s Io \<Rightarrow> u32 \<Rightarrow> ('s, bool) dav" where
  "dr_cleanDelay d us = do {
     a \<leftarrow> dr_cleanActive d;
     spent \<leftarrow> ogets dr_cleanupDelay;
     if \<not> a \<or> 100000 - spent < us then ret False else do {
       omod (dr_cleanupDelay_update (\<lambda>t. t + us));
       andM (dcall (io_delayUs d us)) (dr_cleanActive d) } }"

definition dr_active :: "'s Io \<Rightarrow> ('s, bool) dav" where
  "dr_active d = do {
     c \<leftarrow> dcall (io_cancelled d);
     if c then dr_fail DAV_cancelled else do {
     now \<leftarrow> dcall (io_nowUs d);
     previous \<leftarrow> ogets dr_previous;
     if now < previous then dr_fail DAV_clockError else do {
     omod (dr_previous_update (\<lambda>_. now));
     late \<leftarrow> ogets (\<lambda>x. 5000000 \<le> now - dr_start x \<or> dr_davPolling x \<and> 10000 \<le> now - dr_davStarted x);
     (if late then ret () else omod (dr_steps_update (\<lambda>n. n + 1)));
     many \<leftarrow> ogets (\<lambda>x. 200000 < dr_steps x);
     if late \<or> many then dr_fail DAV_timeout else ret True } } }"

definition dr_siActive :: "'s Io \<Rightarrow> bool \<Rightarrow> u64 \<Rightarrow> ('s, bool) dav" where
  "dr_siActive d cleanup started = (if cleanup
     then andM (dr_cleanActive d) (ogets (\<lambda>x. dr_cleanupPrevious x - started < 50000))
     else do {
       a \<leftarrow> dr_active d;
       if \<not> a then ret False else orM (ogets (\<lambda>x. dr_previous x - started < 50000)) (dr_fail DAV_timeout) })"

definition dr_failed :: "bool \<Rightarrow> DavStatus \<Rightarrow> ('s, bool) dav" where
  "dr_failed cleanup st = (if cleanup then ret False else dr_fail st)"

fun dr_idle :: "'s Io \<Rightarrow> bool \<Rightarrow> u64 \<Rightarrow> nat \<Rightarrow> ('s, bool) dav" where
  "dr_idle d cleanup started k = do {
     a \<leftarrow> dr_siActive d cleanup started;
     if \<not> a then ret False else do {
     (if cleanup then omod (dr_cleanupSteps_update (\<lambda>n. n + 1)) else ret ());
     many \<leftarrow> ogets (\<lambda>x. cleanup \<and> 20000 < dr_cleanupSteps x);
     if many then ret False else do {
     (ok, value) \<leftarrow> dcall (io_read32 d 0x270);
     if \<not> ok \<or> value = 0xffffffff then dr_failed cleanup DAV_ioError else do {
     dr_upd (dav_polls_update (\<lambda>n. n + 1));
     a \<leftarrow> dr_siActive d cleanup started;
     if \<not> a then ret False
     else if value AND 0x80000000 = 0 then do { omod (dr_pending_update (\<lambda>_. False)); ret True }
     else if k = 0 then dr_failed cleanup DAV_timeout
     else do {
       slept \<leftarrow> if cleanup then dr_cleanDelay d 50 else dcall (io_delayUs d 50);
       if \<not> slept then dr_failed cleanup DAV_ioError else dr_idle d cleanup started (k - 1) } } } } }"

declare dr_idle.simps [simp del]

definition dr_clock :: "bool \<Rightarrow> DavEfuseReader \<Rightarrow> u64" where
  "dr_clock cleanup x = (if cleanup then dr_cleanupPrevious x else dr_previous x)"

text \<open>A transaction gives whether it succeeded and the byte it read, where one is asked for.\<close>

definition dr_transact :: "'s Io \<Rightarrow> u32 \<Rightarrow> bool \<Rightarrow> bool \<Rightarrow> ('s, bool \<times> u8) dav" where
  "dr_transact d command wanted cleanup = (if \<not> davCommandAllowed command then do { b \<leftarrow> dr_failed cleanup DAV_invalid; ret (b, 0) }
     else do {
     a \<leftarrow> if cleanup then dr_cleanActive d else dr_active d;
     if \<not> a then ret (False, 0) else do {
     pending \<leftarrow> ogets dr_pending;
     now \<leftarrow> ogets (dr_clock cleanup);
     free \<leftarrow> if pending then dr_idle d cleanup now 1000 else ret True;
     if \<not> free then ret (False, 0) else do {
     started \<leftarrow> ogets (dr_clock cleanup);
     omod (\<lambda>x. x\<lparr>dr_touched := True, dr_pending := True, dr_result := (dr_result x)\<lparr>dav_commands := dav_commands (dr_result x) + 1\<rparr>\<rparr>);
     w \<leftarrow> dcall (io_write32 d 0x270 command);
     if \<not> w then do { b \<leftarrow> dr_failed cleanup DAV_ioError; ret (b, 0) } else do {
     done \<leftarrow> dr_idle d cleanup started 1000;
     if \<not> done then ret (False, 0) else do {
     (ok, v) \<leftarrow> if wanted then dcall (io_read8 d 0x271) else ret (True, 0);
     if \<not> ok then do { b \<leftarrow> dr_failed cleanup DAV_ioError; ret (b, v) } else do {
     live \<leftarrow> dr_siActive d cleanup started;
     ret (live, v) } } } } } })"

definition dr_write :: "'s Io \<Rightarrow> u8 \<Rightarrow> u8 \<Rightarrow> u8 \<Rightarrow> ('s, bool) dav" where
  "dr_write d reg value m = do {
     (ok, v) \<leftarrow> dr_transact d (0x80000000 OR push_bit 16 (ucast m) OR push_bit 8 (ucast value) OR ucast reg) False False;
     ret ok }"

definition dr_read :: "'s Io \<Rightarrow> u8 \<Rightarrow> bool \<Rightarrow> ('s, bool \<times> u8) dav" where
  "dr_read d reg cleanup = dr_transact d (0x80000000 OR 0x01000000 OR ucast reg) True cleanup"

fun dr_drain :: "'s Io \<Rightarrow> nat \<Rightarrow> ('s, bool) dav" where
  "dr_drain d k = do {
     (ok, control) \<leftarrow> dr_read d 0x63 True;
     if \<not> ok then do { omod (\<lambda>x. x\<lparr>dr_result := (dr_result x)\<lparr>dav_busIdle := \<not> dr_pending x\<rparr>\<rparr>); ret False }
     else if control AND 0xc0 = 0x40 \<or> control AND 0x20 \<noteq> 0 then do { dr_upd (dav_readEngineIdle_update (\<lambda>_. True)); ret True }
     else if k = 0 then ret False
     else do {
       slept \<leftarrow> dr_cleanDelay d 1;
       if \<not> slept then ret False else dr_drain d (k - 1) } }"

declare dr_drain.simps [simp del]

definition dr_cleanup :: "'s Io \<Rightarrow> ('s, bool) dav" where
  "dr_cleanup d = do {
     dr_upd (dav_cleanupAttempted_update (\<lambda>_. True));
     omod (\<lambda>x. x\<lparr>dr_cleanupSteps := 0, dr_cleanupDelay := 0\<rparr>);
     now \<leftarrow> dcall (io_nowUs d);
     omod (\<lambda>x. x\<lparr>dr_cleanupStarted := now, dr_cleanupPrevious := now\<rparr>);
     free \<leftarrow> dr_idle d True now 1000;
     if \<not> free then ret False else do {
     dr_upd (dav_busIdle_update (\<lambda>_. True));
     dr_drain d 10000 } }"

text \<open>The wait for one byte.\<close>

fun dr_wait :: "'s Io \<Rightarrow> nat \<Rightarrow> ('s, bool) dav" where
  "dr_wait d k = do {
     (ok, control) \<leftarrow> dr_read d 0x63 False;
     if \<not> ok then ret False
     else if control AND 0x20 \<noteq> 0 then ret True
     else if k = 0 then dr_fail DAV_timeout
     else do {
       slept \<leftarrow> dcall (io_delayUs d 1);
       if \<not> slept then dr_fail DAV_ioError else dr_wait d (k - 1) } }"

declare dr_wait.simps [simp del]

definition dr_byte :: "'s Io \<Rightarrow> u32 \<Rightarrow> nat \<Rightarrow> ('s, bool) dav" where
  "dr_byte d address i = do {
     a \<leftarrow> andM (dr_write d 0x63 0x40 0xff) (andM (dr_write d 0x62 (ucast (address + of_nat i)) 0xff)
       (andM (dr_write d 0x63 0 7) (dr_write d 0x63 0 0xc0)));
     if \<not> a then ret False else do {
     omod (\<lambda>x. x\<lparr>dr_davStarted := dr_previous x, dr_davPolling := True\<rparr>);
     ready \<leftarrow> dr_wait d 10000;
     omod (dr_davPolling_update (\<lambda>_. False));
     if \<not> ready then ret False else do {
     (ok, value) \<leftarrow> dr_read d 0x7a False;
     if \<not> ok then ret False else do {
     omod (\<lambda>x. x\<lparr>dr_out := (dr_out x)[i := value],
       dr_result := (dr_result x)\<lparr>dav_bytesRead := dav_bytesRead (dr_result x) + 1\<rparr>\<rparr>);
     ret True } } } }"

text \<open>The first look at the port: another transaction may be outstanding.\<close>

definition dr_probe :: "'s Io \<Rightarrow> ('s, bool) dav" where
  "dr_probe d = do {
     a \<leftarrow> dr_active d;
     if \<not> a then ret False else do {
     (ok, initial) \<leftarrow> dcall (io_read32 d 0x270);
     if \<not> ok \<or> initial = 0xffffffff then dr_fail DAV_ioError
     else if initial AND 0x80000000 \<noteq> 0 then dr_fail DAV_busy else ret True } }"

definition readPhysical :: "'s Io \<Rightarrow> u32 \<Rightarrow> nat \<Rightarrow> bool \<Rightarrow> nat \<Rightarrow> ('s, DavResult) dav" where
  "readPhysical d address count present capacity = do {
     omod (\<lambda>x. x\<lparr>dr_result := DavResult0, dr_pending := False, dr_touched := False, dr_davPolling := False, dr_steps := 0\<rparr>);
     poisoned \<leftarrow> ogets dr_poisoned;
     if poisoned then do {
       dr_upd (\<lambda>r. r\<lparr>dav_status := DAV_requiresReset, dav_primary := DAV_requiresReset, dav_requiresReset := True\<rparr>);
       ogets dr_result }
     else if \<not> present \<or> count = 0 \<or> capacity < count \<or> 96 \<le> unat address \<or> 96 - unat address < count then ogets dr_result
     else do {
     dr_upd (dav_primary_update (\<lambda>_. DAV_ok));
     now \<leftarrow> dcall (io_nowUs d);
     omod (\<lambda>x. x\<lparr>dr_start := now, dr_previous := now\<rparr>);
     dr_probe d;
     free \<leftarrow> ogets (\<lambda>x. dav_primary (dr_result x) = DAV_ok);
     (if free then allM (dr_byte d address) [0..<count] else ret False);
     dr_upd (\<lambda>r. r\<lparr>dav_status := dav_primary r\<rparr>);
     touched \<leftarrow> ogets dr_touched;
     clean \<leftarrow> if touched then dr_cleanup d else ret True;
     (if \<not> clean then omod (\<lambda>x. x\<lparr>dr_poisoned := True,
         dr_result := (dr_result x)\<lparr>dav_status := DAV_cleanupFailed, dav_requiresReset := True\<rparr>\<rparr>) else ret ());
     omod (\<lambda>x. if dav_status (dr_result x) = DAV_ok
       then x\<lparr>dr_result := (dr_result x)\<lparr>dav_validBytes := dav_bytesRead (dr_result x)\<rparr>\<rparr>
       else x\<lparr>dr_out := replicate (dav_bytesRead (dr_result x)) 0 @ drop (dav_bytesRead (dr_result x)) (dr_out x)\<rparr>);
     ogets dr_result } }"

text \<open>The physical buffer is the reader's; the logical one is a value, with both addresses. The result carries what
  is then in the logical buffer.\<close>

definition readLogical :: "'s Io \<Rightarrow> nat \<Rightarrow> bool \<Rightarrow> nat \<Rightarrow> nat \<Rightarrow> bytes option \<Rightarrow> ('s, DavResult \<times> bytes option) dav" where
  "readLogical d inAt present physicalCapacity outAt logical = (
     if \<not> present \<or> physicalCapacity < 96 \<or> logical = None \<or> length (the logical) < 16 then ret (DavResult0, logical)
     else if (if inAt \<le> outAt then outAt - inAt < 96 else inAt - outAt < 16) then ret (DavResult0, logical)
     else do {
     result \<leftarrow> readPhysical d 0 96 present physicalCapacity;
     if dav_status result \<noteq> DAV_ok then ret (result, logical) else do {
     physical \<leftarrow> ogets dr_out;
     (case decodeEfuse inAt (Some (take 96 physical)) outAt (map_option (take 16) logical) 4 of
        None \<Rightarrow> ret (result, logical)
      | Some (st, lg) \<Rightarrow> do {
          lg \<leftarrow> ret (Some (the lg @ drop 16 (the logical)));
          result \<leftarrow> ret (result\<lparr>dav_decode := st, dav_logicalValid := st = ES_ok\<rparr>);
          ret (if dav_logicalValid result then result else result\<lparr>dav_status := DAV_decodeFailed, dav_primary := DAV_decodeFailed\<rparr>, lg) }) } })"

section \<open>What reaches the device\<close>

text \<open>Delays, and allowed commands on the serial port.\<close>

definition dav_writes :: "io_event set" where
  "dav_writes = {e. (\<exists>t. e = Io_delay t) \<or> (\<exists>c. e = Io_write32 0x270 c \<and> davCommandAllowed c)}"

lemma dr_frames [frame_rules]:
  "frames W (dr_upd u)" "frames W (dr_fail st)" "frames W (dr_failed b st)" "frames W (dr_cleanActive (io_logged d))"
  "frames W (dr_active (io_logged d))" "frames W (dr_siActive (io_logged d) b t)" "frames W (dr_probe (io_logged d))"
  unfolding dr_upd_def dr_fail_def dr_failed_def dr_cleanActive_def dr_active_def dr_siActive_def dr_probe_def io_logged_simps
  by (intro frame_rules)+

lemma dr_delay_frames [frame_rules]: "frames dav_writes (dcall (io_delayUs (io_logged d) t))" "frames dav_writes (dr_cleanDelay (io_logged d) t)"
  unfolding dr_cleanDelay_def io_logged_simps by (auto intro!: frame_rules simp: dav_writes_def)

lemma dr_idle_frames [frame_rules]: "frames dav_writes (dr_idle (io_logged d) cleanup started k)"
proof (induction k)
  case 0
  show ?case by (subst dr_idle.simps) (simp only: simp_thms if_True io_logged_simps(8), intro frame_rules)
next
  case (Suc k)
  show ?case by (subst dr_idle.simps) (simp only: nat.distinct diff_Suc_1 if_False io_logged_simps(8), intro frame_rules Suc)
qed

lemma dr_transact_frames [frame_rules]: "frames dav_writes (dr_transact (io_logged d) command wanted cleanup)"
  unfolding dr_transact_def io_logged_simps(6,11) by (intro frame_rules) (auto simp: dav_writes_def)

lemma dr_access_frames [frame_rules]: "frames dav_writes (dr_write (io_logged d) r v m)" "frames dav_writes (dr_read (io_logged d) r b)"
  unfolding dr_write_def dr_read_def by (intro frame_rules)+

lemma dr_loop_frames [frame_rules]: "frames dav_writes (dr_drain (io_logged d) k)" "frames dav_writes (dr_wait (io_logged d) k)"
proof (induction k)
  case 0
  { case 1 show ?case by (subst dr_drain.simps) (simp only: simp_thms if_True, intro frame_rules) }
  { case 2 show ?case by (subst dr_wait.simps) (simp only: simp_thms if_True, intro frame_rules) }
next
  case (Suc k)
  { case 1 show ?case by (subst dr_drain.simps) (simp only: nat.distinct diff_Suc_1 if_False, intro frame_rules Suc) }
  { case 2 show ?case by (subst dr_wait.simps) (simp only: nat.distinct diff_Suc_1 if_False, intro frame_rules Suc) }
qed

lemma dr_step_frames [frame_rules]: "frames dav_writes (dr_cleanup (io_logged d))" "frames dav_writes (dr_byte (io_logged d) a i)"
  unfolding dr_cleanup_def dr_byte_def io_logged_simps(4) by (intro frame_rules)+

lemma readPhysical_frames [frame_rules]: "frames dav_writes (readPhysical (io_logged d) address count present capacity)"
  unfolding readPhysical_def io_logged_simps(4) by (intro frame_rules)

lemma readLogical_frames: "frames dav_writes (readLogical (io_logged d) i present cap j logical)"
  unfolding readLogical_def by (auto intro!: frame_rules split: option.split)

section \<open>A successful read is complete\<close>

text \<open>As for the DDV reader: \<open>k\<close> bytes without a failure, or a recorded failure.\<close>

definition dr_base :: "bytes \<Rightarrow> nat \<Rightarrow> DavEfuseReader \<Rightarrow> bool" where
  "dr_base out count x \<longleftrightarrow> dav_validBytes (dr_result x) = 0 \<and> dav_bytesRead (dr_result x) \<le> count \<and>
     length (dr_out x) = length out \<and> drop count (dr_out x) = drop count out"

definition dr_at :: "bytes \<Rightarrow> nat \<Rightarrow> nat \<Rightarrow> bool \<Rightarrow> DavEfuseReader \<Rightarrow> bool" where
  "dr_at out count k t x \<longleftrightarrow> dr_base out count x \<and> (t \<longrightarrow> dr_touched x) \<and> dav_primary (dr_result x) = DAV_ok \<and> dav_bytesRead (dr_result x) = k"

definition dr_bad :: "bytes \<Rightarrow> nat \<Rightarrow> DavEfuseReader \<Rightarrow> bool" where
  "dr_bad out count x \<longleftrightarrow> dr_base out count x \<and> dav_primary (dr_result x) \<notin> {DAV_ok, DAV_cleanupFailed}"

lemmas dr_states = dr_at_def dr_bad_def dr_base_def
lemmas dr_wp = wp_simps wp_dcall dr_upd_def dr_fail_def dr_failed_def split_beta

definition dr_next :: "bytes \<Rightarrow> nat \<Rightarrow> nat \<Rightarrow> bool \<Rightarrow> bool \<Rightarrow> DavEfuseReader \<Rightarrow> bool" where
  "dr_next out count k t a y = (if a then dr_at out count k t y else dr_bad out count y)"

lemma dr_next_simps: "dr_next out count k t True = dr_at out count k t" "dr_next out count k t False = dr_bad out count"
  by (simp_all add: fun_eq_iff dr_next_def)

lemma dr_active_keeps: "keeps (dr_at out count k t) (dr_active d) (dr_next out count k t)"
  unfolding keeps_def dr_active_def by (auto simp: dr_wp dr_states dr_next_def Let_def)

lemma dr_fail_keeps: "st \<notin> {DAV_ok, DAV_cleanupFailed} \<Longrightarrow> keeps (dr_at out count k t) (dr_fail st) (dr_next out count j u)"
  unfolding keeps_def by (auto simp: dr_wp dr_states dr_next_def)

lemma dr_next_guard:
  assumes "keeps P m (dr_next out count k t)" and "keeps (dr_at out count k t) n Q" and "keeps (dr_bad out count) z Q"
  shows "keeps P (do { a \<leftarrow> m; if \<not> a then z else n }) Q"
  by (rule keeps_guard [OF assms(1) [unfolded dr_next_def]]) (use assms in auto)

lemma dr_end_keeps: "keeps (dr_bad out count) (ret False) (dr_next out count k t)" "keeps (dr_at out count k t) (ret True) (dr_next out count k t)"
  unfolding keeps_def dr_next_def by (simp_all add: wp_simps)

lemma dr_siActive_keeps: "keeps (dr_at out count k t) (dr_siActive d False started) (dr_next out count k t)"
  unfolding dr_siActive_def if_False orM_def
  by (rule dr_next_guard [OF dr_active_keeps], rule keeps_bind [OF keeps_same(3)])
    (auto intro!: dr_fail_keeps dr_end_keeps)

lemma dr_probe_keeps: "keeps (dr_at out count k t) (dr_probe d) (dr_next out count k t)"
  unfolding dr_probe_def
  by (rule dr_next_guard [OF dr_active_keeps], rule keeps_bind [OF keeps_same(2)])
    (auto intro!: keeps_prod dr_fail_keeps dr_end_keeps)

lemma dr_note_keeps [keep_rules]:
  "keeps (dr_at out count k t) (dr_upd (dav_polls_update f)) (\<lambda>_. dr_at out count k t)"
  "keeps (dr_at out count k t) (omod (dr_pending_update g)) (\<lambda>_. dr_at out count k t)"
  unfolding dr_upd_def by (intro keep_rules; simp add: dr_states)+

lemma dr_idle_step:
  assumes "n \<noteq> 0 \<Longrightarrow> keeps (dr_at out count k t) (dr_idle d False started (n - 1)) (dr_next out count k t)"
  shows "keeps (dr_at out count k t) (dr_idle d False started n) (dr_next out count k t)"
proof -
  have sleep: "keeps (dr_at out count k t) (do {
       slept \<leftarrow> dcall (io_delayUs d 50);
       if \<not> slept then dr_fail DAV_ioError else dr_idle d False started (n - 1) }) (dr_next out count k t)" if "n \<noteq> 0"
    by (rule keeps_same_guard, rule keeps_same(2), rule assms [OF that], rule dr_fail_keeps, simp)
  have ready: "keeps (dr_at out count k t) (do { omod (dr_pending_update (\<lambda>_. False)); ret True }) (dr_next out count k t)"
    by (rule keeps_bind [OF dr_note_keeps(2)]) (rule dr_end_keeps)
  show ?thesis
    by (subst dr_idle.simps, unfold if_False simp_thms ogets_const dr_failed_def State_Monad.bind_left_identity, rule dr_next_guard [OF dr_siActive_keeps _ dr_end_keeps(1)], rule keeps_bind [OF keeps_same(2)], intro keeps_prod keeps_if,
        rule dr_fail_keeps, simp, rule keeps_bind [OF dr_note_keeps(1)], rule dr_next_guard [OF dr_siActive_keeps _ dr_end_keeps(1)],
        intro keeps_if ready sleep) (auto intro!: dr_fail_keeps)
qed

lemma dr_idle_keeps: "keeps (dr_at out count k t) (dr_idle d False started n) (dr_next out count k t)"
  by (induction n) (auto intro: dr_idle_step)

definition dr_nextv :: "bytes \<Rightarrow> nat \<Rightarrow> nat \<Rightarrow> bool \<times> u8 \<Rightarrow> DavEfuseReader \<Rightarrow> bool" where
  "dr_nextv out count k r y = (if fst r then dr_at out count k True y else dr_bad out count y)"

lemma dr_fail_pair: "st \<notin> {DAV_ok, DAV_cleanupFailed} \<Longrightarrow> keeps (dr_at out count k t) (do { b \<leftarrow> dr_fail st; ret (b, v) }) (dr_nextv out count j)"
  unfolding keeps_def by (auto simp: dr_wp dr_states dr_nextv_def)

lemma dr_bad_pair: "keeps (dr_bad out count) (ret (False, v)) (dr_nextv out count j)"
  unfolding keeps_def by (auto simp: dr_wp dr_nextv_def)

lemma dr_touch_keeps: "keeps (dr_at out count k t) (omod (\<lambda>x. x\<lparr>dr_touched := True, dr_pending := True,
    dr_result := (dr_result x)\<lparr>dav_commands := dav_commands (dr_result x) + 1\<rparr>\<rparr>)) (\<lambda>_. dr_at out count k True)"
  by (rule keeps_obj) (simp add: dr_states)

lemma dr_live_pair: "keeps (dr_at out count k True) (do { live \<leftarrow> dr_siActive d False started; ret (live, v) }) (dr_nextv out count k)"
  by (rule keeps_bind [OF dr_siActive_keeps]) (rule keeps_obj, auto simp: dr_next_def dr_nextv_def)

lemma dr_free_keeps: "keeps (dr_at out count k t) (if pending then dr_idle d False now 1000 else ret True) (dr_next out count k t)"
  by (auto intro: dr_idle_keeps dr_end_keeps)

lemma dr_data_keeps [keep_rules]: "keeps P (if wanted then dcall (io_read8 d a) else ret v) (\<lambda>_. P)"
  by (intro keep_rules)

lemma dr_transact_keeps: "keeps (dr_at out count k t) (dr_transact d command wanted False) (dr_nextv out count k)"
  unfolding dr_transact_def if_False dr_failed_def
  by (rule keeps_if, rule dr_fail_pair, simp, rule dr_next_guard [OF dr_active_keeps _ dr_bad_pair],
      rule keeps_bind [OF keeps_same(3)], rule keeps_bind [OF keeps_same(3)], rule dr_next_guard [OF dr_free_keeps _ dr_bad_pair],
      rule keeps_bind [OF keeps_same(3)], rule keeps_bind [OF dr_touch_keeps], rule keeps_same_guard, rule keeps_same(2),
      rule dr_next_guard [OF dr_idle_keeps _ dr_bad_pair], rule keeps_bind [OF dr_data_keeps], rule keeps_prod, rule keeps_if,
      rule dr_fail_pair, simp, rule dr_live_pair, rule dr_fail_pair, simp)

lemma dr_write_keeps: "keeps (dr_at out count k t) (dr_write d reg value m) (dr_next out count k True)"
  unfolding dr_write_def
  by (rule keeps_bind [OF dr_transact_keeps]) (simp add: split_beta keeps_def wp_simps dr_nextv_def dr_next_def)

text \<open>A read continues only after a success.\<close>

lemma dr_read_then:
  assumes "\<And>v. keeps (dr_at out count k True) (f v) Q" and "\<And>y. dr_bad out count y \<Longrightarrow> Q False y"
  shows "keeps (dr_at out count k t) (do { (ok, v) \<leftarrow> dr_read d reg False; if \<not> ok then ret False else f v }) Q"
proof -
  have "keeps (dr_nextv out count k a) (case a of (ok, v) \<Rightarrow> if \<not> ok then ret False else f v) Q" for a
    using assms by (cases a) (auto simp: dr_nextv_def keeps_def wp_simps)
  then show ?thesis unfolding dr_read_def by (rule keeps_bind [OF dr_transact_keeps])
qed

lemma dr_wait_keeps: "keeps (dr_at out count k t) (dr_wait d n) (dr_next out count k True)"
proof (induction n arbitrary: t)
  case 0
  show ?case
    by (subst dr_wait.simps, rule dr_read_then) (auto intro!: dr_fail_keeps dr_end_keeps simp: dr_next_def)
next
  case (Suc n)
  have "keeps (dr_at out count k True) (do { slept \<leftarrow> dcall (io_delayUs d 1); if \<not> slept then dr_fail DAV_ioError else dr_wait d n })
      (dr_next out count k True)"
    by (rule keeps_same_guard, rule keeps_same(2), rule Suc, rule dr_fail_keeps, simp)
  then show ?case
    by (subst dr_wait.simps, unfold nat.distinct diff_Suc_1 if_False, intro dr_read_then keeps_if dr_end_keeps) (auto simp: dr_next_simps)
qed

lemma dr_next_and:
  assumes "keeps P m (dr_next out count k t)" and "keeps (dr_at out count k t) n (dr_next out count k t)"
  shows "keeps P (andM m n) (dr_next out count k t)"
  by (rule keeps_and [OF assms(1) [unfolded dr_next_def] assms(2)]) (simp add: dr_next_def)

lemma dr_polling_keeps: "keeps (dr_at out count k t) (omod (\<lambda>x. x\<lparr>dr_davStarted := dr_previous x, dr_davPolling := True\<rparr>)) (\<lambda>_. dr_at out count k t)"
  "keeps (dr_next out count k t a) (omod (dr_davPolling_update f)) (\<lambda>_. dr_next out count k t a)"
  by (rule keeps_obj, simp add: dr_states) (rule keeps_obj, cases a, simp_all add: dr_next_simps dr_states)

lemma dr_store_keeps:
  assumes "i < count" "count \<le> length out"
  shows "keeps (dr_at out count i True) (do {
     omod (\<lambda>x. x\<lparr>dr_out := (dr_out x)[i := v],
       dr_result := (dr_result x)\<lparr>dav_bytesRead := dav_bytesRead (dr_result x) + 1\<rparr>\<rparr>);
     ret True }) (dr_next out count (Suc i) True)"
  unfolding keeps_def using assms by (simp add: dr_wp dr_states dr_next_def)

lemma dr_byte_keeps:
  assumes "i < count" "count \<le> length out"
  shows "keeps (dr_at out count i t) (dr_byte d address i) (dr_next out count (Suc i) True)"
proof -
  have get: "keeps (dr_at out count i True) (do {
     (ok, value) \<leftarrow> dr_read d 0x7a False;
     if \<not> ok then ret False else do {
     omod (\<lambda>x. x\<lparr>dr_out := (dr_out x)[i := value],
       dr_result := (dr_result x)\<lparr>dav_bytesRead := dav_bytesRead (dr_result x) + 1\<rparr>\<rparr>);
     ret True } }) (dr_next out count (Suc i) True)"
    by (rule dr_read_then, rule dr_store_keeps [OF assms]) (simp add: dr_next_def)
  have after: "keeps (dr_next out count i True a) (do {
     omod (dr_davPolling_update (\<lambda>_. False));
     if \<not> a then ret False else do {
     (ok, value) \<leftarrow> dr_read d 0x7a False;
     if \<not> ok then ret False else do {
     omod (\<lambda>x. x\<lparr>dr_out := (dr_out x)[i := value],
       dr_result := (dr_result x)\<lparr>dav_bytesRead := dav_bytesRead (dr_result x) + 1\<rparr>\<rparr>);
     ret True } } }) (dr_next out count (Suc i) True)" for a
    by (rule keeps_bind [OF dr_polling_keeps(2)], cases a) (use get dr_end_keeps in \<open>simp_all add: dr_next_simps\<close>)
  show ?thesis unfolding dr_byte_def
    by (rule dr_next_guard [where out = out and count = count and k = i and t = True], intro dr_next_and dr_write_keeps,
        rule keeps_bind [OF dr_polling_keeps(1)], rule keeps_bind [OF dr_wait_keeps], rule after, rule dr_end_keeps)
qed

section \<open>Cleaning up\<close>

text \<open>Draining the engines touches none of the fields that decide the result, and reports success only with both
  engines idle.\<close>

definition dr_core :: "DavEfuseReader \<Rightarrow> bytes \<times> bool \<times> DavStatus \<times> nat \<times> nat" where
  "dr_core x = (dr_out x, dr_poisoned x, dav_status (dr_result x), dav_bytesRead (dr_result x), dav_validBytes (dr_result x))"

definition dr_quiet :: "bytes \<times> bool \<times> DavStatus \<times> nat \<times> nat \<Rightarrow> bool \<Rightarrow> DavEfuseReader \<Rightarrow> bool" where
  "dr_quiet c b x \<longleftrightarrow> dr_core x = c \<and> (b \<longrightarrow> dav_busIdle (dr_result x))"

lemmas dr_quiet_simps = dr_quiet_def dr_core_def

lemma dr_clean_keep [keep_rules]:
  "keeps (dr_quiet c b) (dr_cleanActive d) (\<lambda>_. dr_quiet c b)" "keeps (dr_quiet c b) (dr_siActive d True t) (\<lambda>_. dr_quiet c b)"
  "keeps (dr_quiet c b) (dr_cleanDelay d us) (\<lambda>_. dr_quiet c b)"
  unfolding dr_cleanDelay_def dr_siActive_def if_True dr_cleanActive_def by (intro keep_rules; simp add: dr_quiet_simps)+

lemma dr_quiet_upd [keep_rules]:
  "keeps (dr_quiet c b) (dr_upd (dav_polls_update f)) (\<lambda>_. dr_quiet c b)" "keeps (dr_quiet c b) (omod (dr_pending_update g)) (\<lambda>_. dr_quiet c b)"
  "keeps (dr_quiet c b) (omod (dr_cleanupSteps_update h)) (\<lambda>_. dr_quiet c b)"
  "keeps (dr_quiet c b) (omod (\<lambda>x. x\<lparr>dr_touched := True, dr_pending := True, dr_result := (dr_result x)\<lparr>dav_commands := dav_commands (dr_result x) + 1\<rparr>\<rparr>)) (\<lambda>_. dr_quiet c b)"
  unfolding dr_upd_def by (intro keep_rules; simp add: dr_quiet_simps)+

lemma dr_idle_quiet [keep_rules]: "keeps (dr_quiet c b) (dr_idle d True t n) (\<lambda>_. dr_quiet c b)"
proof (induction n)
  case 0
  show ?case by (subst dr_idle.simps) (simp only: if_True dr_failed_def simp_thms, intro keep_rules)
next
  case (Suc n)
  show ?case by (subst dr_idle.simps) (simp only: if_True if_False dr_failed_def simp_thms nat.distinct diff_Suc_1, intro keep_rules Suc)
qed

lemma dr_read_quiet [keep_rules]: "keeps (dr_quiet c b) (dr_read d reg True) (\<lambda>_. dr_quiet c b)"
  unfolding dr_read_def dr_transact_def if_True dr_failed_def by (intro keep_rules)

lemma dr_drain_keeps: "keeps (dr_quiet c True) (dr_drain d n) (\<lambda>a y. dr_quiet c a y \<and> (a \<longrightarrow> dav_readEngineIdle (dr_result y)))"
proof (induction n)
  case 0
  show ?case
    by (subst dr_drain.simps, rule keeps_bind [OF dr_read_quiet])
      (auto simp: keeps_def dr_wp dr_quiet_simps)
next
  case (Suc n)
  have sleep: "keeps (dr_quiet c True) (do { slept \<leftarrow> dr_cleanDelay d 1; if \<not> slept then ret False else dr_drain d n })
      (\<lambda>a y. dr_quiet c a y \<and> (a \<longrightarrow> dav_readEngineIdle (dr_result y)))"
    by (rule keeps_same_guard, rule dr_clean_keep, rule Suc) (simp add: keeps_def wp_simps dr_quiet_simps)
  show ?case
    by (subst dr_drain.simps, unfold nat.distinct diff_Suc_1 if_False, rule keeps_bind [OF dr_read_quiet], intro keeps_prod keeps_if sleep)
      (auto simp: keeps_def dr_wp dr_quiet_simps)
qed

lemma dr_cleanup_keeps: "keeps (dr_quiet c False) (dr_cleanup d) (\<lambda>a y. dr_quiet c a y \<and> (a \<longrightarrow> dav_readEngineIdle (dr_result y)))"
  unfolding dr_cleanup_def dr_upd_def
  by (rule keeps_bind [OF keeps_same_mod], simp add: dr_quiet_simps, rule keeps_bind [OF keeps_same_mod], simp add: dr_quiet_simps,
      rule keeps_bind [OF keeps_same(2)], rule keeps_bind [OF keeps_same_mod], simp add: dr_quiet_simps,
      rule keeps_same_guard [OF dr_idle_quiet], rule keeps_bind [OF keeps_obj(1) [where Q = "\<lambda>_. dr_quiet c True"]],
      simp add: dr_quiet_simps, rule dr_drain_keeps, simp add: keeps_def wp_simps dr_quiet_simps)

text \<open>What a call leaves: the result, the buffer, and the reader's poisoned flag.\<close>

definition dr_done :: "bytes \<Rightarrow> nat \<Rightarrow> DavResult \<Rightarrow> DavEfuseReader \<Rightarrow> bool" where
  "dr_done out count r y \<longleftrightarrow> length (dr_out y) = length out \<and> drop count (dr_out y) = drop count out \<and>
     (if dav_status r = DAV_ok
      then dav_validBytes r = count \<and> dav_bytesRead r = count \<and> dav_busIdle r \<and> dav_readEngineIdle r
      else dav_validBytes r = 0 \<and> (\<forall>i < dav_bytesRead r. dr_out y ! i = 0)) \<and>
     (dav_status r = DAV_cleanupFailed \<longrightarrow> dr_poisoned y)"

definition dr_tail :: "'s Io \<Rightarrow> ('s, DavResult) dav" where
  "dr_tail d = do {
     dr_upd (\<lambda>r. r\<lparr>dav_status := dav_primary r\<rparr>);
     touched \<leftarrow> ogets dr_touched;
     clean \<leftarrow> if touched then dr_cleanup d else ret True;
     (if \<not> clean then omod (\<lambda>x. x\<lparr>dr_poisoned := True,
         dr_result := (dr_result x)\<lparr>dav_status := DAV_cleanupFailed, dav_requiresReset := True\<rparr>\<rparr>) else ret ());
     omod (\<lambda>x. if dav_status (dr_result x) = DAV_ok
       then x\<lparr>dr_result := (dr_result x)\<lparr>dav_validBytes := dav_bytesRead (dr_result x)\<rparr>\<rparr>
       else x\<lparr>dr_out := replicate (dav_bytesRead (dr_result x)) 0 @ drop (dav_bytesRead (dr_result x)) (dr_out x)\<rparr>);
     ogets dr_result }"

lemma dr_tail_keeps:
  assumes "count \<le> length out" and "0 < count"
  shows "keeps (\<lambda>x. dr_at out count count True x \<or> dr_bad out count x) (dr_tail d) (dr_done out count)"
  unfolding keeps_def
proof (intro allI impI)
  fix x :: DavEfuseReader and s :: 'a
  assume x: "dr_at out count count True x \<or> dr_bad out count x"
  let ?x = "x\<lparr>dr_result := (dr_result x)\<lparr>dav_status := dav_primary (dr_result x)\<rparr>\<rparr>"
  have base: "length (dr_out x) = length out" "drop count (dr_out x) = drop count out" "dav_bytesRead (dr_result x) \<le> count"
    "dav_validBytes (dr_result x) = 0" using x by (auto simp: dr_states)
  show "wp (dr_tail d) (\<lambda>r (y, _). dr_done out count r y) (x, s)"
  proof (cases "dr_touched x")
    case True
    have "wp (dr_cleanup d) (\<lambda>clean. wp (do {
      (if \<not> clean then omod (\<lambda>x. x\<lparr>dr_poisoned := True,
         dr_result := (dr_result x)\<lparr>dav_status := DAV_cleanupFailed, dav_requiresReset := True\<rparr>\<rparr>) else ret ());
      omod (\<lambda>x. if dav_status (dr_result x) = DAV_ok
       then x\<lparr>dr_result := (dr_result x)\<lparr>dav_validBytes := dav_bytesRead (dr_result x)\<rparr>\<rparr>
       else x\<lparr>dr_out := replicate (dav_bytesRead (dr_result x)) 0 @ drop (dav_bytesRead (dr_result x)) (dr_out x)\<rparr>);
      ogets dr_result }) (\<lambda>r (y, _). dr_done out count r y)) (?x, s)"
      by (rule keepsD [OF dr_cleanup_keeps [where c = "dr_core ?x"]])
        (use x base assms in \<open>auto simp: dr_wp dr_states dr_done_def dr_quiet_simps nth_append Let_def\<close>)
    then show ?thesis using True by (simp add: dr_tail_def dr_wp)
  next
    case False
    then have "dav_primary (dr_result x) \<notin> {DAV_ok, DAV_cleanupFailed}" using x by (auto simp: dr_states)
    then show ?thesis using False base assms by (auto simp: dr_tail_def dr_wp dr_done_def nth_append)
  qed
qed

lemma dr_bytes_keep:
  assumes "count \<le> length out" and "0 < count"
  shows "keeps (dr_at out count 0 False) (allM (dr_byte d address) [0..<count]) (dr_next out count count True)"
proof -
  have step: "keeps (dr_at out count i (0 < i)) (dr_byte d address i)
      (\<lambda>a y. if a then dr_at out count (Suc i) (0 < Suc i) y else dr_bad out count y)" if "i < count" for i
    by (rule keeps_weaken [OF dr_byte_keeps [OF that assms(1)]]) (auto simp: dr_next_def split: if_splits)
  have "keeps (dr_at out count 0 (0 < (0 :: nat))) (allM (dr_byte d address) [0..<count])
    (\<lambda>a y. if a then dr_at out count count (0 < count) y else dr_bad out count y)"
    by (rule keeps_all [where I = "\<lambda>k. dr_at out count k (0 < k)", OF step]) simp_all
  then show ?thesis by (rule keeps_weaken) (use assms(2) in \<open>auto simp: dr_next_def split: if_splits\<close>)
qed

lemma readPhysical_keeps:
  assumes "count \<le> length out"
  shows "keeps (\<lambda>x. dr_out x = out) (readPhysical d address count present capacity) (dr_done out count)"
proof (cases "present \<and> count \<noteq> 0")
  case False
  have "dr_done out count r y" if "dr_out y = out" "dav_validBytes r = 0" "dav_bytesRead r = 0" "dav_status r \<in> {DAV_invalid, DAV_requiresReset}" for r y
    using that by (auto simp: dr_done_def)
  then show ?thesis using False unfolding keeps_def readPhysical_def by (auto simp: dr_wp DavResult0_def)
next
  case True
  have trivial: "dr_done out count r y" if "dr_out y = out" "dav_validBytes r = 0" "dav_bytesRead r = 0" "dav_status r \<in> {DAV_invalid, DAV_requiresReset}" for r y
    using that by (auto simp: dr_done_def)
  let ?body = "do { free \<leftarrow> ogets (\<lambda>x. dav_primary (dr_result x) = DAV_ok);
     (if free then allM (dr_byte d address) [0..<count] else ret False); dr_tail d }"
  have tail: "keeps (dr_next out count count True a) (dr_tail d) (dr_done out count)" for a
    by (rule keeps_weaken [OF dr_tail_keeps [OF assms]]) (use True in \<open>auto simp: dr_next_def split: if_splits\<close>)
  have "keeps (dr_next out count 0 False a) ?body (dr_done out count)" for a
  proof (rule keeps_bind [OF keeps_obj(2) [where R = "\<lambda>b y. dr_next out count 0 False b y"]])
    fix x assume "dr_next out count 0 False a x"
    then show "dr_next out count 0 False (dav_primary (dr_result x) = DAV_ok) x" by (auto simp: dr_next_def dr_states split: if_splits)
  next
    fix b
    have "keeps (dr_next out count 0 False b) (if b then allM (dr_byte d address) [0..<count] else ret False) (dr_next out count count True)"
      using True dr_bytes_keep [OF assms] dr_end_keeps by (cases b) (simp_all add: dr_next_simps)
    then show "keeps (dr_next out count 0 False b) (do { (if b then allM (dr_byte d address) [0..<count] else ret False); dr_tail d }) (dr_done out count)"
      by (rule keeps_bind) (rule tail)
  qed
  then have body: "keeps (dr_at out count 0 False) (do { dr_probe d; ?body }) (dr_done out count)"
    by (rule keeps_bind [OF dr_probe_keeps])
  have rd: "readPhysical d address count present capacity = do {
     omod (\<lambda>x. x\<lparr>dr_result := DavResult0, dr_pending := False, dr_touched := False, dr_davPolling := False, dr_steps := 0\<rparr>);
     poisoned \<leftarrow> ogets dr_poisoned;
     if poisoned then do {
       dr_upd (\<lambda>r. r\<lparr>dav_status := DAV_requiresReset, dav_primary := DAV_requiresReset, dav_requiresReset := True\<rparr>);
       ogets dr_result }
     else if \<not> present \<or> count = 0 \<or> capacity < count \<or> 96 \<le> unat address \<or> 96 - unat address < count then ogets dr_result
     else do {
     dr_upd (dav_primary_update (\<lambda>_. DAV_ok));
     now \<leftarrow> dcall (io_nowUs d);
     omod (\<lambda>x. x\<lparr>dr_start := now, dr_previous := now\<rparr>);
     dr_probe d; ?body } }"
    unfolding readPhysical_def dr_tail_def by (rule refl)
  let ?R = "\<lambda>x. dr_out x = out \<and> dr_result x = DavResult0"
  show ?thesis unfolding rd dr_upd_def
    by (rule keeps_bind [OF keeps_obj(1) [where Q = "\<lambda>_. ?R"]], simp, rule keeps_bind [OF keeps_same(3)], intro keeps_if)
      (simp add: keeps_def wp_simps trivial DavResult0_def, rule keeps_obj(2), simp add: trivial DavResult0_def,
       rule keeps_bind [OF keeps_obj(1) [where Q = "\<lambda>_. dr_at out count 0 False"]], simp add: dr_states DavResult0_def,
       rule keeps_bind [OF keeps_same(2)], rule keeps_bind [OF keeps_same_mod], simp add: dr_states, rule body)
qed

text \<open>Whatever the device answers, a DAV read writes nothing but allowed commands to the serial
  port, so it never selects an OTP programming mode. A successful result has every byte read and both
  engines drained; a failed one has no valid byte and zeroes what was read; memory outside the range is
  untouched. A failed drain poisons the reader, and a poisoned reader never touches the device again.\<close>

theorem dav_read_contract:
  assumes "run_state (readPhysical (io_logged d) address count present capacity) (x, s, l) = (r, y, s', l')"
    and "count \<le> length (dr_out x)"
  shows "(\<exists>new. l' = new @ l \<and> set new \<subseteq> dav_writes) \<and> dr_done (dr_out x) count r y \<and>
    (dr_poisoned x \<longrightarrow> s' = s \<and> l' = l \<and> dav_status r = DAV_requiresReset)"
proof (intro conjI impI)
  show "\<exists>new. l' = new @ l \<and> set new \<subseteq> dav_writes" by (rule frames_run_state [OF readPhysical_frames assms(1)])
  show "dr_done (dr_out x) count r y" by (rule keeps_run [OF readPhysical_keeps [OF assms(2)] assms(1)]) simp
  show "s' = s" "l' = l" "dav_status r = DAV_requiresReset" if "dr_poisoned x"
    using assms(1) that by (auto simp: readPhysical_def omod_def ogets_def dr_upd_def)
qed

definition DavEfuseReader0 :: "bytes \<Rightarrow> DavEfuseReader" where
  "DavEfuseReader0 out = \<lparr>dr_result = DavResult0, dr_start = 0, dr_previous = 0, dr_davStarted = 0, dr_cleanupStarted = 0,
     dr_cleanupPrevious = 0, dr_steps = 0, dr_cleanupSteps = 0, dr_cleanupDelay = 0, dr_pending = False, dr_touched = False,
     dr_poisoned = False, dr_davPolling = False, dr_out = out\<rparr>"

theorem dav_read_contract_witness:
  "\<exists>r y s l. run_state (readPhysical (io_logged io_file) 4 2 True 2) (DavEfuseReader0 [7, 8], iofile0, []) = (r, y, s, l) \<and>
     set l \<subseteq> dav_writes \<and> dr_done [7, 8] 2 r y"
proof -
  obtain r y s l where run: "run_state (readPhysical (io_logged io_file) 4 2 True 2) (DavEfuseReader0 [7, 8], iofile0, []) = (r, y, s, l)"
    by (metis prod_cases4)
  show ?thesis using dav_read_contract [OF run] run by (auto simp: DavEfuseReader0_def)
qed

end
