(* ===== verification/DeviceCalibration.thy ===== *)
theory DeviceCalibration
  imports EfuseReader DavEfuseReader
begin

text \<open>The composition of the two eFuse readers, the decoder and the parsers in \<open>src/network/DeviceCalibration.hpp\<close>. The readers are
  arguments, as they are template parameters of the class; their contract is the locale \<open>bank_readers\<close>, interpreted on
  the readers of \<open>EfuseReader\<close> and \<open>DavEfuseReader\<close>.\<close>

record CalibrationSnapshot =
  cs_ddv :: bytes
  cs_dav :: bytes
  cs_phycap :: bytes
  cs_logical :: bytes
  cs_board :: BoardCalibration
  cs_phy :: PhyCalibration
  cs_cut :: u8

datatype CalibrationStage = CAL_idle | CAL_ddv | CAL_decodeDdv | CAL_dav | CAL_phycap | CAL_parse | CAL_complete | CAL_failed

record CalibrationReadResult =
  cr_stage :: CalibrationStage
  cr_failedStage :: CalibrationStage
  cr_ddv :: EfuseReadResult
  cr_phycap :: EfuseReadResult
  cr_dav :: DavResult
  cr_decodeDdv :: EfuseStatus
  cr_requiresRecovery :: bool

record DeviceCalibration =
  dc_snapshot :: CalibrationSnapshot
  dc_result :: CalibrationReadResult

definition DeviceCalibration0 :: DeviceCalibration where
  "DeviceCalibration0 = \<lparr>dc_snapshot = \<lparr>cs_ddv = replicate 1216 0, cs_dav = replicate 96 0, cs_phycap = replicate 128 0,
       cs_logical = replicate 2064 0, cs_board = BoardCalibration0, cs_phy = PhyCalibration0, cs_cut = 0\<rparr>,
     dc_result = \<lparr>cr_stage = CAL_idle, cr_failedStage = CAL_idle, cr_ddv = EfuseReadResult0, cr_phycap = EfuseReadResult0,
       cr_dav = DavResult0, cr_decodeDdv = ES_invalid, cr_requiresRecovery = False\<rparr>\<rparr>"

type_synonym 's ddv_reader = "u8 \<Rightarrow> u32 \<Rightarrow> nat \<Rightarrow> bytes \<Rightarrow> 's \<Rightarrow> (EfuseReadResult \<times> bytes) \<times> 's"
type_synonym 's dav_reader = "bytes \<Rightarrow> bytes \<Rightarrow> 's \<Rightarrow> (DavResult \<times> bytes \<times> bytes) \<times> 's"
type_synonym ('s, 'a) cal = "(DeviceCalibration, 's, 'a) prog"

definition dc_res :: "(CalibrationReadResult \<Rightarrow> CalibrationReadResult) \<Rightarrow> ('s, unit) cal" where
  "dc_res f = omod (\<lambda>x. x\<lparr>dc_result := f (dc_result x)\<rparr>)"

definition dc_snap :: "(CalibrationSnapshot \<Rightarrow> CalibrationSnapshot) \<Rightarrow> ('s, unit) cal" where
  "dc_snap f = omod (\<lambda>x. x\<lparr>dc_snapshot := f (dc_snapshot x)\<rparr>)"

definition dc_fail :: "bool \<Rightarrow> ('s, bool) cal" where
  "dc_fail recovery = do {
     dc_res (\<lambda>r. r\<lparr>cr_failedStage := cr_stage r, cr_stage := CAL_failed, cr_requiresRecovery := recovery\<rparr>);
     ret False }"

definition snapshot :: "DeviceCalibration \<Rightarrow> CalibrationSnapshot option" where
  "snapshot x = (if cr_stage (dc_result x) = CAL_complete then Some (dc_snapshot x) else None)"

definition ddv_lost :: "EfuseReadResult \<Rightarrow> bool" where
  "ddv_lost r \<longleftrightarrow> rd_status r = ER_cleanupFailed \<or> rd_status r = ER_ok \<and> \<not> rd_restored r"

text \<open>The four stages. The arrays of the snapshot lie at the offsets 0, 1216, 1312 and 1440 of the structure.\<close>

definition dc_readDdv :: "'s ddv_reader \<Rightarrow> u8 \<Rightarrow> ('s, bool) cal" where
  "dc_readDdv ddv chipCut = do {
     dc_snap (\<lambda>s. s\<lparr>cs_cut := chipCut\<rparr>);
     dc_res (\<lambda>r. r\<lparr>cr_stage := CAL_ddv\<rparr>);
     buffer \<leftarrow> ogets (\<lambda>x. cs_ddv (dc_snapshot x));
     (r, buffer) \<leftarrow> dcall (ddv chipCut 0 1216 buffer);
     dc_snap (\<lambda>s. s\<lparr>cs_ddv := buffer\<rparr>);
     dc_res (\<lambda>q. q\<lparr>cr_ddv := r\<rparr>);
     if rd_status r \<noteq> ER_ok \<or> rd_validBytes r \<noteq> 1216 \<or> \<not> rd_restored r then dc_fail (ddv_lost r) else ret True }"

definition dc_decode :: "('s, bool) cal" where
  "dc_decode = do {
     dc_res (\<lambda>r. r\<lparr>cr_stage := CAL_decodeDdv\<rparr>);
     s \<leftarrow> ogets dc_snapshot;
     (case decodeEfuse 0 (Some (cs_ddv s)) 1440 (Some (take 2048 (cs_logical s))) 4 of
        None \<Rightarrow> dc_fail False
      | Some (st, lg) \<Rightarrow> do {
          dc_snap (\<lambda>s. s\<lparr>cs_logical := the lg @ drop 2048 (cs_logical s)\<rparr>);
          dc_res (\<lambda>r. r\<lparr>cr_decodeDdv := st\<rparr>);
          if st \<noteq> ES_ok then dc_fail False else ret True }) }"

definition dc_readDav :: "'s dav_reader \<Rightarrow> ('s, bool) cal" where
  "dc_readDav dav = do {
     dc_res (\<lambda>r. r\<lparr>cr_stage := CAL_dav\<rparr>);
     s \<leftarrow> ogets dc_snapshot;
     (r, physical, logical) \<leftarrow> dcall (dav (cs_dav s) (drop 2048 (cs_logical s)));
     dc_snap (\<lambda>s. s\<lparr>cs_dav := physical, cs_logical := take 2048 (cs_logical s) @ logical\<rparr>);
     dc_res (\<lambda>q. q\<lparr>cr_dav := r\<rparr>);
     if dav_status r \<noteq> DAV_ok \<or> dav_validBytes r \<noteq> 96 \<or> \<not> dav_logicalValid r \<or> \<not> dav_busIdle r \<or> \<not> dav_readEngineIdle r
     then dc_fail (dav_requiresReset r \<or> dav_status r = DAV_ok \<and> (\<not> dav_busIdle r \<or> \<not> dav_readEngineIdle r)) else ret True }"

definition dc_readPhycap :: "'s ddv_reader \<Rightarrow> u8 \<Rightarrow> ('s, bool) cal" where
  "dc_readPhycap ddv chipCut = do {
     dc_res (\<lambda>r. r\<lparr>cr_stage := CAL_phycap\<rparr>);
     buffer \<leftarrow> ogets (\<lambda>x. cs_phycap (dc_snapshot x));
     (r, buffer) \<leftarrow> dcall (ddv chipCut 0x580 128 buffer);
     dc_snap (\<lambda>s. s\<lparr>cs_phycap := buffer\<rparr>);
     dc_res (\<lambda>q. q\<lparr>cr_phycap := r\<rparr>);
     if rd_status r \<noteq> ER_ok \<or> rd_validBytes r \<noteq> 128 \<or> \<not> rd_restored r then dc_fail (ddv_lost r) else ret True }"

definition dc_parse :: "('s, bool) cal" where
  "dc_parse = do {
     dc_res (\<lambda>r. r\<lparr>cr_stage := CAL_parse\<rparr>);
     s \<leftarrow> ogets dc_snapshot;
     (ok, board) \<leftarrow> ret (parseBoardCalibration (Some (cs_logical s)));
     dc_snap (\<lambda>s. s\<lparr>cs_board := board\<rparr>);
     if \<not> ok \<or> \<not> bc_identityValid board then dc_fail False else do {
     (ok, phy) \<leftarrow> ret (parsePhyCalibration (Some (cs_phycap s)));
     dc_snap (\<lambda>s. s\<lparr>cs_phy := phy\<rparr>);
     if \<not> ok then dc_fail False else do {
     dc_res (\<lambda>r. r\<lparr>cr_stage := CAL_complete\<rparr>);
     ret True } } }"

definition dc_read :: "'s ddv_reader \<Rightarrow> 's dav_reader \<Rightarrow> u8 \<Rightarrow> ('s, bool) cal" where
  "dc_read ddv dav verifiedCut = do {
     stage \<leftarrow> ogets (\<lambda>x. cr_stage (dc_result x));
     if stage \<noteq> CAL_idle \<or> 1 < verifiedCut then ret False
     else andM (dc_readDdv ddv verifiedCut) (andM dc_decode (andM (dc_readDav dav) (andM (dc_readPhycap ddv verifiedCut) dc_parse))) }"

section \<open>The contract of the readers\<close>

text \<open>The logical image of a bank: the erased image with the entries of the bank, in order.\<close>

definition bank_image :: "nat \<Rightarrow> bytes \<Rightarrow> bytes option" where
  "bank_image n bank = (case bank_entries n (take (length bank - 8) (drop 4 bank)) of Inl _ \<Rightarrow> None
     | Inr es \<Rightarrow> Some (foldl apply_entry (replicate n 0xff) es))"

text \<open>The shape of the snapshot, and what is known of it after each stage.\<close>

definition cal_shape :: "DeviceCalibration \<Rightarrow> bool" where
  "cal_shape x \<longleftrightarrow> length (cs_ddv (dc_snapshot x)) = 1216 \<and> length (cs_dav (dc_snapshot x)) = 96 \<and> length (cs_phycap (dc_snapshot x)) = 128 \<and>
     length (cs_logical (dc_snapshot x)) = 2064"

definition cal_decoded :: "DeviceCalibration \<Rightarrow> bool" where
  "cal_decoded x \<longleftrightarrow> cal_shape x \<and> bank_image 2048 (cs_ddv (dc_snapshot x)) = Some (take 2048 (cs_logical (dc_snapshot x)))"

definition cal_both :: "DeviceCalibration \<Rightarrow> bool" where
  "cal_both x \<longleftrightarrow> cal_decoded x \<and> bank_image 16 (cs_dav (dc_snapshot x)) = Some (drop 2048 (cs_logical (dc_snapshot x)))"

definition cal_good :: "DeviceCalibration \<Rightarrow> bool" where
  "cal_good x \<longleftrightarrow> cal_both x \<and> cr_stage (dc_result x) = CAL_complete \<and>
     parseBoardCalibration (Some (cs_logical (dc_snapshot x))) = (True, cs_board (dc_snapshot x)) \<and>
     bc_identityValid (cs_board (dc_snapshot x)) \<and> parsePhyCalibration (Some (cs_phycap (dc_snapshot x))) = (True, cs_phy (dc_snapshot x))"

definition cal_failed :: "DeviceCalibration \<Rightarrow> bool" where
  "cal_failed x \<longleftrightarrow> cr_stage (dc_result x) = CAL_failed"

lemmas dc_wp = wp_simps wp_dcall dc_res_def dc_snap_def dc_fail_def split_beta

locale bank_readers =
  fixes ddv :: "'s ddv_reader" and dav :: "'s dav_reader"
  assumes ddv_length: "count \<le> length buffer \<Longrightarrow> length (snd (fst (ddv chipCut address count buffer s))) = length buffer"
    and dav_length: "length ph = 96 \<Longrightarrow> length lg = 16 \<Longrightarrow> (case fst (dav ph lg s) of (_, ph', lg') \<Rightarrow> length ph' = 96 \<and> length lg' = 16)"
    and dav_image: "length ph = 96 \<Longrightarrow> length lg = 16 \<Longrightarrow> (case fst (dav ph lg s) of (q, ph', lg') \<Rightarrow>
      dav_status q = DAV_ok \<longrightarrow> dav_logicalValid q \<longrightarrow> bank_image 16 ph' = Some lg')"
begin

lemma readDdv_stage: "keeps cal_shape (dc_readDdv ddv c) (\<lambda>a y. if a then cal_shape y else cal_failed y)"
  unfolding keeps_def by (simp add: dc_readDdv_def dc_wp cal_shape_def cal_failed_def ddv_length)

lemma decode_stage: "keeps cal_shape (dc_decode :: ('s, bool) cal) (\<lambda>a y. if a then cal_decoded y else cal_failed y)"
  unfolding keeps_def
proof (intro allI impI)
  fix x :: DeviceCalibration and s :: 's
  assume x: "cal_shape x"
  let ?p = "cs_ddv (dc_snapshot x)" and ?l = "take 2048 (cs_logical (dc_snapshot x))"
  have len: "length ?p = 1216" "length ?l = 2048" using x by (simp_all add: cal_shape_def)
  have "decodeEfuse 0 (Some ?p) 1440 (Some ?l) 4 = Some
    (case bank_entries (length ?l) (take (length ?p - 2 * 4) (drop 4 ?p)) of
       Inl st \<Rightarrow> (st, Some ?l)
     | Inr es \<Rightarrow> (ES_ok, Some (foldl apply_entry (replicate (length ?l) 0xff) es)))"
    by (rule decode_reference) (use len in auto)
  then show "wp dc_decode (\<lambda>a (y, _). if a then cal_decoded y else cal_failed y) (x, s)"
    using len x by (auto simp: dc_decode_def dc_wp cal_shape_def cal_decoded_def cal_failed_def bank_image_def dest: bank_entries_status split: sum.split)
qed

lemma readDav_stage: "keeps cal_decoded (dc_readDav dav) (\<lambda>a y. if a then cal_both y else cal_failed y)"
  unfolding keeps_def
proof (intro allI impI)
  fix x :: DeviceCalibration and s :: 's
  assume x: "cal_decoded x"
  obtain q ph lg s' where r: "dav (cs_dav (dc_snapshot x)) (drop 2048 (cs_logical (dc_snapshot x))) s = ((q, ph, lg), s')"
    by (metis prod.exhaust)
  have len: "length (cs_dav (dc_snapshot x)) = 96" "length (drop 2048 (cs_logical (dc_snapshot x))) = 16"
    using x by (simp_all add: cal_decoded_def cal_shape_def)
  show "wp (dc_readDav dav) (\<lambda>a (y, _). if a then cal_both y else cal_failed y) (x, s)"
    using x r dav_length [OF len, of s] dav_image [OF len, of s]
    by (simp add: dc_readDav_def dc_wp cal_both_def cal_decoded_def cal_shape_def cal_failed_def)
qed

lemma readPhycap_stage: "keeps cal_both (dc_readPhycap ddv c) (\<lambda>a y. if a then cal_both y else cal_failed y)"
  unfolding keeps_def
  by (simp add: dc_readPhycap_def dc_wp cal_both_def cal_decoded_def cal_shape_def cal_failed_def ddv_length)

lemma parse_stage: "keeps cal_both dc_parse (\<lambda>a y. if a then cal_good y else cal_failed y)"
  unfolding keeps_def dc_parse_def
  by (auto simp: dc_wp cal_good_def cal_both_def cal_decoded_def cal_shape_def cal_failed_def prod_eq_iff)

text \<open>A successful calibration leaves a snapshot that is the decoded banks; anything else leaves none.\<close>

lemma read_stages: "keeps (\<lambda>x. cal_shape x \<and> cr_stage (dc_result x) = CAL_idle) (dc_read ddv dav c)
  (\<lambda>a y. if a then cal_good y else snapshot y = None)"
proof -
  have "keeps cal_shape (andM (dc_readDdv ddv c) (andM dc_decode (andM (dc_readDav dav) (andM (dc_readPhycap ddv c) dc_parse))))
    (\<lambda>a y. if a then cal_good y else cal_failed y)"
    by (rule keeps_and [OF readDdv_stage], rule keeps_and [OF decode_stage], rule keeps_and [OF readDav_stage],
        rule keeps_and [OF readPhycap_stage], rule parse_stage) simp_all
  then have seq: "keeps (\<lambda>x. cal_shape x \<and> cr_stage (dc_result x) = CAL_idle)
    (andM (dc_readDdv ddv c) (andM dc_decode (andM (dc_readDav dav) (andM (dc_readPhycap ddv c) dc_parse))))
    (\<lambda>a y. if a then cal_good y else snapshot y = None)"
    by (rule keeps_weaken) (auto simp: cal_failed_def snapshot_def split: if_splits)
  show ?thesis unfolding dc_read_def
    by (rule keeps_bind [OF keeps_same(3)], rule keeps_if, rule keeps_obj(3), simp add: snapshot_def, rule seq)
qed

end

section \<open>The real readers\<close>

text \<open>Both readers work on one device; their fields are the state beside it.\<close>

definition real_ddv :: "'s Io \<Rightarrow> (EfuseReader \<times> DavEfuseReader \<times> 's) ddv_reader" where
  "real_ddv d chipCut address count buffer t = (case t of (e, v, s) \<Rightarrow>
     case run_state (readDdv d chipCut address count True (length buffer)) (e\<lparr>er_out := buffer\<rparr>, s) of
       (r, e', s') \<Rightarrow> ((r, er_out e'), (e', v, s')))"

definition real_dav :: "'s Io \<Rightarrow> (EfuseReader \<times> DavEfuseReader \<times> 's) dav_reader" where
  "real_dav d physical logical t = (case t of (e, v, s) \<Rightarrow>
     case run_state (readLogical d 1216 True 96 3488 (Some logical)) (v\<lparr>dr_out := physical\<rparr>, s) of
       ((r, lg), v', s') \<Rightarrow> ((r, dr_out v', the lg), (e, v', s')))"

lemma readLogical_keeps:
  assumes "length ph = 96" and "length lg = 16"
  shows "keeps (\<lambda>x. dr_out x = ph) (readLogical d 1216 True 96 3488 (Some lg))
    (\<lambda>(q, lg') y. length (dr_out y) = 96 \<and> (\<exists>l. lg' = Some l \<and> length l = 16 \<and>
       (dav_status q = DAV_ok \<longrightarrow> dav_logicalValid q \<longrightarrow> bank_image 16 (dr_out y) = Some l)))"
proof -
  have dec: "decodeEfuse 1216 (Some p) 3488 (Some lg) 4 = Some
    (case bank_entries 16 (take 88 (drop 4 p)) of Inl st \<Rightarrow> (st, Some lg)
     | Inr es \<Rightarrow> (ES_ok, Some (foldl apply_entry (replicate 16 0xff) es)))" if "length p = 96" for p
    using decode_reference [of lg 4 p 1216 3488] that assms(2) by (auto split: sum.split)
  let ?Q = "\<lambda>(q, lg') y. length (dr_out y) = 96 \<and> (\<exists>l. lg' = Some l \<and> length l = 16 \<and>
       (dav_status q = DAV_ok \<longrightarrow> dav_logicalValid q \<longrightarrow> bank_image 16 (dr_out y) = Some l))"
  have tail: "wp (if dav_status r \<noteq> DAV_ok then ret (r, Some lg) else do {
     physical \<leftarrow> ogets dr_out;
     (case decodeEfuse 1216 (Some (take 96 physical)) 3488 (map_option (take 16) (Some lg)) 4 of
        None \<Rightarrow> ret (r, Some lg)
      | Some (st, lg') \<Rightarrow> do {
          lg' \<leftarrow> ret (Some (the lg' @ drop 16 (the (Some lg))));
          result \<leftarrow> ret (r\<lparr>dav_decode := st, dav_logicalValid := st = ES_ok\<rparr>);
          ret (if dav_logicalValid result then result else result\<lparr>dav_status := DAV_decodeFailed, dav_primary := DAV_decodeFailed\<rparr>, lg') }) })
      (\<lambda>a (y, _). ?Q a y) (y, s)" if "length (dr_out y) = 96" for r y s
    using that assms dec [of "dr_out y"] by (auto simp: wp_simps bank_image_def dest: bank_entries_status split: sum.splits)
  have tl: "keeps (dr_done ph 96 r) (if dav_status r \<noteq> DAV_ok then ret (r, Some lg) else do {
     physical \<leftarrow> ogets dr_out;
     (case decodeEfuse 1216 (Some (take 96 physical)) 3488 (map_option (take 16) (Some lg)) 4 of
        None \<Rightarrow> ret (r, Some lg)
      | Some (st, lg') \<Rightarrow> do {
          lg' \<leftarrow> ret (Some (the lg' @ drop 16 (the (Some lg))));
          result \<leftarrow> ret (r\<lparr>dav_decode := st, dav_logicalValid := st = ES_ok\<rparr>);
          ret (if dav_logicalValid result then result else result\<lparr>dav_status := DAV_decodeFailed, dav_primary := DAV_decodeFailed\<rparr>, lg') }) }) ?Q" for r
    unfolding keeps_def by (intro allI impI tail) (simp add: dr_done_def assms)
  have seq: "keeps (\<lambda>x. dr_out x = ph) (do {
     result \<leftarrow> readPhysical d 0 96 True 96;
     if dav_status result \<noteq> DAV_ok then ret (result, Some lg) else do {
     physical \<leftarrow> ogets dr_out;
     (case decodeEfuse 1216 (Some (take 96 physical)) 3488 (map_option (take 16) (Some lg)) 4 of
        None \<Rightarrow> ret (result, Some lg)
      | Some (st, lg') \<Rightarrow> do {
          lg' \<leftarrow> ret (Some (the lg' @ drop 16 (the (Some lg))));
          result \<leftarrow> ret (result\<lparr>dav_decode := st, dav_logicalValid := st = ES_ok\<rparr>);
          ret (if dav_logicalValid result then result else result\<lparr>dav_status := DAV_decodeFailed, dav_primary := DAV_decodeFailed\<rparr>, lg') }) } }) ?Q"
    by (rule keeps_bind [OF readPhysical_keeps tl]) (simp add: assms)
  have g: "\<not> (\<not> True \<or> 96 < (96 :: nat) \<or> Some lg = None \<or> length (the (Some lg)) < 16)"
    "\<not> (if (1216 :: nat) \<le> 3488 then (3488 :: nat) - 1216 < 96 else 1216 - 3488 < (16 :: nat))" using assms by simp_all
  show ?thesis unfolding readLogical_def if_not_P [OF g(1)] if_not_P [OF g(2)] by (rule seq)
qed

interpretation real_banks: bank_readers "real_ddv d" "real_dav d" for d :: "'s Io"
proof
  fix count :: nat and buffer :: bytes and chipCut :: u8 and address :: u32 and s :: "EfuseReader \<times> DavEfuseReader \<times> 's"
  assume "count \<le> length buffer"
  then have k: "keeps (\<lambda>x. er_out x = buffer) (readDdv d chipCut address count True (length buffer)) (\<lambda>r y. er_done buffer count r (er_out y))"
    by (rule readDdv_keeps)
  obtain e v z where s: "s = (e, v, z)" by (cases s)
  obtain r e' z' where r: "run_state (readDdv d chipCut address count True (length buffer)) (e\<lparr>er_out := buffer\<rparr>, z) = (r, e', z')"
    by (metis prod.exhaust)
  show "length (snd (fst (real_ddv d chipCut address count buffer s))) = length buffer"
    using keeps_run [OF k r] by (simp add: real_ddv_def s r er_done_def)
next
  fix ph lg :: bytes and s :: "EfuseReader \<times> DavEfuseReader \<times> 's"
  assume len: "length ph = 96" "length lg = 16"
  obtain e v z where s: "s = (e, v, z)" by (cases s)
  obtain q lg' v' z' where r: "run_state (readLogical d 1216 True 96 3488 (Some lg)) (v\<lparr>dr_out := ph\<rparr>, z) = ((q, lg'), v', z')"
    by (metis prod.exhaust)
  note k = keeps_run [OF readLogical_keeps [OF len] r]
  show "case fst (real_dav d ph lg s) of (_, ph', lg') \<Rightarrow> length ph' = 96 \<and> length lg' = 16"
    using k by (auto simp: real_dav_def s r)
  show "case fst (real_dav d ph lg s) of (q, ph', lg') \<Rightarrow> dav_status q = DAV_ok \<longrightarrow> dav_logicalValid q \<longrightarrow> bank_image 16 ph' = Some lg'"
    using k by (auto simp: real_dav_def s r)
qed

text \<open>C22: A calibration run over the real readers, whatever the device answers, exposes a snapshot only when
  it succeeds, and then the snapshot is what the banks say: its logical memory is the image of the DDV bank
  followed by the image of the DAV bank, the board and PHY fields are parsed from it and from the PHY capability
  bytes, and the board's identity is valid.\<close>

theorem calibration_snapshot:
  assumes "run_state (dc_read (real_ddv d) (real_dav d) verifiedCut) (DeviceCalibration0, t) = (ok, y, t')"
  shows "(ok \<longleftrightarrow> snapshot y \<noteq> None) \<and> (\<forall>sn. snapshot y = Some sn \<longrightarrow>
    (\<exists>a b. bank_image 2048 (cs_ddv sn) = Some a \<and> bank_image 16 (cs_dav sn) = Some b \<and> cs_logical sn = a @ b \<and>
      parseBoardCalibration (Some (a @ b)) = (True, cs_board sn) \<and> bc_identityValid (cs_board sn) \<and>
      parsePhyCalibration (Some (cs_phycap sn)) = (True, cs_phy sn)))"
proof -
  have k: "if ok then cal_good y else snapshot y = None"
    by (rule keeps_run [OF real_banks.read_stages assms]) (simp add: DeviceCalibration0_def cal_shape_def)
  then have "ok \<longleftrightarrow> snapshot y \<noteq> None" by (auto simp: snapshot_def cal_good_def split: if_splits)
  moreover have "\<exists>a b. bank_image 2048 (cs_ddv sn) = Some a \<and> bank_image 16 (cs_dav sn) = Some b \<and> cs_logical sn = a @ b \<and>
      parseBoardCalibration (Some (a @ b)) = (True, cs_board sn) \<and> bc_identityValid (cs_board sn) \<and>
      parsePhyCalibration (Some (cs_phycap sn)) = (True, cs_phy sn)" if "snapshot y = Some sn" for sn
  proof -
    have "cal_good y" "sn = dc_snapshot y" using k that by (auto simp: snapshot_def split: if_splits)
    then show ?thesis by (auto simp: cal_good_def cal_both_def cal_decoded_def)
  qed
  ultimately show ?thesis by blast
qed

theorem calibration_snapshot_witness:
  "\<exists>ok y t. run_state (dc_read (real_ddv io_file) (real_dav io_file) 0) (DeviceCalibration0, (EfuseReader0 [], DavEfuseReader0 [], iofile0)) =
     (ok, y, t) \<and> (ok \<longleftrightarrow> snapshot y \<noteq> None)"
proof -
  obtain ok y t where r: "run_state (dc_read (real_ddv io_file) (real_dav io_file) 0)
      (DeviceCalibration0, (EfuseReader0 [], DavEfuseReader0 [], iofile0)) = (ok, y, t)"
    by (metis prod.exhaust)
  show ?thesis using calibration_snapshot [OF r] r by blast
qed

end
