(* ===== verification/DevicePower.thy ===== *)
theory DevicePower
  imports PowerConstants DeviceCalibration
begin

text \<open>Powering the device on and off: \<open>src/network/DevicePower.hpp\<close> and the sequences of
  \<open>src/network/Rtw8852bDevicePowerFunctions.inc\<close>, over an arbitrary register device. Return code 0 of the sequences is
  \<open>True\<close>.\<close>

datatype PowerError = PE_none | PE_precondition | PE_io | PE_readback | PE_timeout | PE_clock | PE_cancelled | PE_upstream

record ActionResult =
  ar_error :: PowerError
  ar_address :: u32
  ar_expected :: u32
  ar_actual :: u32
  ar_reads :: u32
  ar_writes :: u32
  ar_polls :: u32
  ar_delays :: u32
  ar_complete :: bool
  ar_pmcClosed :: bool

definition ActionResult0 :: ActionResult where
  "ActionResult0 = \<lparr>ar_error = PE_none, ar_address = 0, ar_expected = 0, ar_actual = 0, ar_reads = 0, ar_writes = 0, ar_polls = 0,
     ar_delays = 0, ar_complete = False, ar_pmcClosed = False\<rparr>"

record PowerResult =
  pr_on :: ActionResult
  pr_off :: ActionResult
  pr_onAttempted :: bool
  pr_offAttempted :: bool
  pr_powered :: bool
  pr_returnedOff :: bool
  pr_requiresRecovery :: bool

definition powerAddress :: "u32 \<Rightarrow> nat \<Rightarrow> bool \<Rightarrow> bool" where
  "powerAddress a width w = (
     if width = 1 then a = R_AX_SYS_FUNC_EN \<or> a = R_AX_PLATFORM_ENABLE \<or> a = R_AX_SCOREBOARD + 3 \<or> \<not> w \<and> a = R_AX_WLAN_XTAL_SI_CTRL + 1
     else if width = 2 then a = R_AX_HCI_LDO_CTRL \<or> a = R_AX_SPS_ANA_ON_CTRL2
     else if width \<noteq> 4 then False
     else if a \<in> {R_AX_SYS_ISO_CTRL, R_AX_SYS_PW_CTRL, R_AX_SYS_SWR_CTRL1, R_AX_SYS_ADIE_PAD_PWR_CTRL, R_AX_AFE_LDO_CTRL, R_AX_SYS_SDIO_CTRL,
       R_AX_WLLPS_CTRL, R_AX_PMC_DBG_CTRL2, R_AX_SPS_DIG_ON_CTRL0, R_AX_WLAN_XTAL_SI_CTRL, R_AX_EECS_EESK_FUNC_SEL, R_AX_WLRF_CTRL,
       R_AX_SPS_DIG_OFF_CTRL0, R_AX_DMAC_FUNC_EN, R_AX_CMAC_FUNC_EN} then True
     else if a \<in> {R_AX_IC_PWR_STATE, 0x1000, 0x101c, 0x1a0, 0x10b0, 0x13b0} then \<not> w
     else False)"

definition powerSiCommand :: "u32 \<Rightarrow> bool" where
  "powerSiCommand value = (let a = ucast value :: u8; v = ucast (drop_bit 8 value) :: u8; m = ucast (drop_bit 16 value) :: u8;
       mode = drop_bit 24 value AND 3 in
     if value AND 0x7c000000 \<noteq> 0 \<or> value AND 0x80000000 = 0 then False
     else if a \<notin> {XTAL_SI_ANAPAR_WL, XTAL_SI_SRAM_CTRL, XTAL_SI_XTAL_XMD_2, XTAL_SI_XTAL_XMD_4, XTAL_SI_WL_RFC_S0, XTAL_SI_WL_RFC_S1} then False
     else if mode = XTAL_SI_NORMAL_READ then v = 0 \<and> m = 0
     else if mode \<noteq> XTAL_SI_NORMAL_WRITE \<or> v AND NOT m \<noteq> 0 then False
     else if a = XTAL_SI_ANAPAR_WL then m \<noteq> 0 \<and> m AND (m - 1) = 0 \<and> (v = 0 \<or> v = m)
     else if a = XTAL_SI_SRAM_CTRL then m = 2 \<and> v = 0
     else if a = XTAL_SI_XTAL_XMD_2 then m = 0x70 \<and> v = 0
     else if a = XTAL_SI_XTAL_XMD_4 then m = 0x0f \<and> v = 0
     else m = 1 \<and> v = 0)"

section \<open>The context\<close>

record DevicePower =
  pw_result :: ActionResult
  pw_efuseValid :: bool
  pw_power_k_valid :: bool
  pw_rfe_type :: u8
  pw_cv :: u8
  pw_probeDone :: bool
  pw_cleanup :: bool
  pw_clockStarted :: bool
  pw_pmcOwned :: bool
  pw_first :: u64
  pw_previous :: u64
  pw_public :: PowerResult

type_synonym ('s, 'a) pwr = "(DevicePower, 's, 'a) prog"

definition pw_upd :: "(ActionResult \<Rightarrow> ActionResult) \<Rightarrow> ('s, unit) pwr" where
  "pw_upd f = omod (\<lambda>x. x\<lparr>pw_result := f (pw_result x)\<rparr>)"

definition pw_fail :: "PowerError \<Rightarrow> u32 \<Rightarrow> u32 \<Rightarrow> u32 \<Rightarrow> ('s, bool) pwr" where
  "pw_fail e a wanted actual = do {
     pw_upd (\<lambda>r. if ar_error r = PE_none then r\<lparr>ar_error := e, ar_address := a, ar_expected := wanted, ar_actual := actual\<rparr> else r);
     ret False }"

text \<open>Every access asks first: no error so far, in the gate, not cancelled, the PCI command register sane, the clock
  running forward and the budgets kept.\<close>

definition pw_check :: "'s Io \<Rightarrow> ('s, bool) pwr" where
  "pw_check d = do {
     failed \<leftarrow> ogets (\<lambda>x. ar_error (pw_result x) \<noteq> PE_none);
     if failed then ret False else do {
     g \<leftarrow> dcall (io_inGate d);
     if \<not> g then pw_fail PE_precondition 0 0 0 else do {
     cleanup \<leftarrow> ogets pw_cleanup;
     c \<leftarrow> if cleanup then ret False else dcall (io_cancelled d);
     if c then pw_fail PE_cancelled 0 0 0 else do {
     command \<leftarrow> dcall (io_command d);
     if command = 0xffff \<or> command AND 6 \<noteq> 2 then pw_fail PE_precondition 4 2 (ucast command) else do {
     now \<leftarrow> dcall (io_nowUs d);
     omod (\<lambda>x. if pw_clockStarted x then x else x\<lparr>pw_clockStarted := True, pw_first := now, pw_previous := now\<rparr>);
     back \<leftarrow> ogets (\<lambda>x. now < pw_previous x);
     if back then pw_fail PE_clock 0 0 0 else do {
     omod (pw_previous_update (\<lambda>_. now));
     late \<leftarrow> ogets (\<lambda>x. 1000000 \<le> now - pw_first x \<or> 40000 \<le> ar_reads (pw_result x) + ar_writes (pw_result x));
     if late then pw_fail PE_timeout 0 0 0 else ret True } } } } } }"

definition pw_io_read :: "'s Io \<Rightarrow> u32 \<Rightarrow> nat \<Rightarrow> ('s, bool \<times> u32) pwr" where
  "pw_io_read d a width = (
     if width = 1 then do { (ok, v) \<leftarrow> dcall (io_read8 d a); ret (ok, ucast v) }
     else if width = 2 then do { (ok, v) \<leftarrow> dcall (io_read16 d a); ret (ok, ucast v) }
     else if width = 4 then dcall (io_read32 d a) else ret (False, 0))"

definition pw_read :: "'s Io \<Rightarrow> u32 \<Rightarrow> nat \<Rightarrow> ('s, u32) pwr" where
  "pw_read d a width = do {
     c \<leftarrow> pw_check d;
     if \<not> c then ret 0 else do {
     pw_upd (ar_reads_update (\<lambda>n. n + 1));
     (ok, v) \<leftarrow> pw_io_read d a width;
     (if \<not> ok \<or> width = 4 \<and> (v = 0xffffffff \<or> v = 0xdeadbeef) then pw_fail PE_io a 0 v else ret True);
     pw_check d;
     ret v } }"

definition pw_io_write :: "'s Io \<Rightarrow> u32 \<Rightarrow> u32 \<Rightarrow> nat \<Rightarrow> ('s, bool) pwr" where
  "pw_io_write d a v width = (if width = 1 then dcall (io_write8 d a (ucast v))
     else if width = 2 then dcall (io_write16 d a (ucast v)) else dcall (io_write32 d a v))"

definition pw_write :: "'s Io \<Rightarrow> u32 \<Rightarrow> u32 \<Rightarrow> nat \<Rightarrow> u32 \<Rightarrow> ('s, bool) pwr" where
  "pw_write d a v width verifyMask = do {
     c \<leftarrow> pw_check d;
     if \<not> c then ret False else do {
     pw_upd (ar_writes_update (\<lambda>n. n + 1));
     (if a = R_AX_PMC_DBG_CTRL2 \<and> v AND B_AX_SYSON_DIS_PMCR_AX_WRMSK \<noteq> 0 then omod (pw_pmcOwned_update (\<lambda>_. True)) else ret ());
     ok \<leftarrow> pw_io_write d a v width;
     if \<not> ok then pw_fail PE_io a v 0 else do {
     verifyMask \<leftarrow> ret (if a = R_AX_SYS_PW_CTRL then verifyMask AND NOT (B_AX_APFN_ONMAC OR B_AX_APFM_OFFMAC) else verifyMask);
     c \<leftarrow> pw_check d;
     if \<not> c then ret False
     else if verifyMask = 0 then ret True else do {
     got \<leftarrow> pw_read d a width;
     c \<leftarrow> pw_check d;
     if \<not> c then ret False
     else if got AND verifyMask \<noteq> v AND verifyMask then pw_fail PE_readback a (v AND verifyMask) (got AND verifyMask)
     else ret True } } } }"

definition pw_write32 :: "'s Io \<Rightarrow> u32 \<Rightarrow> u32 \<Rightarrow> ('s, unit) pwr" where
  "pw_write32 d a v = do { pw_write d a v 4 0xffffffff; ret () }"

definition pw_write16 :: "'s Io \<Rightarrow> u32 \<Rightarrow> u16 \<Rightarrow> ('s, unit) pwr" where
  "pw_write16 d a v = do { pw_write d a (ucast v) 2 0xffff; ret () }"

definition pw_update :: "'s Io \<Rightarrow> u32 \<Rightarrow> u32 \<Rightarrow> u32 \<Rightarrow> nat \<Rightarrow> ('s, unit) pwr" where
  "pw_update d a m v width = do {
     old \<leftarrow> pw_read d a width;
     pw_write d a ((old AND NOT m) OR (v AND m)) width m;
     ret () }"

definition pw_write32_set :: "'s Io \<Rightarrow> u32 \<Rightarrow> u32 \<Rightarrow> ('s, unit) pwr" where
  "pw_write32_set d a m = pw_update d a m m 4"

definition pw_write32_clr :: "'s Io \<Rightarrow> u32 \<Rightarrow> u32 \<Rightarrow> ('s, unit) pwr" where
  "pw_write32_clr d a m = pw_update d a m 0 4"

definition pw_write8_set :: "'s Io \<Rightarrow> u32 \<Rightarrow> u32 \<Rightarrow> ('s, unit) pwr" where
  "pw_write8_set d a m = (let m = ucast (ucast m :: u8) in pw_update d a m m 1)"

definition pw_write8_clr :: "'s Io \<Rightarrow> u32 \<Rightarrow> u32 \<Rightarrow> ('s, unit) pwr" where
  "pw_write8_clr d a m = pw_update d a (ucast (ucast m :: u8)) 0 1"

definition pw_write32_mask :: "'s Io \<Rightarrow> u32 \<Rightarrow> u32 \<Rightarrow> u32 \<Rightarrow> ('s, unit) pwr" where
  "pw_write32_mask d a m v = pw_update d a m (push_bit (reg_shift m) v) 4"

definition pw_write16_mask :: "'s Io \<Rightarrow> u32 \<Rightarrow> u32 \<Rightarrow> u16 \<Rightarrow> ('s, unit) pwr" where
  "pw_write16_mask d a m v = (let m = ucast (ucast m :: u16) in pw_update d a m (push_bit (reg_shift m) (ucast v)) 2)"

definition pw_delay :: "'s Io \<Rightarrow> u32 \<Rightarrow> ('s, bool) pwr" where
  "pw_delay d us = do {
     c \<leftarrow> pw_check d;
     if \<not> c then ret False else do {
     pw_upd (ar_delays_update (\<lambda>n. n + 1));
     andM (orM (dcall (io_delayUs d us)) (pw_fail PE_io 0 0 0)) (pw_check d) } }"

text \<open>Polling, with \<open>k\<close> more rounds allowed after this one.\<close>

fun pw_poll_loop :: "'s Io \<Rightarrow> u32 \<Rightarrow> u64 \<Rightarrow> ('s, bool) pwr \<Rightarrow> u64 \<Rightarrow> nat \<Rightarrow> ('s, bool) pwr" where
  "pw_poll_loop d step timeout predicate start k = do {
     c \<leftarrow> pw_check d;
     if \<not> c then ret False else do {
     ready \<leftarrow> predicate;
     pw_upd (ar_polls_update (\<lambda>n. n + 1));
     c \<leftarrow> pw_check d;
     if \<not> c then ret False else do {
     spent \<leftarrow> ogets (\<lambda>x. pw_previous x - start);
     if timeout < spent then pw_fail PE_timeout 0 0 0
     else if ready then ret True
     else if timeout \<le> spent \<or> k = 0 then pw_fail PE_timeout 0 0 0
     else do {
       slept \<leftarrow> pw_delay d step;
       if \<not> slept then ret False else pw_poll_loop d step timeout predicate start (k - 1) } } } }"

declare pw_poll_loop.simps [simp del]

definition pw_poll :: "'s Io \<Rightarrow> nat \<Rightarrow> nat \<Rightarrow> ('s, bool) pwr \<Rightarrow> ('s, bool) pwr" where
  "pw_poll d step timeout predicate = do {
     c \<leftarrow> pw_check d;
     if \<not> c then ret False else do {
     start \<leftarrow> ogets pw_previous;
     pw_poll_loop d (of_nat step) (of_nat timeout) predicate start (timeout div (if step = 0 then 1 else step)) } }"

definition pw_poll_reg :: "'s Io \<Rightarrow> nat \<Rightarrow> nat \<Rightarrow> u32 \<Rightarrow> (u32 \<Rightarrow> bool) \<Rightarrow> ('s, bool) pwr" where
  "pw_poll_reg d step timeout a ready = pw_poll d step timeout (do { v \<leftarrow> pw_read d a 4; ret (ready v) })"

definition pw_siIdle :: "'s Io \<Rightarrow> ('s, bool) pwr" where
  "pw_siIdle d = pw_poll_reg d 50 50000 R_AX_WLAN_XTAL_SI_CTRL (\<lambda>v. v AND B_AX_WL_XTAL_SI_CMD_POLL = 0)"

definition pw_write_xtal_si :: "'s Io \<Rightarrow> u8 \<Rightarrow> u8 \<Rightarrow> u8 \<Rightarrow> ('s, bool) pwr" where
  "pw_write_xtal_si d offset value bits = (
     let command = 0x80000000 OR push_bit 16 (ucast bits) OR push_bit 8 (ucast value) OR ucast offset;
       query = 0x81000000 OR ucast offset in do {
     ok \<leftarrow> andM (ret (powerSiCommand command)) (andM (pw_siIdle d) (andM (pw_write d R_AX_WLAN_XTAL_SI_CTRL command 4 0) (pw_siIdle d)));
     if \<not> ok then ret False else do {
     ok \<leftarrow> andM (pw_write d R_AX_WLAN_XTAL_SI_CTRL query 4 0) (pw_siIdle d);
     if \<not> ok then ret False else do {
     v \<leftarrow> pw_read d (R_AX_WLAN_XTAL_SI_CTRL + 1) 1;
     got \<leftarrow> ret (ucast v :: u8);
     c \<leftarrow> pw_check d;
     if \<not> c then ret False
     else if got AND bits = value AND bits then ret True
     else pw_fail PE_readback R_AX_WLAN_XTAL_SI_CTRL (ucast (value AND bits)) (ucast (got AND bits)) } } })"

section \<open>The sequences\<close>

definition pw_si_list :: "'s Io \<Rightarrow> (u8 \<times> u8 \<times> u8) list \<Rightarrow> ('s, bool) pwr" where
  "pw_si_list d = allM (\<lambda>(offset, value, bits). pw_write_xtal_si d offset value bits)"

text \<open>The power-on sequence in three parts: the rails, the crystal interface, isolation and function enables.\<close>

definition pwr_on_rails :: "'s Io \<Rightarrow> ('s, bool) pwr" where
  "pwr_on_rails d = do {
     pw_write32_clr d R_AX_SYS_PW_CTRL (B_AX_AFSM_WLSUS_EN OR B_AX_AFSM_PCIE_SUS_EN);
     pw_write32_set d R_AX_SYS_PW_CTRL B_AX_DIS_WLBT_PDNSUSEN_SOPC;
     pw_write32_set d R_AX_WLLPS_CTRL B_AX_DIS_WLBT_LPSEN_LOPC;
     pw_write32_clr d R_AX_SYS_PW_CTRL B_AX_APDM_HPDN;
     pw_write32_clr d R_AX_SYS_PW_CTRL B_AX_APFM_SWLPS;
     andM (pw_poll_reg d 1000 20000 R_AX_SYS_PW_CTRL (\<lambda>v. v AND B_AX_RDY_SYSPWR \<noteq> 0)) (do {
     pw_write32_set d R_AX_AFE_LDO_CTRL B_AX_AON_OFF_PC_EN;
     andM (pw_poll_reg d 1000 20000 R_AX_AFE_LDO_CTRL (\<lambda>v. v AND B_AX_AON_OFF_PC_EN \<noteq> 0)) (do {
     pw_write32_mask d R_AX_SPS_DIG_OFF_CTRL0 B_AX_C1_L1_MASK 0x1;
     pw_write32_mask d R_AX_SPS_DIG_OFF_CTRL0 B_AX_C3_L1_MASK 0x3;
     pw_write32_set d R_AX_SYS_PW_CTRL B_AX_EN_WLON;
     pw_write32_set d R_AX_SYS_PW_CTRL B_AX_APFN_ONMAC;
     pw_poll_reg d 1000 20000 R_AX_SYS_PW_CTRL (\<lambda>v. v AND B_AX_APFN_ONMAC = 0) }) }) }"

definition pwr_on_crystal :: "'s Io \<Rightarrow> ('s, bool) pwr" where
  "pwr_on_crystal d = do {
     pw_write8_set d R_AX_PLATFORM_ENABLE B_AX_PLATFORM_EN;
     pw_write8_clr d R_AX_PLATFORM_ENABLE B_AX_PLATFORM_EN;
     pw_write8_set d R_AX_PLATFORM_ENABLE B_AX_PLATFORM_EN;
     pw_write8_clr d R_AX_PLATFORM_ENABLE B_AX_PLATFORM_EN;
     pw_write8_set d R_AX_PLATFORM_ENABLE B_AX_PLATFORM_EN;
     pw_write32_clr d R_AX_SYS_SDIO_CTRL B_AX_PCIE_CALIB_EN_V1;
     pw_write32_set d R_AX_SYS_ADIE_PAD_PWR_CTRL B_AX_SYM_PADPDN_WL_PTA_1P3;
     andM (pw_write_xtal_si d XTAL_SI_ANAPAR_WL XTAL_SI_GND_SHDN_WL XTAL_SI_GND_SHDN_WL) (do {
     pw_write32_set d R_AX_SYS_ADIE_PAD_PWR_CTRL B_AX_SYM_PADPDN_WL_RFC_1P3;
     pw_si_list d [(XTAL_SI_ANAPAR_WL, XTAL_SI_SHDN_WL, XTAL_SI_SHDN_WL), (XTAL_SI_ANAPAR_WL, XTAL_SI_OFF_WEI, XTAL_SI_OFF_WEI),
       (XTAL_SI_ANAPAR_WL, XTAL_SI_OFF_EI, XTAL_SI_OFF_EI), (XTAL_SI_ANAPAR_WL, 0, XTAL_SI_RFC2RF),
       (XTAL_SI_ANAPAR_WL, XTAL_SI_PON_WEI, XTAL_SI_PON_WEI), (XTAL_SI_ANAPAR_WL, XTAL_SI_PON_EI, XTAL_SI_PON_EI),
       (XTAL_SI_ANAPAR_WL, 0, XTAL_SI_SRAM2RFC), (XTAL_SI_SRAM_CTRL, 0, XTAL_SI_SRAM_DIS),
       (XTAL_SI_XTAL_XMD_2, 0, XTAL_SI_LDO_LPS), (XTAL_SI_XTAL_XMD_4, 0, XTAL_SI_LPS_CAP)] }) }"

definition pwr_on_enable :: "'s Io \<Rightarrow> ('s, bool) pwr" where
  "pwr_on_enable d = do {
     pw_write32_set d R_AX_PMC_DBG_CTRL2 B_AX_SYSON_DIS_PMCR_AX_WRMSK;
     pw_write32_set d R_AX_SYS_ISO_CTRL B_AX_ISO_EB2CORE;
     pw_write32_clr d R_AX_SYS_ISO_CTRL B_AX_PWC_EV2EF_B15;
     pw_delay d 1000;
     pw_write32_clr d R_AX_SYS_ISO_CTRL B_AX_PWC_EV2EF_B14;
     pw_write32_clr d R_AX_PMC_DBG_CTRL2 B_AX_SYSON_DIS_PMCR_AX_WRMSK;
     skip \<leftarrow> ogets (\<lambda>x. \<not> pw_efuseValid x \<or> pw_power_k_valid x);
     cv \<leftarrow> ogets pw_cv;
     (if skip then ret () else do {
       pw_write32_mask d R_AX_SPS_DIG_ON_CTRL0 B_AX_VOL_L1_MASK 0x9;
       pw_write32_mask d R_AX_SPS_DIG_ON_CTRL0 B_AX_VREFPFM_L_MASK 0xa;
       (if cv = 1 then do {
         pw_write32_set d R_AX_PMC_DBG_CTRL2 B_AX_SYSON_DIS_PMCR_AX_WRMSK;
         pw_write16_mask d R_AX_HCI_LDO_CTRL B_AX_R_AX_VADJ_MASK 0xa;
         pw_write32_clr d R_AX_PMC_DBG_CTRL2 B_AX_SYSON_DIS_PMCR_AX_WRMSK } else ret ()) });
     pw_write32_set d R_AX_DMAC_FUNC_EN (B_AX_MAC_FUNC_EN OR B_AX_DMAC_FUNC_EN OR B_AX_MPDU_PROC_EN OR B_AX_WD_RLS_EN OR
       B_AX_DLE_WDE_EN OR B_AX_TXPKT_CTRL_EN OR B_AX_STA_SCH_EN OR B_AX_DLE_PLE_EN OR B_AX_PKT_BUF_EN OR B_AX_DMAC_TBL_EN OR
       B_AX_PKT_IN_EN OR B_AX_DLE_CPUIO_EN OR B_AX_DISPATCHER_EN OR B_AX_BBRPT_EN OR B_AX_MAC_SEC_EN OR B_AX_DMACREG_GCKEN);
     pw_write32_set d R_AX_CMAC_FUNC_EN (B_AX_CMAC_EN OR B_AX_CMAC_TXEN OR B_AX_CMAC_RXEN OR B_AX_FORCE_CMACREG_GCKEN OR
       B_AX_PHYINTF_EN OR B_AX_CMAC_DMA_EN OR B_AX_PTCLTOP_EN OR B_AX_SCHEDULER_EN OR B_AX_TMAC_EN OR B_AX_RMAC_EN);
     pw_write32_mask d R_AX_EECS_EESK_FUNC_SEL B_AX_PINMUX_EESK_FUNC_SEL_MASK PINMUX_EESK_FUNC_SEL_BT_LOG;
     ret True }"

definition pwr_on_func :: "'s Io \<Rightarrow> ('s, bool) pwr" where
  "pwr_on_func d = andM (pwr_on_rails d) (andM (pwr_on_crystal d) (pwr_on_enable d))"

definition pwr_sps_ana :: "'s Io \<Rightarrow> ('s, unit) pwr" where
  "pwr_sps_ana d = do {
     five \<leftarrow> ogets (\<lambda>x. pw_rfe_type x = 5);
     if five then pw_write16 d R_AX_SPS_ANA_ON_CTRL2 (ucast RTL8852B_RFE_05_SPS_ANA) else ret () }"

definition pwr_off_tail :: "'s Io \<Rightarrow> ('s, bool) pwr" where
  "pwr_off_tail d = do {
     pw_write32_set d R_AX_SYS_PW_CTRL B_AX_EN_WLON;
     pw_write32_clr d R_AX_WLRF_CTRL B_AX_AFC_AFEDIG;
     pw_write8_clr d R_AX_SYS_FUNC_EN (B_AX_FEN_BB_GLB_RSTN OR B_AX_FEN_BBRSTB);
     pw_write32_clr d R_AX_SYS_ADIE_PAD_PWR_CTRL B_AX_SYM_PADPDN_WL_RFC_1P3;
     andM (pw_write_xtal_si d XTAL_SI_ANAPAR_WL 0 XTAL_SI_SHDN_WL) (do {
     pw_write32_clr d R_AX_SYS_ADIE_PAD_PWR_CTRL B_AX_SYM_PADPDN_WL_PTA_1P3;
     andM (pw_write_xtal_si d XTAL_SI_ANAPAR_WL 0 XTAL_SI_GND_SHDN_WL) (do {
     pw_write32_set d R_AX_SYS_PW_CTRL B_AX_APFM_OFFMAC;
     andM (pw_poll_reg d 1000 20000 R_AX_SYS_PW_CTRL (\<lambda>v. v AND B_AX_APFM_OFFMAC = 0)) (do {
     pw_write32 d R_AX_WLLPS_CTRL SW_LPS_OPTION;
     pw_write32_set d R_AX_SYS_SWR_CTRL1 B_AX_SYM_CTRL_SPS_PWMFREQ;
     pw_write32_mask d R_AX_SPS_DIG_ON_CTRL0 B_AX_REG_ZCDC_H_MASK 0x3;
     pw_write32_set d R_AX_SYS_PW_CTRL B_AX_APFM_SWLPS;
     ret True }) }) }) }"

definition pwr_off_func :: "'s Io \<Rightarrow> ('s, bool) pwr" where
  "pwr_off_func d = do {
     done \<leftarrow> ogets pw_probeDone;
     (if \<not> done then pwr_sps_ana d else ret ());
     andM (pw_si_list d [(XTAL_SI_ANAPAR_WL, XTAL_SI_RFC2RF, XTAL_SI_RFC2RF), (XTAL_SI_ANAPAR_WL, 0, XTAL_SI_OFF_EI),
       (XTAL_SI_ANAPAR_WL, 0, XTAL_SI_OFF_WEI), (XTAL_SI_WL_RFC_S0, 0, XTAL_SI_RF00), (XTAL_SI_WL_RFC_S1, 0, XTAL_SI_RF10),
       (XTAL_SI_ANAPAR_WL, XTAL_SI_SRAM2RFC, XTAL_SI_SRAM2RFC), (XTAL_SI_ANAPAR_WL, 0, XTAL_SI_PON_EI),
       (XTAL_SI_ANAPAR_WL, 0, XTAL_SI_PON_WEI)]) (pwr_off_tail d) }"

section \<open>Starting and stopping\<close>

definition pw_equal :: "'s Io \<Rightarrow> u32 \<Rightarrow> u32 \<Rightarrow> u32 \<Rightarrow> ('s, bool) pwr" where
  "pw_equal d address bits wanted = do {
     got \<leftarrow> pw_read d address 4;
     andM (pw_check d) (if got AND bits = wanted then ret True else pw_fail PE_precondition address wanted (got AND bits)) }"

definition pw_calibration :: "CalibrationSnapshot option \<Rightarrow> ('s, bool) pwr" where
  "pw_calibration sn = do {
     omod (\<lambda>x. x\<lparr>pw_efuseValid := False, pw_power_k_valid := False, pw_rfe_type := 0xff\<rparr>);
     case sn of None \<Rightarrow> ret True
     | Some c \<Rightarrow> do {
         cv \<leftarrow> ogets pw_cv;
         if \<not> bc_identityValid (cs_board c) \<or> cs_cut c \<noteq> cv then ret False else do {
         omod (\<lambda>x. x\<lparr>pw_efuseValid := True, pw_rfe_type := bc_rfe (cs_board c), pw_power_k_valid := pc_powerValid (cs_phy c)\<rparr>);
         ret True } } }"

text \<open>The narrow cleanup: it looks neither at the error nor at cancellation.\<close>

definition bad_read32 :: "bool \<times> u32 \<Rightarrow> bool" where
  "bad_read32 r \<longleftrightarrow> \<not> fst r \<or> snd r = 0xffffffff \<or> snd r = 0xdeadbeef"

definition pw_closePmc :: "'s Io \<Rightarrow> ('s, bool) pwr" where
  "pw_closePmc d = do {
     command \<leftarrow> dcall (io_command d);
     g \<leftarrow> dcall (io_inGate d);
     if \<not> g \<or> command = 0xffff \<or> command AND 6 \<noteq> 2 then ret False else do {
     r \<leftarrow> dcall (io_read32 d R_AX_PMC_DBG_CTRL2);
     if bad_read32 r then ret False else do {
     closed \<leftarrow> if snd r AND B_AX_SYSON_DIS_PMCR_AX_WRMSK \<noteq> 0 then do {
         owned \<leftarrow> ogets pw_pmcOwned;
         w \<leftarrow> if owned then dcall (io_write32 d R_AX_PMC_DBG_CTRL2 (snd r AND NOT B_AX_SYSON_DIS_PMCR_AX_WRMSK)) else ret False;
         if \<not> w then ret False else do {
         q \<leftarrow> dcall (io_read32 d R_AX_PMC_DBG_CTRL2);
         ret (\<not> bad_read32 q \<and> snd q AND B_AX_SYSON_DIS_PMCR_AX_WRMSK = 0) } }
       else ret True;
     if \<not> closed then ret False else do {
     omod (pw_pmcOwned_update (\<lambda>_. False));
     ret True } } } }"

definition pw_pub :: "(PowerResult \<Rightarrow> PowerResult) \<Rightarrow> ('s, unit) pwr" where
  "pw_pub f = omod (\<lambda>x. x\<lparr>pw_public := f (pw_public x)\<rparr>)"

definition pw_finish :: "'s Io \<Rightarrow> bool \<Rightarrow> bool \<Rightarrow> ('s, bool) pwr" where
  "pw_finish d rc on = do {
     (if \<not> rc then do { pw_fail PE_upstream 0 0 0; ret () } else ret ());
     closed \<leftarrow> pw_closePmc d;
     pw_upd (ar_pmcClosed_update (\<lambda>_. closed));
     (if \<not> closed then do { pw_fail PE_readback R_AX_PMC_DBG_CTRL2 0 0; ret () } else ret ());
     complete \<leftarrow> pw_check d;
     pw_upd (ar_complete_update (\<lambda>_. complete));
     omod (\<lambda>x. x\<lparr>pw_public := (if on then (pw_public x)\<lparr>pr_on := pw_result x\<rparr> else (pw_public x)\<lparr>pr_off := pw_result x\<rparr>)\<rparr>);
     (if \<not> complete then omod (\<lambda>x. x\<lparr>pw_public := (pw_public x)\<lparr>pr_requiresRecovery :=
        pr_requiresRecovery (pw_public x) \<or> ar_writes (pw_result x) \<noteq> 0 \<or> \<not> ar_pmcClosed (pw_result x)\<rparr>\<rparr>) else ret ());
     ret complete }"

definition pw_start :: "'s Io \<Rightarrow> u8 \<Rightarrow> CalibrationSnapshot option \<Rightarrow> ('s, bool) pwr" where
  "pw_start d chipCut sn = do {
     attempted \<leftarrow> ogets (\<lambda>x. pr_onAttempted (pw_public x));
     if attempted \<or> 1 < chipCut then ret False else do {
     omod (pw_cv_update (\<lambda>_. chipCut));
     cal \<leftarrow> pw_calibration sn;
     if \<not> cal then ret False else do {
     pw_pub (pr_onAttempted_update (\<lambda>_. True));
     ok \<leftarrow> andM (pw_check d) (andM (pw_equal d R_AX_IC_PWR_STATE B_AX_WLMAC_PWR_STE_MASK 0)
       (pw_equal d R_AX_PMC_DBG_CTRL2 B_AX_SYSON_DIS_PMCR_AX_WRMSK 0));
     if \<not> ok then do { omod (\<lambda>x. x\<lparr>pw_public := (pw_public x)\<lparr>pr_on := pw_result x\<rparr>\<rparr>); ret False } else do {
     rc \<leftarrow> pwr_on_func d;
     up \<leftarrow> andM (ret rc) (andM (pw_check d) (pw_equal d R_AX_IC_PWR_STATE B_AX_WLMAC_PWR_STE_MASK 0x100));
     (if up then do { pw_write d (R_AX_SCOREBOARD + 3) MAC_AX_NOTIFY_TP_MAJOR 1 0; ret () } else ret ());
     powered \<leftarrow> pw_finish d rc True;
     pw_pub (pr_powered_update (\<lambda>_. powered));
     ret powered } } } }"

definition pw_stop :: "'s Io \<Rightarrow> CalibrationSnapshot option \<Rightarrow> bool \<Rightarrow> ('s, bool) pwr" where
  "pw_stop d sn probeStage = do {
     refuse \<leftarrow> ogets (\<lambda>x. \<not> pr_onAttempted (pw_public x) \<or> ar_writes (pr_on (pw_public x)) = 0 \<or> pr_offAttempted (pw_public x));
     if refuse then ret False else do {
     cal \<leftarrow> pw_calibration sn;
     if \<not> cal then ret False else do {
     omod (\<lambda>x. x\<lparr>pw_public := (pw_public x)\<lparr>pr_offAttempted := True\<rparr>, pw_result := ActionResult0, pw_cleanup := True,
       pw_clockStarted := False, pw_probeDone := \<not> probeStage\<rparr>);
     c \<leftarrow> pw_check d;
     if \<not> c then do {
       omod (\<lambda>x. x\<lparr>pw_public := (pw_public x)\<lparr>pr_off := pw_result x, pr_requiresRecovery := True\<rparr>\<rparr>);
       ret False }
     else do {
     v \<leftarrow> pw_read d R_AX_IC_PWR_STATE 4;
     st \<leftarrow> ret (v AND B_AX_WLMAC_PWR_STE_MASK);
     c \<leftarrow> pw_check d;
     (if c \<and> st \<noteq> 0 \<and> st \<noteq> 0x100 then do { pw_fail PE_precondition R_AX_IC_PWR_STATE 0x100 st; ret () } else ret ());
     c \<leftarrow> pw_check d;
     (if c \<and> st = 0x100 then do {
        pw_equal d 0x1000 0x2800 0;
        pw_equal d 0x101c 0x007f0f03 0;
        runM (\<lambda>a. do { pw_equal d a 0xffffffff 0; ret () }) [0x1a0, 0x10b0, 0x13b0] } else ret ());
     rc \<leftarrow> andM (pw_check d) (pwr_off_func d);
     off \<leftarrow> andM (ret rc) (andM (pw_check d) (andM (pw_equal d R_AX_IC_PWR_STATE B_AX_WLMAC_PWR_STE_MASK 0)
       (andM (pw_equal d R_AX_SYS_PW_CTRL B_AX_APFM_SWLPS B_AX_APFM_SWLPS) (pw_siIdle d))));
     (if off then do { pw_write d (R_AX_SCOREBOARD + 3) MAC_AX_NOTIFY_PWR_MAJOR 1 0; ret () } else ret ());
     returnedOff \<leftarrow> pw_finish d rc False;
     pw_pub (\<lambda>r. if returnedOff then r\<lparr>pr_returnedOff := True, pr_powered := False, pr_requiresRecovery := False\<rparr>
       else r\<lparr>pr_returnedOff := False, pr_requiresRecovery := True\<rparr>);
     ret returnedOff } } } }"

section \<open>What reaches the device\<close>

text \<open>The native register interface in \<open>MacDevicePowerIo.cpp\<close> refuses everything else: misaligned or unlisted registers, other
  serial commands, other scoreboard values, longer delays.\<close>

definition power_accessible :: "u32 \<Rightarrow> nat \<Rightarrow> bool \<Rightarrow> bool" where
  "power_accessible a width w \<longleftrightarrow> a AND (of_nat width - 1) = 0 \<and> a < 0x10000 \<and> of_nat width \<le> 0x10000 - a \<and> powerAddress a width w"

fun power_io_admits :: "io_event \<Rightarrow> bool" where
  "power_io_admits (Io_write8 a v) \<longleftrightarrow> power_accessible a 1 True \<and>
     \<not> (a = R_AX_SCOREBOARD + 3 \<and> ucast v \<noteq> MAC_AX_NOTIFY_TP_MAJOR \<and> ucast v \<noteq> MAC_AX_NOTIFY_PWR_MAJOR)"
| "power_io_admits (Io_write16 a v) \<longleftrightarrow> power_accessible a 2 True"
| "power_io_admits (Io_write32 a v) \<longleftrightarrow> power_accessible a 4 True \<and> (a = R_AX_WLAN_XTAL_SI_CTRL \<longrightarrow> powerSiCommand v)"
| "power_io_admits (Io_delay t) \<longleftrightarrow> t \<le> 1000"
| "power_io_admits (Io_config a v) \<longleftrightarrow> False"

definition power_events :: "io_event set" where
  "power_events = {e. power_io_admits e}"

lemma pw_frames [frame_rules]:
  "frames W (pw_upd u)" "frames W (pw_fail e a w v)" "frames W (pw_check (io_logged d))" "frames W (pw_io_read (io_logged d) a width)"
  "frames W (pw_pub g)"
  unfolding pw_upd_def pw_fail_def pw_check_def pw_io_read_def pw_pub_def io_logged_simps by (intro frame_rules)+

lemma pw_read_frames [frame_rules]: "frames W (pw_read (io_logged d) a width)"
  unfolding pw_read_def by (intro frame_rules)

lemma pw_frames_calibration [frame_rules]: "frames W (pw_calibration sn)"
  unfolding pw_calibration_def by (cases sn) (auto intro!: frame_rules)

text \<open>A write through the checked accessor is one event.\<close>

definition pw_event :: "u32 \<Rightarrow> u32 \<Rightarrow> nat \<Rightarrow> io_event" where
  "pw_event a v width = (if width = 1 then Io_write8 a (ucast v) else if width = 2 then Io_write16 a (ucast v) else Io_write32 a v)"

lemma pw_write_frames: "power_io_admits (pw_event a v width) \<Longrightarrow> frames power_events (pw_write (io_logged d) a v width m)"
  unfolding pw_write_def pw_io_write_def io_logged_simps
  by (intro frame_rules) (auto simp: pw_event_def power_events_def)

lemma pw_update_frames: "(\<And>v. power_io_admits (pw_event a v width)) \<Longrightarrow> frames power_events (pw_update (io_logged d) a m v width)"
  unfolding pw_update_def by (intro frame_rules pw_write_frames)

text \<open>The registers that may take any value.\<close>

definition plain32 :: "u32 \<Rightarrow> bool" where
  "plain32 a \<longleftrightarrow> power_accessible a 4 True \<and> a \<noteq> R_AX_WLAN_XTAL_SI_CTRL"

lemma pw_writes_frames [frame_rules]:
  "plain32 a \<Longrightarrow> frames power_events (pw_write32_set (io_logged d) a m)" "plain32 a \<Longrightarrow> frames power_events (pw_write32_clr (io_logged d) a m)"
  "plain32 a \<Longrightarrow> frames power_events (pw_write32_mask (io_logged d) a m v)" "plain32 a \<Longrightarrow> frames power_events (pw_write32 (io_logged d) a v)"
  unfolding pw_write32_set_def pw_write32_clr_def pw_write32_mask_def pw_write32_def
  by (auto intro!: frame_rules pw_update_frames pw_write_frames simp: pw_event_def plain32_def)

lemma plain32_regs [frame_rules]:
  "plain32 R_AX_SYS_PW_CTRL" "plain32 R_AX_WLLPS_CTRL" "plain32 R_AX_AFE_LDO_CTRL" "plain32 R_AX_SPS_DIG_OFF_CTRL0" "plain32 R_AX_SYS_SDIO_CTRL"
  "plain32 R_AX_SYS_ADIE_PAD_PWR_CTRL" "plain32 R_AX_PMC_DBG_CTRL2" "plain32 R_AX_SYS_ISO_CTRL" "plain32 R_AX_SPS_DIG_ON_CTRL0"
  "plain32 R_AX_DMAC_FUNC_EN" "plain32 R_AX_CMAC_FUNC_EN" "plain32 R_AX_EECS_EESK_FUNC_SEL" "plain32 R_AX_WLRF_CTRL" "plain32 R_AX_SYS_SWR_CTRL1"
  by (code_simp+)

lemma pw_narrow_frames [frame_rules]:
  "frames power_events (pw_write8_set (io_logged d) R_AX_PLATFORM_ENABLE m)" "frames power_events (pw_write8_clr (io_logged d) R_AX_PLATFORM_ENABLE m)"
  "frames power_events (pw_write8_clr (io_logged d) R_AX_SYS_FUNC_EN m)" "frames power_events (pw_write16_mask (io_logged d) R_AX_HCI_LDO_CTRL m v)"
  "frames power_events (pw_write16 (io_logged d) R_AX_SPS_ANA_ON_CTRL2 v)"
  unfolding pw_write8_set_def pw_write8_clr_def pw_write16_mask_def pw_write16_def Let_def
  by (intro frame_rules pw_update_frames pw_write_frames; simp add: pw_event_def power_accessible_def powerAddress_def power_consts)+

lemma pw_delay_frames [frame_rules]: "t \<le> 1000 \<Longrightarrow> frames power_events (pw_delay (io_logged d) t)"
  unfolding pw_delay_def io_logged_simps by (intro frame_rules) (simp add: power_events_def)

lemma pw_loop_frames:
  assumes "frames power_events predicate" and "step \<le> 1000"
  shows "frames power_events (pw_poll_loop (io_logged d) step timeout predicate start k)"
proof (induction k)
  case 0
  show ?case by (subst pw_poll_loop.simps) (simp only: simp_thms if_True, intro frame_rules assms)
next
  case (Suc k)
  show ?case by (subst pw_poll_loop.simps) (simp only: nat.distinct diff_Suc_1 simp_thms, intro frame_rules assms Suc)
qed

lemma pw_poll_frames [frame_rules]:
  "frames power_events (pw_poll_reg (io_logged d) 1000 n a ready)" "frames power_events (pw_poll_reg (io_logged d) 50 n a ready)"
  unfolding pw_poll_reg_def pw_poll_def by (intro frame_rules pw_loop_frames; simp)+

lemma pw_siIdle_frames [frame_rules]: "frames power_events (pw_siIdle (io_logged d))"
  unfolding pw_siIdle_def by (intro frame_rules)

text \<open>An allowed write command names a register that may be queried.\<close>

lemma si_query_allowed:
  fixes offset val bits :: u8
  assumes "powerSiCommand (0x80000000 OR push_bit 16 (ucast bits) OR push_bit 8 (ucast val) OR ucast offset)"
  shows "powerSiCommand (0x81000000 OR ucast offset)"
proof -
  have n: "\<not> bit (0x80000000 :: u32) k" if "k < 8" for k
  proof -
    have "bit ((2 :: u32) ^ 31) k \<longleftrightarrow> k = 31" unfolding bit_exp_iff by auto
    then show ?thesis using that by simp
  qed
  have "ucast (0x80000000 OR push_bit 16 (ucast bits) OR push_bit 8 (ucast val) OR ucast offset :: u32) = offset"
    by (rule bit_word_eqI) (use n in \<open>auto simp: bit_simps\<close>)
  then have "offset \<in> {XTAL_SI_ANAPAR_WL, XTAL_SI_SRAM_CTRL, XTAL_SI_XTAL_XMD_2, XTAL_SI_XTAL_XMD_4, XTAL_SI_WL_RFC_S0, XTAL_SI_WL_RFC_S1}"
    using assms unfolding powerSiCommand_def Let_def by (simp split: if_splits)
  then show ?thesis by (auto simp: powerSiCommand_def power_consts)
qed

lemma si_port: "power_accessible R_AX_WLAN_XTAL_SI_CTRL 4 True"
  by code_simp

lemma si_event: "powerSiCommand c \<Longrightarrow> power_io_admits (pw_event R_AX_WLAN_XTAL_SI_CTRL c 4)"
  using si_port by (simp add: pw_event_def)

lemma frames_when: "(b \<Longrightarrow> frames W m) \<Longrightarrow> frames W (andM (ret b) m)"
  by (cases b) (simp_all add: andM_def frames_ret)

lemma pw_si_frames [frame_rules]: "frames power_events (pw_write_xtal_si (io_logged d) offset v bits)"
proof (cases "powerSiCommand (0x80000000 OR push_bit 16 (ucast bits) OR push_bit 8 (ucast v) OR ucast offset)")
  case True
  note w = pw_write_frames [OF si_event [OF True]] pw_write_frames [OF si_event [OF si_query_allowed [OF True]]]
  show ?thesis unfolding pw_write_xtal_si_def Let_def by (intro frame_rules w)
next
  case False
  then show ?thesis by (simp add: pw_write_xtal_si_def andM_def Let_def frames_ret)
qed

lemma pw_si_list_frames [frame_rules]: "frames power_events (pw_si_list (io_logged d) xs)"
  unfolding pw_si_list_def by (intro frame_rules)

lemma pw_seq_frames [frame_rules]:
  "frames power_events (pwr_on_rails (io_logged d))" "frames power_events (pwr_on_crystal (io_logged d))"
  "frames power_events (pwr_off_tail (io_logged d))" "frames power_events (pwr_sps_ana (io_logged d))"
  unfolding pwr_on_rails_def pwr_on_crystal_def pwr_off_tail_def pwr_sps_ana_def by (intro frame_rules)+

lemma pw_on_off_frames [frame_rules]: "frames power_events (pwr_on_func (io_logged d))" "frames power_events (pwr_off_func (io_logged d))"
  unfolding pwr_on_func_def pwr_off_func_def pwr_on_enable_def by (intro frame_rules; simp)+

lemma pw_equal_frames [frame_rules]: "frames W (pw_equal (io_logged d) a b w)"
  unfolding pw_equal_def by (intro frame_rules)

lemma pw_finish_frames [frame_rules]: "frames power_events (pw_closePmc (io_logged d))" "frames power_events (pw_finish (io_logged d) rc on)"
proof -
  have "Io_write32 R_AX_PMC_DBG_CTRL2 v \<in> power_events" for v
    using plain32_regs(7) by (simp add: power_events_def plain32_def)
  then show c: "frames power_events (pw_closePmc (io_logged d))"
    unfolding pw_closePmc_def io_logged_simps by (intro frame_rules)
  show "frames power_events (pw_finish (io_logged d) rc on)" unfolding pw_finish_def by (intro frame_rules c)
qed

lemma pw_notify_frames [frame_rules]:
  "frames power_events (pw_write (io_logged d) (R_AX_SCOREBOARD + 3) MAC_AX_NOTIFY_TP_MAJOR 1 0)"
  "frames power_events (pw_write (io_logged d) (R_AX_SCOREBOARD + 3) MAC_AX_NOTIFY_PWR_MAJOR 1 0)"
  by (rule pw_write_frames, simp add: pw_event_def power_accessible_def powerAddress_def power_consts)+

lemma pw_start_frames: "frames power_events (pw_start (io_logged d) chipCut sn)" "frames power_events (pw_stop (io_logged d) sn probeStage)"
  unfolding pw_start_def pw_stop_def by (intro frame_rules)+

text \<open>Whatever the device answers, power-on and power-off write only registers, serial commands and
  scoreboard values that the native register interface admits, and never ask for a delay it refuses: the
  sequences and the interface's filters agree.\<close>

theorem power_writes_admitted:
  assumes "run_state (pw_start (io_logged d) chipCut sn) (x, s, []) = (ok, y, s', up)"
    and "run_state (pw_stop (io_logged d) sn' probeStage) (y, s', []) = (ok', z, s'', down)"
  shows "list_all power_io_admits up \<and> list_all power_io_admits down"
  using frames_run_state [OF pw_start_frames(1) assms(1)] frames_run_state [OF pw_start_frames(2) assms(2)]
  by (auto simp: power_events_def list_all_iff)

definition DevicePower0 :: DevicePower where
  "DevicePower0 = \<lparr>pw_result = ActionResult0, pw_efuseValid = False, pw_power_k_valid = False, pw_rfe_type = 0xff, pw_cv = 0, pw_probeDone = False,
     pw_cleanup = False, pw_clockStarted = False, pw_pmcOwned = False, pw_first = 0, pw_previous = 0,
     pw_public = \<lparr>pr_on = ActionResult0, pr_off = ActionResult0, pr_onAttempted = False, pr_offAttempted = False, pr_powered = False,
       pr_returnedOff = False, pr_requiresRecovery = False\<rparr>\<rparr>"

theorem power_writes_admitted_witness:
  "\<exists>ok y s up ok' z t down. run_state (pw_start (io_logged io_file) 0 None) (DevicePower0, iofile0, []) = (ok, y, s, up) \<and>
     run_state (pw_stop (io_logged io_file) None True) (y, s, []) = (ok', z, t, down) \<and> list_all power_io_admits up \<and> list_all power_io_admits down"
proof -
  obtain ok y s up where a: "run_state (pw_start (io_logged io_file) 0 None) (DevicePower0, iofile0, []) = (ok, y, s, up)"
    by (metis prod_cases4)
  obtain ok' z t down where b: "run_state (pw_stop (io_logged io_file) None True) (y, s, []) = (ok', z, t, down)"
    by (metis prod_cases4)
  show ?thesis using power_writes_admitted [OF a b] a b by blast
qed

section \<open>Fail-stop\<close>

definition pw_failed :: "DevicePower \<Rightarrow> bool" where
  "pw_failed x \<longleftrightarrow> ar_error (pw_result x) \<noteq> PE_none"

interpretation power: fail_stop pw_failed "pw_check d" for d :: "'s Io"
  by unfold_locales (simp add: pw_failed_def pw_check_def ogets_def)

lemma guard_inert: "inert pw_failed (do { c \<leftarrow> pw_check d; if \<not> c then ret a else m })"
proof -
  have "(do { c \<leftarrow> pw_check d; if \<not> c then ret a else m }) = do { c \<leftarrow> pw_check d; if c then m else ret a }"
    by (rule arg_cong [where f = "State_Monad.bind (pw_check d)"]) auto
  then show ?thesis using power.inert_guarded [OF inert_ret] by simp
qed

lemma pw_access_inert [inert_rules]:
  "inert pw_failed (pw_read d a width)" "inert pw_failed (pw_write d a v width m)" "inert pw_failed (pw_delay d us)" "inert pw_failed (pw_poll d i n p)"
  "inert pw_failed (pw_check d)"
  unfolding pw_read_def pw_write_def pw_delay_def pw_poll_def by (rule guard_inert power.inert_guard)+

lemma pw_fail_inert [inert_rules]: "inert pw_failed (pw_fail e a w v)"
  unfolding pw_fail_def pw_upd_def by (intro inert_rules) (simp add: pw_failed_def)

lemma pw_steps_inert [inert_rules]:
  "inert pw_failed (pw_write32 d a v)" "inert pw_failed (pw_write16 d a v16)" "inert pw_failed (pw_update d a m v width)"
  "inert pw_failed (pw_poll_reg d i n a ready)" "inert pw_failed (pw_equal d a v w)"
  unfolding pw_write32_def pw_write16_def pw_update_def pw_poll_reg_def pw_equal_def by (intro inert_rules)+

lemma pw_words_inert [inert_rules]:
  "inert pw_failed (pw_write32_set d a m)" "inert pw_failed (pw_write32_clr d a m)" "inert pw_failed (pw_write32_mask d a m v)"
  "inert pw_failed (pw_write8_set d a m)" "inert pw_failed (pw_write8_clr d a m)" "inert pw_failed (pw_write16_mask d a m v16)"
  "inert pw_failed (pw_siIdle d)"
  unfolding pw_write32_set_def pw_write32_clr_def pw_write32_mask_def pw_write8_set_def pw_write8_clr_def pw_write16_mask_def pw_siIdle_def Let_def
  by (intro inert_rules)+

lemma inert_prod [inert_rules]: "(\<And>a b. inert E (f a b)) \<Longrightarrow> inert E (case p of (a, b) \<Rightarrow> f a b)"
  by (cases p) simp

lemma pw_si_inert [inert_rules]: "inert pw_failed (pw_write_xtal_si d offset v bits)" "inert pw_failed (pw_si_list d xs)"
  unfolding pw_si_list_def pw_write_xtal_si_def Let_def by (intro inert_rules)+

lemma pw_sequences_inert: "inert pw_failed (pwr_on_func d)" "inert pw_failed (pwr_off_func d)"
  unfolding pwr_on_func_def pwr_on_rails_def pwr_on_crystal_def pwr_on_enable_def pwr_off_func_def pwr_off_tail_def pwr_sps_ana_def
  by (intro inert_rules)+

lemma inert_run:
  assumes "inert E m" and "E x" and "run_state m (x, s) = (a, y, s')"
  shows "s' = s \<and> E y"
proof -
  have "wp m (\<lambda>_ (y, z). E y \<and> z = s) (x, s)" using assms(1,2) by (simp add: inert_def)
  then show ?thesis using assms(3) by (simp add: wp_def)
qed



end
