(* ===== verification/PciLink.thy ===== *)
theory PciLink
  imports DeviceIo
begin

text \<open>The PCIe link set-up before and after the rings, \<open>src/network/PciLinkInitialization.hpp\<close>: checked accesses, the MDIO and DBI
  engines, the configuration space with its fallback, and the suspension of ASPM L1 around the reference clock
  calibration.\<close>

datatype LinkError = LE_none | LE_invalid | LE_ownership | LE_cancelled | LE_clock | LE_timeout | LE_io | LE_readback | LE_mdioTimeout
  | LE_dbiTimeout | LE_linkSpeed

record LinkResult =
  lr_error :: LinkError
  lr_address :: u32
  lr_value :: u32
  lr_operations :: u32
  lr_polls :: u32
  lr_dbiFallbacks :: u32
  lr_cut :: u8
  lr_linkSpeed :: u8
  lr_preConfigured :: bool
  lr_postConfigured :: bool
  lr_modified :: bool
  lr_requiresRecovery :: bool
  lr_l1RestoreAttempted :: bool
  lr_l1Restored :: bool
  lr_l1RestoreFailed :: bool

record PciLink =
  lk_busy :: bool
  lk_cleanup :: bool
  lk_clockStarted :: bool
  lk_phaseStart :: u64
  lk_last :: u64
  lk_phaseOperations :: u32
  lk_l1Changed :: bool
  lk_savedL1 :: u8
  lk_result :: LinkResult

type_synonym ('s, 'a) lnk = "(PciLink, 's, 'a) prog"

definition lk_upd :: "(LinkResult \<Rightarrow> LinkResult) \<Rightarrow> ('s, unit) lnk" where
  "lk_upd f = omod (\<lambda>x. x\<lparr>lk_result := f (lk_result x)\<rparr>)"

definition lk_fail :: "LinkError \<Rightarrow> u32 \<Rightarrow> u32 \<Rightarrow> ('s, bool) lnk" where
  "lk_fail e a v = do {
     lk_upd (\<lambda>r. if lr_error r = LE_none then r\<lparr>lr_error := e, lr_address := a, lr_value := v\<rparr> else r);
     lk_upd (\<lambda>r. r\<lparr>lr_requiresRecovery := lr_modified r\<rparr>);
     ret False }"

definition lk_check :: "'s Io \<Rightarrow> ('s, bool) lnk" where
  "lk_check d = do {
     stopped \<leftarrow> ogets (\<lambda>x. lr_error (lk_result x) \<noteq> LE_none \<and> \<not> lk_cleanup x);
     if stopped then ret False else do {
     g \<leftarrow> dcall (io_inGate d);
     if \<not> g then lk_fail LE_ownership 0 0 else do {
     c \<leftarrow> dcall (io_cancelled d);
     if c then lk_fail LE_cancelled 0 0 else do {
     now \<leftarrow> dcall (io_nowUs d);
     back \<leftarrow> ogets (\<lambda>x. lk_clockStarted x \<and> now < lk_last x);
     if back then lk_fail LE_clock 0 0 else do {
     omod (\<lambda>x. x\<lparr>lk_clockStarted := True, lk_last := now\<rparr>);
     early \<leftarrow> ogets (\<lambda>x. lk_last x < lk_phaseStart x);
     if early then lk_fail LE_clock 0 0 else do {
     late \<leftarrow> ogets (\<lambda>x. (if lk_cleanup x then 5000 else 100000) \<le> lk_last x - lk_phaseStart x \<or> 20000 \<le> lk_phaseOperations x);
     if late then lk_fail LE_timeout 0 0 else ret True } } } } } }"

definition lk_enter :: "'s Io \<Rightarrow> ('s, bool) lnk" where
  "lk_enter d = do {
     busy \<leftarrow> ogets lk_busy;
     if busy then lk_fail LE_ownership 0 0 else do {
     failed \<leftarrow> ogets (\<lambda>x. lr_error (lk_result x) \<noteq> LE_none);
     if failed then ret False else do {
     now \<leftarrow> dcall (io_nowUs d);
     back \<leftarrow> ogets (\<lambda>x. lk_clockStarted x \<and> now < lk_last x);
     if back then lk_fail LE_clock 0 0 else do {
     omod (\<lambda>x. x\<lparr>lk_phaseStart := now, lk_phaseOperations := 0\<rparr>);
     c \<leftarrow> lk_check d;
     if \<not> c then ret False else do {
     omod (lk_busy_update (\<lambda>_. True));
     ret True } } } } }"

definition lk_operation :: "('s, unit) lnk" where
  "lk_operation = omod (\<lambda>x. x\<lparr>lk_result := (lk_result x)\<lparr>lr_operations := lr_operations (lk_result x) + 1\<rparr>,
     lk_phaseOperations := lk_phaseOperations x + 1\<rparr>)"

text \<open>A read returns whether it succeeded and the value; a failed check leaves 0.\<close>

definition lk_r8 :: "'s Io \<Rightarrow> u32 \<Rightarrow> ('s, bool \<times> u8) lnk" where
  "lk_r8 d a = do {
     c \<leftarrow> lk_check d;
     if \<not> c then ret (False, 0) else do {
     lk_operation;
     (ok, v) \<leftarrow> dcall (io_read8 d a);
     ok \<leftarrow> andM (orM (ret ok) (lk_fail LE_io a 0)) (lk_check d);
     ret (ok, v) } }"

definition lk_r16 :: "'s Io \<Rightarrow> u32 \<Rightarrow> ('s, bool \<times> u16) lnk" where
  "lk_r16 d a = do {
     c \<leftarrow> lk_check d;
     if \<not> c then ret (False, 0) else do {
     lk_operation;
     (ok, v) \<leftarrow> dcall (io_read16 d a);
     ok \<leftarrow> andM (orM (ret ok) (lk_fail LE_io a 0)) (lk_check d);
     ret (ok, v) } }"

definition lk_r32 :: "'s Io \<Rightarrow> u32 \<Rightarrow> ('s, bool \<times> u32) lnk" where
  "lk_r32 d a = do {
     c \<leftarrow> lk_check d;
     if \<not> c then ret (False, 0) else do {
     lk_operation;
     (ok, v) \<leftarrow> dcall (io_read32 d a);
     ok \<leftarrow> if \<not> ok then lk_fail LE_io a 0
       else if v = 0xffffffff \<or> v = 0xeaeaeaea \<or> v = 0xdeadbeef then lk_fail LE_io a v else lk_check d;
     ret (ok, v) } }"

definition lk_w :: "'s Io \<Rightarrow> u32 \<Rightarrow> u32 \<Rightarrow> ('s, bool) lnk \<Rightarrow> ('s, bool) lnk" where
  "lk_w d a v store = do {
     c \<leftarrow> lk_check d;
     if \<not> c then ret False else do {
     lk_operation;
     lk_upd (lr_modified_update (\<lambda>_. True));
     andM (orM store (lk_fail LE_io a v)) (lk_check d) } }"

definition lk_w8 :: "'s Io \<Rightarrow> u32 \<Rightarrow> u8 \<Rightarrow> ('s, bool) lnk" where
  "lk_w8 d a v = lk_w d a (ucast v) (dcall (io_write8 d a v))"

definition lk_w16 :: "'s Io \<Rightarrow> u32 \<Rightarrow> u16 \<Rightarrow> ('s, bool) lnk" where
  "lk_w16 d a v = lk_w d a (ucast v) (dcall (io_write16 d a v))"

definition lk_w32 :: "'s Io \<Rightarrow> u32 \<Rightarrow> u32 \<Rightarrow> ('s, bool) lnk" where
  "lk_w32 d a v = lk_w d a v (dcall (io_write32 d a v))"

definition lk_delay :: "'s Io \<Rightarrow> u32 \<Rightarrow> ('s, bool) lnk" where
  "lk_delay d us = andM (lk_check d) (andM (orM (dcall (io_delayUs d us)) (lk_fail LE_io 0 0)) (lk_check d))"

definition lk_update32 :: "'s Io \<Rightarrow> u32 \<Rightarrow> u32 \<Rightarrow> u32 \<Rightarrow> u32 \<Rightarrow> ('s, bool) lnk" where
  "lk_update32 d a clear set_bits verify = okM (lk_r32 d a) (\<lambda>v.
     let v = (v AND NOT clear) OR set_bits in
     andM (lk_w32 d a v) (okM (lk_r32 d a) (\<lambda>got.
       if (got XOR v) AND verify = 0 then ret True else lk_fail LE_readback a got)))"

definition lk_full32 :: "'s Io \<Rightarrow> u32 \<Rightarrow> u32 \<Rightarrow> ('s, bool) lnk" where
  "lk_full32 d a v = andM (lk_w32 d a v) (okM (lk_r32 d a) (\<lambda>got. if got = v then ret True else lk_fail LE_readback a got))"

section \<open>MDIO and DBI\<close>

text \<open>The two waits, with \<open>k\<close> more rounds allowed.\<close>

fun lk_mdioWait :: "'s Io \<Rightarrow> u16 \<Rightarrow> u64 \<Rightarrow> nat \<Rightarrow> ('s, bool) lnk" where
  "lk_mdioWait d m start k = okM (lk_r16 d 0x10a0) (\<lambda>v. do {
     lk_upd (lr_polls_update (\<lambda>n. n + 1));
     spent \<leftarrow> ogets (\<lambda>x. lk_last x - start);
     if 2000 < spent then lk_fail LE_mdioTimeout 0x10a0 (ucast m)
     else if v AND m = 0 then ret True
     else if 2000 \<le> spent \<or> k = 0 then lk_fail LE_mdioTimeout 0x10a0 (ucast m)
     else andM (lk_delay d 10) (lk_mdioWait d m start (k - 1)) })"

declare lk_mdioWait.simps [simp del]

definition lk_mdioIdle :: "'s Io \<Rightarrow> u16 \<Rightarrow> ('s, bool) lnk" where
  "lk_mdioIdle d m = do { start \<leftarrow> ogets lk_last; lk_mdioWait d m start 200 }"

definition lk_mdioTrigger :: "'s Io \<Rightarrow> u8 \<Rightarrow> u8 \<Rightarrow> u16 \<Rightarrow> ('s, bool) lnk" where
  "lk_mdioTrigger d address speed flag = (
     let page = (if speed = 2 then 2 else 0) + (if 0x20 \<le> address then 1 else 0) :: u16 in
     andM (lk_w8 d 0x10a0 (address AND 31)) (okM (lk_r16 d 0x10a0) (\<lambda>v.
     andM (lk_w16 d 0x10a0 ((v AND NOT 0x3000) OR push_bit 12 page)) (okM (lk_r16 d 0x10a0) (\<lambda>v.
     andM (lk_w16 d 0x10a0 (v OR flag)) (lk_mdioIdle d flag))))))"

definition lk_readMdio :: "'s Io \<Rightarrow> u8 \<Rightarrow> u8 \<Rightarrow> ('s, bool \<times> u16) lnk" where
  "lk_readMdio d address speed = do {
     ok \<leftarrow> andM (lk_mdioIdle d 0x300) (lk_mdioTrigger d address speed 0x200);
     if ok then lk_r16 d 0x10a6 else ret (False, 0) }"

definition lk_writeMdio :: "'s Io \<Rightarrow> u8 \<Rightarrow> u8 \<Rightarrow> u16 \<Rightarrow> ('s, bool) lnk" where
  "lk_writeMdio d address speed v = andM (lk_mdioIdle d 0x300) (andM (lk_w16 d 0x10a4 v) (lk_mdioTrigger d address speed 0x100))"

definition lk_updateMdio :: "'s Io \<Rightarrow> u8 \<Rightarrow> u8 \<Rightarrow> u16 \<Rightarrow> u16 \<Rightarrow> ('s, bool) lnk" where
  "lk_updateMdio d address speed m bits = okM (lk_readMdio d address speed) (\<lambda>v.
     let next = (v AND NOT m) OR (bits AND m) in
     andM (lk_writeMdio d address speed next) (okM (lk_readMdio d address speed) (\<lambda>got.
       if (got XOR next) AND m = 0 then ret True else lk_fail LE_readback (ucast address) (ucast got))))"

fun lk_dbiWait :: "'s Io \<Rightarrow> u64 \<Rightarrow> nat \<Rightarrow> ('s, bool) lnk" where
  "lk_dbiWait d start k = okM (lk_r8 d 0x1092) (\<lambda>v. do {
     lk_upd (lr_polls_update (\<lambda>n. n + 1));
     spent \<leftarrow> ogets (\<lambda>x. lk_last x - start);
     if 200 < spent then lk_fail LE_dbiTimeout 0x1092 0
     else if v = 0 then ret True
     else if 200 \<le> spent \<or> k = 0 then lk_fail LE_dbiTimeout 0x1092 0
     else andM (lk_delay d 10) (lk_dbiWait d start (k - 1)) })"

declare lk_dbiWait.simps [simp del]

definition lk_dbiIdle :: "'s Io \<Rightarrow> ('s, bool) lnk" where
  "lk_dbiIdle d = do { start \<leftarrow> ogets lk_last; lk_dbiWait d start 20 }"

definition lk_readDbi :: "'s Io \<Rightarrow> u16 \<Rightarrow> ('s, bool \<times> u8) lnk" where
  "lk_readDbi d address = do {
     ok \<leftarrow> andM (lk_dbiIdle d) (andM (lk_w16 d 0x1090 (address AND 0xffc)) (andM (lk_w8 d 0x1092 2) (lk_dbiIdle d)));
     if ok then lk_r8 d (0x1098 + ucast (address AND 3)) else ret (False, 0) }"

definition lk_writeDbi :: "'s Io \<Rightarrow> u16 \<Rightarrow> u8 \<Rightarrow> ('s, bool) lnk" where
  "lk_writeDbi d address v = (let lane = address AND 3; flag = (address AND 0xffc) OR push_bit 12 (push_bit (unat lane) 1) in
     andM (lk_dbiIdle d) (andM (lk_w8 d (0x1094 + ucast lane) v) (andM (lk_w16 d 0x1090 flag) (andM (lk_w8 d 0x1092 1) (lk_dbiIdle d)))))"

definition lk_readConfig :: "'s Io \<Rightarrow> u16 \<Rightarrow> ('s, bool \<times> u8) lnk" where
  "lk_readConfig d address = do {
     c \<leftarrow> lk_check d;
     if \<not> c then ret (False, 0) else do {
     lk_operation;
     (native, v) \<leftarrow> dcall (io_readConfig8 d address);
     c \<leftarrow> lk_check d;
     if \<not> c then ret (False, v)
     else if native then ret (True, v) else do {
     lk_upd (lr_dbiFallbacks_update (\<lambda>n. n + 1));
     lk_readDbi d address } } }"

definition lk_writeConfig :: "'s Io \<Rightarrow> u16 \<Rightarrow> u8 \<Rightarrow> ('s, bool) lnk" where
  "lk_writeConfig d address v = do {
     c \<leftarrow> lk_check d;
     if \<not> c then ret False else do {
     lk_operation;
     lk_upd (lr_modified_update (\<lambda>_. True));
     native \<leftarrow> dcall (io_writeConfig8 d address v);
     c \<leftarrow> lk_check d;
     if \<not> c then ret False else do {
     stored \<leftarrow> if native then ret True else do { lk_upd (lr_dbiFallbacks_update (\<lambda>n. n + 1)); lk_writeDbi d address v };
     if \<not> stored then ret False
     else okM (lk_readConfig d address) (\<lambda>got. if got = v then ret True else lk_fail LE_readback (ucast address) (ucast got)) } } }"

section \<open>The phases\<close>

definition lk_restoreL1 :: "'s Io \<Rightarrow> ('s, unit) lnk" where
  "lk_restoreL1 d = do {
     changed \<leftarrow> ogets lk_l1Changed;
     if \<not> changed then ret () else do {
     lk_upd (lr_l1RestoreAttempted_update (\<lambda>_. True));
     savedStart \<leftarrow> ogets lk_phaseStart;
     savedOps \<leftarrow> ogets lk_phaseOperations;
     omod (\<lambda>x. x\<lparr>lk_cleanup := True, lk_phaseStart := lk_last x, lk_phaseOperations := 0\<rparr>);
     saved \<leftarrow> ogets lk_savedL1;
     restored \<leftarrow> lk_writeConfig d 0x719 saved;
     lk_upd (\<lambda>r. r\<lparr>lr_l1Restored := restored, lr_l1RestoreFailed := \<not> restored\<rparr>);
     (if restored then omod (lk_l1Changed_update (\<lambda>_. False)) else ret ());
     omod (\<lambda>x. x\<lparr>lk_cleanup := False, lk_phaseStart := savedStart, lk_phaseOperations := savedOps\<rparr>) } }"

text \<open>The read of the saved value fills the field even when it fails.\<close>

definition lk_saveL1 :: "'s Io \<Rightarrow> ('s, bool) lnk" where
  "lk_saveL1 d = do { (ok, v) \<leftarrow> lk_readConfig d 0x719; omod (lk_savedL1_update (\<lambda>_. v)); ret ok }"

definition lk_disableRefclkAutok :: "'s Io \<Rightarrow> ('s, bool) lnk" where
  "lk_disableRefclkAutok d = okM (lk_readConfig d 0x82) (\<lambda>rate. do {
     lk_upd (lr_linkSpeed_update (\<lambda>_. rate AND 3));
     if rate AND 3 \<noteq> 1 \<and> rate AND 3 \<noteq> 2 then lk_fail LE_linkSpeed 0x82 (ucast rate)
     else andM (lk_saveL1 d) (do {
       saved \<leftarrow> ogets lk_savedL1;
       suspended \<leftarrow> if saved AND 8 \<noteq> 0 then do {
           omod (lk_l1Changed_update (\<lambda>_. True));
           lk_writeConfig d 0x719 (saved AND NOT 8) }
         else ret True;
       if \<not> suspended then do { lk_restoreL1 d; ret False } else do {
       ok \<leftarrow> lk_updateMdio d 0x30 (rate AND 3) 0x2000 0;
       lk_restoreL1 d;
       ogets (\<lambda>x. ok \<and> lr_error (lk_result x) = LE_none \<and> \<not> lr_l1RestoreFailed (lk_result x)) } }) })"

definition lk_preSteps :: "'s Io \<Rightarrow> ('s, bool) lnk" where
  "lk_preSteps d = andM (lk_update32 d 0x1008 0x20 0 0xffffffff) (andM (lk_update32 d 4 0x4000 0 0xffffffff)
     (andM (lk_update32 d 0x70 0 0x8000 0xffffffff) (andM (lk_update32 d 0x70 0x4000 0 0xffffffff)
     (andM (lk_updateMdio d 0x1b 1 0xf000 0x1000) (andM (lk_updateMdio d 0x1d 1 0x0c 0x0c)
     (andM (lk_disableRefclkAutok d) (andM (lk_update32 d 0x74 0 0x20 0xffffffff) (lk_update32 d 0x13f0 0x10 0 0xffffffff))))))))"

definition lk_preInit :: "'s Io \<Rightarrow> u8 \<Rightarrow> ('s, bool) lnk" where
  "lk_preInit d actualCut = do {
     already \<leftarrow> ogets (\<lambda>x. lr_preConfigured (lk_result x));
     if already then ret False else do {
     e \<leftarrow> lk_enter d;
     if \<not> e then ret False else do {
     ok \<leftarrow> if 6 \<le> actualCut then lk_fail LE_invalid 0 0 else do {
       lk_upd (lr_cut_update (\<lambda>_. actualCut));
       andM (lk_preSteps d) (okM (lk_r32 d 0x11d8) (\<lambda>v.
         let lbc = (v AND NOT 0xf0) OR 0x80 OR 3 in
         andM (lk_w32 d 0x11d8 lbc) (andM (lk_update32 d 0x11d8 0 lbc (NOT 2))
         (andM (lk_update32 d 0x11c0 0 3 0xffffffff) (andM (lk_update32 d 0x1000 0 0xc00000 0xffffffff)
         (do { lk_upd (lr_preConfigured_update (\<lambda>_. True)); ret True })))))) };
     omod (lk_busy_update (\<lambda>_. False));
     ret ok } } }"

definition lk_postInit :: "'s Io \<Rightarrow> ('s, bool) lnk" where
  "lk_postInit d = do {
     already \<leftarrow> ogets (\<lambda>x. lr_postConfigured (lk_result x));
     if already then ret False else do {
     e \<leftarrow> lk_enter d;
     if \<not> e then ret False else do {
     pre \<leftarrow> ogets (\<lambda>x. lr_preConfigured (lk_result x));
     ok \<leftarrow> if \<not> pre then lk_fail LE_invalid 0 0
       else andM (allM (\<lambda>a. okM (lk_r32 d a) (\<lambda>_. ret True)) [0x8410, 0x8414, 0x8418, 0x841c])
         (andM (lk_update32 d 0x8410 0 0x43 0xffffffff) (andM (lk_update32 d 0x8410 0x3000 0x2000 0xffffffff)
         (andM (lk_update32 d 0x8410 0x700 0x700 0xffffffff) (andM (lk_update32 d 0x8414 0xfff 0x28 0xffffffff)
         (andM (lk_update32 d 0x8414 0xfff0000 0x280000 0xffffffff) (andM (lk_full32 d 0x8418 0x90039003)
         (andM (lk_full32 d 0x841c 0x880b880b) (andM (lk_update32 d 0x8810 0 1 0xffffffff) (andM (lk_update32 d 0x9a00 2 0 0xffffffff)
         (do { lk_upd (lr_postConfigured_update (\<lambda>_. True)); ret True }))))))))));
     omod (lk_busy_update (\<lambda>_. False));
     ret ok } } }"

section \<open>What reaches the device\<close>

text \<open>The link, clock, latency and serial-engine registers, and one byte of configuration space.\<close>

definition link_registers :: "u32 set" where
  "link_registers = {0x1008, 4, 0x70, 0x74, 0x13f0, 0x11d8, 0x11c0, 0x1000, 0x8410, 0x8414, 0x8418, 0x841c, 0x8810, 0x9a00}"

definition link_events :: "io_event set" where
  "link_events = {e. (\<exists>t. e = Io_delay t) \<or> (\<exists>a v. e = Io_write32 a v \<and> a \<in> link_registers) \<or>
     (\<exists>a v. e = Io_write16 a v \<and> a \<in> {0x1090, 0x10a0, 0x10a4}) \<or>
     (\<exists>a v. e = Io_write8 a v \<and> a \<in> {0x10a0, 0x1092, 0x1094, 0x1095, 0x1096, 0x1097}) \<or> (\<exists>v. e = Io_config 0x719 v)}"

lemma lk_frames [frame_rules]:
  "frames W (lk_upd u)" "frames W (lk_fail e a v)" "frames W (lk_check (io_logged d))" "frames W (lk_enter (io_logged d))" "frames W lk_operation"
  unfolding lk_upd_def lk_fail_def lk_check_def lk_enter_def lk_operation_def io_logged_simps by (intro frame_rules)+

lemma lk_read_frames [frame_rules]: "frames W (lk_r8 (io_logged d) a)" "frames W (lk_r16 (io_logged d) a)" "frames W (lk_r32 (io_logged d) a)"
  unfolding lk_r8_def lk_r16_def lk_r32_def io_logged_simps by (intro frame_rules)+

lemma lk_write_frames [frame_rules]:
  "a \<in> link_registers \<Longrightarrow> frames link_events (lk_w32 (io_logged d) a v)"
  "b \<in> {0x1090, 0x10a0, 0x10a4} \<Longrightarrow> frames link_events (lk_w16 (io_logged d) b v16)"
  "c \<in> {0x10a0, 0x1092, 0x1094, 0x1095, 0x1096, 0x1097} \<Longrightarrow> frames link_events (lk_w8 (io_logged d) c v8)"
  "frames link_events (lk_delay (io_logged d) t)"
  unfolding lk_w32_def lk_w16_def lk_w8_def lk_w_def lk_delay_def io_logged_simps
  by (intro frame_rules; simp add: link_events_def)+

lemma link_registers_mem [frame_rules]:
  "0x1008 \<in> link_registers" "4 \<in> link_registers" "0x70 \<in> link_registers" "0x74 \<in> link_registers" "0x13f0 \<in> link_registers"
  "0x11d8 \<in> link_registers" "0x11c0 \<in> link_registers" "0x1000 \<in> link_registers" "0x8410 \<in> link_registers" "0x8414 \<in> link_registers"
  "0x8418 \<in> link_registers" "0x841c \<in> link_registers" "0x8810 \<in> link_registers" "0x9a00 \<in> link_registers"
  by (simp_all add: link_registers_def)

lemma lk_update_frames [frame_rules]:
  "a \<in> link_registers \<Longrightarrow> frames link_events (lk_update32 (io_logged d) a m b v)" "a \<in> link_registers \<Longrightarrow> frames link_events (lk_full32 (io_logged d) a w)"
  unfolding lk_update32_def lk_full32_def Let_def by (intro frame_rules; assumption)+

lemma lk_wait_frames [frame_rules]: "frames link_events (lk_mdioWait (io_logged d) m start k)" "frames link_events (lk_dbiWait (io_logged d) start k)"
proof (induction k)
  case 0
  { case 1 show ?case by (subst lk_mdioWait.simps) (simp only: simp_thms if_True, intro frame_rules) }
  { case 2 show ?case by (subst lk_dbiWait.simps) (simp only: simp_thms if_True, intro frame_rules) }
next
  case (Suc k)
  { case 1 show ?case by (subst lk_mdioWait.simps) (simp only: nat.distinct diff_Suc_1 simp_thms, intro frame_rules Suc) }
  { case 2 show ?case by (subst lk_dbiWait.simps) (simp only: nat.distinct diff_Suc_1 simp_thms, intro frame_rules Suc) }
qed

lemma lk_engine_frames [frame_rules]:
  "frames link_events (lk_mdioIdle (io_logged d) m)" "frames link_events (lk_mdioTrigger (io_logged d) a s f)" "frames link_events (lk_dbiIdle (io_logged d))"
  unfolding lk_mdioIdle_def lk_mdioTrigger_def lk_dbiIdle_def Let_def by (intro frame_rules; simp)+

lemma lk_mdio_frames [frame_rules]:
  "frames link_events (lk_readMdio (io_logged d) a s)" "frames link_events (lk_writeMdio (io_logged d) a s v)"
  "frames link_events (lk_updateMdio (io_logged d) a s m b)"
  unfolding lk_readMdio_def lk_writeMdio_def lk_updateMdio_def Let_def by (intro frame_rules; simp)+

lemma lk_config_frames [frame_rules]:
  "frames link_events (lk_readDbi (io_logged d) a)" "frames link_events (lk_readConfig (io_logged d) a)"
  "frames link_events (lk_writeDbi (io_logged d) 0x719 v)"
  unfolding lk_readConfig_def lk_readDbi_def lk_writeDbi_def Let_def io_logged_simps by (intro frame_rules; simp)+

lemma lk_writeConfig_frames [frame_rules]: "frames link_events (lk_writeConfig (io_logged d) 0x719 v)"
  unfolding lk_writeConfig_def io_logged_simps by (intro frame_rules) (simp add: link_events_def)

lemma lk_restore_frames [frame_rules]: "frames link_events (lk_restoreL1 (io_logged d))" "frames link_events (lk_saveL1 (io_logged d))"
  unfolding lk_restoreL1_def lk_saveL1_def by (intro frame_rules)+

lemma lk_autok_frames [frame_rules]: "frames link_events (lk_disableRefclkAutok (io_logged d))"
  unfolding lk_disableRefclkAutok_def by (intro frame_rules)

lemma lk_phase_frames: "frames link_events (lk_preInit (io_logged d) c)" "frames link_events (lk_postInit (io_logged d))"
  unfolding lk_preInit_def lk_preSteps_def lk_postInit_def Let_def by (intro frame_rules)+

section \<open>Suspending L1\<close>

text \<open>The fields about L1. Everything but \<open>disableRefclkAutok\<close> leaves them alone.\<close>

definition lk_l1 :: "PciLink \<Rightarrow> bool \<times> u8 \<times> bool \<times> bool" where
  "lk_l1 x = (lk_l1Changed x, lk_savedL1 x, lr_l1RestoreAttempted (lk_result x), lr_l1RestoreFailed (lk_result x))"

abbreviation l1_is :: "(bool \<times> u8 \<times> bool \<times> bool \<Rightarrow> bool) \<Rightarrow> PciLink \<Rightarrow> bool" where
  "l1_is P x \<equiv> P (lk_l1 x)"

lemma lk_keep [keep_rules]:
  "keeps (l1_is P) (lk_fail e a v) (\<lambda>_. l1_is P)" "keeps (l1_is P) (lk_check d) (\<lambda>_. l1_is P)" "keeps (l1_is P) (lk_enter d) (\<lambda>_. l1_is P)"
  "keeps (l1_is P) lk_operation (\<lambda>_. l1_is P)"
  unfolding lk_upd_def lk_fail_def lk_check_def lk_enter_def lk_operation_def by (intro keep_rules; simp add: lk_l1_def)+

lemma lk_upd_keep [keep_rules]: "(\<And>r. lr_l1RestoreAttempted (f r) = lr_l1RestoreAttempted r \<and> lr_l1RestoreFailed (f r) = lr_l1RestoreFailed r) \<Longrightarrow>
    keeps (l1_is P) (lk_upd f) (\<lambda>_. l1_is P)"
  unfolding lk_upd_def by (intro keep_rules) (simp add: lk_l1_def)

lemma lk_access_keep [keep_rules]:
  "keeps (l1_is P) (lk_r8 d a) (\<lambda>_. l1_is P)" "keeps (l1_is P) (lk_r16 d a) (\<lambda>_. l1_is P)" "keeps (l1_is P) (lk_r32 d a) (\<lambda>_. l1_is P)"
  "keeps (l1_is P) (lk_w8 d a v8) (\<lambda>_. l1_is P)" "keeps (l1_is P) (lk_w16 d a v16) (\<lambda>_. l1_is P)" "keeps (l1_is P) (lk_w32 d a v32) (\<lambda>_. l1_is P)"
  "keeps (l1_is P) (lk_delay d t) (\<lambda>_. l1_is P)"
  unfolding lk_r8_def lk_r16_def lk_r32_def lk_w8_def lk_w16_def lk_w32_def lk_w_def lk_delay_def by (intro keep_rules; simp)+

lemma lk_wait_keep [keep_rules]:
  "keeps (l1_is P) (lk_mdioWait d m start k) (\<lambda>_. l1_is P)" "keeps (l1_is P) (lk_dbiWait d start k) (\<lambda>_. l1_is P)"
proof (induction k)
  case 0
  { case 1 show ?case by (subst lk_mdioWait.simps) (simp only: simp_thms if_True, intro keep_rules; simp) }
  { case 2 show ?case by (subst lk_dbiWait.simps) (simp only: simp_thms if_True, intro keep_rules; simp) }
next
  case (Suc k)
  { case 1 show ?case by (subst lk_mdioWait.simps) (simp only: nat.distinct diff_Suc_1 simp_thms, intro keep_rules Suc; simp) }
  { case 2 show ?case by (subst lk_dbiWait.simps) (simp only: nat.distinct diff_Suc_1 simp_thms, intro keep_rules Suc; simp) }
qed

lemma lk_engine_keep [keep_rules]:
  "keeps (l1_is P) (lk_mdioIdle d m) (\<lambda>_. l1_is P)" "keeps (l1_is P) (lk_dbiIdle d) (\<lambda>_. l1_is P)"
  "keeps (l1_is P) (lk_mdioTrigger d a s f) (\<lambda>_. l1_is P)"
  unfolding lk_mdioIdle_def lk_dbiIdle_def lk_mdioTrigger_def Let_def by (intro keep_rules)+

lemma lk_steps_keep [keep_rules]:
  "keeps (l1_is P) (lk_updateMdio d a s m b) (\<lambda>_. l1_is P)" "keeps (l1_is P) (lk_update32 d r c w v) (\<lambda>_. l1_is P)"
  "keeps (l1_is P) (lk_full32 d r w) (\<lambda>_. l1_is P)" "keeps (l1_is P) (lk_readConfig d q) (\<lambda>_. l1_is P)"
  unfolding lk_updateMdio_def lk_readMdio_def lk_writeMdio_def lk_update32_def lk_full32_def lk_readConfig_def lk_readDbi_def Let_def
  by (intro keep_rules; simp)+

lemma lk_writeConfig_keep [keep_rules]: "keeps (l1_is P) (lk_writeConfig d q b) (\<lambda>_. l1_is P)"
  unfolding lk_writeConfig_def lk_writeDbi_def Let_def by (intro keep_rules; simp)

text \<open>L1 is as it was found, or its restoration was tried and failed.\<close>

definition l1_told :: "bool \<Rightarrow> bool \<times> u8 \<times> bool \<times> bool \<Rightarrow> bool" where
  "l1_told ok t = (case t of (changed, saved, attempted, failed) \<Rightarrow> (changed \<longleftrightarrow> failed) \<and> (changed \<longrightarrow> attempted) \<and> (ok \<longrightarrow> \<not> failed))"

definition l1_clear :: "bool \<times> u8 \<times> bool \<times> bool \<Rightarrow> bool" where
  "l1_clear t = (case t of (changed, saved, attempted, failed) \<Rightarrow> \<not> changed \<and> \<not> failed)"

definition l1_open :: "bool \<times> u8 \<times> bool \<times> bool \<Rightarrow> bool" where
  "l1_open t = (case t of (changed, saved, attempted, failed) \<Rightarrow> \<not> failed)"

definition l1_trying :: "bool \<times> u8 \<times> bool \<times> bool \<Rightarrow> bool" where
  "l1_trying t = (case t of (changed, saved, attempted, failed) \<Rightarrow> changed \<and> attempted \<and> \<not> failed)"

lemmas l1_defs = l1_told_def l1_clear_def l1_open_def l1_trying_def lk_l1_def

lemma restoreL1_keeps: "keeps (l1_is l1_open) (lk_restoreL1 d) (\<lambda>_. l1_is (l1_told False))"
  unfolding lk_restoreL1_def lk_upd_def
  by (rule keeps_bind [OF keeps_obj(2) [where R = "\<lambda>c x. l1_is l1_open x \<and> c = lk_l1Changed x"]], simp, rule keeps_if,
      rule keeps_obj(3), simp add: l1_defs, rule keeps_bind [OF keeps_obj(1) [where Q = "\<lambda>_. l1_is l1_trying"]], simp add: l1_defs,
      rule keeps_bind [OF keeps_same(3)], rule keeps_bind [OF keeps_same(3)], rule keeps_bind [OF keeps_same_mod], simp add: l1_defs,
      rule keeps_bind [OF keeps_same(3)], rule keeps_bind [OF lk_writeConfig_keep]) (auto simp: keeps_def wp_simps l1_defs)

lemma autok_tail_keeps: "keeps (l1_is l1_open) (do {
       ok \<leftarrow> lk_updateMdio d 0x30 speed 0x2000 0;
       lk_restoreL1 d;
       ogets (\<lambda>x. ok \<and> lr_error (lk_result x) = LE_none \<and> \<not> lr_l1RestoreFailed (lk_result x)) }) (\<lambda>ok. l1_is (l1_told ok))"
  by (rule keeps_bind [OF lk_steps_keep(1)], rule keeps_bind [OF restoreL1_keeps], rule keeps_obj(2)) (auto simp: l1_defs)

lemma told_False:
  assumes "keeps (l1_is l1_clear) m (\<lambda>_. l1_is l1_clear)"
  shows "keeps (l1_is l1_clear) m (\<lambda>ok. l1_is (l1_told ok))"
  by (rule keeps_weaken [OF assms]) (auto simp: l1_defs)

lemma suspend_keeps: "keeps (l1_is l1_clear) (do {
       saved \<leftarrow> ogets lk_savedL1;
       suspended \<leftarrow> if saved AND 8 \<noteq> 0 then do {
           omod (lk_l1Changed_update (\<lambda>_. True));
           lk_writeConfig d 0x719 (saved AND NOT 8) }
         else ret True;
       if \<not> suspended then do { lk_restoreL1 d; ret False } else do {
       ok \<leftarrow> lk_updateMdio d 0x30 speed 0x2000 0;
       lk_restoreL1 d;
       ogets (\<lambda>x. ok \<and> lr_error (lk_result x) = LE_none \<and> \<not> lr_l1RestoreFailed (lk_result x)) } }) (\<lambda>ok. l1_is (l1_told ok))"
proof -
  have opened: "keeps (l1_is l1_clear) (if saved AND 8 \<noteq> 0 then do {
           omod (lk_l1Changed_update (\<lambda>_. True));
           lk_writeConfig d 0x719 (saved AND NOT 8) }
         else ret True) (\<lambda>_. l1_is l1_open)" for saved :: u8
    by (rule keeps_if, rule keeps_bind [OF keeps_obj(1) [where Q = "\<lambda>_. l1_is l1_open"]], simp add: l1_defs, rule lk_writeConfig_keep,
        rule keeps_obj(3)) (auto simp: l1_defs)
  have undone: "keeps (l1_is l1_open) (do { lk_restoreL1 d; ret False }) (\<lambda>ok. l1_is (l1_told ok))"
    by (rule keeps_bind [OF restoreL1_keeps], rule keeps_obj(3)) simp
  show ?thesis
    by (rule keeps_bind [OF keeps_same(3)], rule keeps_bind [OF opened], rule keeps_if, rule undone, rule autok_tail_keeps)
qed

lemma saveL1_keeps: "keeps (l1_is l1_clear) (lk_saveL1 d) (\<lambda>_. l1_is l1_clear)"
  unfolding lk_saveL1_def by (intro keep_rules) (simp add: l1_defs)

lemma told_and:
  assumes "keeps (l1_is l1_clear) m (\<lambda>ok. l1_is (l1_told ok))" and "keeps (l1_is l1_clear) n (\<lambda>ok. l1_is (l1_told ok))"
  shows "keeps (l1_is l1_clear) (andM m n) (\<lambda>ok. l1_is (l1_told ok))"
proof -
  have "keeps (l1_is l1_clear) m (\<lambda>a y. if a then l1_is l1_clear y else l1_is (l1_told False) y)"
    by (rule keeps_weaken [OF assms(1)]) (auto simp: l1_defs)
  then show ?thesis by (rule keeps_and) (use assms(2) in auto)
qed

lemma autok_keeps: "keeps (l1_is l1_clear) (lk_disableRefclkAutok d) (\<lambda>ok. l1_is (l1_told ok))"
proof -
  have save: "keeps (l1_is l1_clear) (lk_saveL1 d) (\<lambda>ok. l1_is (l1_told ok))" by (rule told_False [OF saveL1_keeps])
  have clear: "keeps (l1_is l1_clear) (ret False) (\<lambda>ok. l1_is (l1_told ok))" "keeps (l1_is l1_clear) (lk_fail e a v) (\<lambda>ok. l1_is (l1_told ok))" for e a v
    by (rule told_False, rule keep_rules)+
  show ?thesis unfolding lk_disableRefclkAutok_def okM_def
    by (rule keeps_bind [OF lk_steps_keep(4)], rule keeps_if, rule keeps_bind [OF lk_upd_keep], simp, rule keeps_if, rule clear,
        rule told_and [OF save suspend_keeps], rule clear)
qed

lemma preInit_keeps: "keeps (l1_is l1_clear) (lk_preInit d c) (\<lambda>ok. l1_is (l1_told ok))"
proof -
  have pre: "keeps (l1_is l1_clear) (lk_preSteps d) (\<lambda>ok. l1_is (l1_told ok))"
    unfolding lk_preSteps_def by (intro told_and autok_keeps) (rule told_False, intro keep_rules)+
  have body: "keeps (l1_is l1_clear) (if 6 \<le> c then lk_fail LE_invalid 0 0 else do {
       lk_upd (lr_cut_update (\<lambda>_. c));
       andM (lk_preSteps d) (okM (lk_r32 d 0x11d8) (\<lambda>v.
         let lbc = (v AND NOT 0xf0) OR 0x80 OR 3 in
         andM (lk_w32 d 0x11d8 lbc) (andM (lk_update32 d 0x11d8 0 lbc (NOT 2))
         (andM (lk_update32 d 0x11c0 0 3 0xffffffff) (andM (lk_update32 d 0x1000 0 0xc00000 0xffffffff)
         (do { lk_upd (lr_preConfigured_update (\<lambda>_. True)); ret True })))))) }) (\<lambda>ok. l1_is (l1_told ok))"
    unfolding Let_def
    by (rule keeps_if, rule told_False, rule keep_rules, rule keeps_bind [OF lk_upd_keep], simp, rule told_and [OF pre], rule told_False)
      (intro keep_rules; simp)
  show ?thesis unfolding lk_preInit_def
    by (rule keeps_bind [OF keeps_same(3)], rule keeps_if, rule told_False, rule keeps_same(1), rule keeps_same_guard, rule lk_keep(3),
        rule keeps_bind [OF body], rule keeps_bind [OF keeps_same_mod], simp add: lk_l1_def, rule keeps_obj(3), simp,
        rule told_False, rule keeps_same(1))
qed


definition PciLink0 :: PciLink where
  "PciLink0 = \<lparr>lk_busy = False, lk_cleanup = False, lk_clockStarted = False, lk_phaseStart = 0, lk_last = 0, lk_phaseOperations = 0,
     lk_l1Changed = False, lk_savedL1 = 0, lk_result = \<lparr>lr_error = LE_none, lr_address = 0, lr_value = 0, lr_operations = 0, lr_polls = 0,
       lr_dbiFallbacks = 0, lr_cut = 0, lr_linkSpeed = 0, lr_preConfigured = False, lr_postConfigured = False, lr_modified = False,
       lr_requiresRecovery = False, lr_l1RestoreAttempted = False, lr_l1Restored = False, lr_l1RestoreFailed = False\<rparr>\<rparr>"


end
