(* ===== verification/RadioTables.thy ===== *)
theory RadioTables
  imports DeviceIo
begin

text \<open>The conditional register tables of \<open>src/network/RadioTables.hpp\<close>: choosing a package, validating the branches, and
  running a table into a sink. A structured table with first-match branches is the reference.\<close>

record RadioRegister =
  rg_address :: u32
  rg_value :: u32

datatype RadioTableKind = RTK_baseband | RTK_radio | RTK_gain

record RadioTable =
  tb_registers :: "RadioRegister list option"
  tb_kind :: RadioTableKind
  tb_path :: u8

datatype RadioTableStatus = RTS_ok | RTS_invalid | RTS_unmatched | RTS_malformed | RTS_ioError | RTS_cancelled

record RadioTableResult =
  tr_status :: RadioTableStatus
  tr_row :: nat
  tr_selected :: nat
  tr_writes :: nat
  tr_delays :: nat
  tr_target :: u32

definition RadioTableResult0 :: RadioTableResult where
  "RadioTableResult0 = \<lparr>tr_status = RTS_invalid, tr_row = 0, tr_selected = 0, tr_writes = 0, tr_delays = 0, tr_target = 0\<rparr>"

text \<open>The operation of a row is in the top four bits of its address, its condition in the others.\<close>

definition row_op :: "RadioRegister \<Rightarrow> u32" where
  "row_op r = drop_bit 28 (rg_address r)"

definition row_cond :: "RadioRegister \<Rightarrow> u32" where
  "row_cond r = rg_address r AND 0x0fffffff"

section \<open>Choosing a package\<close>

text \<open>One phase of the fallback: the largest cut among the headlines for the board type, later ones winning ties.\<close>

fun best_cut :: "u32 \<Rightarrow> RadioRegister list \<Rightarrow> u32 \<Rightarrow> u32 option \<Rightarrow> u32 option" where
  "best_cut want [] maximum found = found"
| "best_cut want (r # rs) maximum found =
     (if drop_bit 16 (rg_address r) AND 255 \<noteq> want then best_cut want rs maximum found
      else let cv = rg_address r AND 255 in
        if maximum \<le> cv then best_cut want rs cv (Some (row_cond r)) else best_cut want rs maximum found)"

text \<open>The status, the number of headlines, and the target.\<close>

definition selectRadioTable :: "RadioTable \<Rightarrow> u8 \<Rightarrow> u8 \<Rightarrow> RadioTableStatus \<times> nat \<times> u32" where
  "selectRadioTable table rfe chipCut = (case tb_registers table of None \<Rightarrow> (RTS_invalid, 0, 0)
     | Some regs \<Rightarrow> if regs = [] \<or> 65536 < length regs \<or> 1 < tb_path table then (RTS_invalid, 0, 0)
       else let heads = takeWhile (\<lambda>r. row_op r = 15) regs; headlines = length heads;
           compare = push_bit 16 (ucast rfe) OR ucast chipCut; anyCut = push_bit 16 (ucast rfe) OR 255 in
         if headlines = 0 then (RTS_ok, 0, row_cond (regs ! 0))
         else if headlines = length regs then (RTS_malformed, headlines, 0)
         else if list_ex (\<lambda>r. row_cond r = compare) heads then (RTS_ok, headlines, compare)
         else if list_ex (\<lambda>r. row_cond r = anyCut) heads then (RTS_ok, headlines, anyCut)
         else (case best_cut (ucast rfe) heads 0 None of Some t \<Rightarrow> (RTS_ok, headlines, t)
           | None \<Rightarrow> (case best_cut 255 heads 0 None of Some t \<Rightarrow> (RTS_ok, headlines, t)
             | None \<Rightarrow> (RTS_unmatched, headlines, 0))))"

section \<open>Validating the branches\<close>

record branch_state =
  bs_branch :: bool
  bs_needsCheck :: bool
  bs_found :: bool
  bs_seenElse :: bool

definition branch_state0 :: branch_state where
  "branch_state0 = \<lparr>bs_branch = False, bs_needsCheck = False, bs_found = False, bs_seenElse = False\<rparr>"

text \<open>\<open>prev\<close> is the row before the current one.\<close>

fun validate_rows :: "u32 \<Rightarrow> RadioRegister \<Rightarrow> RadioRegister list \<Rightarrow> branch_state \<Rightarrow> RadioTableStatus" where
  "validate_rows selected prev [] b = (if bs_branch b then RTS_malformed else RTS_ok)"
| "validate_rows selected prev (r # rs) b = (
     if row_op r = 8 then
       (if bs_branch b then RTS_malformed
        else validate_rows selected r rs \<lparr>bs_branch = True, bs_needsCheck = True, bs_found = False, bs_seenElse = False\<rparr>)
     else if row_op r = 9 then
       (if \<not> bs_branch b \<or> bs_needsCheck b \<or> bs_seenElse b then RTS_malformed else validate_rows selected r rs (b\<lparr>bs_needsCheck := True\<rparr>))
     else if row_op r = 4 then
       (if \<not> bs_branch b \<or> \<not> bs_needsCheck b then RTS_malformed
        else validate_rows selected r rs (b\<lparr>bs_needsCheck := False, bs_found := bs_found b \<or> row_cond prev = selected\<rparr>))
     else if row_op r = 10 then
       (if \<not> bs_branch b \<or> bs_needsCheck b \<or> bs_seenElse b then RTS_malformed
        else if \<not> bs_found b then RTS_unmatched else validate_rows selected r rs (b\<lparr>bs_seenElse := True\<rparr>))
     else if row_op r = 11 then
       (if \<not> bs_branch b \<or> bs_needsCheck b then RTS_malformed else validate_rows selected r rs (b\<lparr>bs_branch := False\<rparr>))
     else if bs_needsCheck b \<or> row_op r = 15 then RTS_malformed
     else validate_rows selected r rs b)"

definition validateRadioBranches :: "RadioRegister list \<Rightarrow> nat \<Rightarrow> u32 \<Rightarrow> RadioTableStatus" where
  "validateRadioBranches regs begin selected = validate_rows selected (regs ! (begin - 1)) (drop begin regs) branch_state0"

section \<open>Running a table\<close>

text \<open>A sink and its state.\<close>

record 's Sink =
  sk_cancelled :: "'s \<Rightarrow> bool \<times> 's"
  sk_bbWrite :: "u32 \<Rightarrow> u32 \<Rightarrow> 's \<Rightarrow> bool \<times> 's"
  sk_rfWrite :: "u8 \<Rightarrow> u32 \<Rightarrow> u32 \<Rightarrow> 's \<Rightarrow> bool \<times> 's"
  sk_gainRecord :: "u32 \<Rightarrow> u32 \<Rightarrow> 's \<Rightarrow> bool \<times> 's"
  sk_delayUs :: "u32 \<Rightarrow> 's \<Rightarrow> bool \<times> 's"

definition row_delay :: "u32 \<Rightarrow> u32" where
  "row_delay a = (if a = 0xfe then 50000 else if a = 0xfd then 5000 else if a = 0xfc then 1000 else if a = 0xfb then 50
     else if a = 0xfa then 5 else if a = 0xf9 then 1 else 0)"

text \<open>One selected row: whether it succeeded, and the updated counters.\<close>

definition apply_row :: "'s Sink \<Rightarrow> RadioTableKind \<Rightarrow> u8 \<Rightarrow> RadioRegister \<Rightarrow> RadioTableResult \<Rightarrow> 's \<Rightarrow> bool \<times> RadioTableResult \<times> 's" where
  "apply_row sink kind path r result s = (let result = result\<lparr>tr_selected := tr_selected result + 1\<rparr> in
     case kind of
       RTK_baseband \<Rightarrow> let delay = row_delay (rg_address r) in
         if delay \<noteq> 0 then (case sk_delayUs sink delay s of (ok, s) \<Rightarrow>
           (ok, if ok then result\<lparr>tr_delays := tr_delays result + 1\<rparr> else result, s))
         else if rg_value r = 0xbabecafe then (True, result, s)
         else (case sk_bbWrite sink (rg_address r) (rg_value r) s of (ok, s) \<Rightarrow>
           (ok, if ok then result\<lparr>tr_writes := tr_writes result + 1\<rparr> else result, s))
     | RTK_radio \<Rightarrow> (case sk_rfWrite sink path (rg_address r) (rg_value r) s of (ok, s) \<Rightarrow>
           (ok, if ok then result\<lparr>tr_writes := tr_writes result + 1\<rparr> else result, s))
     | RTK_gain \<Rightarrow> (case sk_gainRecord sink (rg_address r) (rg_value r) s of (ok, s) \<Rightarrow>
           (ok, if ok then result\<lparr>tr_writes := tr_writes result + 1\<rparr> else result, s)))"

fun apply_rows :: "'s Sink \<Rightarrow> RadioTableKind \<Rightarrow> u8 \<Rightarrow> RadioRegister list \<Rightarrow> nat \<Rightarrow> bool \<Rightarrow> bool \<Rightarrow> u32 \<Rightarrow> RadioTableResult \<Rightarrow> 's \<Rightarrow>
    RadioTableResult \<times> 's" where
  "apply_rows sink kind path [] i matched found target result s = (result\<lparr>tr_status := RTS_ok\<rparr>, s)"
| "apply_rows sink kind path (r # rs) i matched found target result s = (
     let result = result\<lparr>tr_row := i\<rparr> in
     case sk_cancelled sink s of (stopped, s) \<Rightarrow>
     if stopped then (result\<lparr>tr_status := RTS_cancelled\<rparr>, s)
     else if row_op r = 8 \<or> row_op r = 9 then apply_rows sink kind path rs (i + 1) matched found (row_cond r) result s
     else if row_op r = 10 then apply_rows sink kind path rs (i + 1) False found target result s
     else if row_op r = 11 then apply_rows sink kind path rs (i + 1) True False target result s
     else if row_op r = 4 then
       (let matched = \<not> found \<and> target = tr_target result in apply_rows sink kind path rs (i + 1) matched (found \<or> matched) target result s)
     else if \<not> matched then apply_rows sink kind path rs (i + 1) matched found target result s
     else (case apply_row sink kind path r result s of (ok, result, s) \<Rightarrow>
       if ok then apply_rows sink kind path rs (i + 1) matched found target result s
       else (result\<lparr>tr_status := RTS_ioError\<rparr>, s)))"

definition applyRadioTable :: "RadioTable \<Rightarrow> u8 \<Rightarrow> u8 \<Rightarrow> 's Sink \<Rightarrow> 's \<Rightarrow> RadioTableResult \<times> 's" where
  "applyRadioTable table rfe chipCut sink s = (case selectRadioTable table rfe chipCut of (st, start, target) \<Rightarrow>
     let result = RadioTableResult0\<lparr>tr_status := st, tr_target := target\<rparr> in
     if st \<noteq> RTS_ok then (result, s)
     else let regs = the (tb_registers table); st = validateRadioBranches regs start target; result = result\<lparr>tr_status := st\<rparr> in
       if st \<noteq> RTS_ok then (result, s)
       else apply_rows sink (tb_kind table) (tb_path table) (drop start regs) start True False 0 result s)"

section \<open>The reference: structured tables\<close>

text \<open>A table is a list of plain rows and of groups; a group is a list of conditional branches and an optional last branch that is
  never needed.\<close>

datatype table_item = Plain RadioRegister | Group "(u32 \<times> RadioRegister list) list" "RadioRegister list option"

definition plain_row :: "RadioRegister \<Rightarrow> bool" where
  "plain_row r \<longleftrightarrow> row_op r \<notin> {4, 8, 9, 10, 11, 15}"

definition mark :: "u32 \<Rightarrow> u32 \<Rightarrow> RadioRegister" where
  "mark opcode c = \<lparr>rg_address = push_bit 28 opcode OR (c AND 0x0fffffff), rg_value = 0\<rparr>"

fun flat_branches :: "bool \<Rightarrow> (u32 \<times> RadioRegister list) list \<Rightarrow> RadioRegister list" where
  "flat_branches first [] = []"
| "flat_branches first ((c, rows) # bs) = [mark (if first then 8 else 9) c, mark 4 0] @ rows @ flat_branches False bs"

fun flat_item :: "table_item \<Rightarrow> RadioRegister list" where
  "flat_item (Plain r) = [r]"
| "flat_item (Group bs last_rows) = flat_branches True bs @
     (case last_rows of None \<Rightarrow> [] | Some rows \<Rightarrow> mark 10 0 # rows) @ [mark 11 0]"

text \<open>What a group means: the rows of its first branch with the wanted condition.\<close>

fun first_match :: "u32 \<Rightarrow> (u32 \<times> RadioRegister list) list \<Rightarrow> RadioRegister list" where
  "first_match t [] = []"
| "first_match t ((c, rows) # bs) = (if c = t then rows else first_match t bs)"

fun item_rows :: "u32 \<Rightarrow> table_item \<Rightarrow> RadioRegister list" where
  "item_rows t (Plain r) = [r]"
| "item_rows t (Group bs last_rows) = first_match t bs"

definition item_wf :: "table_item \<Rightarrow> bool" where
  "item_wf i = (case i of Plain r \<Rightarrow> plain_row r
     | Group bs last_rows \<Rightarrow> bs \<noteq> [] \<and> (\<forall>(c, rows) \<in> set bs. c < 0x10000000 \<and> list_all plain_row rows) \<and>
         (case last_rows of None \<Rightarrow> True | Some rows \<Rightarrow> list_all plain_row rows))"

text \<open>A last branch is only accepted when an earlier one is wanted.\<close>

fun item_served :: "u32 \<Rightarrow> table_item \<Rightarrow> bool" where
  "item_served t (Plain r) = True"
| "item_served t (Group bs last_rows) = (last_rows = None \<or> t \<in> fst ` set bs)"

text \<open>Running the rows that are wanted, one after the other.\<close>

fun run_wanted :: "'s Sink \<Rightarrow> RadioTableKind \<Rightarrow> u8 \<Rightarrow> RadioRegister list \<Rightarrow> 's \<Rightarrow> bool \<times> 's" where
  "run_wanted sink kind path [] s = (True, s)"
| "run_wanted sink kind path (r # rs) s = (case apply_row sink kind path r RadioTableResult0 s of (ok, _, s) \<Rightarrow>
     if ok then run_wanted sink kind path rs s else (False, s))"

section \<open>The interpreter is the reference\<close>

lemma low28: "c AND 0x0fffffff = take_bit 28 (c :: u32)"
  by (simp add: take_bit_eq_mask mask_eq_exp_minus_1)

lemma mark_op: "row_op (mark k c) = drop_bit 28 (push_bit 28 k)"
  by (simp add: row_op_def mark_def low28 drop_bit_or drop_bit_take_bit)

lemma mark_ops [simp]: "row_op (mark 4 c) = 4" "row_op (mark 8 c) = 8" "row_op (mark 9 c) = 9" "row_op (mark 10 c) = 10" "row_op (mark 11 c) = 11"
  by (simp_all add: mark_op)

lemma mark_cond: "c < 0x10000000 \<Longrightarrow> row_cond (mark k c) = c"
proof -
  assume "c < 0x10000000"
  then have "take_bit 28 c = c" by (simp add: word_unat_eq_iff unsigned_take_bit_eq take_bit_nat_eq_self word_less_nat_alt)
  then show ?thesis by (simp add: row_cond_def mark_def low28 take_bit_or take_bit_push_bit)
qed

definition row_effect :: "'s Sink \<Rightarrow> RadioTableKind \<Rightarrow> u8 \<Rightarrow> RadioRegister \<Rightarrow> 's \<Rightarrow> bool \<times> 's" where
  "row_effect sink kind path r s = (case apply_row sink kind path r RadioTableResult0 s of (ok, _, s) \<Rightarrow> (ok, s))"

lemma apply_row_effect:
  "apply_row sink kind path r result s = (ok, result', s') \<Longrightarrow> row_effect sink kind path r s = (ok, s') \<and> tr_target result' = tr_target result"
  unfolding row_effect_def apply_row_def Let_def
  by (auto split: RadioTableKind.splits prod.splits if_splits)

text \<open>The interpreter without its counters.\<close>

fun interp :: "'s Sink \<Rightarrow> RadioTableKind \<Rightarrow> u8 \<Rightarrow> u32 \<Rightarrow> RadioRegister list \<Rightarrow> bool \<Rightarrow> bool \<Rightarrow> u32 \<Rightarrow> 's \<Rightarrow> bool \<times> 's" where
  "interp sink kind path t [] matched found target s = (True, s)"
| "interp sink kind path t (r # rs) matched found target s = (
     if row_op r = 8 \<or> row_op r = 9 then interp sink kind path t rs matched found (row_cond r) s
     else if row_op r = 10 then interp sink kind path t rs False found target s
     else if row_op r = 11 then interp sink kind path t rs True False target s
     else if row_op r = 4 then (let matched = \<not> found \<and> target = t in interp sink kind path t rs matched (found \<or> matched) target s)
     else if \<not> matched then interp sink kind path t rs matched found target s
     else (case row_effect sink kind path r s of (ok, s) \<Rightarrow> if ok then interp sink kind path t rs matched found target s else (False, s)))"

definition steady_sink :: "'s Sink \<Rightarrow> bool" where
  "steady_sink sink \<longleftrightarrow> (\<forall>s. sk_cancelled sink s = (False, s))"

lemma apply_interp:
  assumes "steady_sink sink"
  shows "apply_rows sink kind path rs i matched found target result s = (R, s') \<Longrightarrow>
    interp sink kind path (tr_target result) rs matched found target s = (tr_status R = RTS_ok, s') \<and> tr_status R \<in> {RTS_ok, RTS_ioError}"
proof (induction rs arbitrary: i matched found target result s)
  case Nil
  then show ?case by auto
next
  case (Cons r rs)
  have c: "sk_cancelled sink s = (False, s)" using assms by (simp add: steady_sink_def)
  show ?case
  proof (cases "row_op r \<in> {4, 8, 9, 10, 11} \<or> \<not> matched")
    case True
    then show ?thesis using Cons.prems c by (auto simp: Let_def dest!: Cons.IH split: if_splits)
  next
    case False
    obtain ok res1 s1 where a: "apply_row sink kind path r (result\<lparr>tr_row := i\<rparr>) s = (ok, res1, s1)" by (metis prod_cases3)
    note e = apply_row_effect [OF a]
    show ?thesis
    proof (cases ok)
      case True
      then have "apply_rows sink kind path rs (i + 1) matched found target res1 s1 = (R, s')" using Cons.prems False c a by (simp add: Let_def)
      from Cons.IH [OF this] show ?thesis using e True False by simp
    next
      case nok: False
      then show ?thesis using Cons.prems False c a e by (auto simp: Let_def)
    qed
  qed
qed

lemma run_wanted_Cons: "run_wanted sink kind path (r # rs) s = (case row_effect sink kind path r s of (ok, s1) \<Rightarrow> if ok then run_wanted sink kind path rs s1 else (False, s1))"
  by (simp add: row_effect_def split: prod.split)

declare run_wanted.simps(2) [simp del] run_wanted_Cons [simp]

lemma run_wanted_append: "run_wanted sink kind path (xs @ ys) s =
    (case run_wanted sink kind path xs s of (ok, s1) \<Rightarrow> if ok then run_wanted sink kind path ys s1 else (False, s1))"
  by (induction xs arbitrary: s) (auto split: prod.split)

lemma interp_plain:
  assumes "list_all plain_row rows"
  shows "interp sink kind path t (rows @ rest) True found target s =
      (case run_wanted sink kind path rows s of (ok, s1) \<Rightarrow> if ok then interp sink kind path t rest True found target s1 else (False, s1))"
    and "interp sink kind path t (rows @ rest) False found target s = interp sink kind path t rest False found target s"
  using assms by (induction rows arbitrary: s) (auto simp: plain_row_def split: prod.split)

definition flat_last :: "RadioRegister list option \<Rightarrow> RadioRegister list" where
  "flat_last last_rows = (case last_rows of None \<Rightarrow> [] | Some rows \<Rightarrow> mark 10 0 # rows)"

lemma flat_group: "flat_item (Group bs last_rows) @ rest = flat_branches True bs @ flat_last last_rows @ mark 11 0 # rest"
  by (simp add: flat_last_def)

definition rows_wf :: "(u32 \<times> RadioRegister list) list \<Rightarrow> RadioRegister list option \<Rightarrow> bool" where
  "rows_wf bs last_rows \<longleftrightarrow> (\<forall>(c, rows) \<in> set bs. c < 0x10000000 \<and> list_all plain_row rows) \<and>
     (case last_rows of None \<Rightarrow> True | Some rows \<Rightarrow> list_all plain_row rows)"

text \<open>After a branch has matched, the rest of its group is skipped; until then, the first match is wanted.\<close>

lemma group_skipped:
  assumes "rows_wf bs last_rows" and "\<And>target s. interp sink kind path t rest True False target s = F s"
  shows "interp sink kind path t (flat_branches first bs @ flat_last last_rows @ mark 11 0 # rest) matched True target s = F s"
  using assms
proof (induction bs arbitrary: first matched target)
  case Nil
  then show ?case by (cases last_rows) (auto simp: flat_last_def rows_wf_def interp_plain)
next
  case (Cons b bs)
  obtain c rows where b: "b = (c, rows)" by fastforce
  have wf: "rows_wf bs last_rows" "list_all plain_row rows" using Cons.prems(1) by (auto simp: rows_wf_def b)
  show ?case using Cons.IH [OF wf(1) Cons.prems(2)] wf(2) by (simp add: b interp_plain Let_def)
qed

lemma group_first:
  assumes "rows_wf bs last_rows" and "\<And>target s. interp sink kind path t rest True False target s = F s"
    and "last_rows = None \<or> t \<in> fst ` set bs" and "bs \<noteq> [] \<or> matched"
  shows "interp sink kind path t (flat_branches first bs @ flat_last last_rows @ mark 11 0 # rest) matched False target s =
    (case run_wanted sink kind path (first_match t bs) s of (ok, s1) \<Rightarrow> if ok then F s1 else (False, s1))"
  using assms
proof (induction bs arbitrary: first matched target)
  case Nil
  then show ?case by (simp add: flat_last_def)
next
  case (Cons b bs)
  obtain c rows where b: "b = (c, rows)" by fastforce
  have wf: "rows_wf bs last_rows" "list_all plain_row rows" "c < 0x10000000" using Cons.prems(1) by (auto simp: rows_wf_def b)
  show ?case
  proof (cases "c = t")
    case True
    show ?thesis using True group_skipped [OF wf(1) Cons.prems(2)] wf(2)
      by (simp add: b interp_plain mark_cond [OF wf(3) [unfolded True]] Let_def split: prod.split)
  next
    case False
    then have l: "last_rows = None \<or> t \<in> fst ` set bs" using Cons.prems(3) by (auto simp: b)
    show ?thesis
    proof (cases "bs = []")
      case True
      then show ?thesis using False l wf(2) Cons.prems(2) by (simp add: b interp_plain mark_cond [OF wf(3)] Let_def flat_last_def split: prod.split)
    next
      case ne: False
      show ?thesis using False Cons.IH [OF wf(1) Cons.prems(2) l disjI1 [OF ne]] wf(2)
        by (simp add: b interp_plain mark_cond [OF wf(3)] Let_def split: prod.split)
    qed
  qed
qed

lemma interp_items:
  assumes "list_all item_wf items" and "list_all (item_served t) items"
  shows "interp sink kind path t (concat (map flat_item items)) True False target s = run_wanted sink kind path (concat (map (item_rows t) items)) s"
  using assms
proof (induction items arbitrary: target s)
  case Nil
  then show ?case by simp
next
  case (Cons i items)
  then have ih: "\<And>target s. interp sink kind path t (concat (map flat_item items)) True False target s =
      run_wanted sink kind path (concat (map (item_rows t) items)) s" by simp
  show ?case
  proof (cases i)
    case (Plain r)
    then have "plain_row r" using Cons.prems by (simp add: item_wf_def)
    then show ?thesis using ih Plain by (simp add: plain_row_def split: prod.split)
  next
    case (Group bs last_rows)
    have wf: "rows_wf bs last_rows" "bs \<noteq> []" "last_rows = None \<or> t \<in> fst ` set bs"
      using Cons.prems Group by (auto simp: rows_wf_def item_wf_def)
    show ?thesis
      using group_first [OF wf(1) ih wf(3) disjI1 [OF wf(2)]]
      by (simp only: Group list.map concat.simps flat_group item_rows.simps run_wanted_append)
  qed
qed

text \<open>The validator accepts flattened tables, from every state outside a group.\<close>

definition closed :: "branch_state \<Rightarrow> bool" where
  "closed b \<longleftrightarrow> \<not> bs_branch b \<and> \<not> bs_needsCheck b"

lemma validate_plain:
  assumes "list_all plain_row rows" and "\<not> bs_needsCheck b"
  shows "\<exists>q. validate_rows t prev (rows @ rest) b = validate_rows t q rest b"
  using assms
proof (induction rows arbitrary: prev)
  case Nil
  then show ?case by auto
next
  case (Cons r rows)
  then obtain q where "validate_rows t r (rows @ rest) b = validate_rows t q rest b" by auto
  then show ?case using Cons.prems by (intro exI [of _ q]) (simp add: plain_row_def)
qed

lemma validate_tail:
  assumes "\<And>prev b. closed b \<Longrightarrow> validate_rows t prev rest b = RTS_ok"
    and "case last_rows of None \<Rightarrow> True | Some rows \<Rightarrow> list_all plain_row rows" and "last_rows = None \<or> bs_found b"
    and "bs_branch b" "\<not> bs_needsCheck b" "\<not> bs_seenElse b"
  shows "validate_rows t prev (flat_last last_rows @ mark 11 0 # rest) b = RTS_ok"
proof (cases last_rows)
  case None
  then show ?thesis using assms by (simp add: flat_last_def closed_def)
next
  case (Some rows)
  let ?b = "b\<lparr>bs_seenElse := True\<rparr>"
  obtain q where "validate_rows t (mark 10 0) (rows @ mark 11 0 # rest) ?b = validate_rows t q (mark 11 0 # rest) ?b"
    using validate_plain [of rows ?b t "mark 10 0" "mark 11 0 # rest"] Some assms(2,5) by auto
  then show ?thesis using Some assms by (simp add: flat_last_def closed_def)
qed

lemma validate_branches:
  assumes "\<And>prev b. closed b \<Longrightarrow> validate_rows t prev rest b = RTS_ok" and "rows_wf bs last_rows"
    and "last_rows = None \<or> bs_found b \<or> t \<in> fst ` set bs" and "bs_branch b" "\<not> bs_needsCheck b" "\<not> bs_seenElse b"
  shows "validate_rows t prev (flat_branches False bs @ flat_last last_rows @ mark 11 0 # rest) b = RTS_ok"
  using assms(2-)
proof (induction bs arbitrary: prev b)
  case Nil
  then show ?case using validate_tail [OF assms(1), of last_rows b prev] by (auto simp: rows_wf_def)
next
  case (Cons p bs)
  obtain c rows where p: "p = (c, rows)" by fastforce
  have wf: "rows_wf bs last_rows" "list_all plain_row rows" "c < 0x10000000" using Cons.prems(1) by (auto simp: rows_wf_def p)
  let ?b = "b\<lparr>bs_needsCheck := False, bs_found := bs_found b \<or> c = t\<rparr>"
  let ?rest = "flat_branches False bs @ flat_last last_rows @ mark 11 0 # rest"
  have n: "\<not> bs_needsCheck ?b" by simp
  from validate_plain [OF wf(2) n] obtain q where q: "validate_rows t (mark 4 0) (rows @ ?rest) ?b = validate_rows t q ?rest ?b" by blast
  have "validate_rows t q ?rest ?b = RTS_ok"
    by (rule Cons.IH [OF wf(1)]) (use Cons.prems in \<open>auto simp: p\<close>)
  then show ?case using q Cons.prems by (simp add: p mark_cond [OF wf(3)])
qed

lemma validate_group:
  assumes "\<And>prev b. closed b \<Longrightarrow> validate_rows t prev rest b = RTS_ok" and "rows_wf bs last_rows" and "bs \<noteq> []"
    and "last_rows = None \<or> t \<in> fst ` set bs" and "closed b"
  shows "validate_rows t prev (flat_branches True bs @ flat_last last_rows @ mark 11 0 # rest) b = RTS_ok"
proof -
  obtain c rows cs where bs: "bs = (c, rows) # cs" using assms(3) by (metis list.exhaust surj_pair)
  have wf: "rows_wf cs last_rows" "list_all plain_row rows" "c < 0x10000000" using assms(2) by (auto simp: rows_wf_def bs)
  let ?b = "\<lparr>bs_branch = True, bs_needsCheck = False, bs_found = (c = t), bs_seenElse = False\<rparr>"
  let ?rest = "flat_branches False cs @ flat_last last_rows @ mark 11 0 # rest"
  have n: "\<not> bs_needsCheck ?b" by simp
  from validate_plain [OF wf(2) n] obtain q where q: "validate_rows t (mark 4 0) (rows @ ?rest) ?b = validate_rows t q ?rest ?b" by blast
  have "validate_rows t q ?rest ?b = RTS_ok"
    by (rule validate_branches [OF assms(1) wf(1)]) (use assms(4) in \<open>auto simp: bs\<close>)
  then show ?thesis using q assms(5) by (simp add: bs closed_def mark_cond [OF wf(3)])
qed

lemma validate_items:
  assumes "list_all item_wf items" and "list_all (item_served t) items"
  shows "closed b \<Longrightarrow> validate_rows t prev (concat (map flat_item items)) b = RTS_ok"
  using assms
proof (induction items arbitrary: prev b)
  case Nil
  then show ?case by (simp add: closed_def)
next
  case (Cons i items)
  then have ih: "\<And>prev b. closed b \<Longrightarrow> validate_rows t prev (concat (map flat_item items)) b = RTS_ok" by simp
  show ?case
  proof (cases i)
    case (Plain r)
    then show ?thesis using ih [OF Cons.prems(1)] Cons.prems by (simp add: item_wf_def plain_row_def closed_def)
  next
    case (Group bs last_rows)
    have wf: "rows_wf bs last_rows" "bs \<noteq> []" "last_rows = None \<or> t \<in> fst ` set bs"
      using Cons.prems Group by (auto simp: rows_wf_def item_wf_def)
    show ?thesis
      using validate_group [OF ih wf Cons.prems(1)] by (simp only: Group list.map concat.simps flat_group)
  qed
qed

section \<open>Related sinks\<close>

text \<open>Two sinks that give the same answers from related states, and stay related, see the same run of a table.\<close>

definition same_step :: "('s \<Rightarrow> 't \<Rightarrow> bool) \<Rightarrow> ('s \<Rightarrow> bool \<times> 's) \<Rightarrow> ('t \<Rightarrow> bool \<times> 't) \<Rightarrow> bool" where
  "same_step R f g \<longleftrightarrow> (\<forall>s t. R s t \<longrightarrow> fst (f s) = fst (g t) \<and> R (snd (f s)) (snd (g t)))"

definition sink_sim :: "RadioTableKind \<Rightarrow> ('s \<Rightarrow> 't \<Rightarrow> bool) \<Rightarrow> 's Sink \<Rightarrow> 't Sink \<Rightarrow> bool" where
  "sink_sim kind R x y \<longleftrightarrow> same_step R (sk_cancelled x) (sk_cancelled y) \<and> (case kind of
       RTK_baseband \<Rightarrow> (\<forall>a v. same_step R (sk_bbWrite x a v) (sk_bbWrite y a v)) \<and>
         (\<forall>a. row_delay a \<noteq> 0 \<longrightarrow> same_step R (sk_delayUs x (row_delay a)) (sk_delayUs y (row_delay a)))
     | RTK_radio \<Rightarrow> (\<forall>p a v. same_step R (sk_rfWrite x p a v) (sk_rfWrite y p a v))
     | RTK_gain \<Rightarrow> (\<forall>a v. same_step R (sk_gainRecord x a v) (sk_gainRecord y a v)))"

lemma same_stepE:
  assumes "same_step R f g" and "R s t"
  obtains b s' t' where "f s = (b, s')" and "g t = (b, t')" and "R s' t'"
proof (rule that)
  show "f s = (fst (f s), snd (f s))" "g t = (fst (f s), snd (g t))" "R (snd (f s)) (snd (g t))"
    using assms by (simp_all add: same_step_def prod_eq_iff)
qed

lemma row_sim:
  assumes "sink_sim kind R x y" and "R s t"
  obtains ok res s' t' where "apply_row x kind path r result s = (ok, res, s')" and "apply_row y kind path r result t = (ok, res, t')" and "R s' t'"
proof -
  let ?x = "apply_row x kind path r result s" and ?y = "apply_row y kind path r result t"
  note sim = assms(1) [unfolded sink_sim_def] and unfold = apply_row_def Let_def split_beta
  have "fst ?x = fst ?y \<and> fst (snd ?x) = fst (snd ?y) \<and> R (snd (snd ?x)) (snd (snd ?y))"
  proof (cases kind)
    case RTK_baseband
    then have "same_step R (sk_bbWrite x (rg_address r) (rg_value r)) (sk_bbWrite y (rg_address r) (rg_value r))"
      "row_delay (rg_address r) \<noteq> 0 \<Longrightarrow> same_step R (sk_delayUs x (row_delay (rg_address r))) (sk_delayUs y (row_delay (rg_address r)))"
      using sim by simp_all
    then show ?thesis using RTK_baseband assms(2) by (cases "row_delay (rg_address r) = 0") (simp_all add: unfold same_step_def)
  next
    case RTK_radio
    then have "same_step R (sk_rfWrite x path (rg_address r) (rg_value r)) (sk_rfWrite y path (rg_address r) (rg_value r))" using sim by simp
    then show ?thesis using RTK_radio assms(2) by (simp add: unfold same_step_def)
  next
    case RTK_gain
    then have "same_step R (sk_gainRecord x (rg_address r) (rg_value r)) (sk_gainRecord y (rg_address r) (rg_value r))" using sim by simp
    then show ?thesis using RTK_gain assms(2) by (simp add: unfold same_step_def)
  qed
  then show thesis using that [of "fst ?x" "fst (snd ?x)" "snd (snd ?x)" "snd (snd ?y)"] by (simp add: prod_eq_iff)
qed

lemma rows_sim:
  assumes "sink_sim kind R x y"
  shows "R s t \<Longrightarrow> fst (apply_rows x kind path rs i matched found target result s) = fst (apply_rows y kind path rs i matched found target result t) \<and>
    R (snd (apply_rows x kind path rs i matched found target result s)) (snd (apply_rows y kind path rs i matched found target result t))"
proof (induction rs arbitrary: i matched found target result s t)
  case Nil
  then show ?case by simp
next
  case (Cons r rs)
  obtain b s1 t1 where c: "sk_cancelled x s = (b, s1)" "sk_cancelled y t = (b, t1)" "R s1 t1"
    using assms [unfolded sink_sim_def] Cons.prems by (blast elim: same_stepE)
  obtain ok res s2 t2 where w: "apply_row x kind path r (result\<lparr>tr_row := i\<rparr>) s1 = (ok, res, s2)"
    "apply_row y kind path r (result\<lparr>tr_row := i\<rparr>) t1 = (ok, res, t2)" "R s2 t2"
    using row_sim [OF assms c(3)] .
  show ?case by (simp add: Let_def c w Cons.IH [OF c(3)] Cons.IH [OF w(3)])
qed

lemma apply_sim:
  assumes "sink_sim (tb_kind table) R x y" and "R s t"
  shows "fst (applyRadioTable table rfe chipCut x s) = fst (applyRadioTable table rfe chipCut y t) \<and>
    R (snd (applyRadioTable table rfe chipCut x s)) (snd (applyRadioTable table rfe chipCut y t))"
  using rows_sim [OF assms] assms(2) by (auto simp: applyRadioTable_def Let_def split: prod.split)

text \<open>A property every operation of a sink keeps.\<close>

definition sink_keeps :: "('s \<Rightarrow> bool) \<Rightarrow> 's Sink \<Rightarrow> bool" where
  "sink_keeps P x \<longleftrightarrow> (\<forall>kind. sink_sim kind (\<lambda>s t. s = t \<and> P s) x x)"

lemma sink_keepsI:
  assumes "\<And>s. P s \<Longrightarrow> P (snd (sk_cancelled x s))" "\<And>a v s. P s \<Longrightarrow> P (snd (sk_bbWrite x a v s))"
    "\<And>p a v s. P s \<Longrightarrow> P (snd (sk_rfWrite x p a v s))" "\<And>a v s. P s \<Longrightarrow> P (snd (sk_gainRecord x a v s))" "\<And>t s. P s \<Longrightarrow> P (snd (sk_delayUs x t s))"
  shows "sink_keeps P x"
  using assms by (simp add: sink_keeps_def sink_sim_def same_step_def split: RadioTableKind.split)

lemma apply_keeps: "sink_keeps P x \<Longrightarrow> P s \<Longrightarrow> P (snd (applyRadioTable table rfe chipCut x s))"
  using apply_sim [of table "\<lambda>s t. s = t \<and> P s" x x s s rfe chipCut] by (simp add: sink_keeps_def)

text \<open>C25: The flat interpreter means what the structured table says. For every table made of plain rows and of
  groups of conditional branches, the validator accepts its flattening, and running it (with a sink that is
  not cancelled) does to the sink exactly what the plain rows and the first wanted branch of each group do,
  in order and up to the first failure; the status says whether all of them succeeded.\<close>

theorem radio_table_meaning:
  assumes "list_all item_wf items" and "list_all (item_served t) items" and "steady_sink sink"
    and "apply_rows sink kind path (concat (map flat_item items)) i True False 0 result s = (R, s')" and "tr_target result = t"
  shows "validate_rows t prev (concat (map flat_item items)) branch_state0 = RTS_ok \<and>
    run_wanted sink kind path (concat (map (item_rows t) items)) s = (tr_status R = RTS_ok, s') \<and>
    (tr_status R = RTS_ok \<or> tr_status R = RTS_ioError)"
proof (intro conjI)
  show "validate_rows t prev (concat (map flat_item items)) branch_state0 = RTS_ok"
    by (rule validate_items [OF assms(1,2)]) (simp add: closed_def branch_state0_def)
  show "run_wanted sink kind path (concat (map (item_rows t) items)) s = (tr_status R = RTS_ok, s')"
    "tr_status R = RTS_ok \<or> tr_status R = RTS_ioError"
    using apply_interp [OF assms(3,4)] interp_items [OF assms(1,2), of sink kind path 0 s] assms(5) by auto
qed

definition count_sink :: "(u32 \<times> u32) list Sink" where
  "count_sink = \<lparr>sk_cancelled = \<lambda>s. (False, s), sk_bbWrite = \<lambda>a v s. (True, (a, v) # s), sk_rfWrite = \<lambda>p a v s. (False, s),
     sk_gainRecord = \<lambda>a v s. (False, s), sk_delayUs = \<lambda>t s. (True, s)\<rparr>"

definition sample_items :: "table_item list" where
  "sample_items = [Plain \<lparr>rg_address = 0x100, rg_value = 1\<rparr>,
     Group [(0x10001, [\<lparr>rg_address = 0x104, rg_value = 2\<rparr>]), (0x20000, [\<lparr>rg_address = 0x108, rg_value = 3\<rparr>])]
       (Some [\<lparr>rg_address = 0x10c, rg_value = 4\<rparr>])]"

theorem radio_table_meaning_witness:
  "\<exists>R s. apply_rows count_sink RTK_baseband 0 (concat (map flat_item sample_items)) 0 True False 0
       (RadioTableResult0\<lparr>tr_target := 0x20000\<rparr>) [] = (R, s) \<and>
     run_wanted count_sink RTK_baseband 0 (concat (map (item_rows 0x20000) sample_items)) [] = (tr_status R = RTS_ok, s)"
proof -
  obtain R s where r: "apply_rows count_sink RTK_baseband 0 (concat (map flat_item sample_items)) 0 True False 0
       (RadioTableResult0\<lparr>tr_target := 0x20000\<rparr>) [] = (R, s)" by fastforce
  have wf: "list_all item_wf sample_items" "list_all (item_served 0x20000) sample_items" by code_simp+
  have st: "steady_sink count_sink" by (simp add: steady_sink_def count_sink_def)
  show ?thesis using radio_table_meaning [OF wf st r] r by auto
qed

end
