(* ===== verification/BasebandGain.thy ===== *)
theory BasebandGain
  imports RadioTables Efuse
begin

text \<open>The receive gain arrays and the table records that fill them, \<open>src/network/BasebandGain.hpp\<close>. A store outside an array is undefined in
  the source and \<^term>\<open>None\<close> here; well-formed gain arrays have the declared extents and hold signed bytes.\<close>

type_synonym gain_array = "int list list list"

record BasebandGain =
  bg_lna_gain :: gain_array
  bg_tia_gain :: gain_array
  bg_lna_gain_bypass :: gain_array
  bg_lna_op1db :: gain_array
  bg_tia_lna_op1db :: gain_array
  bg_rpl_ofst_20 :: gain_array
  bg_rpl_ofst_40 :: gain_array
  bg_rpl_ofst_80 :: gain_array
  bg_rpl_ofst_160 :: gain_array

definition zeros :: "nat \<Rightarrow> gain_array" where
  "zeros n = replicate 8 (replicate 2 (replicate n 0))"

text \<open>The element of \<open>rpl_ofst_20\<close> is a row of length one.\<close>

definition BasebandGain0 :: BasebandGain where
  "BasebandGain0 = \<lparr>bg_lna_gain = zeros 7, bg_tia_gain = zeros 2, bg_lna_gain_bypass = zeros 7, bg_lna_op1db = zeros 7, bg_tia_lna_op1db = zeros 8,
     bg_rpl_ofst_20 = zeros 1, bg_rpl_ofst_40 = zeros 9, bg_rpl_ofst_80 = zeros 13, bg_rpl_ofst_160 = zeros 15\<rparr>"

text \<open>Which array a record goes to.\<close>

datatype gain_field = GF_lna | GF_tia | GF_bypass | GF_op1db | GF_tia_op1db | GF_rpl20 | GF_rpl40 | GF_rpl80 | GF_rpl160

fun gain_of :: "gain_field \<Rightarrow> BasebandGain \<Rightarrow> gain_array" where
  "gain_of GF_lna = bg_lna_gain"
| "gain_of GF_tia = bg_tia_gain"
| "gain_of GF_bypass = bg_lna_gain_bypass"
| "gain_of GF_op1db = bg_lna_op1db"
| "gain_of GF_tia_op1db = bg_tia_lna_op1db"
| "gain_of GF_rpl20 = bg_rpl_ofst_20"
| "gain_of GF_rpl40 = bg_rpl_ofst_40"
| "gain_of GF_rpl80 = bg_rpl_ofst_80"
| "gain_of GF_rpl160 = bg_rpl_ofst_160"

fun gain_put :: "gain_field \<Rightarrow> gain_array \<Rightarrow> BasebandGain \<Rightarrow> BasebandGain" where
  "gain_put GF_lna x g = g\<lparr>bg_lna_gain := x\<rparr>"
| "gain_put GF_tia x g = g\<lparr>bg_tia_gain := x\<rparr>"
| "gain_put GF_bypass x g = g\<lparr>bg_lna_gain_bypass := x\<rparr>"
| "gain_put GF_op1db x g = g\<lparr>bg_lna_op1db := x\<rparr>"
| "gain_put GF_tia_op1db x g = g\<lparr>bg_tia_lna_op1db := x\<rparr>"
| "gain_put GF_rpl20 x g = g\<lparr>bg_rpl_ofst_20 := x\<rparr>"
| "gain_put GF_rpl40 x g = g\<lparr>bg_rpl_ofst_40 := x\<rparr>"
| "gain_put GF_rpl80 x g = g\<lparr>bg_rpl_ofst_80 := x\<rparr>"
| "gain_put GF_rpl160 x g = g\<lparr>bg_rpl_ofst_160 := x\<rparr>"

text \<open>Where a record goes: refused, accepted and ignored, or the array with its start and count.\<close>

datatype gain_place = GP_refused | GP_ignored | GP_store gain_field nat nat

definition gain_place_of :: "u8 \<Rightarrow> u32 \<Rightarrow> gain_place" where
  "gain_place_of rfe address = (let type = address AND 255; path = drop_bit 8 address AND 255; band = drop_bit 16 address AND 255;
       config = drop_bit 24 address in
     if 2 \<le> path \<or> 8 \<le> band \<or> 0xf9 \<le> address \<and> address \<le> 0xfe then GP_refused
     else if config = 0 \<or> config = 2 \<or> config = 3 then
       (if type < 2 then GP_store (if config = 0 then GF_lna else if config = 2 then GF_bypass else GF_op1db)
            (if type \<noteq> 0 then 4 else 0) (if type \<noteq> 0 then 3 else 4)
        else if config = 0 \<and> type = 2 then GP_store GF_tia 0 2
        else if config = 3 \<and> (type = 2 \<or> type = 3) then GP_store GF_tia_op1db (if type = 3 then 4 else 0) 4
        else GP_refused)
     else if config = 1 then (let width = drop_bit 4 type; rxsc = type AND 15 in
       if width = 0 then GP_store GF_rpl20 0 1
       else if width \<le> 3 then
         (let arr = (if width = 1 then GF_rpl40 else if width = 2 then GF_rpl80 else GF_rpl160); start = unat rxsc in
          if rxsc = 0 then GP_store arr start 1
          else if rxsc = 1 then GP_store arr start (if width = 1 then 2 else 4)
          else if rxsc = 9 \<and> 2 \<le> width then GP_store arr start (if width = 2 then 2 else 4)
          else if width = 3 \<and> rxsc = 5 then GP_store arr start 4
          else if width = 3 \<and> rxsc = 13 then GP_store arr start 2
          else GP_refused)
       else GP_refused)
     else if config = 4 \<and> rfe < 50 then GP_ignored
     else GP_refused)"

text \<open>The store loop on the row of a band and a path.\<close>

fun store_row :: "int list \<Rightarrow> nat \<Rightarrow> nat \<Rightarrow> u32 \<Rightarrow> int list option" where
  "store_row row i 0 v = Some row"
| "store_row row i (Suc n) v = (if i < length row then store_row (row[i := signedByte (ucast v)]) (i + 1) n (drop_bit 8 v) else None)"

definition store_gain :: "gain_field \<Rightarrow> nat \<Rightarrow> nat \<Rightarrow> nat \<Rightarrow> nat \<Rightarrow> u32 \<Rightarrow> BasebandGain \<Rightarrow> BasebandGain option" where
  "store_gain f band path start count v g = (let arr = gain_of f g in
     if band < length arr \<and> path < length (arr ! band) then
       (case store_row (arr ! band ! path) start count v of None \<Rightarrow> None
        | Some row \<Rightarrow> Some (gain_put f (arr[band := (arr ! band)[path := row]]) g))
     else None)"

definition applyGainRecord :: "BasebandGain option \<Rightarrow> u8 \<Rightarrow> u32 \<Rightarrow> u32 \<Rightarrow> (bool \<times> BasebandGain option) option" where
  "applyGainRecord out rfe address v = (case gain_place_of rfe address of
       GP_refused \<Rightarrow> Some (False, out)
     | GP_ignored \<Rightarrow> Some (True, out)
     | GP_store f start count \<Rightarrow> (case out of None \<Rightarrow> Some (True, None)
         | Some g \<Rightarrow> map_option (\<lambda>g. (True, Some g))
             (store_gain f (unat (drop_bit 16 address AND 255)) (unat (drop_bit 8 address AND 255)) start count v g)))"

text \<open>The collecting sink; its state is the output pointer, or \<^term>\<open>None\<close> after undefined behaviour.\<close>

definition GainCollector :: "u8 \<Rightarrow> BasebandGain option option Sink" where
  "GainCollector rfe = \<lparr>sk_cancelled = \<lambda>s. (False, s), sk_bbWrite = \<lambda>a v s. (False, s), sk_rfWrite = \<lambda>p a v s. (False, s),
     sk_gainRecord = \<lambda>a v s. (case s of None \<Rightarrow> (False, None) | Some out \<Rightarrow>
       (case applyGainRecord out rfe a v of None \<Rightarrow> (False, None) | Some (ok, out) \<Rightarrow> (ok, Some out))),
     sk_delayUs = \<lambda>t s. (False, s)\<rparr>"

definition loadBasebandGain :: "RadioTable \<Rightarrow> u8 \<Rightarrow> u8 \<Rightarrow> BasebandGain \<Rightarrow> RadioTableResult \<times> BasebandGain option option" where
  "loadBasebandGain table rfe chipCut out = (if tb_kind table \<noteq> RTK_gain then (RadioTableResult0, Some (Some out))
     else let result = fst (applyRadioTable table rfe chipCut (GainCollector rfe) (Some None)) in
       if tr_status result \<noteq> RTS_ok then (result, Some (Some out))
       else applyRadioTable table rfe chipCut (GainCollector rfe) (Some (Some BasebandGain0)))"

section \<open>Shapes\<close>

fun gain_width :: "gain_field \<Rightarrow> nat" where
  "gain_width GF_lna = 7"
| "gain_width GF_tia = 2"
| "gain_width GF_bypass = 7"
| "gain_width GF_op1db = 7"
| "gain_width GF_tia_op1db = 8"
| "gain_width GF_rpl20 = 1"
| "gain_width GF_rpl40 = 9"
| "gain_width GF_rpl80 = 13"
| "gain_width GF_rpl160 = 15"

definition row_wf :: "nat \<Rightarrow> int list \<Rightarrow> bool" where
  "row_wf n row \<longleftrightarrow> length row = n \<and> list_all (\<lambda>x. - 128 \<le> x \<and> x \<le> 127) row"

definition gain_array_wf :: "nat \<Rightarrow> gain_array \<Rightarrow> bool" where
  "gain_array_wf n arr \<longleftrightarrow> length arr = 8 \<and> list_all (\<lambda>b. length b = 2 \<and> list_all (row_wf n) b) arr"

text \<open>Eight bands, two paths, the declared row lengths, signed bytes.\<close>

definition gain_wf :: "BasebandGain \<Rightarrow> bool" where
  "gain_wf g \<longleftrightarrow> (\<forall>f. gain_array_wf (gain_width f) (gain_of f g))"

lemma gain_wf_init: "gain_wf BasebandGain0"
proof -
  have "gain_array_wf n (zeros n)" for n by (simp add: gain_array_wf_def zeros_def row_wf_def list_all_iff)
  then have "gain_array_wf (gain_width f) (gain_of f BasebandGain0)" for f by (cases f) (simp_all add: BasebandGain0_def)
  then show ?thesis by (simp add: gain_wf_def)
qed

lemma gain_put_of: "gain_of f (gain_put f' x g) = (if f = f' then x else gain_of f g)"
  by (cases f; cases f') simp_all

lemma store_row_wf: "row_wf n row \<Longrightarrow> i + k \<le> n \<Longrightarrow> \<exists>row'. store_row row i k v = Some row' \<and> row_wf n row'"
proof (induction k arbitrary: row i v)
  case 0
  then show ?case by simp
next
  case (Suc k)
  let ?row = "row[i := signedByte (ucast v)]"
  have "row_wf n ?row"
    using Suc.prems(1) signedByte_bounds by (auto simp: row_wf_def list_all_iff dest: set_update_subset_insert [THEN subsetD])
  then show ?case using Suc.IH [of ?row "i + 1" "drop_bit 8 v"] Suc.prems by (simp add: row_wf_def)
qed

text \<open>Every place a record can go to lies inside its array.\<close>

lemma gain_place_bounds: "gain_place_of rfe address = GP_store f start count \<Longrightarrow> start + count \<le> gain_width f"
proof -
  assume "gain_place_of rfe address = GP_store f start count"
  moreover have "\<not> (2 :: u32) \<le> 1" by (simp add: word_le_nat_alt)
  ultimately show ?thesis unfolding gain_place_of_def Let_def by (auto split: if_splits)
qed

lemma gain_place_indices:
  "gain_place_of rfe address = GP_store f start count \<Longrightarrow> unat (drop_bit 8 address AND 255) < 2 \<and> unat (drop_bit 16 address AND 255) < 8"
  unfolding gain_place_of_def Let_def by (auto simp: not_le word_less_nat_alt split: if_splits)

lemma store_gain_wf:
  assumes "gain_wf g" and "band < 8" and "path < 2" and "start + count \<le> gain_width f"
  shows "\<exists>g'. store_gain f band path start count v g = Some g' \<and> gain_wf g'"
proof -
  let ?arr = "gain_of f g"
  have arr: "gain_array_wf (gain_width f) ?arr" using assms(1) by (simp add: gain_wf_def)
  then have b: "band < length ?arr" "path < length (?arr ! band)" "row_wf (gain_width f) (?arr ! band ! path)"
    using assms(2,3) by (auto simp: gain_array_wf_def list_all_length)
  obtain row where row: "store_row (?arr ! band ! path) start count v = Some row" "row_wf (gain_width f) row"
    using store_row_wf [OF b(3) assms(4)] by blast
  have "gain_array_wf (gain_width f) (?arr[band := (?arr ! band)[path := row]])"
    using arr row(2) b by (auto simp: gain_array_wf_def list_all_length nth_list_update)
  then have "gain_wf (gain_put f (?arr[band := (?arr ! band)[path := row]]) g)"
    using assms(1) by (simp add: gain_wf_def gain_put_of)
  then show ?thesis using row(1) b by (simp add: store_gain_def Let_def)
qed

lemma apply_gain_wf:
  assumes "case out of None \<Rightarrow> True | Some g \<Rightarrow> gain_wf g"
  shows "\<exists>out'. applyGainRecord out rfe a v = Some (gain_place_of rfe a \<noteq> GP_refused, out') \<and>
    (case out of None \<Rightarrow> out' = None | Some _ \<Rightarrow> \<exists>g. out' = Some g \<and> gain_wf g)"
proof (cases "gain_place_of rfe a")
  case (GP_store f start count)
  note p = gain_place_bounds [OF GP_store] gain_place_indices [OF GP_store]
  show ?thesis
  proof (cases out)
    case (Some g)
    then have "gain_wf g" using assms by simp
    from store_gain_wf [OF this conjunct2 [OF p(2)] conjunct1 [OF p(2)] p(1)] obtain g' where
      "store_gain f (unat (drop_bit 16 a AND 255)) (unat (drop_bit 8 a AND 255)) start count v g = Some g'" "gain_wf g'" by blast
    then show ?thesis using Some GP_store by (simp add: applyGainRecord_def)
  qed (simp add: applyGainRecord_def GP_store)
qed (use assms in \<open>auto simp: applyGainRecord_def split: option.splits\<close>)

text \<open>The pass that stores answers like the pass that only checks, and stays in range.\<close>

lemma gain_passes:
  assumes "tb_kind table = RTK_gain"
  shows "fst (applyRadioTable table rfe chipCut (GainCollector rfe) (Some (Some BasebandGain0))) =
     fst (applyRadioTable table rfe chipCut (GainCollector rfe) (Some None))"
    and "\<exists>g. snd (applyRadioTable table rfe chipCut (GainCollector rfe) (Some (Some BasebandGain0))) = Some (Some g) \<and> gain_wf g"
proof -
  define R :: "BasebandGain option option \<Rightarrow> BasebandGain option option \<Rightarrow> bool" where
    "R s t \<longleftrightarrow> s = Some None \<and> (\<exists>g. t = Some (Some g) \<and> gain_wf g)" for s t
  have rec: "same_step R (sk_gainRecord (GainCollector rfe) a v) (sk_gainRecord (GainCollector rfe) a v)" for a v
    using apply_gain_wf [of None rfe a v] apply_gain_wf [of "Some _" rfe a v] by (fastforce simp: same_step_def R_def GainCollector_def)
  have sim: "sink_sim RTK_gain R (GainCollector rfe) (GainCollector rfe)"
    unfolding sink_sim_def using rec by (simp add: same_step_def GainCollector_def)
  have "R (Some None) (Some (Some BasebandGain0))" by (simp add: R_def gain_wf_init)
  from apply_sim [OF sim [folded assms] this, of rfe chipCut]
  show "fst (applyRadioTable table rfe chipCut (GainCollector rfe) (Some (Some BasebandGain0))) =
      fst (applyRadioTable table rfe chipCut (GainCollector rfe) (Some None))"
    "\<exists>g. snd (applyRadioTable table rfe chipCut (GainCollector rfe) (Some (Some BasebandGain0))) = Some (Some g) \<and> gain_wf g"
    by (simp_all add: R_def)
qed

text \<open>C27: Loading a gain table never stores outside an array. It either leaves the caller's arrays as they were and
  reports the failure, or reports success and leaves arrays of the declared extents holding signed bytes; checking the table first and
  then storing it never disagree.\<close>

theorem gain_load_wf:
  assumes "loadBasebandGain table rfe chipCut out = (result, mem)" and "gain_wf out"
  shows "\<exists>g. mem = Some (Some g) \<and> gain_wf g \<and> (tr_status result \<noteq> RTS_ok \<longrightarrow> g = out)"
  using assms gain_passes [of table rfe chipCut] by (auto simp: loadBasebandGain_def Let_def split: if_splits)

definition sample_gain_table :: RadioTable where
  "sample_gain_table = \<lparr>tb_registers = Some [\<lparr>rg_address = 0x00010101, rg_value = 0x00ff8001\<rparr>, \<lparr>rg_address = 0x01000020, rg_value = 0x7f\<rparr>],
     tb_kind = RTK_gain, tb_path = 0\<rparr>"

lemma sample_gain_checked: "tr_status (fst (applyRadioTable sample_gain_table 1 0 (GainCollector 1) (Some None))) = RTS_ok"
  by (simp add: sample_gain_table_def applyRadioTable_def selectRadioTable_def validateRadioBranches_def row_op_def row_cond_def apply_row_def
    GainCollector_def applyGainRecord_def gain_place_of_def Let_def branch_state0_def RadioTableResult0_def
    word_le_nat_alt)

theorem gain_load_wf_witness:
  "\<exists>result g. loadBasebandGain sample_gain_table 1 0 BasebandGain0 = (result, Some (Some g)) \<and> gain_wf g \<and> tr_status result = RTS_ok"
proof -
  obtain result mem where r: "loadBasebandGain sample_gain_table 1 0 BasebandGain0 = (result, mem)" by fastforce
  from gain_load_wf [OF r gain_wf_init] obtain g where g: "mem = Some (Some g)" "gain_wf g" by blast
  have "result = fst (loadBasebandGain sample_gain_table 1 0 BasebandGain0)" using r by simp
  also have "\<dots> = fst (applyRadioTable sample_gain_table 1 0 (GainCollector 1) (Some None))"
    using sample_gain_checked gain_passes(1) [of sample_gain_table 1 0] by (simp add: loadBasebandGain_def Let_def sample_gain_table_def)
  finally show ?thesis using r g sample_gain_checked by simp
qed

end
