(* ===== verification/RadioAccess.thy ===== *)
theory RadioAccess
  imports DeviceIo PowerConstants
begin

text \<open>Access to the baseband and to the radio's own registers, \<open>src/network/RadioAccess.hpp\<close>: checked register accesses with a trace and a
  status, field updates, the bounded wait for the serial interface, and the two ways to reach a radio register.\<close>

datatype RadioIoStatus = RIO_ok | RIO_invalid | RIO_ioError | RIO_timeout | RIO_cancelled

record RadioAccessTrace =
  rt_readAddress :: u32
  rt_readValue :: u32
  rt_writeAddress :: u32
  rt_writeValue :: u32
  rt_rfWriteCommand :: u32

record RadioAccess =
  ra_trace :: RadioAccessTrace
  ra_status :: RadioIoStatus

definition RadioAccess0 :: RadioAccess where
  "RadioAccess0 = \<lparr>ra_trace = \<lparr>rt_readAddress = 0, rt_readValue = 0, rt_writeAddress = 0, rt_writeValue = 0, rt_rfWriteCommand = 0\<rparr>,
     ra_status = RIO_ok\<rparr>"

type_synonym ('s, 'a) rad = "(RadioAccess, 's, 'a) prog"

definition ra_set :: "RadioIoStatus \<Rightarrow> ('s, unit) rad" where
  "ra_set st = omod (ra_status_update (\<lambda>_. st))"

definition ra_traced :: "(RadioAccessTrace \<Rightarrow> RadioAccessTrace) \<Rightarrow> ('s, unit) rad" where
  "ra_traced f = omod (ra_trace_update f)"

definition ra_ready :: "'s Io \<Rightarrow> ('s, bool) rad" where
  "ra_ready d = do {
     c \<leftarrow> dcall (io_cancelled d);
     if c then do { ra_set RIO_cancelled; ret False } else ret True }"

definition ra_read :: "'s Io \<Rightarrow> u32 \<Rightarrow> ('s, bool \<times> u32) rad" where
  "ra_read d relative = do {
     r \<leftarrow> ra_ready d;
     if \<not> r then ret (False, 0) else do {
     ra_traced (\<lambda>t. t\<lparr>rt_readAddress := 0x10000 + relative, rt_readValue := 0\<rparr>);
     (ok, v) \<leftarrow> dcall (io_read32 d (0x10000 + relative));
     if \<not> ok then do { ra_set RIO_ioError; ret (False, v) } else do {
     ra_traced (rt_readValue_update (\<lambda>_. v));
     ret (True, v) } } }"

definition ra_write :: "'s Io \<Rightarrow> u32 \<Rightarrow> u32 \<Rightarrow> ('s, bool) rad" where
  "ra_write d relative v = do {
     r \<leftarrow> ra_ready d;
     if \<not> r then ret False else do {
     ra_traced (\<lambda>t. t\<lparr>rt_writeAddress := 0x10000 + relative, rt_writeValue := v\<rparr>);
     (if relative = 0x370 then ra_traced (rt_rfWriteCommand_update (\<lambda>_. v)) else ret ());
     ok \<leftarrow> dcall (io_write32 d (0x10000 + relative) v);
     if \<not> ok then do { ra_set RIO_ioError; ret False } else ret True } }"

definition ra_delay :: "'s Io \<Rightarrow> u32 \<Rightarrow> ('s, bool) rad" where
  "ra_delay d us = do {
     r \<leftarrow> ra_ready d;
     if \<not> r then ret False else do {
     ok \<leftarrow> dcall (io_delayUs d us);
     if \<not> ok then do { ra_set RIO_ioError; ret False } else ret True } }"

text \<open>The field of \<open>v\<close> under a mask replaced by \<open>x\<close>, and read. The masks of all callers are non-zero.\<close>

definition put_field :: "u32 \<Rightarrow> u32 \<Rightarrow> u32 \<Rightarrow> u32" where
  "put_field m x v = (v AND NOT m) OR (push_bit (reg_shift m) x AND m)"

definition get_field :: "u32 \<Rightarrow> u32 \<Rightarrow> u32" where
  "get_field m v = drop_bit (reg_shift m) (v AND m)"

definition ra_update :: "'s Io \<Rightarrow> u32 \<Rightarrow> u32 \<Rightarrow> u32 \<Rightarrow> ('s, bool) rad" where
  "ra_update d address m x = (if m = 0xffffffff then ra_write d address (put_field m x 0)
     else okM (ra_read d address) (\<lambda>v. ra_write d address (put_field m x v)))"

text \<open>\<open>k\<close> is the number of iterations left after the current one.\<close>

fun ra_poll_loop :: "'s Io \<Rightarrow> u32 \<Rightarrow> bool \<Rightarrow> nat \<Rightarrow> ('s, bool) rad" where
  "ra_poll_loop d m up k = okM (ra_read d 0x174c) (\<lambda>v.
     if v = 0xffffffff then do { ra_set RIO_ioError; ret False }
     else if (if up then v AND m = m else v AND m = 0) then ret True
     else if k = 0 then do { ra_set RIO_timeout; ret False }
     else andM (ra_delay d 1) (ra_poll_loop d m up (k - 1)))"

declare ra_poll_loop.simps [simp del]

definition ra_poll :: "'s Io \<Rightarrow> u32 \<Rightarrow> bool \<Rightarrow> ('s, bool) rad" where
  "ra_poll d m up = ra_poll_loop d m up 30"

definition rf_valid :: "u8 \<Rightarrow> u32 \<Rightarrow> u32 \<Rightarrow> bool" where
  "rf_valid path address m \<longleftrightarrow> \<not> (1 < path \<or> address AND NOT 0x100ff \<noteq> 0 \<or> m = 0 \<or> m AND NOT 0xfffff \<noteq> 0)"

definition ra_validate :: "'s Io \<Rightarrow> u8 \<Rightarrow> u32 \<Rightarrow> u32 \<Rightarrow> ('s, bool) rad" where
  "ra_validate d path address m = do {
     ra_set RIO_ok;
     if \<not> rf_valid path address m then do { ra_set RIO_invalid; ret False } else ra_ready d }"

text \<open>The register of the direct window behind a radio address.\<close>

definition rf_window :: "u8 \<Rightarrow> u32 \<Rightarrow> u32" where
  "rf_window path address = (if path \<noteq> 0 then 0xf000 else 0xe000) + push_bit 2 (address AND 255)"

definition readRf :: "'s Io \<Rightarrow> u8 \<Rightarrow> u32 \<Rightarrow> u32 \<Rightarrow> ('s, bool \<times> u32) rad" where
  "readRf d path address m = do {
     c \<leftarrow> ra_validate d path address m;
     if \<not> c then ret (False, 0)
     else if address AND 0x10000 \<noteq> 0 then do {
       (ok, raw) \<leftarrow> ra_read d (rf_window path address);
       if \<not> ok then ret (False, 0) else ret (True, get_field m raw) }
     else do {
       asked \<leftarrow> andM (ra_poll d 0x03000000 False) (andM (ra_update d 0x378 0x7ff (push_bit 8 (ucast path) OR address))
         (andM (ra_delay d 2) (ra_poll d 0x04000000 True)));
       if \<not> asked then ret (False, 0) else do {
       (ok, raw) \<leftarrow> ra_read d 0x174c;
       if \<not> ok then ret (False, 0)
       else if raw = 0xffffffff then do { ra_set RIO_ioError; ret (False, 0) }
       else ret (True, get_field m raw) } } }"

text \<open>The command word of the serial interface.\<close>

definition swsi_command :: "u8 \<Rightarrow> u32 \<Rightarrow> u32 \<Rightarrow> u32 \<Rightarrow> u32" where
  "swsi_command path address m x = (let x = x AND 0xfffff in
     (if m \<noteq> 0xfffff then 0x80000000 else 0) OR push_bit 28 (ucast path) OR push_bit 20 address OR
       (if m \<noteq> 0xfffff then push_bit (reg_shift m) x AND 0xfffff else x))"

definition writeRf :: "'s Io \<Rightarrow> u8 \<Rightarrow> u32 \<Rightarrow> u32 \<Rightarrow> u32 \<Rightarrow> ('s, bool) rad" where
  "writeRf d path address m x = andM (ra_validate d path address m)
     (if address AND 0x10000 \<noteq> 0 then andM (ra_update d (rf_window path address) m x) (ra_delay d 1)
      else andM (ra_poll d 0x03000000 False)
        (andM (if m \<noteq> 0xfffff then ra_update d 0x374 0xfffff m else ret True)
          (ra_write d 0x370 (swsi_command path address m x))))"

definition drainRf :: "'s Io \<Rightarrow> ('s, bool) rad" where
  "drainRf d = do { ra_set RIO_ok; ra_poll d 0x03000000 False }"

definition bb_invalid :: "u32 \<Rightarrow> bool" where
  "bb_invalid relative \<longleftrightarrow> relative AND 3 \<noteq> 0 \<or> 0x10000 \<le> relative"

definition writeBaseband :: "'s Io \<Rightarrow> u32 \<Rightarrow> u32 \<Rightarrow> ('s, bool) rad" where
  "writeBaseband d relative v = do {
     ra_set RIO_ok;
     if bb_invalid relative then do { ra_set RIO_invalid; ret False } else ra_write d relative v }"

definition readBaseband :: "'s Io \<Rightarrow> u32 \<Rightarrow> ('s, bool \<times> u32) rad" where
  "readBaseband d relative = do {
     ra_set RIO_ok;
     if bb_invalid relative then do { ra_set RIO_invalid; ret (False, 0) } else ra_read d relative }"

definition updateBaseband :: "'s Io \<Rightarrow> u32 \<Rightarrow> u32 \<Rightarrow> u32 \<Rightarrow> ('s, bool) rad" where
  "updateBaseband d relative m v = do {
     ra_set RIO_ok;
     if bb_invalid relative \<or> m = 0 then do { ra_set RIO_invalid; ret False } else ra_update d relative m v }"

definition delayMicroseconds :: "'s Io \<Rightarrow> u32 \<Rightarrow> ('s, bool) rad" where
  "delayMicroseconds d us = do { ra_set RIO_ok; ra_delay d us }"

section \<open>What reaches the device\<close>

text \<open>Aligned words of the baseband's 64 KiB.\<close>

definition bb_register :: "u32 \<Rightarrow> bool" where
  "bb_register a \<longleftrightarrow> (\<exists>r. \<not> bb_invalid r \<and> a = 0x10000 + r)"

definition radio_events :: "io_event set" where
  "radio_events = {e. (\<exists>t. e = Io_delay t) \<or> (\<exists>a v. e = Io_write32 a v \<and> bb_register a)}"

lemma bb_window: "bb_register a \<Longrightarrow> 0x10000 \<le> a \<and> a < 0x20000"
  unfolding bb_register_def bb_invalid_def not_le [symmetric] by (auto simp: word_le_nat_alt word_less_nat_alt unat_word_ariths)

lemma ra_frames [frame_rules]:
  "frames W (ra_set st)" "frames W (ra_traced f)" "frames W (ra_ready (io_logged d))" "frames W (ra_read (io_logged d) r)"
  unfolding ra_set_def ra_traced_def ra_ready_def ra_read_def io_logged_simps by (intro frame_rules)+

lemma ra_write_frames [frame_rules]: "\<not> bb_invalid r \<Longrightarrow> frames radio_events (ra_write (io_logged d) r v)"
  "frames radio_events (ra_delay (io_logged d) t)"
  unfolding ra_write_def ra_delay_def io_logged_simps by (intro frame_rules; force simp: radio_events_def bb_register_def)+

lemma ra_update_frames [frame_rules]: "\<not> bb_invalid r \<Longrightarrow> frames radio_events (ra_update (io_logged d) r m x)"
  unfolding ra_update_def by (intro frame_rules)

lemma ra_poll_loop_frames: "frames radio_events (ra_poll_loop (io_logged d) m up k)"
proof (induction k)
  case 0
  show ?case by (subst ra_poll_loop.simps) (simp only: simp_thms if_True, intro frame_rules)
next
  case (Suc k)
  show ?case by (subst ra_poll_loop.simps) (simp only: nat.distinct diff_Suc_1 simp_thms, intro frame_rules Suc)
qed

lemma ra_poll_frames [frame_rules]: "frames radio_events (ra_poll (io_logged d) m up)" "frames W (ra_validate (io_logged d) p a m)"
  unfolding ra_poll_def ra_validate_def by (rule ra_poll_loop_frames, intro frame_rules)

lemma rf_window_ok [frame_rules]: "\<not> bb_invalid (rf_window p a)" "\<not> bb_invalid 0x370" "\<not> bb_invalid 0x374" "\<not> bb_invalid 0x378"
proof -
  have low: "a AND 255 = take_bit 8 a" using take_bit_eq_mask [of 8 a] by (simp add: mask_eq_exp_minus_1)
  then have n: "unat (a AND 255) < 256" by (simp add: unsigned_take_bit_eq take_bit_nat_eq_self_iff take_bit_nat_less_exp [of 8, simplified])
  have two: "w AND 3 = w mod 4" for w :: u32 using take_bit_eq_mask [of 2 w] by (simp add: mask_eq_exp_minus_1 take_bit_eq_mod)
  show "\<not> bb_invalid (rf_window p a)"
    using n unfolding bb_invalid_def two rf_window_def
    by (simp add: word_le_nat_alt unat_word_ariths push_bit_eq_mult word_arith_nat_mod)
  show "\<not> bb_invalid 0x370" "\<not> bb_invalid 0x374" "\<not> bb_invalid 0x378" by (simp_all add: bb_invalid_def)
qed

lemma radio_access_frames [frame_rules]:
  "frames radio_events (readRf (io_logged d) p a m)" "frames radio_events (writeRf (io_logged d) p a m x)"
  "frames radio_events (drainRf (io_logged d))" "frames radio_events (writeBaseband (io_logged d) r v)"
  "frames radio_events (readBaseband (io_logged d) r)" "frames radio_events (updateBaseband (io_logged d) r m v)"
  "frames radio_events (delayMicroseconds (io_logged d) t)"
  unfolding readRf_def writeRf_def drainRf_def writeBaseband_def readBaseband_def updateBaseband_def delayMicroseconds_def
  by (intro frame_rules; simp)+

section \<open>Fields\<close>

lemma reg_shift_mask: "m \<noteq> 0 \<Longrightarrow> bit m (reg_shift m) \<and> (\<forall>i < reg_shift m. \<not> bit m i)"
proof (induction m rule: reg_shift.induct)
  case (1 m)
  show ?case
  proof (cases "bit m 0")
    case True
    then show ?thesis by (simp add: reg_shift.simps [of m])
  next
    case False
    have nz: "drop_bit 1 m \<noteq> 0"
    proof
      assume z: "drop_bit 1 m = 0"
      have "m = 0"
      proof (rule bit_word_eqI)
        fix n assume "n < LENGTH(32)"
        have "bit (drop_bit 1 m) (n - 1) = False" using z by simp
        then show "bit m n = bit 0 n" using False by (cases n) (simp_all add: bit_simps)
      qed
      then show False using 1(2) by simp
    qed
    have s: "reg_shift m = Suc (reg_shift (drop_bit 1 m))" using False 1(2) by (subst reg_shift.simps) simp
    have ih: "bit (drop_bit 1 m) (reg_shift (drop_bit 1 m))" "\<And>i. i < reg_shift (drop_bit 1 m) \<Longrightarrow> \<not> bit (drop_bit 1 m) i"
      using 1(1) False 1(2) nz by auto
    have "\<not> bit m i" if "i < reg_shift m" for i
      using that ih(2) [of "i - 1"] False s by (cases i) (auto simp: bit_simps)
    then show ?thesis using ih(1) s by (simp add: bit_simps)
  qed
qed

text \<open>Writing a field and reading it back gives what fits in the field; the rest of the register stays.\<close>

lemma field_roundtrip: "get_field m (put_field m x v) = get_field m (push_bit (reg_shift m) x)"
  "put_field m x v AND NOT m = v AND NOT m"
  unfolding get_field_def put_field_def by (rule bit_word_eqI, auto simp: bit_simps)+

text \<open>What the serial interface does with a command: the path and address it selects, and the new value of the register there, given the
  mask register.\<close>

definition swsi_target :: "u32 \<Rightarrow> u8 \<times> u32" where
  "swsi_target command = (ucast (drop_bit 28 command AND 1), drop_bit 20 command AND 0xff)"

definition swsi_apply :: "u32 \<Rightarrow> u32 \<Rightarrow> u32 \<Rightarrow> u32" where
  "swsi_apply command maskRegister old = (if bit command 31 then (old AND NOT maskRegister) OR (command AND 0xfffff AND maskRegister)
     else command AND 0xfffff)"

lemma low_numerals: "(0xfffff :: u32) = mask 20" "(0xff :: u32) = mask 8"
  by (simp_all add: mask_eq_exp_minus_1)

lemma low_bit: "bit (0xfffff :: u32) n \<longleftrightarrow> n < 20"
  unfolding low_numerals by (auto simp: bit_mask_iff)

lemma bit_and_low: "bit (v AND 0xfffff) i \<longleftrightarrow> bit v i \<and> i < 20" "bit (v AND 0xff) i \<longleftrightarrow> bit v i \<and> i < 8" for v :: u32
  using bit_imp_le_length [of v i] by (auto simp: low_numerals bit_simps)

lemma flag_bit: "bit (0x80000000 :: u32) n \<longleftrightarrow> n = 31" "bit (0x10000 :: u32) n \<longleftrightarrow> n = 16"
  using bit_exp_iff [where 'a = "32 word", of 31 n] bit_exp_iff [where 'a = "32 word", of 16 n] by auto

lemma rf_mask_bit: "bit (0x100ff :: u32) n \<longleftrightarrow> n < 8 \<or> n = 16"
proof -
  have "bit (0x100ff :: u32) n \<longleftrightarrow> bit (0xff OR 0x10000 :: u32) n" by simp
  also have "\<dots> \<longleftrightarrow> n < 8 \<or> n = 16" unfolding bit_or_iff flag_bit low_numerals by (auto simp: bit_mask_iff)
  finally show ?thesis .
qed

lemma subset_bits: "m AND NOT (mask k) = 0 \<Longrightarrow> bit m i \<Longrightarrow> i < k" for m :: u32
proof (rule ccontr)
  assume z: "m AND NOT (mask k) = 0" and b: "bit m i" and k: "\<not> i < k"
  have "bit (m AND NOT (mask k)) i" using b k bit_imp_le_length [OF b] by (simp add: bit_simps)
  then show False using z by simp
qed

lemma rf_valid_bits:
  assumes "rf_valid path address m"
  shows "bit m i \<Longrightarrow> i < 20" "bit address i \<Longrightarrow> i < 8 \<or> i = 16" "bit path i \<Longrightarrow> i = 0" "m \<noteq> 0"
proof -
  show "bit m i \<Longrightarrow> i < 20" using assms subset_bits [of m 20 i] by (auto simp: rf_valid_def low_numerals)
  show "bit address i \<Longrightarrow> i < 8 \<or> i = 16"
  proof (rule ccontr)
    assume b: "bit address i" and k: "\<not> (i < 8 \<or> i = 16)"
    have "bit (address AND NOT 0x100ff) i"
      unfolding bit_and_iff bit_not_iff rf_mask_bit using b k bit_imp_le_length [OF b] by simp
    then show False using assms by (simp add: rf_valid_def)
  qed
  have "path = 0 \<or> path = 1" using assms by (auto simp: rf_valid_def not_less word_le_nat_alt word_unat_eq_iff)
  then show "bit path i \<Longrightarrow> i = 0" by (auto simp: bit_1_iff)
  show "m \<noteq> 0" using assms by (simp add: rf_valid_def)
qed

lemma swsi_bits:
  assumes "rf_valid path address m" and "address AND 0x10000 = 0"
  shows "bit (swsi_command path address m x) i \<longleftrightarrow> (m \<noteq> 0xfffff \<and> i = 31) \<or> (i = 28 \<and> bit path 0) \<or>
    (20 \<le> i \<and> i < 28 \<and> bit address (i - 20)) \<or> (i < 20 \<and> bit (if m \<noteq> 0xfffff then push_bit (reg_shift m) x else x) i)"
proof (cases "i < 32")
  case True
  have "\<not> bit address 16"
  proof
    assume "bit address 16"
    then have "bit (address AND 0x10000) 16" by (simp only: bit_and_iff flag_bit simp_thms)
    then show False using assms(2) by simp
  qed
  then have a: "bit address n \<Longrightarrow> n < 8" for n using rf_valid_bits(2) [OF assms(1), of n] by auto
  have p: "bit (push_bit 28 (ucast path :: u32)) i \<longleftrightarrow> i = 28 \<and> bit path 0"
  proof (cases "bit path (i - 28)")
    case True
    then have "i - 28 = 0" by (rule rf_valid_bits(3) [OF assms(1)])
    then show ?thesis using True \<open>i < 32\<close> by (auto simp: bit_push_bit_iff bit_unsigned_iff)
  next
    case False
    then show ?thesis by (auto simp: bit_push_bit_iff bit_unsigned_iff)
  qed
  have q: "bit (push_bit 20 address) i \<longleftrightarrow> 20 \<le> i \<and> i < 28 \<and> bit address (i - 20)"
    using True a [of "i - 20"] unfolding bit_push_bit_iff by auto
  have r: "bit (if m \<noteq> 0xfffff then push_bit (reg_shift m) (x AND 0xfffff) AND 0xfffff else x AND 0xfffff) i \<longleftrightarrow>
      i < 20 \<and> bit (if m \<noteq> 0xfffff then push_bit (reg_shift m) x else x) i"
    by (cases "m = 0xfffff") (auto simp: bit_and_low bit_push_bit_iff simp del: push_bit_and)
  have f: "bit (if m \<noteq> 0xfffff then 0x80000000 else 0 :: u32) i \<longleftrightarrow> m \<noteq> 0xfffff \<and> i = 31"
    using flag_bit(1) [of i] by (cases "m = 0xfffff") (simp, simp only: if_True simp_thms)
  show ?thesis unfolding swsi_command_def Let_def bit_or_iff p q r f by blast
next
  case False
  then show ?thesis using bit_imp_le_length [of "swsi_command path address m x" i] by auto
qed

text \<open>The direct window behaves like memory: reads return what was written, and nothing else changes it.\<close>

definition memory_device :: "'s Io \<Rightarrow> ('s \<Rightarrow> u32 \<Rightarrow> u32) \<Rightarrow> bool" where
  "memory_device d mem \<longleftrightarrow> (\<forall>s a v t. \<not> fst (io_cancelled d s) \<and> mem (snd (io_cancelled d s)) = mem s \<and>
     fst (io_read32 d a s) = (True, mem s a) \<and> mem (snd (io_read32 d a s)) = mem s \<and>
     fst (io_write32 d a v s) \<and> mem (snd (io_write32 d a v s)) = (mem s)(a := v) \<and>
     fst (io_delayUs d t s) \<and> mem (snd (io_delayUs d t s)) = mem s)"

lemma memory_ready: "memory_device d mem \<Longrightarrow> wp (ra_ready d) Q (x, s) \<longleftrightarrow> Q True (x, snd (io_cancelled d s))"
  by (simp add: memory_device_def ra_ready_def ra_set_def wp_simps wp_dcall)

lemma memory_read:
  assumes "memory_device d mem" and "\<And>y z. mem z = mem s \<Longrightarrow> Q (True, mem s (0x10000 + r)) (y, z)"
  shows "wp (ra_read d r) Q (x, s)"
  using assms by (simp add: memory_device_def ra_read_def ra_traced_def wp_simps memory_ready [OF assms(1)] wp_dcall split: prod.split)

lemma memory_write:
  assumes "memory_device d mem" and "\<And>y z. mem z = (mem s)(0x10000 + r := v) \<Longrightarrow> Q True (y, z)"
  shows "wp (ra_write d r v) Q (x, s)"
  using assms by (simp add: memory_device_def ra_write_def ra_traced_def wp_simps memory_ready [OF assms(1)] wp_dcall)

lemma memory_delay:
  assumes "memory_device d mem" and "\<And>y z. mem z = mem s \<Longrightarrow> Q True (y, z)"
  shows "wp (ra_delay d t) Q (x, s)"
  using assms by (simp add: memory_device_def ra_delay_def wp_simps memory_ready [OF assms(1)] wp_dcall)

lemma memory_update:
  assumes "memory_device d mem"
    and "\<And>y z. mem z = (mem s)(0x10000 + r := put_field m x (mem s (0x10000 + r))) \<Longrightarrow> Q True (y, z)"
  shows "wp (ra_update d r m x) Q (w, s)"
proof (cases "m = 0xffffffff")
  case True
  have "put_field (- 1) x v = put_field (- 1) x 0" for v by (simp add: put_field_def)
  moreover have "m = - 1" using True by simp
  ultimately have "put_field m x (mem s (0x10000 + r)) = put_field m x 0" by metis
  then show ?thesis using True assms(2) unfolding ra_update_def by (simp add: memory_write [OF assms(1)])
next
  case False
  show ?thesis unfolding ra_update_def if_not_P [OF False] wp_okM
    by (intro memory_read [OF assms(1)]) (simp, rule memory_write [OF assms(1)], simp add: assms(2))
qed

lemma memory_validate: "memory_device d mem \<Longrightarrow> rf_valid p a m \<Longrightarrow> (\<And>y z. mem z = mem s \<Longrightarrow> Q True (y, z)) \<Longrightarrow> wp (ra_validate d p a m) Q (x, s)"
  by (simp add: ra_validate_def ra_set_def wp_simps memory_ready) (simp add: memory_device_def)



end
