(* ===== verification/RadioFirmware.thy ===== *)
theory RadioFirmware
  imports RadioTables FirmwareProtocol FirmwarePlan
begin

text \<open>The firmware's copy of the radio table, \<open>src/network/RadioFirmware.hpp\<close>: collecting the digital writes of a table into caller storage and
  cutting the result into command pages.\<close>

section \<open>Pages\<close>

text \<open>\<open>data\<close> is a pointer: its address and the bytes there.\<close>

record RadioFirmwarePages =
  rp_data :: "(u64 \<times> bytes) option"
  rp_words :: nat
  rp_path :: u8

definition RadioFirmwarePages0 :: RadioFirmwarePages where
  "RadioFirmwarePages0 = \<lparr>rp_data = None, rp_words = 0, rp_path = 0\<rparr>"

definition pages :: "RadioFirmwarePages \<Rightarrow> nat" where
  "pages p = (rp_words p + 499) div 500"

text \<open>The overlap test on two ranges given by their addresses and lengths.\<close>

definition ranges_meet :: "u64 \<Rightarrow> nat \<Rightarrow> u64 \<Rightarrow> nat \<Rightarrow> bool" where
  "ranges_meet src n dst m \<longleftrightarrow> (if src \<le> dst then unat (dst - src) < n else unat (src - dst) < m)"

definition page_count :: "RadioFirmwarePages \<Rightarrow> nat \<Rightarrow> nat" where
  "page_count p page = (let start = page * 500 in if 500 < rp_words p - start then 500 else rp_words p - start)"

definition page_command :: "u8 \<Rightarrow> nat \<Rightarrow> CommandId" where
  "page_command path page = \<lparr>ci_category = 2, ci_commandClass = (if path \<noteq> 0 then 9 else 8), ci_function = of_nat page\<rparr>"

definition encodePage :: "RadioFirmwarePages \<Rightarrow> nat \<Rightarrow> u8 \<Rightarrow> (u64 \<times> bytes) option \<Rightarrow> (bool \<times> nat \<times> bytes option) option" where
  "encodePage p page seq out = (case rp_data p of None \<Rightarrow> Some (False, 0, map_option snd out) | Some (src, bs) \<Rightarrow>
     if rp_words p = 0 \<or> 1500 < rp_words p \<or> 1 < rp_path p \<or> pages p \<le> page then Some (False, 0, map_option snd out)
     else (case out of None \<Rightarrow> Some (False, 0, None) | Some (dst, buf) \<Rightarrow>
       if ranges_meet src (rp_words p * 4) dst (length buf) then Some (False, 0, Some buf)
       else do {
         payload \<leftarrow> rd_bytes bs (page * 500 * 4) (page_count p page * 4);
         encodeH2c (page_command (rp_path p) page) seq False False
           (PlApart payload) (page_count p page * 4) (Some buf) }))"

section \<open>Collecting\<close>

text \<open>The collector: its storage pointer, which may be null, and the number of words so far. \<^term>\<open>None\<close> after a store out of range.\<close>

record RadioFirmwareCollector =
  rc_storage :: "bytes option"
  rc_count :: nat

definition rf_row_ok :: "u32 \<Rightarrow> u32 \<Rightarrow> bool" where
  "rf_row_ok addr v \<longleftrightarrow> addr AND NOT 0x100ff = 0 \<and> v AND NOT 0xfffff = 0"

definition collector_rfWrite :: "nat \<Rightarrow> u32 \<Rightarrow> u32 \<Rightarrow> RadioFirmwareCollector \<Rightarrow> (bool \<times> RadioFirmwareCollector) option" where
  "collector_rfWrite capacity addr v c =
     (if \<not> rf_row_ok addr v then Some (False, c)
      else if addr < 0x100 then Some (True, c)
      else if 1500 \<le> rc_count c \<or> capacity div 4 \<le> rc_count c then Some (False, c)
      else case rc_storage c of None \<Rightarrow> Some (True, c\<lparr>rc_count := rc_count c + 1\<rparr>)
        | Some buf \<Rightarrow> map_option (\<lambda>buf. (True, \<lparr>rc_storage = Some buf, rc_count = rc_count c + 1\<rparr>))
            (store32 buf (rc_count c * 4) (push_bit 20 addr OR v)))"

definition collector_sink :: "nat \<Rightarrow> RadioFirmwareCollector option Sink" where
  "collector_sink capacity = \<lparr>sk_cancelled = \<lambda>s. (False, s), sk_bbWrite = \<lambda>a v s. (False, s),
     sk_rfWrite = \<lambda>p a v s. (case s of None \<Rightarrow> (False, None) | Some c \<Rightarrow>
       (case collector_rfWrite capacity a v c of None \<Rightarrow> (False, None) | Some (ok, c) \<Rightarrow> (ok, Some c))),
     sk_gainRecord = \<lambda>a v s. (False, s), sk_delayUs = \<lambda>t s. (False, s)\<rparr>"

text \<open>\<open>registers\<close> is the address of the table; a register takes eight bytes. The result is the status, the storage (\<^term>\<open>None\<close> after a
  store out of range) and the pages.\<close>

definition prepareRadioFirmware :: "RadioTable \<Rightarrow> u64 \<Rightarrow> u8 \<Rightarrow> u8 \<Rightarrow> (u64 \<times> bytes) option \<Rightarrow>
    RadioTableStatus \<times> bytes option \<times> RadioFirmwarePages" where
  "prepareRadioFirmware table registers rfe chipCut storage = (case storage of None \<Rightarrow> (RTS_invalid, None, RadioFirmwarePages0)
     | Some (dst, buf) \<Rightarrow>
       let count = (case tb_registers table of None \<Rightarrow> 0 | Some rs \<Rightarrow> length rs); sink = collector_sink (length buf) in
       if tb_kind table \<noteq> RTK_radio \<or> 65536 < count \<or> ranges_meet registers (count * 8) dst (length buf)
       then (RTS_invalid, Some buf, RadioFirmwarePages0)
       else let check = fst (applyRadioTable table rfe chipCut sink (Some \<lparr>rc_storage = None, rc_count = 0\<rparr>)) in
         if tr_status check \<noteq> RTS_ok then (tr_status check, Some buf, RadioFirmwarePages0)
         else (case applyRadioTable table rfe chipCut sink (Some \<lparr>rc_storage = Some buf, rc_count = 0\<rparr>) of
           (result, None) \<Rightarrow> (tr_status result, None, RadioFirmwarePages0)
         | (result, Some c) \<Rightarrow> (tr_status result, rc_storage c,
             if tr_status result = RTS_ok
             then \<lparr>rp_data = map_option (Pair dst) (rc_storage c), rp_words = rc_count c, rp_path = tb_path table\<rparr>
             else RadioFirmwarePages0)))"

section \<open>The collected words\<close>

text \<open>The ideal collector keeps the command words in a list.\<close>

definition digital_sink :: "nat \<Rightarrow> u32 list Sink" where
  "digital_sink capacity = \<lparr>sk_cancelled = \<lambda>ws. (False, ws), sk_bbWrite = \<lambda>a v ws. (False, ws),
     sk_rfWrite = \<lambda>p a v ws. if rf_row_ok a v then if a < 0x100 then (True, ws)
         else if length ws < 1500 \<and> length ws < capacity div 4 then (True, ws @ [push_bit 20 a OR v]) else (False, ws)
       else (False, ws),
     sk_gainRecord = \<lambda>a v ws. (False, ws), sk_delayUs = \<lambda>t ws. (False, ws)\<rparr>"

definition le_words :: "u32 list \<Rightarrow> bytes" where
  "le_words ws = concat (map bytes_of32 ws)"

lemma length_le_words [simp]: "length (le_words ws) = 4 * length ws"
  by (induction ws) (simp_all add: le_words_def)

lemma le_words_append: "le_words (xs @ [w]) = le_words xs @ bytes_of32 w"
  by (simp add: le_words_def)

text \<open>The words of \<open>ws\<close> stand at the start of the storage, the rest of which is untouched.\<close>

definition holds_words :: "bytes \<Rightarrow> u32 list \<Rightarrow> RadioFirmwareCollector option \<Rightarrow> bool" where
  "holds_words buf ws s \<longleftrightarrow> s = Some \<lparr>rc_storage = Some (le_words ws @ drop (4 * length ws) buf), rc_count = length ws\<rparr> \<and>
     4 * length ws \<le> length buf \<and> length ws \<le> 1500"

lemma collect_sim: "sink_sim RTK_radio (holds_words buf) (digital_sink (length buf)) (collector_sink (length buf))"
proof -
  have step: "same_step (holds_words buf) (sk_rfWrite (digital_sink (length buf)) p a v) (sk_rfWrite (collector_sink (length buf)) p a v)" for p a v
    unfolding same_step_def
  proof (intro allI impI)
    fix ws s assume h: "holds_words buf ws s"
    let ?d = "sk_rfWrite (digital_sink (length buf)) p a v ws" and ?c = "sk_rfWrite (collector_sink (length buf)) p a v s"
    have "store32 (le_words ws @ drop (4 * length ws) buf) (4 * length ws) w = Some (le_words (ws @ [w]) @ drop (4 * length (ws @ [w])) buf)"
      if "length ws < length buf div 4" for w
    proof -
      have "4 \<le> length (drop (4 * length ws) buf)" using that by simp
      from store32_front [OF this, of "le_words ws" w] show ?thesis by (simp add: le_words_append add.commute)
    qed
    then show "fst ?d = fst ?c \<and> holds_words buf (snd ?d) (snd ?c)"
      using h by (auto simp: digital_sink_def collector_sink_def collector_rfWrite_def holds_words_def mult.commute)
  qed
  then show ?thesis unfolding sink_sim_def by (simp add: same_step_def digital_sink_def collector_sink_def)
qed

lemma count_sim: "sink_sim RTK_radio (\<lambda>ws s. s = Some \<lparr>rc_storage = None, rc_count = length ws\<rparr>) (digital_sink k) (collector_sink k)"
  unfolding sink_sim_def same_step_def by (auto simp: digital_sink_def collector_sink_def collector_rfWrite_def)

text \<open>What the preparation gives, in terms of the words.\<close>

definition table_words :: "RadioTable \<Rightarrow> u8 \<Rightarrow> u8 \<Rightarrow> nat \<Rightarrow> RadioTableResult \<times> u32 list" where
  "table_words table rfe chipCut capacity = applyRadioTable table rfe chipCut (digital_sink capacity) []"

lemma words_sim:
  assumes "tb_kind table = RTK_radio"
  shows "fst (table_words table rfe chipCut (length buf)) =
      fst (applyRadioTable table rfe chipCut (collector_sink (length buf)) (Some \<lparr>rc_storage = Some buf, rc_count = 0\<rparr>)) \<and>
    holds_words buf (snd (table_words table rfe chipCut (length buf)))
      (snd (applyRadioTable table rfe chipCut (collector_sink (length buf)) (Some \<lparr>rc_storage = Some buf, rc_count = 0\<rparr>)))"
    and "fst (table_words table rfe chipCut k) = fst (applyRadioTable table rfe chipCut (collector_sink k) (Some \<lparr>rc_storage = None, rc_count = 0\<rparr>))"
proof -
  have start: "holds_words buf [] (Some \<lparr>rc_storage = Some buf, rc_count = 0\<rparr>)" by (simp add: holds_words_def le_words_def)
  show "fst (table_words table rfe chipCut (length buf)) =
      fst (applyRadioTable table rfe chipCut (collector_sink (length buf)) (Some \<lparr>rc_storage = Some buf, rc_count = 0\<rparr>)) \<and>
    holds_words buf (snd (table_words table rfe chipCut (length buf)))
      (snd (applyRadioTable table rfe chipCut (collector_sink (length buf)) (Some \<lparr>rc_storage = Some buf, rc_count = 0\<rparr>)))"
    unfolding table_words_def by (rule apply_sim [OF collect_sim [folded assms] start])
  show "fst (table_words table rfe chipCut k) = fst (applyRadioTable table rfe chipCut (collector_sink k) (Some \<lparr>rc_storage = None, rc_count = 0\<rparr>))"
    using apply_sim [OF count_sim [folded assms] refl, where s = "[]"] by (simp add: table_words_def)
qed

lemma prepare_words:
  assumes "prepareRadioFirmware table registers rfe chipCut (Some (dst, buf)) = (st, mem, p)"
  shows "if st = RTS_ok then \<exists>result ws. table_words table rfe chipCut (length buf) = (result, ws) \<and> tr_status result = RTS_ok \<and>
      4 * length ws \<le> length buf \<and> length ws \<le> 1500 \<and> mem = Some (le_words ws @ drop (4 * length ws) buf) \<and>
      p = \<lparr>rp_data = Some (dst, le_words ws @ drop (4 * length ws) buf), rp_words = length ws, rp_path = tb_path table\<rparr>
    else mem = Some buf \<and> p = RadioFirmwarePages0"
proof -
  note a = words_sim(1) [of table rfe chipCut buf] and b = words_sim(2) [of table rfe chipCut "length buf"]
  obtain result ws where w: "table_words table rfe chipCut (length buf) = (result, ws)" by fastforce
  show ?thesis using assms a b w
    by (auto simp: prepareRadioFirmware_def Let_def holds_words_def split: if_splits prod.splits option.splits)
qed

lemma prepare_status:
  assumes "tb_registers table = Some rs" and "tb_kind table = RTK_radio" and "length rs \<le> 65536" and "\<not> ranges_meet registers (length rs * 8) dst (length buf)"
  shows "fst (prepareRadioFirmware table registers rfe chipCut (Some (dst, buf))) = tr_status (fst (table_words table rfe chipCut (length buf)))"
proof -
  note a = words_sim(1) [of table rfe chipCut buf] and b = words_sim(2) [of table rfe chipCut "length buf"]
  show ?thesis using assms a b by (auto simp: prepareRadioFirmware_def Let_def holds_words_def split: prod.splits option.splits)
qed

section \<open>The pages of a table\<close>

definition page_bytes :: "u32 list \<Rightarrow> nat \<Rightarrow> bytes" where
  "page_bytes ws page = take (min 2000 (4 * length ws - 2000 * page)) (drop (2000 * page) (le_words ws))"

lemma applied_path: "tr_status (fst (applyRadioTable table rfe chipCut sink s)) = RTS_ok \<Longrightarrow> tb_path table \<le> 1"
  by (rule ccontr) (auto simp: applyRadioTable_def selectRadioTable_def Let_def RadioTableResult0_def split: option.splits if_splits)

lemma pages_tile: "concat (map (page_bytes ws) [0..<(length ws + 499) div 500]) = le_words ws"
proof -
  have "(4 * length ws + 1999) div 2000 = ((4 * length ws + 1999) div 4) div 500" by (simp only: div_mult2_eq [symmetric] numeral_times_numeral semiring_norm)
  also have "(4 * length ws + 1999) div 4 = length ws + 499" by simp
  finally have n: "(length ws + 499) div 500 = ceil_div (4 * length ws) 2000" by (simp add: ceil_div_def)
  show ?thesis using chunks_concat [of 2000 "4 * length ws" 0 "le_words ws"] by (simp add: n page_bytes_def [abs_def])
qed

lemma encode_page_ok:
  assumes "rp_words p = length ws" and "rp_data p = Some (dst, le_words ws @ rest)" and "rp_path p \<le> 1" and "length ws \<le> 1500"
    and "page < pages p" and "\<not> ranges_meet dst (rp_words p * 4) at (length out)" and "2008 \<le> length out"
  shows "encodePage p page seq (Some (at, out)) = Some (True, length (page_bytes ws page) + 8,
    Some (h2c_bytes (page_command (rp_path p) page) seq False False (page_bytes ws page) @ drop (length (page_bytes ws page) + 8) out))"
proof -
  have start: "page * 500 < length ws" using assms(1,5) by (simp add: pages_def)
  have count: "page_count p page * 4 = length (page_bytes ws page)"
    using start assms(1) by (simp add: page_count_def page_bytes_def Let_def min_def) linarith
  have "page * 2000 + length (page_bytes ws page) \<le> 4 * length ws" using start by (simp add: page_bytes_def min_def) linarith
  then have pay: "rd_bytes (le_words ws @ rest) (page * 500 * 4) (length (page_bytes ws page)) = Some (page_bytes ws page)"
    using start by (simp add: rd_bytes_def page_bytes_def mult.commute)
  have word: "ws \<noteq> []" using start by auto
  have "length (page_bytes ws page) \<le> 2000" by (simp add: page_bytes_def)
  then have fits: "h2c_fits (page_command (rp_path p) page) (length (page_bytes ws page))" "length (page_bytes ws page) + 8 \<le> length out"
    using assms(7) by (simp_all add: h2c_fits_def page_command_def word_le_nat_alt)
  show ?thesis using assms start unfolding encodePage_def
    by (simp add: count pay [simplified] word encodeH2c_apart [OF fits] not_less)
qed

text \<open>C28: When the preparation succeeds, the pages carry exactly the table's digital radio writes, in order, as
  little-endian command words: every page is accepted into any buffer of 2008 bytes apart from the storage, reads back as the page's
  command, and the payloads together are the words. Nothing is stored outside the caller's storage; a failed preparation leaves it untouched
  and gives no pages.\<close>

theorem radio_pages_carry:
  assumes "prepareRadioFirmware table registers rfe chipCut (Some (dst, buf)) = (st, mem, p)"
  shows "if st = RTS_ok
    then \<exists>result ws. table_words table rfe chipCut (length buf) = (result, ws) \<and> tr_status result = RTS_ok \<and>
      mem = Some (le_words ws @ drop (4 * length ws) buf) \<and> concat (map (page_bytes ws) [0..<pages p]) = le_words ws \<and>
      (\<forall>page seq at out. page < pages p \<and> \<not> ranges_meet dst (rp_words p * 4) at (length out) \<and> 2008 \<le> length out \<longrightarrow>
        (\<exists>n frame. encodePage p page seq (Some (at, out)) = Some (True, n, Some frame) \<and>
          event_of (take n frame) = Some (page_command (tb_path table) page, page_bytes ws page)))
    else mem = Some buf \<and> pages p = 0"
proof (cases "st = RTS_ok")
  case True
  then obtain result ws where w: "table_words table rfe chipCut (length buf) = (result, ws)" "tr_status result = RTS_ok" "length ws \<le> 1500"
    "mem = Some (le_words ws @ drop (4 * length ws) buf)"
    "p = \<lparr>rp_data = Some (dst, le_words ws @ drop (4 * length ws) buf), rp_words = length ws, rp_path = tb_path table\<rparr>"
    using prepare_words [OF assms] by auto
  have path: "tb_path table \<le> 1" using applied_path [of table rfe chipCut "digital_sink (length buf)" "[]"] w(1,2) by (simp add: table_words_def)
  have len: "length (page_bytes ws page) \<le> 2000" for page by (simp add: page_bytes_def)
  have ev: "event_of (take (length (page_bytes ws page) + 8) (h2c_bytes (page_command (tb_path table) page) seq False False (page_bytes ws page) @ r))
      = Some (page_command (tb_path table) page, page_bytes ws page)" for page seq r
    using event_of_h2c [of "page_command (tb_path table) page" "page_bytes ws page" seq False False "[]"] len [of page]
    by (simp add: h2c_fits_def page_command_def word_le_nat_alt)
  have "\<exists>n frame. encodePage p page seq (Some (at, out)) = Some (True, n, Some frame) \<and>
      event_of (take n frame) = Some (page_command (tb_path table) page, page_bytes ws page)"
    if "page < pages p" "\<not> ranges_meet dst (rp_words p * 4) at (length out)" "2008 \<le> length out" for page seq at out
    using encode_page_ok [of p ws dst "drop (4 * length ws) buf" page at out seq] that w(3,5) path ev by simp
  moreover have "pages p = (length ws + 499) div 500" using w(5) by (simp add: pages_def)
  ultimately show ?thesis using True w pages_tile [of ws] by auto
next
  case False
  then show ?thesis using prepare_words [OF assms] by (simp add: pages_def RadioFirmwarePages0_def)
qed

definition sample_radio_table :: RadioTable where
  "sample_radio_table = \<lparr>tb_registers = Some [\<lparr>rg_address = 0x10042, rg_value = 0x12345\<rparr>, \<lparr>rg_address = 0x42, rg_value = 7\<rparr>],
     tb_kind = RTK_radio, tb_path = 1\<rparr>"

lemma sample_radio_applied:
  "applyRadioTable sample_radio_table 1 0 (digital_sink 8) [] = (\<lparr>tr_status = RTS_ok, tr_row = 1, tr_selected = 2, tr_writes = 2, tr_delays = 0, tr_target = 0x10042\<rparr>, [0x04212345])"
  by (simp add: sample_radio_table_def applyRadioTable_def selectRadioTable_def validateRadioBranches_def row_op_def row_cond_def apply_row_def
    digital_sink_def rf_row_ok_def Let_def branch_state0_def RadioTableResult0_def word_le_nat_alt word_less_nat_alt)

theorem radio_pages_carry_witness:
  "\<exists>mem p ws result. prepareRadioFirmware sample_radio_table 0x1000 1 0 (Some (0x2000, replicate 8 0)) = (RTS_ok, mem, p) \<and>
     table_words sample_radio_table 1 0 8 = (result, ws) \<and> ws = [0x04212345] \<and> concat (map (page_bytes ws) [0..<pages p]) = le_words ws"
proof -
  obtain st mem p where r: "prepareRadioFirmware sample_radio_table 0x1000 1 0 (Some (0x2000, replicate 8 0)) = (st, mem, p)"
    by (metis prod_cases3)
  have "fst (prepareRadioFirmware sample_radio_table 0x1000 1 0 (Some (0x2000, replicate 8 0))) = RTS_ok"
    using sample_radio_applied
    by (subst prepare_status [where rs = "the (tb_registers sample_radio_table)"])
      (simp_all add: table_words_def, simp_all add: sample_radio_table_def ranges_meet_def word_le_nat_alt)
  then have "st = RTS_ok" using r by simp
  then show ?thesis using radio_pages_carry [OF r] r sample_radio_applied by (auto simp: table_words_def)
qed

end
