(* ===== verification/RadioInitialization.thy ===== *)
theory RadioInitialization
  imports RadioAccess RadioFirmware Efuse
begin

text \<open>The programming stages of the radio, \<open>src/network/RadioInitialization.hpp\<close>: every table is checked by a dry run before its first write, the
  firmware pages are exposed only after the radio was programmed and the serial interface drained.\<close>

section \<open>Sinks\<close>

definition init_sink :: "'s Io \<Rightarrow> (RadioAccess \<times> 's) Sink" where
  "init_sink d = \<lparr>sk_cancelled = run_state (dcall (io_cancelled d)), sk_bbWrite = \<lambda>a v. run_state (writeBaseband d a v),
     sk_rfWrite = \<lambda>p a v. run_state (writeRf d p a 0xfffff v), sk_gainRecord = \<lambda>a v s. (False, s),
     sk_delayUs = \<lambda>us. run_state (delayMicroseconds d us)\<rparr>"

definition check_sink :: "unit Sink" where
  "check_sink = \<lparr>sk_cancelled = \<lambda>s. (False, s), sk_bbWrite = \<lambda>a v s. (a AND 3 = 0 \<and> a < 0x10000, s),
     sk_rfWrite = \<lambda>p a v s. (p < 2 \<and> a AND NOT 0x100ff = 0 \<and> v AND NOT 0xfffff = 0, s), sk_gainRecord = \<lambda>a v s. (False, s),
     sk_delayUs = \<lambda>us s. (us \<le> 50000, s)\<rparr>"

definition dry_run :: "RadioTable \<Rightarrow> u8 \<Rightarrow> u8 \<Rightarrow> RadioTableResult" where
  "dry_run table rfe chipCut = fst (applyRadioTable table rfe chipCut check_sink ())"

definition program_table :: "'s Io \<Rightarrow> RadioTable \<Rightarrow> u8 \<Rightarrow> u8 \<Rightarrow> ('s, RadioTableResult) rad" where
  "program_table d table rfe chipCut = State (applyRadioTable table rfe chipCut (init_sink d))"

section \<open>Stages\<close>

definition baseband :: "'s Io \<Rightarrow> RadioTable \<Rightarrow> u8 \<Rightarrow> u8 \<Rightarrow> ('s, RadioTableResult) rad" where
  "baseband d table rfe chipCut = (if tb_kind table \<noteq> RTK_baseband then ret RadioTableResult0
     else let result = dry_run table rfe chipCut in
       if tr_status result \<noteq> RTS_ok then ret result else program_table d table rfe chipCut)"

text \<open>The calibration engine's start-up handshake: \<^term>\<open>None\<close> when an access failed, else whether the engine answered. \<open>k\<close> is the number
  of tries left after the current one.\<close>

fun nctl_wait :: "'s Io \<Rightarrow> nat \<Rightarrow> ('s, bool option) rad" where
  "nctl_wait d k = do {
     ok \<leftarrow> andM (writeBaseband d 0x8080 4) (delayMicroseconds d 1);
     if \<not> ok then ret None else do {
     (ok, v) \<leftarrow> readBaseband d 0x8080;
     if \<not> ok then ret None
     else if v = 4 then ret (Some True)
     else if k = 0 then ret (Some False)
     else do {
       ok \<leftarrow> delayMicroseconds d 10;
       if \<not> ok then ret None else nctl_wait d (k - 1) } } }"

declare nctl_wait.simps [simp del]

definition nctl :: "'s Io \<Rightarrow> RadioTable \<Rightarrow> u8 \<Rightarrow> u8 \<Rightarrow> ('s, RadioIoStatus) rad" where
  "nctl d nctlTable rfe chipCut = (if tr_status (dry_run nctlTable rfe chipCut) \<noteq> RTS_ok then ret RIO_invalid
     else do {
       ok \<leftarrow> andM (updateBaseband d 0x0c60 3 3) (andM (updateBaseband d 0x0c6c 1 1) (andM (updateBaseband d 0x58ac 0x08000000 1)
         (andM (updateBaseband d 0x78ac 0x08000000 1) (andM (updateBaseband d 0x0c60 2 1) (writeBaseband d 0x8000 8)))));
       if \<not> ok then ogets ra_status else do {
       ready \<leftarrow> nctl_wait d 100;
       if ready = None then ogets ra_status
       else if ready = Some False then ret RIO_timeout else do {
       result \<leftarrow> program_table d nctlTable rfe chipCut;
       if tr_status result = RTS_ok then ret RIO_ok
       else if tr_status result = RTS_cancelled then ret RIO_cancelled
       else ogets (\<lambda>x. if ra_status x = RIO_ok then RIO_ioError else ra_status x) } } })"

text \<open>The result, the storage afterwards (\<^term>\<open>None\<close> when it is null or after a store out of range), and the pages.\<close>

definition radio :: "'s Io \<Rightarrow> RadioTable \<Rightarrow> u64 \<Rightarrow> u8 \<Rightarrow> u8 \<Rightarrow> (u64 \<times> bytes) option \<Rightarrow>
    ('s, RadioTableResult \<times> bytes option \<times> RadioFirmwarePages) rad" where
  "radio d table registers rfe chipCut scratch = (case prepareRadioFirmware table registers rfe chipCut scratch of (st, mem, prepared) \<Rightarrow>
     if st \<noteq> RTS_ok then ret (RadioTableResult0\<lparr>tr_status := st\<rparr>, mem, RadioFirmwarePages0)
     else do {
       result \<leftarrow> program_table d table rfe chipCut;
       if tr_status result \<noteq> RTS_ok then ret (result, mem, RadioFirmwarePages0) else do {
       ok \<leftarrow> drainRf d;
       if \<not> ok then do {
         st \<leftarrow> ogets ra_status;
         ret (result\<lparr>tr_status := if st = RIO_cancelled then RTS_cancelled else RTS_ioError\<rparr>, mem, RadioFirmwarePages0) }
       else ret (result, mem, prepared) } })"

definition thermal_code :: "u8 \<Rightarrow> u32" where
  "thermal_code raw = push_bit 3 (ucast raw AND 1) OR drop_bit 1 (ucast raw AND 0x1f)"

text \<open>The trims have one entry per path.\<close>

definition powerTrim :: "'s Io \<Rightarrow> PhyCalibration \<Rightarrow> ('s, RadioIoStatus) rad" where
  "powerTrim d calibration = do {
     ok \<leftarrow> andM (if pc_thermalValid calibration
         then allM (\<lambda>p. writeRf d (of_nat p) 0x43 0xf0000 (thermal_code (pc_thermalTrim calibration ! p))) [0..<2] else ret True)
       (andM (if pc_paBiasValid calibration
         then allM (\<lambda>p. let raw = pc_paBiasTrim calibration ! p in
           andM (writeRf d (of_nat p) 0x60 0xf000 (ucast (raw AND 15))) (writeRf d (of_nat p) 0x60 0xf0000 (ucast (drop_bit 4 raw)))) [0..<2]
         else ret True)
       (if pc_thermalValid calibration \<or> pc_paBiasValid calibration then drainRf d else ret True));
     if \<not> ok then ogets ra_status else do {
     c \<leftarrow> dcall (io_cancelled d);
     ret (if c then RIO_cancelled else RIO_ok) } }"

section \<open>What reaches the device\<close>

lemma frames_state: "frames W m \<Longrightarrow> \<exists>new. log_of t = new @ log_of t0 \<and> set new \<subseteq> W \<Longrightarrow>
    \<exists>new. log_of (snd (run_state m t)) = new @ log_of t0 \<and> set new \<subseteq> W"
  unfolding frames_def by (metis append.assoc set_append Un_least)

lemma program_frames [frame_rules]: "frames radio_events (program_table (io_logged d) table rfe chipCut)"
  unfolding frames_def program_table_def state.sel
proof
  fix t :: "RadioAccess \<times> 'a \<times> io_event list"
  define P where "P u \<longleftrightarrow> (\<exists>new. log_of u = new @ log_of t \<and> set new \<subseteq> radio_events)" for u :: "RadioAccess \<times> 'a \<times> io_event list"
  have keep: "P u \<Longrightarrow> P (snd (run_state m u))" if "frames radio_events m" for m :: "('a \<times> io_event list, bool) rad" and u
    unfolding P_def by (rule frames_state [OF that])
  have "sink_keeps P (init_sink (io_logged d))"
    by (rule sink_keepsI) (simp_all add: init_sink_def keep frame_rules)
  then have "P (snd (applyRadioTable table rfe chipCut (init_sink (io_logged d)) t))" by (rule apply_keeps) (simp add: P_def)
  then show "\<exists>new. log_of (snd (applyRadioTable table rfe chipCut (init_sink (io_logged d)) t)) = new @ log_of t \<and> set new \<subseteq> radio_events"
    by (simp add: P_def)
qed

lemma nctl_wait_frames [frame_rules]: "frames radio_events (nctl_wait (io_logged d) k)"
proof (induction k)
  case 0
  show ?case by (subst nctl_wait.simps) (simp only: simp_thms if_True, intro frame_rules)
next
  case (Suc k)
  show ?case by (subst nctl_wait.simps) (simp only: nat.distinct diff_Suc_1 simp_thms, intro frame_rules Suc)
qed

lemma stage_frames:
  "frames radio_events (baseband (io_logged d) table rfe chipCut)" "frames radio_events (nctl (io_logged d) table rfe chipCut)"
  "frames radio_events (radio (io_logged d) table registers rfe chipCut scratch)" "frames radio_events (powerTrim (io_logged d) calibration)"
  unfolding baseband_def nctl_def radio_def powerTrim_def Let_def io_logged_simps by (intro frame_rules)+

text \<open>Whatever the device answers and whatever the table holds, the four programming stages write only
  aligned words of the baseband window, and a table that fails its dry run reaches no device at all. Firmware pages come out only together
  with a successful result, and are those of the preparation.\<close>

theorem radio_stages_contained:
  assumes "run_state (baseband (io_logged d) bb rfe chipCut) (x, s, []) = (r1, x1, s1, l1)"
    and "run_state (nctl (io_logged d) nctlTable rfe chipCut) (x1, s1, []) = (r2, x2, s2, l2)"
    and "run_state (radio (io_logged d) rf registers rfe chipCut scratch) (x2, s2, []) = ((r3, mem, p), x3, s3, l3)"
    and "run_state (powerTrim (io_logged d) calibration) (x3, s3, []) = (r4, x4, s4, l4)"
  shows "set (l1 @ l2 @ l3 @ l4) \<subseteq> radio_events \<and>
    (tr_status (dry_run bb rfe chipCut) \<noteq> RTS_ok \<longrightarrow> s1 = s) \<and> (tr_status (dry_run nctlTable rfe chipCut) \<noteq> RTS_ok \<longrightarrow> s2 = s1) \<and>
    (fst (prepareRadioFirmware rf registers rfe chipCut scratch) \<noteq> RTS_ok \<longrightarrow> s3 = s2) \<and>
    (p = RadioFirmwarePages0 \<or> tr_status r3 = RTS_ok \<and> p = snd (snd (prepareRadioFirmware rf registers rfe chipCut scratch)))"
proof -
  have "set (l1 @ l2 @ l3 @ l4) \<subseteq> radio_events"
    using frames_run_state [OF stage_frames(1) assms(1)] frames_run_state [OF stage_frames(2) assms(2)]
      frames_run_state [OF stage_frames(3) assms(3)] frames_run_state [OF stage_frames(4) assms(4)] by auto
  moreover have "tr_status (dry_run bb rfe chipCut) \<noteq> RTS_ok \<longrightarrow> s1 = s" using assms(1) by (auto simp: baseband_def Let_def split: if_splits)
  moreover have "tr_status (dry_run nctlTable rfe chipCut) \<noteq> RTS_ok \<longrightarrow> s2 = s1" using assms(2) by (auto simp: nctl_def)
  moreover have "fst (prepareRadioFirmware rf registers rfe chipCut scratch) \<noteq> RTS_ok \<longrightarrow> s3 = s2"
    using assms(3) by (auto simp: radio_def split: prod.splits)
  moreover have "p = RadioFirmwarePages0 \<or> tr_status r3 = RTS_ok \<and> p = snd (snd (prepareRadioFirmware rf registers rfe chipCut scratch))"
    using assms(3) by (auto simp: radio_def split: prod.splits if_splits)
  ultimately show ?thesis by blast
qed

section \<open>Programming a table into memory\<close>

text \<open>The sink that stores baseband rows in a plain memory.\<close>

definition memory_sink :: "(u32 \<Rightarrow> u32) Sink" where
  "memory_sink = \<lparr>sk_cancelled = \<lambda>m. (False, m), sk_bbWrite = \<lambda>a v m. if bb_invalid a then (False, m) else (True, m(0x10000 + a := v)),
     sk_rfWrite = \<lambda>p a v m. (False, m), sk_gainRecord = \<lambda>a v m. (False, m), sk_delayUs = \<lambda>us m. (True, m)\<rparr>"

lemma wp_fst_snd: "wp m Q t \<longleftrightarrow> Q (fst (run_state m t)) (snd (run_state m t))"
  by (simp add: wp_def split_beta)

lemma memory_sim:
  assumes "memory_device d mem"
  shows "sink_sim RTK_baseband (\<lambda>m (x, s). mem s = m) memory_sink (init_sink d)"
proof -
  have "wp (writeBaseband d a v) (\<lambda>ok (y, z). ok = (\<not> bb_invalid a) \<and> mem z = (if bb_invalid a then mem s else (mem s)(0x10000 + a := v))) (x, s)"
    for a v x s
    by (auto simp: writeBaseband_def ra_set_def wp_simps intro!: memory_write [OF assms])
  moreover have "wp (delayMicroseconds d us) (\<lambda>ok (y, z). ok \<and> mem z = mem s) (x, s)" for us x s
    by (auto simp: delayMicroseconds_def ra_set_def wp_simps intro!: memory_delay [OF assms])
  moreover have "wp (dcall (io_cancelled d)) (\<lambda>c (y, z). \<not> c \<and> mem z = mem s) (x, s)" for x :: RadioAccess and s
    using assms by (simp add: memory_device_def wp_dcall)
  ultimately show ?thesis
    unfolding wp_fst_snd by (auto simp: sink_sim_def same_step_def memory_sink_def init_sink_def split_beta)
qed

lemma dry_run_sim: "sink_sim RTK_baseband (\<lambda>_ _. True) check_sink memory_sink"
proof -
  have "row_delay a \<le> 50000" for a by (simp add: row_delay_def word_le_nat_alt)
  then show ?thesis by (auto simp: sink_sim_def same_step_def check_sink_def memory_sink_def bb_invalid_def not_le)
qed

text \<open>C29: On a device that behaves like memory the dry run of a baseband table predicts the result of
  programming it, counters included, and the registers end up as the table interpreter over a plain memory leaves them; a refused
  table leaves them alone.\<close>

theorem baseband_refines_memory:
  assumes "memory_device d mem" and "tb_kind table = RTK_baseband"
    and "run_state (baseband d table rfe chipCut) (x, s) = (result, y, z)"
  shows "result = dry_run table rfe chipCut \<and>
    mem z = (if tr_status result = RTS_ok then snd (applyRadioTable table rfe chipCut memory_sink (mem s)) else mem s)"
proof -
  have "fst (applyRadioTable table rfe chipCut memory_sink (mem s)) = fst (applyRadioTable table rfe chipCut (init_sink d) (x, s)) \<and>
      mem (snd (snd (applyRadioTable table rfe chipCut (init_sink d) (x, s)))) = snd (applyRadioTable table rfe chipCut memory_sink (mem s))"
    using apply_sim [OF memory_sim [OF assms(1), folded assms(2)], of "mem s" "(x, s)" rfe chipCut] by (simp add: split_beta)
  moreover have "dry_run table rfe chipCut = fst (applyRadioTable table rfe chipCut memory_sink (mem s))"
    unfolding dry_run_def using apply_sim [OF dry_run_sim [folded assms(2)]] by blast
  ultimately show ?thesis
    using assms(2,3) by (auto simp: baseband_def program_table_def Let_def split: if_splits)
qed

definition sample_bb_table :: RadioTable where
  "sample_bb_table = \<lparr>tb_registers = Some [\<lparr>rg_address = 0x100, rg_value = 5\<rparr>, \<lparr>rg_address = 0x104, rg_value = 7\<rparr>], tb_kind = RTK_baseband, tb_path = 0\<rparr>"

lemma sample_bb_applied: "tr_status (fst (applyRadioTable sample_bb_table 1 0 check_sink ())) = RTS_ok"
  "snd (applyRadioTable sample_bb_table 1 0 memory_sink (\<lambda>_. 0)) 0x10104 = 7"
  by (simp_all add: sample_bb_table_def applyRadioTable_def selectRadioTable_def validateRadioBranches_def row_op_def row_cond_def apply_row_def
    check_sink_def memory_sink_def bb_invalid_def row_delay_def Let_def branch_state0_def RadioTableResult0_def word_le_nat_alt word_less_nat_alt)

theorem baseband_refines_memory_witness:
  "\<exists>result y z. run_state (baseband io_file sample_bb_table 1 0) (RadioAccess0, iofile0) = (result, y, z) \<and> tr_status result = RTS_ok \<and>
     if_mem z 0x10104 = 7"
proof -
  obtain result y z where r: "run_state (baseband io_file sample_bb_table 1 0) (RadioAccess0, iofile0) = (result, y, z)" by (metis prod_cases3)
  have "memory_device io_file if_mem" "tb_kind sample_bb_table = RTK_baseband" by (simp_all add: memory_device_def io_file_def sample_bb_table_def)
  from baseband_refines_memory [OF this r] show ?thesis
    using r sample_bb_applied by (auto simp: dry_run_def iofile0_def)
qed

definition sample_phy :: PhyCalibration where
  "sample_phy = PhyCalibration0\<lparr>pc_thermalTrim := [3, 4], pc_thermalValid := True\<rparr>"

theorem radio_stages_contained_witness:
  "\<exists>r x s l. run_state (baseband (io_logged io_file) sample_bb_table 1 0) (RadioAccess0, iofile0, []) = (r, x, s, l) \<and> set l \<subseteq> radio_events"
proof -
  obtain r1 x1 s1 l1 where 1: "run_state (baseband (io_logged io_file) sample_bb_table 1 0) (RadioAccess0, iofile0, []) = (r1, x1, s1, l1)"
    by (metis prod_cases4)
  obtain r2 x2 s2 l2 where 2: "run_state (nctl (io_logged io_file) sample_bb_table 1 0) (x1, s1, []) = (r2, x2, s2, l2)"
    by (metis prod_cases4)
  obtain r3 m p x3 s3 l3 where 3: "run_state (radio (io_logged io_file) sample_radio_table 0x1000 1 0 (Some (0x2000, replicate 8 0))) (x2, s2, []) =
      ((r3, m, p), x3, s3, l3)" by (metis prod_cases4 prod.exhaust)
  obtain r4 x4 s4 l4 where 4: "run_state (powerTrim (io_logged io_file) sample_phy) (x3, s3, []) = (r4, x4, s4, l4)"
    by (metis prod_cases4)
  show ?thesis using radio_stages_contained [OF 1 2 3 4] 1 by auto
qed

end
