(* ===== verification/RadioBootSequence.thy ===== *)
theory RadioBootSequence
  imports DeviceMonad
begin

text \<open>The state machine that boots, tunes and scans with the radio, \<open>src/network/RadioBootSequence.hpp\<close>. The backend is a record of its operations;
  an operation that takes an action may also call back into the sequence, which the sequence answers with a fault.\<close>

datatype Step = Sp_rck | Sp_dack | Sp_initialRxDc | Sp_channel | Sp_rxDc | Sp_iqk | Sp_tssi | Sp_dpk | Sp_scanBegin | Sp_scanTune | Sp_scanEnd
datatype BootAction = An_initialize | An_tune | An_scanBegin | An_scanTune | An_scanEnd
datatype Progress = Pg_pending | Pg_complete | Pg_failed
datatype Stage = Sg_idle | Sg_upload | Sg_btInitialization | Sg_acquire | Sg_run | Sg_restore | Sg_ready | Sg_fault | Sg_stopped
datatype BootError = BE_none | BE_ownership | BE_clock | BE_timeout | BE_backend | BE_cancelled

definition Step_of :: "nat \<Rightarrow> Step" where
  "Step_of n = [Sp_rck, Sp_dack, Sp_initialRxDc, Sp_channel, Sp_rxDc, Sp_iqk, Sp_tssi, Sp_dpk, Sp_scanBegin, Sp_scanTune, Sp_scanEnd] ! n"

record BootResult =
  br_stage :: Stage
  br_error :: BootError
  br_step :: Step
  br_completion :: u64
  br_initialized :: bool
  br_tuned :: bool
  br_fullCalibration :: bool
  br_scanning :: bool
  br_requiresRecovery :: bool

record Sequence =
  sq_started :: u64
  sq_last :: u64
  sq_active :: bool
  sq_action :: BootAction
  sq_index :: nat
  sq_result :: BootResult

definition Sequence0 :: Sequence where
  "Sequence0 = \<lparr>sq_started = 0, sq_last = 0, sq_active = False, sq_action = An_initialize, sq_index = 0,
     sq_result = \<lparr>br_stage = Sg_idle, br_error = BE_none, br_step = Sp_rck, br_completion = 0, br_initialized = False, br_tuned = False,
       br_fullCalibration = False, br_scanning = False, br_requiresRecovery = False\<rparr>\<rparr>"

text \<open>An action's answer, and whether the backend called \<open>service\<close> or \<open>stop\<close> while it ran.\<close>

record 's Backend =
  bk_inGate :: "'s \<Rightarrow> bool \<times> 's"
  bk_healthy :: "'s \<Rightarrow> bool \<times> 's"
  bk_failed :: "'s \<Rightarrow> 's"
  bk_pause :: "'s \<Rightarrow> (bool \<times> bool) \<times> 's"
  bk_prepare :: "'s \<Rightarrow> (bool \<times> bool) \<times> 's"
  bk_requestLease :: "Step \<Rightarrow> 's \<Rightarrow> (bool \<times> bool) \<times> 's"
  bk_upload :: "'s \<Rightarrow> (Progress \<times> bool) \<times> 's"
  bk_startBt :: "'s \<Rightarrow> (bool \<times> bool) \<times> 's"
  bk_pollBt :: "'s \<Rightarrow> (Progress \<times> bool) \<times> 's"
  bk_pollLease :: "'s \<Rightarrow> (Progress \<times> bool) \<times> 's"
  bk_run :: "Step \<Rightarrow> 's \<Rightarrow> (bool \<times> bool) \<times> 's"
  bk_finishLease :: "'s \<Rightarrow> (bool \<times> bool) \<times> 's"
  bk_pollRestore :: "'s \<Rightarrow> (Progress \<times> bool) \<times> 's"
  bk_finishOperation :: "BootAction \<Rightarrow> 's \<Rightarrow> (bool \<times> bool) \<times> 's"

type_synonym ('s, 'a) boot = "(Sequence, 's, 'a) prog"

definition sq_upd :: "(BootResult \<Rightarrow> BootResult) \<Rightarrow> Sequence \<Rightarrow> Sequence" where
  "sq_upd f x = x\<lparr>sq_result := f (sq_result x)\<rparr>"

abbreviation sq_stage :: "Sequence \<Rightarrow> Stage" where "sq_stage x \<equiv> br_stage (sq_result x)"
abbreviation sq_error :: "Sequence \<Rightarrow> BootError" where "sq_error x \<equiv> br_error (sq_result x)"

definition fault_result :: "BootError \<Rightarrow> BootResult \<Rightarrow> BootResult" where
  "fault_result e r = r\<lparr>br_error := if br_error r = BE_none then e else br_error r, br_stage := Sg_fault, br_tuned := False,
     br_fullCalibration := False, br_requiresRecovery := True\<rparr>"

definition sq_fail :: "'s Backend \<Rightarrow> BootError \<Rightarrow> ('s, bool) boot" where
  "sq_fail b e = do { omod (sq_upd (fault_result e)); ddo (bk_failed b); ret False }"

text \<open>A call of the backend; a call back from it finds \<open>active_\<close> set and fails the sequence.\<close>

definition sq_call :: "('s \<Rightarrow> ('a \<times> bool) \<times> 's) \<Rightarrow> ('s, 'a) boot" where
  "sq_call f = do {
     (v, reentered) \<leftarrow> dcall f;
     (if reentered then omod (sq_upd (fault_result BE_ownership)) else ret ());
     ret v }"

definition busy_stage :: "Stage \<Rightarrow> bool" where
  "busy_stage st \<longleftrightarrow> st \<noteq> Sg_idle \<and> st \<noteq> Sg_ready \<and> st \<noteq> Sg_fault \<and> st \<noteq> Sg_stopped"

definition busy :: "Sequence \<Rightarrow> bool" where
  "busy x \<longleftrightarrow> busy_stage (sq_stage x)"

definition time_limit :: "BootAction \<Rightarrow> u64" where
  "time_limit a = (if a = An_initialize \<or> a = An_tune then 10000000 else 2000000)"

definition sq_check :: "'s Backend \<Rightarrow> u64 \<Rightarrow> ('s, bool) boot" where
  "sq_check b now = do {
     g \<leftarrow> dcall (bk_inGate b);
     if \<not> g then sq_fail b BE_ownership else do {
     back \<leftarrow> ogets (\<lambda>x. now < sq_last x);
     if back then sq_fail b BE_clock else do {
     omod (sq_last_update (\<lambda>_. now));
     over \<leftarrow> ogets (\<lambda>x. sq_stage x = Sg_fault \<or> sq_stage x = Sg_stopped);
     if over then ret False else do {
     late \<leftarrow> ogets (\<lambda>x. busy x \<and> time_limit (sq_action x) \<le> now - sq_started x);
     if late then sq_fail b BE_timeout
     else orM (dcall (bk_healthy b)) (sq_fail b BE_backend) } } } }"

definition step_at :: "BootAction \<Rightarrow> nat \<Rightarrow> Step" where
  "step_at a i = (if a = An_initialize then Step_of i else if a = An_tune then Step_of (3 + i)
     else if a = An_scanTune then if i \<noteq> 0 then Sp_scanTune else Sp_channel
     else if a = An_scanBegin then Sp_scanBegin else Sp_scanEnd)"

definition acquire :: "'s Backend \<Rightarrow> ('s, bool) boot" where
  "acquire b = do {
     omod (\<lambda>x. sq_upd (br_step_update (\<lambda>_. step_at (sq_action x) (sq_index x))) x);
     st \<leftarrow> ogets (\<lambda>x. br_step (sq_result x));
     ok \<leftarrow> sq_call (bk_requestLease b st);
     bad \<leftarrow> ogets (\<lambda>x. sq_error x \<noteq> BE_none);
     if \<not> ok \<or> bad then sq_fail b BE_backend else do {
     omod (sq_upd (br_stage_update (\<lambda>_. Sg_acquire)));
     ret True } }"

text \<open>\<open>active_\<close> is set while the body runs.\<close>

definition guarded :: "('s, bool) boot \<Rightarrow> ('s, bool) boot" where
  "guarded m = do { omod (sq_active_update (\<lambda>_. True)); r \<leftarrow> m; omod (sq_active_update (\<lambda>_. False)); ret r }"

definition begin_boot :: "'s Backend \<Rightarrow> u64 \<Rightarrow> ('s, bool) boot" where
  "begin_boot b now = do {
     no \<leftarrow> ogets (\<lambda>x. sq_stage x \<noteq> Sg_idle \<or> sq_active x);
     if no then ret False else do {
     c \<leftarrow> sq_check b now;
     if \<not> c then ret False else guarded (do {
       omod (sq_started_update (\<lambda>_. now));
       ok \<leftarrow> andM (sq_call (bk_pause b)) (sq_call (bk_prepare b));
       bad \<leftarrow> ogets (\<lambda>x. sq_error x \<noteq> BE_none);
       if \<not> ok \<or> bad then sq_fail b BE_backend else do {
       omod (sq_upd (br_stage_update (\<lambda>_. Sg_upload)));
       ret True } }) } }"

definition launch_refused :: "BootAction \<Rightarrow> BootResult \<Rightarrow> bool" where
  "launch_refused a r \<longleftrightarrow> a = An_initialize \<or> (a = An_tune \<and> br_scanning r) \<or>
     (a = An_scanBegin \<and> (\<not> br_fullCalibration r \<or> br_scanning r)) \<or> ((a = An_scanTune \<or> a = An_scanEnd) \<and> \<not> br_scanning r)"

definition launch :: "'s Backend \<Rightarrow> BootAction \<Rightarrow> u64 \<Rightarrow> ('s, bool) boot" where
  "launch b a now = do {
     no \<leftarrow> ogets (\<lambda>x. sq_stage x \<noteq> Sg_ready \<or> \<not> br_initialized (sq_result x) \<or> sq_active x);
     if no then ret False else do {
     refused \<leftarrow> ogets (\<lambda>x. launch_refused a (sq_result x));
     if refused then ret False else do {
     c \<leftarrow> sq_check b now;
     if \<not> c then ret False else guarded (do {
       omod (\<lambda>x. sq_upd (\<lambda>r. r\<lparr>br_tuned := False, br_fullCalibration := False\<rparr>) (x\<lparr>sq_started := now, sq_action := a, sq_index := 0\<rparr>));
       ok \<leftarrow> sq_call (bk_pause b);
       bad \<leftarrow> ogets (\<lambda>x. sq_error x \<noteq> BE_none);
       if \<not> ok \<or> bad then sq_fail b BE_backend else acquire b }) } } }"

definition step_count :: "BootAction \<Rightarrow> nat" where
  "step_count a = (if a = An_initialize then 3 else if a = An_tune then 5 else if a = An_scanTune then 2 else 1)"

definition finished_result :: "BootAction \<Rightarrow> BootResult \<Rightarrow> BootResult" where
  "finished_result a r = r\<lparr>br_initialized := True, br_tuned := a \<noteq> An_initialize, br_fullCalibration := a = An_tune \<or> a = An_scanEnd,
     br_scanning := if a = An_scanBegin then True else if a = An_scanEnd then False else br_scanning r,
     br_stage := Sg_ready, br_completion := br_completion r + 1\<rparr>"

definition go :: "Stage \<Rightarrow> ('s, bool) boot" where
  "go st = do { omod (sq_upd (br_stage_update (\<lambda>_. st))); ret True }"

definition restored :: "'s Backend \<Rightarrow> ('s, bool) boot" where
  "restored b = do {
     omod (sq_index_update (\<lambda>n. n + 1));
     more \<leftarrow> ogets (\<lambda>x. sq_index x < step_count (sq_action x));
     if more then acquire b else do {
     a \<leftarrow> ogets sq_action;
     ok \<leftarrow> sq_call (bk_finishOperation b a);
     if \<not> ok then sq_fail b BE_backend else do {
     omod (sq_upd (finished_result a));
     ret True } } }"

text \<open>One poll: failed, complete (then the continuation), or pending.\<close>

definition polled :: "'s Backend \<Rightarrow> ('s \<Rightarrow> (Progress \<times> bool) \<times> 's) \<Rightarrow> ('s, bool) boot \<Rightarrow> ('s, bool) boot" where
  "polled b f next = do {
     p \<leftarrow> sq_call f;
     if p = Pg_failed then sq_fail b BE_backend else if p = Pg_complete then next else ret True }"

text \<open>The body of the switch: whether to go on to the final test of the error.\<close>

definition service_stage :: "'s Backend \<Rightarrow> Stage \<Rightarrow> ('s, bool) boot" where
  "service_stage b st = (case st of
       Sg_upload \<Rightarrow> polled b (bk_upload b) (do {
         ok \<leftarrow> sq_call (bk_startBt b);
         if \<not> ok then sq_fail b BE_backend else go Sg_btInitialization })
     | Sg_btInitialization \<Rightarrow> polled b (bk_pollBt b) (do { omod (sq_index_update (\<lambda>_. 0)); acquire b })
     | Sg_acquire \<Rightarrow> polled b (bk_pollLease b) (go Sg_run)
     | Sg_run \<Rightarrow> do {
         s \<leftarrow> ogets (\<lambda>x. br_step (sq_result x));
         ok \<leftarrow> andM (sq_call (bk_run b s)) (sq_call (bk_finishLease b));
         if \<not> ok then sq_fail b BE_backend else go Sg_restore }
     | Sg_restore \<Rightarrow> polled b (bk_pollRestore b) (restored b)
     | Sg_idle \<Rightarrow> ret True
     | Sg_ready \<Rightarrow> ret True
     | _ \<Rightarrow> ret False)"

definition boot_service :: "'s Backend \<Rightarrow> u64 \<Rightarrow> ('s, bool) boot" where
  "boot_service b now = do {
     active \<leftarrow> ogets sq_active;
     if active then sq_fail b BE_ownership else do {
     c \<leftarrow> sq_check b now;
     if \<not> c then ret False else guarded (do {
       st \<leftarrow> ogets sq_stage;
       on \<leftarrow> service_stage b st;
       if \<not> on then ret False else do {
       bad \<leftarrow> ogets (\<lambda>x. sq_error x \<noteq> BE_none);
       if bad then do { omod (sq_upd (br_stage_update (\<lambda>_. Sg_fault))); ret False } else ret True } }) } }"

definition stop_boot :: "'s Backend \<Rightarrow> ('s, bool) boot" where
  "stop_boot b = do {
     active \<leftarrow> ogets sq_active;
     if active then sq_fail b BE_ownership else do {
     ddo (bk_failed b);
     omod (sq_upd (\<lambda>r. r\<lparr>br_tuned := False, br_fullCalibration := False, br_stage := Sg_stopped\<rparr>));
     ret True } }"

section \<open>Leases\<close>

text \<open>What a backend sees of a lease, with its answers; the log is newest first.\<close>

datatype lease_event = Lv_request Step bool | Lv_poll Progress | Lv_run Step bool | Lv_finish bool | Lv_restore Progress

definition note_call :: "('a \<Rightarrow> lease_event) \<Rightarrow> ('s \<Rightarrow> ('a \<times> bool) \<times> 's) \<Rightarrow> 's \<times> lease_event list \<Rightarrow> ('a \<times> bool) \<times> 's \<times> lease_event list" where
  "note_call e f = (\<lambda>(s, l). case f s of ((v, re), s') \<Rightarrow> ((v, re), s', e v # l))"

definition bk_logged :: "'s Backend \<Rightarrow> ('s \<times> lease_event list) Backend" where
  "bk_logged b = \<lparr>bk_inGate = log_read (bk_inGate b), bk_healthy = log_read (bk_healthy b), bk_failed = \<lambda>(s, l). (bk_failed b s, l),
     bk_pause = log_read (bk_pause b), bk_prepare = log_read (bk_prepare b), bk_requestLease = \<lambda>st. note_call (Lv_request st) (bk_requestLease b st),
     bk_upload = log_read (bk_upload b), bk_startBt = log_read (bk_startBt b), bk_pollBt = log_read (bk_pollBt b),
     bk_pollLease = note_call Lv_poll (bk_pollLease b), bk_run = \<lambda>st. note_call (Lv_run st) (bk_run b st),
     bk_finishLease = note_call Lv_finish (bk_finishLease b), bk_pollRestore = note_call Lv_restore (bk_pollRestore b),
     bk_finishOperation = \<lambda>a. log_read (bk_finishOperation b a)\<rparr>"

text \<open>The life of a lease: requested for a step, granted, used by one run of that step, returned, and free again when the traffic is
  restored. After a failed answer nothing more may happen.\<close>

datatype lease = Ls_free | Ls_asked Step | Ls_held Step | Ls_used Step | Ls_returning Step | Ls_void | Ls_bad

fun lease_step :: "lease \<Rightarrow> lease_event \<Rightarrow> lease" where
  "lease_step Ls_free (Lv_request st ok) = (if ok then Ls_asked st else Ls_void)"
| "lease_step (Ls_asked st) (Lv_poll p) = (if p = Pg_complete then Ls_held st else if p = Pg_failed then Ls_void else Ls_asked st)"
| "lease_step (Ls_held st) (Lv_run st' ok) = (if st' = st then if ok then Ls_used st else Ls_void else Ls_bad)"
| "lease_step (Ls_used st) (Lv_finish ok) = (if ok then Ls_returning st else Ls_void)"
| "lease_step (Ls_returning st) (Lv_restore p) = (if p = Pg_complete then Ls_free else if p = Pg_failed then Ls_void else Ls_returning st)"
| "lease_step _ _ = Ls_bad"

definition lease_of :: "lease_event list \<Rightarrow> lease" where
  "lease_of l = foldr (\<lambda>e s. lease_step s e) l Ls_free"

lemma lease_of_simps [simp]: "lease_of [] = Ls_free" "lease_of (e # l) = lease_step (lease_of l) e"
  by (simp_all add: lease_of_def)

text \<open>The lease each stage holds.\<close>

definition stage_lease :: "Stage \<Rightarrow> Step \<Rightarrow> lease \<Rightarrow> bool" where
  "stage_lease st s l = (case st of Sg_acquire \<Rightarrow> l = Ls_asked s | Sg_run \<Rightarrow> l = Ls_held s | Sg_restore \<Rightarrow> l = Ls_returning s
     | Sg_fault \<Rightarrow> l \<noteq> Ls_bad | Sg_stopped \<Rightarrow> l \<noteq> Ls_bad | _ \<Rightarrow> l = Ls_free)"

definition lease_fits :: "Sequence \<Rightarrow> lease_event list \<Rightarrow> bool" where
  "lease_fits x l \<longleftrightarrow> stage_lease (sq_stage x) (br_step (sq_result x)) (lease_of l)"

section \<open>Runs\<close>

text \<open>The consistency of the fields between calls.\<close>

definition fields_ok :: "Sequence \<Rightarrow> bool" where
  "fields_ok x \<longleftrightarrow> (let r = sq_result x in
     (br_stage r = Sg_fault \<longrightarrow> br_error r \<noteq> BE_none \<and> br_requiresRecovery r) \<and>
     (br_error r \<noteq> BE_none \<longrightarrow> br_stage r = Sg_fault \<or> br_stage r = Sg_stopped) \<and>
     (br_stage r = Sg_ready \<longrightarrow> br_initialized r) \<and> (br_scanning r \<longrightarrow> br_initialized r) \<and>
     (br_fullCalibration r \<longrightarrow> br_tuned r) \<and> (br_tuned r \<longrightarrow> br_initialized r \<and> \<not> busy x) \<and>
     (br_stage r = Sg_idle \<or> br_stage r = Sg_upload \<or> br_stage r = Sg_btInitialization \<longrightarrow> sq_action x = An_initialize \<and> \<not> br_initialized r) \<and>
     (br_stage r = Sg_acquire \<or> br_stage r = Sg_run \<or> br_stage r = Sg_restore \<longrightarrow>
        br_step r = step_at (sq_action x) (sq_index x) \<and> sq_index x < step_count (sq_action x) \<and>
        br_initialized r = (sq_action x \<noteq> An_initialize) \<and> (sq_action x = An_scanTune \<or> sq_action x = An_scanEnd \<longleftrightarrow> br_scanning r)))"

definition boot_inv :: "Sequence \<times> 's \<times> lease_event list \<Rightarrow> bool" where
  "boot_inv t = (case t of (x, s, l) \<Rightarrow> \<not> sq_active x \<and> fields_ok x \<and> lease_fits x l)"

text \<open>A call of the sequence; between calls the backend's own state may change.\<close>

datatype boot_call = Call_begin u64 | Call_launch BootAction u64 | Call_service u64 | Call_stop

fun boot_exec :: "'s Backend \<Rightarrow> boot_call \<Rightarrow> ('s, bool) boot" where
  "boot_exec b (Call_begin now) = begin_boot b now"
| "boot_exec b (Call_launch a now) = launch b a now"
| "boot_exec b (Call_service now) = boot_service b now"
| "boot_exec b Call_stop = stop_boot b"

inductive boot_reach :: "'s Backend \<Rightarrow> Sequence \<times> 's \<times> lease_event list \<Rightarrow> bool" for b where
  init: "boot_reach b (Sequence0, s, [])"
| call: "boot_reach b t \<Longrightarrow> run_state (boot_exec (bk_logged b) c) t = (r, t') \<Longrightarrow> boot_reach b t'"
| world: "boot_reach b (x, s, l) \<Longrightarrow> boot_reach b (x, s', l)"

lemmas boot_defs = sq_fail_def sq_call_def sq_upd_def fault_result_def

lemma wp_log_read: "wp (dcall (log_read f)) Q (x, s, l) = Q (fst (f s)) (x, snd (f s), l)"
  "wp (dcall (note_call e g)) R (x, s, l) = R (fst (g s)) (x, snd (g s), e (fst (fst (g s))) # l)"
  by (simp_all add: wp_dcall log_read_def note_call_def split_beta Let_def)

lemma bk_logged_simps [simp]:
  "bk_inGate (bk_logged b) = log_read (bk_inGate b)" "bk_healthy (bk_logged b) = log_read (bk_healthy b)"
  "bk_failed (bk_logged b) = (\<lambda>(s, l). (bk_failed b s, l))" "bk_pause (bk_logged b) = log_read (bk_pause b)"
  "bk_prepare (bk_logged b) = log_read (bk_prepare b)" "bk_requestLease (bk_logged b) st = note_call (Lv_request st) (bk_requestLease b st)"
  "bk_upload (bk_logged b) = log_read (bk_upload b)" "bk_startBt (bk_logged b) = log_read (bk_startBt b)"
  "bk_pollBt (bk_logged b) = log_read (bk_pollBt b)" "bk_pollLease (bk_logged b) = note_call Lv_poll (bk_pollLease b)"
  "bk_run (bk_logged b) st = note_call (Lv_run st) (bk_run b st)" "bk_finishLease (bk_logged b) = note_call Lv_finish (bk_finishLease b)"
  "bk_pollRestore (bk_logged b) = note_call Lv_restore (bk_pollRestore b)"
  "bk_finishOperation (bk_logged b) a = log_read (bk_finishOperation b a)"
  by (simp_all add: bk_logged_def)

lemma wp_call:
  "wp (sq_call (log_read f)) Q (x, s, l) \<longleftrightarrow>
     Q (fst (fst (f s))) (if snd (fst (f s)) then sq_upd (fault_result BE_ownership) x else x, snd (f s), l)"
  "wp (sq_call (note_call e f)) Q (x, s, l) \<longleftrightarrow>
     Q (fst (fst (f s))) (if snd (fst (f s)) then sq_upd (fault_result BE_ownership) x else x, snd (f s), e (fst (fst (f s))) # l)"
  by (simp_all add: sq_call_def wp_simps wp_log_read split_beta)

lemma wp_fail: "wp (sq_fail (bk_logged b) e) Q (x, s, l) \<longleftrightarrow> Q False (sq_upd (fault_result e) x, bk_failed b s, l)"
  by (simp add: sq_fail_def wp_simps wp_dcall)

section \<open>The invariant\<close>

text \<open>Inside a call a fault may be pending: it only has the final test to pass.\<close>

definition settled :: "bool \<Rightarrow> Sequence \<Rightarrow> lease_event list \<Rightarrow> bool" where
  "settled on x l \<longleftrightarrow> sq_active x \<and> (if on \<and> sq_error x \<noteq> BE_none then fields_ok (sq_upd (br_stage_update (\<lambda>_. Sg_fault)) x) \<and> lease_of l \<noteq> Ls_bad
     else fields_ok x \<and> lease_fits x l)"

lemma fault_fields: "e \<noteq> BE_none \<Longrightarrow> (br_scanning (sq_result x) \<longrightarrow> br_initialized (sq_result x)) \<Longrightarrow> fields_ok (sq_upd (fault_result e) x)"
  by (simp add: fields_ok_def sq_upd_def fault_result_def Let_def busy_def busy_stage_def)

lemma fault_settled:
  assumes "e \<noteq> BE_none" and "br_scanning (sq_result x) \<longrightarrow> br_initialized (sq_result x)" and "lease_of l \<noteq> Ls_bad" and "sq_active x"
  shows "settled False (sq_upd (fault_result e) x) l"
  using assms fault_fields [OF assms(1,2)] by (simp add: settled_def lease_fits_def stage_lease_def sq_upd_def fault_result_def)

text \<open>The parts of a state the calls do not touch before they act on it.\<close>

lemma acquire_settled:
  assumes "lease_of l = Ls_free" and "sq_active x" and "br_scanning (sq_result x) \<longrightarrow> br_initialized (sq_result x)"
    and "sq_index x < step_count (sq_action x)" and "br_initialized (sq_result x) = (sq_action x \<noteq> An_initialize)"
    and "sq_action x = An_scanTune \<or> sq_action x = An_scanEnd \<longleftrightarrow> br_scanning (sq_result x)"
    and "\<not> br_tuned (sq_result x)" and "\<not> br_fullCalibration (sq_result x)"
  shows "wp (acquire (bk_logged b)) (\<lambda>on (y, _, k). settled on y k \<and> settled False y k) (x, s, l)"
proof -
  let ?x = "sq_upd (br_step_update (\<lambda>_. step_at (sq_action x) (sq_index x))) x"
  have f: "settled False (sq_upd (fault_result e) y) (Lv_request st ok # l)"
    if "e \<noteq> BE_none" "y = ?x \<or> y = sq_upd (fault_result BE_ownership) ?x" for e st ok y
    by (rule fault_settled) (use that assms in \<open>auto simp: sq_upd_def fault_result_def\<close>)
  show ?thesis unfolding acquire_def wp_simps bk_logged_simps wp_call wp_fail
    using assms f by (auto simp: sq_upd_def settled_def fields_ok_def Let_def busy_def busy_stage_def lease_fits_def stage_lease_def fault_result_def)
qed

lemma settled_on: "wp m (\<lambda>on (y, _, k). settled on y k \<and> settled False y k) t \<Longrightarrow> wp m (\<lambda>on (y, _, k). settled on y k) t"
  "wp m (\<lambda>on (y, _, k). settled on y k \<and> settled False y k) t \<Longrightarrow> wp m (\<lambda>_ (y, _, k). settled False y k) t"
  by (erule wp_mono, auto)+

lemmas boot_inv_simps = sq_upd_def settled_def fields_ok_def Let_def busy_def busy_stage_def lease_fits_def stage_lease_def fault_result_def

lemma restored_settled:
  assumes "fields_ok x" and "sq_active x" and "sq_error x = BE_none" and "sq_stage x = Sg_restore" and "lease_of l = Ls_free"
    and "y = x \<or> y = sq_upd (fault_result BE_ownership) x"
  shows "wp (restored (bk_logged b)) (\<lambda>on (y, _, k). settled on y k) (y, z, l)"
proof -
  let ?y = "sq_index_update (\<lambda>n. n + 1) y"
  have more: "wp (acquire (bk_logged b)) (\<lambda>on (y, _, k). settled on y k) (?y, z, l)" if "sq_index ?y < step_count (sq_action ?y)"
    by (rule settled_on(1), rule acquire_settled) (use that assms in \<open>auto simp: boot_inv_simps\<close>)
  have finish: "wp (do { ok \<leftarrow> sq_call (bk_finishOperation (bk_logged b) (sq_action ?y));
      if \<not> ok then sq_fail (bk_logged b) BE_backend else do { omod (sq_upd (finished_result (sq_action ?y))); ret True } })
      (\<lambda>on (y, _, k). settled on y k) (?y, z, l)"
    unfolding wp_simps bk_logged_simps wp_call wp_fail
    using assms by (auto simp: boot_inv_simps finished_result_def)
  show ?thesis unfolding restored_def wp_rules(2) wp_obj wp_rules(3)
    using more finish [unfolded wp_rules(2) wp_obj wp_rules(3)] by (cases "sq_index ?y < step_count (sq_action ?y)") (simp_all only: if_True if_False)
qed

lemma service_stage_settled:
  assumes "fields_ok x" and "lease_fits x l" and "sq_active x" and "sq_error x = BE_none"
  shows "wp (service_stage (bk_logged b) (sq_stage x)) (\<lambda>on (y, _, k). settled on y k) (x, s, l)"
proof (cases "sq_stage x")
  case Sg_upload
  then show ?thesis using assms unfolding service_stage_def
    by (simp add: polled_def go_def wp_simps wp_call wp_fail) (auto simp: boot_inv_simps)
next
  case Sg_btInitialization
  have "wp (do { omod (sq_index_update (\<lambda>_. 0)); acquire (bk_logged b) }) (\<lambda>on (y, _, k). settled on y k) (y, z, l)"
    if "y = x \<or> y = sq_upd (fault_result BE_ownership) x" for y z
    unfolding wp_simps by (rule settled_on(1), rule acquire_settled) (use that assms Sg_btInitialization in \<open>auto simp: boot_inv_simps step_count_def\<close>)
  moreover have "settled True x l" "settled True (sq_upd (fault_result BE_ownership) x) l"
    "settled False (sq_upd (fault_result BE_backend) x) l" "settled False (sq_upd (fault_result BE_backend) (sq_upd (fault_result BE_ownership) x)) l"
    using assms Sg_btInitialization by (auto simp: boot_inv_simps)
  ultimately show ?thesis using Sg_btInitialization unfolding service_stage_def
    by (simp add: polled_def wp_rules wp_call wp_fail)
next
  case Sg_acquire
  then show ?thesis using assms unfolding service_stage_def
    by (simp add: polled_def go_def wp_simps wp_call wp_fail) (auto simp: boot_inv_simps)
next
  case Sg_run
  then show ?thesis using assms unfolding service_stage_def
    by (simp add: polled_def go_def wp_simps wp_call wp_fail) (auto simp: boot_inv_simps)
next
  case Sg_restore
  have free: "lease_of l = Ls_returning (br_step (sq_result x))" using assms(2) Sg_restore by (simp add: lease_fits_def stage_lease_def)
  have "wp (restored (bk_logged b)) (\<lambda>on (y, _, k). settled on y k) (y, z, Lv_restore Pg_complete # l)"
    if "y = x \<or> y = sq_upd (fault_result BE_ownership) x" for y z
    by (rule restored_settled [OF assms(1,3,4) Sg_restore _ that]) (simp add: free)
  moreover have "settled True x (Lv_restore Pg_pending # l)" "settled True (sq_upd (fault_result BE_ownership) x) (Lv_restore Pg_pending # l)"
    "settled False (sq_upd (fault_result BE_backend) x) (Lv_restore Pg_failed # l)"
    "settled False (sq_upd (fault_result BE_backend) (sq_upd (fault_result BE_ownership) x)) (Lv_restore Pg_failed # l)"
    using assms Sg_restore free by (auto simp: boot_inv_simps)
  ultimately show ?thesis using Sg_restore unfolding service_stage_def
    by (cases "fst (fst (bk_pollRestore b s))") (simp_all add: polled_def wp_rules wp_call wp_fail)
qed (use assms in \<open>auto simp: service_stage_def wp_simps settled_def\<close>)

lemma last_same: "fields_ok (x\<lparr>sq_last := n\<rparr>) = fields_ok x" "lease_fits (x\<lparr>sq_last := n\<rparr>) l = lease_fits x l"
  "fields_ok (sq_active_update f x) = fields_ok x" "lease_fits (sq_active_update f x) l = lease_fits x l"
  by (simp_all add: fields_ok_def busy_def lease_fits_def)

lemma guarded_inv:
  fixes m :: "('s \<times> lease_event list, bool) boot"
  assumes "wp m (\<lambda>on (y, _, k). settled on y k) (x\<lparr>sq_active := True\<rparr>, s, l)"
  shows "wp (guarded (do { on \<leftarrow> m; if \<not> on then ret False else do {
       bad \<leftarrow> ogets (\<lambda>x. sq_error x \<noteq> BE_none);
       if bad then do { omod (sq_upd (br_stage_update (\<lambda>_. Sg_fault))); ret False } else ret True } })) (\<lambda>_. boot_inv) (x, s, l)"
proof -
  have "wp (if \<not> on then ret False else do { bad \<leftarrow> ogets (\<lambda>x. sq_error x \<noteq> BE_none);
       if bad then do { omod (sq_upd (br_stage_update (\<lambda>_. Sg_fault))); ret False } else ret True })
       (\<lambda>r t. boot_inv (sq_active_update (\<lambda>_. False) (fst t), snd t)) (y, z, k)" if "settled on y k" for on y k and z :: 's
    using that last_same(3,4) [of _ "sq_upd (br_stage_update (\<lambda>_. Sg_fault)) y"]
    by (cases on; cases "sq_error y = BE_none") (simp_all add: wp_simps boot_inv_def settled_def last_same, simp add: lease_fits_def stage_lease_def sq_upd_def)
  note tail = this
  show ?thesis unfolding guarded_def wp_rules(2) wp_obj
  proof (rule wp_mono)
    show "wp m (\<lambda>on (y, _, k). settled on y k) (sq_active_update (\<lambda>_. True) x, s, l)" by (rule assms)
  next
    fix on and t :: "Sequence \<times> 's \<times> lease_event list"
    assume "case t of (y, _, k) \<Rightarrow> settled on y k"
    then obtain y z k where t: "t = (y, z, k)" "settled on y k" by (cases t) auto
    show "wp (if \<not> on then ret False else do { bad \<leftarrow> ogets (\<lambda>x. sq_error x \<noteq> BE_none);
       if bad then do { omod (sq_upd (br_stage_update (\<lambda>_. Sg_fault))); ret False } else ret True })
       (\<lambda>r. wp (omod (sq_active_update (\<lambda>_. False))) (\<lambda>_. wp (ret r) (\<lambda>_. boot_inv))) t"
      unfolding t(1) by (rule wp_mono [OF tail [OF t(2)]]) (auto simp: wp_simps)
  qed
qed


lemma check_inv:
  fixes b :: "'s Backend"
  assumes "boot_inv (x, s, l)"
  shows "wp (sq_check (bk_logged b) now) (\<lambda>ok (y, z, k). k = l \<and> (if ok then y = x\<lparr>sq_last := now\<rparr> \<and> sq_error y = BE_none else boot_inv (y, z, k))) (x, s, l)"
proof -
  have f: "boot_inv (sq_upd (fault_result e) y, z, l)" if "e \<noteq> BE_none" "y = x \<or> y = x\<lparr>sq_last := now\<rparr>" for e y and z :: 's
    using assms that by (cases "sq_stage x") (auto simp: boot_inv_def boot_inv_simps)
  have n: "boot_inv (x\<lparr>sq_last := now\<rparr>, z, l)" for z :: 's using assms by (simp add: boot_inv_def last_same)
  have e: "sq_error x = BE_none" if "sq_stage x \<noteq> Sg_fault" "sq_stage x \<noteq> Sg_stopped"
    using assms that by (auto simp: boot_inv_def fields_ok_def Let_def)
  show ?thesis unfolding sq_check_def wp_simps bk_logged_simps wp_log_read using f n e by (auto simp: wp_fail)
qed

lemma guarded_settled:
  fixes m :: "('s \<times> lease_event list, bool) boot"
  assumes "wp m (\<lambda>_ (y, _, k). settled False y k) (x\<lparr>sq_active := True\<rparr>, s, l)"
  shows "wp (guarded m) (\<lambda>_. boot_inv) (x, s, l)"
  unfolding guarded_def wp_rules(2) wp_obj
  by (rule wp_mono [OF assms]) (auto simp: wp_simps boot_inv_def settled_def last_same)

lemma checked_inv:
  fixes b :: "'s Backend"
  assumes "boot_inv (x, s, l)" and "\<And>z. sq_error x = BE_none \<Longrightarrow> wp m (\<lambda>_. boot_inv) (x\<lparr>sq_last := now\<rparr>, z, l)"
  shows "wp (do { c \<leftarrow> sq_check (bk_logged b) now; if \<not> c then ret False else m }) (\<lambda>_. boot_inv) (x, s, l)"
  unfolding wp_rules(2) by (rule wp_mono [OF check_inv [OF assms(1)]]) (auto simp: wp_rules(1) assms(2))

lemma service_inv: "boot_inv (x, s, l) \<Longrightarrow> wp (boot_service (bk_logged b) now) (\<lambda>_. boot_inv) (x, s, l)"
proof -
  assume i: "boot_inv (x, s, l)"
  have body: "wp (guarded (do { st \<leftarrow> ogets sq_stage; on \<leftarrow> service_stage (bk_logged b) st; if \<not> on then ret False else do {
       bad \<leftarrow> ogets (\<lambda>x. sq_error x \<noteq> BE_none);
       if bad then do { omod (sq_upd (br_stage_update (\<lambda>_. Sg_fault))); ret False } else ret True } })) (\<lambda>_. boot_inv) (x\<lparr>sq_last := now\<rparr>, z, l)"
    if "sq_error x = BE_none" for z
  proof -
    have "wp (do { st \<leftarrow> ogets sq_stage; service_stage (bk_logged b) st }) (\<lambda>on (y, _, k). settled on y k) (x\<lparr>sq_last := now, sq_active := True\<rparr>, z, l)"
      unfolding wp_rules(2) wp_obj
      by (rule service_stage_settled) (use i that in \<open>simp_all add: boot_inv_def last_same\<close>)
    from guarded_inv [OF this] show ?thesis by simp
  qed
  have idle: "sq_active x = False" using i by (simp add: boot_inv_def)
  show ?thesis unfolding boot_service_def wp_rules(2) [of "ogets sq_active"] wp_obj idle if_False
    by (rule checked_inv [OF i body])
qed

lemma begin_inv: "boot_inv (x, s, l) \<Longrightarrow> wp (begin_boot (bk_logged b) now) (\<lambda>_. boot_inv) (x, s, l)"
proof -
  assume i: "boot_inv (x, s, l)"
  have body: "wp (guarded (do {
       omod (sq_started_update (\<lambda>_. now));
       ok \<leftarrow> andM (sq_call (bk_pause (bk_logged b))) (sq_call (bk_prepare (bk_logged b)));
       bad \<leftarrow> ogets (\<lambda>x. sq_error x \<noteq> BE_none);
       if \<not> ok \<or> bad then sq_fail (bk_logged b) BE_backend else do {
       omod (sq_upd (br_stage_update (\<lambda>_. Sg_upload)));
       ret True } })) (\<lambda>_. boot_inv) (x\<lparr>sq_last := now\<rparr>, z, l)" if "sq_stage x = Sg_idle" for z
    by (rule guarded_settled) (use i that in \<open>simp add: wp_simps wp_call wp_fail\<close>, auto simp: boot_inv_simps boot_inv_def)
  show ?thesis unfolding begin_boot_def wp_rules(2) [of "ogets g" for g] wp_obj wp_rules(3) [of "c \<or> d" for c d]
    using checked_inv [OF i body] i by (auto simp: wp_rules(1))
qed

lemma launch_inv: "boot_inv (x, s, l) \<Longrightarrow> wp (launch (bk_logged b) a now) (\<lambda>_. boot_inv) (x, s, l)"
proof -
  assume i: "boot_inv (x, s, l)"
  let ?x = "sq_upd (\<lambda>r. r\<lparr>br_tuned := False, br_fullCalibration := False\<rparr>)
    (x\<lparr>sq_last := now, sq_active := True, sq_started := now, sq_action := a, sq_index := 0\<rparr>)"
  have body: "wp (guarded (do {
       omod (\<lambda>x. sq_upd (\<lambda>r. r\<lparr>br_tuned := False, br_fullCalibration := False\<rparr>) (x\<lparr>sq_started := now, sq_action := a, sq_index := 0\<rparr>));
       ok \<leftarrow> sq_call (bk_pause (bk_logged b));
       bad \<leftarrow> ogets (\<lambda>x. sq_error x \<noteq> BE_none);
       if \<not> ok \<or> bad then sq_fail (bk_logged b) BE_backend else acquire (bk_logged b) })) (\<lambda>_. boot_inv) (x\<lparr>sq_last := now\<rparr>, z, l)"
    if st: "sq_stage x = Sg_ready" and "br_initialized (sq_result x)" "\<not> launch_refused a (sq_result x)" for z
  proof (rule guarded_settled)
    have acq: "wp (acquire (bk_logged b)) (\<lambda>_ (y, _, k). settled False y k) (?x, w, l)" for w
      by (rule settled_on(2), rule acquire_settled)
        (use i that in \<open>cases a; auto simp: boot_inv_simps boot_inv_def launch_refused_def step_count_def\<close>)+
    have "settled False (sq_upd (fault_result BE_backend) y) l" if "y = ?x \<or> y = sq_upd (fault_result BE_ownership) ?x" for y
      by (rule fault_settled) (use that i st in \<open>auto simp: boot_inv_def boot_inv_simps\<close>)
    then show "wp (do {
       omod (\<lambda>x. sq_upd (\<lambda>r. r\<lparr>br_tuned := False, br_fullCalibration := False\<rparr>) (x\<lparr>sq_started := now, sq_action := a, sq_index := 0\<rparr>));
       ok \<leftarrow> sq_call (bk_pause (bk_logged b));
       bad \<leftarrow> ogets (\<lambda>x. sq_error x \<noteq> BE_none);
       if \<not> ok \<or> bad then sq_fail (bk_logged b) BE_backend else acquire (bk_logged b) }) (\<lambda>_ (y, _, k). settled False y k)
       (x\<lparr>sq_last := now, sq_active := True\<rparr>, z, l)"
      using acq unfolding wp_rules(2) wp_obj bk_logged_simps wp_call wp_rules(3) wp_fail by (auto simp: sq_upd_def fault_result_def)
  qed
  show ?thesis unfolding launch_def wp_rules(2) [of "ogets g" for g] wp_obj wp_rules(3) [of "c \<or> d" for c d] wp_rules(3) [of "launch_refused a r" for r]
    using checked_inv [OF i body] i by (auto simp: wp_rules(1))
qed

lemma stop_inv: "boot_inv (x, s, l) \<Longrightarrow> wp (stop_boot (bk_logged b)) (\<lambda>_. boot_inv) (x, s, l)"
  unfolding stop_boot_def by (cases "sq_stage x") (auto simp: wp_simps wp_dcall boot_inv_def boot_inv_simps)

lemma boot_exec_inv: "boot_inv t \<Longrightarrow> wp (boot_exec (bk_logged b) c) (\<lambda>_. boot_inv) t"
  by (cases t, cases c) (simp_all add: service_inv begin_inv launch_inv stop_inv)

lemma boot_reach_inv: "boot_reach b t \<Longrightarrow> boot_inv t"
proof (induction rule: boot_reach.induct)
  case (init s)
  then show ?case by (simp add: boot_inv_def Sequence0_def boot_inv_simps)
next
  case (call t c r t')
  from boot_exec_inv [OF call.IH, of b c] show ?case using call.hyps(2) by (simp add: wp_def)
next
  case (world x s l s')
  then show ?case by (simp add: boot_inv_def)
qed

section \<open>Completion\<close>

text \<open>A backend that always succeeds at once and never calls back.\<close>

definition prompt :: "'s Backend \<Rightarrow> bool" where
  "prompt b \<longleftrightarrow> (\<forall>s st a. fst (bk_inGate b s) \<and> fst (bk_healthy b s) \<and> fst (bk_pause b s) = (True, False) \<and> fst (bk_prepare b s) = (True, False) \<and>
     fst (bk_requestLease b st s) = (True, False) \<and> fst (bk_upload b s) = (Pg_complete, False) \<and> fst (bk_startBt b s) = (True, False) \<and>
     fst (bk_pollBt b s) = (Pg_complete, False) \<and> fst (bk_pollLease b s) = (Pg_complete, False) \<and> fst (bk_run b st s) = (True, False) \<and>
     fst (bk_finishLease b s) = (True, False) \<and> fst (bk_pollRestore b s) = (Pg_complete, False) \<and> fst (bk_finishOperation b a s) = (True, False))"

text \<open>The services an operation still needs.\<close>

definition remaining :: "Sequence \<Rightarrow> nat" where
  "remaining x = (let n = step_count (sq_action x); k = n - sq_index x in case sq_stage x of Sg_upload \<Rightarrow> 3 * n + 2 | Sg_btInitialization \<Rightarrow> 3 * n + 1
     | Sg_acquire \<Rightarrow> 3 * k | Sg_run \<Rightarrow> 3 * k - 1 | Sg_restore \<Rightarrow> 3 * k - 2 | _ \<Rightarrow> 0)"

definition live :: "Sequence \<Rightarrow> bool" where
  "live x \<longleftrightarrow> \<not> sq_active x \<and> sq_error x = BE_none \<and> busy x \<and>
     (sq_stage x = Sg_acquire \<or> sq_stage x = Sg_run \<or> sq_stage x = Sg_restore \<longrightarrow> sq_index x < step_count (sq_action x))"

definition finished :: "BootAction \<Rightarrow> u64 \<Rightarrow> bool \<Rightarrow> Sequence \<Rightarrow> bool" where
  "finished a n scan x \<longleftrightarrow> \<not> sq_active x \<and> sq_stage x = Sg_ready \<and>
     br_scanning (sq_result x) = (if a = An_scanBegin then True else if a = An_scanEnd then False else scan) \<and> sq_error x = BE_none \<and> br_initialized (sq_result x) \<and> br_tuned (sq_result x) = (a \<noteq> An_initialize) \<and>
     br_fullCalibration (sq_result x) = (a = An_tune \<or> a = An_scanEnd) \<and> br_completion (sq_result x) = n"

lemma prompt_call:
  assumes "fst (f s) = (v, False)"
  shows "wp (sq_call f) Q (x, s) \<longleftrightarrow> Q v (x, snd (f s))"
  using assms by (simp add: sq_call_def wp_simps wp_dcall)

text \<open>One service of a prompt backend takes one step.\<close>

definition advanced :: "Sequence \<Rightarrow> Sequence \<Rightarrow> bool" where
  "advanced x y \<longleftrightarrow> sq_action y = sq_action x \<and> sq_started y = sq_started x \<and>
     (if remaining x = 1 then finished (sq_action x) (br_completion (sq_result x) + 1) (br_scanning (sq_result x)) y
      else live y \<and> br_scanning (sq_result y) = br_scanning (sq_result x) \<and> remaining y + 1 = remaining x \<and> br_completion (sq_result y) = br_completion (sq_result x))"

lemma prompt_calls:
  assumes "prompt b"
  shows "wp (sq_call (bk_requestLease b st)) Q (x, s) \<longleftrightarrow> Q True (x, snd (bk_requestLease b st s))"
    "wp (sq_call (bk_upload b)) P (x, s) \<longleftrightarrow> P Pg_complete (x, snd (bk_upload b s))"
    "wp (sq_call (bk_startBt b)) Q (x, s) \<longleftrightarrow> Q True (x, snd (bk_startBt b s))"
    "wp (sq_call (bk_pollBt b)) P (x, s) \<longleftrightarrow> P Pg_complete (x, snd (bk_pollBt b s))"
    "wp (sq_call (bk_pollLease b)) P (x, s) \<longleftrightarrow> P Pg_complete (x, snd (bk_pollLease b s))"
    "wp (sq_call (bk_run b st)) Q (x, s) \<longleftrightarrow> Q True (x, snd (bk_run b st s))"
    "wp (sq_call (bk_finishLease b)) Q (x, s) \<longleftrightarrow> Q True (x, snd (bk_finishLease b s))"
    "wp (sq_call (bk_pollRestore b)) P (x, s) \<longleftrightarrow> P Pg_complete (x, snd (bk_pollRestore b s))"
    "wp (sq_call (bk_finishOperation b a)) Q (x, s) \<longleftrightarrow> Q True (x, snd (bk_finishOperation b a s))"
    "wp (sq_call (bk_pause b)) Q (x, s) \<longleftrightarrow> Q True (x, snd (bk_pause b s))"
    "wp (sq_call (bk_prepare b)) Q (x, s) \<longleftrightarrow> Q True (x, snd (bk_prepare b s))"
  using assms by (simp_all add: prompt_def prompt_call)

lemma prompt_acquire:
  assumes "prompt b" and "sq_error x = BE_none"
  shows "wp (acquire b) Q (x, s) \<longleftrightarrow> (let st = step_at (sq_action x) (sq_index x) in
    Q True (sq_upd (\<lambda>r. r\<lparr>br_step := st, br_stage := Sg_acquire\<rparr>) x, snd (bk_requestLease b st s)))"
  using assms by (simp add: acquire_def wp_simps prompt_calls sq_upd_def Let_def)

lemma service_progress:
  assumes "prompt b" and "live x" and "sq_last x \<le> now" and "now - sq_started x < time_limit (sq_action x)"
  shows "wp (boot_service b now) (\<lambda>_ (y, _). advanced x y \<and> sq_last y = now) (x, s)"
proof -
  have c: "wp (sq_check b now) Q (x, s) = Q True (x\<lparr>sq_last := now\<rparr>, snd (bk_healthy b (snd (bk_inGate b s))))" for Q
    using assms by (auto simp: sq_check_def wp_simps wp_dcall prompt_def live_def busy_def busy_stage_def not_le)
  have l: "\<not> sq_active x" "sq_error x = BE_none" using assms(2) by (simp_all add: live_def)
  note step = service_stage_def polled_def go_def restored_def wp_simps prompt_calls [OF assms(1)] prompt_acquire [OF assms(1)] Let_def sq_upd_def
  show ?thesis unfolding boot_service_def guarded_def wp_rules(2) wp_obj
    using assms(2) by (cases "sq_stage x")
      (simp_all add: l wp_rules c wp_obj step,
       auto simp: advanced_def remaining_def live_def finished_def finished_result_def busy_def busy_stage_def step_count_def Let_def)
qed

text \<open>A sequence of services.\<close>

definition services :: "'s Backend \<Rightarrow> u64 list \<Rightarrow> Sequence \<times> 's \<Rightarrow> Sequence \<times> 's" where
  "services b ts t = fold (\<lambda>now t. snd (run_state (boot_service b now) t)) ts t"

lemma services_finish:
  assumes "prompt b"
  shows "live x \<Longrightarrow> sorted ts \<Longrightarrow> list_all (\<lambda>now. sq_last x \<le> now \<and> now - sq_started x < time_limit (sq_action x)) ts \<Longrightarrow> length ts = remaining x \<Longrightarrow>
    finished (sq_action x) (br_completion (sq_result x) + 1) (br_scanning (sq_result x)) (fst (services b ts (x, s))) \<and>
    sq_last (fst (services b ts (x, s))) = last ts"
proof (induction ts arbitrary: x s)
  case Nil
  then have "remaining x \<noteq> 0" by (auto simp: live_def remaining_def busy_def busy_stage_def Let_def split: Stage.splits)
  then show ?case using Nil by simp
next
  case (Cons now ts)
  obtain y z where y: "snd (run_state (boot_service b now) (x, s)) = (y, z)" by fastforce
  have a: "advanced x y" "sq_last y = now"
    using service_progress [OF assms, of x now s] Cons.prems y by (simp_all add: wp_def split_beta)
  show ?case
  proof (cases "ts = []")
    case True
    then show ?thesis using a Cons.prems(4) y by (simp add: services_def advanced_def)
  next
    case False
    then have "remaining x \<noteq> 1" using Cons.prems(4) by auto
    then have "live y" "remaining y + 1 = remaining x" "sq_action y = sq_action x" "sq_started y = sq_started x"
      "br_completion (sq_result y) = br_completion (sq_result x)" "br_scanning (sq_result y) = br_scanning (sq_result x)" using a(1) by (simp_all add: advanced_def)
    then show ?thesis using Cons.IH [of y z] Cons.prems a(2) y False by (auto simp: services_def list_all_iff)
  qed
qed

lemma prompt_check:
  assumes "prompt b" and "sq_last x \<le> now" and "\<not> busy x" and "sq_stage x \<noteq> Sg_fault" and "sq_stage x \<noteq> Sg_stopped"
  shows "wp (sq_check b now) Q (x, s) \<longleftrightarrow> Q True (x\<lparr>sq_last := now\<rparr>, snd (bk_healthy b (snd (bk_inGate b s))))"
  using assms by (auto simp: sq_check_def wp_simps wp_dcall prompt_def busy_def not_le)

lemma begin_live:
  assumes "prompt b"
  shows "wp (begin_boot b now) (\<lambda>ok (y, _). ok \<and> live y \<and> remaining y = 11 \<and> sq_last y = now \<and> sq_started y = now \<and> sq_action y = An_initialize \<and>
    br_completion (sq_result y) = 0 \<and> \<not> br_scanning (sq_result y)) (Sequence0, s)"
proof -
  have "sq_last Sequence0 \<le> now" "\<not> busy Sequence0" "sq_stage Sequence0 \<noteq> Sg_fault" "sq_stage Sequence0 \<noteq> Sg_stopped"
    by (simp_all add: Sequence0_def busy_def busy_stage_def)
  from prompt_check [OF assms this] show ?thesis
    by (simp add: begin_boot_def guarded_def wp_simps prompt_calls [OF assms])
      (simp add: Sequence0_def sq_upd_def live_def remaining_def busy_def busy_stage_def step_count_def Let_def)
qed

lemma launch_live:
  assumes "prompt b" and "finished An_initialize n False x" and "sq_last x \<le> now"
  shows "wp (launch b An_tune now) (\<lambda>ok (y, _). ok \<and> live y \<and> remaining y = 15 \<and> sq_last y = now \<and> sq_started y = now \<and> sq_action y = An_tune \<and>
    br_completion (sq_result y) = n \<and> \<not> br_scanning (sq_result y)) (x, s)"
proof -
  have "\<not> busy x" "sq_stage x \<noteq> Sg_fault" "sq_stage x \<noteq> Sg_stopped" using assms(2) by (simp_all add: finished_def busy_def busy_stage_def)
  from prompt_check [OF assms(1,3) this] assms(2) show ?thesis
    by (simp add: launch_def guarded_def wp_simps prompt_calls [OF assms(1)] prompt_acquire [OF assms(1)] launch_refused_def finished_def sq_upd_def Let_def)
      (simp add: live_def remaining_def busy_def busy_stage_def step_count_def Let_def)
qed

section \<open>Properties\<close>

text \<open>C30: In every run, over any backend and whatever it answers, the calibration bodies follow the lease
  protocol: a body runs once, for the step its lease was requested for, after the lease was granted; the lease is finished right after it, and
  the next one is requested only when the traffic of the last was restored. After a failed answer there is no further lease operation.\<close>

theorem calibration_under_lease:
  assumes "boot_reach b (x, s, l)"
  shows "lease_of l \<noteq> Ls_bad \<and> (sq_stage x = Sg_run \<longrightarrow> lease_of l = Ls_held (step_at (sq_action x) (sq_index x))) \<and>
    (\<not> busy x \<and> sq_error x = BE_none \<and> sq_stage x \<noteq> Sg_stopped \<longrightarrow> lease_of l = Ls_free)"
  using boot_reach_inv [OF assms] by (cases "sq_stage x") (auto simp: boot_inv_def boot_inv_simps)

text \<open>In every state between calls, a fault is recorded with its first error and asks for recovery; a recorded error
  leaves no stage but fault and stopped; the radio is reported tuned only when it was initialized and nothing is under way, fully calibrated only
  when it is tuned, and scanning only when it was initialized.\<close>

theorem boot_flags_consistent:
  assumes "boot_reach b (x, s, l)"
  shows "\<not> sq_active x \<and> (sq_stage x = Sg_fault \<longrightarrow> sq_error x \<noteq> BE_none \<and> br_requiresRecovery (sq_result x)) \<and>
    (sq_error x \<noteq> BE_none \<longrightarrow> sq_stage x = Sg_fault \<or> sq_stage x = Sg_stopped) \<and>
    (br_tuned (sq_result x) \<longrightarrow> br_initialized (sq_result x) \<and> \<not> busy x) \<and>
    (br_fullCalibration (sq_result x) \<longrightarrow> br_tuned (sq_result x)) \<and> (br_scanning (sq_result x) \<longrightarrow> br_initialized (sq_result x))"
  using boot_reach_inv [OF assms] by (simp add: boot_inv_def fields_ok_def Let_def)

text \<open>C31: With a backend that always succeeds, booting and then tuning complete: after the boot was begun, eleven services within
  its ten seconds end in the ready stage, initialized; after the tuning was launched, fifteen services within its ten seconds end in the
  ready stage, tuned and fully calibrated, as the second completed operation.\<close>

theorem boot_completes:
  assumes "prompt b" and "sorted (t0 # ts)" and "length ts = 11" and "list_all (\<lambda>now. now - t0 < 10000000) ts"
    and "sorted (last ts # t1 # us)" and "length us = 15" and "list_all (\<lambda>now. now - t1 < 10000000) us"
    and "run_state (begin_boot b t0) (Sequence0, s) = (began, t)"
    and "run_state (launch b An_tune t1) (services b ts t) = (launched, u)"
  shows "began \<and> finished An_initialize 1 False (fst (services b ts t)) \<and> launched \<and> finished An_tune 2 False (fst (services b us u))"
proof -
  obtain x z where t: "t = (x, z)" by fastforce
  have x: "began" "live x" "remaining x = 11" "sq_last x = t0" "sq_started x = t0" "sq_action x = An_initialize"
    "br_completion (sq_result x) = 0" "\<not> br_scanning (sq_result x)"
    using begin_live [OF assms(1), of t0 s] assms(8) t by (simp_all add: wp_def)
  have "finished An_initialize 1 False (fst (services b ts t)) \<and> sq_last (fst (services b ts t)) = last ts"
    using services_finish [OF assms(1) x(2), of ts z] assms(2-4) x t by (auto simp: list_all_iff time_limit_def)
  then have f: "finished An_initialize 1 False (fst (services b ts t))" "sq_last (fst (services b ts t)) = last ts" by blast+
  obtain y w where u: "u = (y, w)" by fastforce
  have "sq_last (fst (services b ts t)) \<le> t1" using f(2) assms(5) by simp
  from launch_live [OF assms(1) f(1) this, of "snd (services b ts t)"]
  have y: "launched" "live y" "remaining y = 15" "sq_last y = t1" "sq_started y = t1" "sq_action y = An_tune"
    "br_completion (sq_result y) = 1" "\<not> br_scanning (sq_result y)"
    using assms(9) u by (simp_all add: wp_def)
  have "finished An_tune 2 False (fst (services b us u))"
    using services_finish [OF assms(1) y(2), of us w] assms(5-7) y u by (auto simp: list_all_iff time_limit_def)
  then show ?thesis using x(1) f(1) y(1) by blast
qed

text \<open>A backend without a state of its own.\<close>

definition easy :: "unit Backend" where
  "easy = \<lparr>bk_inGate = \<lambda>s. (True, s), bk_healthy = \<lambda>s. (True, s), bk_failed = \<lambda>s. s, bk_pause = \<lambda>s. ((True, False), s), bk_prepare = \<lambda>s. ((True, False), s),
     bk_requestLease = \<lambda>st s. ((True, False), s), bk_upload = \<lambda>s. ((Pg_complete, False), s), bk_startBt = \<lambda>s. ((True, False), s),
     bk_pollBt = \<lambda>s. ((Pg_complete, False), s), bk_pollLease = \<lambda>s. ((Pg_complete, False), s), bk_run = \<lambda>st s. ((True, False), s),
     bk_finishLease = \<lambda>s. ((True, False), s), bk_pollRestore = \<lambda>s. ((Pg_complete, False), s), bk_finishOperation = \<lambda>a s. ((True, False), s)\<rparr>"

theorem boot_completes_witness:
  "\<exists>t u. run_state (begin_boot easy 5) (Sequence0, ()) = (True, t) \<and> run_state (launch easy An_tune 30) (services easy [10,11,12,13,14,15,16,17,18,19,20] t) = (True, u) \<and>
     br_fullCalibration (sq_result (fst (services easy [31,32,33,34,35,36,37,38,39,40,41,42,43,44,45] u)))"
proof -
  let ?ts = "[10,11,12,13,14,15,16,17,18,19,20] :: u64 list" and ?us = "[31,32,33,34,35,36,37,38,39,40,41,42,43,44,45] :: u64 list"
  obtain began t where b: "run_state (begin_boot easy 5) (Sequence0, ()) = (began, t)" by (metis surj_pair)
  obtain launched u where l: "run_state (launch easy An_tune 30) (services easy ?ts t) = (launched, u)" by (metis surj_pair)
  have "prompt easy" by (simp add: prompt_def easy_def)
  then have "began \<and> finished An_initialize 1 False (fst (services easy ?ts t)) \<and> launched \<and> finished An_tune 2 False (fst (services easy ?us u))"
    by (rule boot_completes [OF _ _ _ _ _ _ _ b l]) (simp_all add: word_le_nat_alt word_less_nat_alt)
  then have "began" "launched" "br_fullCalibration (sq_result (fst (services easy ?us u)))" by (simp_all add: finished_def)
  then show ?thesis using b l by (intro exI [of _ t] exI [of _ u] conjI) (simp_all only: simp_thms)
qed

lemma easy_booted:
  assumes "run_state (begin_boot (bk_logged easy) 5) (Sequence0, (), []) = (r, x, s, l)"
  shows "boot_reach easy (x, s, l)"
  by (rule boot_reach.call [where c = "Call_begin 5", OF boot_reach.init]) (simp add: assms)

theorem calibration_under_lease_witness:
  "\<exists>r x s l. run_state (begin_boot (bk_logged easy) 5) (Sequence0, (), []) = (r, x, s, l) \<and> lease_of l \<noteq> Ls_bad"
proof -
  obtain r x s l where run: "run_state (begin_boot (bk_logged easy) 5) (Sequence0, (), []) = (r, x, s, l)" by (metis prod_cases4)
  from calibration_under_lease [OF easy_booted [OF run]] run show ?thesis by blast
qed

theorem boot_flags_consistent_witness:
  "\<exists>r x s l. run_state (begin_boot (bk_logged easy) 5) (Sequence0, (), []) = (r, x, s, l) \<and> \<not> sq_active x"
proof -
  obtain r x s l where run: "run_state (begin_boot (bk_logged easy) 5) (Sequence0, (), []) = (r, x, s, l)" by (metis prod_cases4)
  from boot_flags_consistent [OF easy_booted [OF run]] run show ?thesis by blast
qed

text \<open>A backend that calls back while it finishes an operation leaves the radio reported tuned in the fault stage, although every fault clears that report.\<close>

lemma reentered_finish_keeps_tuned:
  assumes "run_state (boot_service (easy\<lparr>bk_finishOperation := \<lambda>a s. ((True, True), s)\<rparr>) 1)
    (Sequence0\<lparr>sq_action := An_scanEnd, sq_result := (sq_result Sequence0)\<lparr>br_stage := Sg_restore, br_initialized := True\<rparr>\<rparr>, ()) = (r, x, s)"
  shows "\<not> r \<and> sq_stage x = Sg_fault \<and> br_tuned (sq_result x) \<and> br_fullCalibration (sq_result x)"
  using assms
  by (auto simp: boot_service_def sq_check_def guarded_def service_stage_def polled_def restored_def sq_call_def easy_def Sequence0_def sq_upd_def fault_result_def
    finished_result_def step_count_def dcall_def ogets_def omod_def orM_def busy_def busy_stage_def time_limit_def word_le_nat_alt word_less_nat_alt)

end
