(* ===== verification/ScanCache.thy ===== *)
theory ScanCache
  imports Prelude
begin

text \<open>The scan result cache, \<open>src/network/NativeScanCache.hpp\<close>: a working bank filled by one scan at a time and a published bank that readers see.
  Arrays have their declared lengths; an input's buffers have the lengths the input states.\<close>

section \<open>Data\<close>

definition maxNetworks :: nat where "maxNetworks = 64"
definition maxChannels :: nat where "maxChannels = 64"
definition maxIeBytes :: nat where "maxIeBytes = 2304"

record ScanToken =
  tk_generation :: u64
  tk_epoch :: u64

definition ScanToken0 :: ScanToken where
  "ScanToken0 = \<lparr>tk_generation = 0, tk_epoch = 0\<rparr>"

definition tk_same :: "ScanToken \<Rightarrow> ScanToken \<Rightarrow> bool" where
  "tk_same a b \<longleftrightarrow> tk_generation a = tk_generation b \<and> tk_epoch a = tk_epoch b"

datatype ScanBand = Bd_ghz2 | Bd_ghz5

fun band_no :: "ScanBand \<Rightarrow> nat" where
  "band_no Bd_ghz2 = 0"
| "band_no Bd_ghz5 = 1"

record CacheChannel =
  ch_band :: ScanBand
  ch_number :: u8

definition CacheChannel0 :: CacheChannel where
  "CacheChannel0 = \<lparr>ch_band = Bd_ghz2, ch_number = 0\<rparr>"

definition ch_same :: "CacheChannel \<Rightarrow> CacheChannel \<Rightarrow> bool" where
  "ch_same a b \<longleftrightarrow> ch_band a = ch_band b \<and> ch_number a = ch_number b"

definition ch_valid :: "CacheChannel \<Rightarrow> bool" where
  "ch_valid c = (let n = ch_number c in case ch_band c of Bd_ghz2 \<Rightarrow> 1 \<le> n \<and> n \<le> 14
     | Bd_ghz5 \<Rightarrow> (36 \<le> n \<and> n \<le> 64 \<and> n mod 4 = 0) \<or> (100 \<le> n \<and> n \<le> 144 \<and> n mod 4 = 0) \<or> (149 \<le> n \<and> n \<le> 177 \<and> (n - 149) mod 4 = 0))"

datatype SignalUnit = Su_unknown | Su_percent | Su_dbm

record ScanSignal =
  sg_unit :: SignalUnit
  sg_value :: int

definition ScanSignal0 :: ScanSignal where
  "ScanSignal0 = \<lparr>sg_unit = Su_unknown, sg_value = 0\<rparr>"

definition sg_valid :: "ScanSignal \<Rightarrow> bool" where
  "sg_valid s = (case sg_unit s of Su_unknown \<Rightarrow> sg_value s = 0 | Su_percent \<Rightarrow> 0 \<le> sg_value s \<and> sg_value s \<le> 100
     | Su_dbm \<Rightarrow> - 127 \<le> sg_value s \<and> sg_value s \<le> 0)"

record ScanInput =
  in_bssid :: "bytes option"
  in_ssid :: "bytes option"
  in_ies :: "bytes option"
  in_ssidLength :: nat
  in_ieLength :: nat
  in_originalIeLength :: nat
  in_channel :: CacheChannel
  in_signal :: ScanSignal
  in_observedAtUs :: u64
  in_capability :: u16
  in_beaconInterval :: u16

record ScanEntry =
  en_observedAtUs :: u64
  en_capability :: u16
  en_beaconInterval :: u16
  en_ieLength :: nat
  en_channel :: CacheChannel
  en_signal :: ScanSignal
  en_bssid :: bytes
  en_ssid :: bytes
  en_ssidLength :: nat
  en_ies :: bytes

definition ScanEntry0 :: ScanEntry where
  "ScanEntry0 = \<lparr>en_observedAtUs = 0, en_capability = 0, en_beaconInterval = 0, en_ieLength = 0, en_channel = CacheChannel0, en_signal = ScanSignal0,
     en_bssid = replicate 6 0, en_ssid = replicate 32 0, en_ssidLength = 0, en_ies = replicate maxIeBytes 0\<rparr>"

record ScanSummary =
  sm_token :: ScanToken
  sm_completedAtUs :: u64
  sm_count :: nat
  sm_channelCount :: nat
  sm_rejected :: u32

definition ScanSummary0 :: ScanSummary where
  "ScanSummary0 = \<lparr>sm_token = ScanToken0, sm_completedAtUs = 0, sm_count = 0, sm_channelCount = 0, sm_rejected = 0\<rparr>"

record ScanStatus =
  ss_token :: ScanToken
  ss_count :: nat
  ss_plannedChannels :: nat
  ss_completedChannels :: nat
  ss_rejected :: u32
  ss_active :: bool
  ss_planned :: bool
  ss_cancelled :: bool
  ss_overflow :: bool
  ss_truncatedInput :: bool

definition ScanStatus0 :: ScanStatus where
  "ScanStatus0 = \<lparr>ss_token = ScanToken0, ss_count = 0, ss_plannedChannels = 0, ss_completedChannels = 0, ss_rejected = 0, ss_active = False,
     ss_planned = False, ss_cancelled = False, ss_overflow = False, ss_truncatedInput = False\<rparr>"

datatype AddResult = Ad_added | Ad_replaced | Ad_unchanged | Ad_stale | Ad_unplanned | Ad_invalid | Ad_overflow | Ad_truncated
datatype ScanScope = Cm_channel | Cm_fullScan
datatype FinishResult = Fi_published | Fi_stale | Fi_incomplete | Fi_loss | Fi_invalidTime

record ScanBank =
  bn_summary :: ScanSummary
  bn_channels :: "CacheChannel list"
  bn_order :: "nat list"
  bn_entries :: "ScanEntry list"

definition ScanBank0 :: ScanBank where
  "ScanBank0 = \<lparr>bn_summary = ScanSummary0, bn_channels = replicate maxChannels CacheChannel0, bn_order = replicate maxNetworks 0,
     bn_entries = replicate maxNetworks ScanEntry0\<rparr>"

record ScanStore =
  st_banks :: "ScanBank list"
  st_status :: ScanStatus
  st_completedMask :: u64
  st_working :: nat
  st_published :: nat
  st_hasPublished :: bool

definition ScanStore0 :: ScanStore where
  "ScanStore0 = \<lparr>st_banks = [ScanBank0, ScanBank0], st_status = ScanStatus0, st_completedMask = 0, st_working = 0, st_published = 1, st_hasPublished = False\<rparr>"

section \<open>Checks\<close>

definition scan_unicast :: "bytes option \<Rightarrow> bool" where
  "scan_unicast a = (case a of None \<Rightarrow> False | Some bs \<Rightarrow> list_ex (\<lambda>b. b \<noteq> 0) (take 6 bs) \<and> bs ! 0 AND 1 = 0)"

text \<open>The loop over the elements: \<open>ies\<close> is what is left of them.\<close>

function ie_scan :: "bytes \<Rightarrow> bytes \<Rightarrow> bool \<Rightarrow> bool" where
  "ie_scan [] ssid seen = (seen \<or> ssid = [])"
| "ie_scan [b] ssid seen = False"
| "ie_scan (tag # len # rest) ssid seen = (
     if length rest < unat len then False
     else if tag = 0 then
       (if seen \<or> 32 < len \<or> unat len \<noteq> length ssid \<or> take (unat len) rest \<noteq> ssid then False
        else ie_scan (drop (unat len) rest) ssid True)
     else ie_scan (drop (unat len) rest) ssid seen)"
  by pat_completeness auto
termination by (relation "measure (\<lambda>(ies, _, _). length ies)") auto

definition buffer :: "bytes option \<Rightarrow> nat \<Rightarrow> bytes" where
  "buffer p n = (case p of None \<Rightarrow> [] | Some bs \<Rightarrow> take n bs)"

definition informationElements :: "ScanInput \<Rightarrow> bool" where
  "informationElements i = ie_scan (buffer (in_ies i) (in_ieLength i)) (buffer (in_ssid i) (in_ssidLength i)) False"

definition working_bank :: "ScanStore \<Rightarrow> ScanBank" where
  "working_bank s = st_banks s ! st_working s"

definition published_bank :: "ScanStore \<Rightarrow> ScanBank" where
  "published_bank s = st_banks s ! st_published s"

definition on_working :: "(ScanBank \<Rightarrow> ScanBank) \<Rightarrow> ScanStore \<Rightarrow> ScanStore" where
  "on_working f s = s\<lparr>st_banks := (st_banks s)[st_working s := f (working_bank s)]\<rparr>"

definition on_status :: "(ScanStatus \<Rightarrow> ScanStatus) \<Rightarrow> ScanStore \<Rightarrow> ScanStore" where
  "on_status f s = s\<lparr>st_status := f (st_status s)\<rparr>"

definition scan_current :: "ScanToken \<Rightarrow> ScanStore \<Rightarrow> bool" where
  "scan_current t s \<longleftrightarrow> ss_active (st_status s) \<and> tk_same t (ss_token (st_status s))"

fun index_where :: "('a \<Rightarrow> bool) \<Rightarrow> 'a list \<Rightarrow> nat \<Rightarrow> nat option" where
  "index_where p [] i = None"
| "index_where p (x # xs) i = (if p x then Some i else index_where p xs (i + 1))"

definition channelIndex :: "CacheChannel \<Rightarrow> ScanStore \<Rightarrow> nat" where
  "channelIndex c s = (case index_where (ch_same c) (take (ss_plannedChannels (st_status s)) (bn_channels (working_bank s))) 0 of
     Some i \<Rightarrow> i | None \<Rightarrow> maxChannels)"

definition scan_rejected :: "ScanStore \<Rightarrow> ScanStore" where
  "scan_rejected s = on_status (\<lambda>t. if ss_rejected t \<noteq> - 1 then t\<lparr>ss_rejected := ss_rejected t + 1\<rparr> else t) s"

fun bytes_less :: "bytes \<Rightarrow> bytes \<Rightarrow> bool" where
  "bytes_less (a # as) (b # bs) = (if a \<noteq> b then a < b else bytes_less as bs)"
| "bytes_less _ _ = False"

definition precedes :: "ScanEntry \<Rightarrow> ScanEntry \<Rightarrow> bool" where
  "precedes a b = (if ch_band (en_channel a) \<noteq> ch_band (en_channel b) then band_no (ch_band (en_channel a)) < band_no (ch_band (en_channel b))
     else if ch_number (en_channel a) \<noteq> ch_number (en_channel b) then ch_number (en_channel a) < ch_number (en_channel b)
     else bytes_less (en_bssid a) (en_bssid b))"

section \<open>Operations\<close>

definition completedSummary :: "ScanStore \<Rightarrow> ScanSummary option" where
  "completedSummary s = (if st_hasPublished s then Some (bn_summary (published_bank s)) else None)"

definition completedEntry :: "nat \<Rightarrow> ScanStore \<Rightarrow> ScanEntry option" where
  "completedEntry i s = (let b = published_bank s in
     if \<not> st_hasPublished s \<or> sm_count (bn_summary b) \<le> i then None else Some (bn_entries b ! (bn_order b ! i)))"

definition completedChannel :: "nat \<Rightarrow> ScanStore \<Rightarrow> CacheChannel option" where
  "completedChannel i s = (let b = published_bank s in
     if st_hasPublished s \<and> i < sm_channelCount (bn_summary b) then Some (bn_channels b ! i) else None)"

definition scan_begin :: "u64 \<Rightarrow> u64 \<Rightarrow> ScanStore \<Rightarrow> bool \<times> ScanStore" where
  "scan_begin generation epoch s = (let t = ss_token (st_status s) in
     if ss_active (st_status s) \<or> generation = 0 \<or> epoch = 0 \<or> epoch < tk_epoch t \<or> (epoch = tk_epoch t \<and> generation \<le> tk_generation t) then (False, s)
     else (True, (on_working (\<lambda>_. ScanBank0) s)\<lparr>st_completedMask := 0,
       st_status := ScanStatus0\<lparr>ss_token := \<lparr>tk_generation = generation, tk_epoch = epoch\<rparr>, ss_active := True\<rparr>\<rparr>))"

text \<open>Every channel valid and none twice.\<close>

fun plan_ok :: "CacheChannel list \<Rightarrow> CacheChannel list \<Rightarrow> bool" where
  "plan_ok before [] = True"
| "plan_ok before (c # cs) = (ch_valid c \<and> \<not> list_ex (ch_same c) before \<and> plan_ok (before @ [c]) cs)"

definition scan_plan :: "ScanToken \<Rightarrow> CacheChannel list option \<Rightarrow> ScanStore \<Rightarrow> bool \<times> ScanStore" where
  "scan_plan t channels s = (case channels of None \<Rightarrow> (False, s) | Some cs \<Rightarrow>
     if \<not> scan_current t s \<or> ss_planned (st_status s) \<or> cs = [] \<or> maxChannels < length cs \<or> \<not> plan_ok [] cs then (False, s)
     else (True, on_status (\<lambda>u. u\<lparr>ss_plannedChannels := length cs, ss_planned := True\<rparr>)
       (on_working (\<lambda>b. b\<lparr>bn_channels := cs @ drop (length cs) (bn_channels b)\<rparr>) s)))"

definition input_bad :: "ScanInput \<Rightarrow> bool" where
  "input_bad i \<longleftrightarrow> \<not> scan_unicast (in_bssid i) \<or> 32 < in_ssidLength i \<or> (in_ssidLength i \<noteq> 0 \<and> in_ssid i = None) \<or>
     (in_ieLength i \<noteq> 0 \<and> in_ies i = None) \<or> \<not> sg_valid (in_signal i) \<or> \<not> informationElements i"

definition padded :: "nat \<Rightarrow> bytes \<Rightarrow> bytes" where
  "padded n bs = bs @ replicate (n - length bs) 0"

definition entry_of :: "ScanInput \<Rightarrow> ScanEntry" where
  "entry_of i = \<lparr>en_observedAtUs = in_observedAtUs i, en_capability = in_capability i, en_beaconInterval = in_beaconInterval i,
     en_ieLength = in_ieLength i, en_channel = in_channel i, en_signal = in_signal i, en_bssid = buffer (in_bssid i) 6,
     en_ssid = padded 32 (buffer (in_ssid i) (in_ssidLength i)), en_ssidLength = in_ssidLength i,
     en_ies = padded maxIeBytes (buffer (in_ies i) (in_ieLength i))\<rparr>"

definition same_key :: "ScanInput \<Rightarrow> ScanEntry \<Rightarrow> bool" where
  "same_key i e \<longleftrightarrow> ch_same (in_channel i) (en_channel e) \<and> buffer (in_bssid i) 6 = en_bssid e"

definition scan_add :: "ScanToken \<Rightarrow> ScanInput \<Rightarrow> ScanStore \<Rightarrow> AddResult \<times> ScanStore" where
  "scan_add t i s = (let u = st_status s; b = working_bank s in
     if \<not> scan_current t s then (Ad_stale, s)
     else if \<not> ss_planned u \<or> channelIndex (in_channel i) s = maxChannels then (Ad_unplanned, s)
     else if ss_overflow u then (Ad_overflow, s)
     else if ss_truncatedInput u then (Ad_truncated, s)
     else if in_ieLength i \<noteq> in_originalIeLength i then (Ad_truncated, scan_rejected (on_status (ss_truncatedInput_update (\<lambda>_. True)) s))
     else if maxIeBytes < in_ieLength i then (Ad_overflow, scan_rejected (on_status (ss_overflow_update (\<lambda>_. True)) s))
     else if input_bad i then (Ad_invalid, scan_rejected s)
     else case index_where (same_key i) (take (ss_count u) (bn_entries b)) 0 of
         Some k \<Rightarrow> if in_observedAtUs i \<le> en_observedAtUs (bn_entries b ! k) then (Ad_unchanged, s)
           else (Ad_replaced, on_working (\<lambda>b. b\<lparr>bn_entries := (bn_entries b)[k := entry_of i]\<rparr>) s)
       | None \<Rightarrow> if ss_count u = maxNetworks then (Ad_overflow, scan_rejected (on_status (ss_overflow_update (\<lambda>_. True)) s))
           else (Ad_added, on_status (ss_count_update (\<lambda>n. n + 1)) (on_working (\<lambda>b. b\<lparr>bn_entries := (bn_entries b)[ss_count u := entry_of i]\<rparr>) s)))"

definition channelFinished :: "ScanToken \<Rightarrow> CacheChannel \<Rightarrow> ScanStore \<Rightarrow> bool \<times> ScanStore" where
  "channelFinished t c s = (if \<not> scan_current t s \<or> \<not> ss_planned (st_status s) then (False, s)
     else let k = channelIndex c s in if k = maxChannels then (False, s)
     else let bt = push_bit k 1 in
       (True, if st_completedMask s AND bt = 0
         then on_status (ss_completedChannels_update (\<lambda>n. n + 1)) (s\<lparr>st_completedMask := st_completedMask s OR bt\<rparr>) else s))"

text \<open>Insertion sort of the order array: one index moved to its place, then all of them.\<close>

fun place :: "(nat \<Rightarrow> nat \<Rightarrow> bool) \<Rightarrow> nat list \<Rightarrow> nat \<Rightarrow> nat \<Rightarrow> nat list" where
  "place lt ord i 0 = ord[0 := i]"
| "place lt ord i (Suc j) = (if lt i (ord ! j) then place lt (ord[Suc j := ord ! j]) i j else ord[Suc j := i])"

definition sort_order :: "(nat \<Rightarrow> nat \<Rightarrow> bool) \<Rightarrow> nat \<Rightarrow> nat list \<Rightarrow> nat list" where
  "sort_order lt n ord = fold (\<lambda>i ord. place lt ord i i) [0..<n] ord"

definition scan_finish :: "ScanToken \<Rightarrow> ScanScope \<Rightarrow> u64 \<Rightarrow> ScanStore \<Rightarrow> FinishResult \<times> ScanStore" where
  "scan_finish t scope now s = (let u = st_status s; b = working_bank s in
     if \<not> scan_current t s then (Fi_stale, s)
     else if scope \<noteq> Cm_fullScan \<or> \<not> ss_planned u \<or> ss_completedChannels u \<noteq> ss_plannedChannels u then (Fi_incomplete, s)
     else if ss_overflow u \<or> ss_truncatedInput u then (Fi_loss, on_status (ss_active_update (\<lambda>_. False)) s)
     else if st_hasPublished s \<and> now < sm_completedAtUs (bn_summary (published_bank s)) then (Fi_invalidTime, s)
     else if list_ex (\<lambda>e. now < en_observedAtUs e) (take (ss_count u) (bn_entries b)) then (Fi_invalidTime, s)
     else (Fi_published, (on_status (ss_active_update (\<lambda>_. False)) (on_working (\<lambda>b. b\<lparr>
         bn_order := sort_order (\<lambda>i j. precedes (bn_entries b ! i) (bn_entries b ! j)) (ss_count u) (bn_order b),
         bn_summary := \<lparr>sm_token = t, sm_completedAtUs = now, sm_count = ss_count u, sm_channelCount = ss_plannedChannels u,
           sm_rejected = ss_rejected u\<rparr>\<rparr>) s))\<lparr>st_published := st_working s, st_working := 1 - st_working s, st_hasPublished := True\<rparr>))"

definition scan_cancel :: "ScanToken \<Rightarrow> ScanStore \<Rightarrow> bool \<times> ScanStore" where
  "scan_cancel t s = (if \<not> scan_current t s then (False, s)
     else (True, on_status (\<lambda>u. u\<lparr>ss_active := False, ss_cancelled := True\<rparr>) (on_working (\<lambda>_. ScanBank0) s)))"

section \<open>Information elements\<close>

text \<open>The wire form of a list of elements.\<close>

definition ie_bytes :: "(u8 \<times> bytes) list \<Rightarrow> bytes" where
  "ie_bytes es = concat (map (\<lambda>(tag, d). tag # of_nat (length d) # d) es)"

definition ie_wf :: "(u8 \<times> bytes) list \<Rightarrow> bool" where
  "ie_wf es \<longleftrightarrow> list_all (\<lambda>(tag, d). length d < 256) es"

text \<open>The network names among them: none for an unnamed observation, or exactly the given one; with \<open>seen\<close>, none any more.\<close>

definition names_ok :: "(u8 \<times> bytes) list \<Rightarrow> bytes \<Rightarrow> bool \<Rightarrow> bool" where
  "names_ok es ssid seen \<longleftrightarrow> (let names = map snd (filter (\<lambda>e. fst e = 0) es) in
     if seen then names = [] else (names = [] \<and> ssid = []) \<or> (names = [ssid] \<and> length ssid \<le> 32))"

lemma ie_bytes_Cons: "ie_bytes ((tag, d) # es) = tag # of_nat (length d) # d @ ie_bytes es"
  by (simp add: ie_bytes_def)

lemma ie_scan_sound: "ie_scan ies ssid seen \<Longrightarrow> \<exists>es. ie_wf es \<and> ies = ie_bytes es \<and> names_ok es ssid seen"
proof (induction ies ssid seen rule: ie_scan.induct)
  case (1 ssid seen)
  then show ?case by (intro exI [of _ "[]"]) (auto simp: ie_wf_def ie_bytes_def names_ok_def)
next
  case (3 tag len rest ssid seen)
  let ?d = "take (unat len) rest"
  have len: "\<not> length rest < unat len" using 3(3) by auto
  have d: "length ?d < 256" "of_nat (length ?d) = len" using len unsigned_less [of len] by simp_all
  have bytes: "tag # len # rest = ie_bytes ((tag, ?d) # es)" if "drop (unat len) rest = ie_bytes es" for es
    unfolding ie_bytes_Cons d(2) that [symmetric] by simp
  show ?case
  proof (cases "tag = 0")
    case True
    then have c: "\<not> seen" "len \<le> 32" "unat len = length ssid" "?d = ssid" "ie_scan (drop (unat len) rest) ssid True"
      using 3(3) len by (auto simp: not_less split: if_splits)
    then obtain es where es: "ie_wf es" "drop (unat len) rest = ie_bytes es" "names_ok es ssid True" using 3(1) True len by (auto simp: not_less)
    have "length ssid \<le> 32" using c(2,3) by (simp add: word_le_nat_alt)
    then show ?thesis using True c(1,4) d(1) es(1,3) bytes [OF es(2)]
      by (intro exI [of _ "(tag, ?d) # es"] conjI) (simp_all add: ie_wf_def names_ok_def Let_def)
  next
    case False
    then obtain es where es: "ie_wf es" "drop (unat len) rest = ie_bytes es" "names_ok es ssid seen" using 3 len by auto
    then show ?thesis using False d(1) bytes [OF es(2)]
      by (intro exI [of _ "(tag, ?d) # es"] conjI) (simp_all add: ie_wf_def names_ok_def)
  qed
qed simp

lemma ie_scan_complete: "ie_wf es \<Longrightarrow> names_ok es ssid seen \<Longrightarrow> ie_scan (ie_bytes es) ssid seen"
proof (induction es arbitrary: seen)
  case Nil
  then show ?case by (auto simp: ie_bytes_def names_ok_def split: if_splits)
next
  case (Cons e es)
  obtain tag d where e: "e = (tag, d)" by fastforce
  have len: "unat (of_nat (length d) :: u8) = length d" using Cons.prems(1) e by (simp add: ie_wf_def unat_of_nat)
  have wf: "ie_wf es" using Cons.prems(1) by (simp add: ie_wf_def)
  show ?case
  proof (cases "tag = 0")
    case True
    then have "\<not> seen" "d = ssid" "length ssid \<le> 32" "names_ok es ssid True" using Cons.prems(2) e by (auto simp: names_ok_def Let_def split: if_splits)
    then show ?thesis using Cons.IH [OF wf, of True] True e len by (simp add: ie_bytes_Cons word_less_nat_alt)
  next
    case False
    then have "names_ok es ssid seen" using Cons.prems(2) e by (simp add: names_ok_def)
    then show ?thesis using Cons.IH [OF wf] False e len by (simp add: ie_bytes_Cons)
  qed
qed

text \<open>C34: The element check accepts exactly the byte strings that are a sequence of whole elements in which the given network name
  is the only name element, or in which there is none and the name is empty.\<close>

theorem ie_scan_spec: "ie_scan ies ssid False \<longleftrightarrow> (\<exists>es. ie_wf es \<and> ies = ie_bytes es \<and> names_ok es ssid False)"
  using ie_scan_sound ie_scan_complete by blast

section \<open>Sorting\<close>

fun rins :: "(nat \<Rightarrow> nat \<Rightarrow> bool) \<Rightarrow> nat \<Rightarrow> nat list \<Rightarrow> nat list" where
  "rins lt i [] = [i]"
| "rins lt i (y # ys) = (if lt i y then y # rins lt i ys else i # y # ys)"

lemma place_rins: "j < length ord \<Longrightarrow> place lt ord i j = rev (rins lt i (rev (take j ord))) @ drop (Suc j) ord"
proof (induction j arbitrary: ord)
  case 0
  then show ?case by (cases ord) simp_all
next
  case (Suc j)
  then show ?case
    by (simp add: take_Suc_conv_app_nth drop_update_swap [symmetric] upd_conv_take_nth_drop Cons_nth_drop_Suc [symmetric])
qed

lemma set_rins: "set (rins lt i xs) = insert i (set xs)" and length_rins: "length (rins lt i xs) = Suc (length xs)"
  and distinct_rins: "distinct (rins lt i xs) \<longleftrightarrow> i \<notin> set xs \<and> distinct xs"
  by (induction xs) auto

lemma sorted_rins:
  assumes "\<And>a b c. lt a b \<Longrightarrow> lt b c \<Longrightarrow> lt a c"
  shows "sorted_wrt (\<lambda>a b. lt b a) xs \<Longrightarrow> (\<forall>y \<in> set xs. lt i y \<or> lt y i) \<Longrightarrow> sorted_wrt (\<lambda>a b. lt b a) (rins lt i xs)"
proof (induction xs)
  case (Cons y ys)
  then show ?case using assms by (auto simp: set_rins)
qed simp

lemma sort_order_step:
  assumes "n < length ord" and "length (sort_order lt n ord) = length ord"
  shows "take (Suc n) (sort_order lt (Suc n) ord) = rev (rins lt n (rev (take n (sort_order lt n ord))))"
    and "length (sort_order lt (Suc n) ord) = length ord"
proof -
  have s: "sort_order lt (Suc n) ord = place lt (sort_order lt n ord) n n" by (simp add: sort_order_def)
  show "take (Suc n) (sort_order lt (Suc n) ord) = rev (rins lt n (rev (take n (sort_order lt n ord))))"
    unfolding s using assms by (subst place_rins) (simp_all add: length_rins)
  show "length (sort_order lt (Suc n) ord) = length ord"
    unfolding s using assms by (subst place_rins) (simp_all add: length_rins)
qed

lemma sort_order_sorts:
  assumes "\<And>a b c. lt a b \<Longrightarrow> lt b c \<Longrightarrow> lt a c" and "\<And>a b. a < m \<Longrightarrow> b < m \<Longrightarrow> a \<noteq> b \<Longrightarrow> lt a b \<or> lt b a"
  shows "n \<le> m \<Longrightarrow> m \<le> length ord \<Longrightarrow> length (sort_order lt n ord) = length ord \<and> sorted_wrt lt (take n (sort_order lt n ord)) \<and>
    distinct (take n (sort_order lt n ord)) \<and> set (take n (sort_order lt n ord)) = {0..<n}"
proof (induction n)
  case 0
  then show ?case by (simp add: sort_order_def)
next
  case (Suc n)
  then have ih: "length (sort_order lt n ord) = length ord" "sorted_wrt lt (take n (sort_order lt n ord))"
    "distinct (take n (sort_order lt n ord))" "set (take n (sort_order lt n ord)) = {0..<n}" by simp_all
  have n: "n < length ord" using Suc.prems by simp
  have "\<forall>y \<in> set (rev (take n (sort_order lt n ord))). lt n y \<or> lt y n" using ih(4) assms(2) Suc.prems by auto
  then have "sorted_wrt (\<lambda>a b. lt b a) (rins lt n (rev (take n (sort_order lt n ord))))"
    by (intro sorted_rins [OF assms(1)]) (simp_all add: sorted_wrt_rev ih(2))
  then have "sorted_wrt lt (rev (rins lt n (rev (take n (sort_order lt n ord)))))" by (simp add: sorted_wrt_rev)
  moreover have "insert n {0..<n} = {0..<Suc n}" by auto
  ultimately show ?case unfolding sort_order_step(1) [OF n ih(1)]
    using sort_order_step(2) [OF n ih(1)] ih by (simp add: set_rins distinct_rins)
qed

text \<open>The order of entries: by band, channel number and address.\<close>

type_synonym scan_key = "CacheChannel \<times> bytes"

definition en_key :: "ScanEntry \<Rightarrow> scan_key" where
  "en_key e = (en_channel e, en_bssid e)"

lemma bytes_less_trans: "bytes_less a b \<Longrightarrow> bytes_less b c \<Longrightarrow> bytes_less a c"
proof (induction a b arbitrary: c rule: bytes_less.induct)
  case (1 a as b bs)
  then show ?case by (cases c) (auto split: if_splits)
qed simp_all

lemma bytes_less_total: "length a = length b \<Longrightarrow> a \<noteq> b \<Longrightarrow> bytes_less a b \<or> bytes_less b a"
  by (induction a b rule: list_induct2) auto

lemma precedes_trans: "precedes a b \<Longrightarrow> precedes b c \<Longrightarrow> precedes a c"
  unfolding precedes_def by (auto split: if_splits intro: bytes_less_trans)

lemma band_no_inj: "band_no a = band_no b \<longleftrightarrow> a = b"
  by (cases a; cases b) simp_all

lemma precedes_total: "length (en_bssid a) = 6 \<Longrightarrow> length (en_bssid b) = 6 \<Longrightarrow> en_key a \<noteq> en_key b \<Longrightarrow> precedes a b \<or> precedes b a"
  using bytes_less_total [of "en_bssid a" "en_bssid b"] band_no_inj [of "ch_band (en_channel a)" "ch_band (en_channel b)"]
  by (cases "en_channel a"; cases "en_channel b") (auto simp: precedes_def en_key_def)

section \<open>The invariant\<close>

definition bank_shape :: "ScanBank \<Rightarrow> bool" where
  "bank_shape b \<longleftrightarrow> length (bn_channels b) = maxChannels \<and> length (bn_order b) = maxNetworks \<and> length (bn_entries b) = maxNetworks"

text \<open>The observations and channels of the scan under way.\<close>

definition gathered :: "ScanStore \<Rightarrow> ScanEntry list" where
  "gathered s = take (ss_count (st_status s)) (bn_entries (working_bank s))"

definition planned :: "ScanStore \<Rightarrow> CacheChannel list" where
  "planned s = take (ss_plannedChannels (st_status s)) (bn_channels (working_bank s))"

definition filling :: "ScanStore \<Rightarrow> bool" where
  "filling s \<longleftrightarrow> ss_count (st_status s) \<le> maxNetworks \<and> ss_plannedChannels (st_status s) \<le> maxChannels \<and>
     list_all ch_valid (planned s) \<and> distinct (planned s) \<and> distinct (map en_key (gathered s)) \<and>
     list_all (\<lambda>e. length (en_bssid e) = 6 \<and> en_channel e \<in> set (planned s)) (gathered s) \<and>
     (\<not> ss_planned (st_status s) \<longrightarrow> ss_plannedChannels (st_status s) = 0 \<and> ss_count (st_status s) = 0 \<and> st_completedMask s = 0) \<and>
     ss_completedChannels (st_status s) = card {k. bit (st_completedMask s) k} \<and>
     (\<forall>k. bit (st_completedMask s) k \<longrightarrow> k < ss_plannedChannels (st_status s))"

text \<open>What readers see.\<close>

definition snapshot_of :: "ScanBank \<Rightarrow> ScanEntry list" where
  "snapshot_of b = map (\<lambda>i. bn_entries b ! (bn_order b ! i)) [0..<sm_count (bn_summary b)]"

definition snapshot_ok :: "ScanBank \<Rightarrow> bool" where
  "snapshot_ok b \<longleftrightarrow> sorted_wrt precedes (snapshot_of b) \<and>
     list_all (\<lambda>e. en_observedAtUs e \<le> sm_completedAtUs (bn_summary b) \<and> en_channel e \<in> set (take (sm_channelCount (bn_summary b)) (bn_channels b)))
       (snapshot_of b)"

definition scan_inv :: "ScanStore \<Rightarrow> bool" where
  "scan_inv s \<longleftrightarrow> length (st_banks s) = 2 \<and> st_working s < 2 \<and> st_published s = 1 - st_working s \<and> list_all bank_shape (st_banks s) \<and>
     (ss_active (st_status s) \<longrightarrow> filling s) \<and> (st_hasPublished s \<longrightarrow> snapshot_ok (published_bank s))"

definition input_ok :: "ScanInput \<Rightarrow> bool" where
  "input_ok i \<longleftrightarrow> (case in_bssid i of None \<Rightarrow> True | Some bs \<Rightarrow> 6 \<le> length bs) \<and>
     (case in_ssid i of None \<Rightarrow> True | Some bs \<Rightarrow> in_ssidLength i \<le> length bs) \<and> (case in_ies i of None \<Rightarrow> True | Some bs \<Rightarrow> in_ieLength i \<le> length bs)"

datatype scan_call = Sc_begin u64 u64 | Sc_plan ScanToken "CacheChannel list option" | Sc_add ScanToken ScanInput
  | Sc_channel ScanToken CacheChannel | Sc_finish ScanToken ScanScope u64 | Sc_cancel ScanToken

fun scan_exec :: "scan_call \<Rightarrow> ScanStore \<Rightarrow> ScanStore" where
  "scan_exec (Sc_begin g e) s = snd (scan_begin g e s)"
| "scan_exec (Sc_plan t cs) s = snd (scan_plan t cs s)"
| "scan_exec (Sc_add t i) s = snd (scan_add t i s)"
| "scan_exec (Sc_channel t c) s = snd (channelFinished t c s)"
| "scan_exec (Sc_finish t sc now) s = snd (scan_finish t sc now s)"
| "scan_exec (Sc_cancel t) s = snd (scan_cancel t s)"

fun call_ok :: "scan_call \<Rightarrow> bool" where
  "call_ok (Sc_add t i) = input_ok i"
| "call_ok _ = True"

inductive scan_reach :: "ScanStore \<Rightarrow> bool" where
  init: "scan_reach ScanStore0"
| call: "scan_reach s \<Longrightarrow> call_ok c \<Longrightarrow> scan_reach (scan_exec c s)"

text \<open>The working and the published bank are different banks.\<close>

lemma bank_updates:
  assumes "scan_inv s"
  shows "working_bank (on_working f s) = f (working_bank s)" and "published_bank (on_working f s) = published_bank s"
    and "list_all bank_shape (st_banks (on_working f s)) \<longleftrightarrow> bank_shape (f (working_bank s))"
proof -
  have w: "length (st_banks s) = 2" "st_working s < 2" "st_published s = 1 - st_working s" "list_all bank_shape (st_banks s)"
    using assms by (simp_all add: scan_inv_def)
  show "working_bank (on_working f s) = f (working_bank s)" using w by (simp add: working_bank_def on_working_def)
  have "st_published s \<noteq> st_working s" using w(2,3) by arith
  then show "published_bank (on_working f s) = published_bank s" by (simp add: published_bank_def on_working_def)
  show "list_all bank_shape (st_banks (on_working f s)) \<longleftrightarrow> bank_shape (f (working_bank s))"
    using w by (auto simp: on_working_def list_all_length nth_list_update)
qed

lemma on_working_fields [simp]:
  "st_status (on_working f s) = st_status s" "st_working (on_working f s) = st_working s" "st_published (on_working f s) = st_published s"
  "st_hasPublished (on_working f s) = st_hasPublished s" "st_completedMask (on_working f s) = st_completedMask s"
  "length (st_banks (on_working f s)) = length (st_banks s)"
  by (simp_all add: on_working_def)

lemma on_status_fields [simp]:
  "st_status (on_status g s) = g (st_status s)" "st_working (on_status g s) = st_working s" "st_published (on_status g s) = st_published s"
  "st_hasPublished (on_status g s) = st_hasPublished s" "st_completedMask (on_status g s) = st_completedMask s" "st_banks (on_status g s) = st_banks s"
  "working_bank (on_status g s) = working_bank s" "published_bank (on_status g s) = published_bank s"
  by (simp_all add: on_status_def working_bank_def published_bank_def)

lemma mask_fields [simp]:
  "working_bank (s\<lparr>st_completedMask := m\<rparr>) = working_bank s" "published_bank (s\<lparr>st_completedMask := m\<rparr>) = published_bank s"
  "working_bank (s\<lparr>st_status := u\<rparr>) = working_bank s" "published_bank (s\<lparr>st_status := u\<rparr>) = published_bank s"
  by (simp_all add: working_bank_def published_bank_def)

lemma working_shape: "scan_inv s \<Longrightarrow> bank_shape (working_bank s)"
  by (simp add: scan_inv_def list_all_length working_bank_def)

lemma scan_begin_inv: "scan_inv s \<Longrightarrow> scan_inv (snd (scan_begin g e s))"
proof -
  assume i: "scan_inv s"
  have "bank_shape ScanBank0" by (simp add: bank_shape_def ScanBank0_def)
  then show ?thesis using i bank_updates [OF i]
    by (auto simp: scan_begin_def Let_def scan_inv_def filling_def gathered_def planned_def ScanStatus0_def)
qed

lemma ch_same_eq: "ch_same a b \<longleftrightarrow> a = b"
  by (cases a; cases b) (simp add: ch_same_def)

lemma plan_ok_spec: "plan_ok before cs \<longleftrightarrow> list_all ch_valid cs \<and> distinct cs \<and> set before \<inter> set cs = {}"
proof (induction cs arbitrary: before)
  case (Cons c cs)
  have "list_ex (ch_same c) before \<longleftrightarrow> c \<in> set before"
    by (auto simp: list_ex_iff ch_same_eq)
  then show ?case using Cons by auto
qed simp

lemma scan_plan_inv: "scan_inv s \<Longrightarrow> scan_inv (snd (scan_plan t cs s))"
proof (cases "\<exists>l. cs = Some l \<and> fst (scan_plan t cs s)")
  case True
  assume i: "scan_inv s"
  from True obtain l where l: "cs = Some l" "scan_current t s" "\<not> ss_planned (st_status s)" "length l \<le> maxChannels" "plan_ok [] l"
    by (auto simp: scan_plan_def split: if_splits)
  have sh: "bank_shape (working_bank s)" by (rule working_shape [OF i])
  have f: "filling s" using i l(2) by (simp add: scan_inv_def scan_current_def)
  then have z: "ss_count (st_status s) = 0" "st_completedMask s = 0" using l(3) by (simp_all add: filling_def)
  show ?thesis using i l sh z bank_updates [OF i] plan_ok_spec [of "[]" l] f
    by (auto simp: scan_plan_def scan_inv_def filling_def gathered_def planned_def bank_shape_def)
qed (auto simp: scan_plan_def split: option.splits if_splits)

lemma index_where_Some: "index_where p xs i = Some k \<Longrightarrow> i \<le> k \<and> k - i < length xs \<and> p (xs ! (k - i)) \<and> (\<forall>j < k - i. \<not> p (xs ! j))"
proof (induction xs arbitrary: i)
  case (Cons x xs)
  show ?case
  proof (cases "p x")
    case False
    then have "Suc i \<le> k \<and> k - Suc i < length xs \<and> p (xs ! (k - Suc i)) \<and> (\<forall>j < k - Suc i. \<not> p (xs ! j))" using Cons by auto
    moreover have "k - i = Suc (k - Suc i)" using calculation by linarith
    ultimately show ?thesis using False by (auto simp: nth_Cons split: nat.split)
  qed (use Cons.prems in auto)
qed simp

lemma index_where_None: "index_where p xs i = None \<longleftrightarrow> (\<forall>x \<in> set xs. \<not> p x)"
  by (induction xs arbitrary: i) auto

lemma channelIndex_planned:
  assumes "channelIndex c s \<noteq> maxChannels" and "ss_plannedChannels (st_status s) \<le> length (bn_channels (working_bank s))"
  shows "channelIndex c s < ss_plannedChannels (st_status s) \<and> c \<in> set (planned s)"
proof -
  obtain k where k: "index_where (ch_same c) (planned s) 0 = Some k" "channelIndex c s = k"
    using assms(1) by (auto simp: channelIndex_def planned_def split: option.splits)
  show ?thesis using index_where_Some [OF k(1)] k(2) assms(2) by (auto simp: planned_def in_set_conv_nth ch_same_eq)
qed

text \<open>Flags that say nothing about the banks.\<close>

definition same_extent :: "ScanStatus \<Rightarrow> ScanStatus \<Rightarrow> bool" where
  "same_extent u v \<longleftrightarrow> (ss_active v \<longrightarrow> ss_active u) \<and> ss_count v = ss_count u \<and> ss_plannedChannels v = ss_plannedChannels u \<and>
     ss_completedChannels v = ss_completedChannels u \<and> ss_planned v = ss_planned u"

lemma status_inv: "scan_inv s \<Longrightarrow> same_extent (st_status s) (g (st_status s)) \<Longrightarrow> scan_inv (on_status g s)"
  unfolding scan_inv_def filling_def gathered_def planned_def same_extent_def on_status_fields by simp

lemma rejected_inv: "scan_inv s \<Longrightarrow> scan_inv (scan_rejected s)"
  unfolding scan_rejected_def by (rule status_inv) (simp_all add: same_extent_def)

text \<open>Storing an observation in a slot.\<close>

lemma same_key_eq: "same_key i e \<longleftrightarrow> en_key e = en_key (entry_of i)"
  by (auto simp: same_key_def en_key_def entry_of_def ch_same_eq)

lemma store_inv:
  assumes "scan_inv s" and "ss_active (st_status s)" and "k \<le> ss_count (st_status s)" and "k < maxNetworks" and "in_channel i \<in> set (planned s)"
    and "length (buffer (in_bssid i) 6) = 6" and "ss_planned (st_status s)"
    and "if k < ss_count (st_status s) then en_key (gathered s ! k) = en_key (entry_of i) else en_key (entry_of i) \<notin> en_key ` set (gathered s)"
  shows "scan_inv (on_status (ss_count_update (\<lambda>n. if k < n then n else n + 1)) (on_working (\<lambda>b. b\<lparr>bn_entries := (bn_entries b)[k := entry_of i]\<rparr>) s))"
proof -
  let ?n = "ss_count (st_status s)" and ?es = "bn_entries (working_bank s)" and ?e = "entry_of i"
  have f: "filling s" using assms(1,2) by (simp add: scan_inv_def)
  have len: "length ?es = maxNetworks" using working_shape [OF assms(1)] by (simp add: bank_shape_def)
  have take: "take (if k < ?n then ?n else ?n + 1) (?es[k := ?e]) = (if k < ?n then (gathered s)[k := ?e] else gathered s @ [?e])"
    using assms(3,4) len by (cases "k < ?n") (simp_all add: gathered_def take_update_swap take_Suc_conv_app_nth list_update_append)
  have gl: "length (gathered s) = ?n" using f len by (simp add: filling_def gathered_def)
  have keys: "map en_key (if k < ?n then (gathered s)[k := ?e] else gathered s @ [?e]) =
      (if k < ?n then map en_key (gathered s) else map en_key (gathered s) @ [en_key ?e])"
    using assms(8) gl by (auto simp: map_update list_update_same_conv)
  have "distinct (map en_key (if k < ?n then (gathered s)[k := ?e] else gathered s @ [?e]))"
    unfolding keys using f assms(8) by (auto simp: filling_def)
  moreover have "list_all (\<lambda>e. length (en_bssid e) = 6 \<and> en_channel e \<in> set (planned s)) (if k < ?n then (gathered s)[k := ?e] else gathered s @ [?e])"
    using f assms(5,6) by (auto simp: filling_def list_all_iff entry_of_def dest!: set_update_subset_insert [THEN subsetD])
  ultimately show ?thesis
    using assms(1-4,7) f take bank_updates [OF assms(1)] working_shape [OF assms(1)]
    unfolding scan_inv_def by (simp add: filling_def gathered_def planned_def bank_shape_def)
qed

text \<open>What \<open>add\<close> does, in terms of the observations gathered so far.\<close>

definition put_entry :: "nat \<Rightarrow> ScanEntry \<Rightarrow> ScanEntry list \<Rightarrow> ScanEntry list" where
  "put_entry k e es = (if k < length es then es[k := e] else es @ [e])"

lemma gathered_put:
  assumes "scan_inv s" and "ss_active (st_status s)" and "k \<le> ss_count (st_status s)" and "k < maxNetworks"
  shows "gathered (on_status (ss_count_update (\<lambda>n. if k < n then n else n + 1)) (on_working (\<lambda>b. b\<lparr>bn_entries := (bn_entries b)[k := e]\<rparr>) s)) =
    put_entry k e (gathered s)"
proof -
  have len: "length (bn_entries (working_bank s)) = maxNetworks" "ss_count (st_status s) \<le> maxNetworks"
    using working_shape [OF assms(1)] assms(1,2) by (simp_all add: bank_shape_def scan_inv_def filling_def)
  then show ?thesis using assms(3,4) bank_updates(1) [OF assms(1)]
    by (cases "k < ss_count (st_status s)")
      (simp_all add: gathered_def put_entry_def take_update_swap take_Suc_conv_app_nth list_update_append)
qed

lemma count_same: "on_status (ss_count_update (\<lambda>n. if k < n then n else n + 1)) s =
    (if k < ss_count (st_status s) then s else on_status (ss_count_update (\<lambda>n. n + 1)) s)"
  by (cases s) (simp add: on_status_def)

lemma add_stores:
  assumes "scan_inv s" and "input_ok i" and "scan_add t i s = (r, s')" and "r = Ad_added \<or> r = Ad_replaced"
  obtains k where "k \<le> ss_count (st_status s)" and "k < maxNetworks" and "k < ss_count (st_status s) \<longleftrightarrow> r = Ad_replaced" and "ss_active (st_status s)"
    and "s' = on_status (ss_count_update (\<lambda>n. if k < n then n else n + 1)) (on_working (\<lambda>b. b\<lparr>bn_entries := (bn_entries b)[k := entry_of i]\<rparr>) s)"
    and "if r = Ad_replaced then en_key (gathered s ! k) = en_key (entry_of i) \<and> en_observedAtUs (gathered s ! k) < in_observedAtUs i
      else en_key (entry_of i) \<notin> en_key ` set (gathered s)"
    and "scan_inv s'"
proof -
  have c: "scan_current t s" "ss_planned (st_status s)" "channelIndex (in_channel i) s \<noteq> maxChannels" "\<not> input_bad i"
    using assms(3,4) by (auto simp: scan_add_def Let_def split: if_splits)
  have act: "ss_active (st_status s)" using c(1) by (simp add: scan_current_def)
  have f: "filling s" using assms(1) act by (simp add: scan_inv_def)
  have sh: "bank_shape (working_bank s)" by (rule working_shape [OF assms(1)])
  have ch: "in_channel i \<in> set (planned s)" using channelIndex_planned [OF c(3)] f sh by (simp add: filling_def bank_shape_def)
  have bs: "length (buffer (in_bssid i) 6) = 6"
    using c(4) assms(2) by (auto simp: input_bad_def scan_unicast_def input_ok_def buffer_def split: option.splits)
  have gl: "length (gathered s) = ss_count (st_status s)" using f sh by (simp add: gathered_def filling_def bank_shape_def)
  obtain k where k: "k \<le> ss_count (st_status s)" "k < maxNetworks" "k < ss_count (st_status s) \<longleftrightarrow> r = Ad_replaced"
    "s' = on_status (ss_count_update (\<lambda>n. if k < n then n else n + 1)) (on_working (\<lambda>b. b\<lparr>bn_entries := (bn_entries b)[k := entry_of i]\<rparr>) s)"
    "if r = Ad_replaced then en_key (gathered s ! k) = en_key (entry_of i) \<and> en_observedAtUs (gathered s ! k) < in_observedAtUs i
      else en_key (entry_of i) \<notin> en_key ` set (gathered s)"
  proof (cases "index_where (same_key i) (gathered s) 0")
    case None
    then have "r = Ad_added" "s' = on_status (ss_count_update (\<lambda>n. n + 1)) (on_working (\<lambda>b. b\<lparr>bn_entries := (bn_entries b)[ss_count (st_status s) := entry_of i]\<rparr>) s)"
      "ss_count (st_status s) \<noteq> maxNetworks"
      using assms(3,4) by (auto simp: scan_add_def Let_def gathered_def split: if_splits)
    moreover have "en_key (entry_of i) \<notin> en_key ` set (gathered s)" using None by (auto simp: index_where_None same_key_eq)
    moreover have "ss_count (st_status s) \<le> maxNetworks" using f by (simp add: filling_def)
    ultimately show thesis by (intro that [of "ss_count (st_status s)"]) (simp_all add: count_same)
  next
    case (Some k)
    note w = index_where_Some [OF Some]
    have kn: "k < ss_count (st_status s)" "gathered s ! k = bn_entries (working_bank s) ! k" using w gl by (auto simp: gathered_def)
    have "r = Ad_replaced" "s' = on_working (\<lambda>b. b\<lparr>bn_entries := (bn_entries b)[k := entry_of i]\<rparr>) s"
      "en_observedAtUs (bn_entries (working_bank s) ! k) < in_observedAtUs i"
      using assms(3,4) Some by (auto simp: scan_add_def Let_def gathered_def split: if_splits)
    moreover have "k < maxNetworks" using f kn(1) by (simp add: filling_def)
    ultimately show thesis using w kn by (intro that [of k]) (simp_all add: count_same same_key_eq)
  qed
  have "scan_inv s'" unfolding k(4)
    by (rule store_inv [OF assms(1) act k(1,2) ch bs c(2)]) (use k(3,5) in \<open>auto split: if_splits\<close>)
  then show thesis using that k act by blast
qed

lemma scan_add_inv:
  assumes "scan_inv s" and "input_ok i"
  shows "scan_inv (snd (scan_add t i s))"
proof (cases "fst (scan_add t i s) = Ad_added \<or> fst (scan_add t i s) = Ad_replaced")
  case True
  then show ?thesis using add_stores [OF assms, of t "fst (scan_add t i s)" "snd (scan_add t i s)"] by (metis prod.collapse)
next
  case False
  have "scan_inv (scan_rejected s)" "scan_inv (scan_rejected (on_status (ss_truncatedInput_update (\<lambda>_. True)) s))"
    "scan_inv (scan_rejected (on_status (ss_overflow_update (\<lambda>_. True)) s))"
    using assms(1) by (intro rejected_inv status_inv; simp add: same_extent_def)+
  then show ?thesis using assms(1) False by (auto simp: scan_add_def Let_def split: option.splits if_splits)
qed

lemma mask_bits:
  assumes "k < 64"
  shows "(m :: u64) AND push_bit k 1 = 0 \<longleftrightarrow> \<not> bit m k" and "{j. bit (m OR push_bit k 1) j} = insert k {j. bit m j}"
proof -
  have b: "bit (push_bit k (1 :: u64)) j \<longleftrightarrow> j = k" for j using assms by (auto simp: bit_simps)
  show "m AND push_bit k 1 = 0 \<longleftrightarrow> \<not> bit m k"
  proof
    assume "m AND push_bit k 1 = 0"
    then have "\<not> bit (m AND push_bit k 1) k" by simp
    then show "\<not> bit m k" unfolding bit_and_iff b by simp
  next
    assume "\<not> bit m k"
    then have "bit (m AND push_bit k 1) j = bit 0 j" for j unfolding bit_and_iff b by auto
    then show "m AND push_bit k 1 = 0" by (intro bit_word_eqI) blast
  qed
  show "{j. bit (m OR push_bit k 1) j} = insert k {j. bit m j}" unfolding bit_or_iff b by auto
qed

lemma finished_inv: "scan_inv s \<Longrightarrow> scan_inv (snd (channelFinished t c s))"
proof -
  assume i: "scan_inv s"
  let ?k = "channelIndex c s" and ?m = "st_completedMask s"
  have "scan_inv (on_status (ss_completedChannels_update (\<lambda>n. n + 1)) (s\<lparr>st_completedMask := ?m OR push_bit ?k 1\<rparr>))"
    if c: "scan_current t s" "ss_planned (st_status s)" "?k \<noteq> maxChannels" "?m AND push_bit ?k 1 = 0"
  proof -
    have f: "filling s" using i c(1) by (simp add: scan_inv_def scan_current_def)
    have k: "?k < ss_plannedChannels (st_status s)" "?k < 64"
      using channelIndex_planned [OF c(3)] f working_shape [OF i] by (auto simp: filling_def bank_shape_def maxChannels_def)
    have nb: "\<not> bit ?m ?k" using c(4) mask_bits(1) [OF k(2)] by simp
    have fin: "finite {j. bit ?m j}" by (rule finite_subset [of _ "{..<64}"]) (auto dest: bit_imp_le_length)
    have "card {j. bit (?m OR push_bit ?k 1) j} = Suc (card {j. bit ?m j})" unfolding mask_bits(2) [OF k(2)] using nb fin by simp
    moreover have "\<forall>j. bit (?m OR push_bit ?k 1) j \<longrightarrow> j < ss_plannedChannels (st_status s)"
      using f k mask_bits(2) [OF k(2), of ?m] by (auto simp: filling_def set_eq_iff)
    ultimately show ?thesis using i f c by (auto simp: scan_inv_def filling_def gathered_def planned_def)
  qed
  then show ?thesis using i by (auto simp: channelFinished_def Let_def)
qed

lemma scan_cancel_inv: "scan_inv s \<Longrightarrow> scan_inv (snd (scan_cancel t s))"
proof -
  assume i: "scan_inv s"
  have "bank_shape ScanBank0" by (simp add: bank_shape_def ScanBank0_def)
  then show ?thesis using i bank_updates [OF i] by (auto simp: scan_cancel_def scan_inv_def)
qed

text \<open>The bank a successful finish publishes.\<close>

lemma finish_publishes:
  assumes "scan_inv s" and "scan_finish t scope now s = (Fi_published, s')"
  shows "snapshot_ok (published_bank s') \<and> set (snapshot_of (published_bank s')) = set (gathered s) \<and>
    length (snapshot_of (published_bank s')) = length (gathered s) \<and> bn_channels (published_bank s') = bn_channels (working_bank s) \<and>
    scan_inv s' \<and> st_hasPublished s' \<and> ss_active (st_status s) \<and>
    bn_summary (published_bank s') = \<lparr>sm_token = t, sm_completedAtUs = now, sm_count = ss_count (st_status s), sm_channelCount = ss_plannedChannels (st_status s),
      sm_rejected = ss_rejected (st_status s)\<rparr>"
proof -
  let ?u = "st_status s" and ?b = "working_bank s"
  let ?lt = "\<lambda>i j. precedes (bn_entries ?b ! i) (bn_entries ?b ! j)" and ?n = "ss_count (st_status s)"
  let ?ord = "sort_order ?lt ?n (bn_order ?b)"
  let ?bank = "?b\<lparr>bn_order := ?ord, bn_summary := \<lparr>sm_token = t, sm_completedAtUs = now, sm_count = ?n, sm_channelCount = ss_plannedChannels ?u,
      sm_rejected = ss_rejected ?u\<rparr>\<rparr>"
  have act: "ss_active ?u" and times: "list_all (\<lambda>e. en_observedAtUs e \<le> now) (gathered s)"
    using assms(2) by (auto simp: scan_finish_def Let_def scan_current_def gathered_def list_all_iff list_ex_iff not_less split: if_splits)
  have f: "filling s" using assms(1) act by (simp add: scan_inv_def)
  have sh: "bank_shape ?b" by (rule working_shape [OF assms(1)])
  have gl: "length (gathered s) = ?n" "\<And>j. j < ?n \<Longrightarrow> gathered s ! j = bn_entries ?b ! j"
    using f sh by (simp_all add: gathered_def filling_def bank_shape_def)
  have "?lt a b \<or> ?lt b a" if "a < ?n" "b < ?n" "a \<noteq> b" for a b
  proof -
    have "en_key (gathered s ! a) \<noteq> en_key (gathered s ! b)"
      using f that gl(1) by (auto simp: filling_def distinct_conv_nth)
    moreover have "length (en_bssid (gathered s ! a)) = 6" "length (en_bssid (gathered s ! b)) = 6"
      using f that gl(1) by (auto simp: filling_def list_all_length)
    ultimately show ?thesis using precedes_total gl(2) that by metis
  qed
  then have ord: "length ?ord = maxNetworks" "sorted_wrt ?lt (take ?n ?ord)" "distinct (take ?n ?ord)" "set (take ?n ?ord) = {0..<?n}"
    using sort_order_sorts [of ?lt ?n ?n "bn_order ?b"] precedes_trans f sh by (auto simp: filling_def bank_shape_def)
  have snap: "snapshot_of ?bank = map (\<lambda>j. bn_entries ?b ! j) (take ?n ?ord)"
    using f ord(1) by (intro nth_equalityI) (simp_all add: snapshot_of_def filling_def)
  have set: "set (snapshot_of ?bank) = set (gathered s)"
  proof -
    have "set (snapshot_of ?bank) = (\<lambda>j. gathered s ! j) ` {0..<?n}" unfolding snap using ord(4) gl(2) by (auto simp: image_iff)
    also have "\<dots> = set (gathered s)" using gl(1) by (auto simp: set_conv_nth)
    finally show ?thesis .
  qed
  have ok: "snapshot_ok ?bank"
    using ord(2) f times unfolding snapshot_ok_def list_all_iff set
    by (simp add: snap sorted_wrt_map filling_def list_all_iff planned_def)
  define w where "w = on_working (\<lambda>_. ?bank) s"
  have s': "s' = (on_status (ss_active_update (\<lambda>_. False)) w)\<lparr>st_published := st_working s, st_working := 1 - st_working s, st_hasPublished := True\<rparr>"
    using assms(2) by (auto simp: scan_finish_def Let_def w_def on_working_def split: if_splits)
  have w: "working_bank w = ?bank" "list_all bank_shape (st_banks w)" "st_working w = st_working s" "length (st_banks w) = 2"
    using bank_updates [OF assms(1), of "\<lambda>_. ?bank"] ord(1) sh assms(1) by (simp_all add: w_def bank_shape_def scan_inv_def)
  have bank: "published_bank s' = ?bank" using w(1,3) by (simp add: s' published_bank_def working_bank_def)
  have inv: "length (st_banks s') = 2" "st_working s' < 2" "st_published s' = 1 - st_working s'"
      "list_all bank_shape (st_banks s')" "\<not> ss_active (st_status s')" "st_hasPublished s'"
    using w(2,4) assms(1) by (simp_all add: s' scan_inv_def) (arith+)?
  show ?thesis using ok set inv act unfolding bank scan_inv_def by (simp add: snapshot_of_def gl(1))
qed

lemma scan_finish_inv: "scan_inv s \<Longrightarrow> scan_inv (snd (scan_finish t scope now s))"
proof (cases "fst (scan_finish t scope now s) = Fi_published")
  case True
  assume "scan_inv s"
  then show ?thesis using finish_publishes [of s t scope now "snd (scan_finish t scope now s)"] True by (metis prod.collapse)
next
  case False
  assume i: "scan_inv s"
  have "scan_inv (on_status (ss_active_update (\<lambda>_. False)) s)" by (rule status_inv [OF i]) (simp add: same_extent_def)
  then show ?thesis using i False by (auto simp: scan_finish_def Let_def)
qed

lemma scan_reach_inv: "scan_reach s \<Longrightarrow> scan_inv s"
proof (induction rule: scan_reach.induct)
  case init
  show ?case by (simp add: scan_inv_def ScanStore0_def bank_shape_def ScanBank0_def ScanStatus0_def)
next
  case (call s c)
  then show ?case by (cases c) (simp_all add: scan_begin_inv scan_plan_inv scan_add_inv finished_inv scan_finish_inv scan_cancel_inv)
qed

section \<open>Properties\<close>

text \<open>C32: A scan is published only when every planned channel was finished. The published snapshot then holds exactly the
  observations gathered, strictly sorted by band, channel and address, all of them from planned channels and none from after the completion
  time, under the scan's token.\<close>

theorem scan_snapshot_sorted:
  assumes "scan_reach s" and "scan_finish t scope now s = (Fi_published, s')"
  shows "(\<forall>k < ss_plannedChannels (st_status s). bit (st_completedMask s) k) \<and>
    map (\<lambda>i. completedEntry i s') [0..<ss_count (st_status s)] = map Some (snapshot_of (published_bank s')) \<and>
    sorted_wrt precedes (snapshot_of (published_bank s')) \<and> set (snapshot_of (published_bank s')) = set (gathered s) \<and>
    (\<forall>e \<in> set (gathered s). en_observedAtUs e \<le> now \<and> en_channel e \<in> set (planned s)) \<and>
    map_option sm_token (completedSummary s') = Some t"
proof -
  have i: "scan_inv s" by (rule scan_reach_inv [OF assms(1)])
  note p = finish_publishes [OF i assms(2)]
  have "filling s" using i p by (simp add: scan_inv_def)
  moreover have "ss_completedChannels (st_status s) = ss_plannedChannels (st_status s)" using assms(2) by (auto simp: scan_finish_def Let_def split: if_splits)
  ultimately have "card {k. bit (st_completedMask s) k} = card {..<ss_plannedChannels (st_status s)}" "{k. bit (st_completedMask s) k} \<subseteq> {..<ss_plannedChannels (st_status s)}"
    by (auto simp: filling_def)
  then have "{k. bit (st_completedMask s) k} = {..<ss_plannedChannels (st_status s)}" by (intro card_subset_eq) auto
  then have "\<forall>k < ss_plannedChannels (st_status s). bit (st_completedMask s) k" by auto
  moreover have "\<forall>e \<in> set (gathered s). en_observedAtUs e \<le> now \<and> en_channel e \<in> set (planned s)"
    using p unfolding snapshot_ok_def list_all_iff by (auto simp: planned_def)
  moreover have "map (\<lambda>i. completedEntry i s') [0..<ss_count (st_status s)] = map Some (snapshot_of (published_bank s'))"
    using p by (simp add: completedEntry_def snapshot_of_def Let_def)
  ultimately show ?thesis using p by (simp add: snapshot_ok_def completedSummary_def)
qed

text \<open>Readers never see a scan under way: no call but a finish that publishes changes what they see, whatever the call
  answers.\<close>

theorem scan_isolation:
  assumes "scan_reach s" and "\<forall>t scope now. c = Sc_finish t scope now \<longrightarrow> fst (scan_finish t scope now s) \<noteq> Fi_published"
  shows "completedSummary (scan_exec c s) = completedSummary s \<and> completedEntry i (scan_exec c s) = completedEntry i s \<and>
    completedChannel i (scan_exec c s) = completedChannel i s"
proof -
  have inv: "scan_inv s" by (rule scan_reach_inv [OF assms(1)])
  have "published_bank (scan_exec c s) = published_bank s \<and> st_hasPublished (scan_exec c s) = st_hasPublished s"
    using assms(2) bank_updates(2) [OF inv]
    by (cases c) (auto simp: scan_begin_def scan_plan_def scan_add_def channelFinished_def scan_finish_def scan_cancel_def scan_rejected_def Let_def
      split: option.split if_splits)
  then show ?thesis by (simp add: completedSummary_def completedEntry_def completedChannel_def)
qed

text \<open>The abstract cache: the newest observation of every address on every channel.\<close>

definition scan_map :: "ScanStore \<Rightarrow> scan_key \<rightharpoonup> ScanEntry" where
  "scan_map s = map_of (map (\<lambda>e. (en_key e, e)) (gathered s))"

lemma same_options: "(\<And>v. a = Some v \<longleftrightarrow> b = Some v) \<Longrightarrow> a = b"
  by (cases a; cases b) auto

lemma map_of_put:
  assumes "distinct (map en_key es)" and "k \<le> length es"
    and "if k < length es then en_key (es ! k) = en_key e else en_key e \<notin> en_key ` set es"
  shows "map_of (map (\<lambda>e. (en_key e, e)) (put_entry k e es)) = (map_of (map (\<lambda>e. (en_key e, e)) es))(en_key e \<mapsto> e)"
proof (cases "k < length es")
  case True
  let ?f = "\<lambda>e. (en_key e, e)"
  have "map en_key (es[k := e]) = map en_key es" using True assms(3) by (simp add: map_update list_update_same_conv)
  then have d: "distinct (map fst (map ?f (es[k := e])))" "distinct (map fst (map ?f es))" using assms(1) by (simp_all add: comp_def)
  have "map_of (map ?f (es[k := e])) x = ((map_of (map ?f es))(en_key e \<mapsto> e)) x" for x
  proof (cases "x = en_key e")
    case True
    have "(en_key e, e) \<in> set (map ?f (es[k := e]))" using \<open>k < length es\<close> by (auto intro: set_update_memI)
    from map_of_is_SomeI [OF d(1) this] show ?thesis using True by simp
  next
    case False
    have "set es = insert (es ! k) (set (take k es) \<union> set (drop (Suc k) es))" "set (es[k := e]) = insert e (set (take k es) \<union> set (drop (Suc k) es))"
      using arg_cong [OF id_take_nth_drop [OF \<open>k < length es\<close>], of set] upd_conv_take_nth_drop [OF \<open>k < length es\<close>, of e] by simp_all
    then have "(x, v) \<in> set (map ?f (es[k := e])) \<longleftrightarrow> (x, v) \<in> set (map ?f es)" for v
      using False assms(3) \<open>k < length es\<close> by (auto simp: image_iff)
    then have "map_of (map ?f (es[k := e])) x = Some v \<longleftrightarrow> map_of (map ?f es) x = Some v" for v using d by (simp add: map_of_eq_Some_iff)
    then have "map_of (map ?f (es[k := e])) x = map_of (map ?f es) x" by (rule same_options)
    then show ?thesis using False by simp
  qed
  then show ?thesis using True by (auto simp: put_entry_def)
next
  case False
  then have "map_of (map (\<lambda>e. (en_key e, e)) es) (en_key e) = None" using assms(3) by (auto simp: map_of_eq_None_iff image_image)
  then show ?thesis using False by (auto simp: put_entry_def map_add_def fun_eq_iff split: option.split)
qed

lemma scan_add_map:
  assumes "scan_reach s" and "input_ok i" and "scan_add t i s = (r, s')"
  shows "scan_map s' = (if r = Ad_added \<or> r = Ad_replaced then (scan_map s)(en_key (entry_of i) \<mapsto> entry_of i) else scan_map s) \<and>
    (r = Ad_added \<longrightarrow> scan_map s (en_key (entry_of i)) = None) \<and>
    (r = Ad_replaced \<longrightarrow> (\<exists>e. scan_map s (en_key (entry_of i)) = Some e \<and> en_observedAtUs e < in_observedAtUs i)) \<and>
    (r = Ad_unchanged \<longrightarrow> (\<exists>e. scan_map s (en_key (entry_of i)) = Some e \<and> in_observedAtUs i \<le> en_observedAtUs e))"
proof (cases "r = Ad_added \<or> r = Ad_replaced")
  case True
  have inv: "scan_inv s" by (rule scan_reach_inv [OF assms(1)])
  obtain k where k: "k \<le> ss_count (st_status s)" "k < maxNetworks"
    "k < ss_count (st_status s) \<longleftrightarrow> r = Ad_replaced" "ss_active (st_status s)"
    "s' = on_status (ss_count_update (\<lambda>n. if k < n then n else n + 1)) (on_working (\<lambda>b. b\<lparr>bn_entries := (bn_entries b)[k := entry_of i]\<rparr>) s)"
    "if r = Ad_replaced then en_key (gathered s ! k) = en_key (entry_of i) \<and> en_observedAtUs (gathered s ! k) < in_observedAtUs i
      else en_key (entry_of i) \<notin> en_key ` set (gathered s)" "scan_inv s'"
    by (rule add_stores [OF inv assms(2,3) True])
  have f: "filling s" using inv k(4) by (simp add: scan_inv_def)
  have gl: "length (gathered s) = ss_count (st_status s)" using f working_shape [OF inv] by (simp add: gathered_def filling_def bank_shape_def)
  have d: "distinct (map en_key (gathered s))" using f by (simp add: filling_def)
  have g: "gathered s' = put_entry k (entry_of i) (gathered s)" unfolding k(5) by (rule gathered_put [OF inv k(4,1,2)])
  have m: "scan_map s' = (scan_map s)(en_key (entry_of i) \<mapsto> entry_of i)"
    unfolding scan_map_def g by (rule map_of_put [OF d]) (use k(1,3,6) gl in \<open>auto split: if_splits\<close>)
  have at: "scan_map s (en_key (gathered s ! k)) = Some (gathered s ! k)" if "k < length (gathered s)"
    unfolding scan_map_def using d that by (intro map_of_is_SomeI) (simp_all add: comp_def)
  show ?thesis
  proof (cases "r = Ad_replaced")
    case True
    then show ?thesis using m at k(3,6) gl by auto
  next
    case False
    then have "scan_map s (en_key (entry_of i)) = None" using k(6) by (auto simp: scan_map_def map_of_eq_None_iff image_image)
    then show ?thesis using m \<open>r = Ad_added \<or> r = Ad_replaced\<close> False by auto
  qed
next
  case False
  have inv: "scan_inv s" by (rule scan_reach_inv [OF assms(1)])
  have "gathered s' = gathered s" using assms(3) False
    by (auto simp: scan_add_def Let_def scan_rejected_def gathered_def split: if_splits option.splits)
  then have m: "scan_map s' = scan_map s" by (simp add: scan_map_def)
  have "\<exists>e. scan_map s (en_key (entry_of i)) = Some e \<and> in_observedAtUs i \<le> en_observedAtUs e" if u: "r = Ad_unchanged"
  proof -
    obtain k where k: "index_where (same_key i) (gathered s) 0 = Some k" "in_observedAtUs i \<le> en_observedAtUs (bn_entries (working_bank s) ! k)" "scan_current t s"
      using assms(3) u by (auto simp: scan_add_def Let_def gathered_def split: if_splits option.splits)
    have f: "filling s" using inv k(3) by (simp add: scan_inv_def scan_current_def)
    note w = index_where_Some [OF k(1)]
    have "(en_key (entry_of i), gathered s ! k) \<in> set (map (\<lambda>e. (en_key e, e)) (gathered s))"
      using w by (auto simp: same_key_eq image_iff intro!: bexI [of _ "gathered s ! k"])
    then have "scan_map s (en_key (entry_of i)) = Some (gathered s ! k)"
      unfolding scan_map_def using f by (intro map_of_is_SomeI) (simp_all add: comp_def filling_def)
    moreover have "gathered s ! k = bn_entries (working_bank s) ! k" using w by (simp add: gathered_def)
    ultimately show ?thesis using k(2) by simp
  qed
  then show ?thesis using m False by auto
qed

text \<open>C33: Adding an observation is an update of a map from channel and address to the observation: it is stored when the key is
  new or the observation is newer than the stored one, and in every other case the map stays as it is.\<close>

theorem scan_add_refines:
  assumes "scan_reach s" and "input_ok i" and "scan_add t i s = (r, s')"
  shows "scan_map s' = (if r = Ad_added \<or> r = Ad_replaced then (scan_map s)(en_key (entry_of i) \<mapsto> entry_of i) else scan_map s) \<and>
    (r = Ad_added \<longrightarrow> scan_map s (en_key (entry_of i)) = None) \<and>
    (r = Ad_replaced \<longrightarrow> (\<exists>e. scan_map s (en_key (entry_of i)) = Some e \<and> en_observedAtUs e < in_observedAtUs i)) \<and>
    (r = Ad_unchanged \<longrightarrow> (\<exists>e. scan_map s (en_key (entry_of i)) = Some e \<and> in_observedAtUs i \<le> en_observedAtUs e))"
  using assms by (rule scan_add_map)


text \<open>A scan of one channel with one observation.\<close>

definition sample_scan_channel :: CacheChannel where
  "sample_scan_channel = \<lparr>ch_band = Bd_ghz2, ch_number = 6\<rparr>"

definition sample_scan_token :: ScanToken where
  "sample_scan_token = \<lparr>tk_generation = 1, tk_epoch = 1\<rparr>"

definition sample_input :: ScanInput where
  "sample_input = \<lparr>in_bssid = Some [2, 0, 0, 0, 0, 1], in_ssid = Some [65], in_ies = Some [0, 1, 65], in_ssidLength = 1, in_ieLength = 3,
     in_originalIeLength = 3, in_channel = sample_scan_channel, in_signal = \<lparr>sg_unit = Su_dbm, sg_value = - 40\<rparr>, in_observedAtUs = 7,
     in_capability = 1, in_beaconInterval = 100\<rparr>"

definition sample_planned :: ScanStore where
  "sample_planned = snd (scan_plan sample_scan_token (Some [sample_scan_channel]) (snd (scan_begin 1 1 ScanStore0)))"

definition sample_scanned :: ScanStore where
  "sample_scanned = snd (channelFinished sample_scan_token sample_scan_channel (snd (scan_add sample_scan_token sample_input sample_planned)))"

lemma sample_scan_reach: "scan_reach sample_planned" "scan_reach (snd (scan_add sample_scan_token sample_input sample_planned))" "scan_reach sample_scanned"
proof -
  have 1: "scan_reach (snd (scan_begin 1 1 ScanStore0))" using scan_reach.call [OF scan_reach.init, of "Sc_begin 1 1"] by simp
  then show 2: "scan_reach sample_planned"
    unfolding sample_planned_def using scan_reach.call [OF 1, of "Sc_plan sample_scan_token (Some [sample_scan_channel])"] by simp
  have "input_ok sample_input" by (simp add: input_ok_def sample_input_def)
  then show 3: "scan_reach (snd (scan_add sample_scan_token sample_input sample_planned))"
    using scan_reach.call [OF 2, of "Sc_add sample_scan_token sample_input"] by simp
  show "scan_reach sample_scanned"
    unfolding sample_scanned_def using scan_reach.call [OF 3, of "Sc_channel sample_scan_token sample_scan_channel"] by simp
qed

lemmas sample_scan_defs = sample_planned_def sample_scanned_def sample_input_def sample_scan_token_def sample_scan_channel_def scan_plan_def scan_begin_def
  scan_add_def channelFinished_def scan_current_def ScanStore0_def ScanStatus0_def ScanToken0_def tk_same_def Let_def on_working_def on_status_def working_bank_def
  channelIndex_def ch_same_def ch_valid_def input_bad_def scan_unicast_def sg_valid_def informationElements_def buffer_def maxChannels_def maxNetworks_def maxIeBytes_def

lemma sample_added: "fst (scan_add sample_scan_token sample_input sample_planned) = Ad_added"
  by (simp add: sample_scan_defs word_le_nat_alt word_less_nat_alt)

theorem scan_add_refines_witness:
  "scan_map (snd (scan_add sample_scan_token sample_input sample_planned)) (en_key (entry_of sample_input)) = Some (entry_of sample_input)"
proof -
  obtain r s' where a: "scan_add sample_scan_token sample_input sample_planned = (r, s')" by fastforce
  have "input_ok sample_input" by (simp add: input_ok_def sample_input_def)
  from scan_add_refines [OF sample_scan_reach(1) this a] sample_added a show ?thesis by simp
qed

theorem scan_isolation_witness: "completedSummary (scan_exec (Sc_cancel sample_scan_token) sample_scanned) = completedSummary sample_scanned"
  using scan_isolation [OF sample_scan_reach(3), of "Sc_cancel sample_scan_token" 0] by simp

lemma sample_published: "fst (scan_finish sample_scan_token Cm_fullScan 9 sample_scanned) = Fi_published"
  by (simp add: sample_scan_defs scan_finish_def entry_of_def ScanBank0_def CacheChannel0_def ScanEntry0_def word_le_nat_alt word_less_nat_alt take_Suc_conv_app_nth)

theorem scan_snapshot_sorted_witness:
  "\<exists>s'. scan_finish sample_scan_token Cm_fullScan 9 sample_scanned = (Fi_published, s') \<and> map_option sm_token (completedSummary s') = Some sample_scan_token"
proof -
  obtain r s' where f: "scan_finish sample_scan_token Cm_fullScan 9 sample_scanned = (r, s')" by fastforce
  then have p: "scan_finish sample_scan_token Cm_fullScan 9 sample_scanned = (Fi_published, s')" using sample_published by simp
  from scan_snapshot_sorted [OF sample_scan_reach(3) p] p show ?thesis by blast
qed

end
