(* ===== verification/ForegroundScan.thy ===== *)
theory ForegroundScan
  imports ScanCache
begin

text \<open>The owner of a requested scan, \<open>src/network/NativeForegroundScan.hpp\<close>: one dwell per planned channel, each a hardware operation under its own
  token, with cancellation, a deadline and a probe per channel in an active scan. A plan is the list behind the pointer and the count.\<close>

section \<open>Data\<close>

definition fg_dwellMs :: u16 where "fg_dwellMs = 120"
definition fg_timeoutUs :: u64 where "fg_timeoutUs = 120000000"

record ForegroundToken =
  ft_epoch :: u64
  ft_request :: u64

definition ForegroundToken0 :: ForegroundToken where
  "ForegroundToken0 = \<lparr>ft_epoch = 0, ft_request = 0\<rparr>"

record ScanDwell =
  dw_epoch :: u64
  dw_operation :: u64

definition ScanDwell0 :: ScanDwell where
  "ScanDwell0 = \<lparr>dw_epoch = 0, dw_operation = 0\<rparr>"

definition ft_same :: "ForegroundToken \<Rightarrow> ForegroundToken \<Rightarrow> bool" where
  "ft_same a b \<longleftrightarrow> ft_epoch a = ft_epoch b \<and> ft_request a = ft_request b"

definition dw_same :: "ScanDwell \<Rightarrow> ScanDwell \<Rightarrow> bool" where
  "dw_same a b \<longleftrightarrow> dw_epoch a = dw_epoch b \<and> dw_operation a = dw_operation b"

datatype ForegroundPhase = Fp_none | Fp_queued | Fp_scanning | Fp_draining | Fp_complete | Fp_cancelled | Fp_timedOut | Fp_failed
datatype ForegroundReason = Fr_none | Fr_caller | Fr_selection | Fr_disabled | Fr_shutdown | Fr_timeout | Fr_backend | Fr_observation | Fr_protocol
  | Fr_clock | Fr_probe
datatype Admission = Am_accepted | Am_busy | Am_notReady | Am_unsupported | Am_invalid

record Readiness =
  rd_ready :: bool
  rd_stationIdle :: bool
  rd_protocolIdle :: bool
  rd_connected :: bool
  rd_pendingJoin :: bool
  rd_legacyCredentials :: bool
  rd_otherWork :: bool
  rd_activeAllowed :: bool

record ForegroundStatus =
  fs_token :: ForegroundToken
  fs_snapshot :: ScanToken
  fs_startedAtUs :: u64
  fs_deadlineUs :: u64
  fs_finishedAtUs :: u64
  fs_plannedChannels :: nat
  fs_completedChannels :: nat
  fs_probesSubmitted :: nat
  fs_dwellMs :: u16
  fs_activeScan :: bool
  fs_phase :: ForegroundPhase
  fs_reason :: ForegroundReason
  fs_drained :: bool

definition ForegroundStatus0 :: ForegroundStatus where
  "ForegroundStatus0 = \<lparr>fs_token = ForegroundToken0, fs_snapshot = ScanToken0, fs_startedAtUs = 0, fs_deadlineUs = 0, fs_finishedAtUs = 0,
     fs_plannedChannels = 0, fs_completedChannels = 0, fs_probesSubmitted = 0, fs_dwellMs = 0, fs_activeScan = False, fs_phase = Fp_none,
     fs_reason = Fr_none, fs_drained = False\<rparr>"

record ForegroundController =
  fc_channels :: "CacheChannel list"
  fc_status :: ForegroundStatus
  fc_dwell :: ScanDwell
  fc_serial :: u64
  fc_epoch :: u64
  fc_lastOperation :: u64
  fc_probeRequested :: bool
  fc_probeSubmitted :: bool
  fc_probeCompleted :: bool

definition ForegroundController0 :: ForegroundController where
  "ForegroundController0 = \<lparr>fc_channels = replicate maxChannels CacheChannel0, fc_status = ForegroundStatus0, fc_dwell = ScanDwell0, fc_serial = 0,
     fc_epoch = 0, fc_lastOperation = 0, fc_probeRequested = False, fc_probeSubmitted = False, fc_probeCompleted = False\<rparr>"

section \<open>Operations\<close>

abbreviation fg_status :: "(ForegroundStatus \<Rightarrow> ForegroundStatus) \<Rightarrow> ForegroundController \<Rightarrow> ForegroundController" where
  "fg_status f c \<equiv> c\<lparr>fc_status := f (fc_status c)\<rparr>"

definition cancelledPhase :: "ForegroundController \<Rightarrow> ForegroundPhase" where
  "cancelledPhase c = (if fs_reason (fc_status c) = Fr_timeout then Fp_timedOut else Fp_cancelled)"

definition endCancellation :: "u64 \<Rightarrow> ForegroundController \<Rightarrow> ForegroundController" where
  "endCancellation now c = c\<lparr>fc_status := (fc_status c)\<lparr>fs_phase := cancelledPhase c, fs_drained := True, fs_finishedAtUs := now\<rparr>, fc_dwell := ScanDwell0\<rparr>"

definition fg_active :: "ForegroundController \<Rightarrow> bool" where
  "fg_active c \<longleftrightarrow> fs_phase (fc_status c) = Fp_queued \<or> fs_phase (fc_status c) = Fp_scanning \<or> fs_phase (fc_status c) = Fp_draining"

definition fg_draining :: "ForegroundController \<Rightarrow> bool" where
  "fg_draining c \<longleftrightarrow> fs_phase (fc_status c) = Fp_draining"

definition fg_owns :: "ScanDwell \<Rightarrow> ForegroundController \<Rightarrow> bool" where
  "fg_owns t c \<longleftrightarrow> fg_active c \<and> dw_operation (fc_dwell c) \<noteq> 0 \<and> dw_same (fc_dwell c) t"

definition fg_observing :: "ScanDwell \<Rightarrow> ForegroundController \<Rightarrow> bool" where
  "fg_observing t c \<longleftrightarrow> fs_phase (fc_status c) = Fp_scanning \<and> fg_owns t c"

definition fg_operation :: "ForegroundController \<Rightarrow> ScanDwell" where
  "fg_operation c = fc_dwell c"

definition fg_token :: "ForegroundController \<Rightarrow> ForegroundToken" where
  "fg_token c = fs_token (fc_status c)"

definition fg_begin :: "Readiness \<Rightarrow> bool \<Rightarrow> u64 \<Rightarrow> u64 \<Rightarrow> CacheChannel list option \<Rightarrow> u16 \<Rightarrow> ForegroundController
    \<Rightarrow> Admission \<times> ForegroundStatus \<times> ForegroundController" where
  "fg_begin r activeScan epoch now plan requestedDwellMs c = (
     if activeScan \<and> \<not> rd_activeAllowed r then (Am_unsupported, ForegroundStatus0, c)
     else if \<not> rd_ready r then (Am_notReady, ForegroundStatus0, c)
     else if fg_active c \<or> dw_operation (fc_dwell c) \<noteq> 0 \<or> rd_connected r \<or> rd_pendingJoin r \<or> rd_legacyCredentials r \<or> rd_otherWork r \<or>
       \<not> rd_stationIdle r \<or> \<not> rd_protocolIdle r then (Am_busy, ForegroundStatus0, c)
     else case plan of None \<Rightarrow> (Am_invalid, ForegroundStatus0, c) | Some cs \<Rightarrow>
       if epoch = 0 \<or> epoch < fc_epoch c \<or> fc_serial c = - 1 \<or> cs = [] \<or> requestedDwellMs < 10 \<or> 1000 < requestedDwellMs \<or>
         maxChannels < length cs \<or> - 1 - now < fg_timeoutUs \<or> \<not> plan_ok [] cs then (Am_invalid, ForegroundStatus0, c)
       else let s = ForegroundStatus0\<lparr>fs_token := \<lparr>ft_epoch = epoch, ft_request = fc_serial c + 1\<rparr>, fs_startedAtUs := now,
             fs_deadlineUs := now + fg_timeoutUs, fs_plannedChannels := length cs, fs_dwellMs := requestedDwellMs, fs_phase := Fp_queued,
             fs_drained := True, fs_activeScan := activeScan\<rparr> in
         (Am_accepted, s, c\<lparr>fc_lastOperation := (if epoch \<noteq> fc_epoch c then 0 else fc_lastOperation c), fc_epoch := epoch,
            fc_serial := fc_serial c + 1, fc_status := s, fc_dwell := ScanDwell0, fc_probeRequested := False, fc_probeSubmitted := False,
            fc_probeCompleted := False, fc_channels := cs @ drop (length cs) (fc_channels c)\<rparr>))"

definition fg_begin_default :: "Readiness \<Rightarrow> bool \<Rightarrow> u64 \<Rightarrow> u64 \<Rightarrow> CacheChannel list option \<Rightarrow> ForegroundController
    \<Rightarrow> Admission \<times> ForegroundStatus \<times> ForegroundController" where
  "fg_begin_default r activeScan epoch now plan c = fg_begin r activeScan epoch now plan fg_dwellMs c"

definition fg_next :: "ForegroundController \<Rightarrow> CacheChannel option" where
  "fg_next c = (let s = fc_status c in
     if fs_phase s \<noteq> Fp_queued \<or> dw_operation (fc_dwell c) \<noteq> 0 \<or> fs_plannedChannels s \<le> fs_completedChannels s then None
     else Some (fc_channels c ! fs_completedChannels s))"

definition fg_accepted :: "ScanDwell \<Rightarrow> ForegroundController \<Rightarrow> bool \<times> ForegroundController" where
  "fg_accepted op c = (if fg_next c = None \<or> dw_epoch op \<noteq> ft_epoch (fs_token (fc_status c)) \<or> dw_operation op = 0 \<or>
       dw_operation op \<le> fc_lastOperation c then (False, c)
     else (True, c\<lparr>fc_lastOperation := dw_operation op, fc_dwell := op, fc_probeRequested := False, fc_probeSubmitted := False,
       fc_probeCompleted := False, fc_status := (fc_status c)\<lparr>fs_phase := Fp_scanning, fs_drained := False\<rparr>\<rparr>))"

definition fg_requestProbe :: "ScanDwell \<Rightarrow> CacheChannel \<Rightarrow> ForegroundController \<Rightarrow> bool \<times> ForegroundController" where
  "fg_requestProbe op ch c = (if \<not> fg_observing op c \<or> \<not> fs_activeScan (fc_status c) \<or> fc_probeRequested c \<or>
       \<not> ch_same ch (fc_channels c ! fs_completedChannels (fc_status c)) then (False, c)
     else (True, c\<lparr>fc_probeRequested := True\<rparr>))"

definition fg_pendingProbe :: "ScanDwell \<Rightarrow> ForegroundController \<Rightarrow> CacheChannel option" where
  "fg_pendingProbe op c = (if \<not> fg_observing op c \<or> \<not> fs_activeScan (fc_status c) \<or> \<not> fc_probeRequested c \<or> fc_probeSubmitted c then None
     else Some (fc_channels c ! fs_completedChannels (fc_status c)))"

definition fg_submittedProbe :: "ScanDwell \<Rightarrow> ForegroundController \<Rightarrow> bool \<times> ForegroundController" where
  "fg_submittedProbe op c = (if fg_pendingProbe op c = None then (False, c)
     else (True, fg_status (fs_probesSubmitted_update Suc) (c\<lparr>fc_probeSubmitted := True\<rparr>)))"

definition fg_completedProbe :: "ScanDwell \<Rightarrow> ForegroundController \<Rightarrow> bool \<times> ForegroundController" where
  "fg_completedProbe op c = (if \<not> fg_observing op c \<or> \<not> fs_activeScan (fc_status c) \<or> \<not> fc_probeSubmitted c \<or> fc_probeCompleted c then (False, c)
     else (True, c\<lparr>fc_probeCompleted := True\<rparr>))"

definition fg_cancel :: "ForegroundToken \<Rightarrow> ForegroundReason \<Rightarrow> u64 \<Rightarrow> ForegroundController \<Rightarrow> bool \<times> ForegroundController" where
  "fg_cancel t reason now c = (if \<not> fg_active c \<or> \<not> ft_same t (fs_token (fc_status c)) \<or> reason = Fr_none then (False, c)
     else if fs_phase (fc_status c) = Fp_draining then (True, c)
     else let d = fg_status (\<lambda>s. s\<lparr>fs_reason := reason, fs_snapshot := ScanToken0\<rparr>) c in
       (True, if dw_operation (fc_dwell d) \<noteq> 0 then fg_status (fs_phase_update (\<lambda>_. Fp_draining)) d else endCancellation now d))"

definition fg_expired :: "u64 \<Rightarrow> ForegroundController \<Rightarrow> bool \<times> ForegroundController" where
  "fg_expired now c = (if \<not> fg_active c \<or> fg_draining c \<or> now < fs_deadlineUs (fc_status c) then (False, c)
     else fg_cancel (fs_token (fc_status c)) Fr_timeout now c)"

definition fg_clockValid :: "u64 \<Rightarrow> ForegroundController \<Rightarrow> bool" where
  "fg_clockValid now c \<longleftrightarrow> \<not> fg_active c \<or> fs_startedAtUs (fc_status c) \<le> now"

definition fg_fail :: "ForegroundReason \<Rightarrow> u64 \<Rightarrow> ForegroundController \<Rightarrow> ForegroundController" where
  "fg_fail reason now c = (if \<not> fg_active c then c
     else fg_status (\<lambda>s. s\<lparr>fs_reason := reason, fs_phase := Fp_failed, fs_snapshot := ScanToken0,
       fs_drained := (dw_operation (fc_dwell c) = 0), fs_finishedAtUs := now\<rparr>) c)"

definition fg_channelFinished :: "ScanDwell \<Rightarrow> bool \<Rightarrow> u64 \<Rightarrow> ForegroundController \<Rightarrow> bool \<times> ForegroundController" where
  "fg_channelFinished op cancelled now c = (if \<not> fg_owns op c then (False, c)
     else if \<not> fg_clockValid now c then (True, fg_fail Fr_clock now c)
     else let d = fg_status (fs_drained_update (\<lambda>_. True)) ((snd (fg_expired now c))\<lparr>fc_dwell := ScanDwell0\<rparr>) in
       (True,
        if fg_draining d then endCancellation now d
        else if cancelled then endCancellation now (fg_status (fs_reason_update (\<lambda>_. Fr_backend)) d)
        else if fs_activeScan (fc_status d) \<and> \<not> fc_probeCompleted d then fg_fail Fr_probe now d
        else fg_status (\<lambda>s. s\<lparr>fs_completedChannels := fs_completedChannels s + 1, fs_phase := Fp_queued\<rparr>) d))"

definition fg_readyToFinish :: "ForegroundController \<Rightarrow> bool" where
  "fg_readyToFinish c \<longleftrightarrow> fs_phase (fc_status c) = Fp_queued \<and> fs_plannedChannels (fc_status c) \<noteq> 0 \<and>
     fs_completedChannels (fc_status c) = fs_plannedChannels (fc_status c) \<and> dw_operation (fc_dwell c) = 0"

definition fg_complete :: "ScanToken \<Rightarrow> u64 \<Rightarrow> ForegroundController \<Rightarrow> bool \<times> ForegroundController" where
  "fg_complete snapshot now c = (if \<not> fg_readyToFinish c \<or> tk_generation snapshot = 0 \<or> tk_epoch snapshot \<noteq> ft_epoch (fs_token (fc_status c)) \<or>
       \<not> fg_clockValid now c \<or> fs_deadlineUs (fc_status c) \<le> now then (False, c)
     else (True, fg_status (\<lambda>s. s\<lparr>fs_snapshot := snapshot, fs_phase := Fp_complete, fs_drained := True, fs_finishedAtUs := now\<rparr>) c))"

definition fg_hardwareStopped :: "u64 \<Rightarrow> ForegroundController \<Rightarrow> ForegroundController" where
  "fg_hardwareStopped now c = (if ft_request (fs_token (fc_status c)) = 0 then c
     else if fg_active c then endCancellation now (if fs_reason (fc_status c) = Fr_none then fg_status (fs_reason_update (\<lambda>_. Fr_shutdown)) c else c)
     else if fs_phase (fc_status c) = Fp_failed then fg_status (fs_drained_update (\<lambda>_. True)) (c\<lparr>fc_dwell := ScanDwell0\<rparr>)
     else c)"

definition fg_copy :: "ForegroundToken \<Rightarrow> ForegroundController \<Rightarrow> ForegroundStatus option" where
  "fg_copy t c = (if ft_request t = 0 \<or> \<not> ft_same t (fs_token (fc_status c)) then None else Some (fc_status c))"

section \<open>The invariant\<close>

datatype fg_call = Fg_begin Readiness bool u64 u64 "CacheChannel list option" u16 | Fg_accepted ScanDwell | Fg_requestProbe ScanDwell CacheChannel
  | Fg_submittedProbe ScanDwell | Fg_completedProbe ScanDwell | Fg_cancel ForegroundToken ForegroundReason u64 | Fg_expired u64
  | Fg_finished ScanDwell bool u64 | Fg_complete ScanToken u64 | Fg_fail ForegroundReason u64 | Fg_stopped u64

fun fg_exec :: "fg_call \<Rightarrow> ForegroundController \<Rightarrow> ForegroundController" where
  "fg_exec (Fg_begin r a e now plan d) c = snd (snd (fg_begin r a e now plan d c))"
| "fg_exec (Fg_accepted op) c = snd (fg_accepted op c)"
| "fg_exec (Fg_requestProbe op ch) c = snd (fg_requestProbe op ch c)"
| "fg_exec (Fg_submittedProbe op) c = snd (fg_submittedProbe op c)"
| "fg_exec (Fg_completedProbe op) c = snd (fg_completedProbe op c)"
| "fg_exec (Fg_cancel t reason now) c = snd (fg_cancel t reason now c)"
| "fg_exec (Fg_expired now) c = snd (fg_expired now c)"
| "fg_exec (Fg_finished op cancelled now) c = snd (fg_channelFinished op cancelled now c)"
| "fg_exec (Fg_complete snapshot now) c = snd (fg_complete snapshot now c)"
| "fg_exec (Fg_fail reason now) c = fg_fail reason now c"
| "fg_exec (Fg_stopped now) c = fg_hardwareStopped now c"

inductive fg_reach :: "ForegroundController \<Rightarrow> bool" where
  init: "fg_reach ForegroundController0"
| call: "fg_reach c \<Longrightarrow> fg_reach (fg_exec k c)"

text \<open>The facts that every call keeps, by the phase: what is outstanding, how far the plan is done, the probes, and the result.\<close>

definition fg_outstanding :: "ForegroundController \<Rightarrow> bool" where
  "fg_outstanding c \<longleftrightarrow> dw_operation (fc_dwell c) \<noteq> 0"

definition fg_owner_ok :: "ForegroundController \<Rightarrow> bool" where
  "fg_owner_ok c \<longleftrightarrow> (case fs_phase (fc_status c) of
       Fp_none \<Rightarrow> \<not> fg_outstanding c \<and> \<not> fs_drained (fc_status c)
     | Fp_scanning \<Rightarrow> fg_outstanding c \<and> \<not> fs_drained (fc_status c)
     | Fp_draining \<Rightarrow> fg_outstanding c \<and> \<not> fs_drained (fc_status c)
     | Fp_failed \<Rightarrow> fs_drained (fc_status c) \<longleftrightarrow> \<not> fg_outstanding c
     | _ \<Rightarrow> \<not> fg_outstanding c \<and> fs_drained (fc_status c)) \<and>
     (fg_outstanding c \<longrightarrow> dw_epoch (fc_dwell c) = ft_epoch (fs_token (fc_status c)) \<and> dw_operation (fc_dwell c) = fc_lastOperation c)"

definition fg_plan_ok :: "ForegroundController \<Rightarrow> bool" where
  "fg_plan_ok c \<longleftrightarrow> (let s = fc_status c in
     length (fc_channels c) = maxChannels \<and> fs_plannedChannels s \<le> maxChannels \<and> fs_completedChannels s \<le> fs_plannedChannels s \<and>
     (fg_outstanding c \<longrightarrow> fs_completedChannels s < fs_plannedChannels s) \<and>
     plan_ok [] (take (fs_plannedChannels s) (fc_channels c)) \<and> (ft_request (fs_token s) = 0 \<longleftrightarrow> fs_phase s = Fp_none) \<and>
     (fs_phase s = Fp_complete \<longrightarrow> fs_completedChannels s = fs_plannedChannels s \<and> fs_plannedChannels s \<noteq> 0))"

definition fg_probes_ok :: "ForegroundController \<Rightarrow> bool" where
  "fg_probes_ok c \<longleftrightarrow> (let s = fc_status c in
     (\<not> fs_activeScan s \<longrightarrow> fs_probesSubmitted s = 0) \<and> (fc_probeCompleted c \<longrightarrow> fc_probeSubmitted c) \<and> (fc_probeSubmitted c \<longrightarrow> fc_probeRequested c) \<and>
     (fs_activeScan s \<longrightarrow> (fs_phase s = Fp_queued \<or> fs_phase s = Fp_complete \<longrightarrow> fs_probesSubmitted s = fs_completedChannels s) \<and>
       (fs_phase s = Fp_scanning \<longrightarrow> fs_probesSubmitted s = fs_completedChannels s + of_bool (fc_probeSubmitted c))))"

definition fg_result_ok :: "ForegroundController \<Rightarrow> bool" where
  "fg_result_ok c \<longleftrightarrow> (let s = fc_status c in
     (case fs_phase s of Fp_queued \<Rightarrow> fs_reason s = Fr_none | Fp_scanning \<Rightarrow> fs_reason s = Fr_none | Fp_complete \<Rightarrow> fs_reason s = Fr_none
        | Fp_none \<Rightarrow> fs_reason s = Fr_none | Fp_timedOut \<Rightarrow> fs_reason s = Fr_timeout | Fp_cancelled \<Rightarrow> fs_reason s \<noteq> Fr_none \<and> fs_reason s \<noteq> Fr_timeout
        | Fp_draining \<Rightarrow> fs_reason s \<noteq> Fr_none | Fp_failed \<Rightarrow> True) \<and>
     (if fs_phase s = Fp_complete then tk_generation (fs_snapshot s) \<noteq> 0 \<and> tk_epoch (fs_snapshot s) = ft_epoch (fs_token s) \<and>
        fs_startedAtUs s \<le> fs_finishedAtUs s \<and> fs_finishedAtUs s < fs_deadlineUs s
      else fs_snapshot s = ScanToken0))"

definition fg_inv :: "ForegroundController \<Rightarrow> bool" where
  "fg_inv c \<longleftrightarrow> fg_owner_ok c \<and> fg_plan_ok c \<and> fg_probes_ok c \<and> fg_result_ok c"

lemmas fg_inv_defs = fg_inv_def fg_owner_ok_def fg_plan_ok_def fg_probes_ok_def fg_result_ok_def fg_outstanding_def Let_def

lemmas fg_op_defs = fg_accepted_def fg_next_def fg_requestProbe_def fg_submittedProbe_def fg_completedProbe_def fg_pendingProbe_def fg_observing_def
  fg_owns_def fg_active_def fg_draining_def dw_same_def

lemma fg_init_inv: "fg_inv ForegroundController0"
  by (simp add: fg_inv_defs ForegroundController0_def ForegroundStatus0_def ForegroundToken0_def ScanDwell0_def)

lemma admission: "P c \<Longrightarrow> (\<not> g1 \<Longrightarrow> \<not> g2 \<Longrightarrow> \<not> g3 \<Longrightarrow> \<not> g4 \<Longrightarrow> P e) \<Longrightarrow>
  P (snd (snd (if g1 then (x1, y, c) else if g2 then (x2, y, c) else if g3 then (x3, y, c) else if g4 then (x4, y, c) else (x5, z, e))))"
  by simp

lemma fg_begin_inv:
  assumes "fg_inv c"
  shows "fg_inv (snd (snd (fg_begin r a e now plan d c)))"
proof (cases plan)
  case None
  then show ?thesis using assms by (simp add: fg_begin_def)
next
  case (Some cs)
  have len: "length (fc_channels c) = maxChannels" using assms by (simp add: fg_inv_def fg_plan_ok_def Let_def)
  show ?thesis unfolding fg_begin_def Some option.case Let_def
  proof (rule admission)
    assume "\<not> (e = 0 \<or> e < fc_epoch c \<or> fc_serial c = - 1 \<or> cs = [] \<or> d < 10 \<or> 1000 < d \<or> maxChannels < length cs \<or> - 1 - now < fg_timeoutUs \<or> \<not> plan_ok [] cs)"
    then have g: "fc_serial c \<noteq> - 1" "length cs \<le> maxChannels" "plan_ok [] cs" by simp_all
    have "fc_serial c + 1 \<noteq> 0" using g(1) by (metis add.commute add_eq_0_iff)
    then show "fg_inv (c\<lparr>fc_lastOperation := (if e \<noteq> fc_epoch c then 0 else fc_lastOperation c), fc_epoch := e, fc_serial := fc_serial c + 1,
        fc_status := ForegroundStatus0\<lparr>fs_token := \<lparr>ft_epoch = e, ft_request = fc_serial c + 1\<rparr>, fs_startedAtUs := now,
          fs_deadlineUs := now + fg_timeoutUs, fs_plannedChannels := length cs, fs_dwellMs := d, fs_phase := Fp_queued, fs_drained := True,
          fs_activeScan := a\<rparr>, fc_dwell := ScanDwell0, fc_probeRequested := False, fc_probeSubmitted := False,
        fc_probeCompleted := False, fc_channels := cs @ drop (length cs) (fc_channels c)\<rparr>)"
      using g len by (simp add: fg_inv_defs ForegroundStatus0_def ScanDwell0_def)
  qed (rule assms)
qed

text \<open>A guarded operation leaves the state alone or makes its one update.\<close>

lemma guarded: "P c \<Longrightarrow> (\<not> b \<Longrightarrow> P d) \<Longrightarrow> P (snd (if b then (False, c) else (True, d)))"
  by simp

lemma fg_accepted_inv: "fg_inv c \<Longrightarrow> fg_inv (snd (fg_accepted op c))"
  unfolding fg_accepted_def by (rule guarded) (auto simp: fg_inv_defs fg_next_def split: if_splits)

text \<open>The probe flags matter to the probe count alone.\<close>

lemma probe_frame [simp]:
  "fg_owner_ok (c\<lparr>fc_probeRequested := b\<rparr>) = fg_owner_ok c" "fg_plan_ok (c\<lparr>fc_probeRequested := b\<rparr>) = fg_plan_ok c"
  "fg_result_ok (c\<lparr>fc_probeRequested := b\<rparr>) = fg_result_ok c" "fg_owner_ok (c\<lparr>fc_probeSubmitted := b\<rparr>) = fg_owner_ok c"
  "fg_plan_ok (c\<lparr>fc_probeSubmitted := b\<rparr>) = fg_plan_ok c" "fg_result_ok (c\<lparr>fc_probeSubmitted := b\<rparr>) = fg_result_ok c"
  "fg_owner_ok (c\<lparr>fc_probeCompleted := b\<rparr>) = fg_owner_ok c" "fg_plan_ok (c\<lparr>fc_probeCompleted := b\<rparr>) = fg_plan_ok c"
  "fg_result_ok (c\<lparr>fc_probeCompleted := b\<rparr>) = fg_result_ok c"
  "fg_owner_ok (fg_status (fs_probesSubmitted_update f) c) = fg_owner_ok c" "fg_plan_ok (fg_status (fs_probesSubmitted_update f) c) = fg_plan_ok c"
  "fg_result_ok (fg_status (fs_probesSubmitted_update f) c) = fg_result_ok c"
  by (simp_all add: fg_owner_ok_def fg_plan_ok_def fg_result_ok_def fg_outstanding_def Let_def cong: ForegroundPhase.case_cong)

lemma fg_requestProbe_inv: "fg_inv c \<Longrightarrow> fg_inv (snd (fg_requestProbe op ch c))"
  unfolding fg_requestProbe_def by (rule guarded) (simp_all add: fg_inv_def fg_probes_ok_def Let_def)

lemma fg_submittedProbe_inv: "fg_inv c \<Longrightarrow> fg_inv (snd (fg_submittedProbe op c))"
  unfolding fg_submittedProbe_def
proof (rule guarded)
  assume i: "fg_inv c" and "\<not> fg_pendingProbe op c = None"
  then have g: "fs_phase (fc_status c) = Fp_scanning" "fs_activeScan (fc_status c)" "fc_probeRequested c" "\<not> fc_probeSubmitted c"
    by (simp_all add: fg_pendingProbe_def fg_observing_def split: if_splits)
  have "fg_probes_ok c" using i by (simp add: fg_inv_def)
  then have "fg_probes_ok (fg_status (fs_probesSubmitted_update Suc) (c\<lparr>fc_probeSubmitted := True\<rparr>))" using g by (simp add: fg_probes_ok_def Let_def)
  then show "fg_inv (fg_status (fs_probesSubmitted_update Suc) (c\<lparr>fc_probeSubmitted := True\<rparr>))"
    using i unfolding fg_inv_def probe_frame by simp
qed

lemma fg_completedProbe_inv: "fg_inv c \<Longrightarrow> fg_inv (snd (fg_completedProbe op c))"
  unfolding fg_completedProbe_def by (rule guarded) (simp_all add: fg_inv_def fg_probes_ok_def Let_def)

lemma fg_fail_inv: "fg_inv c \<Longrightarrow> fg_inv (fg_fail reason now c)"
  by (cases "fs_phase (fc_status c)") (simp_all add: fg_inv_defs fg_fail_def fg_active_def)

text \<open>The end of a cancelled scan, whatever it did before.\<close>

lemma endCancellation_inv:
  assumes "fg_inv c" and "fg_active c" and "r \<noteq> Fr_none"
    and "fc_status d = (fc_status c)\<lparr>fs_reason := r, fs_snapshot := ScanToken0, fs_drained := b, fs_phase := p\<rparr>"
    and "fc_channels d = fc_channels c" and "fc_probeRequested d = fc_probeRequested c" and "fc_probeSubmitted d = fc_probeSubmitted c"
    and "fc_probeCompleted d = fc_probeCompleted c"
  shows "fg_inv (endCancellation now d)"
  using assms(1-3) unfolding endCancellation_def cancelledPhase_def assms(4)
  by (cases "fs_phase (fc_status c)") (simp_all add: fg_inv_defs ScanDwell0_def fg_active_def assms(5-8))

lemma fg_cancel_inv:
  assumes "fg_inv c"
  shows "fg_inv (snd (fg_cancel t reason now c))"
proof (cases "fg_active c \<and> ft_same t (fs_token (fc_status c)) \<and> reason \<noteq> Fr_none \<and> fs_phase (fc_status c) \<noteq> Fp_draining")
  case True
  let ?d = "fg_status (\<lambda>s. s\<lparr>fs_reason := reason, fs_snapshot := ScanToken0\<rparr>) c"
  have "fg_inv (endCancellation now ?d)"
    by (rule endCancellation_inv [OF assms, where r = reason and b = "fs_drained (fc_status c)" and p = "fs_phase (fc_status c)"]) (use True in simp_all)
  moreover have "dw_operation (fc_dwell c) \<noteq> 0 \<Longrightarrow> fg_inv (fg_status (fs_phase_update (\<lambda>_. Fp_draining)) ?d)"
    using assms True by (cases "fs_phase (fc_status c)") (simp_all add: fg_inv_defs fg_active_def)
  ultimately show ?thesis using True by (simp add: fg_cancel_def Let_def)
qed (use assms in \<open>auto simp: fg_cancel_def\<close>)

lemma fg_expired_inv: "fg_inv c \<Longrightarrow> fg_inv (snd (fg_expired now c))"
  by (simp add: fg_expired_def fg_cancel_inv)

lemma fg_stopped_inv:
  assumes "fg_inv c"
  shows "fg_inv (fg_hardwareStopped now c)"
proof (cases "fg_active c")
  case True
  have "fs_snapshot (fc_status c) = ScanToken0" using assms True by (auto simp: fg_inv_def fg_result_ok_def Let_def fg_active_def)
  then have "fg_inv (endCancellation now (if fs_reason (fc_status c) = Fr_none then fg_status (fs_reason_update (\<lambda>_. Fr_shutdown)) c else c))"
    by (intro endCancellation_inv [OF assms True, where r = "if fs_reason (fc_status c) = Fr_none then Fr_shutdown else fs_reason (fc_status c)"
      and b = "fs_drained (fc_status c)" and p = "fs_phase (fc_status c)"]) simp_all
  then show ?thesis using assms True by (simp add: fg_hardwareStopped_def)
next
  case False
  then show ?thesis using assms by (simp add: fg_hardwareStopped_def fg_inv_defs ScanDwell0_def split: ForegroundPhase.splits)
qed

lemma fg_complete_inv: "fg_inv c \<Longrightarrow> fg_inv (snd (fg_complete snapshot now c))"
  unfolding fg_complete_def
  by (rule guarded) (simp_all add: fg_inv_defs fg_readyToFinish_def fg_clockValid_def fg_active_def not_le, auto)

text \<open>What the deadline makes of a scan with an operation outstanding: it drains, and nothing else changes.\<close>

lemma fg_expired_owned:
  assumes "fg_inv c" and "fg_owns op c"
  shows "snd (fg_expired now c) = (if fs_phase (fc_status c) = Fp_scanning \<and> fs_deadlineUs (fc_status c) \<le> now
    then fg_status (\<lambda>s. s\<lparr>fs_reason := Fr_timeout, fs_snapshot := ScanToken0, fs_phase := Fp_draining\<rparr>) c else c)"
  using assms by (cases "fs_phase (fc_status c)")
    (simp_all add: fg_expired_def fg_cancel_def fg_owns_def fg_active_def fg_draining_def ft_same_def Let_def fg_inv_def fg_owner_ok_def fg_outstanding_def not_less)

text \<open>The four ways a completion of the outstanding operation can end.\<close>

text \<open>The ways a completion of the outstanding operation can end.\<close>

abbreviation released :: "ForegroundController \<Rightarrow> ForegroundController" where
  "released c \<equiv> c\<lparr>fc_dwell := ScanDwell0, fc_status := (fc_status c)\<lparr>fs_drained := True\<rparr>\<rparr>"

lemma fg_finished_draining:
  assumes "fg_inv c" and "fg_owns op c" and "fg_clockValid now c" and "fs_phase (fc_status c) = Fp_draining"
  shows "snd (fg_channelFinished op cancelled now c) = endCancellation now (released c)"
  using assms fg_expired_owned [OF assms(1,2), of now] by (simp add: fg_channelFinished_def fg_draining_def Let_def)

lemma fg_finished_late:
  assumes "fg_inv c" and "fg_owns op c" and "fg_clockValid now c" and "fs_phase (fc_status c) = Fp_scanning" and "fs_deadlineUs (fc_status c) \<le> now"
  shows "snd (fg_channelFinished op cancelled now c) = endCancellation now
    (released (fg_status (\<lambda>s. s\<lparr>fs_reason := Fr_timeout, fs_snapshot := ScanToken0, fs_phase := Fp_draining\<rparr>) c))"
  using assms fg_expired_owned [OF assms(1,2), of now] by (simp add: fg_channelFinished_def fg_draining_def Let_def)

lemma fg_finished_scanning:
  assumes "fg_inv c" and "fg_owns op c" and "fg_clockValid now c" and "fs_phase (fc_status c) = Fp_scanning" and "now < fs_deadlineUs (fc_status c)"
  shows "snd (fg_channelFinished op cancelled now c) = (if cancelled then endCancellation now (fg_status (fs_reason_update (\<lambda>_. Fr_backend)) (released c))
    else if fs_activeScan (fc_status c) \<and> \<not> fc_probeCompleted c then fg_fail Fr_probe now (released c)
    else fg_status (\<lambda>s. s\<lparr>fs_completedChannels := fs_completedChannels s + 1, fs_phase := Fp_queued\<rparr>) (released c))"
proof -
  have "snd (fg_expired now c) = c" using fg_expired_owned [OF assms(1,2), of now] assms(5) by auto
  then show ?thesis using assms(2-4) unfolding fg_channelFinished_def Let_def by (simp add: fg_draining_def)
qed

lemma fg_owned_phase: "fg_inv c \<Longrightarrow> fg_owns op c \<Longrightarrow> fs_phase (fc_status c) = Fp_scanning \<or> fs_phase (fc_status c) = Fp_draining"
  by (auto simp: fg_active_def fg_owns_def fg_inv_def fg_owner_ok_def fg_outstanding_def)

lemma fg_active_snapshot: "fg_inv c \<Longrightarrow> fg_active c \<Longrightarrow> fs_snapshot (fc_status c) = ScanToken0"
  by (auto simp: fg_inv_def fg_result_ok_def Let_def fg_active_def)

lemma fg_finished_inv:
  assumes "fg_inv c"
  shows "fg_inv (snd (fg_channelFinished op cancelled now c))"
proof (cases "fg_owns op c \<and> fg_clockValid now c")
  case False
  then show ?thesis using assms by (auto simp: fg_channelFinished_def fg_fail_inv)
next
  case True
  then have o: "fg_owns op c" "fg_clockValid now c" and a: "fg_active c" by (simp_all add: fg_owns_def)
  note snap = fg_active_snapshot [OF assms a]
  consider (drain) "fs_phase (fc_status c) = Fp_draining" | (late) "fs_phase (fc_status c) = Fp_scanning" "fs_deadlineUs (fc_status c) \<le> now"
    | (scan) "fs_phase (fc_status c) = Fp_scanning" "now < fs_deadlineUs (fc_status c)"
    using fg_owned_phase [OF assms o(1)] by fastforce
  then show ?thesis
  proof cases
    case drain
    then have "fs_reason (fc_status c) \<noteq> Fr_none" using assms by (simp add: fg_inv_def fg_result_ok_def Let_def)
    from endCancellation_inv [OF assms a this, where d = "released c" and b = True and p = Fp_draining] show ?thesis
      using drain snap by (simp add: fg_finished_draining [OF assms o])
  next
    case late
    show ?thesis unfolding fg_finished_late [OF assms o late]
      by (rule endCancellation_inv [OF assms a, where r = Fr_timeout and b = True and p = Fp_draining]) simp_all
  next
    case scan
    have "fg_inv (endCancellation now (fg_status (fs_reason_update (\<lambda>_. Fr_backend)) (released c)))"
      by (rule endCancellation_inv [OF assms a, where r = Fr_backend and b = True and p = Fp_scanning]) (use scan snap in simp_all)
    moreover have "fg_inv (fg_fail Fr_probe now (released c))"
      using assms scan by (simp add: fg_inv_defs ScanDwell0_def fg_fail_def fg_active_def)
    moreover have "fs_activeScan (fc_status c) \<and> \<not> fc_probeCompleted c \<or>
        fg_inv (fg_status (\<lambda>s. s\<lparr>fs_completedChannels := fs_completedChannels s + 1, fs_phase := Fp_queued\<rparr>) (released c))"
      using assms scan(1) by (cases "fc_probeCompleted c"; cases "fs_activeScan (fc_status c)") (simp_all add: fg_inv_defs ScanDwell0_def Suc_le_eq)
    ultimately show ?thesis unfolding fg_finished_scanning [OF assms o scan] by presburger
  qed
qed

lemma fg_reach_inv: "fg_reach c \<Longrightarrow> fg_inv c"
proof (induction rule: fg_reach.induct)
  case (call c k)
  then show ?case
    by (cases k) (simp_all add: fg_begin_inv fg_accepted_inv fg_requestProbe_inv fg_submittedProbe_inv fg_completedProbe_inv fg_cancel_inv fg_expired_inv
      fg_finished_inv fg_complete_inv fg_fail_inv fg_stopped_inv)
qed (rule fg_init_inv)

section \<open>What a scan promises\<close>

text \<open>C35: Between calls a request is drained exactly when no hardware operation is outstanding, a new scan is never admitted over
  an outstanding operation, and a scan that reports completion has dwelt on every planned channel, probed each of them if it is an active scan, and
  finished between its start and its deadline with no operation left.\<close>

theorem fg_scan_owned:
  assumes "fg_reach c"
  shows "(ft_request (fs_token (fc_status c)) \<noteq> 0 \<longrightarrow> (fs_drained (fc_status c) \<longleftrightarrow> dw_operation (fc_dwell c) = 0)) \<and>
    (dw_operation (fc_dwell c) \<noteq> 0 \<longrightarrow> fst (fg_begin r a e now plan d c) \<noteq> Am_accepted) \<and>
    (fs_phase (fc_status c) = Fp_complete \<longrightarrow> dw_operation (fc_dwell c) = 0 \<and> fs_completedChannels (fc_status c) = fs_plannedChannels (fc_status c) \<and>
      fs_plannedChannels (fc_status c) \<noteq> 0 \<and> (fs_activeScan (fc_status c) \<longrightarrow> fs_probesSubmitted (fc_status c) = fs_plannedChannels (fc_status c)) \<and>
      fs_startedAtUs (fc_status c) \<le> fs_finishedAtUs (fc_status c) \<and> fs_finishedAtUs (fc_status c) < fs_deadlineUs (fc_status c))"
proof -
  have i: "fg_inv c" by (rule fg_reach_inv [OF assms])
  have "dw_operation (fc_dwell c) \<noteq> 0 \<Longrightarrow> fst (fg_begin r a e now plan d c) \<noteq> Am_accepted" by (simp add: fg_begin_def)
  moreover have "ft_request (fs_token (fc_status c)) \<noteq> 0 \<Longrightarrow> fs_drained (fc_status c) \<longleftrightarrow> dw_operation (fc_dwell c) = 0"
    using i by (cases "fs_phase (fc_status c)") (simp_all add: fg_inv_def fg_owner_ok_def fg_plan_ok_def fg_outstanding_def Let_def)
  moreover have "fs_phase (fc_status c) = Fp_complete \<Longrightarrow> ?thesis" using i calculation by (simp add: fg_inv_defs)
  ultimately show ?thesis by blast
qed

definition fg_ended :: "ForegroundController \<Rightarrow> bool" where
  "fg_ended c \<longleftrightarrow> fs_phase (fc_status c) \<in> {Fp_draining, Fp_cancelled, Fp_timedOut, Fp_failed}"

lemma fg_ended_finish:
  assumes "fg_inv c" and "fg_ended c"
  shows "fg_ended (snd (fg_channelFinished op cancelled now c)) \<and> fc_dwell (snd (fg_channelFinished op cancelled now c)) \<in> {fc_dwell c, ScanDwell0}"
proof (cases "fg_owns op c \<and> fg_clockValid now c")
  case True
  then have "fs_phase (fc_status c) = Fp_draining" using fg_owned_phase [OF assms(1)] assms(2) by (auto simp: fg_ended_def)
  with fg_finished_draining [OF assms(1)] True show ?thesis
    by (simp add: fg_ended_def endCancellation_def cancelledPhase_def)
next
  case False
  then show ?thesis using assms by (auto simp: fg_channelFinished_def fg_fail_def fg_ended_def)
qed

text \<open>A scan that is being cancelled, or has been cancelled, timed out or failed, stays so until another scan is
  admitted: no call makes it complete, none gives it a new hardware operation, and no later cancellation changes the cause.\<close>

theorem fg_cancel_final:
  assumes "fg_reach c" and "fg_ended c" and "\<forall>r a e now plan d. k \<noteq> Fg_begin r a e now plan d"
  shows "fg_ended (fg_exec k c) \<and> fc_dwell (fg_exec k c) \<in> {fc_dwell c, ScanDwell0} \<and>
    fs_reason (fc_status (fg_exec (Fg_cancel t reason now) c)) = fs_reason (fc_status c)"
proof -
  have i: "fg_inv c" by (rule fg_reach_inv [OF assms(1)])
  have "fg_ended (fg_exec k c) \<and> fc_dwell (fg_exec k c) \<in> {fc_dwell c, ScanDwell0}"
  proof (cases k)
    case (Fg_finished op cancelled now)
    then show ?thesis using fg_ended_finish [OF i assms(2)] by simp
  qed (use assms(2,3) in \<open>auto simp: fg_ended_def fg_op_defs fg_cancel_def fg_expired_def fg_fail_def fg_hardwareStopped_def endCancellation_def
      cancelledPhase_def fg_complete_def fg_readyToFinish_def Let_def\<close>)
  moreover have "fs_reason (fc_status (fg_exec (Fg_cancel t reason now) c)) = fs_reason (fc_status c)"
    using assms(2) by (auto simp: fg_cancel_def fg_ended_def fg_active_def)
  ultimately show ?thesis by simp
qed

text \<open>One dwell the way the driver performs it: accepted, probed in an active scan, finished.\<close>

definition dwell_once :: "ScanDwell \<Rightarrow> u64 \<Rightarrow> ForegroundController \<Rightarrow> ForegroundController" where
  "dwell_once op now c = (let ch = the (fg_next c); c1 = snd (fg_accepted op c);
       c2 = (if fs_activeScan (fc_status c) then snd (fg_completedProbe op (snd (fg_submittedProbe op (snd (fg_requestProbe op ch c1))))) else c1)
     in snd (fg_channelFinished op False now c2))"

fun dwell_run :: "(ScanDwell \<times> u64) list \<Rightarrow> ForegroundController \<Rightarrow> CacheChannel option list \<times> ForegroundController" where
  "dwell_run [] c = ([], c)"
| "dwell_run ((op, now) # r) c = (let (v, c') = dwell_run r (dwell_once op now c) in (fg_next c # v, c'))"

lemma dwell_once_step:
  assumes "fs_phase (fc_status c) = Fp_queued" and "dw_operation (fc_dwell c) = 0" and "fs_completedChannels (fc_status c) < fs_plannedChannels (fc_status c)"
    and "dw_epoch op = ft_epoch (fs_token (fc_status c))" and "fc_lastOperation c < dw_operation op" and "fs_startedAtUs (fc_status c) \<le> now"
    and "now < fs_deadlineUs (fc_status c)"
  shows "dwell_once op now c = c\<lparr>fc_lastOperation := dw_operation op, fc_dwell := ScanDwell0, fc_probeRequested := fs_activeScan (fc_status c),
    fc_probeSubmitted := fs_activeScan (fc_status c), fc_probeCompleted := fs_activeScan (fc_status c),
    fc_status := (fc_status c)\<lparr>fs_drained := True, fs_probesSubmitted := fs_probesSubmitted (fc_status c) + of_bool (fs_activeScan (fc_status c)),
      fs_completedChannels := fs_completedChannels (fc_status c) + 1, fs_phase := Fp_queued\<rparr>\<rparr>"
proof -
  have n: "fg_next c = Some (fc_channels c ! fs_completedChannels (fc_status c))" using assms by (simp add: fg_next_def)
  have z: "dw_operation op \<noteq> 0" using assms(5) by auto
  have acc: "snd (fg_accepted op c) = c\<lparr>fc_lastOperation := dw_operation op, fc_dwell := op, fc_probeRequested := False, fc_probeSubmitted := False,
      fc_probeCompleted := False, fc_status := (fc_status c)\<lparr>fs_phase := Fp_scanning, fs_drained := False\<rparr>\<rparr>"
    using assms(4,5) z by (simp add: fg_accepted_def n not_le)
  show ?thesis
    using assms(6,7) z unfolding dwell_once_def acc n Let_def option.sel
    by (cases "fs_activeScan (fc_status c)") (simp_all add: fg_op_defs fg_channelFinished_def fg_clockValid_def fg_expired_def ch_same_def Let_def)
qed

text \<open>Operations an owner may hand out for a scan: its epoch, rising numbers, completions within its time.\<close>

definition dwell_ok :: "u64 \<Rightarrow> u64 \<Rightarrow> u64 \<Rightarrow> (ScanDwell \<times> u64) list \<Rightarrow> bool" where
  "dwell_ok epoch start end ops \<longleftrightarrow> list_all (\<lambda>(op, now). dw_epoch op = epoch \<and> start \<le> now \<and> now < end) ops"

definition ready_after :: "ForegroundController \<Rightarrow> ForegroundController \<Rightarrow> bool" where
  "ready_after c c' \<longleftrightarrow> (let s = fc_status c; s' = fc_status c' in
     fs_phase s' = Fp_queued \<and> dw_operation (fc_dwell c') = 0 \<and> fs_completedChannels s' = fs_plannedChannels s \<and> fs_plannedChannels s' = fs_plannedChannels s \<and>
     fs_token s' = fs_token s \<and> fs_startedAtUs s' = fs_startedAtUs s \<and> fs_deadlineUs s' = fs_deadlineUs s)"

lemma dwell_run_visits:
  assumes "fs_phase (fc_status c) = Fp_queued" and "dw_operation (fc_dwell c) = 0"
    and "fs_completedChannels (fc_status c) + length ops = fs_plannedChannels (fc_status c)" and "fs_plannedChannels (fc_status c) \<le> length (fc_channels c)"
    and "sorted_wrt (<) (fc_lastOperation c # map (dw_operation \<circ> fst) ops)"
    and "dwell_ok (ft_epoch (fs_token (fc_status c))) (fs_startedAtUs (fc_status c)) (fs_deadlineUs (fc_status c)) ops"
  shows "fst (dwell_run ops c) = map Some (take (length ops) (drop (fs_completedChannels (fc_status c)) (fc_channels c))) \<and>
    ready_after c (snd (dwell_run ops c))"
  using assms
proof (induction ops arbitrary: c)
  case Nil
  then show ?case by (simp add: ready_after_def Let_def)
next
  case (Cons x r)
  obtain op now where x: "x = (op, now)" by fastforce
  let ?k = "fs_completedChannels (fc_status c)" and ?d = "dwell_once op now c"
  have step: "?d = c\<lparr>fc_lastOperation := dw_operation op, fc_dwell := ScanDwell0, fc_probeRequested := fs_activeScan (fc_status c),
      fc_probeSubmitted := fs_activeScan (fc_status c), fc_probeCompleted := fs_activeScan (fc_status c),
      fc_status := (fc_status c)\<lparr>fs_drained := True, fs_probesSubmitted := fs_probesSubmitted (fc_status c) + of_bool (fs_activeScan (fc_status c)),
        fs_completedChannels := ?k + 1, fs_phase := Fp_queued\<rparr>\<rparr>"
    by (rule dwell_once_step) (use Cons.prems in \<open>auto simp: x dwell_ok_def\<close>)
  have n: "fg_next c = Some (fc_channels c ! ?k)" using Cons.prems by (simp add: fg_next_def)
  have ih: "fst (dwell_run r ?d) = map Some (take (length r) (drop (fs_completedChannels (fc_status ?d)) (fc_channels ?d))) \<and> ready_after ?d (snd (dwell_run r ?d))"
    by (rule Cons.IH) (use Cons.prems in \<open>auto simp: step x dwell_ok_def ScanDwell0_def\<close>)
  have "take (Suc (length r)) (drop ?k (fc_channels c)) = fc_channels c ! ?k # take (length r) (drop (Suc ?k) (fc_channels c))"
    using Cons.prems(3,4) by (subst Cons_nth_drop_Suc [symmetric]) simp_all
  moreover have "ready_after c c'" if "ready_after ?d c'" for c' using that by (simp add: step ready_after_def Let_def)
  moreover have "snd (dwell_run (x # r) c) = snd (dwell_run r ?d)" "fst (dwell_run (x # r) c) = fg_next c # fst (dwell_run r ?d)"
    by (simp_all add: x split_beta)
  ultimately show ?case using ih n by (simp add: step)
qed

text \<open>An admitted scan can be carried out: with one accepted and finished operation per channel inside its two minutes, passive
  or with its probes, it visits the planned channels in their order and completes with the snapshot of its epoch.\<close>

theorem fg_scan_completes:
  assumes "fg_begin r a e t0 (Some cs) d c = (Am_accepted, s, c0)" and "length ops = length cs"
    and "sorted_wrt (<) (fc_lastOperation c0 # map (dw_operation \<circ> fst) ops)" and "dwell_ok e t0 (t0 + fg_timeoutUs) ops"
    and "t0 \<le> now" and "now < t0 + fg_timeoutUs" and "tk_generation snap \<noteq> 0" and "tk_epoch snap = e"
  shows "fst (dwell_run ops c0) = map Some cs \<and> fst (fg_complete snap now (snd (dwell_run ops c0))) \<and>
    fs_phase (fc_status (snd (fg_complete snap now (snd (dwell_run ops c0))))) = Fp_complete"
proof -
  have c0: "fc_channels c0 = cs @ drop (length cs) (fc_channels c)" "fc_dwell c0 = ScanDwell0" "fs_phase (fc_status c0) = Fp_queued"
      "fs_plannedChannels (fc_status c0) = length cs" "fs_completedChannels (fc_status c0) = 0" "ft_epoch (fs_token (fc_status c0)) = e"
      "fs_startedAtUs (fc_status c0) = t0" "fs_deadlineUs (fc_status c0) = t0 + fg_timeoutUs" and ne: "cs \<noteq> []"
    using assms(1) by (auto simp: fg_begin_def Let_def ForegroundStatus0_def split: if_splits)
  have "fst (dwell_run ops c0) = map Some (take (length ops) (drop (fs_completedChannels (fc_status c0)) (fc_channels c0))) \<and>
      ready_after c0 (snd (dwell_run ops c0))"
    by (rule dwell_run_visits) (use assms(2-4) in \<open>simp_all add: c0 ScanDwell0_def\<close>)
  moreover have "fst (fg_complete snap now c') \<and> fs_phase (fc_status (snd (fg_complete snap now c'))) = Fp_complete" if "ready_after c0 c'" for c'
    using that assms(5-8) ne by (simp add: ready_after_def Let_def c0 fg_complete_def fg_readyToFinish_def fg_clockValid_def)
  ultimately show ?thesis using assms(2) by (simp add: c0)
qed

section \<open>Witnesses\<close>

definition sample_ready :: Readiness where
  "sample_ready = \<lparr>rd_ready = True, rd_stationIdle = True, rd_protocolIdle = True, rd_connected = False, rd_pendingJoin = False,
     rd_legacyCredentials = False, rd_otherWork = False, rd_activeAllowed = True\<rparr>"

definition sample_channels :: "CacheChannel list" where
  "sample_channels = [\<lparr>ch_band = Bd_ghz2, ch_number = 1\<rparr>, \<lparr>ch_band = Bd_ghz2, ch_number = 6\<rparr>]"

definition sample_fg :: ForegroundController where
  "sample_fg = snd (snd (fg_begin sample_ready True 3 10 (Some sample_channels) 120 ForegroundController0))"

definition sample_ops :: "(ScanDwell \<times> u64) list" where
  "sample_ops = [(\<lparr>dw_epoch = 3, dw_operation = 5\<rparr>, 20), (\<lparr>dw_epoch = 3, dw_operation = 8\<rparr>, 30)]"

lemma sample_fg_eval: "fg_begin sample_ready True 3 10 (Some sample_channels) 120 ForegroundController0 = (Am_accepted, fc_status sample_fg, sample_fg)"
    "fc_lastOperation sample_fg = 0" "fs_token (fc_status sample_fg) = \<lparr>ft_epoch = 3, ft_request = 1\<rparr>" "fs_phase (fc_status sample_fg) = Fp_queued"
    "fc_dwell sample_fg = ScanDwell0"
  by (simp_all add: sample_fg_def fg_begin_def sample_ready_def ForegroundController0_def ForegroundStatus0_def ScanDwell0_def fg_active_def sample_channels_def
    maxChannels_def fg_timeoutUs_def ch_valid_def ch_same_def Let_def word_less_nat_alt word_le_nat_alt)

theorem fg_scan_completes_witness:
  "fst (dwell_run sample_ops sample_fg) = map Some sample_channels \<and>
   fs_phase (fc_status (snd (fg_complete \<lparr>tk_generation = 1, tk_epoch = 3\<rparr> 40 (snd (dwell_run sample_ops sample_fg))))) = Fp_complete"
proof -
  have ops: "length sample_ops = length sample_channels" "dwell_ok 3 10 (10 + fg_timeoutUs) sample_ops"
      "sorted_wrt (<) (fc_lastOperation sample_fg # map (dw_operation \<circ> fst) sample_ops)"
    by (simp_all add: sample_ops_def sample_channels_def dwell_ok_def fg_timeoutUs_def sample_fg_eval word_less_nat_alt word_le_nat_alt)
  show ?thesis using fg_scan_completes [OF sample_fg_eval(1) ops(1,3,2), of 40 "\<lparr>tk_generation = 1, tk_epoch = 3\<rparr>"]
    by (simp add: fg_timeoutUs_def word_less_nat_alt word_le_nat_alt)
qed

lemma sample_fg_reach: "fg_reach sample_fg"
  using fg_reach.call [OF fg_reach.init, of "Fg_begin sample_ready True 3 10 (Some sample_channels) 120"] by (simp add: sample_fg_def)

theorem fg_scan_owned_witness:
  "fs_drained (fc_status (snd (fg_accepted \<lparr>dw_epoch = 3, dw_operation = 5\<rparr> sample_fg))) \<longleftrightarrow>
   dw_operation (fc_dwell (snd (fg_accepted \<lparr>dw_epoch = 3, dw_operation = 5\<rparr> sample_fg))) = 0"
proof -
  let ?c = "snd (fg_accepted \<lparr>dw_epoch = 3, dw_operation = 5\<rparr> sample_fg)"
  have "fg_reach ?c" using fg_reach.call [OF sample_fg_reach, of "Fg_accepted \<lparr>dw_epoch = 3, dw_operation = 5\<rparr>"] by simp
  moreover have "ft_request (fs_token (fc_status ?c)) \<noteq> 0" by (simp add: fg_accepted_def sample_fg_eval)
  ultimately show ?thesis using fg_scan_owned by blast
qed

theorem fg_cancel_final_witness:
  "fg_ended (fg_exec (Fg_complete ScanToken0 50) (fg_exec (Fg_cancel \<lparr>ft_epoch = 3, ft_request = 1\<rparr> Fr_caller 20) sample_fg))"
proof -
  let ?c = "fg_exec (Fg_cancel \<lparr>ft_epoch = 3, ft_request = 1\<rparr> Fr_caller 20) sample_fg"
  have "fg_reach ?c" by (rule fg_reach.call [OF sample_fg_reach])
  moreover have "fg_ended ?c"
    by (simp add: sample_fg_eval fg_cancel_def fg_active_def ft_same_def ScanDwell0_def endCancellation_def cancelledPhase_def fg_ended_def)
  ultimately show ?thesis using fg_cancel_final [of ?c "Fg_complete ScanToken0 50"] by blast
qed

end
