(* ===== verification/ScanObserver.thy ===== *)
theory ScanObserver
  imports ScanCache
begin

text \<open>The observer of a scan, \<open>src/network/NativeScanObservation.hpp\<close>: the parser of beacons and probe responses, and the object that follows the dwells of
  one scan and hands the parsed frames to the cache. A frame is the list behind the pointer and the length, a plan the list behind its pointer and
  count.\<close>

section \<open>Beacons and probe responses\<close>

text \<open>What the walk over the elements has seen; the name is the element's content.\<close>

record AdvSeen =
  av_ssid :: "bytes option"
  av_rates :: bool
  av_ds :: bool
  av_ht :: bool
  av_rsn :: bool
  av_wpa :: bool

definition AdvSeen0 :: AdvSeen where
  "AdvSeen0 = \<lparr>av_ssid = None, av_rates = False, av_ds = False, av_ht = False, av_rsn = False, av_wpa = False\<rparr>"

text \<open>One element: \<open>None\<close> rejects the frame.\<close>

definition adv_element :: "u8 \<Rightarrow> u8 \<Rightarrow> bytes \<Rightarrow> AdvSeen \<Rightarrow> AdvSeen option" where
  "adv_element number tag body s = (
     if tag = 0 then (if av_ssid s \<noteq> None \<or> 32 < length body then None else Some (s\<lparr>av_ssid := Some body\<rparr>))
     else if tag = 1 then (if av_rates s \<or> body = [] \<or> 8 < length body then None else Some (s\<lparr>av_rates := True\<rparr>))
     else if tag = 3 then (if av_ds s \<or> length body \<noteq> 1 \<or> body ! 0 \<noteq> number then None else Some (s\<lparr>av_ds := True\<rparr>))
     else if tag = 61 then (if av_ht s \<or> length body \<noteq> 22 \<or> body ! 0 \<noteq> number then None else Some (s\<lparr>av_ht := True\<rparr>))
     else if tag = 48 then (if av_rsn s then None else Some (s\<lparr>av_rsn := True\<rparr>))
     else if tag = 221 \<and> 4 \<le> length body \<and> body ! 0 = 0 \<and> body ! 1 = 0x50 \<and> body ! 2 = 0xf2 \<and> body ! 3 = 1 then
       (if av_wpa s then None else Some (s\<lparr>av_wpa := True\<rparr>))
     else if tag = 255 \<and> body = [] then None
     else Some s)"

function adv_elements :: "u8 \<Rightarrow> bytes \<Rightarrow> AdvSeen \<Rightarrow> AdvSeen option" where
  "adv_elements number [] s = Some s"
| "adv_elements number [b] s = None"
| "adv_elements number (tag # len # rest) s = (
     if length rest < unat len then None
     else case adv_element number tag (take (unat len) rest) s of None \<Rightarrow> None | Some s' \<Rightarrow> adv_elements number (drop (unat len) rest) s')"
  by pat_completeness auto
termination by (relation "measure (\<lambda>(_, ies, _). length ies)") auto

definition adv_header :: "bytes \<Rightarrow> bool" where
  "adv_header f \<longleftrightarrow> f ! 0 AND 0x0f = 0 \<and> (f ! 0 = 0x80 \<or> f ! 0 = 0x50) \<and> f ! 1 AND (0x03 OR 0x04 OR 0x40 OR 0x80) = 0 \<and> f ! 22 AND 0x0f = 0"

definition adv_addresses :: "bytes \<Rightarrow> bool" where
  "adv_addresses f \<longleftrightarrow> (let destination = take 6 (drop 4 f); source = take 6 (drop 10 f); bssid = take 6 (drop 16 f); broadcast = list_all (\<lambda>b. b = 0xff) destination in
     source = bssid \<and> list_ex (\<lambda>b. b \<noteq> 0) bssid \<and> f ! 16 AND 1 = 0 \<and> list_ex (\<lambda>b. b \<noteq> 0) destination \<and> \<not> (f ! 4 AND 1 \<noteq> 0 \<and> \<not> broadcast) \<and>
     \<not> (f ! 0 = 0x80 \<and> \<not> broadcast))"

definition adv_u16 :: "bytes \<Rightarrow> nat \<Rightarrow> u16" where
  "adv_u16 f i = ucast (f ! i) OR push_bit 8 (ucast (f ! (i + 1)))"

definition advertisement :: "bytes option \<Rightarrow> CacheChannel \<Rightarrow> ScanSignal \<Rightarrow> u64 \<Rightarrow> ScanInput option" where
  "advertisement frame channel signal now = (case frame of None \<Rightarrow> None | Some f \<Rightarrow>
     if length f < 36 \<or> \<not> ch_valid channel \<or> \<not> sg_valid signal then None
     else if \<not> adv_header f \<or> \<not> adv_addresses f then None
     else case adv_elements (ch_number channel) (drop 36 f) AdvSeen0 of None \<Rightarrow> None | Some s \<Rightarrow>
       (case av_ssid s of None \<Rightarrow> None | Some ssid \<Rightarrow> if \<not> av_rates s then None
        else Some \<lparr>in_bssid = Some (drop 16 f), in_ssid = Some ssid, in_ies = Some (drop 36 f), in_ssidLength = length ssid,
          in_ieLength = length f - 36, in_originalIeLength = length f - 36, in_channel = channel, in_signal = signal, in_observedAtUs = now,
          in_capability = adv_u16 f 34, in_beaconInterval = adv_u16 f 32\<rparr>))"

section \<open>The observer\<close>

record DwellToken =
  dt_epoch :: u64
  dt_operation :: u64

definition DwellToken0 :: DwellToken where
  "DwellToken0 = \<lparr>dt_epoch = 0, dt_operation = 0\<rparr>"

definition dt_same :: "DwellToken \<Rightarrow> DwellToken \<Rightarrow> bool" where
  "dt_same a b \<longleftrightarrow> dt_epoch a = dt_epoch b \<and> dt_operation a = dt_operation b"

record Observer =
  ob_store :: ScanStore
  ob_plan :: "CacheChannel list"
  ob_planCount :: nat
  ob_epoch :: u64
  ob_generation :: u64
  ob_completedMask :: u64
  ob_lastOperation :: u64
  ob_pass :: ScanToken
  ob_dwell :: DwellToken
  ob_dwellChannel :: CacheChannel
  ob_mode :: int
  ob_activeMode :: bool
  ob_open :: bool
  ob_blocked :: bool
  ob_pending :: bool

definition Observer0 :: Observer where
  "Observer0 = \<lparr>ob_store = ScanStore0, ob_plan = replicate maxChannels CacheChannel0, ob_planCount = 0, ob_epoch = 0, ob_generation = 0,
     ob_completedMask = 0, ob_lastOperation = 0, ob_pass = ScanToken0, ob_dwell = DwellToken0, ob_dwellChannel = CacheChannel0, ob_mode = 0,
     ob_activeMode = False, ob_open = False, ob_blocked = False, ob_pending = False\<rparr>"

definition ob_index :: "CacheChannel \<Rightarrow> Observer \<Rightarrow> nat" where
  "ob_index c x = (case index_where (ch_same c) (take (ob_planCount x) (ob_plan x)) 0 of Some i \<Rightarrow> i | None \<Rightarrow> maxChannels)"

definition ob_drop_pass :: "Observer \<Rightarrow> Observer" where
  "ob_drop_pass x = (if ss_active (st_status (ob_store x)) then x\<lparr>ob_store := snd (scan_cancel (ob_pass x) (ob_store x))\<rparr> else x)"

definition ob_block :: "Observer \<Rightarrow> Observer" where
  "ob_block x = (ob_drop_pass x)\<lparr>ob_blocked := True, ob_pending := False, ob_dwell := DwellToken0\<rparr>"

definition ob_cancel :: "Observer \<Rightarrow> Observer" where
  "ob_cancel x = (ob_drop_pass x)\<lparr>ob_open := False, ob_blocked := False, ob_pending := False, ob_dwell := DwellToken0, ob_planCount := 0\<rparr>"

definition ob_begin :: "u64 \<Rightarrow> int \<Rightarrow> bool \<Rightarrow> CacheChannel list option \<Rightarrow> Observer \<Rightarrow> bool \<times> Observer" where
  "ob_begin epoch mode active plan x = (if ob_open x then (False, x)
     else let x1 = x\<lparr>ob_open := True, ob_blocked := False, ob_pending := False, ob_dwell := DwellToken0, ob_completedMask := 0, ob_planCount := 0\<rparr> in
     if epoch = 0 \<or> epoch < ob_epoch x1 then (False, ob_block x1)
     else let x2 = (if epoch \<noteq> ob_epoch x1 then x1\<lparr>ob_epoch := epoch, ob_generation := 0, ob_lastOperation := 0\<rparr> else x1) in
     if ob_generation x2 = - 1 then (False, ob_block x2)
     else let g = ob_generation x2 + 1; p = \<lparr>tk_generation = g, tk_epoch = epoch\<rparr>;
         x3 = x2\<lparr>ob_generation := g, ob_pass := p, ob_mode := mode, ob_activeMode := active\<rparr>;
         (begun, s1) = scan_begin g epoch (ob_store x3) in
     if \<not> begun then (False, ob_block (x3\<lparr>ob_store := s1\<rparr>))
     else let (fits, s2) = scan_plan p plan s1 in
     if \<not> fits then (False, ob_block (x3\<lparr>ob_store := s2\<rparr>))
     else case plan of None \<Rightarrow> (True, x3\<lparr>ob_store := s2\<rparr>) | Some cs \<Rightarrow>
       (True, x3\<lparr>ob_store := s2, ob_plan := cs @ drop (length cs) (ob_plan x3), ob_planCount := length cs\<rparr>))"

definition ob_channelAccepted :: "u64 \<Rightarrow> int \<Rightarrow> bool \<Rightarrow> CacheChannel \<Rightarrow> DwellToken \<Rightarrow> Observer \<Rightarrow> bool \<times> Observer" where
  "ob_channelAccepted epoch mode active channel op x = (if \<not> ob_open x \<or> ob_blocked x then (False, x)
     else let i = ob_index channel x in
     if ob_pending x \<or> epoch \<noteq> tk_epoch (ob_pass x) \<or> mode \<noteq> ob_mode x \<or> active \<noteq> ob_activeMode x \<or> dt_epoch op \<noteq> tk_epoch (ob_pass x) \<or>
       dt_operation op \<le> ob_lastOperation x \<or> i = maxChannels \<or> ob_completedMask x AND push_bit i 1 \<noteq> 0 then (False, ob_block x)
     else (True, x\<lparr>ob_lastOperation := dt_operation op, ob_dwell := op, ob_dwellChannel := channel, ob_pending := True\<rparr>))"

definition ob_observing :: "DwellToken \<Rightarrow> CacheChannel \<Rightarrow> Observer \<Rightarrow> bool" where
  "ob_observing op channel x \<longleftrightarrow> ob_open x \<and> \<not> ob_blocked x \<and> ob_pending x \<and> dt_same (ob_dwell x) op \<and> ch_same (ob_dwellChannel x) channel"

definition ob_observe :: "DwellToken \<Rightarrow> bytes option \<Rightarrow> CacheChannel \<Rightarrow> ScanSignal \<Rightarrow> u64 \<Rightarrow> Observer \<Rightarrow> bool \<times> Observer" where
  "ob_observe op frame channel signal now x = (if \<not> ob_observing op channel x then (False, x)
     else case advertisement frame channel signal now of None \<Rightarrow> (False, x) | Some input \<Rightarrow>
       let (r, s) = scan_add (ob_pass x) input (ob_store x) in
       (r = Ad_added \<or> r = Ad_replaced \<or> r = Ad_unchanged, x\<lparr>ob_store := s\<rparr>))"

definition ob_channelFinished :: "DwellToken \<Rightarrow> bool \<Rightarrow> Observer \<Rightarrow> bool \<times> Observer" where
  "ob_channelFinished op cancelled x = (if \<not> ob_open x \<or> ob_blocked x \<or> \<not> ob_pending x \<or> \<not> dt_same (ob_dwell x) op then (False, x)
     else if cancelled then (False, ob_cancel x)
     else let i = ob_index (ob_dwellChannel x) x in
     if i = maxChannels then (False, ob_block x)
     else let (marked, s) = channelFinished (ob_pass x) (ob_dwellChannel x) (ob_store x) in
     if \<not> marked then (False, ob_block (x\<lparr>ob_store := s\<rparr>))
     else (True, x\<lparr>ob_store := s, ob_completedMask := ob_completedMask x OR push_bit i 1, ob_pending := False, ob_dwell := DwellToken0\<rparr>))"

definition ob_finish :: "u64 \<Rightarrow> int \<Rightarrow> bool \<Rightarrow> u64 \<Rightarrow> Observer \<Rightarrow> bool \<times> Observer" where
  "ob_finish epoch mode active now x = (if \<not> ob_open x then (False, x)
     else let (published, y) = (if \<not> ob_blocked x \<and> \<not> ob_pending x \<and> epoch = tk_epoch (ob_pass x) \<and> mode = ob_mode x \<and> active = ob_activeMode x
         then let (r, s) = scan_finish (ob_pass x) Cm_fullScan now (ob_store x) in (r = Fi_published, x\<lparr>ob_store := s\<rparr>) else (False, x))
     in (published, ob_cancel y))"

definition ob_rejectedChannel :: "Observer \<Rightarrow> Observer" where
  "ob_rejectedChannel x = (if ob_open x then ob_block x else x)"

definition ob_copySummary :: "Observer \<Rightarrow> ScanSummary option" where
  "ob_copySummary x = completedSummary (ob_store x)"

definition ob_copyEntry :: "ScanToken \<Rightarrow> nat \<Rightarrow> Observer \<Rightarrow> ScanEntry option" where
  "ob_copyEntry t i x = (case completedSummary (ob_store x) of None \<Rightarrow> None | Some sm \<Rightarrow> if \<not> tk_same t (sm_token sm) then None else completedEntry i (ob_store x))"

definition ob_copyChannel :: "ScanToken \<Rightarrow> nat \<Rightarrow> Observer \<Rightarrow> CacheChannel option" where
  "ob_copyChannel t i x = (case completedSummary (ob_store x) of None \<Rightarrow> None | Some sm \<Rightarrow> if \<not> tk_same t (sm_token sm) then None else completedChannel i (ob_store x))"

section \<open>What the parser accepts\<close>

lemma adv_element_ssid:
  assumes "adv_element n tag body s = Some t"
  shows "av_ssid t = (if tag = 0 then Some body else av_ssid s) \<and> (tag = 0 \<longrightarrow> av_ssid s = None \<and> length body \<le> 32)"
  using assms by (auto simp: adv_element_def split: if_splits)

text \<open>The name of an accepted frame is the one the cache demands of its elements.\<close>

lemma adv_elements_named:
  "adv_elements n ies s = Some t \<Longrightarrow> (\<forall>x. av_ssid s = Some x \<longrightarrow> av_ssid t = Some x) \<and>
    (\<forall>x. av_ssid t = Some x \<longrightarrow> length x \<le> 32 \<or> av_ssid s \<noteq> None) \<and> (\<forall>x. av_ssid t = Some x \<longrightarrow> ie_scan ies x (av_ssid s \<noteq> None))"
proof (induction n ies s rule: adv_elements.induct)
  case (3 number tag len rest s)
  from 3(2) obtain u where len: "unat len \<le> length rest" and u: "adv_element number tag (take (unat len) rest) s = Some u"
    and r: "adv_elements number (drop (unat len) rest) u = Some t"
    by (auto split: if_splits option.splits)
  note ih = 3(1) [OF _ u r]
  have e: "av_ssid u = (if tag = 0 then Some (take (unat len) rest) else av_ssid s)" "tag = 0 \<Longrightarrow> av_ssid s = None \<and> unat len \<le> 32"
    using adv_element_ssid [OF u] len by auto
  have "tag = 0 \<Longrightarrow> \<not> 32 < len" using e(2) by (simp add: word_less_nat_alt)
  then show ?case using ih e len by (cases "tag = 0") (auto simp: not_less)
qed auto

lemma advertisement_parts:
  assumes "advertisement frame ch sg now = Some i"
  obtains f s where "frame = Some f" and "36 \<le> length f" and "ch_valid ch" and "sg_valid sg" and "adv_header f" and "adv_addresses f"
    and "adv_elements (ch_number ch) (drop 36 f) AdvSeen0 = Some s" and "av_ssid s = in_ssid i" and "av_rates s" and "in_ssid i = Some (buffer (in_ssid i) (in_ssidLength i))"
    and "in_bssid i = Some (drop 16 f)" and "in_ies i = Some (drop 36 f)" and "in_ieLength i = length f - 36" and "in_originalIeLength i = length f - 36"
    and "in_channel i = ch" and "in_signal i = sg" and "in_observedAtUs i = now"
  using assms by (auto simp: advertisement_def buffer_def split: option.splits if_splits)

lemma advertisement_input:
  assumes "advertisement frame ch sg now = Some i"
  shows "input_ok i \<and> \<not> input_bad i \<and> in_ieLength i = in_originalIeLength i"
proof -
  obtain f s where f: "36 \<le> length f" "sg_valid sg" "adv_addresses f" "adv_elements (ch_number ch) (drop 36 f) AdvSeen0 = Some s" "av_ssid s = in_ssid i"
    "in_ssid i = Some (buffer (in_ssid i) (in_ssidLength i))" "in_bssid i = Some (drop 16 f)" "in_ies i = Some (drop 36 f)" "in_ieLength i = length f - 36"
    "in_originalIeLength i = length f - 36" "in_signal i = sg"
    by (rule advertisement_parts [OF assms]) blast
  define n where "n = buffer (in_ssid i) (in_ssidLength i)"
  have n: "in_ssid i = Some n" using f(6) by (simp add: n_def)
  have ie: "length n \<le> 32" "ie_scan (drop 36 f) n False" using adv_elements_named [OF f(4)] f(5) n by (simp_all add: AdvSeen0_def)
  have l: "in_ssidLength i = length n" using assms n by (auto simp: advertisement_def split: option.splits if_splits)
  have "scan_unicast (in_bssid i)" using f(1,3,7) by (simp add: scan_unicast_def adv_addresses_def Let_def)
  then show ?thesis using f(1,2,7-11) ie n l
    by (simp add: input_ok_def input_bad_def informationElements_def buffer_def)
qed

section \<open>The invariant\<close>

datatype ob_call = Ob_begin u64 int bool "CacheChannel list option" | Ob_accepted u64 int bool CacheChannel DwellToken
  | Ob_observe DwellToken "bytes option" CacheChannel ScanSignal u64 | Ob_finished DwellToken bool | Ob_finish u64 int bool u64 | Ob_cancel | Ob_rejected

fun ob_exec :: "ob_call \<Rightarrow> Observer \<Rightarrow> Observer" where
  "ob_exec (Ob_begin e m a plan) x = snd (ob_begin e m a plan x)"
| "ob_exec (Ob_accepted e m a ch op) x = snd (ob_channelAccepted e m a ch op x)"
| "ob_exec (Ob_observe op f ch sg now) x = snd (ob_observe op f ch sg now x)"
| "ob_exec (Ob_finished op cancelled) x = snd (ob_channelFinished op cancelled x)"
| "ob_exec (Ob_finish e m a now) x = snd (ob_finish e m a now x)"
| "ob_exec Ob_cancel x = ob_cancel x"
| "ob_exec Ob_rejected x = ob_rejectedChannel x"

inductive ob_reach :: "Observer \<Rightarrow> bool" where
  init: "ob_reach Observer0"
| call: "ob_reach x \<Longrightarrow> ob_reach (ob_exec k x)"

text \<open>While a scan is followed, the cache runs the same pass over the same plan and knows the same completed channels.\<close>

definition ob_following :: "Observer \<Rightarrow> bool" where
  "ob_following x \<longleftrightarrow> (let s = ob_store x in scan_current (ob_pass x) s \<and> ss_planned (st_status s) \<and> ss_plannedChannels (st_status s) = ob_planCount x \<and>
     planned s = take (ob_planCount x) (ob_plan x) \<and> st_completedMask s = ob_completedMask x \<and> \<not> ss_truncatedInput (st_status s) \<and>
     (ob_pending x \<longrightarrow> ob_dwellChannel x \<in> set (take (ob_planCount x) (ob_plan x))))"

definition ob_inv :: "Observer \<Rightarrow> bool" where
  "ob_inv x \<longleftrightarrow> scan_reach (ob_store x) \<and>
     (if ob_open x \<and> \<not> ob_blocked x then ob_following x else \<not> ss_active (st_status (ob_store x)) \<and> \<not> ob_pending x)"

lemmas store_calls = scan_reach.call [of _ "Sc_begin g e" for g e, simplified] scan_reach.call [of _ "Sc_plan t cs" for t cs, simplified]
  scan_reach.call [of _ "Sc_add t i" for t i, simplified] scan_reach.call [of _ "Sc_channel t c" for t c, simplified]
  scan_reach.call [of _ "Sc_finish t sc now" for t sc now, simplified] scan_reach.call [of _ "Sc_cancel t" for t, simplified]

text \<open>Giving up the pass: the cache is left idle whenever its scan is the observer's.\<close>

lemma scan_cancel_idle: "scan_current t s \<Longrightarrow> \<not> ss_active (st_status (snd (scan_cancel t s)))"
  by (simp add: scan_cancel_def)

lemma drop_pass_idle:
  assumes "scan_reach (ob_store x)" and "ss_active (st_status (ob_store x)) \<Longrightarrow> scan_current (ob_pass x) (ob_store x)"
  shows "scan_reach (ob_store (ob_drop_pass x)) \<and> \<not> ss_active (st_status (ob_store (ob_drop_pass x)))"
  using assms by (auto simp: ob_drop_pass_def scan_cancel_idle store_calls(6))

lemma ob_block_inv:
  assumes "scan_reach (ob_store x)" and "ss_active (st_status (ob_store x)) \<Longrightarrow> scan_current (ob_pass x) (ob_store x)"
  shows "ob_inv (ob_block x)"
  using drop_pass_idle [OF assms] by (simp add: ob_inv_def ob_block_def)

lemma ob_cancel_inv:
  assumes "scan_reach (ob_store x)" and "ss_active (st_status (ob_store x)) \<Longrightarrow> scan_current (ob_pass x) (ob_store x)"
  shows "ob_inv (ob_cancel x)"
  using drop_pass_idle [OF assms] by (simp add: ob_inv_def ob_cancel_def)

lemma ob_inv_reach: "ob_inv x \<Longrightarrow> scan_reach (ob_store x)"
  by (simp add: ob_inv_def)

lemma ob_inv_current: "ob_inv x \<Longrightarrow> ss_active (st_status (ob_store x)) \<Longrightarrow> scan_current (ob_pass x) (ob_store x)"
  by (auto simp: ob_inv_def ob_following_def Let_def split: if_splits)

lemma ob_accepted_inv:
  assumes "ob_inv x"
  shows "ob_inv (snd (ob_channelAccepted e m a ch op x))"
proof -
  have "ob_inv (ob_block x)" by (rule ob_block_inv [OF ob_inv_reach [OF assms] ob_inv_current [OF assms]])
  moreover have "ob_inv (x\<lparr>ob_lastOperation := dt_operation op, ob_dwell := op, ob_dwellChannel := ch, ob_pending := True\<rparr>)"
    if "ob_open x" "\<not> ob_blocked x" "ob_index ch x \<noteq> maxChannels"
  proof -
    have "index_where (ch_same ch) (take (ob_planCount x) (ob_plan x)) 0 \<noteq> None" using that(3) by (auto simp: ob_index_def split: option.splits)
    then have "ch \<in> set (take (ob_planCount x) (ob_plan x))" unfolding index_where_None by (auto simp: ch_same_eq)
    then show ?thesis using assms that by (simp add: ob_inv_def ob_following_def Let_def)
  qed
  ultimately show ?thesis using assms by (simp add: ob_channelAccepted_def Let_def)
qed

text \<open>What an observation leaves alone in the cache.\<close>

lemma scan_add_frame:
  assumes "scan_inv s" and "in_ieLength i = in_originalIeLength i"
  shows "planned (snd (scan_add t i s)) = planned s \<and> st_completedMask (snd (scan_add t i s)) = st_completedMask s \<and>
    ss_token (st_status (snd (scan_add t i s))) = ss_token (st_status s) \<and> ss_active (st_status (snd (scan_add t i s))) = ss_active (st_status s) \<and>
    ss_planned (st_status (snd (scan_add t i s))) = ss_planned (st_status s) \<and>
    ss_plannedChannels (st_status (snd (scan_add t i s))) = ss_plannedChannels (st_status s) \<and>
    ss_truncatedInput (st_status (snd (scan_add t i s))) = ss_truncatedInput (st_status s)"
proof -
  have p: "planned (on_status g z) = planned z" if "ss_plannedChannels (g (st_status z)) = ss_plannedChannels (st_status z)" for g z
    using that by (simp add: planned_def)
  have w: "planned (on_working (\<lambda>b. b\<lparr>bn_entries := f b\<rparr>) s) = planned s" for f using bank_updates(1) [OF assms(1)] by (simp add: planned_def)
  show ?thesis using assms(2) by (simp add: scan_add_def Let_def scan_rejected_def p w split: option.split)
qed

lemma ob_following_add:
  assumes "ob_inv x" and "ob_open x" and "\<not> ob_blocked x" and "input_ok i" and "in_ieLength i = in_originalIeLength i"
  shows "ob_inv (x\<lparr>ob_store := snd (scan_add (ob_pass x) i (ob_store x))\<rparr>)"
proof -
  have f: "ob_following x" "scan_reach (ob_store x)" using assms(1-3) by (simp_all add: ob_inv_def)
  have "scan_reach (snd (scan_add (ob_pass x) i (ob_store x)))" by (rule store_calls(3) [OF f(2) assms(4)])
  then show ?thesis using f(1) assms(2,3) scan_add_frame [OF scan_reach_inv [OF f(2)] assms(5), of "ob_pass x"]
    by (simp add: ob_inv_def ob_following_def Let_def scan_current_def)
qed

lemma ob_observe_inv:
  assumes "ob_inv x"
  shows "ob_inv (snd (ob_observe op f ch sg now x))"
proof (cases "ob_observing op ch x \<and> advertisement f ch sg now \<noteq> None")
  case True
  then obtain i where i: "advertisement f ch sg now = Some i" and o: "ob_open x" "\<not> ob_blocked x" by (auto simp: ob_observing_def)
  have "snd (ob_observe op f ch sg now x) = x\<lparr>ob_store := snd (scan_add (ob_pass x) i (ob_store x))\<rparr>"
    using True i by (simp add: ob_observe_def split_beta Let_def)
  then show ?thesis using ob_following_add [OF assms o] advertisement_input [OF i] by simp
qed (use assms in \<open>auto simp: ob_observe_def\<close>)

text \<open>Both sides mark the same channel.\<close>

lemma index_agrees: "ob_following x \<Longrightarrow> ob_index c x = channelIndex c (ob_store x)"
  unfolding channelIndex_def planned_def [symmetric] by (simp add: ob_following_def Let_def ob_index_def)

lemma channel_marks:
  assumes "scan_current t s" and "ss_planned (st_status s)" and "channelIndex c s < 64" and "s' = snd (channelFinished t c s)"
  shows "fst (channelFinished t c s) \<and> st_completedMask s' = st_completedMask s OR push_bit (channelIndex c s) 1 \<and> planned s' = planned s \<and>
    ss_token (st_status s') = ss_token (st_status s) \<and> ss_active (st_status s') = ss_active (st_status s) \<and> ss_planned (st_status s') = ss_planned (st_status s) \<and>
    ss_plannedChannels (st_status s') = ss_plannedChannels (st_status s) \<and> ss_truncatedInput (st_status s') = ss_truncatedInput (st_status s)"
proof -
  let ?k = "channelIndex c s" and ?m = "st_completedMask s"
  have "?m OR push_bit ?k 1 = ?m" if "?m AND push_bit ?k 1 \<noteq> 0"
  proof -
    have "bit ?m ?k" using that mask_bits(1) [OF assms(3)] by simp
    then have "{j. bit (?m OR push_bit ?k 1) j} = {j. bit ?m j}" unfolding mask_bits(2) [OF assms(3)] by auto
    then show ?thesis by (intro bit_word_eqI) (simp add: set_eq_iff)
  qed
  moreover have "?k \<noteq> maxChannels" using assms(3) by (simp add: maxChannels_def)
  ultimately show ?thesis using assms(1,2,4) by (auto simp: channelFinished_def Let_def planned_def)
qed

lemma ob_channelFinished_eq:
  assumes "ob_inv x" and "ob_open x" and "\<not> ob_blocked x" and "ob_pending x" and "dt_same (ob_dwell x) op"
  shows "ob_channelFinished op False x = (True, x\<lparr>ob_store := snd (channelFinished (ob_pass x) (ob_dwellChannel x) (ob_store x)),
      ob_completedMask := ob_completedMask x OR push_bit (ob_index (ob_dwellChannel x) x) 1, ob_pending := False, ob_dwell := DwellToken0\<rparr>)"
    and "ob_inv (snd (ob_channelFinished op False x))"
proof -
  let ?s = "ob_store x" and ?c = "ob_dwellChannel x"
  have f: "ob_following x" "scan_reach ?s" using assms by (simp_all add: ob_inv_def)
  have cur: "scan_current (ob_pass x) ?s" "ss_planned (st_status ?s)" "?c \<in> set (planned ?s)" using f(1) assms(4) by (simp_all add: ob_following_def Let_def)
  have "filling ?s" using scan_reach_inv [OF f(2)] cur(1) by (simp add: scan_inv_def scan_current_def)
  then have n: "length (planned ?s) \<le> 64" by (auto simp: filling_def planned_def maxChannels_def)
  obtain k where k: "index_where (ch_same ?c) (planned ?s) 0 = Some k"
    using cur(3) index_where_None [of "ch_same ?c" "planned ?s" 0] by (auto simp: ch_same_eq)
  then have "k < 64" "channelIndex ?c ?s = k" using index_where_Some [OF k] n by (simp_all add: channelIndex_def planned_def [symmetric])
  then have k64: "channelIndex ?c ?s < 64" by simp
  define s' where "s' = snd (channelFinished (ob_pass x) ?c ?s)"
  note m = channel_marks [OF cur(1,2) k64 s'_def]
  have i: "ob_index ?c x = channelIndex ?c ?s" by (rule index_agrees [OF f(1)])
  show eq: "ob_channelFinished op False x = (True, x\<lparr>ob_store := snd (channelFinished (ob_pass x) ?c ?s), ob_completedMask := ob_completedMask x OR push_bit (ob_index ?c x) 1,
      ob_pending := False, ob_dwell := DwellToken0\<rparr>)"
    using assms m k64 i by (simp add: ob_channelFinished_def Let_def split_beta s'_def maxChannels_def)
  have "scan_reach s'" unfolding s'_def by (rule store_calls(4) [OF f(2)])
  then show "ob_inv (snd (ob_channelFinished op False x))"
    unfolding eq s'_def [symmetric] using f(1) assms m i by (simp add: ob_inv_def ob_following_def Let_def scan_current_def)
qed

lemma ob_channelFinished_inv:
  assumes "ob_inv x"
  shows "ob_inv (snd (ob_channelFinished op cancelled x))"
proof (cases "ob_open x \<and> \<not> ob_blocked x \<and> ob_pending x \<and> dt_same (ob_dwell x) op \<and> \<not> cancelled")
  case True
  then show ?thesis using ob_channelFinished_eq(2) [OF assms] by simp
next
  case False
  have "ob_inv (ob_cancel x)" by (rule ob_cancel_inv [OF ob_inv_reach [OF assms] ob_inv_current [OF assms]])
  then show ?thesis using assms False by (auto simp: ob_channelFinished_def)
qed

text \<open>After a finish the cache is idle, or its scan is still the one it was.\<close>

lemma scan_finish_current: "scan_current t s \<Longrightarrow> ss_active (st_status (snd (scan_finish t' sc now s))) \<Longrightarrow> scan_current t (snd (scan_finish t' sc now s))"
  by (auto simp: scan_finish_def Let_def scan_current_def split: if_splits)

definition ob_finishing :: "u64 \<Rightarrow> int \<Rightarrow> bool \<Rightarrow> Observer \<Rightarrow> bool" where
  "ob_finishing e m a x \<longleftrightarrow> ob_open x \<and> \<not> ob_blocked x \<and> \<not> ob_pending x \<and> e = tk_epoch (ob_pass x) \<and> m = ob_mode x \<and> a = ob_activeMode x"

lemma ob_finish_eq:
  "ob_finish e m a now x = (if \<not> ob_open x then (False, x) else if ob_finishing e m a x
     then (fst (scan_finish (ob_pass x) Cm_fullScan now (ob_store x)) = Fi_published,
       ob_cancel (x\<lparr>ob_store := snd (scan_finish (ob_pass x) Cm_fullScan now (ob_store x))\<rparr>))
     else (False, ob_cancel x))"
  by (simp add: ob_finish_def ob_finishing_def split_beta Let_def)

lemma ob_finish_inv:
  assumes "ob_inv x"
  shows "ob_inv (snd (ob_finish e m a now x))"
proof -
  let ?s = "snd (scan_finish (ob_pass x) Cm_fullScan now (ob_store x))"
  have "ob_inv (ob_cancel x)" by (rule ob_cancel_inv [OF ob_inv_reach [OF assms] ob_inv_current [OF assms]])
  moreover have "ob_inv (ob_cancel (x\<lparr>ob_store := ?s\<rparr>))" if "ob_finishing e m a x"
  proof (rule ob_cancel_inv)
    show "scan_reach (ob_store (x\<lparr>ob_store := ?s\<rparr>))" using store_calls(5) [OF ob_inv_reach [OF assms]] by simp
    have "scan_current (ob_pass x) (ob_store x)" using assms that by (simp add: ob_inv_def ob_finishing_def ob_following_def Let_def)
    then show "scan_current (ob_pass (x\<lparr>ob_store := ?s\<rparr>)) (ob_store (x\<lparr>ob_store := ?s\<rparr>))" if "ss_active (st_status (ob_store (x\<lparr>ob_store := ?s\<rparr>)))"
      using scan_finish_current that by simp
  qed
  ultimately show ?thesis using assms by (simp add: ob_finish_eq)
qed

lemma scan_begin_starts:
  assumes "scan_begin g e s = (True, s')" and "scan_inv s"
  shows "scan_current \<lparr>tk_generation = g, tk_epoch = e\<rparr> s' \<and> \<not> ss_planned (st_status s') \<and> st_completedMask s' = 0 \<and> \<not> ss_truncatedInput (st_status s')"
  using assms by (auto simp: scan_begin_def Let_def scan_current_def tk_same_def ScanStatus0_def split: if_splits)

lemma scan_plan_plans:
  assumes "scan_plan t plan s = (True, s')" and "scan_inv s"
  obtains cs where "plan = Some cs" and "scan_current t s'" and "ss_planned (st_status s')" and "ss_plannedChannels (st_status s') = length cs" and "planned s' = cs"
    and "st_completedMask s' = st_completedMask s" and "ss_truncatedInput (st_status s') = ss_truncatedInput (st_status s)"
  using assms bank_updates(1) [OF assms(2)]
  by (auto simp: scan_plan_def scan_current_def planned_def split: option.splits if_splits)

lemma ob_begin_inv:
  assumes "ob_inv x"
  shows "ob_inv (snd (ob_begin epoch mode active plan x))"
proof (cases "ob_open x")
  case True
  then show ?thesis using assms by (simp add: ob_begin_def)
next
  case False
  then have r: "scan_reach (ob_store x)" and idle: "\<not> ss_active (st_status (ob_store x))" using assms by (simp_all add: ob_inv_def)
  define x1 where "x1 = x\<lparr>ob_open := True, ob_blocked := False, ob_pending := False, ob_dwell := DwellToken0, ob_completedMask := 0, ob_planCount := 0\<rparr>"
  define x2 where "x2 = (if epoch \<noteq> ob_epoch x1 then x1\<lparr>ob_epoch := epoch, ob_generation := 0, ob_lastOperation := 0\<rparr> else x1)"
  define p where "p = \<lparr>tk_generation = ob_generation x2 + 1, tk_epoch = epoch\<rparr>"
  define x3 where "x3 = x2\<lparr>ob_generation := ob_generation x2 + 1, ob_pass := p, ob_mode := mode, ob_activeMode := active\<rparr>"
  have st: "ob_store x1 = ob_store x" "ob_store x2 = ob_store x" "ob_store x3 = ob_store x" by (simp_all add: x1_def x2_def x3_def)
  obtain begun s1 where b: "scan_begin (ob_generation x2 + 1) epoch (ob_store x) = (begun, s1)" by fastforce
  obtain fits s2 where q: "scan_plan p plan s1 = (fits, s2)" by fastforce
  have eq: "snd (ob_begin epoch mode active plan x) = (if epoch = 0 \<or> epoch < ob_epoch x1 then ob_block x1 else if ob_generation x2 = - 1 then ob_block x2
      else if \<not> begun then ob_block (x3\<lparr>ob_store := s1\<rparr>) else if \<not> fits then ob_block (x3\<lparr>ob_store := s2\<rparr>)
      else case plan of None \<Rightarrow> x3\<lparr>ob_store := s2\<rparr> | Some cs \<Rightarrow> x3\<lparr>ob_store := s2, ob_plan := cs @ drop (length cs) (ob_plan x3), ob_planCount := length cs\<rparr>)"
    using False b q by (simp add: ob_begin_def Let_def split_beta x1_def [symmetric] x2_def [symmetric] p_def [symmetric] x3_def [symmetric] st split: option.split)
  have r1: "scan_reach s1" "scan_reach s2" using store_calls(1) [OF r] store_calls(2) b q by (metis snd_conv)+
  have bl: "ob_inv (ob_block x1)" "ob_inv (ob_block x2)" by (rule ob_block_inv; simp add: st r idle)+
  have b1: "ob_inv (ob_block (x3\<lparr>ob_store := s1\<rparr>))" if "\<not> begun"
    using b that idle r1 by (intro ob_block_inv) (auto simp: scan_begin_def Let_def split: if_splits)
  have b2: "ob_inv (ob_block (x3\<lparr>ob_store := s2\<rparr>))" if "begun" "\<not> fits"
  proof (rule ob_block_inv)
    have "s2 = s1" using q that by (auto simp: scan_plan_def split: option.splits if_splits)
    moreover have "scan_current p s1" using scan_begin_starts [OF _ scan_reach_inv [OF r]] b that(1) by (simp add: p_def)
    ultimately show "scan_current (ob_pass (x3\<lparr>ob_store := s2\<rparr>)) (ob_store (x3\<lparr>ob_store := s2\<rparr>))" by (simp add: x3_def)
  qed (use r1 in simp)
  have ok: "ob_inv (case plan of None \<Rightarrow> x3\<lparr>ob_store := s2\<rparr> | Some cs \<Rightarrow> x3\<lparr>ob_store := s2, ob_plan := cs @ drop (length cs) (ob_plan x3), ob_planCount := length cs\<rparr>)"
    if "begun" "fits"
  proof -
    have s1: "st_completedMask s1 = 0" "\<not> ss_truncatedInput (st_status s1)"
      using scan_begin_starts [OF _ scan_reach_inv [OF r]] b that(1) by simp_all
    have q': "scan_plan p plan s1 = (True, s2)" using q that by simp
    have f: "ob_open x3" "\<not> ob_blocked x3" "\<not> ob_pending x3" "ob_pass x3 = p" "ob_completedMask x3 = 0" by (simp_all add: x3_def x2_def x1_def)
    show ?thesis by (rule scan_plan_plans [OF q' scan_reach_inv [OF r1(1)]]) (use f s1 r1 in \<open>simp add: ob_inv_def ob_following_def Let_def\<close>)
  qed
  show ?thesis unfolding eq using bl b1 b2 ok by simp
qed

lemma ob_reach_inv: "ob_reach x \<Longrightarrow> ob_inv x"
proof (induction rule: ob_reach.induct)
  case init
  show ?case using scan_reach.init by (simp add: ob_inv_def Observer0_def ScanStore0_def ScanStatus0_def)
next
  case (call x k)
  have "ob_inv (ob_cancel x)" "ob_inv (ob_rejectedChannel x)"
    using ob_cancel_inv [OF ob_inv_reach ob_inv_current] ob_block_inv [OF ob_inv_reach ob_inv_current] call(2) by (simp_all add: ob_rejectedChannel_def)
  then show ?case using call(2)
    by (cases k) (simp_all add: ob_begin_inv ob_accepted_inv ob_observe_inv ob_channelFinished_inv ob_finish_inv)
qed

section \<open>What the observer promises\<close>

lemma scan_add_admits:
  assumes "scan_current t s" and "ss_planned (st_status s)" and "channelIndex (in_channel i) s \<noteq> maxChannels" and "\<not> ss_overflow (st_status s)"
    and "\<not> ss_truncatedInput (st_status s)" and "in_ieLength i = in_originalIeLength i" and "in_ieLength i \<le> maxIeBytes" and "\<not> input_bad i"
    and "ss_count (st_status s) < maxNetworks"
  shows "fst (scan_add t i s) \<in> {Ad_added, Ad_replaced, Ad_unchanged}"
  using assms by (simp add: scan_add_def Let_def split: option.split)

text \<open>C37: A frame the parser accepts during its dwell is never refused by the cache as invalid, truncated, stale or unplanned:
  while there is room, the frame's address on the dwell's channel then has an observation at least as new as the frame, and the others are
  unchanged.\<close>

theorem observed_frame_stored:
  assumes "ob_reach x" and "ob_observing op ch x" and "advertisement (Some f) ch sg now = Some i" and "length f \<le> 36 + maxIeBytes"
    and "\<not> ss_overflow (st_status (ob_store x))" and "ss_count (st_status (ob_store x)) < maxNetworks"
  shows "fst (ob_observe op (Some f) ch sg now x) \<and>
    (\<exists>e. scan_map (ob_store (snd (ob_observe op (Some f) ch sg now x))) (ch, take 6 (drop 16 f)) = Some e \<and> now \<le> en_observedAtUs e) \<and>
    (\<forall>k. k \<noteq> (ch, take 6 (drop 16 f)) \<longrightarrow> scan_map (ob_store (snd (ob_observe op (Some f) ch sg now x))) k = scan_map (ob_store x) k)"
proof -
  let ?s = "ob_store x"
  have inv: "ob_inv x" by (rule ob_reach_inv [OF assms(1)])
  then have f: "ob_following x" and r: "scan_reach ?s" and c: "ob_dwellChannel x = ch" using assms(2) by (simp_all add: ob_inv_def ob_observing_def ch_same_eq)
  have i: "in_bssid i = Some (drop 16 f)" "in_ieLength i \<le> maxIeBytes" "in_channel i = ch" "in_observedAtUs i = now"
    using advertisement_parts [OF assms(3)] assms(4) by (metis option.inject diff_le_mono diff_add_inverse)+
  note ok = advertisement_input [OF assms(3)]
  have key: "en_key (entry_of i) = (ch, take 6 (drop 16 f))" by (simp add: en_key_def entry_of_def i buffer_def)
  have "index_where (ch_same ch) (planned ?s) 0 \<noteq> None"
    using f assms(2) c unfolding index_where_None by (auto simp: ob_following_def Let_def ch_same_eq ob_observing_def)
  then obtain k where k: "index_where (ch_same ch) (planned ?s) 0 = Some k" by blast
  have "filling ?s" using scan_reach_inv [OF r] f by (simp add: scan_inv_def ob_following_def Let_def scan_current_def)
  then have "channelIndex ch ?s \<noteq> maxChannels" using index_where_Some [OF k] k by (auto simp: channelIndex_def planned_def filling_def)
  then have "fst (scan_add (ob_pass x) i ?s) \<in> {Ad_added, Ad_replaced, Ad_unchanged}"
    using f ok i(2,3) assms(5,6) by (intro scan_add_admits) (simp_all add: ob_following_def Let_def)
  then obtain a s' where a: "scan_add (ob_pass x) i ?s = (a, s')" and good: "a = Ad_added \<or> a = Ad_replaced \<or> a = Ad_unchanged"
    by (metis empty_iff insert_iff prod.collapse)
  note m = scan_add_map [OF r conjunct1 [OF ok] a]
  have out: "ob_observe op (Some f) ch sg now x = (True, x\<lparr>ob_store := s'\<rparr>)" using assms(2,3) a good by (auto simp: ob_observe_def)
  have "\<exists>e. scan_map s' (en_key (entry_of i)) = Some e \<and> now \<le> en_observedAtUs e"
    using good m i(4) by (auto simp: entry_of_def)
  moreover have "k \<noteq> en_key (entry_of i) \<Longrightarrow> scan_map s' k = scan_map ?s k" for k using m by simp
  ultimately show ?thesis unfolding out key by simp
qed

text \<open>What readers see of a cache.\<close>

definition same_view :: "ScanStore \<Rightarrow> ScanStore \<Rightarrow> bool" where
  "same_view s t \<longleftrightarrow> st_hasPublished t = st_hasPublished s \<and> published_bank t = published_bank s"

lemma same_view_reads: "same_view s t \<Longrightarrow> completedSummary t = completedSummary s \<and> completedEntry i t = completedEntry i s \<and> completedChannel i t = completedChannel i s"
  by (simp add: same_view_def completedSummary_def completedEntry_def completedChannel_def)

lemma cancel_view: "scan_inv (ob_store x) \<Longrightarrow> same_view (ob_store x) (ob_store (ob_cancel x))"
  by (simp add: same_view_def ob_cancel_def ob_drop_pass_def scan_cancel_def bank_updates)

lemma scan_finish_view: "scan_inv s \<Longrightarrow> fst (scan_finish t sc now s) \<noteq> Fi_published \<Longrightarrow> same_view s (snd (scan_finish t sc now s))"
  by (auto simp: scan_finish_def Let_def same_view_def split: if_splits)

lemma mask_complete:
  assumes "filling s"
  shows "ss_completedChannels (st_status s) = ss_plannedChannels (st_status s) \<longleftrightarrow> (\<forall>k < ss_plannedChannels (st_status s). bit (st_completedMask s) k)"
proof -
  let ?n = "ss_plannedChannels (st_status s)" and ?B = "{k. bit (st_completedMask s) k}"
  have b: "ss_completedChannels (st_status s) = card ?B" "?B \<subseteq> {..<?n}" using assms by (auto simp: filling_def)
  have "card ?B = ?n \<longleftrightarrow> ?B = {..<?n}"
  proof
    assume "card ?B = ?n"
    then show "?B = {..<?n}" using b(2) by (intro card_subset_eq) simp_all
  next
    assume e: "?B = {..<?n}"
    show "card ?B = ?n" unfolding e by simp
  qed
  moreover have "?B = {..<?n} \<longleftrightarrow> (\<forall>k < ?n. bit (st_completedMask s) k)" using b(2) by blast
  ultimately show ?thesis unfolding b(1) by simp
qed

lemma scan_finish_iff:
  "fst (scan_finish t Cm_fullScan now s) = Fi_published \<longleftrightarrow> scan_current t s \<and> ss_planned (st_status s) \<and>
     ss_completedChannels (st_status s) = ss_plannedChannels (st_status s) \<and> \<not> ss_overflow (st_status s) \<and> \<not> ss_truncatedInput (st_status s) \<and>
     (\<forall>sm. completedSummary s = Some sm \<longrightarrow> sm_completedAtUs sm \<le> now) \<and> (\<forall>e \<in> set (gathered s). en_observedAtUs e \<le> now)"
  by (auto simp: scan_finish_def Let_def completedSummary_def gathered_def list_ex_iff not_less not_le)

lemma ob_finish_published:
  assumes "ob_reach x" and "ob_open x" and "ob_finish e m a now x = (published, y)"
  shows "(published \<longleftrightarrow> ob_finishing e m a x \<and> (\<forall>k < ob_planCount x. bit (ob_completedMask x) k) \<and> \<not> ss_overflow (st_status (ob_store x)) \<and>
      (\<forall>sm. completedSummary (ob_store x) = Some sm \<longrightarrow> sm_completedAtUs sm \<le> now) \<and> (\<forall>n \<in> set (gathered (ob_store x)). en_observedAtUs n \<le> now)) \<and>
    (if published then map_option sm_token (ob_copySummary y) = Some (ob_pass x)
     else ob_copySummary y = ob_copySummary x \<and> ob_copyEntry t i y = ob_copyEntry t i x \<and> ob_copyChannel t i y = ob_copyChannel t i x) \<and>
    \<not> ob_open y \<and> \<not> ss_active (st_status (ob_store y))"
proof -
  let ?s = "ob_store x" and ?t = "snd (scan_finish (ob_pass x) Cm_fullScan now (ob_store x))"
  have inv: "ob_inv x" by (rule ob_reach_inv [OF assms(1)])
  have r: "scan_inv ?s" using scan_reach_inv ob_inv_reach [OF inv] by blast
  have fin: "published \<longleftrightarrow> ob_finishing e m a x \<and> fst (scan_finish (ob_pass x) Cm_fullScan now ?s) = Fi_published"
      "y = ob_cancel (if ob_finishing e m a x then x\<lparr>ob_store := ?t\<rparr> else x)"
    using assms(2,3) by (auto simp: ob_finish_eq split: if_splits)
  have "ob_finishing e m a x \<Longrightarrow> filling ?s \<and> ob_following x"
    using inv r by (auto simp: ob_inv_def ob_finishing_def scan_inv_def ob_following_def Let_def scan_current_def)
  then have iff: "published \<longleftrightarrow> ob_finishing e m a x \<and> (\<forall>k < ob_planCount x. bit (ob_completedMask x) k) \<and> \<not> ss_overflow (st_status ?s) \<and>
      (\<forall>sm. completedSummary ?s = Some sm \<longrightarrow> sm_completedAtUs sm \<le> now) \<and> (\<forall>n \<in> set (gathered ?s). en_observedAtUs n \<le> now)"
    using mask_complete [of ?s] unfolding fin(1) scan_finish_iff by (auto simp: ob_following_def Let_def)
  have t: "scan_inv ?t" by (rule scan_finish_inv [OF r])
  have view: "same_view (if ob_finishing e m a x then ?t else ?s) (ob_store y)"
    unfolding fin(2) using cancel_view [of x] cancel_view [of "x\<lparr>ob_store := ?t\<rparr>"] r t by simp
  have old: "same_view ?s (ob_store y)" if "\<not> published"
    using that view scan_finish_view [OF r, of "ob_pass x" Cm_fullScan now] unfolding fin(1) by (auto simp: same_view_def split: if_splits)
  have new: "map_option sm_token (ob_copySummary y) = Some (ob_pass x)" if p: "published"
  proof -
    have "scan_finish (ob_pass x) Cm_fullScan now ?s = (Fi_published, ?t)" using p unfolding fin(1) by (metis prod.collapse)
    from finish_publishes [OF r this] have "map_option sm_token (completedSummary ?t) = Some (ob_pass x)" by (simp add: completedSummary_def)
    then show ?thesis using p view same_view_reads [of ?t "ob_store y"] unfolding fin(1) ob_copySummary_def by simp
  qed
  have "ob_inv y" "\<not> ob_open y" using ob_finish_inv [OF inv, of e m a now] assms(3) fin(2) by (simp_all add: ob_cancel_def)
  then have idle: "\<not> ob_open y \<and> \<not> ss_active (st_status (ob_store y))" by (simp add: ob_inv_def)
  have "ob_copySummary y = ob_copySummary x \<and> ob_copyEntry t i y = ob_copyEntry t i x \<and> ob_copyChannel t i y = ob_copyChannel t i x" if "\<not> published"
    unfolding ob_copySummary_def ob_copyEntry_def ob_copyChannel_def using same_view_reads [OF old [OF that], of i] by (simp split: option.split)
  then show ?thesis by (intro conjI [OF iff] conjI [OF _ idle]) (use new in simp)
qed

text \<open>C36: Finishing a scan publishes it exactly when every planned channel had its dwell completed under the same epoch and mode with
  none pending, nothing was lost and the clock did not go back; readers then see this pass, otherwise they see what they saw before, and the
  observer is closed.\<close>

theorem observer_publishes:
  assumes "ob_reach x" and "ob_open x" and "ob_finish e m a now x = (published, y)"
  shows "(published \<longleftrightarrow> ob_finishing e m a x \<and> (\<forall>k < ob_planCount x. bit (ob_completedMask x) k) \<and> \<not> ss_overflow (st_status (ob_store x)) \<and>
      (\<forall>sm. completedSummary (ob_store x) = Some sm \<longrightarrow> sm_completedAtUs sm \<le> now) \<and> (\<forall>n \<in> set (gathered (ob_store x)). en_observedAtUs n \<le> now)) \<and>
    (if published then map_option sm_token (ob_copySummary y) = Some (ob_pass x)
     else ob_copySummary y = ob_copySummary x \<and> ob_copyEntry t i y = ob_copyEntry t i x \<and> ob_copyChannel t i y = ob_copyChannel t i x) \<and>
    \<not> ob_open y \<and> \<not> ss_active (st_status (ob_store y))"
  using assms by (rule ob_finish_published)

section \<open>Witnesses\<close>

definition sample_op :: DwellToken where
  "sample_op = \<lparr>dt_epoch = 1, dt_operation = 4\<rparr>"

definition sample_beacon :: bytes where
  "sample_beacon = [0x80, 0, 0, 0, 0xff, 0xff, 0xff, 0xff, 0xff, 0xff, 2, 0, 0, 0, 0, 1, 2, 0, 0, 0, 0, 1, 0, 0, 0, 0, 0, 0, 0, 0, 0, 0, 100, 0, 1, 0,
     0, 1, 65, 1, 1, 0x82]"

definition sample_signal :: ScanSignal where
  "sample_signal = \<lparr>sg_unit = Su_dbm, sg_value = - 40\<rparr>"

definition sample_begun :: Observer where
  "sample_begun = snd (ob_begin 1 7 False (Some [sample_scan_channel]) Observer0)"

definition sample_dwelling :: Observer where
  "sample_dwelling = snd (ob_channelAccepted 1 7 False sample_scan_channel sample_op sample_begun)"

definition sample_dwelt :: Observer where
  "sample_dwelt = snd (ob_channelFinished sample_op False sample_dwelling)"

lemma sample_begun_eval: "sample_begun = Observer0\<lparr>ob_open := True, ob_epoch := 1, ob_generation := 1, ob_pass := sample_scan_token, ob_mode := 7,
    ob_store := sample_planned, ob_plan := sample_scan_channel # replicate 63 CacheChannel0, ob_planCount := 1\<rparr>"
proof -
  define s1 where "s1 = snd (scan_begin 1 1 ScanStore0)"
  have "scan_begin 1 1 ScanStore0 = (True, s1)"
    by (simp add: s1_def scan_begin_def ScanStore0_def ScanStatus0_def ScanToken0_def Let_def)
  moreover have "scan_plan sample_scan_token (Some [sample_scan_channel]) s1 = (True, sample_planned)"
    unfolding s1_def by (simp add: sample_scan_defs word_le_nat_alt)
  ultimately show ?thesis
    by (simp add: sample_begun_def ob_begin_def Observer0_def Let_def sample_scan_token_def maxChannels_def)
qed

lemma sample_dwelling_eval: "sample_dwelling = sample_begun\<lparr>ob_lastOperation := 4, ob_dwell := sample_op, ob_dwellChannel := sample_scan_channel, ob_pending := True\<rparr>"
  by (simp add: sample_dwelling_def sample_begun_eval ob_channelAccepted_def Observer0_def ob_index_def sample_op_def sample_scan_token_def ch_same_def Let_def maxChannels_def)

lemma sample_ob_reach: "ob_reach sample_dwelling" "ob_reach sample_dwelt"
proof -
  have "ob_reach sample_begun" using ob_reach.call [OF ob_reach.init, of "Ob_begin 1 7 False (Some [sample_scan_channel])"] by (simp add: sample_begun_def)
  from ob_reach.call [OF this, of "Ob_accepted 1 7 False sample_scan_channel sample_op"] show 1: "ob_reach sample_dwelling" by (simp add: sample_dwelling_def)
  from ob_reach.call [OF this, of "Ob_finished sample_op False"] show "ob_reach sample_dwelt" by (simp add: sample_dwelt_def)
qed

lemma sample_advertised: "\<exists>i. advertisement (Some sample_beacon) sample_scan_channel sample_signal 7 = Some i"
proof -
  have "adv_header sample_beacon" "adv_addresses sample_beacon" by (simp_all add: adv_header_def adv_addresses_def sample_beacon_def Let_def)
  moreover have "ch_valid sample_scan_channel" "sg_valid sample_signal" "length sample_beacon = 42"
    by (simp_all add: ch_valid_def sample_scan_channel_def sg_valid_def sample_signal_def sample_beacon_def word_le_nat_alt)
  moreover have "drop 36 sample_beacon = [0, 1, 65, 1, 1, 0x82]" by (simp add: sample_beacon_def)
  ultimately show ?thesis by (simp add: advertisement_def adv_element_def AdvSeen0_def)
qed

theorem observed_frame_stored_witness:
  "fst (ob_observe sample_op (Some sample_beacon) sample_scan_channel sample_signal 7 sample_dwelling)"
proof -
  obtain i where i: "advertisement (Some sample_beacon) sample_scan_channel sample_signal 7 = Some i" using sample_advertised by blast
  have "ob_observing sample_op sample_scan_channel sample_dwelling"
    by (simp add: ob_observing_def sample_dwelling_eval sample_begun_eval Observer0_def dt_same_def ch_same_def)
  moreover have "\<not> ss_overflow (st_status (ob_store sample_dwelling))" "ss_count (st_status (ob_store sample_dwelling)) < maxNetworks"
    by (simp_all add: sample_dwelling_eval sample_begun_eval sample_scan_defs word_le_nat_alt)
  moreover have "length sample_beacon \<le> 36 + maxIeBytes" by (simp add: sample_beacon_def maxIeBytes_def)
  ultimately show ?thesis using observed_frame_stored [OF sample_ob_reach(1) _ i] by blast
qed

lemma sample_dwelt_eval: "ob_open sample_dwelt" "\<not> ob_blocked sample_dwelt" "\<not> ob_pending sample_dwelt" "ob_pass sample_dwelt = sample_scan_token" "ob_mode sample_dwelt = 7"
      "\<not> ob_activeMode sample_dwelt" "ob_planCount sample_dwelt = 1" "ob_completedMask sample_dwelt = 1"
      "ob_store sample_dwelt = snd (channelFinished sample_scan_token sample_scan_channel sample_planned)"
  by (simp_all add: sample_dwelt_def ob_channelFinished_def sample_dwelling_eval sample_begun_eval Observer0_def dt_same_def ob_index_def ch_same_def
    sample_scan_defs Let_def maxChannels_def word_le_nat_alt)

lemma sample_dwelt_store: "\<not> ss_overflow (st_status (ob_store sample_dwelt))" "completedSummary (ob_store sample_dwelt) = None" "gathered (ob_store sample_dwelt) = []"
  unfolding sample_dwelt_eval(9) by (simp_all add: sample_scan_defs completedSummary_def gathered_def word_le_nat_alt)

theorem observer_publishes_witness: "\<exists>y. ob_finish 1 7 False 9 sample_dwelt = (True, y) \<and> map_option sm_token (ob_copySummary y) = Some sample_scan_token"
proof -
  note d = sample_dwelt_eval and s = sample_dwelt_store
  obtain p y where f: "ob_finish 1 7 False 9 sample_dwelt = (p, y)" by fastforce
  have "ob_finishing 1 7 False sample_dwelt" using d by (simp add: ob_finishing_def sample_scan_token_def)
  then have "p" using observer_publishes [OF sample_ob_reach(2) d(1) f] d s by simp
  then have "map_option sm_token (ob_copySummary y) = Some (ob_pass sample_dwelt)" using observer_publishes [OF sample_ob_reach(2) d(1) f] by metis
  then show ?thesis using d(4) f \<open>p\<close> by simp
qed

end
