(* ===== verification/ScanSession.thy ===== *)
theory ScanSession
  imports ForegroundScan ScanObserver
begin

text \<open>A whole scan over the components that take part in it: the owner of the request hands out a dwell per channel, and the observer follows the
  same dwells and gets the frames received meanwhile. The driver is the one that serves each operation once, in the order of the plan.\<close>

section \<open>The driver\<close>

type_synonym received = "bytes \<times> ScanSignal \<times> u64"

text \<open>One dwell on the observer's side: accepted, the frames, finished.\<close>

fun watch_frames :: "DwellToken \<Rightarrow> CacheChannel \<Rightarrow> received list \<Rightarrow> Observer \<Rightarrow> Observer" where
  "watch_frames op ch [] x = x"
| "watch_frames op ch ((f, sg, t) # fs) x = watch_frames op ch fs (snd (ob_observe op (Some f) ch sg t x))"

definition watch_dwell :: "int \<Rightarrow> bool \<Rightarrow> DwellToken \<Rightarrow> CacheChannel \<Rightarrow> received list \<Rightarrow> Observer \<Rightarrow> Observer" where
  "watch_dwell mode a op ch fs x = snd (ob_channelFinished op False (watch_frames op ch fs (snd (ob_channelAccepted (dt_epoch op) mode a ch op x))))"

text \<open>A list of operations, each with its completion time and the frames received during it.\<close>

fun scan_session :: "u64 \<Rightarrow> int \<Rightarrow> bool \<Rightarrow> (u64 \<times> u64 \<times> received list) list \<Rightarrow> ForegroundController \<times> Observer \<Rightarrow> ForegroundController \<times> Observer" where
  "scan_session e mode a [] (c, x) = (c, x)"
| "scan_session e mode a ((op, now, fs) # r) (c, x) = (case fg_next c of None \<Rightarrow> (c, x) | Some ch \<Rightarrow>
     scan_session e mode a r (dwell_once \<lparr>dw_epoch = e, dw_operation = op\<rparr> now c, watch_dwell mode a \<lparr>dt_epoch = e, dt_operation = op\<rparr> ch fs x))"

section \<open>The observer's side\<close>

lemma watch_frames_frame:
  assumes "ob_inv x"
  shows "ob_inv (watch_frames op ch fs x) \<and> (\<exists>s. watch_frames op ch fs x = x\<lparr>ob_store := s\<rparr>)"
  using assms
proof (induction fs arbitrary: x)
  case Nil
  show ?case using Nil by (simp add: exI [of _ "ob_store x"])
next
  case (Cons z fs)
  obtain f sg t where z: "z = (f, sg, t)" by (cases z)
  let ?y = "snd (ob_observe op (Some f) ch sg t x)"
  have "\<exists>s. ?y = x\<lparr>ob_store := s\<rparr>" by (auto simp: ob_observe_def split_beta Let_def split: option.split intro: exI [of _ "ob_store x"])
  then show ?case using Cons.IH [OF ob_observe_inv [OF Cons.prems, of op "Some f" ch sg t]] by (auto simp: z)
qed

definition watching :: "u64 \<Rightarrow> int \<Rightarrow> bool \<Rightarrow> CacheChannel list \<Rightarrow> nat \<Rightarrow> Observer \<Rightarrow> bool" where
  "watching e mode a cs k x \<longleftrightarrow> ob_inv x \<and> ob_open x \<and> \<not> ob_blocked x \<and> \<not> ob_pending x \<and> tk_epoch (ob_pass x) = e \<and> ob_mode x = mode \<and> ob_activeMode x = a \<and>
     take (length cs) (ob_plan x) = cs \<and> ob_planCount x = length cs \<and> distinct cs \<and> length cs \<le> maxChannels \<and> (\<forall>j. bit (ob_completedMask x) j \<longleftrightarrow> j < k)"

lemma index_of_nth: "distinct cs \<Longrightarrow> k < length cs \<Longrightarrow> index_where (ch_same (cs ! k)) cs i = Some (i + k)"
proof (induction cs arbitrary: i k)
  case (Cons c cs)
  show ?case
  proof (cases k)
    case (Suc j)
    then have "c \<noteq> cs ! j" using Cons.prems by auto
    then show ?thesis using Cons Suc by (simp add: ch_same_eq)
  qed (simp add: ch_same_eq)
qed simp

lemma watch_dwell_step:
  assumes "watching e mode a cs k x" and "k < length cs" and "ob_lastOperation x < op"
  shows "watching e mode a cs (Suc k) (watch_dwell mode a \<lparr>dt_epoch = e, dt_operation = op\<rparr> (cs ! k) fs x) \<and>
    ob_lastOperation (watch_dwell mode a \<lparr>dt_epoch = e, dt_operation = op\<rparr> (cs ! k) fs x) = op \<and>
    ob_pass (watch_dwell mode a \<lparr>dt_epoch = e, dt_operation = op\<rparr> (cs ! k) fs x) = ob_pass x"
proof -
  let ?op = "\<lparr>dt_epoch = e, dt_operation = op\<rparr>" and ?ch = "cs ! k"
  note w = assms(1) [unfolded watching_def]
  have i: "ob_index ?ch x = k" using index_of_nth [of cs k 0] w assms(2) by (simp add: ob_index_def)
  have k: "k < 64" "k \<noteq> maxChannels" using assms(2) w by (simp_all add: maxChannels_def)
  have "ob_completedMask x AND push_bit k 1 = 0" using mask_bits(1) [OF k(1), of "ob_completedMask x"] w by simp
  then have acc: "ob_channelAccepted e mode a ?ch ?op x = (True, x\<lparr>ob_lastOperation := op, ob_dwell := ?op, ob_dwellChannel := ?ch, ob_pending := True\<rparr>)"
    using w assms(3) i k(2) by (simp add: ob_channelAccepted_def Let_def)
  define y where "y = x\<lparr>ob_lastOperation := op, ob_dwell := ?op, ob_dwellChannel := ?ch, ob_pending := True\<rparr>"
  have y: "ob_inv y" using ob_accepted_inv [of x e mode a ?ch ?op] w by (simp add: acc y_def)
  obtain s where s: "watch_frames ?op ?ch fs y = y\<lparr>ob_store := s\<rparr>" and inv: "ob_inv (y\<lparr>ob_store := s\<rparr>)"
    using watch_frames_frame [OF y, of ?op ?ch fs] by metis
  let ?z = "y\<lparr>ob_store := s\<rparr>"
  have z: "ob_open ?z" "\<not> ob_blocked ?z" "ob_pending ?z" "dt_same (ob_dwell ?z) ?op" using w by (simp_all add: y_def dt_same_def)
  note fin = ob_channelFinished_eq [OF inv z]
  have iz: "ob_index (ob_dwellChannel ?z) ?z = k" using i by (simp add: y_def ob_index_def)
  have "watch_dwell mode a ?op ?ch fs x = snd (ob_channelFinished ?op False ?z)" by (simp add: watch_dwell_def acc y_def [symmetric] s)
  moreover have "bit (ob_completedMask x OR push_bit k 1) j \<longleftrightarrow> j < Suc k" for j
    using mask_bits(2) [OF k(1), of "ob_completedMask x"] w by (auto simp: set_eq_iff less_Suc_eq)
  ultimately show ?thesis using fin(2) w iz unfolding watching_def fin(1) by (simp add: y_def)
qed

section \<open>Both sides together\<close>

definition session_ok :: "u64 \<Rightarrow> u64 \<Rightarrow> (u64 \<times> u64 \<times> received list) list \<Rightarrow> bool" where
  "session_ok start end ev \<longleftrightarrow> list_all (\<lambda>(op, now, fs). start \<le> now \<and> now < end) ev"

abbreviation session_ops :: "u64 \<Rightarrow> (u64 \<times> u64 \<times> received list) list \<Rightarrow> (ScanDwell \<times> u64) list" where
  "session_ops e ev \<equiv> map (\<lambda>v. (\<lparr>dw_epoch = e, dw_operation = fst v\<rparr>, fst (snd v))) ev"

text \<open>The owner does not see the observer: its side of the session is a run of its dwells.\<close>

lemma session_owner:
  assumes "list_all (\<lambda>v. v \<noteq> None) (fst (dwell_run (session_ops e ev) c))"
  shows "fst (scan_session e mode a ev (c, x)) = snd (dwell_run (session_ops e ev) c)"
  using assms by (induction ev arbitrary: c x) (auto simp: split_beta Let_def)

lemma session_observer:
  assumes "watching e mode a cs k x" and "k + length ev = length cs" and "sorted_wrt (<) (ob_lastOperation x # map fst ev)"
    and "fst (dwell_run (session_ops e ev) c) = map Some (drop k cs)"
  shows "watching e mode a cs (length cs) (snd (scan_session e mode a ev (c, x))) \<and> ob_pass (snd (scan_session e mode a ev (c, x))) = ob_pass x"
  using assms
proof (induction ev arbitrary: c x k)
  case (Cons v ev)
  obtain op now fs where v: "v = (op, now, fs)" by (cases v)
  have k: "k < length cs" using Cons.prems(2) by simp
  let ?d = "dwell_once \<lparr>dw_epoch = e, dw_operation = op\<rparr> now c"
  have d: "drop k cs = cs ! k # drop (Suc k) cs" using k by (simp add: Cons_nth_drop_Suc)
  have n: "fg_next c = Some (cs ! k)" and r: "fst (dwell_run (session_ops e ev) ?d) = map Some (drop (Suc k) cs)"
    using Cons.prems(4) by (simp_all add: v d split_beta Let_def)
  note st = watch_dwell_step [OF Cons.prems(1) k, of op fs]
  have "ob_lastOperation x < op" using Cons.prems(3) by (simp add: v)
  note st = st [OF this]
  have "sorted_wrt (<) (ob_lastOperation (watch_dwell mode a \<lparr>dt_epoch = e, dt_operation = op\<rparr> (cs ! k) fs x) # map fst ev)" using Cons.prems(3) st by (simp add: v)
  from Cons.IH [OF conjunct1 [OF st] _ this r] Cons.prems(2) st show ?case by (simp add: v n)
qed simp

lemma begin_watches:
  assumes "ob_reach x" and "ob_begin e mode a (Some cs) x = (True, y)"
  shows "watching e mode a cs 0 y \<and> tk_generation (ob_pass y) \<noteq> 0 \<and> ob_lastOperation y = (if e = ob_epoch x then ob_lastOperation x else 0)"
proof -
  have i: "ob_inv y" using ob_begin_inv [OF ob_reach_inv [OF assms(1)], of e mode a "Some cs"] assms(2) by simp
  have g: "g \<noteq> - 1 \<Longrightarrow> g + 1 \<noteq> (0 :: u64)" for g by (metis add.commute add_eq_0_iff)
  have "plan_ok [] cs" "length cs \<le> maxChannels"
    using assms(2) by (auto simp: ob_begin_def Let_def split_beta scan_plan_def split: if_splits)
  then have cs: "distinct cs" "length cs \<le> maxChannels" using plan_ok_spec [of "[]" cs] by simp_all
  have "ob_open y \<and> \<not> ob_blocked y \<and> \<not> ob_pending y \<and> tk_epoch (ob_pass y) = e \<and> ob_mode y = mode \<and> ob_activeMode y = a \<and> take (length cs) (ob_plan y) = cs \<and>
      ob_planCount y = length cs \<and> ob_completedMask y = 0 \<and> tk_generation (ob_pass y) \<noteq> 0 \<and> ob_lastOperation y = (if e = ob_epoch x then ob_lastOperation x else 0)"
    using assms(2) by (auto simp: ob_begin_def Let_def split_beta g split: if_splits)
  then show ?thesis using i cs by (simp add: watching_def)
qed

text \<open>A session that was admitted on both sides leaves both ready to finish.\<close>

lemma session_ready:
  assumes "ob_reach x" and "fg_begin r a e t0 (Some cs) d c = (Am_accepted, s, c0)" and "ob_begin e mode a (Some cs) x = (True, x0)"
    and "length ev = length cs" and "sorted_wrt (<) (fc_lastOperation c0 # map fst ev)" and "sorted_wrt (<) (ob_lastOperation x0 # map fst ev)"
    and "session_ok t0 (t0 + fg_timeoutUs) ev" and "scan_session e mode a ev (c0, x0) = (c1, x1)"
  shows "watching e mode a cs (length cs) x1 \<and> ob_pass x1 = ob_pass x0 \<and> ready_after c0 c1 \<and> cs \<noteq> [] \<and> ft_epoch (fs_token (fc_status c0)) = e \<and>
    fs_plannedChannels (fc_status c0) = length cs \<and> fs_startedAtUs (fc_status c0) = t0 \<and> fs_deadlineUs (fc_status c0) = t0 + fg_timeoutUs"
proof -
  have c0: "fc_channels c0 = cs @ drop (length cs) (fc_channels c)" "fc_dwell c0 = ScanDwell0" "fs_phase (fc_status c0) = Fp_queued"
      "fs_plannedChannels (fc_status c0) = length cs" "fs_completedChannels (fc_status c0) = 0" "ft_epoch (fs_token (fc_status c0)) = e"
      "fs_startedAtUs (fc_status c0) = t0" "fs_deadlineUs (fc_status c0) = t0 + fg_timeoutUs" "cs \<noteq> []"
    using assms(2) by (auto simp: fg_begin_def Let_def ForegroundStatus0_def split: if_splits)
  have ops: "map (dw_operation \<circ> fst) (session_ops e ev) = map fst ev" by simp
  have "fst (dwell_run (session_ops e ev) c0) = map Some (take (length (session_ops e ev)) (drop (fs_completedChannels (fc_status c0)) (fc_channels c0))) \<and>
      ready_after c0 (snd (dwell_run (session_ops e ev) c0))"
    by (rule dwell_run_visits) (use assms(4,5,7) in \<open>auto simp: c0 ScanDwell0_def ops dwell_ok_def session_ok_def list_all_iff simp del: map_map\<close>)
  then have run: "fst (dwell_run (session_ops e ev) c0) = map Some cs" "ready_after c0 (snd (dwell_run (session_ops e ev) c0))"
    using assms(4) by (simp_all add: c0)
  have "c1 = snd (dwell_run (session_ops e ev) c0)" using session_owner [of e ev c0 mode a x0] assms(8) run(1) by (simp add: list_all_iff)
  moreover have "watching e mode a cs (length cs) x1 \<and> ob_pass x1 = ob_pass x0"
    using session_observer [of e mode a cs 0 x0 ev c0] begin_watches [OF assms(1,3)] assms(4,6,8) run(1) by simp
  ultimately show ?thesis using run(2) c0 by simp
qed

text \<open>The observer of a session is reached by its own calls.\<close>

lemma watch_reach: "ob_reach x \<Longrightarrow> ob_reach (watch_frames op ch fs x)"
proof (induction fs arbitrary: x)
  case (Cons z fs)
  obtain f sg t where z: "z = (f, sg, t)" by (cases z)
  have "ob_reach (snd (ob_observe op (Some f) ch sg t x))" using ob_reach.call [OF Cons.prems, of "Ob_observe op (Some f) ch sg t"] by simp
  then show ?case using Cons.IH by (simp add: z)
qed simp

lemma session_reach: "ob_reach x \<Longrightarrow> ob_reach (snd (scan_session e mode a ev (c, x)))"
proof (induction ev arbitrary: c x)
  case (Cons v ev)
  obtain op now fs where v: "v = (op, now, fs)" by (cases v)
  have "ob_reach (watch_dwell mode a \<lparr>dt_epoch = e, dt_operation = op\<rparr> ch fs x)" for ch
    unfolding watch_dwell_def
    using ob_reach.call [OF watch_reach [OF ob_reach.call [OF Cons.prems, of "Ob_accepted e mode a ch \<lparr>dt_epoch = e, dt_operation = op\<rparr>"]],
      where k = "Ob_finished \<lparr>dt_epoch = e, dt_operation = op\<rparr> False"] by simp
  then show ?case using Cons by (auto simp: v split: option.split)
qed simp

end
