(* ===== verification/DeviceProbe.thy ===== *)
theory DeviceProbe
  imports DeviceMonad
begin

text \<open>Rules for the probes, programs that call other programs with results of their own and caller-supplied extensions: what they do to the log and
  to the result.\<close>

text \<open>A sequence with its own result.\<close>

definition within :: "'p \<Rightarrow> ('p, 's, 'a) prog \<Rightarrow> ('o, 's, 'p) prog" where
  "within p m = State (\<lambda>(x, s). case run_state m (p, s) of (_, y, s') \<Rightarrow> (y, x, s'))"

text \<open>An extension acts on the device behind the log.\<close>

definition behind :: "('s \<Rightarrow> 's) \<Rightarrow> 's \<times> 'e list \<Rightarrow> 's \<times> 'e list" where
  "behind f = (\<lambda>(s, l). (f s, l))"

lemma frames_behind [frame_rules]: "frames W (ddo (behind f))"
  by (auto simp: frames_def ddo_def behind_def log_of_def split: prod.splits)

lemma frames_within [frame_rules]:
  fixes W :: "'e set" and m :: "('p, 's \<times> 'e list, 'a) prog"
  assumes "frames W m"
  shows "frames W (within p m :: ('o, 's \<times> 'e list, 'p) prog)"
  unfolding frames_def
proof
  fix t :: "'o \<times> 's \<times> 'e list"
  obtain x s l where t: "t = (x, s, l)" by (cases t)
  obtain new where "log_of (snd (run_state m (p, s, l))) = new @ l" "set new \<subseteq> W" using assms unfolding frames_def by (metis log_of_def snd_conv)
  then show "\<exists>new. log_of (snd (run_state (within p m :: ('o, 's \<times> 'e list, 'p) prog) t)) = new @ log_of t \<and> set new \<subseteq> W"
    by (auto simp: within_def t log_of_def split: prod.splits)
qed

lemma wp_within [wp_simps]: "wp (within p m) Q (x, s) = wp m (\<lambda>_ (y, s'). Q y (x, s')) (p, s)"
  by (simp add: wp_def within_def split: prod.splits)

lemma wp_any: "(\<And>a t. Q a t) \<Longrightarrow> wp m Q t"
  by (auto simp: wp_def split: prod.splits)

lemma wp_dcall_log [wp_simps]: "wp (dcall (log_read f)) Q (x, s, l) = Q (fst (f s)) (x, snd (f s), l)"
  by (simp add: wp_dcall log_read_def split_beta Let_def)

lemma wp_frames: "frames W m \<Longrightarrow> wp m (\<lambda>_ (_, _, l'). \<exists>new. l' = new @ l \<and> set new \<subseteq> W) (x, s, l)"
  unfolding frames_def wp_def log_of_def by (erule allE [of _ "(x, s, l)"]) (auto split: prod.splits)

lemma wp_conj: "wp m Q t \<Longrightarrow> wp m R t \<Longrightarrow> wp m (\<lambda>a t. Q a t \<and> R a t) t"
  by (auto simp: wp_def split: prod.splits)

end
