(* ===== verification/PowerCycle.thy ===== *)
theory PowerCycle
  imports DeviceProbe
begin

text \<open>The diagnostic supply cycle of \<open>src/PowerSequence.hpp\<close> and the crystal revision read of \<open>src/XtalProbe.hpp\<close>, over an arbitrary device, with the
  results of \<open>src/MmioProbe.hpp\<close> they start from. The step tables are the ones of the source.\<close>

section \<open>What the cycle starts from\<close>

datatype MmioStatus = Mm_wrongTarget | Mm_unsafeConfig | Mm_notD0 | Mm_busMasterActive | Mm_badBar | Mm_resourceMismatch | Mm_mapFailed | Mm_enableFailed
  | Mm_sampled | Mm_restoreFailed

record MmioResult =
  mm_status :: MmioStatus
  mm_commandBefore :: u16
  mm_commandDuring :: u16
  mm_commandAfter :: u16
  mm_base :: u64
  mm_length :: u64
  mm_cfgFirst :: u32
  mm_cfgSecond :: u32
  mm_sysStatus :: u32
  mm_reads :: nat
  mm_memoryBitChanged :: bool
  mm_commandRestored :: bool

definition stableValue :: "MmioResult \<Rightarrow> bool" where
  "stableValue r \<longleftrightarrow> mm_reads r = 3 \<and> mm_cfgFirst r = mm_cfgSecond r \<and> mm_cfgFirst r \<noteq> 0 \<and> mm_cfgFirst r \<noteq> 0xffffffff \<and> mm_cfgFirst r \<noteq> 0xdeadbeef"

datatype XtalStatus = Xt_notRun | Xt_unstableChip | Xt_wrongCut | Xt_invalidPower | Xt_powerNotReady | Xt_invalidControl | Xt_busy | Xt_commandRejected
  | Xt_timeout | Xt_invalidData | Xt_complete

record XtalResult =
  xt_status :: XtalStatus
  xt_isolation :: u32
  xt_powerBefore :: u32
  xt_powerAfter :: u32
  xt_clock :: u32
  xt_firmware :: u32
  xt_controlBefore :: u32
  xt_controlAfter :: u32
  xt_elapsedUs :: u64
  xt_reads32 :: nat
  xt_reads8 :: nat
  xt_writes :: nat
  xt_polls :: nat
  xt_rawRevision :: u8
  xt_powerSampled :: bool
  xt_powerAfterSampled :: bool
  xt_revisionValid :: bool

definition XtalResult0 :: XtalResult where
  "XtalResult0 = \<lparr>xt_status = Xt_notRun, xt_isolation = 0, xt_powerBefore = 0, xt_powerAfter = 0, xt_clock = 0, xt_firmware = 0, xt_controlBefore = 0,
     xt_controlAfter = 0, xt_elapsedUs = 0, xt_reads32 = 0, xt_reads8 = 0, xt_writes = 0, xt_polls = 0, xt_rawRevision = 0, xt_powerSampled = False,
     xt_powerAfterSampled = False, xt_revisionValid = False\<rparr>"

definition xtalControl :: u32 where "xtalControl = 0x270"
definition sysPower :: u32 where "sysPower = 4"
definition sysClock :: u32 where "sysClock = 8"
definition firmwareControl :: u32 where "firmwareControl = 0x1e0"

definition invalidRegister :: "u32 \<Rightarrow> bool" where
  "invalidRegister v \<longleftrightarrow> v = 0xffffffff \<or> v = 0xdeadbeef"

section \<open>The crystal revision\<close>

text \<open>The two operations of the device that only this probe uses: start the one read command, and fetch its data.\<close>

record 's XtalPort =
  xp_startXtalCvRead :: "'s \<Rightarrow> bool \<times> 's"
  xp_readXtalData :: "'s \<Rightarrow> u8 \<times> 's"

type_synonym ('s, 'a) xtal = "(XtalResult, 's, 'a) prog"

definition xt_end :: "XtalStatus \<Rightarrow> ('s, bool) xtal" where
  "xt_end s = do { omod (xt_status_update (\<lambda>_. s)); ret False }"

text \<open>The wait for the command, with \<open>k\<close> rounds left of 1001.\<close>

fun xtal_poll :: "'s Device \<Rightarrow> 's XtalPort \<Rightarrow> u64 \<Rightarrow> nat \<Rightarrow> ('s, unit) xtal" where
  "xtal_poll d p start 0 = ret ()"
| "xtal_poll d p start (Suc k) = do {
     now \<leftarrow> nowUs d;
     if 50000 \<le> now - start then ret () else do {
     v \<leftarrow> read32 d xtalControl;
     omod (\<lambda>r. r\<lparr>xt_controlAfter := v, xt_reads32 := xt_reads32 r + 1, xt_polls := xt_polls r + 1\<rparr>);
     if invalidRegister v then omod (xt_status_update (\<lambda>_. Xt_invalidControl))
     else if v AND 0x80000000 = 0 then do {
       b \<leftarrow> dcall (xp_readXtalData p);
       omod (\<lambda>r. r\<lparr>xt_rawRevision := b, xt_reads8 := xt_reads8 r + 1, xt_revisionValid := (b \<noteq> 0xff),
         xt_status := (if b \<noteq> 0xff then Xt_complete else Xt_invalidData)\<rparr>) }
     else do {
       (if k \<noteq> 0 then do { now \<leftarrow> nowUs d; if now - start < 50000 then pauseUs d 50 else ret () } else ret ());
       xtal_poll d p start k } } }"

definition sampleXtal :: "'s Device \<Rightarrow> 's XtalPort \<Rightarrow> MmioResult \<Rightarrow> ('s, bool) xtal" where
  "sampleXtal d p baseline = (
     if \<not> stableValue baseline then xt_end Xt_unstableChip
     else if drop_bit 12 (mm_cfgFirst baseline) AND 15 \<noteq> 1 then xt_end Xt_wrongCut
     else do {
       isolation \<leftarrow> read32 d 0;
       power \<leftarrow> read32 d sysPower;
       clock \<leftarrow> read32 d sysClock;
       firmware \<leftarrow> read32 d firmwareControl;
       omod (\<lambda>r. r\<lparr>xt_isolation := isolation, xt_powerBefore := power, xt_clock := clock, xt_firmware := firmware, xt_reads32 := 4, xt_powerSampled := True\<rparr>);
       if invalidRegister power then xt_end Xt_invalidPower
       else if power AND push_bit 17 1 = 0 \<or> power AND push_bit 22 1 \<noteq> 0 then xt_end Xt_powerNotReady
       else do {
       control \<leftarrow> read32 d xtalControl;
       omod (\<lambda>r. r\<lparr>xt_controlBefore := control, xt_reads32 := xt_reads32 r + 1\<rparr>);
       if invalidRegister control then xt_end Xt_invalidControl
       else if control AND 0x80000000 \<noteq> 0 then xt_end Xt_busy
       else do {
       start \<leftarrow> nowUs d;
       started \<leftarrow> dcall (xp_startXtalCvRead p);
       if \<not> started then xt_end Xt_commandRejected
       else do {
       omod (\<lambda>r. r\<lparr>xt_writes := 1, xt_status := Xt_timeout\<rparr>);
       xtal_poll d p start 1001;
       now \<leftarrow> nowUs d;
       omod (xt_elapsedUs_update (\<lambda>_. now - start));
       finished \<leftarrow> ogets (\<lambda>r. xt_status r = Xt_complete \<or> xt_status r = Xt_invalidData);
       if finished then do {
         after \<leftarrow> read32 d sysPower;
         omod (\<lambda>r. r\<lparr>xt_powerAfter := after, xt_reads32 := xt_reads32 r + 1, xt_powerAfterSampled := True\<rparr>);
         ret True }
       else ret True } } } })"

section \<open>Sequences\<close>

definition stateRegister :: u32 where "stateRegister = 0x3f0"

datatype StepKind = K_rmw32 | K_rmw8 | K_write32 | K_poll32 | K_delay | K_xtal

record PowerStep =
  ps_kind :: StepKind
  ps_address :: u32
  ps_mask :: u32
  ps_value :: u32
  ps_intervalUs :: u32
  ps_timeoutUs :: u32

definition r32 :: "u32 \<Rightarrow> u32 \<Rightarrow> u32 \<Rightarrow> PowerStep" where
  "r32 a m v = \<lparr>ps_kind = K_rmw32, ps_address = a, ps_mask = m, ps_value = v, ps_intervalUs = 0, ps_timeoutUs = 0\<rparr>"
definition r8 :: "u32 \<Rightarrow> u32 \<Rightarrow> u32 \<Rightarrow> PowerStep" where
  "r8 a m v = \<lparr>ps_kind = K_rmw8, ps_address = a, ps_mask = m, ps_value = v, ps_intervalUs = 0, ps_timeoutUs = 0\<rparr>"
definition wait32 :: "u32 \<Rightarrow> u32 \<Rightarrow> u32 \<Rightarrow> PowerStep" where
  "wait32 a m v = \<lparr>ps_kind = K_poll32, ps_address = a, ps_mask = m, ps_value = v, ps_intervalUs = 1000, ps_timeoutUs = 20000\<rparr>"
definition xtal_step :: "u8 \<Rightarrow> u8 \<Rightarrow> u8 \<Rightarrow> PowerStep" where
  "xtal_step a m v = \<lparr>ps_kind = K_xtal, ps_address = ucast a, ps_mask = ucast m, ps_value = ucast v, ps_intervalUs = 50, ps_timeoutUs = 50000\<rparr>"

definition on_steps :: "PowerStep list" where
  "on_steps = [
     r32 0x4 0x1800 0, r32 0x4 0x40000 0x40000, r32 0x90 2 2,
     r32 0x4 0x8000 0, r32 0x4 0x400 0, wait32 0x4 0x20000 0x20000,
     r32 0x20 0x800000 0x800000, wait32 0x20 0x800000 0x800000,
     r32 0x400 3 1, r32 0x400 0x30 0x30, r32 0x4 0x10000 0x10000,
     r32 0x4 0x100 0x100, wait32 0x4 0x100 0,
     r8 0x88 1 1, r8 0x88 1 0, r8 0x88 1 1, r8 0x88 1 0, r8 0x88 1 1,
     r32 0x70 0x1000 0, r32 0x18 0x40 0x40, xtal_step 0x90 0x40 0x40,
     r32 0x18 0x20 0x20, xtal_step 0x90 0x20 0x20, xtal_step 0x90 4 4,
     xtal_step 0x90 8 8, xtal_step 0x90 0x10 0, xtal_step 0x90 1 1, xtal_step 0x90 2 2,
     xtal_step 0x90 0x80 0, xtal_step 0xa1 2 0, xtal_step 0x24 0x70 0, xtal_step 0x26 0xf 0,
     r32 0xcc 4 4, r32 0x0 0x100 0x100, r32 0x0 0x8000 0,
     \<lparr>ps_kind = K_delay, ps_address = 0, ps_mask = 0, ps_value = 0, ps_intervalUs = 1000, ps_timeoutUs = 0\<rparr>, r32 0x0 0x4000 0, r32 0xcc 4 0]"

definition off_steps :: "PowerStep list" where
  "off_steps = [
     xtal_step 0x90 0x10 0x10, xtal_step 0x90 8 0, xtal_step 0x90 4 0, xtal_step 0x80 1 0,
     xtal_step 0x81 1 0, xtal_step 0x90 0x80 0x80, xtal_step 0x90 2 0, xtal_step 0x90 1 0,
     r32 0x4 0x10000 0x10000, r32 0x2f0 0x20000 0, r8 0x2 3 0,
     r32 0x18 0x20 0, xtal_step 0x90 0x20 0, r32 0x18 0x40 0, xtal_step 0x90 0x40 0,
     r32 0x4 0x200 0x200, wait32 0x4 0x200 0,
     \<lparr>ps_kind = K_write32, ps_address = 0x90, ps_mask = 0xffffffff, ps_value = 0x1a0b2, ps_intervalUs = 0, ps_timeoutUs = 0\<rparr>,
     r32 0x10 0x400 0x400, r32 0x200 0x60000 0x60000, r32 0x4 0x400 0x400]"

datatype SequenceError = Pe_none | Pe_invalidRead | Pe_rejectedWrite | Pe_busy | Pe_timeout | Pe_deadline

record SequenceResult =
  qr_error :: SequenceError
  qr_step :: nat
  qr_writes :: nat
  qr_polls :: nat
  qr_last :: u32

definition SequenceResult0 :: SequenceResult where
  "SequenceResult0 = \<lparr>qr_error = Pe_none, qr_step = 0, qr_writes = 0, qr_polls = 0, qr_last = 0\<rparr>"

definition power_allowed32 :: "u32 \<Rightarrow> bool" where
  "power_allowed32 a \<longleftrightarrow> a \<in> {0x0, 0x4, 0x10, 0x18, 0x20, 0x70, 0x90, 0xcc, 0x200, 0x270, 0x2f0, 0x400}"

definition power_allowed8 :: "u32 \<Rightarrow> bool" where
  "power_allowed8 a \<longleftrightarrow> a = 0x2 \<or> a = 0x88"

type_synonym ('s, 'a) sqn = "(SequenceResult, 's, 'a) prog"

text \<open>The bounded poll, with \<open>k\<close> rounds left.\<close>

fun power_poll_loop :: "'s Device \<Rightarrow> u32 \<Rightarrow> u32 \<Rightarrow> u32 \<Rightarrow> u32 \<Rightarrow> u32 \<Rightarrow> u64 \<Rightarrow> u64 \<Rightarrow> nat \<Rightarrow> ('s, SequenceError) sqn" where
  "power_poll_loop d address m v interval timeout sequenceStart start 0 = ret Pe_timeout"
| "power_poll_loop d address m v interval timeout sequenceStart start (Suc k) = do {
     now \<leftarrow> nowUs d;
     if 1000000 \<le> now - sequenceStart then ret Pe_deadline else do {
     now \<leftarrow> nowUs d;
     if ucast timeout \<le> now - start then ret Pe_timeout else do {
     lst \<leftarrow> read32 d address;
     omod (\<lambda>r. r\<lparr>qr_last := lst, qr_polls := qr_polls r + 1\<rparr>);
     if invalidRegister lst then ret Pe_invalidRead
     else if lst AND m = v then ret Pe_none
     else do { (if k \<noteq> 0 then pauseUs d (ucast interval) else ret ());
       power_poll_loop d address m v interval timeout sequenceStart start k } } } }"

definition power_poll :: "'s Device \<Rightarrow> u32 \<Rightarrow> u32 \<Rightarrow> u32 \<Rightarrow> u32 \<Rightarrow> u32 \<Rightarrow> u64 \<Rightarrow> ('s, SequenceError) sqn" where
  "power_poll d address m v interval timeout sequenceStart = do {
     start \<leftarrow> nowUs d;
     power_poll_loop d address m v interval timeout sequenceStart start (unat (timeout div interval + 1)) }"

definition power_xtal :: "'s Device \<Rightarrow> PowerStep \<Rightarrow> u64 \<Rightarrow> ('s, SequenceError) sqn" where
  "power_xtal d s start = do {
     lst \<leftarrow> read32 d xtalControl;
     omod (qr_last_update (\<lambda>_. lst));
     if invalidRegister lst then ret Pe_invalidRead
     else if lst AND 0x80000000 \<noteq> 0 then ret Pe_busy
     else do {
       ok \<leftarrow> write32 d xtalControl (0x80000000 OR push_bit 16 (ps_mask s) OR push_bit 8 (ps_value s) OR ps_address s);
       if \<not> ok then ret Pe_rejectedWrite
       else do {
         omod (\<lambda>r. r\<lparr>qr_writes := qr_writes r + 1\<rparr>);
         power_poll d xtalControl 0x80000000 0 50 50000 start } } }"

definition power_write :: "'s Device \<Rightarrow> PowerStep \<Rightarrow> u32 \<Rightarrow> ('s, SequenceError) sqn" where
  "power_write d s v = do {
     written \<leftarrow> (if ps_kind s = K_rmw8
       then (if power_allowed8 (ps_address s) then write8 d (ps_address s) (ucast v) else ret False)
       else (if power_allowed32 (ps_address s) then write32 d (ps_address s) v else ret False));
     if \<not> written then ret Pe_rejectedWrite
     else do { omod (\<lambda>r. r\<lparr>qr_writes := qr_writes r + 1\<rparr>); ret Pe_none } }"

definition power_step :: "'s Device \<Rightarrow> u64 \<Rightarrow> PowerStep \<Rightarrow> ('s, SequenceError) sqn" where
  "power_step d start s = (case ps_kind s of
       K_delay \<Rightarrow> do { pauseUs d (ucast (ps_intervalUs s)); ret Pe_none }
     | K_poll32 \<Rightarrow> power_poll d (ps_address s) (ps_mask s) (ps_value s) (ps_intervalUs s) (ps_timeoutUs s) start
     | K_xtal \<Rightarrow> power_xtal d s start
     | K_write32 \<Rightarrow> power_write d s (ps_value s)
     | K_rmw8 \<Rightarrow> do {
         b \<leftarrow> read8 d (ps_address s);
         omod (qr_last_update (\<lambda>_. ucast b));
         if invalidRegister (ucast b) \<or> b = 0xff then ret Pe_invalidRead
         else power_write d s ((ucast b AND NOT (ps_mask s)) OR ps_value s) }
     | K_rmw32 \<Rightarrow> do {
         lst \<leftarrow> read32 d (ps_address s);
         omod (qr_last_update (\<lambda>_. lst));
         if invalidRegister lst then ret Pe_invalidRead
         else power_write d s ((lst AND NOT (ps_mask s)) OR ps_value s) })"

fun power_steps :: "'s Device \<Rightarrow> u64 \<Rightarrow> nat \<Rightarrow> PowerStep list \<Rightarrow> ('s, unit) sqn" where
  "power_steps d start i [] = omod (qr_step_update (\<lambda>_. i))"
| "power_steps d start i (s # ss) = do {
     omod (qr_step_update (\<lambda>_. i));
     now \<leftarrow> nowUs d;
     if 1000000 \<le> now - start then omod (qr_error_update (\<lambda>_. Pe_deadline)) else do {
     e \<leftarrow> power_step d start s;
     omod (qr_error_update (\<lambda>_. e));
     if e \<noteq> Pe_none then ret () else power_steps d start (i + 1) ss } }"

definition run_steps :: "'s Device \<Rightarrow> PowerStep list \<Rightarrow> ('s, unit) sqn" where
  "run_steps d steps = do { start \<leftarrow> nowUs d; power_steps d start 0 steps }"

section \<open>The cycle\<close>

datatype CycleStatus = Cy_notRun | Cy_preflightFailed | Cy_invalidState | Cy_initiallyOn | Cy_dirtyWriteMask | Cy_completed | Cy_onFailedOff | Cy_cleanupFailed
  | Cy_activeNotObserved

record CycleResult =
  cy_status :: CycleStatus
  cy_on :: SequenceResult
  cy_off :: SequenceResult
  cy_initialState :: u32
  cy_activeState :: u32
  cy_finalState :: u32
  cy_initialPower :: u32
  cy_finalPower :: u32
  cy_attempted :: bool
  cy_cleanupAttempted :: bool
  cy_returnedOff :: bool
  cy_activeObserved :: bool

definition CycleResult0 :: CycleResult where
  "CycleResult0 = \<lparr>cy_status = Cy_notRun, cy_on = SequenceResult0, cy_off = SequenceResult0, cy_initialState = 0, cy_activeState = 0, cy_finalState = 0,
     cy_initialPower = 0, cy_finalPower = 0, cy_attempted = False, cy_cleanupAttempted = False, cy_returnedOff = False, cy_activeObserved = False\<rparr>"

type_synonym ('s, 'a) cyc = "(CycleResult, 's, 'a) prog"

definition cy_end :: "CycleStatus \<Rightarrow> ('s, unit) cyc" where
  "cy_end s = omod (cy_status_update (\<lambda>_. s))"

text \<open>From the attempt on: the sequence, the extension while the device is up, and the shutdown in every case.\<close>

definition cycle_attempt :: "'s Device \<Rightarrow> ('s \<Rightarrow> 's) \<Rightarrow> ('s, unit) cyc" where
  "cycle_attempt d extension = do {
     omod (cy_attempted_update (\<lambda>_. True));
     on \<leftarrow> within SequenceResult0 (run_steps d on_steps);
     omod (cy_on_update (\<lambda>_. on));
     (if qr_error on = Pe_none then do {
        active \<leftarrow> read32 d stateRegister;
        omod (\<lambda>r. r\<lparr>cy_activeState := active, cy_activeObserved := (\<not> invalidRegister active \<and> drop_bit 8 active AND 3 = 1)\<rparr>) }
      else ret ());
     observed \<leftarrow> ogets cy_activeObserved;
     (if observed then ddo extension else ret ());
     omod (cy_cleanupAttempted_update (\<lambda>_. True));
     off \<leftarrow> within SequenceResult0 (run_steps d off_steps);
     omod (cy_off_update (\<lambda>_. off));
     wm \<leftarrow> read32 d 0xcc;
     maskClosed \<leftarrow> (if invalidRegister wm then ret False else if wm AND 4 = 0 then ret True else write32 d 0xcc (wm AND NOT 4));
     maskAfter \<leftarrow> read32 d 0xcc;
     finalState \<leftarrow> read32 d stateRegister;
     finalPower \<leftarrow> read32 d sysPower;
     omod (\<lambda>r. r\<lparr>cy_finalState := finalState, cy_finalPower := finalPower, cy_returnedOff := (qr_error off = Pe_none \<and> maskClosed \<and>
       \<not> invalidRegister maskAfter \<and> maskAfter AND 4 = 0 \<and> \<not> invalidRegister finalState \<and> drop_bit 8 finalState AND 3 = 0 \<and>
       \<not> invalidRegister finalPower \<and> finalPower AND 0x400 \<noteq> 0)\<rparr>);
     omod (\<lambda>r. r\<lparr>cy_status := (if \<not> cy_returnedOff r then Cy_cleanupFailed else if qr_error (cy_on r) \<noteq> Pe_none then Cy_onFailedOff
       else if \<not> cy_activeObserved r then Cy_activeNotObserved else Cy_completed)\<rparr>) }"

definition power_cycle :: "'s Device \<Rightarrow> MmioResult \<Rightarrow> XtalResult \<Rightarrow> ('s \<Rightarrow> 's) \<Rightarrow> ('s, unit) cyc" where
  "power_cycle d mmio xtal extension = (
     if \<not> stableValue mmio \<or> drop_bit 12 (mm_cfgFirst mmio) AND 15 \<noteq> 1 \<or> xt_status xtal \<noteq> Xt_complete \<or> \<not> xt_revisionValid xtal \<or> xt_rawRevision xtal \<noteq> 0x11
     then cy_end Cy_preflightFailed
     else do {
       command \<leftarrow> readCommand d;
       if command AND 6 \<noteq> 2 then cy_end Cy_preflightFailed
       else do {
       initialState \<leftarrow> read32 d stateRegister;
       initialPower \<leftarrow> read32 d sysPower;
       omod (\<lambda>r. r\<lparr>cy_initialState := initialState, cy_initialPower := initialPower\<rparr>);
       pmc \<leftarrow> read32 d 0xcc;
       if invalidRegister initialState \<or> invalidRegister initialPower \<or> invalidRegister pmc then cy_end Cy_invalidState
       else if drop_bit 8 initialState AND 3 \<noteq> 0 then cy_end Cy_initiallyOn
       else if pmc AND 4 \<noteq> 0 then cy_end Cy_dirtyWriteMask
       else cycle_attempt d extension } })"

definition plain_cycle :: "'s Device \<Rightarrow> MmioResult \<Rightarrow> XtalResult \<Rightarrow> ('s, unit) cyc" where
  "plain_cycle d mmio xtal = power_cycle d mmio xtal (\<lambda>s. s)"

section \<open>What the probes do to a device\<close>

definition power_events :: "dev_event set" where
  "power_events = {Ev_write32 a v | a v. power_allowed32 a} \<union> {Ev_write8 a v | a v. power_allowed8 a} \<union> range Ev_pause"

lemma power_events_in [simp]:
  "Ev_write32 a v \<in> power_events \<longleftrightarrow> power_allowed32 a" "Ev_write8 a w \<in> power_events \<longleftrightarrow> power_allowed8 a" "Ev_pause t \<in> power_events"
  by (auto simp: power_events_def)

lemma allowed_fixed [simp]: "power_allowed32 xtalControl" "power_allowed32 0xcc"
  by (simp_all add: power_allowed32_def xtalControl_def)

lemma frames_power_poll [frame_rules]: "frames power_events (power_poll (logged d) address m v interval timeout start)"
proof -
  have "frames power_events (power_poll_loop (logged d) address m v interval timeout start t k)" for t k
    by (induction k) (auto intro!: frame_rules)
  then show ?thesis unfolding power_poll_def by (auto intro!: frame_rules)
qed

lemma frames_power_write [frame_rules]: "frames power_events (power_write (logged d) s v)"
  unfolding power_write_def by (auto intro!: frame_rules)

lemma frames_power_step [frame_rules]: "frames power_events (power_step (logged d) start s)"
  unfolding power_step_def power_xtal_def by (cases "ps_kind s") (auto intro!: frame_rules)

lemma frames_run_steps [frame_rules]: "frames power_events (run_steps (logged d) steps)"
proof -
  have "frames power_events (power_steps (logged d) start i steps)" for start i
    by (induction steps arbitrary: i) (auto intro!: frame_rules)
  then show ?thesis unfolding run_steps_def by (auto intro!: frame_rules)
qed

lemma frames_cycle_attempt: "frames power_events (cycle_attempt (logged d) (behind f))"
  unfolding cycle_attempt_def by (auto intro!: frame_rules)

section \<open>The verdict\<close>

text \<open>What the result says once the attempt was made.\<close>

definition cycle_verdict :: "CycleResult \<Rightarrow> bool" where
  "cycle_verdict r \<longleftrightarrow> cy_attempted r \<and> cy_cleanupAttempted r \<and>
     cy_status r = (if \<not> cy_returnedOff r then Cy_cleanupFailed else if qr_error (cy_on r) \<noteq> Pe_none then Cy_onFailedOff
       else if \<not> cy_activeObserved r then Cy_activeNotObserved else Cy_completed) \<and>
     (cy_returnedOff r \<longrightarrow> qr_error (cy_off r) = Pe_none \<and> drop_bit 8 (cy_finalState r) AND 3 = 0 \<and> cy_finalPower r AND 0x400 \<noteq> 0) \<and>
     (cy_activeObserved r \<longrightarrow> drop_bit 8 (cy_activeState r) AND 3 = 1)"

lemma cycle_attempt_verdict: "\<not> cy_activeObserved r \<Longrightarrow> wp (cycle_attempt d f) (\<lambda>_ (r, _). cycle_verdict r) (r, s)"
  unfolding cycle_attempt_def wp_simps wp_dcall
  by (auto intro!: wp_any simp: wp_simps wp_dcall cycle_verdict_def)


text \<open>The crystal probe issues its one command at most once, and only a valid revision completes it.\<close>

lemma xtal_poll_sound: "keeps (\<lambda>r. (xt_status r = Xt_complete \<longrightarrow> xt_revisionValid r \<and> xt_rawRevision r \<noteq> 0xff) \<and> xt_writes r = 1) (xtal_poll d p start k)
  (\<lambda>_ r. (xt_status r = Xt_complete \<longrightarrow> xt_revisionValid r \<and> xt_rawRevision r \<noteq> 0xff) \<and> xt_writes r = 1)"
  by (induction k) (auto simp: keeps_def wp_simps wp_dcall)

lemma xtal_complete: "wp (sampleXtal d p baseline) (\<lambda>_ (r, _). xt_status r = Xt_complete \<longrightarrow> xt_revisionValid r \<and> xt_rawRevision r \<noteq> 0xff \<and> xt_writes r = 1) (XtalResult0, s)"
  unfolding sampleXtal_def xt_end_def
  by (auto simp: wp_simps wp_dcall XtalResult0_def intro!: keepsD [OF xtal_poll_sound])

end
