(* ===== verification/RomBoot.thy ===== *)
theory RomBoot
  imports DeviceProbe
begin

text \<open>Bringing the boot ROM up to accept firmware, \<open>src/FirmwareBoot.hpp\<close>: the minimal queue configuration, the reset of the firmware processor, the
  caller's action, and the shutdown that follows in every case, over an arbitrary device. A \<open>break\<close> out of the source's single-pass loop is the
  value \<^term>\<open>False\<close> here.\<close>

section \<open>Data\<close>

datatype RomStatus = Rs_notRun | Rs_unsafeCommand | Rs_invalidRead | Rs_writeFailed | Rs_timeout | Rs_staleReady | Rs_romError | Rs_ready | Rs_cleanupFailed

definition rom_allowed32 :: "u32 \<Rightarrow> bool" where
  "rom_allowed32 a \<longleftrightarrow> 0x9040 \<le> a \<and> a \<le> 0x9068 \<and> a AND 3 = 0 \<or>
     a \<in> {8, 0x88, 0x160, 0x164, 0x168, 0x16c, 0x1e0, 0x1f4, 0x1f8, 0xc00, 0x1000, 0x1010, 0x8400, 0x8404, 0x8a00, 0x8a04, 0x8c08, 0x9008, 0x8c40, 0x8c44, 0x8c4c, 0x8c50}"

definition rom_invalid :: "u32 \<Rightarrow> bool" where
  "rom_invalid v \<longleftrightarrow> v = 0xffffffff \<or> v = 0xdeadbeef"

definition txChannels :: u32 where "txChannels = 0x00070f00"
definition stopChannels :: u32 where "stopChannels = txChannels"
definition busyChannels :: u32 where "busyChannels = txChannels OR 0x00780003"

record RomResult =
  rb_status :: RomStatus
  rb_operationStatus :: RomStatus
  rb_phase :: nat
  rb_writes :: nat
  rb_polls :: nat
  rb_wde :: u32
  rb_ple :: u32
  rb_control :: u32
  rb_dmac :: u32
  rb_clock :: u32
  rb_wdeConfig :: u32
  rb_pleConfig :: u32
  rb_hfcControl :: u32
  rb_hfcPages :: u32
  rb_hciBefore :: u32
  rb_stopBefore :: u32
  rb_hciPaused :: u32
  rb_stopPaused :: u32
  rb_hciAfter :: u32
  rb_stopAfter :: u32
  rb_cleanupFailures :: u32
  rb_cleanupClock :: u32
  rb_cleanupDmac :: u32
  rb_cleanupClockChecked :: bool
  rb_initialDmac :: u32
  rb_initialHci :: u32
  rb_accessDmac :: u32
  rb_accessClock :: u32
  rb_accessAttempted :: bool
  rb_accessReady :: bool
  rb_hciCaptured :: bool
  rb_failureAddress :: u32
  rb_failureMask :: u32
  rb_failureExpected :: u32
  rb_failureActual :: u32
  rb_failureRecorded :: bool
  rb_attempted :: bool
  rb_cleanupOK :: bool
  rb_cpuStopped :: bool

text \<open>With the local variables \<open>hci\<close> and \<open>stop\<close>.\<close>

record RomProbe = RomResult +
  rl_hci :: u32
  rl_stop :: u32

definition RomProbe0 :: RomProbe where
  "RomProbe0 = \<lparr>rb_status = Rs_notRun, rb_operationStatus = Rs_notRun, rb_phase = 0, rb_writes = 0, rb_polls = 0, rb_wde = 0, rb_ple = 0, rb_control = 0,
     rb_dmac = 0, rb_clock = 0, rb_wdeConfig = 0, rb_pleConfig = 0, rb_hfcControl = 0, rb_hfcPages = 0, rb_hciBefore = 0, rb_stopBefore = 0, rb_hciPaused = 0,
     rb_stopPaused = 0, rb_hciAfter = 0, rb_stopAfter = 0, rb_cleanupFailures = 0, rb_cleanupClock = 0, rb_cleanupDmac = 0, rb_cleanupClockChecked = False,
     rb_initialDmac = 0, rb_initialHci = 0, rb_accessDmac = 0, rb_accessClock = 0, rb_accessAttempted = False, rb_accessReady = False,
     rb_hciCaptured = False, rb_failureAddress = 0, rb_failureMask = 0, rb_failureExpected = 0, rb_failureActual = 0, rb_failureRecorded = False,
     rb_attempted = False, rb_cleanupOK = False, rb_cpuStopped = False, rl_hci = 0, rl_stop = 0\<rparr>"

type_synonym ('s, 'a) rom = "(RomProbe, 's, 'a) prog"

section \<open>Steps\<close>

definition rom_end :: "RomStatus \<Rightarrow> ('s, bool) rom" where
  "rom_end st = do { omod (rb_status_update (\<lambda>_. st)); ret False }"

text \<open>\<open>if(!m){r.status=st;break;}\<close>\<close>

definition or_end :: "RomStatus \<Rightarrow> ('s, bool) rom \<Rightarrow> ('s, bool) rom" where
  "or_end st m = do { ok \<leftarrow> m; if ok then ret True else rom_end st }"

definition rom_matches :: "u32 \<Rightarrow> u32 \<Rightarrow> u32 \<Rightarrow> u32 \<Rightarrow> ('s, bool) rom" where
  "rom_matches address v m expected = (if \<not> rom_invalid v \<and> v AND m = expected then ret True
     else do {
       omod (\<lambda>r. if rb_failureRecorded r then r else r\<lparr>rb_failureRecorded := True, rb_failureAddress := address, rb_failureMask := m,
         rb_failureExpected := expected, rb_failureActual := v\<rparr>);
       ret False })"

definition rom_wr :: "'s Device \<Rightarrow> u32 \<Rightarrow> u32 \<Rightarrow> ('s, bool) rom" where
  "rom_wr d a v = do {
     omod (\<lambda>r. r\<lparr>rb_writes := rb_writes r + 1\<rparr>);
     ok \<leftarrow> write32 d a v;
     if ok then ret True else rom_end Rs_writeFailed }"

definition rom_rm :: "'s Device \<Rightarrow> u32 \<Rightarrow> u32 \<Rightarrow> u32 \<Rightarrow> ('s, bool) rom" where
  "rom_rm d a m v = do {
     old \<leftarrow> read32 d a;
     if rom_invalid old then rom_end Rs_invalidRead else rom_wr d a ((old AND NOT m) OR v) }"

text \<open>The bounded poll with \<open>k\<close> rounds left; \<open>keep\<close> stores the value read.\<close>

fun rom_poll_loop :: "'s Device \<Rightarrow> u32 \<Rightarrow> u32 \<Rightarrow> u32 \<Rightarrow> u64 \<Rightarrow> (u32 \<Rightarrow> RomProbe \<Rightarrow> RomProbe) \<Rightarrow> u64 \<Rightarrow> nat \<Rightarrow> ('s, bool) rom" where
  "rom_poll_loop d a m wanted timeout keep start 0 = rom_end Rs_timeout"
| "rom_poll_loop d a m wanted timeout keep start (Suc k) = do {
     now \<leftarrow> nowUs d;
     if now < start \<or> timeout \<le> now - start then rom_end Rs_timeout else do {
     v \<leftarrow> read32 d a;
     omod (\<lambda>r. keep v (r\<lparr>rb_polls := rb_polls r + 1\<rparr>));
     if rom_invalid v then rom_end Rs_invalidRead
     else if v AND m = wanted then ret True
     else do { pauseUs d 50; rom_poll_loop d a m wanted timeout keep start k } } }"

definition rom_poll :: "'s Device \<Rightarrow> u32 \<Rightarrow> u32 \<Rightarrow> u32 \<Rightarrow> nat \<Rightarrow> (u32 \<Rightarrow> RomProbe \<Rightarrow> RomProbe) \<Rightarrow> ('s, bool) rom" where
  "rom_poll d a m wanted timeout keep = do {
     start \<leftarrow> nowUs d;
     rom_poll_loop d a m wanted (of_nat timeout) keep start (timeout div 50 + 1) }"

definition rom_rms :: "'s Device \<Rightarrow> (u32 \<times> u32 \<times> u32) list \<Rightarrow> ('s, bool) rom" where
  "rom_rms d xs = allM (\<lambda>(a, m, v). rom_rm d a m v) xs"

definition rom_wrs :: "'s Device \<Rightarrow> (u32 \<times> u32) list \<Rightarrow> ('s, bool) rom" where
  "rom_wrs d xs = allM (\<lambda>(a, v). rom_wr d a v) xs"

definition rom_phase :: "nat \<Rightarrow> ('s, bool) rom" where
  "rom_phase n = do { omod (rb_phase_update (\<lambda>_. n)); ret True }"

section \<open>The attempt\<close>

definition rom_access :: "'s Device \<Rightarrow> ('s, bool) rom" where
  "rom_access d = do {
     omod (rb_accessAttempted_update (\<lambda>_. True));
     andM (rom_wr d 0x8400 0x60440000) (do {
       v \<leftarrow> read32 d 0x8400;
       omod (rb_accessDmac_update (\<lambda>_. v));
       andM (or_end Rs_writeFailed (rom_matches 0x8400 v 0xffffffff 0x60440000)) (andM (rom_wr d 0x8404 0x00040000) (do {
       v \<leftarrow> read32 d 0x8404;
       omod (rb_accessClock_update (\<lambda>_. v));
       andM (or_end Rs_writeFailed (rom_matches 0x8404 v 0xffffffff 0x00040000)) (do {
       omod (rb_accessReady_update (\<lambda>_. True));
       hci \<leftarrow> read32 d 0x1000;
       stop \<leftarrow> read32 d 0x1010;
       omod (\<lambda>r. r\<lparr>rl_hci := hci, rl_stop := stop\<rparr>);
       if rom_invalid hci \<or> rom_invalid stop then rom_end Rs_invalidRead
       else do {
         omod (\<lambda>r. r\<lparr>rb_hciBefore := hci, rb_stopBefore := stop, rb_hciCaptured := True\<rparr>);
         ret True } }) })) }) }"

definition rom_pause :: "'s Device \<Rightarrow> ('s, bool) rom" where
  "rom_pause d = andM (rom_phase 1) (do {
     hci \<leftarrow> ogets rl_hci;
     stop \<leftarrow> ogets rl_stop;
     andM (rom_wr d 0x1000 (hci AND NOT 0x2800)) (andM (rom_wr d 0x1010 (stop OR stopChannels))
      (andM (rom_poll d 0x101c busyChannels 0 2000 (\<lambda>_ r. r)) (do {
       h \<leftarrow> read32 d 0x1000;
       s \<leftarrow> read32 d 0x1010;
       omod (\<lambda>r. r\<lparr>rb_hciPaused := h, rb_stopPaused := s\<rparr>);
       or_end Rs_writeFailed (andM (rom_matches 0x1000 h 0x2800 0) (rom_matches 0x1010 s stopChannels stopChannels)) }))) })"

definition rom_quota :: "nat \<Rightarrow> u32" where
  "rom_quota i = (let q = (if i = 2 then 16 else if i = 3 then 48 else 0) in q OR push_bit 16 q)"

definition rom_layout :: "'s Device \<Rightarrow> ('s, bool) rom" where
  "rom_layout d = andM (rom_phase 2) (andM (rom_rms d [(0x8400, 0x04800000, 0), (0x8404, 0x04800000, 0x04800000)])
     (andM (rom_rms d [(0x8c08, 0x1fff3f03, 0), (0x9008, 0x1fff3f03, 0x00400801)])
     (andM (rom_wrs d [(0x8c40, 0), (0x8c44, 48), (0x8c4c, 0), (0x8c50, 0)])
     (andM (allM (\<lambda>i. rom_wr d (0x9040 + of_nat i * 4) (rom_quota i)) [0..<11])
     (rom_rms d [(0x8400, 0x04800000, 0x04800000)])))))"

definition rom_linked :: "'s Device \<Rightarrow> ('s, bool) rom" where
  "rom_linked d = andM (rom_phase 3) (andM (rom_poll d 0x8d00 3 3 2000 (\<lambda>v. rb_wde_update (\<lambda>_. v)))
     (rom_poll d 0x9100 3 3 2000 (\<lambda>v. rb_ple_update (\<lambda>_. v))))"

definition rom_hfc :: "'s Device \<Rightarrow> ('s, bool) rom" where
  "rom_hfc d = andM (rom_phase 4) (andM (rom_rm d 0x8a00 9 0) (andM (rom_wr d 0x8a04 (push_bit 16 40))
     (andM (rom_rm d 0x8a00 0xc00 0) (andM (rom_rm d 0x8a00 9 8) (do {
       wde \<leftarrow> read32 d 0x8c08;
       ple \<leftarrow> read32 d 0x9008;
       control \<leftarrow> read32 d 0x8a00;
       pages \<leftarrow> read32 d 0x8a04;
       omod (\<lambda>r. r\<lparr>rb_wdeConfig := wde, rb_pleConfig := ple, rb_hfcControl := control, rb_hfcPages := pages\<rparr>);
       or_end Rs_invalidRead (andM (rom_matches 0x8c08 wde 0x1fff3f03 0) (andM (rom_matches 0x9008 ple 0x1fff3f03 0x00400801)
         (andM (rom_matches 0x8a00 control 0xc09 8) (rom_matches 0x8a04 pages 0xffffffff (push_bit 16 40))))) })))))"

definition rom_reset :: "'s Device \<Rightarrow> u16 \<Rightarrow> ('s, bool) rom" where
  "rom_reset d reason = andM (rom_phase 5)
     (andM (rom_rms d [(0x88, 2, 0), (0x1e0, 7, 0), (8, 0x4000, 0), (0x88, 4, 0), (0x88, 4, 4), (0x88, 1, 0), (0x88, 1, 1)])
     (andM (rom_wrs d [(0x1f4, 0), (0x1f8, 0), (0x160, 0), (0x164, 0), (0x168, 0), (0x16c, 0)])
     (andM (rom_rms d [(8, 0x4000, 0x4000), (0x1e0, 0xe7, 1), (0xc00, 0x30000, 0x20000)]) (do {
       omod (\<lambda>r. r\<lparr>rb_writes := rb_writes r + 1\<rparr>);
       andM (or_end Rs_writeFailed (write16 d 0x1e6 (reason AND NOT 7))) (do {
       v \<leftarrow> read32 d 0x1e0;
       andM (or_end Rs_staleReady (rom_matches 0x1e0 v 0xe7 1)) (rom_rm d 0x88 2 2) }) }))))"

definition rom_wait :: "'s Device \<Rightarrow> ('s, bool) rom" where
  "rom_wait d = andM (rom_phase 6) (andM (rom_poll d 0x1e0 2 2 400000 (\<lambda>v. rb_control_update (\<lambda>_. v))) (do {
     control \<leftarrow> ogets rb_control;
     if control AND 0xe0 = 0xe0 then rom_end Rs_staleReady
     else let state = drop_bit 5 control AND 7 in if 2 \<le> state \<and> state \<le> 4 then rom_end Rs_romError
     else do {
       dmac \<leftarrow> read32 d 0x8400;
       clock \<leftarrow> read32 d 0x8404;
       omod (\<lambda>r. r\<lparr>rb_dmac := dmac, rb_clock := clock\<rparr>);
       andM (or_end Rs_invalidRead (andM (rom_matches 0x8400 dmac 0xffffffff 0x64c40000) (rom_matches 0x8404 clock 0xffffffff 0x04840000))) (do {
         omod (rb_status_update (\<lambda>_. Rs_ready));
         ret True }) } }))"

definition rom_attempt :: "'s Device \<Rightarrow> u16 \<Rightarrow> ('s, bool) rom" where
  "rom_attempt d reason = andM (rom_access d) (andM (rom_pause d) (andM (rom_layout d) (andM (rom_linked d) (andM (rom_hfc d)
     (andM (rom_reset d reason) (rom_wait d))))))"

section \<open>The shutdown\<close>

definition rom_flag :: "u32 \<Rightarrow> ('s, bool) rom \<Rightarrow> ('s, unit) rom" where
  "rom_flag b m = do { ok \<leftarrow> m; if ok then ret () else omod (\<lambda>r. r\<lparr>rb_cleanupFailures := rb_cleanupFailures r OR b\<rparr>) }"

text \<open>Each part returns its share of \<open>ok\<close>.\<close>

definition rom_clean_cpu :: "'s Device \<Rightarrow> ('s, bool) rom" where
  "rom_clean_cpu d = do {
     phase \<leftarrow> ogets rb_phase;
     a \<leftarrow> (if 5 \<le> phase then eachM (\<lambda>(a, m, v). rom_rm d a m v) [(0x88, 2, 0), (0x1e0, 7, 0), (8, 0x4000, 0), (0x88, 4, 0), (0x88, 4, 4), (0x88, 1, 0), (0x88, 1, 1)]
       else ret True);
     b \<leftarrow> (if 4 \<le> phase then rom_rm d 0x8a00 9 0 else ret True);
     (if 4 \<le> phase then do { v \<leftarrow> read32 d 0x8a00; rom_flag 1 (rom_matches 0x8a00 v 9 0) } else ret ());
     ret (a \<and> b) }"

definition rom_clean_hci :: "'s Device \<Rightarrow> ('s, bool) rom" where
  "rom_clean_hci d = do {
     captured \<leftarrow> ogets rb_hciCaptured;
     if \<not> captured then ret True else do {
     hci \<leftarrow> ogets rl_hci;
     stop \<leftarrow> ogets rl_stop;
     st \<leftarrow> rom_wr d 0x1010 stop;
     h \<leftarrow> rom_wr d 0x1000 hci;
     hciAfter \<leftarrow> read32 d 0x1000;
     stopAfter \<leftarrow> read32 d 0x1010;
     omod (\<lambda>r. r\<lparr>rb_hciAfter := hciAfter, rb_stopAfter := stopAfter\<rparr>);
     rom_flag 16 (rom_matches 0x1000 hciAfter 0xffffffff hci);
     rom_flag 32 (rom_matches 0x1010 stopAfter 0xffffffff stop);
     ret (st \<and> h) } }"

definition rom_clean_access :: "'s Device \<Rightarrow> ('s, bool) rom" where
  "rom_clean_access d = do {
     attempted \<leftarrow> ogets rb_accessAttempted;
     if \<not> attempted then ret True else do {
     function \<leftarrow> read32 d 0x8400;
     c \<leftarrow> (if \<not> rom_invalid function \<and> function AND 0x40000000 \<noteq> 0 then do {
         c \<leftarrow> rom_wr d 0x8404 0;
         v \<leftarrow> read32 d 0x8404;
         omod (\<lambda>r. r\<lparr>rb_cleanupClock := v, rb_cleanupClockChecked := True\<rparr>);
         rom_flag 4 (rom_matches 0x8404 v 0xffffffff 0);
         ret c }
       else do { rom_flag 4 (ret False); ret True });
     f \<leftarrow> rom_wr d 0x8400 0;
     v \<leftarrow> read32 d 0x8400;
     omod (rb_cleanupDmac_update (\<lambda>_. v));
     rom_flag 2 (rom_matches 0x8400 v 0xffffffff 0);
     ret (c \<and> f) } }"

definition rom_clean_reason :: "'s Device \<Rightarrow> u32 \<Rightarrow> u16 \<Rightarrow> ('s, bool) rom" where
  "rom_clean_reason d sec reason = do {
     phase \<leftarrow> ogets rb_phase;
     if 5 \<le> phase then do {
       s \<leftarrow> rom_wr d 0xc00 sec;
       omod (\<lambda>r. r\<lparr>rb_writes := rb_writes r + 1\<rparr>);
       b \<leftarrow> write16 d 0x1e6 reason;
       ret (s \<and> b) }
     else ret True }"

definition rom_shutdown :: "'s Device \<Rightarrow> u32 \<Rightarrow> u16 \<Rightarrow> ('s, unit) rom" where
  "rom_shutdown d sec reason = do {
     a \<leftarrow> rom_clean_cpu d;
     b \<leftarrow> rom_clean_hci d;
     c \<leftarrow> rom_clean_access d;
     e \<leftarrow> rom_clean_reason d sec reason;
     platform \<leftarrow> read32 d 0x88;
     clock \<leftarrow> read32 d 8;
     control \<leftarrow> read32 d 0x1e0;
     let stopped = (\<not> rom_invalid platform \<and> platform AND 2 = 0 \<and> \<not> rom_invalid clock \<and> clock AND 0x4000 = 0 \<and> \<not> rom_invalid control \<and> control AND 7 = 0);
     omod (rb_cpuStopped_update (\<lambda>_. stopped));
     phase \<leftarrow> ogets rb_phase;
     (if 5 \<le> phase then rom_flag 8 (andM (do { v \<leftarrow> read32 d 0xc00; ret (v = sec) }) (do { w \<leftarrow> read16 d 0x1e6; ret (w = reason) })) else ret ());
     rom_flag 64 (ret (a \<and> b \<and> c \<and> e));
     rom_flag 128 (ret stopped);
     command \<leftarrow> readCommand d;
     rom_flag 256 (ret (command AND 6 = 2));
     omod (\<lambda>r. r\<lparr>rb_cleanupOK := (rb_cleanupFailures r = 0)\<rparr>);
     omod (\<lambda>r. r\<lparr>rb_status := (if rb_cleanupOK r then rb_operationStatus r else Rs_cleanupFailed)\<rparr>) }"

text \<open>From the attempt on.\<close>

definition rom_session :: "'s Device \<Rightarrow> ('s \<Rightarrow> 's) \<Rightarrow> u32 \<Rightarrow> u16 \<Rightarrow> ('s, unit) rom" where
  "rom_session d action sec reason = do {
     rom_attempt d reason;
     ready \<leftarrow> ogets (\<lambda>r. rb_status r = Rs_ready);
     (if ready then ddo action else ret ());
     omod (\<lambda>r. r\<lparr>rb_operationStatus := rb_status r\<rparr>);
     rom_shutdown d sec reason }"

definition probeWithAction :: "'s Device \<Rightarrow> ('s \<Rightarrow> 's) \<Rightarrow> ('s, unit) rom" where
  "probeWithAction d action = do {
     command \<leftarrow> readCommand d;
     if command AND 6 \<noteq> 2 then omod (rb_status_update (\<lambda>_. Rs_unsafeCommand)) else do {
     sec \<leftarrow> read32 d 0xc00;
     reason \<leftarrow> read16 d 0x1e6;
     dmac \<leftarrow> read32 d 0x8400;
     hci \<leftarrow> read32 d 0x1000;
     omod (\<lambda>r. r\<lparr>rb_initialDmac := dmac, rb_initialHci := hci\<rparr>);
     if rom_invalid dmac \<or> rom_invalid sec \<or> reason = 0xffff then omod (rb_status_update (\<lambda>_. Rs_invalidRead)) else do {
     omod (rb_attempted_update (\<lambda>_. True));
     rom_session d action sec reason } } }"

definition rom_probe :: "'s Device \<Rightarrow> ('s, unit) rom" where
  "rom_probe d = probeWithAction d (\<lambda>s. s)"

text \<open>A second probe only confirms a first one that succeeded and shut down.\<close>

record RepeatedResult =
  rr2_first :: RomProbe
  rr2_second :: RomProbe
  rr2_secondAttempted :: bool

definition probeRepeated :: "'s Device \<Rightarrow> (RepeatedResult, 's, unit) prog" where
  "probeRepeated d = do {
     first \<leftarrow> within RomProbe0 (rom_probe d);
     omod (rr2_first_update (\<lambda>_. first));
     if rb_status first = Rs_ready \<and> rb_cleanupOK first then do {
       omod (rr2_secondAttempted_update (\<lambda>_. True));
       second \<leftarrow> within RomProbe0 (rom_probe d);
       omod (rr2_second_update (\<lambda>_. second)) }
     else ret () }"

section \<open>The attempt's record\<close>

lemma keeps_ddo [keep_rules]: "keeps P (ddo f) (\<lambda>_. P)"
  by (simp add: keeps_def wp_dcall)

lemma keeps_all_same [keep_rules]: "(\<And>x. x \<in> set xs \<Longrightarrow> keeps P (f x) (\<lambda>_. P)) \<Longrightarrow> keeps P (allM f xs) (\<lambda>_. P)"
  by (induction xs) (auto intro!: keep_rules)

lemma keeps_each_same [keep_rules]: "(\<And>x. x \<in> set xs \<Longrightarrow> keeps P (f x) (\<lambda>_. P)) \<Longrightarrow> keeps P (eachM f xs) (\<lambda>_. P)"
  by (induction xs) (auto intro!: keep_rules)

text \<open>While the attempt goes on: the window was opened, nothing is reported ready, and what was captured is what will be restored.\<close>

definition rom_trying :: "bool \<Rightarrow> RomProbe \<Rightarrow> bool" where
  "rom_trying c r \<longleftrightarrow> rb_attempted r \<and> rb_accessAttempted r \<and> rb_status r \<noteq> Rs_ready \<and> (rb_hciCaptured r \<longrightarrow> rl_hci r = rb_hciBefore r \<and> rl_stop r = rb_stopBefore r) \<and>
     (c \<longrightarrow> rb_hciCaptured r)"

lemma trying_end [keep_rules]: "st \<noteq> Rs_ready \<Longrightarrow> keeps (rom_trying c) (rom_end st) (\<lambda>_. rom_trying c)"
  unfolding rom_end_def by (intro keep_rules) (simp add: rom_trying_def)

lemma trying_matches [keep_rules]: "keeps (rom_trying c) (rom_matches a v m e) (\<lambda>_. rom_trying c)"
  unfolding rom_matches_def by (intro keep_rules) (simp add: rom_trying_def)

lemma trying_or_end [keep_rules]: "st \<noteq> Rs_ready \<Longrightarrow> keeps (rom_trying c) m (\<lambda>_. rom_trying c) \<Longrightarrow> keeps (rom_trying c) (or_end st m) (\<lambda>_. rom_trying c)"
  unfolding or_end_def by (intro keep_rules; assumption)

lemma trying_wr [keep_rules]: "keeps (rom_trying c) (rom_wr d a v) (\<lambda>_. rom_trying c)"
  unfolding rom_wr_def by (intro keep_rules) (simp_all add: rom_trying_def)

lemma trying_rm [keep_rules]: "keeps (rom_trying c) (rom_rm d a m v) (\<lambda>_. rom_trying c)"
  unfolding rom_rm_def by (intro keep_rules) simp

lemma trying_poll [keep_rules]:
  assumes "\<And>v r. rom_trying c r \<Longrightarrow> rom_trying c (keep v r)"
  shows "keeps (rom_trying c) (rom_poll d a m w t keep) (\<lambda>_. rom_trying c)"
proof -
  have "keeps (rom_trying c) (rom_poll_loop d a m w tm keep start k) (\<lambda>_. rom_trying c)" for tm start k
  proof (induction k)
    case (Suc k)
    have "rom_trying c r \<Longrightarrow> rom_trying c (keep v (r\<lparr>rb_polls := n\<rparr>))" for r v n using assms [of "r\<lparr>rb_polls := n\<rparr>" v] by (simp add: rom_trying_def)
    then show ?case using Suc by (auto intro!: keep_rules)
  qed (auto intro!: keep_rules)
  then show ?thesis unfolding rom_poll_def by (intro keep_rules)
qed

lemma trying_lists [keep_rules]: "keeps (rom_trying c) (rom_rms d xs) (\<lambda>_. rom_trying c)" "keeps (rom_trying c) (rom_wrs d ys) (\<lambda>_. rom_trying c)"
    "keeps (rom_trying c) (rom_phase n) (\<lambda>_. rom_trying c)"
  unfolding rom_rms_def rom_wrs_def rom_phase_def by (auto intro!: keep_rules simp: rom_trying_def)

lemma trying_phases [keep_rules]:
  "keeps (rom_trying c) (rom_pause d) (\<lambda>_. rom_trying c)" "keeps (rom_trying c) (rom_layout d) (\<lambda>_. rom_trying c)"
  "keeps (rom_trying c) (rom_linked d) (\<lambda>_. rom_trying c)" "keeps (rom_trying c) (rom_hfc d) (\<lambda>_. rom_trying c)"
  "keeps (rom_trying c) (rom_reset d reason) (\<lambda>_. rom_trying c)"
  unfolding rom_pause_def rom_layout_def rom_linked_def rom_hfc_def rom_reset_def
  by (auto intro!: keep_rules simp: rom_trying_def)

text \<open>What the attempt leaves for the shutdown.\<close>

definition rom_tried :: "RomProbe \<Rightarrow> bool" where
  "rom_tried r \<longleftrightarrow> rb_attempted r \<and> rb_accessAttempted r \<and> (rb_hciCaptured r \<longrightarrow> rl_hci r = rb_hciBefore r \<and> rl_stop r = rb_stopBefore r) \<and>
     (rb_status r = Rs_ready \<longrightarrow> rb_hciCaptured r)"

lemma keeps_chain: "keeps P m (\<lambda>_. P) \<Longrightarrow> keeps P n Q \<Longrightarrow> (\<And>y. P y \<Longrightarrow> Q False y) \<Longrightarrow> keeps P (andM m n) Q"
  by (rule keeps_and [where R = P and E = P]) simp_all

lemma wait_tried: "keeps (rom_trying True) (rom_wait d) (\<lambda>_. rom_tried)"
proof -
  have "keeps (rom_trying True) (do { omod (rb_status_update (\<lambda>_. Rs_ready)); ret True }) (\<lambda>_. rom_tried)"
    by (simp add: keeps_def wp_simps rom_trying_def rom_tried_def)
  then have fin: "keeps (rom_trying True) (andM m (do { omod (rb_status_update (\<lambda>_. Rs_ready)); ret True })) (\<lambda>_. rom_tried)"
    if "keeps (rom_trying True) m (\<lambda>_. rom_trying True)" for m :: "('a, bool) rom"
    using that by (intro keeps_chain) (auto simp: rom_trying_def rom_tried_def)
  have en: "st \<noteq> Rs_ready \<Longrightarrow> keeps (rom_trying True) (rom_end st) (\<lambda>_. rom_tried)" for st
    by (rule keeps_weaken [OF trying_end]) (auto simp: rom_trying_def rom_tried_def)
  show ?thesis unfolding rom_wait_def Let_def
    by (rule keeps_chain keeps_bind [where R = "\<lambda>_. rom_trying True"] keeps_if fin en keep_rules | simp add: rom_trying_def rom_tried_def)+
qed

lemma access_trying: "keeps (\<lambda>r. rb_attempted r \<and> rb_status r \<noteq> Rs_ready \<and> \<not> rb_hciCaptured r) (rom_access d) (\<lambda>a. rom_trying a)"
proof -
  let ?Q = "\<lambda>a. rom_trying a" and ?N = "\<lambda>r. rom_trying False r \<and> \<not> rb_hciCaptured r"
  have ops: "keeps ?N (rom_wr d a v) (\<lambda>_. ?N)" "keeps ?N (or_end Rs_writeFailed (rom_matches a v m e)) (\<lambda>_. ?N)" for a v m e
    by (auto simp: keeps_def wp_simps wp_dcall rom_wr_def rom_end_def or_end_def rom_matches_def rom_trying_def)
  have last: "keeps ?N (do {
       omod (rb_accessReady_update (\<lambda>_. True));
       hci \<leftarrow> read32 d 0x1000;
       stop \<leftarrow> read32 d 0x1010;
       omod (\<lambda>r. r\<lparr>rl_hci := hci, rl_stop := stop\<rparr>);
       if rom_invalid hci \<or> rom_invalid stop then rom_end Rs_invalidRead
       else do {
         omod (\<lambda>r. r\<lparr>rb_hciBefore := hci, rb_stopBefore := stop, rb_hciCaptured := True\<rparr>);
         ret True } }) ?Q"
    by (auto simp: keeps_def wp_simps wp_dcall rom_end_def rom_trying_def)
  have step: "keeps ?N (andM m n) ?Q" if "keeps ?N m (\<lambda>_. ?N)" "keeps ?N n ?Q" for m n :: "('a, bool) rom"
    by (rule keeps_chain [OF that]) simp
  have rd: "keeps ?N (State_Monad.bind (read32 d a) (\<lambda>v. State_Monad.bind (omod (h v)) (\<lambda>_. n v))) ?Q"
    if "\<And>v r. ?N r \<Longrightarrow> ?N (h v r)" "\<And>v. keeps ?N (n v) ?Q" for a h and n :: "u32 \<Rightarrow> ('a, bool) rom"
    by (rule keeps_bind [where R = "\<lambda>_. ?N"], rule keep_rules, rule keeps_bind [where R = "\<lambda>_. ?N"], rule keep_rules, rule that(1), assumption, rule that(2))
  have tail: "keeps ?N (andM (rom_wr d 0x8400 0x60440000) (do {
       v \<leftarrow> read32 d 0x8400;
       omod (rb_accessDmac_update (\<lambda>_. v));
       andM (or_end Rs_writeFailed (rom_matches 0x8400 v 0xffffffff 0x60440000)) (andM (rom_wr d 0x8404 0x00040000) (do {
       v \<leftarrow> read32 d 0x8404;
       omod (rb_accessClock_update (\<lambda>_. v));
       andM (or_end Rs_writeFailed (rom_matches 0x8404 v 0xffffffff 0x00040000)) (do {
       omod (rb_accessReady_update (\<lambda>_. True));
       hci \<leftarrow> read32 d 0x1000;
       stop \<leftarrow> read32 d 0x1010;
       omod (\<lambda>r. r\<lparr>rl_hci := hci, rl_stop := stop\<rparr>);
       if rom_invalid hci \<or> rom_invalid stop then rom_end Rs_invalidRead
       else do {
         omod (\<lambda>r. r\<lparr>rb_hciBefore := hci, rb_stopBefore := stop, rb_hciCaptured := True\<rparr>);
         ret True } }) })) })) ?Q"
    by (rule step, rule ops, rule rd, simp add: rom_trying_def, rule step, rule ops, rule step, rule ops, rule rd, simp add: rom_trying_def, rule step, rule ops, rule last)
  show ?thesis unfolding rom_access_def
    by (rule keeps_bind [OF _ tail]) (simp add: keeps_def wp_simps rom_trying_def)
qed

lemma attempt_tried: "keeps (\<lambda>r. rb_attempted r \<and> rb_status r \<noteq> Rs_ready \<and> \<not> rb_hciCaptured r) (rom_attempt d reason) (\<lambda>_. rom_tried)"
proof -
  have t: "rom_trying c r \<Longrightarrow> rom_tried r" for c r by (simp add: rom_trying_def rom_tried_def)
  have rest: "keeps (rom_trying True) (andM (rom_pause d) (andM (rom_layout d) (andM (rom_linked d) (andM (rom_hfc d) (andM (rom_reset d reason) (rom_wait d)))))) (\<lambda>_. rom_tried)"
    by (rule keeps_chain keep_rules wait_tried t | assumption)+
  show ?thesis unfolding rom_attempt_def
  proof (rule keeps_and [where R = "rom_trying True" and E = "rom_trying False"])
    show "keeps (\<lambda>r. rb_attempted r \<and> rb_status r \<noteq> Rs_ready \<and> \<not> rb_hciCaptured r) (rom_access d) (\<lambda>a y. if a then rom_trying True y else rom_trying False y)"
      by (rule keeps_weaken [OF access_trying]) (auto split: if_splits)
  qed (use rest t in auto)
qed

section \<open>The shutdown's record\<close>

definition rom_held :: "nat \<Rightarrow> RomProbe \<Rightarrow> bool" where
  "rom_held n r \<longleftrightarrow> rb_attempted r \<and> rb_accessAttempted r \<and> (rb_operationStatus r = Rs_ready \<longrightarrow> rb_hciCaptured r) \<and>
     (rb_hciCaptured r \<longrightarrow> rl_hci r = rb_hciBefore r \<and> rl_stop r = rb_stopBefore r) \<and>
     (1 \<le> n \<and> rb_hciCaptured r \<longrightarrow> (\<not> bit (rb_cleanupFailures r) 4 \<longrightarrow> rb_hciAfter r = rl_hci r) \<and> (\<not> bit (rb_cleanupFailures r) 5 \<longrightarrow> rb_stopAfter r = rl_stop r)) \<and>
     (2 \<le> n \<longrightarrow> (\<not> bit (rb_cleanupFailures r) 2 \<longrightarrow> rb_cleanupClockChecked r \<and> rb_cleanupClock r = 0) \<and> (\<not> bit (rb_cleanupFailures r) 1 \<longrightarrow> rb_cleanupDmac r = 0))"

lemma held_matches [keep_rules]: "keeps (rom_held n) (rom_matches a v m e) (\<lambda>_. rom_held n)"
  unfolding rom_matches_def by (intro keep_rules) (simp add: rom_held_def)

lemma held_wr [keep_rules]: "keeps (rom_held n) (rom_wr d a v) (\<lambda>_. rom_held n)"
  unfolding rom_wr_def rom_end_def by (intro keep_rules) (simp_all add: rom_held_def)

lemma held_rm [keep_rules]: "keeps (rom_held n) (rom_rm d a m v) (\<lambda>_. rom_held n)"
  unfolding rom_rm_def rom_end_def by (intro keep_rules) (simp_all add: rom_held_def)

lemma held_flag [keep_rules]: "keeps (rom_held n) m (\<lambda>_. rom_held n) \<Longrightarrow> keeps (rom_held n) (rom_flag b m) (\<lambda>_. rom_held n)"
  unfolding rom_flag_def by (intro keep_rules) (auto simp: rom_held_def bit_or_iff)

lemma held_clean [keep_rules]: "keeps (rom_held n) (rom_clean_cpu d) (\<lambda>_. rom_held n)" "keeps (rom_held n) (rom_clean_reason d sec reason) (\<lambda>_. rom_held n)"
  unfolding rom_clean_cpu_def rom_clean_reason_def by (auto intro!: keep_rules simp: rom_held_def)

lemma full_mask: "(v :: u32) AND 0xffffffff = v"
proof -
  have "(0xffffffff :: u32) = - 1" by simp
  then show ?thesis by (metis and.right_neutral)
qed

lemma shutdown_bits: "bit (x OR 16 :: u32) 4" "bit (x OR 32 :: u32) 5" "bit (x OR 4 :: u32) 2" "bit (x OR 2 :: u32) 1"
  by (simp_all add: bit_or_iff bit_numeral_word_iff)

lemma held_hci: "keeps (rom_held 0) (rom_clean_hci d) (\<lambda>_. rom_held 1)"
proof -
  let ?H = "\<lambda>hci stop r. rom_held 0 r \<and> rl_hci r = hci \<and> rl_stop r = stop"
  have wr: "keeps (?H hci stop) (rom_wr d a v) (\<lambda>_. ?H hci stop)" for hci stop a v
    by (auto simp: keeps_def wp_simps wp_dcall rom_wr_def rom_end_def rom_held_def)
  have flags: "keeps (?H hci stop) (do {
       hciAfter \<leftarrow> read32 d 0x1000;
       stopAfter \<leftarrow> read32 d 0x1010;
       omod (\<lambda>r. r\<lparr>rb_hciAfter := hciAfter, rb_stopAfter := stopAfter\<rparr>);
       rom_flag 16 (rom_matches 0x1000 hciAfter 0xffffffff hci);
       rom_flag 32 (rom_matches 0x1010 stopAfter 0xffffffff stop);
       ret v }) (\<lambda>_. rom_held 1)" for hci stop and v :: bool
    by (auto simp: keeps_def wp_simps wp_dcall rom_flag_def rom_matches_def rom_held_def bit_or_iff shutdown_bits full_mask)
  have body: "keeps (rom_held 0) (do {
     hci \<leftarrow> ogets rl_hci;
     stop \<leftarrow> ogets rl_stop;
     st \<leftarrow> rom_wr d 0x1010 stop;
     h \<leftarrow> rom_wr d 0x1000 hci;
     hciAfter \<leftarrow> read32 d 0x1000;
     stopAfter \<leftarrow> read32 d 0x1010;
     omod (\<lambda>r. r\<lparr>rb_hciAfter := hciAfter, rb_stopAfter := stopAfter\<rparr>);
     rom_flag 16 (rom_matches 0x1000 hciAfter 0xffffffff hci);
     rom_flag 32 (rom_matches 0x1010 stopAfter 0xffffffff stop);
     ret (st \<and> h) }) (\<lambda>_. rom_held 1)"
    by (rule keeps_bind [where R = "\<lambda>hci r. rom_held 0 r \<and> rl_hci r = hci"], rule keeps_obj, simp,
        rule keeps_bind [where R = "\<lambda>stop r. ?H _ stop r"], rule keeps_obj, simp, rule keeps_bind [OF wr], rule keeps_bind [OF wr], rule flags)
  have none: "keeps (\<lambda>r. rom_held 0 r \<and> \<not> rb_hciCaptured r) (ret True) (\<lambda>_. rom_held 1)" by (auto simp: keeps_def wp_simps rom_held_def)
  show ?thesis unfolding rom_clean_hci_def
  proof (rule keeps_bind [where R = "\<lambda>c r. rom_held 0 r \<and> rb_hciCaptured r = c"])
    show "keeps (rom_held 0) (ogets rb_hciCaptured) (\<lambda>c r. rom_held 0 r \<and> rb_hciCaptured r = c)" by (rule keeps_obj) simp
  qed (rule keeps_if, (rule keeps_weaken [OF none]; simp), (rule keeps_weaken [OF body]; simp))
qed

lemma held_access: "keeps (rom_held 1) (rom_clean_access d) (\<lambda>_. rom_held 2)"
proof -
  let ?C = "\<lambda>r. rom_held 1 r \<and> (\<not> bit (rb_cleanupFailures r) 2 \<longrightarrow> rb_cleanupClockChecked r \<and> rb_cleanupClock r = 0)"
  have wr: "keeps ?C (rom_wr d a v) (\<lambda>_. ?C)" for a v
    by (auto simp: keeps_def wp_simps wp_dcall rom_wr_def rom_end_def rom_held_def)
  have clock: "keeps (rom_held 1) (do {
         v \<leftarrow> read32 d 0x8404;
         omod (\<lambda>r. r\<lparr>rb_cleanupClock := v, rb_cleanupClockChecked := True\<rparr>);
         rom_flag 4 (rom_matches 0x8404 v 0xffffffff 0);
         ret c }) (\<lambda>_. ?C)" for c :: bool
    by (auto simp: keeps_def wp_simps wp_dcall rom_flag_def rom_matches_def rom_held_def bit_or_iff shutdown_bits full_mask)
  have shut: "keeps (rom_held 1) (do { rom_flag 4 (ret False); ret True }) (\<lambda>_. ?C)"
    by (auto simp: keeps_def wp_simps rom_flag_def rom_held_def bit_or_iff shutdown_bits)
  have dmac: "keeps ?C (do {
     v \<leftarrow> read32 d 0x8400;
     omod (rb_cleanupDmac_update (\<lambda>_. v));
     rom_flag 2 (rom_matches 0x8400 v 0xffffffff 0);
     ret c }) (\<lambda>_. rom_held 2)" for c :: bool
    by (auto simp: keeps_def wp_simps wp_dcall rom_flag_def rom_matches_def rom_held_def bit_or_iff shutdown_bits full_mask)
  show ?thesis unfolding rom_clean_access_def
    by (rule keeps_bind [where R = "\<lambda>c r. rom_held 1 r \<and> c"], rule keeps_obj, simp add: rom_held_def, rule keeps_if, (simp add: keeps_def),
        rule keeps_bind [where R = "\<lambda>_. rom_held 1"], (simp add: keeps_def wp_dcall), rule keeps_bind [where R = "\<lambda>_. ?C"], rule keeps_if,
        rule keeps_bind [OF held_wr clock], rule shut, rule keeps_bind [OF wr], rule dmac)
qed

text \<open>What the final report says.\<close>

definition rom_verdict :: "RomProbe \<Rightarrow> bool" where
  "rom_verdict r \<longleftrightarrow> rb_attempted r \<and> rb_cleanupOK r = (rb_cleanupFailures r = 0) \<and> rb_status r = (if rb_cleanupOK r then rb_operationStatus r else Rs_cleanupFailed) \<and>
     (rb_cleanupOK r \<longrightarrow> rb_cpuStopped r \<and> rb_cleanupClockChecked r \<and> rb_cleanupClock r = 0 \<and> rb_cleanupDmac r = 0 \<and>
       (rb_hciCaptured r \<longrightarrow> rb_hciAfter r = rb_hciBefore r \<and> rb_stopAfter r = rb_stopBefore r)) \<and>
     (rb_status r = Rs_ready \<longrightarrow> rb_hciCaptured r)"

lemma shutdown_verdict:
  fixes d :: "'s Device"
  shows "keeps (rom_held 0) (rom_shutdown d sec reason) (\<lambda>_. rom_verdict)"
proof -
  let ?T = "\<lambda>st r. rom_held 2 r \<and> rb_cpuStopped r = st"
  have flag: "keeps (?T st) m (\<lambda>_. ?T st) \<Longrightarrow> keeps (?T st) (rom_flag b m) (\<lambda>_. ?T st)" for st b and m :: "('s, bool) rom"
    unfolding rom_flag_def by (intro keep_rules) (auto simp: rom_held_def bit_or_iff)
  let ?E = "\<lambda>st r. ?T st r \<and> (\<not> bit (rb_cleanupFailures r) 7 \<longrightarrow> st)"
  have report: "rom_held 2 r \<Longrightarrow> rb_cleanupFailures r = 0 \<Longrightarrow> rb_cpuStopped r \<Longrightarrow> rom_verdict (r\<lparr>rb_cleanupOK := True, rb_status := rb_operationStatus r\<rparr>)"
      "rom_held 2 r \<Longrightarrow> rb_cleanupFailures r \<noteq> 0 \<Longrightarrow> rom_verdict (r\<lparr>rb_cleanupOK := False, rb_status := Rs_cleanupFailed\<rparr>)" for r
    by (simp_all add: rom_held_def rom_verdict_def)
  have cmd: "keeps (?E st) (rom_flag 256 (ret v) :: ('s, unit) rom) (\<lambda>_. ?E st)" for st v
    by (cases v) (auto simp: keeps_def wp_simps rom_flag_def rom_held_def bit_or_iff)
  have rest: "keeps (?E st) (do {
     omod (\<lambda>r. r\<lparr>rb_cleanupOK := (rb_cleanupFailures r = 0)\<rparr>);
     omod (\<lambda>r. r\<lparr>rb_status := (if rb_cleanupOK r then rb_operationStatus r else Rs_cleanupFailed)\<rparr>) } :: ('s, unit) rom) (\<lambda>_. rom_verdict)" for st
    unfolding keeps_def wp_simps by (simp add: report)
  have rc: "keeps (?E st) (readCommand d) (\<lambda>_. ?E st)" for st by (rule keep_rules)
  have stop: "keeps (?T st) (rom_flag 128 (ret st) :: ('s, unit) rom) (\<lambda>_ r. ?T st r \<and> (\<not> bit (rb_cleanupFailures r) 7 \<longrightarrow> st))" for st
    by (auto simp: keeps_def wp_simps rom_flag_def rom_held_def bit_or_iff bit_numeral_word_iff)
  have restore: "keeps (?T st) (if p then rom_flag 8 (andM (do { v \<leftarrow> read32 d 0xc00; ret (v = sec) }) (do { w \<leftarrow> read16 d 0x1e6; ret (w = reason) })) else ret ()) (\<lambda>_. ?T st)" for st p
    by (intro keeps_if flag keep_rules)
  have ok: "keeps (?T st) (rom_flag 64 (ret v) :: ('s, unit) rom) (\<lambda>_. ?T st)" for st v by (intro flag keep_rules)
  have set: "keeps (rom_held 2) (omod (rb_cpuStopped_update (\<lambda>_. st)) :: ('s, unit) rom) (\<lambda>_. ?T st)" for st by (rule keeps_obj) (simp add: rom_held_def)
  have rd: "keeps (rom_held 2) (read32 d a) (\<lambda>_. rom_held 2)" for a by (rule keep_rules)
  have ph: "keeps (?T st) (ogets rb_phase :: ('s, nat) rom) (\<lambda>_. ?T st)" for st by (rule keep_rules)
  show ?thesis unfolding rom_shutdown_def Let_def
    by (rule keeps_bind [OF held_clean(1)], rule keeps_bind [OF held_hci], rule keeps_bind [OF held_access], rule keeps_bind [OF held_clean(2)],
        rule keeps_bind [OF rd], rule keeps_bind [OF rd], rule keeps_bind [OF rd], rule keeps_bind [OF set], rule keeps_bind [OF ph],
        rule keeps_bind [OF restore], rule keeps_bind [OF ok], rule keeps_bind [OF stop], rule keeps_bind [OF rc], rule keeps_bind [OF cmd], rule rest)
qed

section \<open>What the probe does to a device\<close>

definition rom_events :: "dev_event set" where
  "rom_events = {Ev_write32 a v | a v. rom_allowed32 a} \<union> {Ev_write16 0x1e6 v | v. True} \<union> range Ev_pause"

lemma rom_events_in [simp]: "Ev_write32 a v \<in> rom_events \<longleftrightarrow> rom_allowed32 a" "Ev_write16 0x1e6 w \<in> rom_events" "Ev_pause t \<in> rom_events"
  by (auto simp: rom_events_def)

lemma frames_rom_small [frame_rules]: "frames W (rom_end st)" "frames W (rom_matches a v m e)" "frames W (rom_phase n)"
  unfolding rom_end_def rom_matches_def rom_phase_def by (intro frame_rules)+

lemma frames_rom_or [frame_rules]: "frames W m \<Longrightarrow> frames W (or_end st m)" "frames W m \<Longrightarrow> frames W (rom_flag b m)"
  unfolding or_end_def rom_flag_def by (intro frame_rules; assumption)+

lemma frames_rom_write [frame_rules]:
  assumes "rom_allowed32 a"
  shows "frames rom_events (rom_wr (logged d) a v)" "frames rom_events (rom_rm (logged d) a m v)"
  unfolding rom_rm_def rom_wr_def using assms by (auto intro!: frame_rules)

lemma frames_rom_poll [frame_rules]: "frames rom_events (rom_poll (logged d) a m w t keep)"
proof -
  have "frames rom_events (rom_poll_loop (logged d) a m w tm keep start k)" for tm start k
    by (induction k) (auto intro!: frame_rules)
  then show ?thesis unfolding rom_poll_def by (auto intro!: frame_rules simp del: rom_poll_loop.simps add_Suc_right)
qed

lemma frames_rom_lists [frame_rules]:
  "(\<forall>(a, m, v) \<in> set xs. rom_allowed32 a) \<Longrightarrow> frames rom_events (rom_rms (logged d) xs)" "(\<forall>(a, v) \<in> set ys. rom_allowed32 a) \<Longrightarrow> frames rom_events (rom_wrs (logged d) ys)"
  unfolding rom_rms_def rom_wrs_def by (auto intro!: frame_rules)

lemma quota_allowed: "i < 11 \<Longrightarrow> rom_allowed32 (0x9040 + of_nat i * 4)"
proof -
  have "\<forall>i \<in> set [0..<11]. rom_allowed32 (0x9040 + of_nat i * 4)" by (simp add: rom_allowed32_def upt_rec word_le_nat_alt)
  then show "i < 11 \<Longrightarrow> ?thesis" by simp
qed

lemma rom_allowed [simp]: "rom_allowed32 0x8400" "rom_allowed32 0x8404" "rom_allowed32 0x1000" "rom_allowed32 0x1010" "rom_allowed32 0x8c08" "rom_allowed32 0x9008"
  "rom_allowed32 0x8c40" "rom_allowed32 0x8c44" "rom_allowed32 0x8c4c" "rom_allowed32 0x8c50" "rom_allowed32 0x8a00" "rom_allowed32 0x8a04" "rom_allowed32 0x88"
  "rom_allowed32 0x1e0" "rom_allowed32 8" "rom_allowed32 0x1f4" "rom_allowed32 0x1f8" "rom_allowed32 0x160" "rom_allowed32 0x164" "rom_allowed32 0x168"
  "rom_allowed32 0x16c" "rom_allowed32 0xc00"
  by (simp_all add: rom_allowed32_def)

lemma frames_rom_phases [frame_rules]:
  "frames rom_events (rom_access (logged d))" "frames rom_events (rom_pause (logged d))" "frames rom_events (rom_layout (logged d))"
  "frames rom_events (rom_linked (logged d))" "frames rom_events (rom_hfc (logged d))" "frames rom_events (rom_reset (logged d) reason)"
  "frames rom_events (rom_wait (logged d))"
  unfolding rom_access_def rom_pause_def rom_layout_def rom_linked_def rom_hfc_def rom_reset_def rom_wait_def Let_def
  by (auto intro!: frame_rules quota_allowed)

lemma frames_rom_attempt [frame_rules]: "frames rom_events (rom_attempt (logged d) reason)"
  unfolding rom_attempt_def by (intro frame_rules)

lemma frames_rom_shutdown [frame_rules]: "frames rom_events (rom_shutdown (logged d) sec reason)"
  unfolding rom_shutdown_def rom_clean_cpu_def rom_clean_hci_def rom_clean_access_def rom_clean_reason_def Let_def
  by (auto intro!: frame_rules)

lemma session_verdict:
  fixes d :: "'s Device"
  shows "keeps (\<lambda>r. rb_attempted r \<and> rb_status r \<noteq> Rs_ready \<and> \<not> rb_hciCaptured r) (rom_session d action sec reason) (\<lambda>_. rom_verdict)"
proof -
  have set: "keeps rom_tried (omod (\<lambda>r. r\<lparr>rb_operationStatus := rb_status r\<rparr>) :: ('s, unit) rom) (\<lambda>_. rom_held 0)"
    by (rule keeps_obj) (simp add: rom_tried_def rom_held_def)
  show ?thesis unfolding rom_session_def
    by (rule keeps_bind [OF attempt_tried], rule keeps_bind [where R = "\<lambda>_. rom_tried"], rule keep_rules, rule keeps_bind [where R = "\<lambda>_. rom_tried"],
        rule keep_rules, rule keep_rules, rule keep_rules, rule keeps_bind [OF set], rule shutdown_verdict)
qed

lemma frames_rom_session: "frames rom_events (rom_session (logged d) (behind action) sec reason)"
  unfolding rom_session_def by (intro frame_rules)


end
