(* ===== verification/Spec2Isabelle.thy ===== *)
theory Spec2Isabelle
  imports FirmwareTransfer FirmwareDmaQueue StationJoin RxAssembly FirmwareCommands PciRings DevicePower PciLink BasebandGain RadioInitialization RadioBootSequence
    ScanSession PowerCycle RomBoot
begin

text \<open>A verification library for the RTL8852BE driver, an experimental macOS network driver for a PCIe wireless adapter. All sources are under
  \<open>src/src\<close>; paths below leave that prefix out.

  \<^bold>\<open>The program.\<close> The driver powers the device on, reads its calibration fuses, downloads firmware, sets up DMA rings, programs and calibrates the radio,
  and then runs a station: commands to the firmware go through one ring, frames through others, and a state machine joins a network, while a
  scan collects what is on the air. Its logic is written as header-only classes over abstract devices; a thin layer of IOKit classes
  implements the devices. The library models the classes.

  \<^bold>\<open>How it is modelled.\<close> A class is a record of its members, an operation a function from the record, its arguments and the device to
  its result and the new record. A template parameter or a reference to a device or a backend is a record of functions on an arbitrary device
  state, so a theorem about an operation holds whatever the device answers, and when it answers nothing useful. Machine integers are words and
  wrap; sizes and indices that the code bounds are natural numbers. Buffers are byte lists behind checked accesses (\<open>Prelude\<close>): a read or
  write out of range makes the whole operation \<^term>\<open>None\<close>, and the theorems show that it does not happen. Null pointers are \<^term>\<open>None\<close>; where
  the code compares addresses, buffers carry them. Device programs are in the state monad (\<open>DeviceMonad\<close>, \<open>DeviceIo\<close>), with a wrapper that logs every
  access, so that \<open>frames\<close> facts bound what a program does to any device.

  \<^bold>\<open>Loops.\<close> Every bounded loop of the code (polls, retries, copies) recurses over the number of rounds the code allows, which is its own
  bound and not one of the model; the loops over encoded data (information elements, eFuse blocks, conditional tables) recurse over the
  data that is left, with termination proofs. There is no other fuel.

  \<^bold>\<open>Firmware download.\<close> \<open>FirmwarePlan\<close> (\<open>FirmwarePlan.hpp\<close>: \<open>parse\<close>, \<open>chunkAt\<close>), \<open>FirmwarePackets\<close> (\<open>FirmwarePackets.hpp\<close>) and \<open>FirmwareTransfer\<close>
  (\<open>FirmwareTransfer.hpp\<close>: \<open>transfer\<close>). Parsing never reads outside the container and accepts only plans whose sections tile the image; the packets
  carry exactly the image; a transfer publishes its packets in order, releases a buffer only when the device is known to be idle, is
  bounded, and reports completion only when it happened.

  \<^bold>\<open>Diagnostic probes.\<close> \<open>PowerCycle\<close> (\<open>PowerSequence.hpp\<close>, \<open>XtalProbe.hpp\<close>) and \<open>RomBoot\<close> (\<open>FirmwareBoot.hpp\<close>), over the rules of \<open>DeviceProbe\<close>: they write only the registers they list,
  always shut down what they started, and report success only for a confirmed shutdown.

  \<^bold>\<open>Wire formats.\<close> \<open>Descriptors\<close> (\<open>network/Rtw89DescriptorCore.hpp\<close>, \<open>network/NetworkDescriptors.hpp\<close>), \<open>FirmwareProtocol\<close> (\<open>network/FirmwareProtocol.hpp\<close>) and the first half of
  \<open>PciDataPath\<close> (\<open>network/PciDataPath.hpp\<close>): encoders are inverted by decoders (the locale \<open>wire_format\<close> of the prelude states that contract), decoders stay in bounds.

  \<^bold>\<open>Queues.\<close> \<open>DmaRing\<close> has the windows of a ring and the locale \<open>ledger\<close> of a queue that takes buffers in and gives them back; it is interpreted on the
  transmit ledger of \<open>PciDataPath\<close> and on the command ledger of \<open>FirmwareDmaQueue\<close> (\<open>network/FirmwareDmaQueue.hpp\<close>). A page comes back only after the
  hardware consumed and reported it; commands come back in order and never among the last eight. \<open>RxAssembly\<close> (\<open>network/PciRxAssembly.hpp\<close>) puts
  received segments together; any cut of a frame comes out as the frame. \<open>FirmwareCommands\<close> (\<open>network/FirmwareCommands.hpp\<close>) multiplexes
  producers over 256 sequence numbers; an acknowledgement completes its command once. \<open>PciRings\<close> (\<open>network/PciRingSetup.hpp\<close>, \<open>network/PciRuntime.hpp\<close>)
  programs, starts and stops the engine; a stop contains DMA or reports a fault.

  \<^bold>\<open>Bring-up.\<close> \<open>Efuse\<close>, \<open>EfuseReader\<close>, \<open>DavEfuseReader\<close>, \<open>DeviceCalibration\<close> (the files of these names under \<open>network/\<close>, with \<open>EfuseCalibration.hpp\<close>): readers only read
  and restore what they changed, the decoder agrees with a one-pass reference, and the composition (locale \<open>bank_readers\<close>) exposes a snapshot only
  when all of it is valid. \<open>PowerConstants\<close>, \<open>DevicePower\<close> (\<open>network/DevicePower.hpp\<close> and its sequences): only admitted registers are written and the
  first error stops the sequence (locale \<open>fail_stop\<close>). \<open>PciLink\<close> (\<open>network/PciLinkInitialization.hpp\<close>): link power management is left as found.

  \<^bold>\<open>Radio.\<close> \<open>RadioTables\<close>, \<open>RadioAccess\<close>, \<open>BasebandGain\<close>, \<open>RadioFirmware\<close>, \<open>RadioInitialization\<close>, \<open>RadioBootSequence\<close> (the files of these names under \<open>network/\<close>). The
  interpreter of conditional tables means first-match selection; a dry run predicts programming; gain records stay in their arrays; the firmware's
  pages carry the table's writes; calibration runs only under its lease.

  \<^bold>\<open>Station.\<close> \<open>StationController\<close> (\<open>network/StationController.hpp\<close>, \<open>network/ChannelGeometry.hpp\<close>) with \<open>StationInvariant\<close>, \<open>StationRun\<close> and \<open>StationJoin\<close>: over any
  backend the traffic asked for is one the state allows and an association rests on evidence; over a willing backend the port opens.

  \<^bold>\<open>Scan.\<close> \<open>ScanCache\<close> (\<open>network/NativeScanCache.hpp\<close>), \<open>ScanObserver\<close> (\<open>network/NativeScanObservation.hpp\<close>) and \<open>ForegroundScan\<close> (\<open>network/NativeForegroundScan.hpp\<close>): readers see complete,
  sorted snapshots only; adding an observation implements a map; what the frame parser accepts the cache takes; a scan is
  published exactly when every dwell completed; a request is drained exactly when no operation is outstanding. \<open>ScanSession\<close> runs owner and
  observer together; this theory states what the two give.

  \<^bold>\<open>Not modelled.\<close> The generated tables and constants are data and enter as arguments. The vendor register sequences for MAC, channel, calibration
  and Bluetooth set-up, the station table commands, the mailbox and the transmit power arithmetic are not translated; the boot sequence
  sees them as answers of its backend. The IOKit and net80211 glue, the native wireless interface above the scan components, the other
  diagnostic probes, the authentication exchange and the tools are outside. Timing is the device's clock, which the models let go
  anywhere; concurrency is the code's own rule that every object is called under one gate, so operations are sequential, and a
  callback that re-enters an object (command bus, boot sequence) is modelled as such.\<close>

section \<open>Scans from request to snapshot\<close>

text \<open>C40: A scan request admitted by its owner and begun by the observer, whose operations are handed out in rising order
  and finished in time, ends with the observer publishing this very pass and the owner completing with its token, whatever frames were received
  meanwhile, unless the cache overflowed or the clock went back.\<close>

theorem scan_request_publishes:
  assumes "ob_reach x" and "fg_begin r a e t0 (Some cs) d c = (Am_accepted, s, c0)" and "ob_begin e mode a (Some cs) x = (True, x0)"
    and "length ev = length cs" and "sorted_wrt (<) (fc_lastOperation c0 # map fst ev)" and "sorted_wrt (<) (ob_lastOperation x0 # map fst ev)"
    and "session_ok t0 (t0 + fg_timeoutUs) ev" and "scan_session e mode a ev (c0, x0) = (c1, x1)"
    and "\<not> ss_overflow (st_status (ob_store x1))" and "t0 \<le> now" and "now < t0 + fg_timeoutUs"
    and "\<forall>sm. completedSummary (ob_store x1) = Some sm \<longrightarrow> sm_completedAtUs sm \<le> now" and "\<forall>n \<in> set (gathered (ob_store x1)). en_observedAtUs n \<le> now"
  shows "\<exists>y c2. ob_finish e mode a now x1 = (True, y) \<and> map_option sm_token (ob_copySummary y) = Some (ob_pass x1) \<and>
    fg_complete (ob_pass x1) now c1 = (True, c2) \<and> fs_phase (fc_status c2) = Fp_complete \<and> fs_snapshot (fc_status c2) = ob_pass x1"
proof -
  note ready = session_ready [OF assms(1-8)]
  have w: "watching e mode a cs (length cs) x1" using ready by simp
  have reach: "ob_reach x1"
    using session_reach [of x0 e mode a ev c0] ob_reach.call [OF assms(1), of "Ob_begin e mode a (Some cs)"] assms(3,8) by simp
  obtain p y where f: "ob_finish e mode a now x1 = (p, y)" by fastforce
  have "ob_finishing e mode a x1" using w by (auto simp: ob_finishing_def watching_def)
  then have p: "p" and tok: "map_option sm_token (ob_copySummary y) = Some (ob_pass x1)"
    using ob_finish_published [OF reach _ f] w assms(9,12,13) by (auto simp: watching_def)
  have "tk_generation (ob_pass x1) \<noteq> 0" "tk_epoch (ob_pass x1) = e" using ready begin_watches [OF assms(1,3)] by (simp_all add: watching_def)
  then have "fg_complete (ob_pass x1) now c1 = (True, fg_status (\<lambda>s. s\<lparr>fs_snapshot := ob_pass x1, fs_phase := Fp_complete, fs_drained := True, fs_finishedAtUs := now\<rparr>) c1)"
    using ready assms(10,11) by (auto simp: fg_complete_def fg_readyToFinish_def fg_clockValid_def ready_after_def Let_def)
  then show ?thesis using f p tok by simp
qed

definition sample_owner :: ForegroundController where
  "sample_owner = snd (snd (fg_begin sample_ready False 1 5 (Some [sample_scan_channel]) 120 ForegroundController0))"

lemma sample_owner_eval: "fg_begin sample_ready False 1 5 (Some [sample_scan_channel]) 120 ForegroundController0 = (Am_accepted, fc_status sample_owner, sample_owner)"
    "fc_lastOperation sample_owner = 0" "fg_next sample_owner = Some sample_scan_channel"
  by (simp_all add: sample_owner_def fg_begin_def sample_ready_def ForegroundController0_def ForegroundStatus0_def ScanDwell0_def fg_active_def sample_scan_channel_def
    maxChannels_def fg_timeoutUs_def ch_valid_def fg_next_def Let_def word_less_nat_alt word_le_nat_alt)

theorem scan_request_publishes_witness:
  "\<exists>y c2. ob_finish 1 7 False 9 sample_dwelt = (True, y) \<and> fs_phase (fc_status c2) = Fp_complete \<and> fs_snapshot (fc_status c2) = sample_scan_token \<and>
     fg_complete sample_scan_token 9 (fst (scan_session 1 7 False [(4, 8, [])] (sample_owner, sample_begun))) = (True, c2)"
proof -
  have b: "ob_begin 1 7 False (Some [sample_scan_channel]) Observer0 = (True, sample_begun)"
  proof -
    define s1 where "s1 = snd (scan_begin 1 1 ScanStore0)"
    have "scan_begin 1 1 ScanStore0 = (True, s1)" by (simp add: s1_def scan_begin_def ScanStore0_def ScanStatus0_def ScanToken0_def Let_def)
    moreover have "scan_plan sample_scan_token (Some [sample_scan_channel]) s1 = (True, sample_planned)"
      unfolding s1_def by (simp add: sample_scan_defs word_le_nat_alt)
    ultimately have "fst (ob_begin 1 7 False (Some [sample_scan_channel]) Observer0)" by (simp add: ob_begin_def Observer0_def Let_def sample_scan_token_def)
    then show ?thesis by (metis prod.collapse sample_begun_def)
  qed
  have l: "ob_lastOperation sample_begun = 0" by (simp add: sample_begun_eval Observer0_def)
  have "watch_dwell 7 False \<lparr>dt_epoch = 1, dt_operation = 4\<rparr> sample_scan_channel [] sample_begun = sample_dwelt"
    by (simp add: watch_dwell_def sample_dwelt_def sample_dwelling_def sample_op_def)
  then have sess: "scan_session 1 7 False [(4, 8, [])] (sample_owner, sample_begun) = (fst (scan_session 1 7 False [(4, 8, [])] (sample_owner, sample_begun)), sample_dwelt)"
    by (simp add: sample_owner_eval)
  have "\<exists>y c2. ob_finish 1 7 False 9 sample_dwelt = (True, y) \<and> map_option sm_token (ob_copySummary y) = Some (ob_pass sample_dwelt) \<and>
      fg_complete (ob_pass sample_dwelt) 9 (fst (scan_session 1 7 False [(4, 8, [])] (sample_owner, sample_begun))) = (True, c2) \<and>
      fs_phase (fc_status c2) = Fp_complete \<and> fs_snapshot (fc_status c2) = ob_pass sample_dwelt"
    by (rule scan_request_publishes [OF ob_reach.init sample_owner_eval(1) b _ _ _ _ sess])
      (simp_all add: sample_owner_eval l sample_dwelt_store session_ok_def fg_timeoutUs_def word_less_nat_alt word_le_nat_alt)
  then show ?thesis by (auto simp: sample_dwelt_eval)
qed

end
